(* ===== verification/Prelude.thy ===== *)
theory Prelude
  imports Main "HOL-Library.AList" "HOL-Library.List_Lexorder" "HOL-Library.Char_ord"
begin

text \<open>
  Shared vocabulary of the development: Go maps as association lists with one entry per
  key (the list order is the order in which \<^verbatim>\<open>range\<close> visits the entries), 64-bit
  integer arithmetic written out on \<open>int\<close>, results that are an error or a value,
  and the interface \<open>go_map\<close> that every component with a map relies on.
\<close>

section \<open>Fact collections\<close>

named_theorems gomap_simps \<open>rewrite rules for lookups after map updates\<close>
named_theorems go_string_simps \<open>rewrite rules for the model of package strings\<close>
named_theorems frame_simps \<open>what an operation leaves unchanged\<close>

section \<open>64-bit signed integers\<close>

text \<open>
  Go's \<^verbatim>\<open>int\<close> (on the 64-bit targets of this repository) and \<^verbatim>\<open>int64\<close> wrap around.
  Values are kept as \<open>int\<close>; an arithmetic operation of the source is followed by
  \<open>wrap64\<close>.
\<close>

definition wrap64 :: "int \<Rightarrow> int" where
  "wrap64 x = (x + 2 ^ 63) mod 2 ^ 64 - 2 ^ 63"

definition int64 :: "int \<Rightarrow> bool" where
  "int64 x \<longleftrightarrow> - (2 ^ 63) \<le> x \<and> x < 2 ^ 63"

lemma wrap64_id [simp]: "int64 x \<Longrightarrow> wrap64 x = x"
  by (simp add: wrap64_def int64_def)

lemma int64_wrap64 [simp, intro]: "int64 (wrap64 x)"
proof -
  have "0 \<le> (x + 2 ^ 63) mod 2 ^ 64" "(x + 2 ^ 63) mod 2 ^ 64 < (2 :: int) ^ 64"
    by simp_all
  then show ?thesis unfolding wrap64_def int64_def by simp
qed

lemma wrap64_add_wrap64: "wrap64 (wrap64 a + b) = wrap64 (a + b)"
proof -
  have "((a + 2 ^ 63) mod 2 ^ 64 - 2 ^ 63 + b + 2 ^ 63) mod 2 ^ 64 = (a + b + 2 ^ 63) mod (2 :: int) ^ 64"
    by (simp add: mod_simps algebra_simps)
  then show ?thesis unfolding wrap64_def by simp
qed

section \<open>Results\<close>

text \<open>A Go result pair \<^verbatim>\<open>(T, error)\<close> is \<open>Inl\<close> of the error or \<open>Inr\<close> of the value.\<close>

fun is_ok :: "'e + 'a \<Rightarrow> bool" where
  "is_ok (Inl _) = False"
| "is_ok (Inr _) = True"

lemma is_ok_iff: "is_ok r \<longleftrightarrow> (\<exists>x. r = Inr x)"
  by (cases r) auto

text \<open>A loop that stops at the first error of its body.\<close>

fun map_err :: "('a \<Rightarrow> 'e + 'b) \<Rightarrow> 'a list \<Rightarrow> 'e + 'b list" where
  "map_err f [] = Inr []"
| "map_err f (x # xs) =
     (case f x of
        Inl e \<Rightarrow> Inl e
      | Inr y \<Rightarrow> (case map_err f xs of Inl e \<Rightarrow> Inl e | Inr ys \<Rightarrow> Inr (y # ys)))"

lemma map_err_Inr: "(\<And>x. x \<in> set xs \<Longrightarrow> f x = Inr (g x)) \<Longrightarrow> map_err f xs = Inr (map g xs)"
  by (induction xs) auto

lemma map_err_Inr_set:
  "map_err f xs = Inr ys \<Longrightarrow> y \<in> set ys \<Longrightarrow> \<exists>x \<in> set xs. f x = Inr y"
  by (induction xs arbitrary: ys) (auto split: sum.splits)

section \<open>Go maps\<close>

type_synonym ('k, 'v) gomap = "('k \<times> 'v) list"

definition mget :: "('k, 'v) gomap \<Rightarrow> 'k \<Rightarrow> 'v option" where
  "mget m k = map_of m k"

definition mput :: "'k \<Rightarrow> 'v \<Rightarrow> ('k, 'v) gomap \<Rightarrow> ('k, 'v) gomap" where
  "mput k v m = AList.update k v m"

definition mdel :: "'k \<Rightarrow> ('k, 'v) gomap \<Rightarrow> ('k, 'v) gomap" where
  "mdel k m = AList.delete k m"

definition mwf :: "('k, 'v) gomap \<Rightarrow> bool" where
  "mwf m \<longleftrightarrow> distinct (map fst m)"

text \<open>
  The interface the components use: lookup, store, delete, and the entries a
  \<^verbatim>\<open>range\<close> loop visits. A component's lemmas about maps are proved from these laws.
\<close>

locale go_map =
  fixes get :: "'m \<Rightarrow> 'k \<Rightarrow> 'v option"
    and put :: "'k \<Rightarrow> 'v \<Rightarrow> 'm \<Rightarrow> 'm"
    and del :: "'k \<Rightarrow> 'm \<Rightarrow> 'm"
    and entries :: "'m \<Rightarrow> ('k \<times> 'v) list"
    and wf :: "'m \<Rightarrow> bool"
  assumes get_put: "get (put k v m) j = (if j = k then Some v else get m j)"
    and get_del: "get (del k m) j = (if j = k then None else get m j)"
    and wf_put: "wf m \<Longrightarrow> wf (put k v m)"
    and wf_del: "wf m \<Longrightarrow> wf (del k m)"
    and entries_get: "wf m \<Longrightarrow> (k, v) \<in> set (entries m) \<longleftrightarrow> get m k = Some v"
begin

lemma entries_put:
  "wf m \<Longrightarrow> (j, w) \<in> set (entries (put k v m)) \<longleftrightarrow>
     (if j = k then w = v else (j, w) \<in> set (entries m))"
  by (auto simp: entries_get wf_put get_put)

lemma entries_del:
  "wf m \<Longrightarrow> (j, w) \<in> set (entries (del k m)) \<longleftrightarrow> j \<noteq> k \<and> (j, w) \<in> set (entries m)"
  by (auto simp: entries_get wf_del get_del)

lemma all_put:
  "wf m \<Longrightarrow> (\<And>j w. get m j = Some w \<Longrightarrow> P j w) \<Longrightarrow> P k v \<Longrightarrow>
     get (put k v m) j = Some w \<Longrightarrow> P j w"
  by (auto simp: get_put split: if_splits)

lemma all_del:
  "(\<And>j w. get m j = Some w \<Longrightarrow> P j w) \<Longrightarrow> get (del k m) j = Some w \<Longrightarrow> P j w"
  by (auto simp: get_del split: if_splits)

lemma get_put_same: "get (put k v m) k = Some v"
  by (simp add: get_put)

lemma get_put_other: "j \<noteq> k \<Longrightarrow> get (put k v m) j = get m j"
  by (simp add: get_put)

lemma get_del_same: "get (del k m) k = None"
  by (simp add: get_del)

end

text \<open>A table whose rows carry their own key (users by name, nodes and tunnels by id).\<close>

locale keyed_table = go_map get put del entries wf
  for get :: "'m \<Rightarrow> 'k \<Rightarrow> 'v option"
    and put :: "'k \<Rightarrow> 'v \<Rightarrow> 'm \<Rightarrow> 'm"
    and del :: "'k \<Rightarrow> 'm \<Rightarrow> 'm"
    and entries :: "'m \<Rightarrow> ('k \<times> 'v) list"
    and wf :: "'m \<Rightarrow> bool" +
  fixes key :: "'v \<Rightarrow> 'k"
begin

lemma keyed_put:
  "wf m \<Longrightarrow> \<forall>j w. (j, w) \<in> set (entries m) \<longrightarrow> key w = j \<Longrightarrow> key v = k \<Longrightarrow>
     \<forall>j w. (j, w) \<in> set (entries (put k v m)) \<longrightarrow> key w = j"
  by (auto simp: entries_put split: if_splits)

lemma keyed_del:
  "wf m \<Longrightarrow> \<forall>j w. (j, w) \<in> set (entries m) \<longrightarrow> key w = j \<Longrightarrow>
     \<forall>j w. (j, w) \<in> set (entries (del k m)) \<longrightarrow> key w = j"
  by (auto simp: entries_del)

lemma keyed_get: "wf m \<Longrightarrow> \<forall>j w. (j, w) \<in> set (entries m) \<longrightarrow> key w = j \<Longrightarrow> get m k = Some v \<Longrightarrow> key v = k"
  by (auto simp: entries_get)

end

text \<open>
  A table whose rows claim resources, no two rows the same one (ports and domains of
  tunnels): storing a row whose claims are free for others, and deleting a row, keep the
  claims exclusive, and a resource has at most one holder.
\<close>

locale claim_table = go_map get put del entries wf
  for get :: "'m \<Rightarrow> 'k \<Rightarrow> 'v option"
    and put :: "'k \<Rightarrow> 'v \<Rightarrow> 'm \<Rightarrow> 'm"
    and del :: "'k \<Rightarrow> 'm \<Rightarrow> 'm"
    and entries :: "'m \<Rightarrow> ('k \<times> 'v) list"
    and wf :: "'m \<Rightarrow> bool" +
  fixes claims :: "'v \<Rightarrow> 'c list"
begin

lemma exclusive_put:
  "wf m \<Longrightarrow>
   \<forall>i v j w. (i, v) \<in> set (entries m) \<longrightarrow> (j, w) \<in> set (entries m) \<longrightarrow> i \<noteq> j \<longrightarrow> set (claims v) \<inter> set (claims w) = {} \<Longrightarrow>
   \<forall>j w. (j, w) \<in> set (entries m) \<longrightarrow> j \<noteq> k \<longrightarrow> set (claims x) \<inter> set (claims w) = {} \<Longrightarrow>
   \<forall>i v j w. (i, v) \<in> set (entries (put k x m)) \<longrightarrow> (j, w) \<in> set (entries (put k x m)) \<longrightarrow>
     i \<noteq> j \<longrightarrow> set (claims v) \<inter> set (claims w) = {}"
  by (simp add: entries_put) blast

lemma exclusive_del:
  "wf m \<Longrightarrow>
   \<forall>i v j w. (i, v) \<in> set (entries m) \<longrightarrow> (j, w) \<in> set (entries m) \<longrightarrow> i \<noteq> j \<longrightarrow> set (claims v) \<inter> set (claims w) = {} \<Longrightarrow>
   \<forall>i v j w. (i, v) \<in> set (entries (del k m)) \<longrightarrow> (j, w) \<in> set (entries (del k m)) \<longrightarrow>
     i \<noteq> j \<longrightarrow> set (claims v) \<inter> set (claims w) = {}"
  by (simp add: entries_del) blast

lemma holder_unique:
  "wf m \<Longrightarrow>
   \<forall>i v j w. (i, v) \<in> set (entries m) \<longrightarrow> (j, w) \<in> set (entries m) \<longrightarrow> i \<noteq> j \<longrightarrow> set (claims v) \<inter> set (claims w) = {} \<Longrightarrow>
   get m i = Some v \<Longrightarrow> get m j = Some w \<Longrightarrow> c \<in> set (claims v) \<Longrightarrow> c \<in> set (claims w) \<Longrightarrow> i = j"
  unfolding entries_get [symmetric] by fastforce

end

interpretation gm: go_map mget mput mdel "\<lambda>m. m" mwf
  by unfold_locales
    (auto simp: mget_def mput_def mdel_def mwf_def update_conv' delete_conv'
      distinct_update distinct_delete)

lemmas [gomap_simps] = gm.get_put gm.get_del gm.wf_put gm.wf_del

lemma mwf_empty [simp]: "mwf []"
  by (simp add: mwf_def)

lemma mget_empty [simp]: "mget [] k = None"
  by (simp add: mget_def)

lemma mget_Some_mem: "mget m k = Some v \<Longrightarrow> (k, v) \<in> set m"
  by (simp add: mget_def map_of_SomeD)

lemma mget_None_iff: "mget m k = None \<longleftrightarrow> k \<notin> fst ` set m"
  by (simp add: mget_def map_of_eq_None_iff)

text \<open>A \<^verbatim>\<open>range\<close> loop that deletes the entries it visits under a condition.\<close>

definition mfilter :: "('k \<Rightarrow> 'v \<Rightarrow> bool) \<Rightarrow> ('k, 'v) gomap \<Rightarrow> ('k, 'v) gomap" where
  "mfilter p m = filter (\<lambda>(k, v). p k v) m"

lemma mwf_mfilter [simp]: "mwf m \<Longrightarrow> mwf (mfilter p m)"
  unfolding mwf_def mfilter_def by (induction m) auto

lemma mget_mfilter [gomap_simps]:
  "mwf m \<Longrightarrow> mget (mfilter p m) k = (case mget m k of None \<Rightarrow> None | Some v \<Rightarrow> if p k v then Some v else None)"
  unfolding mwf_def mfilter_def mget_def
  by (induction m) (auto simp: map_of_eq_None_iff split: option.splits)

text \<open>A \<^verbatim>\<open>range\<close> loop that rewrites the values it visits.\<close>

definition mmap :: "('k \<Rightarrow> 'v \<Rightarrow> 'v) \<Rightarrow> ('k, 'v) gomap \<Rightarrow> ('k, 'v) gomap" where
  "mmap f m = map (\<lambda>(k, v). (k, f k v)) m"

lemma fst_mmap [simp]: "map fst (mmap f m) = map fst m"
  unfolding mmap_def by (induction m) auto

lemma mwf_mmap [simp]: "mwf (mmap f m) = mwf m"
  by (simp add: mwf_def)

lemma mget_mmap [gomap_simps]: "mget (mmap f m) k = map_option (f k) (mget m k)"
  unfolding mmap_def mget_def by (induction m) auto

lemma mfilter_mem [simp]: "(k, v) \<in> set (mfilter p m) \<longleftrightarrow> (k, v) \<in> set m \<and> p k v"
  by (auto simp: mfilter_def)

lemma mmap_mem: "(k, v) \<in> set (mmap f m) \<longleftrightarrow> (\<exists>w. (k, w) \<in> set m \<and> v = f k w)"
  by (force simp: mmap_def)

lemma mem_mput [gomap_simps]:
  "mwf m \<Longrightarrow> (j, w) \<in> set (mput k v m) \<longleftrightarrow> (if j = k then w = v else (j, w) \<in> set m)"
  by (rule gm.entries_put)

lemma mem_mdel [gomap_simps]: "mwf m \<Longrightarrow> (j, w) \<in> set (mdel k m) \<longleftrightarrow> j \<noteq> k \<and> (j, w) \<in> set m"
  by (rule gm.entries_del)

lemma mem_mget: "mwf m \<Longrightarrow> (k, v) \<in> set m \<longleftrightarrow> mget m k = Some v"
  by (rule gm.entries_get)

text \<open>The properties of tables by name, for maps of the model.\<close>

definition keyed :: "('v \<Rightarrow> 'k) \<Rightarrow> ('k, 'v) gomap \<Rightarrow> bool" where
  "keyed key m \<longleftrightarrow> mwf m \<and> (\<forall>(k, v) \<in> set m. key v = k)"

definition exclusive :: "('v \<Rightarrow> 'c list) \<Rightarrow> ('k, 'v) gomap \<Rightarrow> bool" where
  "exclusive claims m \<longleftrightarrow>
     (\<forall>(i, v) \<in> set m. \<forall>(j, w) \<in> set m. i \<noteq> j \<longrightarrow> set (claims v) \<inter> set (claims w) = {})"

lemma keyed_iff: "keyed key m \<longleftrightarrow> mwf m \<and> (\<forall>k v. (k, v) \<in> set m \<longrightarrow> key v = k)"
  by (auto simp: keyed_def)

lemma exclusive_iff:
  "exclusive claims m \<longleftrightarrow> (\<forall>i v j w. (i, v) \<in> set m \<longrightarrow> (j, w) \<in> set m \<longrightarrow> i \<noteq> j \<longrightarrow>
     set (claims v) \<inter> set (claims w) = {})"
  by (fastforce simp: exclusive_def)

lemma keyed_wf [simp]: "keyed key m \<Longrightarrow> mwf m"
  by (simp add: keyed_iff)

lemma keyed_mget: "keyed key m \<Longrightarrow> mget m k = Some v \<Longrightarrow> key v = k"
  using mget_Some_mem [of m k v] unfolding keyed_iff by blast

lemma keyed_Nil [simp]: "keyed key []"
  by (simp add: keyed_iff)

lemma keyed_mput: "keyed key m \<Longrightarrow> key v = k \<Longrightarrow> keyed key (mput k v m)"
  unfolding keyed_iff by (auto simp: gomap_simps split: if_splits)

lemma keyed_mdel: "keyed key m \<Longrightarrow> keyed key (mdel k m)"
  unfolding keyed_iff by (auto simp: gomap_simps)

lemma exclusive_Nil [simp]: "exclusive claims []"
  by (simp add: exclusive_iff)

lemma keyed_mfilter: "keyed key m \<Longrightarrow> keyed key (mfilter p m)"
  by (simp add: keyed_iff)

lemma keyed_mmap: "keyed key m \<Longrightarrow> (\<And>k v. key (f k v) = key v) \<Longrightarrow> keyed key (mmap f m)"
  by (auto simp: keyed_iff mmap_mem)

lemma exclusive_mfilter: "exclusive claims m \<Longrightarrow> exclusive claims (mfilter p m)"
  by (simp add: exclusive_iff) blast

lemma exclusive_mmap:
  "exclusive claims m \<Longrightarrow> (\<And>k v. claims (f k v) = claims v) \<Longrightarrow> exclusive claims (mmap f m)"
  by (auto simp: exclusive_iff mmap_mem) blast

end
