(* ===== verification/GoStrings.thy ===== *)
theory GoStrings
  imports Prelude "HOL-Library.Sublist"
begin

text \<open>
  The functions of Go's packages \<^verbatim>\<open>strings\<close>, \<^verbatim>\<open>strconv\<close>, \<^verbatim>\<open>encoding/hex\<close> and
  \<^verbatim>\<open>net\<close> that the program calls, on byte strings (\<open>string\<close>, one \<open>char\<close> per byte).
  \<open>to_lower\<close> and \<open>trim_space\<close> act on ASCII letters and ASCII white space; Go maps
  other Unicode letters and spaces too, so the model speaks of ASCII text there.
\<close>

section \<open>Character classes\<close>

abbreviation byte :: "char \<Rightarrow> nat" where
  "byte c \<equiv> of_char c"

definition is_space :: "char \<Rightarrow> bool" where
  "is_space c \<longleftrightarrow> byte c = 32 \<or> (9 \<le> byte c \<and> byte c \<le> 13)"

definition is_digit :: "char \<Rightarrow> bool" where
  "is_digit c \<longleftrightarrow> 48 \<le> byte c \<and> byte c \<le> 57"

definition is_upper :: "char \<Rightarrow> bool" where
  "is_upper c \<longleftrightarrow> 65 \<le> byte c \<and> byte c \<le> 90"

definition is_lower :: "char \<Rightarrow> bool" where
  "is_lower c \<longleftrightarrow> 97 \<le> byte c \<and> byte c \<le> 122"

definition lower_char :: "char \<Rightarrow> char" where
  "lower_char c = (if is_upper c then char_of (byte c + 32) else c)"

lemma byte_char_of [simp]: "n < 256 \<Longrightarrow> byte (char_of n) = n"
  by (simp add: of_char_of)

lemma byte_less: "byte c < 256"
  by (rule nat_of_char_less_256)

lemma not_upper_lower_char [simp]: "\<not> is_upper (lower_char c)"
  by (auto simp: lower_char_def is_upper_def)

lemma lower_char_idem [simp]: "lower_char (lower_char c) = lower_char c"
  by (simp add: lower_char_def [of "lower_char c"])

lemma lower_char_space [simp]: "is_space (lower_char c) = is_space c"
  by (auto simp: lower_char_def is_space_def is_upper_def)

section \<open>Package strings\<close>

definition to_lower :: "string \<Rightarrow> string" where
  "to_lower s = map lower_char s"

definition trim_left_by :: "(char \<Rightarrow> bool) \<Rightarrow> string \<Rightarrow> string" where
  "trim_left_by p s = dropWhile p s"

definition trim_right_by :: "(char \<Rightarrow> bool) \<Rightarrow> string \<Rightarrow> string" where
  "trim_right_by p s = rev (dropWhile p (rev s))"

definition trim_space :: "string \<Rightarrow> string" where
  "trim_space s = trim_right_by is_space (trim_left_by is_space s)"

definition trim_right :: "string \<Rightarrow> string \<Rightarrow> string" where
  "trim_right s cutset = trim_right_by (\<lambda>c. c \<in> set cutset) s"

definition has_prefix :: "string \<Rightarrow> string \<Rightarrow> bool" where
  "has_prefix s p \<longleftrightarrow> take (length p) s = p"

definition has_suffix :: "string \<Rightarrow> string \<Rightarrow> bool" where
  "has_suffix s x \<longleftrightarrow> length x \<le> length s \<and> drop (length s - length x) s = x"

definition trim_prefix :: "string \<Rightarrow> string \<Rightarrow> string" where
  "trim_prefix s p = (if has_prefix s p then drop (length p) s else s)"

definition trim_suffix :: "string \<Rightarrow> string \<Rightarrow> string" where
  "trim_suffix s x = (if has_suffix s x then take (length s - length x) s else s)"

fun contains :: "string \<Rightarrow> string \<Rightarrow> bool" where
  "contains [] sub = (sub = [])"
| "contains (c # s) sub = (has_prefix (c # s) sub \<or> contains s sub)"

fun index_any :: "string \<Rightarrow> string \<Rightarrow> nat option" where
  "index_any [] cs = None"
| "index_any (c # s) cs = (if c \<in> set cs then Some 0 else map_option Suc (index_any s cs))"

text \<open>\<^verbatim>\<open>strings.Split\<close> with a separator of one byte.\<close>

fun split_on :: "char \<Rightarrow> string \<Rightarrow> string list" where
  "split_on c [] = [[]]"
| "split_on c (x # xs) =
     (if x = c then [] # split_on c xs
      else (case split_on c xs of [] \<Rightarrow> [[x]] | y # ys \<Rightarrow> (x # y) # ys))"

text \<open>\<^verbatim>\<open>strings.Cut\<close> (and \<^verbatim>\<open>SplitN(s, sep, 2)\<close>): the parts around the first separator.\<close>

definition cut_on :: "char \<Rightarrow> string \<Rightarrow> (string \<times> string) option" where
  "cut_on c s = (if c \<in> set s
     then Some (takeWhile (\<lambda>x. x \<noteq> c) s, tl (dropWhile (\<lambda>x. x \<noteq> c) s)) else None)"

fun join :: "string \<Rightarrow> string list \<Rightarrow> string" where
  "join sep [] = []"
| "join sep [x] = x"
| "join sep (x # y # ys) = x @ sep @ join sep (y # ys)"

text \<open>\<^verbatim>\<open>strings.ReplaceAll\<close> of a non-empty string, left to right without overlap.\<close>

function replace_all :: "string \<Rightarrow> string \<Rightarrow> string \<Rightarrow> string" where
  "replace_all old new [] = []"
| "replace_all old new (c # s) =
     (if old \<noteq> [] \<and> has_prefix (c # s) old
      then new @ replace_all old new (drop (length old) (c # s))
      else c # replace_all old new s)"
  by pat_completeness auto
termination
  by (relation "measure (\<lambda>(old, new, s). length s)") (auto simp: neq_Nil_conv)

subsection \<open>Trimming and case\<close>

lemma to_lower_idem [simp]: "to_lower (to_lower s) = to_lower s"
  by (simp add: to_lower_def)

lemma to_lower_Nil [simp]: "to_lower [] = []" and to_lower_eq_Nil [simp]: "to_lower s = [] \<longleftrightarrow> s = []"
  by (simp_all add: to_lower_def)

lemma trim_left_by_idem: "trim_left_by p (trim_left_by p s) = trim_left_by p s"
  by (simp add: trim_left_by_def)

lemma trim_right_by_idem: "trim_right_by p (trim_right_by p s) = trim_right_by p s"
  by (simp add: trim_right_by_def)

lemma trim_left_trim_right:
  assumes "trim_left_by p s = s" shows "trim_left_by p (trim_right_by p s) = trim_right_by p s"
proof (cases s)
  case (Cons c t)
  with assms have c: "\<not> p c"
    by (metis trim_left_by_def dropWhile_eq_self_iff list.distinct(1) list.sel(1))
  have "trim_right_by p (c # t) = c # trim_right_by p t"
    using c by (simp add: trim_right_by_def dropWhile_append)
  with Cons c show ?thesis by (simp add: trim_left_by_def)
qed (simp add: trim_left_by_def trim_right_by_def)

lemma trim_space_idem [simp]: "trim_space (trim_space s) = trim_space s"
  by (simp add: trim_space_def trim_left_trim_right trim_left_by_idem trim_right_by_idem)

lemma trim_space_Nil [simp]: "trim_space [] = []"
  by (simp add: trim_space_def trim_left_by_def trim_right_by_def)

lemma trim_space_to_lower: "trim_space (to_lower s) = to_lower (trim_space s)"
  by (simp add: trim_space_def to_lower_def trim_left_by_def trim_right_by_def dropWhile_map
      rev_map o_def)

lemma trim_space_id:
  "(\<And>c. c \<in> set s \<Longrightarrow> \<not> is_space c) \<Longrightarrow> trim_space s = s"
proof -
  assume ns: "\<And>c. c \<in> set s \<Longrightarrow> \<not> is_space c"
  have "dropWhile is_space s = s" "dropWhile is_space (rev s) = rev s"
    using ns by (metis dropWhile_eq_self_iff hd_in_set set_rev)+
  then show ?thesis by (simp add: trim_space_def trim_left_by_def trim_right_by_def)
qed

lemma has_prefix_Nil [simp]: "has_prefix s []"
  by (simp add: has_prefix_def)

lemma has_prefix_append [simp]: "has_prefix (p @ s) p"
  by (simp add: has_prefix_def)

lemma has_prefix_iff: "has_prefix s p \<longleftrightarrow> (\<exists>t. s = p @ t)"
  by (metis append_take_drop_id has_prefix_append has_prefix_def)

lemma has_suffix_iff: "has_suffix s x \<longleftrightarrow> (\<exists>t. s = t @ x)"
  unfolding has_suffix_def by (metis append_take_drop_id diff_diff_cancel diff_le_self
      append_eq_conv_conj length_append le_add2 add_diff_cancel_right')

lemma trim_prefix_append [simp]: "trim_prefix (p @ s) p = s"
  by (simp add: trim_prefix_def)

lemma index_any_Some:
  "index_any s cs = Some i \<Longrightarrow> take i s = takeWhile (\<lambda>c. c \<notin> set cs) s \<and> i < length s"
  by (induction s arbitrary: i) (auto split: if_splits)

lemma index_any_None: "index_any s cs = None \<longleftrightarrow> set s \<inter> set cs = {}"
  by (induction s) auto

subsection \<open>Split and join\<close>

lemma split_on_not_Nil [simp]: "split_on c s \<noteq> []"
  by (induction s) (auto split: list.splits)

lemma join_Cons: "xs \<noteq> [] \<Longrightarrow> join sep (x # xs) = x @ sep @ join sep xs"
  by (cases xs) auto

lemma join_split_on [simp]: "join [c] (split_on c s) = s"
proof (induction s)
  case (Cons x s)
  show ?case
  proof (cases "x = c")
    case True
    with Cons show ?thesis by (simp add: join_Cons)
  next
    case False
    obtain y ys where yys: "split_on c s = y # ys"
      by (meson split_on_not_Nil neq_Nil_conv)
    with Cons False show ?thesis by (cases ys) auto
  qed
qed simp

lemma split_on_no_sep: "p \<in> set (split_on c s) \<Longrightarrow> c \<notin> set p"
proof (induction s arbitrary: p)
  case (Cons x s)
  obtain y ys where yys: "split_on c s = y # ys"
    by (meson split_on_not_Nil neq_Nil_conv)
  with Cons show ?case by (auto split: if_splits)
qed simp

lemma split_on_single: "c \<notin> set s \<Longrightarrow> split_on c s = [s]"
  by (induction s) auto

lemma split_on_append: "c \<notin> set x \<Longrightarrow> split_on c (x @ c # s) = x # split_on c s"
  by (induction x) auto

lemma split_on_join:
  "xs \<noteq> [] \<Longrightarrow> (\<And>x. x \<in> set xs \<Longrightarrow> c \<notin> set x) \<Longrightarrow> split_on c (join [c] xs) = xs"
  by (induction "[c]" xs rule: join.induct) (auto simp: split_on_single split_on_append)

lemma cut_on_append: "c \<notin> set x \<Longrightarrow> cut_on c (x @ c # s) = Some (x, s)"
  by (induction x) (auto simp: cut_on_def)

lemma cut_on_None: "c \<notin> set x \<Longrightarrow> cut_on c x = None"
  by (simp add: cut_on_def)

lemma cut_on_Some: "cut_on c s = Some (a, b) \<Longrightarrow> s = a @ c # b \<and> c \<notin> set a"
proof -
  assume h: "cut_on c s = Some (a, b)"
  then have m: "c \<in> set s" and a: "a = takeWhile (\<lambda>x. x \<noteq> c) s"
    and b: "b = tl (dropWhile (\<lambda>x. x \<noteq> c) s)"
    by (auto simp: cut_on_def split: if_splits)
  from m have d: "dropWhile (\<lambda>x. x \<noteq> c) s \<noteq> []" by (simp add: dropWhile_eq_Nil_conv)
  then have "hd (dropWhile (\<lambda>x. x \<noteq> c) s) = c" using hd_dropWhile by blast
  with d b have "dropWhile (\<lambda>x. x \<noteq> c) s = c # b" by (metis list.collapse)
  with a have "s = a @ c # b" by (metis takeWhile_dropWhile_id)
  moreover have "c \<notin> set a" using a set_takeWhileD by fastforce
  ultimately show ?thesis by simp
qed

section \<open>Package strconv: decimal integers\<close>

definition digit_char :: "nat \<Rightarrow> char" where
  "digit_char d = char_of (48 + d)"

definition digit_val :: "char \<Rightarrow> nat" where
  "digit_val c = byte c - 48"

fun nat_str :: "nat \<Rightarrow> string" where
  "nat_str n = (if n < 10 then [digit_char n] else nat_str (n div 10) @ [digit_char (n mod 10)])"

declare nat_str.simps [simp del]

definition itoa :: "int \<Rightarrow> string" where
  "itoa i = (if i < 0 then CHR ''-'' # nat_str (nat (- i)) else nat_str (nat i))"

definition nat_val :: "string \<Rightarrow> nat" where
  "nat_val s = foldl (\<lambda>n c. 10 * n + digit_val c) 0 s"

text \<open>
  \<^verbatim>\<open>strconv.Atoi\<close>: an optional sign, at least one decimal digit, in the range of int64.
\<close>

definition atoi :: "string \<Rightarrow> int option" where
  "atoi s =
     (let (neg, ds) = (case s of [] \<Rightarrow> (False, [])
        | c # t \<Rightarrow> if c = CHR ''-'' then (True, t) else if c = CHR ''+'' then (False, t) else (False, s))
      in if ds = [] \<or> \<not> list_all is_digit ds then None
         else let n = (if neg then - int (nat_val ds) else int (nat_val ds))
           in if int64 n then Some n else None)"

lemma byte_digit_char [simp]: "d < 10 \<Longrightarrow> byte (digit_char d) = 48 + d"
  by (simp add: digit_char_def)

lemma is_digit_digit_char [simp]: "d < 10 \<Longrightarrow> is_digit (digit_char d)"
  by (simp add: is_digit_def)

lemma digit_val_digit_char [simp]: "d < 10 \<Longrightarrow> digit_val (digit_char d) = d"
  by (simp add: digit_val_def)

lemma nat_str_not_Nil [simp]: "nat_str n \<noteq> []"
  by (subst nat_str.simps) simp

lemma nat_str_digits: "c \<in> set (nat_str n) \<Longrightarrow> is_digit c"
proof (induction n rule: nat_str.induct)
  case (1 n)
  then show ?case by (auto simp: nat_str.simps [of n] split: if_splits)
qed

lemma nat_val_snoc: "nat_val (s @ [c]) = 10 * nat_val s + digit_val c"
  by (simp add: nat_val_def)

lemma nat_val_nat_str [simp]: "nat_val (nat_str n) = n"
proof (induction n rule: nat_str.induct)
  case (1 n)
  show ?case
  proof (cases "n < 10")
    case True
    then show ?thesis by (simp add: nat_str.simps [of n] nat_val_def)
  next
    case False
    with 1 show ?thesis by (simp add: nat_str.simps [of n] nat_val_snoc)
  qed
qed

lemma digit_not [simp]:
  "is_digit c \<Longrightarrow> c \<noteq> CHR ''-''" "is_digit c \<Longrightarrow> c \<noteq> CHR ''+''" "is_digit c \<Longrightarrow> c \<noteq> CHR '',''"
  "is_digit c \<Longrightarrow> c \<noteq> CHR '':''" "is_digit c \<Longrightarrow> \<not> is_space c"
  by (auto simp: is_digit_def is_space_def)

lemma nat_str_Cons: "\<exists>c t. nat_str n = c # t \<and> is_digit c"
  by (metis list.set_intros(1) nat_str_digits nat_str_not_Nil neq_Nil_conv)

lemma list_all_digit_nat_str [simp]: "list_all is_digit (nat_str n)"
  by (simp add: list_all_iff nat_str_digits)

lemma atoi_itoa [simp]: "int64 i \<Longrightarrow> atoi (itoa i) = Some i"
proof (cases "i < 0")
  case True
  assume "int64 i"
  with True show ?thesis by (simp add: itoa_def atoi_def)
next
  case False
  assume i: "int64 i"
  obtain c t where ct: "nat_str (nat i) = c # t" "is_digit c" using nat_str_Cons by blast
  have "list_all is_digit (c # t)" "nat_val (c # t) = nat i"
    using ct(1) list_all_digit_nat_str nat_val_nat_str by metis+
  with False i ct show ?thesis by (simp add: itoa_def atoi_def)
qed

text \<open>The same two functions with their digits computed on \<open>int\<close>, for evaluation.\<close>

function int_str :: "int \<Rightarrow> string" where
  "int_str i = (if i < 10 then [digit_char (nat i)] else int_str (i div 10) @ [digit_char (nat (i mod 10))])"
  by pat_completeness auto
termination by (relation "measure nat") auto

declare int_str.simps [simp del]

lemma int_str_nat_str: "0 \<le> i \<Longrightarrow> int_str i = nat_str (nat i)"
proof (induction i rule: int_str.induct)
  case (1 i)
  then show ?case
    by (auto simp: int_str.simps [of i] nat_str.simps [of "nat i"] nat_div_distrib nat_mod_distrib nat_less_iff)
qed

lemma itoa_code [code]: "itoa i = (if i < 0 then CHR ''-'' # int_str (- i) else int_str i)"
  by (simp add: itoa_def int_str_nat_str)

lemma int_nat_val_code [code_unfold]: "int (nat_val s) = foldl (\<lambda>n c. 10 * n + int (digit_val c)) 0 s"
proof -
  have "int (foldl (\<lambda>n c. 10 * n + digit_val c) a s) = foldl (\<lambda>n c. 10 * n + int (digit_val c)) (int a) s" for a
    by (induction s arbitrary: a) simp_all
  from this [of 0] show ?thesis by (simp add: nat_val_def)
qed

lemma itoa_inj: "itoa i = itoa j \<Longrightarrow> i = j"
proof -
  assume eq: "itoa i = itoa j"
  have "\<And>n. \<exists>c t. nat_str n = c # t \<and> c \<noteq> CHR ''-''" using nat_str_Cons digit_not(1) by metis
  with eq have "i < 0 \<longleftrightarrow> j < 0" by (metis itoa_def list.inject)
  with eq have "nat \<bar>i\<bar> = nat \<bar>j\<bar>"
    by (metis abs_of_neg abs_of_nonneg itoa_def list.inject nat_val_nat_str not_less)
  with \<open>i < 0 \<longleftrightarrow> j < 0\<close> show ?thesis by auto
qed

lemma itoa_chars: "c \<in> set (itoa i) \<Longrightarrow> is_digit c \<or> c = CHR ''-''"
  by (auto simp: itoa_def nat_str_digits split: if_splits)

lemma itoa_no_colon [simp]: "CHR '':'' \<notin> set (itoa i)"
proof
  assume "CHR '':'' \<in> set (itoa i)"
  then have "is_digit (CHR '':'')" using itoa_chars by fastforce
  then show False by (simp add: is_digit_def)
qed

lemma itoa_not_Nil [simp]: "itoa i \<noteq> []"
  by (simp add: itoa_def)

lemma itoa_nonneg_digits: "0 \<le> i \<Longrightarrow> c \<in> set (itoa i) \<Longrightarrow> is_digit c"
  by (auto simp: itoa_def nat_str_digits split: if_splits)

section \<open>Package encoding/hex\<close>

definition hex_digit :: "nat \<Rightarrow> char" where
  "hex_digit n = (if n < 10 then char_of (48 + n) else char_of (87 + n))"

definition hex_val :: "char \<Rightarrow> nat option" where
  "hex_val c =
     (let b = byte c in
      if 48 \<le> b \<and> b \<le> 57 then Some (b - 48)
      else if 97 \<le> b \<and> b \<le> 102 then Some (b - 87)
      else if 65 \<le> b \<and> b \<le> 70 then Some (b - 55)
      else None)"

fun hex_encode :: "string \<Rightarrow> string" where
  "hex_encode [] = []"
| "hex_encode (c # s) = hex_digit (byte c div 16) # hex_digit (byte c mod 16) # hex_encode s"

fun hex_decode :: "string \<Rightarrow> string option" where
  "hex_decode [] = Some []"
| "hex_decode [_] = None"
| "hex_decode (a # b # s) =
     (case (hex_val a, hex_val b) of
        (Some x, Some y) \<Rightarrow> map_option (\<lambda>t. char_of (16 * x + y) # t) (hex_decode s)
      | _ \<Rightarrow> None)"

lemma hex_val_hex_digit [simp]: "n < 16 \<Longrightarrow> hex_val (hex_digit n) = Some n"
  by (auto simp: hex_val_def hex_digit_def Let_def)

lemma hex_decode_encode [simp]: "hex_decode (hex_encode s) = Some s"
proof (induction s)
  case (Cons c s)
  have "byte c div 16 < 16" using byte_less[of c] by (simp add: less_mult_imp_div_less)
  moreover have "16 * (byte c div 16) + byte c mod 16 = byte c" by simp
  ultimately show ?case using Cons by simp
qed simp

lemma hex_digit_chars: "n < 16 \<Longrightarrow> is_digit (hex_digit n) \<or> is_lower (hex_digit n)"
  by (auto simp: hex_digit_def is_digit_def is_lower_def)

lemma hex_encode_chars: "c \<in> set (hex_encode s) \<Longrightarrow> is_digit c \<or> is_lower c"
proof (induction s)
  case (Cons d s)
  have "byte d div 16 < 16" "byte d mod 16 < 16"
    using byte_less[of d] by (simp_all add: less_mult_imp_div_less)
  with Cons hex_digit_chars [of "byte d div 16"] hex_digit_chars [of "byte d mod 16"] show ?case
    by auto
qed simp

lemma lower_not_colon [simp]: "is_lower c \<Longrightarrow> c \<noteq> CHR '':''"
  by (auto simp: is_lower_def)

lemma hex_encode_no_colon: "CHR '':'' \<notin> set (hex_encode s)"
  using hex_encode_chars lower_not_colon digit_not(4) by blast

lemma length_hex_encode [simp]: "length (hex_encode s) = 2 * length s"
  by (induction s) auto

section \<open>Package net: host and port\<close>

definition join_host_port :: "string \<Rightarrow> string \<Rightarrow> string" where
  "join_host_port host port =
     (if CHR '':'' \<in> set host then ''['' @ host @ '']:'' @ port else host @ '':'' @ port)"

end
