(* ===== verification/CoreTypes.thy ===== *)
theory CoreTypes
  imports GoStrings
begin

text \<open>
  \<^verbatim>\<open>internal/core/types.go\<close>: port ranges and domain pools with their parsers and
  printers, and the records of the control database. A \<^verbatim>\<open>time.Time\<close> is the number of
  nanoseconds since Go's zero time, so \<^verbatim>\<open>IsZero\<close> is equality with 0.
\<close>

section \<open>Constants\<close>

definition EngineFRP :: string where "EngineFRP = ''frp''"
definition EngineNPS :: string where "EngineNPS = ''nps''"
definition RoleAdmin :: string where "RoleAdmin = ''admin''"
definition RoleUser :: string where "RoleUser = ''user''"
definition DefaultNodeID :: string where "DefaultNodeID = ''local''"

lemmas core_consts = EngineFRP_def EngineNPS_def RoleAdmin_def RoleUser_def DefaultNodeID_def

type_synonym time = int

definition IsZero :: "time \<Rightarrow> bool" where
  "IsZero t \<longleftrightarrow> t = 0"

definition After :: "time \<Rightarrow> time \<Rightarrow> bool" where
  "After t u \<longleftrightarrow> u < t"

section \<open>Errors of the parsers\<close>

datatype domain_fault =
    TooLong
  | NeedsDot
  | InvalidLabel
  | HyphenEdge
  | BadCharacter char

datatype parse_error =
    InvalidPort string
  | PortOutOfRange int
  | InvalidRange string
  | InvalidDomain string domain_fault
  | InvalidWildcard string

section \<open>Port ranges\<close>

record PortRange =
  rStart :: int
  rEnd :: int

definition Contains :: "PortRange \<Rightarrow> int \<Rightarrow> bool" where
  "Contains r port \<longleftrightarrow> rStart r \<le> port \<and> port \<le> rEnd r"

definition range_String :: "PortRange \<Rightarrow> string" where
  "range_String r = (if rStart r = rEnd r then itoa (rStart r) else itoa (rStart r) @ ''-'' @ itoa (rEnd r))"

definition parsePort :: "string \<Rightarrow> parse_error + int" where
  "parsePort input = (case atoi (trim_space input) of
       None \<Rightarrow> Inl (InvalidPort input)
     | Some port \<Rightarrow> if port < 1 \<or> 65535 < port then Inl (PortOutOfRange port) else Inr port)"

text \<open>The body of the loop of \<^verbatim>\<open>ParsePortRanges\<close>, for one trimmed non-empty part.\<close>

definition parse_range_part :: "string \<Rightarrow> parse_error + PortRange" where
  "parse_range_part part = (case cut_on CHR ''-'' part of
       Some (lo, hi) \<Rightarrow>
         (case parsePort lo of Inl e \<Rightarrow> Inl e | Inr start \<Rightarrow>
         (case parsePort hi of Inl e \<Rightarrow> Inl e | Inr end' \<Rightarrow>
            if end' < start then Inl (InvalidRange part)
            else Inr \<lparr>rStart = start, rEnd = end'\<rparr>))
     | None \<Rightarrow>
         (case parsePort part of Inl e \<Rightarrow> Inl e
          | Inr port \<Rightarrow> Inr \<lparr>rStart = port, rEnd = port\<rparr>))"

definition ParsePortRanges :: "string \<Rightarrow> parse_error + PortRange list" where
  "ParsePortRanges input0 =
     (let input = trim_space input0 in
      if input = [] then Inr []
      else map_err parse_range_part
        (filter (\<lambda>part. part \<noteq> []) (map trim_space (split_on CHR '','' input))))"

definition FormatPortRanges :: "PortRange list \<Rightarrow> string" where
  "FormatPortRanges ranges = join '','' (map range_String ranges)"

definition portInRanges :: "int \<Rightarrow> PortRange list \<Rightarrow> bool" where
  "portInRanges port ranges \<longleftrightarrow> list_ex (\<lambda>r. Contains r port) ranges"

section \<open>Domains\<close>

text \<open>
  \<^verbatim>\<open>net.ParseIP\<close> on a string without a colon, the only strings that reach it here:
  four decimal fields of at most 255 without leading zeros.
\<close>

definition ipv4_field :: "string \<Rightarrow> bool" where
  "ipv4_field f \<longleftrightarrow> f \<noteq> [] \<and> list_all is_digit f \<and> (length f = 1 \<or> hd f \<noteq> CHR ''0'') \<and> nat_val f \<le> 255"

definition ParseIP :: "string \<Rightarrow> bool" where
  "ParseIP s \<longleftrightarrow> (let fs = split_on CHR ''.'' s in length fs = 4 \<and> list_all ipv4_field fs)"

definition label_char :: "char \<Rightarrow> bool" where
  "label_char r \<longleftrightarrow> is_lower r \<or> is_digit r \<or> r = CHR ''-''"

definition check_label :: "string \<Rightarrow> domain_fault option" where
  "check_label label =
     (if label = [] \<or> 63 < length label then Some InvalidLabel
      else if has_prefix label ''-'' \<or> has_suffix label ''-'' then Some HyphenEdge
      else map_option BadCharacter (List.find (\<lambda>r. \<not> label_char r) label))"

fun check_labels :: "string list \<Rightarrow> domain_fault option" where
  "check_labels [] = None"
| "check_labels (l # ls) = (case check_label l of Some e \<Rightarrow> Some e | None \<Rightarrow> check_labels ls)"

text \<open>\<open>None\<close> is Go's nil error.\<close>

definition validateDomain :: "string \<Rightarrow> domain_fault option" where
  "validateDomain domain =
     (if 253 < length domain then Some TooLong
      else if ParseIP domain then None
      else let labels = split_on CHR ''.'' domain in
        if length labels < 2 then Some NeedsDot else check_labels labels)"

text \<open>The text \<^verbatim>\<open>NormalizeDomain\<close> examines: case, schemes, path, port and final dot removed.\<close>

definition strip_domain :: "string \<Rightarrow> string" where
  "strip_domain input =
     (let d1 = trim_prefix (trim_space (to_lower input)) ''http://'';
          d2 = trim_prefix d1 ''https://'';
          d3 = (case index_any d2 ''/:'' of None \<Rightarrow> d2 | Some i \<Rightarrow> take i d2)
      in trim_suffix d3 ''.'')"

definition NormalizeDomain :: "string \<Rightarrow> parse_error + string" where
  "NormalizeDomain input =
     (let domain = strip_domain input in
      if domain = [] then Inr []
      else if domain = ''*'' then Inr domain
      else if has_prefix domain ''*.'' then
        (case validateDomain (trim_prefix domain ''*.'') of
           Some e \<Rightarrow> Inl (InvalidDomain input e) | None \<Rightarrow> Inr domain)
      else if contains domain ''*'' then Inl (InvalidWildcard input)
      else (case validateDomain domain of
           Some e \<Rightarrow> Inl (InvalidDomain input e) | None \<Rightarrow> Inr domain))"

text \<open>
  The loop shared by \<^verbatim>\<open>NormalizeDomains\<close> and \<^verbatim>\<open>ParseDomainPools\<close>: \<open>seen\<close> holds what is
  already in the output.
\<close>

fun normalize_loop :: "string list \<Rightarrow> string list \<Rightarrow> parse_error + string list" where
  "normalize_loop seen [] = Inr []"
| "normalize_loop seen (v # vs) =
     (case NormalizeDomain v of
        Inl e \<Rightarrow> Inl e
      | Inr d \<Rightarrow>
          if d = [] \<or> d \<in> set seen then normalize_loop seen vs
          else (case normalize_loop (d # seen) vs of Inl e \<Rightarrow> Inl e | Inr ds \<Rightarrow> Inr (d # ds)))"

definition NormalizeDomains :: "string list \<Rightarrow> parse_error + string list" where
  "NormalizeDomains values = normalize_loop [] values"

definition ParseDomainPools :: "string \<Rightarrow> parse_error + string list" where
  "ParseDomainPools input0 =
     (let input = trim_space input0 in
      if input = [] then Inr [] else normalize_loop [] (split_on CHR '','' input))"

definition FormatDomainPools :: "string list \<Rightarrow> string" where
  "FormatDomainPools domains = join '','' domains"

definition domainInPool :: "string \<Rightarrow> string \<Rightarrow> bool" where
  "domainInPool domain pool \<longleftrightarrow>
     pool = ''*'' \<or> pool = domain \<or>
     (has_prefix pool ''*.'' \<and>
      (let suffix = trim_prefix pool ''*.'' in
         domain \<noteq> suffix \<and> has_suffix domain (''.'' @ suffix)))"

definition domainInPools :: "string \<Rightarrow> string list \<Rightarrow> bool" where
  "domainInPools domain pools \<longleftrightarrow> list_ex (domainInPool domain) pools"

section \<open>Records of the database\<close>

record User =
  uName :: string
  uPassword :: string
  uPasswordHash :: string
  uRole :: string
  uEnabled :: bool
  uPortPools :: "PortRange list"
  uDomainPools :: "string list"
  uMaxPorts :: int
  uFRPToken :: string
  uNPSVerifyKey :: string
  uRateLimit :: int
  uFlowLimit :: int
  uFlowUsed :: int
  uExpiresAt :: time
  uExpiredAt :: time
  uCreatedAt :: time
  uUpdatedAt :: time

record PublicUser =
  pName :: string
  pRole :: string
  pEnabled :: bool
  pPortPools :: "PortRange list"
  pDomainPools :: "string list"
  pMaxPorts :: int
  pHasPassword :: bool
  pHasFRPToken :: bool
  pHasNPSVerifyKey :: bool
  pRateLimit :: int
  pFlowLimit :: int
  pFlowUsed :: int
  pInletSpeed :: int
  pExportSpeed :: int
  pExpiresAt :: time
  pExpiredAt :: time
  pCreatedAt :: time
  pUpdatedAt :: time

record NodeStatus =
  sOnline :: bool
  sLastSeenAt :: time
  sLastSyncAt :: time
  sLastError :: string

definition status_IsZero :: "NodeStatus \<Rightarrow> bool" where
  "status_IsZero s \<longleftrightarrow> \<not> sOnline s \<and> IsZero (sLastSeenAt s) \<and> IsZero (sLastSyncAt s) \<and> sLastError s = []"

text \<open>\<^verbatim>\<open>RuntimeConfig\<close> is declared in \<^verbatim>\<open>internal/core/adapters.go\<close>.\<close>

record RuntimeConfig =
  cServerAddr :: string
  cFRPServerPort :: int
  cFRPHTTPPort :: int
  cFRPHTTPSPort :: int
  cNPSServerPort :: int
  cNPSHTTPProxyPort :: int
  cNPSHTTPSPort :: int

record Node =
  nID :: string
  nName :: string
  nToken :: string
  nPublicAddr :: string
  nEnabled :: bool
  nFRPEnabled :: bool
  nNPSEnabled :: bool
  nPortPools :: "PortRange list"
  nDomainPools :: "string list"
  nRuntime :: RuntimeConfig
  nStatus :: NodeStatus
  nCreatedAt :: time
  nUpdatedAt :: time

record Tunnel =
  tID :: string
  tUserName :: string
  tNodeID :: string
  tEngine :: string
  tMode :: string
  tRemotePort :: int
  tLocalIP :: string
  tLocalPort :: int
  tDomains :: "string list"
  tRemark :: string
  tEnabled :: bool
  tCreatedAt :: time
  tUpdatedAt :: time

record Database =
  dUsers :: "(string, User) gomap"
  dNodes :: "(string, Node) gomap"
  dTunnels :: "(string, Tunnel) gomap"

definition Public :: "User \<Rightarrow> PublicUser" where
  "Public u =
     \<lparr>pName = uName u, pRole = uRole u, pEnabled = uEnabled u, pPortPools = uPortPools u,
      pDomainPools = uDomainPools u, pMaxPorts = uMaxPorts u,
      pHasPassword = (uPassword u \<noteq> [] \<or> uPasswordHash u \<noteq> []),
      pHasFRPToken = (uFRPToken u \<noteq> []), pHasNPSVerifyKey = (uNPSVerifyKey u \<noteq> []),
      pRateLimit = uRateLimit u, pFlowLimit = uFlowLimit u, pFlowUsed = uFlowUsed u,
      pInletSpeed = 0, pExportSpeed = 0,
      pExpiresAt = uExpiresAt u, pExpiredAt = uExpiredAt u,
      pCreatedAt = uCreatedAt u, pUpdatedAt = uUpdatedAt u\<rparr>"

text \<open>Go's zero values of the structs.\<close>

definition zero_User :: User where
  "zero_User = \<lparr>uName = [], uPassword = [], uPasswordHash = [], uRole = [], uEnabled = False,
     uPortPools = [], uDomainPools = [], uMaxPorts = 0, uFRPToken = [], uNPSVerifyKey = [],
     uRateLimit = 0, uFlowLimit = 0, uFlowUsed = 0, uExpiresAt = 0, uExpiredAt = 0,
     uCreatedAt = 0, uUpdatedAt = 0\<rparr>"

definition zero_Status :: NodeStatus where
  "zero_Status = \<lparr>sOnline = False, sLastSeenAt = 0, sLastSyncAt = 0, sLastError = []\<rparr>"

definition zero_Runtime :: RuntimeConfig where
  "zero_Runtime = \<lparr>cServerAddr = [], cFRPServerPort = 0, cFRPHTTPPort = 0, cFRPHTTPSPort = 0,
     cNPSServerPort = 0, cNPSHTTPProxyPort = 0, cNPSHTTPSPort = 0\<rparr>"

definition zero_Node :: Node where
  "zero_Node = \<lparr>nID = [], nName = [], nToken = [], nPublicAddr = [], nEnabled = False,
     nFRPEnabled = False, nNPSEnabled = False, nPortPools = [], nDomainPools = [],
     nRuntime = zero_Runtime, nStatus = zero_Status, nCreatedAt = 0, nUpdatedAt = 0\<rparr>"

definition zero_Tunnel :: Tunnel where
  "zero_Tunnel = \<lparr>tID = [], tUserName = [], tNodeID = [], tEngine = [], tMode = [],
     tRemotePort = 0, tLocalIP = [], tLocalPort = 0, tDomains = [], tRemark = [],
     tEnabled = False, tCreatedAt = 0, tUpdatedAt = 0\<rparr>"

record TunnelTraffic =
  ttTunnelID :: string
  ttInletFlow :: int
  ttExportFlow :: int

record UserTraffic =
  utUserName :: string
  utInletFlow :: int
  utExportFlow :: int

record TrafficReport =
  trNodeID :: string
  trTunnels :: "TunnelTraffic list"
  trUsers :: "UserTraffic list"

end
