(* ===== verification/CoreTypesFacts.thy ===== *)
theory CoreTypesFacts
  imports CoreTypes
begin

text \<open>
  Correctness of the parsers and printers of \<^verbatim>\<open>internal/core/types.go\<close>: what a parsed
  port pool can hold, the round trips with the printers, the canonical form of domains,
  and the meaning of pool membership.
\<close>

section \<open>Ports\<close>

definition port_ok :: "int \<Rightarrow> bool" where
  "port_ok p \<longleftrightarrow> 1 \<le> p \<and> p \<le> 65535"

definition range_ok :: "PortRange \<Rightarrow> bool" where
  "range_ok r \<longleftrightarrow> port_ok (rStart r) \<and> port_ok (rEnd r) \<and> rStart r \<le> rEnd r"

lemma port_ok_int64 [simp]: "port_ok p \<Longrightarrow> int64 p"
  by (simp add: port_ok_def int64_def)

lemma parsePort_Inr: "parsePort s = Inr p \<longleftrightarrow> atoi (trim_space s) = Some p \<and> port_ok p"
  by (auto simp: parsePort_def port_ok_def split: option.splits if_splits)

lemma trim_space_itoa [simp]: "trim_space (itoa i) = itoa i"
  by (rule trim_space_id) (auto simp: is_space_def is_digit_def dest!: itoa_chars)

lemma parsePort_itoa [simp]: "port_ok p \<Longrightarrow> parsePort (itoa p) = Inr p"
  by (simp add: parsePort_Inr)

lemma parse_range_part_ok: "parse_range_part part = Inr r \<Longrightarrow> range_ok r"
  by (auto simp: parse_range_part_def range_ok_def parsePort_Inr
      split: option.splits prod.splits sum.splits if_splits)

lemma itoa_port_chars: "port_ok p \<Longrightarrow> c \<in> set (itoa p) \<Longrightarrow> is_digit c"
  by (erule itoa_nonneg_digits [rotated]) (simp add: port_ok_def)

lemma minus_notin_itoa: "port_ok p \<Longrightarrow> CHR ''-'' \<notin> set (itoa p)"
  using itoa_port_chars digit_not(1) by blast

lemma comma_notin_itoa: "port_ok p \<Longrightarrow> CHR '','' \<notin> set (itoa p)"
  using itoa_port_chars digit_not(3) by blast

lemma bracket_notin_itoa: "port_ok p \<Longrightarrow> CHR ''['' \<notin> set (itoa p)"
  using itoa_port_chars by (fastforce simp: is_digit_def)

lemma parse_range_String: "range_ok r \<Longrightarrow> parse_range_part (range_String r) = Inr r"
  by (auto simp: range_ok_def range_String_def parse_range_part_def cut_on_append cut_on_None
      minus_notin_itoa)

lemma range_String_chars:
  "range_ok r \<Longrightarrow> c \<in> set (range_String r) \<Longrightarrow> is_digit c \<or> c = CHR ''-''"
  using itoa_port_chars by (auto simp: range_String_def range_ok_def split: if_splits)

lemma trim_range_String [simp]: "range_ok r \<Longrightarrow> trim_space (range_String r) = range_String r"
  by (rule trim_space_id) (auto simp: is_space_def is_digit_def dest!: range_String_chars)

lemma range_String_no_comma: "range_ok r \<Longrightarrow> CHR '','' \<notin> set (range_String r)"
  using range_String_chars digit_not(3) by fastforce

lemma range_String_not_Nil [simp]: "range_String r \<noteq> []"
  by (simp add: range_String_def)

lemma join_comma_no_space:
  "(\<And>x. x \<in> set xs \<Longrightarrow> \<forall>c \<in> set x. \<not> is_space c) \<Longrightarrow> c \<in> set (join '','' xs) \<Longrightarrow> \<not> is_space c"
  by (induction "'',''" xs rule: join.induct) (auto simp: is_space_def)

lemma FormatPortRanges_trim:
  "list_all range_ok rs \<Longrightarrow> trim_space (FormatPortRanges rs) = FormatPortRanges rs"
  unfolding FormatPortRanges_def
  by (rule trim_space_id, erule join_comma_no_space [rotated])
    (auto simp: list_all_iff is_space_def is_digit_def dest!: range_String_chars)

lemma split_FormatPortRanges:
  "list_all range_ok rs \<Longrightarrow> rs \<noteq> [] \<Longrightarrow>
     split_on CHR '','' (FormatPortRanges rs) = map range_String rs"
  unfolding FormatPortRanges_def
  by (rule split_on_join) (auto simp: list_all_iff range_String_no_comma)

lemma FormatPortRanges_Nil_iff: "FormatPortRanges rs = [] \<longleftrightarrow> rs = []"
  by (cases rs; cases "tl rs") (auto simp: FormatPortRanges_def)

text \<open>A port pool printed by FormatPortRanges and read back by ParsePortRanges is the
  same list of ranges, for every pool of well-formed ranges (the ones ParsePortRanges yields).\<close>

theorem port_ranges_roundtrip:
  assumes "list_all range_ok rs"
  shows "ParsePortRanges (FormatPortRanges rs) = Inr rs"
proof (cases "rs = []")
  case True
  then show ?thesis by (simp add: ParsePortRanges_def FormatPortRanges_def)
next
  case False
  have "filter (\<lambda>p. p \<noteq> []) (map trim_space (map range_String rs)) = map range_String rs"
    using assms by (induction rs) auto
  moreover have "map_err parse_range_part (map range_String rs) = Inr rs"
    using assms by (induction rs) (auto simp: parse_range_String)
  ultimately show ?thesis
    using assms False
    by (simp add: ParsePortRanges_def FormatPortRanges_trim split_FormatPortRanges FormatPortRanges_Nil_iff)
qed

theorem port_ranges_roundtrip_witness:
  "ParsePortRanges (FormatPortRanges [\<lparr>rStart = 10000, rEnd = 10002\<rparr>, \<lparr>rStart = 10010, rEnd = 10010\<rparr>])
     = Inr [\<lparr>rStart = 10000, rEnd = 10002\<rparr>, \<lparr>rStart = 10010, rEnd = 10010\<rparr>]"
  by (rule port_ranges_roundtrip) (simp add: range_ok_def port_ok_def)

text \<open>Every range ParsePortRanges accepts lies in 1..65535 with start at most end, so a
  port found in a parsed pool is a usable port number.\<close>

theorem ParsePortRanges_ok:
  assumes "ParsePortRanges s = Inr rs"
  shows "list_all range_ok rs \<and> (\<forall>p. portInRanges p rs \<longrightarrow> port_ok p)"
proof -
  have ok: "r \<in> set rs \<Longrightarrow> range_ok r" for r
    using assms by (auto simp: ParsePortRanges_def Let_def split: if_splits
        dest!: map_err_Inr_set intro: parse_range_part_ok)
  moreover have "portInRanges p rs \<Longrightarrow> port_ok p" for p
    using ok by (force simp: portInRanges_def list_ex_iff Contains_def range_ok_def port_ok_def)
  ultimately show ?thesis by (auto simp: list_all_iff)
qed

theorem ParsePortRanges_ok_witness:
  "list_all range_ok [\<lparr>rStart = 80, rEnd = 80\<rparr>, \<lparr>rStart = 90, rEnd = 95\<rparr>]"
proof -
  have "ParsePortRanges '' 80,, 90 - 95 '' = Inr [\<lparr>rStart = 80, rEnd = 80\<rparr>, \<lparr>rStart = 90, rEnd = 95\<rparr>]"
    by code_simp
  then show ?thesis using ParsePortRanges_ok by blast
qed

section \<open>Domains\<close>

lemma split_on_chars: "c \<in> set s \<Longrightarrow> c \<noteq> sep \<Longrightarrow> \<exists>p \<in> set (split_on sep s). c \<in> set p"
proof (induction s)
  case (Cons x s)
  obtain y ys where "split_on sep s = y # ys"
    by (meson split_on_not_Nil neq_Nil_conv)
  with Cons show ?case by (cases "x = sep") auto
qed simp

lemma split_on_snoc: "split_on c (t @ [c]) = split_on c t @ [[]]"
proof (induction t)
  case (Cons x t)
  obtain y ys where "split_on c t = y # ys"
    by (meson split_on_not_Nil neq_Nil_conv)
  with Cons show ?case by auto
qed simp

lemma contains_single: "contains s [c] \<longleftrightarrow> c \<in> set s"
  by (induction s) (auto simp: has_prefix_def)

lemma check_labels_None: "check_labels ls = None \<longleftrightarrow> (\<forall>l \<in> set ls. check_label l = None)"
  by (induction ls) (auto split: option.splits)

lemma check_label_None:
  "check_label l = None \<longleftrightarrow> l \<noteq> [] \<and> length l \<le> 63 \<and> hd l \<noteq> CHR ''-'' \<and> last l \<noteq> CHR ''-'' \<and>
     (\<forall>c \<in> set l. label_char c)"
proof -
  have "has_prefix l ''-'' \<longleftrightarrow> l \<noteq> [] \<and> hd l = CHR ''-''"
    by (cases l) (auto simp: has_prefix_def)
  moreover have "has_suffix l ''-'' \<longleftrightarrow> l \<noteq> [] \<and> last l = CHR ''-''"
    by (cases l rule: rev_cases) (auto simp: has_suffix_iff)
  ultimately show ?thesis by (auto simp: check_label_def find_None_iff)
qed

lemma ipv4_field_label:
  assumes f: "ipv4_field f" shows "check_label f = None"
proof -
  have ne: "f \<noteq> []" and dig: "\<forall>c \<in> set f. is_digit c" and lz: "length f = 1 \<or> hd f \<noteq> CHR ''0''"
    and v: "nat_val f \<le> 255"
    using f by (auto simp: ipv4_field_def list_all_iff)
  have ge: "n * 10 ^ length s \<le> foldl (\<lambda>n c. 10 * n + digit_val c) n s" for n s
  proof (induction s arbitrary: n)
    case (Cons c s)
    have "n * 10 ^ length (c # s) \<le> (10 * n + digit_val c) * 10 ^ length s" by simp
    also have "\<dots> \<le> foldl (\<lambda>n c. 10 * n + digit_val c) (10 * n + digit_val c) s" by (rule Cons)
    finally show ?case by simp
  qed simp
  have "length f \<le> 63"
  proof (rule ccontr)
    assume long: "\<not> length f \<le> 63"
    obtain c t where ct: "f = c # t" using ne by (cases f) auto
    with long lz dig have c: "is_digit c" "c \<noteq> CHR ''0''" by auto
    have "digit_val c \<noteq> 0"
    proof
      assume "digit_val c = 0"
      with c(1) have "byte c = byte (CHR ''0'')" by (simp add: digit_val_def is_digit_def)
      with c(2) show False by (simp only: of_char_eq_iff)
    qed
    then have "10 ^ length t \<le> digit_val c * 10 ^ length t" by simp
    also have "\<dots> \<le> nat_val f" using ge [of "digit_val c" t] ct by (simp add: nat_val_def)
    finally have "10 ^ length t \<le> nat_val f" .
    moreover have "(10 :: nat) ^ 3 \<le> 10 ^ length t" using long ct by (intro power_increasing) auto
    ultimately show False using v by simp
  qed
  moreover have "hd f \<noteq> CHR ''-''" "last f \<noteq> CHR ''-''" using ne dig digit_not(1) by auto
  ultimately show ?thesis using ne dig by (auto simp: check_label_None label_char_def)
qed

lemma ParseIP_labels:
  "ParseIP d \<Longrightarrow> check_labels (split_on CHR ''.'' d) = None \<and> 2 \<le> length (split_on CHR ''.'' d)"
  by (auto simp: ParseIP_def Let_def check_labels_None list_all_iff ipv4_field_label)

lemma validateDomain_None:
  "validateDomain d = None \<longleftrightarrow> length d \<le> 253 \<and> 2 \<le> length (split_on CHR ''.'' d) \<and>
     (\<forall>l \<in> set (split_on CHR ''.'' d). check_label l = None)"
  using ParseIP_labels [of d] by (auto simp: validateDomain_def Let_def check_labels_None)

text \<open>The syntax validateDomain enforces: at most 253 bytes, at least two labels, each of 1 to 63
  lower-case letters, digits and inner hyphens. The IP-address shortcut accepts nothing more.\<close>

theorem validateDomain_spec:
  "validateDomain d = None \<longleftrightarrow>
     length d \<le> 253 \<and> 2 \<le> length (split_on CHR ''.'' d) \<and>
     list_all (\<lambda>l. l \<noteq> [] \<and> length l \<le> 63 \<and> hd l \<noteq> CHR ''-'' \<and> last l \<noteq> CHR ''-'' \<and>
       list_all label_char l) (split_on CHR ''.'' d)"
  by (auto simp: validateDomain_None check_label_None list_all_iff)

lemma valid_chars:
  assumes "validateDomain d = None" "c \<in> set d" shows "label_char c \<or> c = CHR ''.''"
  using assms split_on_chars [of c d "CHR ''.''"] by (auto simp: validateDomain_None check_label_None)

lemma valid_not_Nil: "validateDomain d = None \<Longrightarrow> d \<noteq> []"
  by (auto simp: validateDomain_None)

lemma valid_no_final_dot: "validateDomain d = None \<Longrightarrow> \<not> has_suffix d ''.''"
  by (auto simp: validateDomain_None has_suffix_iff split_on_snoc check_label_None)

definition canonical_domain :: "string \<Rightarrow> bool" where
  "canonical_domain d \<longleftrightarrow> d = [] \<or> d = ''*'' \<or> validateDomain (trim_prefix d ''*.'') = None"

lemma NormalizeDomain_canonical: "NormalizeDomain s = Inr d \<Longrightarrow> canonical_domain d"
  by (auto simp: NormalizeDomain_def Let_def canonical_domain_def trim_prefix_def
      split: if_splits option.splits)

definition domain_char :: "char \<Rightarrow> bool" where
  "domain_char c \<longleftrightarrow> label_char c \<or> c = CHR ''.'' \<or> c = CHR ''*''"

lemma domain_char_facts:
  "domain_char c \<Longrightarrow> \<not> is_space c \<and> \<not> is_upper c \<and> c \<noteq> CHR ''/'' \<and> c \<noteq> CHR '':''"
  by (auto simp: domain_char_def label_char_def is_space_def is_upper_def is_lower_def is_digit_def)

lemma canonical_chars: "canonical_domain d \<Longrightarrow> c \<in> set d \<Longrightarrow> domain_char c"
  using valid_chars [of "trim_prefix d ''*.''" c]
  by (auto simp: canonical_domain_def domain_char_def trim_prefix_def has_prefix_iff split: if_splits)

lemma canonical_no_final_dot:
  assumes "canonical_domain d" shows "\<not> has_suffix d ''.''"
proof
  assume "has_suffix d ''.''"
  then obtain t where t: "d = t @ ''.''" by (auto simp: has_suffix_iff)
  with assms have v: "validateDomain (trim_prefix d ''*.'') = None"
    by (cases t) (auto simp: canonical_domain_def)
  have "has_suffix (trim_prefix d ''*.'') ''.'' \<or> trim_prefix d ''*.'' = []"
  proof (cases "has_prefix d ''*.''")
    case True
    then obtain r where r: "d = ''*.'' @ r" by (auto simp: has_prefix_iff)
    then have tp: "trim_prefix d ''*.'' = r" using trim_prefix_append by blast
    show ?thesis
    proof (cases r rule: rev_cases)
      case (snoc r' c)
      with r t have "c = CHR ''.''" by simp
      with snoc tp show ?thesis by (auto simp: has_suffix_iff)
    qed (use tp in simp)
  next
    case False
    with t show ?thesis by (simp add: trim_prefix_def has_suffix_iff)
  qed
  with v show False using valid_no_final_dot valid_not_Nil by blast
qed

lemma strip_domain_canonical:
  assumes d: "canonical_domain d" shows "strip_domain d = d"
proof -
  have ch: "\<And>c. c \<in> set d \<Longrightarrow> \<not> is_space c \<and> \<not> is_upper c \<and> c \<noteq> CHR ''/'' \<and> c \<noteq> CHR '':''"
    using canonical_chars [OF d] domain_char_facts by blast
  have low: "to_lower d = d" using ch by (auto simp: to_lower_def lower_char_def map_idI)
  have tr: "trim_space d = d" using ch by (simp add: trim_space_id)
  have "has_prefix d ''http://'' \<or> has_prefix d ''https://'' \<Longrightarrow> CHR '':'' \<in> set d"
    by (auto simp: has_prefix_iff)
  then have "\<not> has_prefix d ''http://''" "\<not> has_prefix d ''https://''"
    using ch by blast+
  moreover have "index_any d ''/:'' = None" using ch by (auto simp: index_any_None)
  ultimately show ?thesis
    using low tr canonical_no_final_dot [OF d] by (simp add: strip_domain_def trim_prefix_def trim_suffix_def)
qed

lemma NormalizeDomain_fix:
  assumes "canonical_domain d" shows "NormalizeDomain d = Inr d"
proof -
  have "\<not> has_prefix d ''*.'' \<Longrightarrow> d \<noteq> [] \<Longrightarrow> d \<noteq> ''*'' \<Longrightarrow> \<not> contains d ''*''"
    using assms valid_chars [of d "CHR ''*''"] by (auto simp: canonical_domain_def trim_prefix_def contains_single
        label_char_def is_lower_def is_digit_def)
  with assms show ?thesis
    by (auto simp: NormalizeDomain_def strip_domain_canonical canonical_domain_def trim_prefix_def)
qed

text \<open>Domain normalisation is idempotent: what NormalizeDomain returns is in canonical form,
  and normalising it again returns it unchanged.\<close>

theorem NormalizeDomain_idempotent:
  assumes "NormalizeDomain s = Inr d"
  shows "canonical_domain d \<and> NormalizeDomain d = Inr d"
  using assms NormalizeDomain_canonical NormalizeDomain_fix by blast

theorem NormalizeDomain_idempotent_witness:
  "canonical_domain ''*.example.com'' \<and> NormalizeDomain ''*.example.com'' = Inr ''*.example.com''"
proof -
  have "NormalizeDomain '' HTTPS://*.Example.com:8443/x'' = Inr ''*.example.com''"
    by code_simp
  then show ?thesis by (rule NormalizeDomain_idempotent)
qed

subsection \<open>Lists of domains\<close>

lemma normalize_loop_Inr:
  "normalize_loop seen vs = Inr ds \<Longrightarrow>
     distinct ds \<and> set ds \<inter> set seen = {} \<and> (\<forall>d \<in> set ds. d \<noteq> [] \<and> canonical_domain d)"
proof (induction vs arbitrary: seen ds)
  case (Cons v vs)
  then obtain d where d: "NormalizeDomain v = Inr d" by (auto split: sum.splits)
  show ?case
  proof (cases "d = [] \<or> d \<in> set seen")
    case True
    with Cons d show ?thesis by auto
  next
    case False
    with Cons.prems d obtain es where "normalize_loop (d # seen) vs = Inr es" "ds = d # es"
      by (auto split: sum.splits)
    with Cons.IH [of "d # seen" es] False NormalizeDomain_canonical [OF d] show ?thesis by auto
  qed
qed simp

lemma normalize_loop_fix:
  "distinct ds \<Longrightarrow> set ds \<inter> set seen = {} \<Longrightarrow> (\<forall>d \<in> set ds. d \<noteq> [] \<and> canonical_domain d) \<Longrightarrow>
     normalize_loop seen ds = Inr ds"
  by (induction ds arbitrary: seen) (auto simp: NormalizeDomain_fix)

definition domains_ok :: "string list \<Rightarrow> bool" where
  "domains_ok ds \<longleftrightarrow> distinct ds \<and> list_all (\<lambda>d. d \<noteq> [] \<and> canonical_domain d) ds"

lemma NormalizeDomains_ok: "NormalizeDomains vs = Inr ds \<Longrightarrow> domains_ok ds"
  using normalize_loop_Inr [of "[]" vs ds] by (auto simp: NormalizeDomains_def domains_ok_def list_all_iff)

lemma NormalizeDomains_fix: "domains_ok ds \<Longrightarrow> NormalizeDomains ds = Inr ds"
  by (auto simp: NormalizeDomains_def domains_ok_def list_all_iff intro: normalize_loop_fix)

lemma canonical_no_comma: "canonical_domain d \<Longrightarrow> CHR '','' \<notin> set d"
  using canonical_chars [of d "CHR '',''"]
  by (auto simp: domain_char_def label_char_def is_lower_def is_digit_def)

lemma canonical_no_space: "canonical_domain d \<Longrightarrow> \<forall>c \<in> set d. \<not> is_space c"
  using canonical_chars domain_char_facts by blast

text \<open>A domain pool printed by FormatDomainPools and read back by ParseDomainPools is the same
  list, for every pool the parser can yield (distinct non-empty canonical domains).\<close>

theorem domain_pools_roundtrip:
  assumes ok: "domains_ok ds"
  shows "ParseDomainPools (FormatDomainPools ds) = Inr ds"
proof (cases "ds = []")
  case True
  then show ?thesis by (simp add: ParseDomainPools_def FormatDomainPools_def)
next
  case False
  have sp: "split_on CHR '','' (FormatDomainPools ds) = ds"
    using ok False unfolding FormatDomainPools_def
    by (intro split_on_join) (auto simp: domains_ok_def list_all_iff canonical_no_comma)
  have tr: "trim_space (FormatDomainPools ds) = FormatDomainPools ds"
    using ok unfolding FormatDomainPools_def
    by (intro trim_space_id, elim join_comma_no_space [rotated])
      (auto simp: domains_ok_def list_all_iff dest: canonical_no_space)
  have ne: "FormatDomainPools ds \<noteq> []"
    using sp ok by (force simp: domains_ok_def)
  from ok have "normalize_loop [] ds = Inr ds"
    by (auto simp: domains_ok_def list_all_iff intro: normalize_loop_fix)
  with sp tr ne show ?thesis by (simp add: ParseDomainPools_def)
qed

theorem domain_pools_roundtrip_witness:
  "ParseDomainPools (FormatDomainPools [''*.example.com'', ''app.test.com'']) = Inr [''*.example.com'', ''app.test.com'']"
  by (rule domain_pools_roundtrip) code_simp

text \<open>What a wildcard pool entry admits: for a canonical domain d and entry *.base, exactly base's
  strict subdomains (and the entry itself); in particular never the bare base.\<close>

theorem wildcard_pool:
  assumes "canonical_domain (''*.'' @ base)" "canonical_domain d" "d \<noteq> []" "base \<noteq> []"
  shows "domainInPools d [''*.'' @ base] \<longleftrightarrow> (\<exists>sub. sub \<noteq> [] \<and> d = sub @ ''.'' @ base)"
proof -
  have "domainInPools d [''*.'' @ base] \<longleftrightarrow>
      d = ''*.'' @ base \<or> (d \<noteq> base \<and> (\<exists>sub. d = sub @ ''.'' @ base))"
    using assms(4) by (auto simp: domainInPools_def domainInPool_def has_suffix_iff trim_prefix_def
        has_prefix_def Let_def)
  moreover have "sub \<noteq> []" if "d = sub @ ''.'' @ base" for sub
  proof
    assume "sub = []"
    with that have d: "d = CHR ''.'' # base" by simp
    with assms(2) have "validateDomain d = None"
      by (auto simp: canonical_domain_def trim_prefix_def has_prefix_iff split: if_splits)
    with d show False by (simp add: validateDomain_None check_label_None)
  qed
  ultimately show ?thesis by auto
qed

theorem wildcard_pool_witness:
  "\<exists>sub. sub \<noteq> [] \<and> ''web.example.com'' = sub @ ''.'' @ ''example.com''"
proof -
  have "canonical_domain (''*.'' @ ''example.com'')" "canonical_domain ''web.example.com''"
    "''web.example.com'' \<noteq> []" "''example.com'' \<noteq> []" by code_simp+
  note iff = wildcard_pool [OF this]
  have "domainInPools ''web.example.com'' [''*.'' @ ''example.com'']" by code_simp
  then show ?thesis unfolding iff .
qed

end
