(* ===== verification/Passwords.thy ===== *)
theory Passwords
  imports CoreTypes
begin

text \<open>
  Secrets and passwords of \<^verbatim>\<open>internal/core/store.go\<close>: \<^verbatim>\<open>randomSecret\<close>,
  \<^verbatim>\<open>hashPassword\<close>, \<^verbatim>\<open>verifyPassword\<close>, \<^verbatim>\<open>passwordDigest\<close>. SHA-256 is the
  parameter \<open>sha\<close>, an arbitrary function on byte strings; nothing below assumes more of it
  than a theorem says. A random secret is the value \<open>salt\<close> of its caller.
\<close>

text \<open>\<^verbatim>\<open>rand.Read\<close> yields 16 bytes, or fails and the clock's nanoseconds are used.\<close>

definition randomSecret :: "string option \<Rightarrow> int \<Rightarrow> string" where
  "randomSecret rnd unixNano = (case rnd of None \<Rightarrow> itoa unixNano | Some b \<Rightarrow> hex_encode b)"

fun passwordDigest_loop :: "(string \<Rightarrow> string) \<Rightarrow> nat \<Rightarrow> string \<Rightarrow> string" where
  "passwordDigest_loop sha 0 buf = buf"
| "passwordDigest_loop sha (Suc n) buf = passwordDigest_loop sha n (sha buf)"

definition passwordDigest :: "(string \<Rightarrow> string) \<Rightarrow> string \<Rightarrow> string \<Rightarrow> int \<Rightarrow> string" where
  "passwordDigest sha password salt iterations =
     passwordDigest_loop sha (nat iterations) (password @ '':'' @ salt)"

definition hash_iterations :: int where
  "hash_iterations = 100000"

definition hashPassword :: "(string \<Rightarrow> string) \<Rightarrow> string \<Rightarrow> string \<Rightarrow> string" where
  "hashPassword sha salt password =
     ''sha256:'' @ itoa hash_iterations @ '':'' @ salt @ '':''
       @ hex_encode (passwordDigest sha password salt hash_iterations)"

definition verifyPassword :: "(string \<Rightarrow> string) \<Rightarrow> User \<Rightarrow> string \<Rightarrow> bool" where
  "verifyPassword sha u password =
     (if uPasswordHash u \<noteq> [] then
        (let parts = split_on CHR '':'' (uPasswordHash u) in
         if length parts \<noteq> 4 \<or> parts ! 0 \<noteq> ''sha256'' then False
         else (case atoi (parts ! 1) of
             None \<Rightarrow> False
           | Some iterations \<Rightarrow>
               if iterations \<le> 0 then False
               else (case hex_decode (parts ! 3) of
                   None \<Rightarrow> False
                 | Some expected \<Rightarrow>
                     expected = passwordDigest sha password (parts ! 2) iterations)))
      else uPassword u \<noteq> [] \<and> uPassword u = password)"

section \<open>Facts\<close>

lemma passwordDigest_funpow: "passwordDigest_loop sha n buf = (sha ^^ n) buf"
  by (induction n arbitrary: buf) (simp_all add: funpow_swap1)

lemma randomSecret_no_colon: "CHR '':'' \<notin> set (randomSecret rnd t)"
  using hex_encode_no_colon by (simp add: randomSecret_def split: option.splits)

lemma randomSecret_not_Nil: "(\<And>b. rnd = Some b \<Longrightarrow> b \<noteq> []) \<Longrightarrow> randomSecret rnd t \<noteq> []"
  by (cases rnd) (auto simp: randomSecret_def neq_Nil_conv)

lemma hash_parts:
  assumes "CHR '':'' \<notin> set salt"
  shows "split_on CHR '':'' (hashPassword sha salt p) =
    [''sha256'', itoa hash_iterations, salt, hex_encode (passwordDigest sha p salt hash_iterations)]"
proof -
  have "hashPassword sha salt p = join '':''
      [''sha256'', itoa hash_iterations, salt, hex_encode (passwordDigest sha p salt hash_iterations)]"
    and "\<And>x. x \<in> set [''sha256'', itoa hash_iterations, salt,
        hex_encode (passwordDigest sha p salt hash_iterations)] \<Longrightarrow> CHR '':'' \<notin> set x"
    using assms hex_encode_no_colon by (auto simp: hashPassword_def)
  then show ?thesis by (simp only:) (rule split_on_join, auto)
qed

lemma hashPassword_not_Nil [simp]: "hashPassword sha salt p \<noteq> []"
  by (simp add: hashPassword_def)

lemma verify_hash:
  assumes "CHR '':'' \<notin> set salt" "uPasswordHash u = hashPassword sha salt p"
  shows "verifyPassword sha u q \<longleftrightarrow>
    passwordDigest sha p salt hash_iterations = passwordDigest sha q salt hash_iterations"
proof -
  have "atoi (itoa hash_iterations) = Some hash_iterations"
    by (rule atoi_itoa) (simp add: hash_iterations_def int64_def)
  then show ?thesis
    using assms by (simp add: verifyPassword_def hash_parts Let_def) (simp add: hash_iterations_def)
qed

text \<open>A stored hash verifies exactly the passwords with the digest of the one it was made from,
  whatever the hash function: the right password is always accepted, and a wrong one only on a
  collision of the iterated salted digest.\<close>

theorem verifyPassword_hashPassword:
  assumes "salt = randomSecret rnd t" "uPasswordHash u = hashPassword sha salt p"
  shows "verifyPassword sha u p \<and> (verifyPassword sha u q \<longleftrightarrow>
    passwordDigest sha q salt hash_iterations = passwordDigest sha p salt hash_iterations)"
  using verify_hash [of salt u sha p] assms randomSecret_no_colon by auto

theorem verifyPassword_hashPassword_witness:
  "verifyPassword rev (zero_User\<lparr>uPasswordHash :=
     hashPassword rev (randomSecret (Some ''0123456789abcdef'') 0) ''pw''\<rparr>) ''pw''"
  by (rule verifyPassword_hashPassword [THEN conjunct1, OF refl]) simp

end
