(* ===== verification/Store.thy ===== *)
theory Store
  imports CoreTypesFacts Passwords
begin

text \<open>
  \<^verbatim>\<open>internal/core/store.go\<close>: the control database and its operations. The state is the
  database in memory and what its file holds. What an operation takes from the outside is
  its argument \<open>Env\<close>: the clock, the random secrets it draws, and how writing the file
  ends. An operation returns the new state also when it fails, because the code mutates the
  records in memory before \<^verbatim>\<open>saveLocked\<close> can report an error. Every method runs under the
  store's mutex from its first read to its last write, so one call is one step.
\<close>

section \<open>State\<close>

text \<open>
  The file: missing, unreadable, empty, not JSON, or a JSON document with the three maps,
  each of which may be null. The maps are as the decoder gives them; \<open>StoreJson\<close> has the
  document itself, and \<open>StoreJsonProps\<close> shows that what is written is what is read.
\<close>

datatype db_file =
    Absent
  | Unreadable
  | EmptyFile
  | Malformed
  | Document "(string, User) gomap option" "(string, Node) gomap option" "(string, Tunnel) gomap option"

record Store =
  stDb :: Database
  stFile :: db_file

datatype save_outcome = Saved | SaveFailed db_file

record Env =
  eNow :: time
  eSalt :: string
  eSecret1 :: string
  eSecret2 :: string
  eSave :: save_outcome

datatype store_error =
    ParseError parse_error
  | SaveError
  | LoadError
  | AdminNameRequired
  | AdminPasswordRequired
  | UserNameRequired
  | PasswordRequired
  | UserNotFound string
  | BadRole
  | LastEnabledAdmin
  | NodeIdRequired
  | CannotDeleteDefaultNode
  | NodeNotFound string
  | NodeInUse string string
  | TunnelIdRequired
  | TunnelNotFound string
  | TunnelIdChanged
  | TunnelExists string
  | UserNameOfTunnelRequired
  | BadEngine
  | NodeNotFoundOrDisabled string
  | NodeWithoutNPS string
  | ModeRequired
  | BadMode
  | LocalPortRequired
  | UserNotFoundOrDisabled string
  | RemotePortRequired string
  | PortOutsideUserPool int "PortRange list"
  | PortOutsideNodePool int string "PortRange list"
  | PortInUse string int string
  | DomainRequired string
  | DomainOutsideUserPool string "string list"
  | DomainOutsideNodePool string string "string list"
  | DomainInUse string string
  | MaxTunnels string int

definition empty_Database :: Database where
  "empty_Database = \<lparr>dUsers = [], dNodes = [], dTunnels = []\<rparr>"

definition saveLocked :: "save_outcome \<Rightarrow> Store \<Rightarrow> Store \<times> store_error option" where
  "saveLocked io st = (case io of
       Saved \<Rightarrow> (st\<lparr>stFile := Document (Some (dUsers (stDb st))) (Some (dNodes (stDb st)))
           (Some (dTunnels (stDb st)))\<rparr>, None)
     | SaveFailed f \<Rightarrow> (st\<lparr>stFile := f\<rparr>, Some SaveError))"

text \<open>The tail of most operations: save, report the error, else return the value.\<close>

definition save_return :: "save_outcome \<Rightarrow> Store \<Rightarrow> 'a \<Rightarrow> Store \<times> (store_error + 'a)" where
  "save_return io st v = (case saveLocked io st of
       (st', None) \<Rightarrow> (st', Inr v)
     | (st', Some e) \<Rightarrow> (st', Inl e))"

definition set_users :: "((string, User) gomap \<Rightarrow> (string, User) gomap) \<Rightarrow> Store \<Rightarrow> Store" where
  "set_users f st = st\<lparr>stDb := (stDb st)\<lparr>dUsers := f (dUsers (stDb st))\<rparr>\<rparr>"

definition set_nodes :: "((string, Node) gomap \<Rightarrow> (string, Node) gomap) \<Rightarrow> Store \<Rightarrow> Store" where
  "set_nodes f st = st\<lparr>stDb := (stDb st)\<lparr>dNodes := f (dNodes (stDb st))\<rparr>\<rparr>"

definition set_tunnels :: "((string, Tunnel) gomap \<Rightarrow> (string, Tunnel) gomap) \<Rightarrow> Store \<Rightarrow> Store" where
  "set_tunnels f st = st\<lparr>stDb := (stDb st)\<lparr>dTunnels := f (dTunnels (stDb st))\<rparr>\<rparr>"

abbreviation users_of :: "Store \<Rightarrow> (string, User) gomap" where
  "users_of st \<equiv> dUsers (stDb st)"

abbreviation nodes_of :: "Store \<Rightarrow> (string, Node) gomap" where
  "nodes_of st \<equiv> dNodes (stDb st)"

abbreviation tunnels_of :: "Store \<Rightarrow> (string, Tunnel) gomap" where
  "tunnels_of st \<equiv> dTunnels (stDb st)"

section \<open>Helpers\<close>

definition tunnelNodeID :: "Tunnel \<Rightarrow> string" where
  "tunnelNodeID t = (if tNodeID t = [] then DefaultNodeID else tNodeID t)"

definition normalizeID :: "string \<Rightarrow> string" where
  "normalizeID input = to_lower (trim_space input)"

definition isPortMode :: "string \<Rightarrow> bool" where
  "isPortMode mode \<longleftrightarrow> mode = ''tcp'' \<or> mode = ''udp'' \<or> mode = ''socks5''"

definition isDomainMode :: "string \<Rightarrow> bool" where
  "isDomainMode mode \<longleftrightarrow> mode = ''http'' \<or> mode = ''https''"

definition portTransport :: "string \<Rightarrow> string" where
  "portTransport mode = (if mode = ''udp'' then ''udp'' else ''tcp'')"

definition nextTunnelID :: "string \<Rightarrow> string \<Rightarrow> string \<Rightarrow> string \<Rightarrow> int \<Rightarrow> string \<Rightarrow> string" where
  "nextTunnelID userName nodeID engine mode port secret =
     (let prefix = (if nodeID \<noteq> [] \<and> nodeID \<noteq> DefaultNodeID
            then userName @ ''-'' @ nodeID @ ''-'' @ engine @ ''-'' @ mode
            else userName @ ''-'' @ engine @ ''-'' @ mode)
      in if 0 < port then prefix @ ''-'' @ itoa port else prefix @ ''-'' @ take 8 secret)"

section \<open>Loading and migration\<close>

definition load :: "db_file \<Rightarrow> store_error + Database" where
  "load f = (case f of
       Absent \<Rightarrow> Inr empty_Database
     | Unreadable \<Rightarrow> Inl LoadError
     | EmptyFile \<Rightarrow> Inr empty_Database
     | Malformed \<Rightarrow> Inl LoadError
     | Document us ns ts \<Rightarrow> Inr \<lparr>dUsers = (case us of None \<Rightarrow> [] | Some m \<Rightarrow> m),
         dNodes = (case ns of None \<Rightarrow> [] | Some m \<Rightarrow> m),
         dTunnels = (case ts of None \<Rightarrow> [] | Some m \<Rightarrow> m)\<rparr>)"

text \<open>The secrets drawn for nodes without a token are given as a function of the node's key.\<close>

definition default_node :: "time \<Rightarrow> string \<Rightarrow> Node" where
  "default_node now secret = zero_Node\<lparr>nID := DefaultNodeID, nName := ''Local Node'', nToken := secret,
     nEnabled := True, nFRPEnabled := False, nNPSEnabled := True, nCreatedAt := now, nUpdatedAt := now\<rparr>"

definition migrateDefaultNode :: "(string \<Rightarrow> string) \<Rightarrow> time \<Rightarrow> save_outcome \<Rightarrow> Store \<Rightarrow> Store \<times> store_error option" where
  "migrateDefaultNode secrets now io st =
     (let missing = (mget (nodes_of st) DefaultNodeID = None);
          st1 = (if missing then set_nodes (mput DefaultNodeID (default_node now (secrets DefaultNodeID))) st else st);
          homeless = list_ex (\<lambda>(_, t). tNodeID t = []) (tunnels_of st1);
          st2 = set_tunnels (mmap (\<lambda>_ t. if tNodeID t = [] then t\<lparr>tNodeID := DefaultNodeID, tUpdatedAt := now\<rparr> else t)) st1;
          tokenless = list_ex (\<lambda>(_, n). nToken n = []) (nodes_of st2);
          st3 = set_nodes (mmap (\<lambda>k n. if nToken n = [] then n\<lparr>nToken := secrets k, nUpdatedAt := now\<rparr> else n)) st2
      in if \<not> (missing \<or> homeless \<or> tokenless) then (st3, None) else saveLocked io st3)"

definition legacy_password :: "User \<Rightarrow> bool" where
  "legacy_password u \<longleftrightarrow> uPassword u \<noteq> [] \<and> uPasswordHash u = []"

definition migrateLegacyPasswords ::
    "(string \<Rightarrow> string) \<Rightarrow> (string \<Rightarrow> string) \<Rightarrow> save_outcome \<Rightarrow> Store \<Rightarrow> Store \<times> store_error option" where
  "migrateLegacyPasswords sha salts io st =
     (let changed = list_ex (\<lambda>(_, u). legacy_password u) (users_of st);
          st1 = set_users (mmap (\<lambda>k u. if legacy_password u
              then u\<lparr>uPasswordHash := hashPassword sha (salts k) (uPassword u), uPassword := []\<rparr> else u)) st
      in if \<not> changed then (st1, None) else saveLocked io st1)"

definition NewStore :: "(string \<Rightarrow> string) \<Rightarrow> (string \<Rightarrow> string) \<Rightarrow> (string \<Rightarrow> string) \<Rightarrow> time \<Rightarrow>
    save_outcome \<Rightarrow> save_outcome \<Rightarrow> db_file \<Rightarrow> Store \<times> store_error option" where
  "NewStore sha secrets salts now io1 io2 f = (case load f of
       Inl e \<Rightarrow> (\<lparr>stDb = empty_Database, stFile = f\<rparr>, Some e)
     | Inr db \<Rightarrow>
         (case migrateDefaultNode secrets now io1 \<lparr>stDb = db, stFile = f\<rparr> of
            (st1, Some e) \<Rightarrow> (st1, Some e)
          | (st1, None) \<Rightarrow> migrateLegacyPasswords sha salts io2 st1))"

section \<open>Users\<close>

definition enabled_admin :: "User \<Rightarrow> bool" where
  "enabled_admin u \<longleftrightarrow> uRole u = RoleAdmin \<and> uEnabled u"

definition EnsureAdmin :: "(string \<Rightarrow> string) \<Rightarrow> Env \<Rightarrow> string \<Rightarrow> string \<Rightarrow> Store \<Rightarrow> Store \<times> bool \<times> store_error option" where
  "EnsureAdmin sha e name password st =
     (if name = [] then (st, False, Some AdminNameRequired)
      else if password = [] then (st, False, Some AdminPasswordRequired)
      else if list_ex (\<lambda>(_, u). enabled_admin u) (users_of st) then (st, False, None)
      else let u = zero_User\<lparr>uName := name, uPasswordHash := hashPassword sha (eSalt e) password,
                 uRole := RoleAdmin, uEnabled := True, uFRPToken := eSecret1 e,
                 uNPSVerifyKey := eSecret2 e, uCreatedAt := eNow e, uUpdatedAt := eNow e\<rparr>;
               (st', err) = saveLocked (eSave e) (set_users (mput name u) st)
           in (st', True, err))"

definition ListUsers :: "Store \<Rightarrow> PublicUser list" where
  "ListUsers st = sort_key pName (map (\<lambda>(_, u). Public u) (users_of st))"

definition Users :: "Store \<Rightarrow> User list" where
  "Users st = sort_key uName (map snd (users_of st))"

definition GetUser :: "Store \<Rightarrow> string \<Rightarrow> User option" where
  "GetUser st name = mget (users_of st) name"

definition VerifyLogin :: "(string \<Rightarrow> string) \<Rightarrow> Env \<Rightarrow> string \<Rightarrow> string \<Rightarrow> Store \<Rightarrow> Store \<times> User option" where
  "VerifyLogin sha e name password st = (case mget (users_of st) name of
       None \<Rightarrow> (st, None)
     | Some u \<Rightarrow>
         if \<not> uEnabled u \<or> \<not> verifyPassword sha u password then (st, None)
         else if uPassword u \<noteq> [] then
           (let u' = u\<lparr>uPasswordHash := hashPassword sha (eSalt e) password, uPassword := [],
                  uUpdatedAt := eNow e\<rparr>
            in (fst (saveLocked (eSave e) (set_users (mput name u') st)), Some u'))
         else (st, Some u))"

definition SetPassword :: "(string \<Rightarrow> string) \<Rightarrow> Env \<Rightarrow> string \<Rightarrow> string \<Rightarrow> Store \<Rightarrow> Store \<times> (store_error + unit)" where
  "SetPassword sha e name password st =
     (if name = [] then (st, Inl UserNameRequired)
      else if password = [] then (st, Inl PasswordRequired)
      else (case mget (users_of st) name of
          None \<Rightarrow> (st, Inl (UserNotFound name))
        | Some u \<Rightarrow>
            save_return (eSave e)
              (set_users (mput name (u\<lparr>uPassword := [], uPasswordHash := hashPassword sha (eSalt e) password,
                 uUpdatedAt := eNow e\<rparr>)) st) ()))"

text \<open>The record \<^verbatim>\<open>UpsertUser\<close> stores, from the existing or fresh record and the input.\<close>

definition upsert_user_record :: "(string \<Rightarrow> string) \<Rightarrow> Env \<Rightarrow> User \<Rightarrow> User option \<Rightarrow> User" where
  "upsert_user_record sha e inp old =
     (let now = eNow e;
          u0 = (case old of Some u \<Rightarrow> u
                | None \<Rightarrow> zero_User\<lparr>uName := uName inp, uEnabled := True, uCreatedAt := now\<rparr>);
          u1 = u0\<lparr>uRole := uRole inp, uEnabled := uEnabled inp, uPortPools := uPortPools inp,
                 uDomainPools := uDomainPools inp, uMaxPorts := uMaxPorts inp\<rparr>;
          u2 = (if uPassword inp \<noteq> []
                then u1\<lparr>uPassword := [], uPasswordHash := hashPassword sha (eSalt e) (uPassword inp)\<rparr> else u1);
          u3 = (if uFRPToken inp \<noteq> [] then u2\<lparr>uFRPToken := uFRPToken inp\<rparr>
                else if uFRPToken u2 = [] then u2\<lparr>uFRPToken := eSecret1 e\<rparr> else u2);
          u4 = (if uNPSVerifyKey inp \<noteq> [] then u3\<lparr>uNPSVerifyKey := uNPSVerifyKey inp\<rparr>
                else if uNPSVerifyKey u3 = [] then u3\<lparr>uNPSVerifyKey := eSecret2 e\<rparr> else u3);
          u5 = u4\<lparr>uRateLimit := uRateLimit inp, uFlowLimit := uFlowLimit inp, uFlowUsed := uFlowUsed inp,
                 uExpiresAt := uExpiresAt inp\<rparr>;
          u6 = (if IsZero (uExpiresAt inp) \<or> After (uExpiresAt inp) now then u5\<lparr>uExpiredAt := 0\<rparr>
                else if uRole u5 \<noteq> RoleAdmin then
                  (let v = u5\<lparr>uEnabled := False\<rparr> in
                   if IsZero (uExpiredAt v) then v\<lparr>uExpiredAt := now\<rparr> else v)
                else u5)
      in u6\<lparr>uUpdatedAt := now\<rparr>)"

definition UpsertUser :: "(string \<Rightarrow> string) \<Rightarrow> Env \<Rightarrow> User \<Rightarrow> Store \<Rightarrow> Store \<times> (store_error + PublicUser)" where
  "UpsertUser sha e in0 st =
     (if uName in0 = [] then (st, Inl UserNameRequired)
      else let in1 = (if uRole in0 = [] then in0\<lparr>uRole := RoleUser\<rparr> else in0) in
        if uRole in1 \<noteq> RoleAdmin \<and> uRole in1 \<noteq> RoleUser then (st, Inl BadRole)
        else (case NormalizeDomains (uDomainPools in1) of
            Inl err \<Rightarrow> (st, Inl (ParseError err))
          | Inr domains \<Rightarrow>
              let u = upsert_user_record sha e (in1\<lparr>uDomainPools := domains\<rparr>)
                    (mget (users_of st) (uName in1))
              in save_return (eSave e) (set_users (mput (uName in1) u) st) (Public u)))"

text \<open>One iteration of the loop of \<^verbatim>\<open>EnforceUserExpiry\<close>, and the loop.\<close>

definition expire_user :: "time \<Rightarrow> User \<Rightarrow> User \<times> bool" where
  "expire_user now u =
     (if \<not> After (uExpiresAt u) now then
        (if uEnabled u then (u\<lparr>uEnabled := False, uExpiredAt := now, uUpdatedAt := now\<rparr>, True)
         else if IsZero (uExpiredAt u) then (u\<lparr>uExpiredAt := now, uUpdatedAt := now\<rparr>, True)
         else (u, False))
      else (u, False))"

definition expiry_step :: "time \<Rightarrow> time \<Rightarrow> string \<Rightarrow> User \<Rightarrow> Store \<times> bool \<Rightarrow> Store \<times> bool" where
  "expiry_step now cutoff name u sc =
     (let (st, changed) = sc in
      if uRole u = RoleAdmin \<or> IsZero (uExpiresAt u) then (st, changed)
      else let (u', ch) = expire_user now u;
               st1 = (if ch then set_users (mput name u') st else st)
           in if \<not> IsZero (uExpiredAt u') \<and> \<not> After (uExpiredAt u') cutoff
              then (set_users (mdel name) (set_tunnels (mfilter (\<lambda>_ t. tUserName t \<noteq> name)) st1), True)
              else (st1, changed \<or> ch))"

fun expiry_loop :: "time \<Rightarrow> time \<Rightarrow> (string \<times> User) list \<Rightarrow> Store \<times> bool \<Rightarrow> Store \<times> bool" where
  "expiry_loop now cutoff [] sc = sc"
| "expiry_loop now cutoff ((name, u) # rest) sc = expiry_loop now cutoff rest (expiry_step now cutoff name u sc)"

definition EnforceUserExpiry :: "time \<Rightarrow> int \<Rightarrow> save_outcome \<Rightarrow> Store \<Rightarrow> Store \<times> bool \<times> store_error option" where
  "EnforceUserExpiry now retention io st =
     (let (st1, changed) = expiry_loop now (now - retention) (users_of st) (st, False) in
      if \<not> changed then (st1, False, None)
      else let (st2, err) = saveLocked io st1 in (st2, True, err))"

definition DeleteUser :: "save_outcome \<Rightarrow> string \<Rightarrow> Store \<Rightarrow> Store \<times> (store_error + unit)" where
  "DeleteUser io name st =
     (if name = [] then (st, Inl UserNameRequired)
      else (case mget (users_of st) name of
          None \<Rightarrow> (st, Inr ())
        | Some u \<Rightarrow>
            if uRole u = RoleAdmin \<and> length (filter (\<lambda>(_, v). enabled_admin v) (users_of st)) \<le> 1
            then (st, Inl LastEnabledAdmin)
            else save_return io
              (set_users (mdel name) (set_tunnels (mfilter (\<lambda>_ t. tUserName t \<noteq> name)) st)) ()))"

definition ResetUserFlow :: "Env \<Rightarrow> string \<Rightarrow> Store \<Rightarrow> Store \<times> (store_error + unit)" where
  "ResetUserFlow e name st =
     (if name = [] then (st, Inl UserNameRequired)
      else (case mget (users_of st) name of
          None \<Rightarrow> (st, Inl (UserNotFound name))
        | Some u \<Rightarrow> save_return (eSave e)
            (set_users (mput name (u\<lparr>uFlowUsed := 0, uUpdatedAt := eNow e\<rparr>)) st) ()))"

section \<open>Nodes\<close>

definition ListNodes :: "Store \<Rightarrow> Node list" where
  "ListNodes st = sort_key nID (map snd (nodes_of st))"

definition GetNode :: "Store \<Rightarrow> string \<Rightarrow> Node option" where
  "GetNode st nid = mget (nodes_of st) (normalizeID nid)"

definition UpsertNode :: "Env \<Rightarrow> Node \<Rightarrow> Store \<Rightarrow> Store \<times> (store_error + Node)" where
  "UpsertNode e in0 st =
     (let in1 = in0\<lparr>nID := normalizeID (nID in0)\<rparr> in
      if nID in1 = [] then (st, Inl NodeIdRequired)
      else let in2 = (if nName in1 = [] then in1\<lparr>nName := nID in1\<rparr> else in1) in
        (case NormalizeDomains (nDomainPools in2) of
           Inl err \<Rightarrow> (st, Inl (ParseError err))
         | Inr domains \<Rightarrow>
             let now = eNow e;
                 n0 = (case mget (nodes_of st) (nID in2) of Some n \<Rightarrow> n
                       | None \<Rightarrow> zero_Node\<lparr>nID := nID in2, nCreatedAt := now\<rparr>);
                 n1 = n0\<lparr>nName := nName in2\<rparr>;
                 n2 = (if nToken in2 \<noteq> [] then n1\<lparr>nToken := nToken in2\<rparr>
                       else if nToken n1 = [] then n1\<lparr>nToken := eSecret1 e\<rparr> else n1);
                 n3 = n2\<lparr>nPublicAddr := trim_space (nPublicAddr in2), nEnabled := nEnabled in2,
                        nFRPEnabled := False, nNPSEnabled := nNPSEnabled in2,
                        nPortPools := nPortPools in2, nDomainPools := domains,
                        nRuntime := nRuntime in2, nUpdatedAt := now\<rparr>
             in save_return (eSave e) (set_nodes (mput (nID in2) n3) st) n3))"

definition DeleteNode :: "save_outcome \<Rightarrow> string \<Rightarrow> Store \<Rightarrow> Store \<times> (store_error + unit)" where
  "DeleteNode io id0 st =
     (let nid = normalizeID id0 in
      if nid = [] then (st, Inl NodeIdRequired)
      else if nid = DefaultNodeID then (st, Inl CannotDeleteDefaultNode)
      else (case mget (nodes_of st) nid of
          None \<Rightarrow> (st, Inr ())
        | Some _ \<Rightarrow>
            (case List.find (\<lambda>(_, t). tunnelNodeID t = nid) (tunnels_of st) of
               Some (_, t) \<Rightarrow> (st, Inl (NodeInUse nid (tID t)))
             | None \<Rightarrow> save_return io (set_nodes (mdel nid) st) ())))"

definition UpdateNodeStatus :: "Env \<Rightarrow> string \<Rightarrow> bool \<Rightarrow> string \<Rightarrow> Store \<Rightarrow> Store \<times> (store_error + unit)" where
  "UpdateNodeStatus e id0 online lastError st =
     (let nid = normalizeID id0; now = eNow e in
      if nid = [] then (st, Inl NodeIdRequired)
      else (case mget (nodes_of st) nid of
          None \<Rightarrow> (st, Inl (NodeNotFound nid))
        | Some n \<Rightarrow>
            let s1 = (nStatus n)\<lparr>sOnline := online, sLastSyncAt := now\<rparr>;
                s2 = (if online then s1\<lparr>sLastSeenAt := now, sLastError := []\<rparr>
                      else s1\<lparr>sLastError := take 500 (trim_space lastError)\<rparr>)
            in save_return (eSave e) (set_nodes (mput nid (n\<lparr>nStatus := s2\<rparr>)) st) ()))"

section \<open>Tunnels\<close>

definition ListTunnels :: "Store \<Rightarrow> string \<Rightarrow> Tunnel list" where
  "ListTunnels st userName =
     sort_key tID (filter (\<lambda>t. userName = [] \<or> tUserName t = userName) (map snd (tunnels_of st)))"

definition countUserTunnelsLocked :: "Database \<Rightarrow> string \<Rightarrow> string \<Rightarrow> nat" where
  "countUserTunnelsLocked db userName exceptID =
     length (filter (\<lambda>(_, t). tID t \<noteq> exceptID \<and> tUserName t = userName) (dTunnels db))"

text \<open>The loop over the other tunnels in the port branch of \<^verbatim>\<open>validateTunnelLocked\<close>.\<close>

definition port_conflict :: "Tunnel \<Rightarrow> string \<Rightarrow> Tunnel \<Rightarrow> bool" where
  "port_conflict inp existingID existing \<longleftrightarrow>
     \<not> (tID existing = existingID \<or> \<not> isPortMode (tMode existing)) \<and>
     tunnelNodeID existing = tNodeID inp \<and>
     tRemotePort existing = tRemotePort inp \<and>
     portTransport (tMode existing) = portTransport (tMode inp)"

definition domain_conflict :: "Tunnel \<Rightarrow> string \<Rightarrow> string \<Rightarrow> Tunnel \<Rightarrow> bool" where
  "domain_conflict inp existingID domain existing \<longleftrightarrow>
     \<not> (tID existing = existingID \<or> \<not> isDomainMode (tMode existing)) \<and>
     tMode existing = tMode inp \<and> domain \<in> set (tDomains existing)"

fun check_domains :: "Database \<Rightarrow> Tunnel \<Rightarrow> string \<Rightarrow> User \<Rightarrow> Node \<Rightarrow> string list \<Rightarrow> store_error option" where
  "check_domains db inp existingID u node [] = None"
| "check_domains db inp existingID u node (d # ds) =
     (if \<not> domainInPools d (uDomainPools u) then Some (DomainOutsideUserPool d (uDomainPools u))
      else if nDomainPools node \<noteq> [] \<and> \<not> domainInPools d (nDomainPools node)
        then Some (DomainOutsideNodePool d (tNodeID inp) (nDomainPools node))
      else (case List.find (\<lambda>(_, t). domain_conflict inp existingID d t) (dTunnels db) of
          Some (_, t) \<Rightarrow> Some (DomainInUse d (tID t))
        | None \<Rightarrow> check_domains db inp existingID u node ds))"

definition check_port :: "Database \<Rightarrow> Tunnel \<Rightarrow> string \<Rightarrow> User \<Rightarrow> Node \<Rightarrow> store_error option" where
  "check_port db inp existingID u node =
     (if tRemotePort inp \<le> 0 then Some (RemotePortRequired (tMode inp))
      else if \<not> portInRanges (tRemotePort inp) (uPortPools u)
        then Some (PortOutsideUserPool (tRemotePort inp) (uPortPools u))
      else if nPortPools node \<noteq> [] \<and> \<not> portInRanges (tRemotePort inp) (nPortPools node)
        then Some (PortOutsideNodePool (tRemotePort inp) (tNodeID inp) (nPortPools node))
      else (case List.find (\<lambda>(_, t). port_conflict inp existingID t) (dTunnels db) of
          Some (_, t) \<Rightarrow> Some (PortInUse (portTransport (tMode inp)) (tRemotePort inp) (tID t))
        | None \<Rightarrow> None))"

definition validateTunnelLocked :: "Database \<Rightarrow> Tunnel \<Rightarrow> string \<Rightarrow> store_error option" where
  "validateTunnelLocked db inp existingID =
     (if tUserName inp = [] then Some UserNameOfTunnelRequired
      else if tEngine inp \<noteq> EngineNPS then Some BadEngine
      else (case mget (dNodes db) (tNodeID inp) of
          None \<Rightarrow> Some (NodeNotFoundOrDisabled (tNodeID inp))
        | Some node \<Rightarrow>
            if \<not> nEnabled node then Some (NodeNotFoundOrDisabled (tNodeID inp))
            else if \<not> nNPSEnabled node then Some (NodeWithoutNPS (tNodeID inp))
            else if tMode inp = [] then Some ModeRequired
            else if \<not> isPortMode (tMode inp) \<and> \<not> isDomainMode (tMode inp) then Some BadMode
            else if tLocalPort inp \<le> 0 \<or> 65535 < tLocalPort inp then Some LocalPortRequired
            else (case mget (dUsers db) (tUserName inp) of
                None \<Rightarrow> Some (UserNotFoundOrDisabled (tUserName inp))
              | Some u \<Rightarrow>
                  if \<not> uEnabled u then Some (UserNotFoundOrDisabled (tUserName inp))
                  else (case (if isPortMode (tMode inp) then check_port db inp existingID u node
                         else if tDomains inp = [] then Some (DomainRequired (tMode inp))
                         else check_domains db inp existingID u node (tDomains inp)) of
                      Some err \<Rightarrow> Some err
                    | None \<Rightarrow>
                        if 0 < uMaxPorts u \<and>
                           uMaxPorts u \<le> int (countUserTunnelsLocked db (tUserName inp) existingID)
                        then Some (MaxTunnels (tUserName inp) (uMaxPorts u)) else None))))"

text \<open>The first lines of \<^verbatim>\<open>CreateTunnel\<close> and \<^verbatim>\<open>UpdateTunnel\<close>.\<close>

definition normalize_tunnel :: "Tunnel \<Rightarrow> store_error + Tunnel" where
  "normalize_tunnel in0 =
     (let nid = normalizeID (tNodeID in0);
          in1 = in0\<lparr>tNodeID := (if nid = [] then DefaultNodeID else nid),
                   tMode := to_lower (trim_space (tMode in0)),
                   tEngine := to_lower (trim_space (tEngine in0)),
                   tLocalIP := (if tLocalIP in0 = [] then ''127.0.0.1'' else tLocalIP in0)\<rparr>
      in (case NormalizeDomains (tDomains in1) of
          Inl err \<Rightarrow> Inl (ParseError err)
        | Inr domains \<Rightarrow>
            if isDomainMode (tMode in1) then Inr (in1\<lparr>tDomains := domains, tRemotePort := 0\<rparr>)
            else Inr (in1\<lparr>tDomains := []\<rparr>)))"

definition CreateTunnel :: "Env \<Rightarrow> Tunnel \<Rightarrow> Store \<Rightarrow> Store \<times> (store_error + Tunnel)" where
  "CreateTunnel e in0 st = (case normalize_tunnel in0 of
       Inl err \<Rightarrow> (st, Inl err)
     | Inr in1 \<Rightarrow>
         (case validateTunnelLocked (stDb st) in1 [] of
            Some err \<Rightarrow> (st, Inl err)
          | None \<Rightarrow>
              let in2 = (if tID in1 = [] then in1\<lparr>tID := nextTunnelID (tUserName in1) (tNodeID in1)
                      (tEngine in1) (tMode in1) (tRemotePort in1) (eSecret1 e)\<rparr> else in1)
              in if mget (tunnels_of st) (tID in2) \<noteq> None then (st, Inl (TunnelExists (tID in2)))
                 else let cp = in2\<lparr>tCreatedAt := eNow e, tUpdatedAt := eNow e\<rparr>
                   in save_return (eSave e) (set_tunnels (mput (tID in2) cp) st) cp))"

definition UpdateTunnel :: "Env \<Rightarrow> string \<Rightarrow> Tunnel \<Rightarrow> Store \<Rightarrow> Store \<times> (store_error + Tunnel)" where
  "UpdateTunnel e tid in0 st = (case normalize_tunnel in0 of
       Inl err \<Rightarrow> (st, Inl err)
     | Inr in1 \<Rightarrow>
         if tid = [] then (st, Inl TunnelIdRequired)
         else (case mget (tunnels_of st) tid of
             None \<Rightarrow> (st, Inl (TunnelNotFound tid))
           | Some existing \<Rightarrow>
               let in2 = (if tID in1 = [] then in1\<lparr>tID := tid\<rparr> else in1) in
               if tID in2 \<noteq> tid then (st, Inl TunnelIdChanged)
               else (case validateTunnelLocked (stDb st) in2 tid of
                   Some err \<Rightarrow> (st, Inl err)
                 | None \<Rightarrow>
                     let cp = in2\<lparr>tCreatedAt := tCreatedAt existing, tUpdatedAt := eNow e\<rparr>
                     in save_return (eSave e) (set_tunnels (mput tid cp) st) cp)))"

definition DeleteTunnel :: "save_outcome \<Rightarrow> string \<Rightarrow> Store \<Rightarrow> Store \<times> (store_error + unit)" where
  "DeleteTunnel io tid st =
     (if tid = [] then (st, Inl TunnelIdRequired)
      else save_return io (set_tunnels (mdel tid) st) ())"

end
