(* ===== verification/StoreInv.thy ===== *)
theory StoreInv
  imports Store
begin

text \<open>
  The invariant of the control database and its preservation by every operation of
  \<open>Store\<close>: tables are keyed by their rows' names, every tunnel has an owner and a node,
  is well formed, and no two tunnels hold the same public resource (a port of one
  transport on one node, or a domain under one scheme).
\<close>

section \<open>Claims of tunnels\<close>

datatype claim = PortClaim string string int | DomainClaim string string

definition claims :: "Tunnel \<Rightarrow> claim list" where
  "claims t =
     (if isPortMode (tMode t) then [PortClaim (tunnelNodeID t) (portTransport (tMode t)) (tRemotePort t)]
      else if isDomainMode (tMode t) then map (DomainClaim (tMode t)) (tDomains t) else [])"

definition tunnel_shape :: "Tunnel \<Rightarrow> bool" where
  "tunnel_shape t \<longleftrightarrow>
     tUserName t \<noteq> [] \<and> tEngine t = EngineNPS \<and> tNodeID t \<noteq> [] \<and> normalizeID (tNodeID t) = tNodeID t \<and>
     tLocalIP t \<noteq> [] \<and> port_ok (tLocalPort t) \<and> domains_ok (tDomains t) \<and>
     (isPortMode (tMode t) \<and> 0 < tRemotePort t \<and> tDomains t = [] \<or>
      isDomainMode (tMode t) \<and> tRemotePort t = 0 \<and> tDomains t \<noteq> [])"

section \<open>The invariant\<close>

definition tunnel_ok :: "(string, User) gomap \<Rightarrow> (string, Node) gomap \<Rightarrow> Tunnel \<Rightarrow> bool" where
  "tunnel_ok us ns t \<longleftrightarrow> tunnel_shape t \<and> mget us (tUserName t) \<noteq> None \<and> mget ns (tNodeID t) \<noteq> None"

definition db_ok :: "Database \<Rightarrow> bool" where
  "db_ok db \<longleftrightarrow>
     keyed uName (dUsers db) \<and> keyed nID (dNodes db) \<and> keyed tID (dTunnels db) \<and>
     mget (dUsers db) [] = None \<and> mget (dTunnels db) [] = None \<and>
     mget (dNodes db) DefaultNodeID \<noteq> None \<and>
     list_all (\<lambda>(_, t). tunnel_ok (dUsers db) (dNodes db) t) (dTunnels db) \<and>
     exclusive claims (dTunnels db)"

lemma db_ok_iff:
  "db_ok db \<longleftrightarrow>
     keyed uName (dUsers db) \<and> keyed nID (dNodes db) \<and> keyed tID (dTunnels db) \<and>
     mget (dUsers db) [] = None \<and> mget (dTunnels db) [] = None \<and>
     mget (dNodes db) DefaultNodeID \<noteq> None \<and>
     (\<forall>k t. (k, t) \<in> set (dTunnels db) \<longrightarrow> tunnel_ok (dUsers db) (dNodes db) t) \<and>
     exclusive claims (dTunnels db)"
  by (auto simp: db_ok_def list_all_iff)

interpretation users: keyed_table mget mput mdel "\<lambda>m. m" mwf uName
  by unfold_locales

interpretation nodes: keyed_table mget mput mdel "\<lambda>m. m" mwf nID
  by unfold_locales

interpretation tunnels: keyed_table mget mput mdel "\<lambda>m. m" mwf tID
  by unfold_locales

interpretation registry: claim_table mget mput mdel "\<lambda>m. m" mwf claims
  by unfold_locales

lemma keyed_users_put: "keyed uName m \<Longrightarrow> uName u = k \<Longrightarrow> keyed uName (mput k u m)"
  using users.keyed_put [of m u k] unfolding keyed_iff by (blast intro: gm.wf_put)

lemma keyed_users_del: "keyed uName m \<Longrightarrow> keyed uName (mdel k m)"
  using users.keyed_del [of m k] unfolding keyed_iff by (blast intro: gm.wf_del)

lemma keyed_nodes_put: "keyed nID m \<Longrightarrow> nID n = k \<Longrightarrow> keyed nID (mput k n m)"
  using nodes.keyed_put [of m n k] unfolding keyed_iff by (blast intro: gm.wf_put)

lemma keyed_nodes_del: "keyed nID m \<Longrightarrow> keyed nID (mdel k m)"
  using nodes.keyed_del [of m k] unfolding keyed_iff by (blast intro: gm.wf_del)

lemma keyed_tunnels_put: "keyed tID m \<Longrightarrow> tID t = k \<Longrightarrow> keyed tID (mput k t m)"
  using tunnels.keyed_put [of m t k] unfolding keyed_iff by (blast intro: gm.wf_put)

lemma keyed_tunnels_del: "keyed tID m \<Longrightarrow> keyed tID (mdel k m)"
  using tunnels.keyed_del [of m k] unfolding keyed_iff by (blast intro: gm.wf_del)

lemma exclusive_tunnels_put:
  "mwf m \<Longrightarrow> exclusive claims m \<Longrightarrow>
   (\<And>j w. (j, w) \<in> set m \<Longrightarrow> j \<noteq> k \<Longrightarrow> set (claims t) \<inter> set (claims w) = {}) \<Longrightarrow> exclusive claims (mput k t m)"
  unfolding exclusive_iff by (rule registry.exclusive_put) blast+

lemma exclusive_tunnels_del: "mwf m \<Longrightarrow> exclusive claims m \<Longrightarrow> exclusive claims (mdel k m)"
  unfolding exclusive_iff by (rule registry.exclusive_del)

lemmas keyed_facts = keyed_users_put keyed_users_del keyed_nodes_put keyed_nodes_del
  keyed_tunnels_put keyed_tunnels_del keyed_mfilter

section \<open>Elementary changes of the database\<close>

lemma tunnel_ok_user_put: "tunnel_ok us ns t \<Longrightarrow> tunnel_ok (mput k u us) ns t"
  by (auto simp: tunnel_ok_def gomap_simps)

lemma tunnel_ok_node_put: "tunnel_ok us ns t \<Longrightarrow> tunnel_ok us (mput k n ns) t"
  by (auto simp: tunnel_ok_def gomap_simps)

lemma db_ok_put_user:
  "db_ok db \<Longrightarrow> uName u = k \<Longrightarrow> k \<noteq> [] \<Longrightarrow> db_ok (db\<lparr>dUsers := mput k u (dUsers db)\<rparr>)"
  unfolding db_ok_iff by (auto simp: keyed_facts gomap_simps intro: tunnel_ok_user_put)

lemma db_ok_put_node:
  "db_ok db \<Longrightarrow> nID n = k \<Longrightarrow> db_ok (db\<lparr>dNodes := mput k n (dNodes db)\<rparr>)"
  unfolding db_ok_iff by (auto simp: keyed_facts gomap_simps intro: tunnel_ok_node_put)

lemma db_ok_del_user:
  "db_ok db \<Longrightarrow> db_ok (db\<lparr>dTunnels := mfilter (\<lambda>_ t. tUserName t \<noteq> k) (dTunnels db),
     dUsers := mdel k (dUsers db)\<rparr>)"
  unfolding db_ok_iff
  by (auto simp: keyed_facts gomap_simps exclusive_mfilter tunnel_ok_def)

lemma db_ok_del_node:
  assumes ok: "db_ok db" and k: "k \<noteq> DefaultNodeID" and free: "\<forall>j t. (j, t) \<in> set (dTunnels db) \<longrightarrow> tunnelNodeID t \<noteq> k"
  shows "db_ok (db\<lparr>dNodes := mdel k (dNodes db)\<rparr>)"
proof -
  have "tunnel_ok (dUsers db) (mdel k (dNodes db)) t" if "(j, t) \<in> set (dTunnels db)" for j t
  proof -
    from that ok have t: "tunnel_ok (dUsers db) (dNodes db) t" by (auto simp: db_ok_iff)
    moreover from that free have "tunnelNodeID t \<noteq> k" by auto
    moreover from t have "tunnelNodeID t = tNodeID t" by (auto simp: tunnel_ok_def tunnel_shape_def tunnelNodeID_def)
    ultimately show ?thesis by (auto simp: tunnel_ok_def gomap_simps)
  qed
  with ok k show ?thesis unfolding db_ok_iff by (auto simp: keyed_facts gomap_simps)
qed

lemma db_ok_put_tunnel:
  assumes "db_ok db" "tunnel_ok (dUsers db) (dNodes db) t" "tID t = k" "k \<noteq> []"
    and "\<And>j w. (j, w) \<in> set (dTunnels db) \<Longrightarrow> j \<noteq> k \<Longrightarrow> set (claims t) \<inter> set (claims w) = {}"
  shows "db_ok (db\<lparr>dTunnels := mput k t (dTunnels db)\<rparr>)"
  using assms unfolding db_ok_iff
  by (auto simp: keyed_facts gomap_simps intro!: exclusive_tunnels_put split: if_splits)

lemma db_ok_del_tunnel: "db_ok db \<Longrightarrow> db_ok (db\<lparr>dTunnels := mdel k (dTunnels db)\<rparr>)"
  unfolding db_ok_iff by (auto simp: keyed_facts gomap_simps exclusive_tunnels_del)

section \<open>Saving\<close>

lemma saveLocked_db [frame_simps]: "stDb (fst (saveLocked io st)) = stDb st"
  by (simp add: saveLocked_def split: save_outcome.split)

lemma save_return_db [frame_simps]: "stDb (fst (save_return io st v)) = stDb st"
  by (simp add: save_return_def saveLocked_def split: save_outcome.split)

lemma save_return_Inr: "save_return io st v = (st', Inr w) \<longleftrightarrow>
    io = Saved \<and> w = v \<and> st' = fst (saveLocked Saved st)"
  by (auto simp: save_return_def saveLocked_def split: save_outcome.splits)

lemma set_db [frame_simps]:
  "stDb (set_users f st) = (stDb st)\<lparr>dUsers := f (dUsers (stDb st))\<rparr>"
  "stDb (set_nodes g st) = (stDb st)\<lparr>dNodes := g (dNodes (stDb st))\<rparr>"
  "stDb (set_tunnels h st) = (stDb st)\<lparr>dTunnels := h (dTunnels (stDb st))\<rparr>"
  by (simp_all add: set_users_def set_nodes_def set_tunnels_def)

definition store_ok :: "Store \<Rightarrow> bool" where
  "store_ok st \<longleftrightarrow> db_ok (stDb st)"

lemma store_ok_save [simp]: "store_ok (fst (saveLocked io st)) = store_ok st"
  and store_ok_save_return [simp]: "store_ok (fst (save_return io st v)) = store_ok st"
  by (simp_all add: store_ok_def frame_simps)

section \<open>What validateTunnelLocked accepts\<close>

lemma find_None_pair: "List.find (\<lambda>(_, t). P t) m = None \<longleftrightarrow> (\<forall>k t. (k, t) \<in> set m \<longrightarrow> \<not> P t)"
  by (auto simp: find_None_iff)

definition port_free :: "Database \<Rightarrow> Tunnel \<Rightarrow> string \<Rightarrow> bool" where
  "port_free db t except \<longleftrightarrow> list_all (\<lambda>(_, s). \<not> port_conflict t except s) (dTunnels db)"

definition domain_free :: "Database \<Rightarrow> Tunnel \<Rightarrow> string \<Rightarrow> string \<Rightarrow> bool" where
  "domain_free db t except d \<longleftrightarrow> list_all (\<lambda>(_, s). \<not> domain_conflict t except d s) (dTunnels db)"

text \<open>
  The acceptance condition of a tunnel as one formula: an enabled owner below its quota,
  an enabled NPS node, and a public port or domains that both pools allow and nobody
  else holds. An empty node pool allows everything, an empty user pool nothing.
\<close>

definition port_admissible :: "Database \<Rightarrow> Tunnel \<Rightarrow> string \<Rightarrow> User \<Rightarrow> Node \<Rightarrow> bool" where
  "port_admissible db t except u n \<longleftrightarrow>
     0 < tRemotePort t \<and> portInRanges (tRemotePort t) (uPortPools u) \<and>
     (nPortPools n = [] \<or> portInRanges (tRemotePort t) (nPortPools n)) \<and> port_free db t except"

definition domains_admissible :: "Database \<Rightarrow> Tunnel \<Rightarrow> string \<Rightarrow> User \<Rightarrow> Node \<Rightarrow> bool" where
  "domains_admissible db t except u n \<longleftrightarrow>
     tDomains t \<noteq> [] \<and> list_all (\<lambda>d. domainInPools d (uDomainPools u) \<and>
       (nDomainPools n = [] \<or> domainInPools d (nDomainPools n)) \<and> domain_free db t except d) (tDomains t)"

definition tunnel_admissible :: "Database \<Rightarrow> Tunnel \<Rightarrow> string \<Rightarrow> bool" where
  "tunnel_admissible db t except \<longleftrightarrow>
     tUserName t \<noteq> [] \<and> tEngine t = EngineNPS \<and> port_ok (tLocalPort t) \<and>
     (case (mget (dUsers db) (tUserName t), mget (dNodes db) (tNodeID t)) of
        (Some u, Some n) \<Rightarrow> uEnabled u \<and> nEnabled n \<and> nNPSEnabled n \<and>
          (isPortMode (tMode t) \<and> port_admissible db t except u n \<or>
           isDomainMode (tMode t) \<and> domains_admissible db t except u n) \<and>
          (uMaxPorts u \<le> 0 \<or> int (countUserTunnelsLocked db (tUserName t) except) < uMaxPorts u)
      | _ \<Rightarrow> False)"

lemma find_port_conflict:
  "List.find (\<lambda>(_, s). port_conflict t x s) (dTunnels db) = None \<longleftrightarrow> port_free db t x"
  by (auto simp: find_None_pair port_free_def list_all_iff)

lemma find_domain_conflict:
  "List.find (\<lambda>(_, s). domain_conflict t x d s) (dTunnels db) = None \<longleftrightarrow> domain_free db t x d"
  by (auto simp: find_None_pair domain_free_def list_all_iff)

lemma check_port_None: "check_port db t x u n = None \<longleftrightarrow> port_admissible db t x u n"
  by (auto simp: check_port_def port_admissible_def find_port_conflict [symmetric] split: option.splits)

lemma check_domains_None:
  "check_domains db t x u n ds = None \<longleftrightarrow> list_all (\<lambda>d. domainInPools d (uDomainPools u) \<and>
     (nDomainPools n = [] \<or> domainInPools d (nDomainPools n)) \<and> domain_free db t x d) ds"
proof (induction ds)
  case (Cons d ds)
  then show ?case by (auto simp: find_domain_conflict [symmetric] split: option.splits)
qed simp

lemma modes_disjoint: "isPortMode m \<Longrightarrow> \<not> isDomainMode m"
  by (auto simp: isPortMode_def isDomainMode_def)

text \<open>C1. validateTunnelLocked accepts a tunnel exactly when it satisfies the acceptance condition:
  the sequence of checks with early returns is the declarative rule, nothing more or less.\<close>

theorem validateTunnelLocked_iff:
  "validateTunnelLocked db t except = None \<longleftrightarrow> tunnel_admissible db t except"
proof -
  have mode: "m \<noteq> []" if "isPortMode m \<or> isDomainMode m" for m
    using that by (auto simp: isPortMode_def isDomainMode_def)
  have ports: "check_port db t x u n = Some e \<Longrightarrow> \<not> port_admissible db t x u n" for t x u n e
    using check_port_None [of db t x u n] by auto
  have doms: "tDomains t \<noteq> [] \<Longrightarrow> check_domains db t x u n (tDomains t) = Some e \<Longrightarrow>
      \<not> domains_admissible db t x u n" for t x u n e
    using check_domains_None [of db t x u n "tDomains t"] by (auto simp: domains_admissible_def)
  have none: "tDomains t \<noteq> [] \<Longrightarrow> check_domains db t x u n (tDomains t) = None \<longleftrightarrow>
      domains_admissible db t x u n" "tDomains t = [] \<Longrightarrow> \<not> domains_admissible db t x u n" for t x u n
    by (auto simp: domains_admissible_def check_domains_None)
  show ?thesis
    unfolding validateTunnelLocked_def tunnel_admissible_def
    using mode [of "tMode t"] modes_disjoint [of "tMode t"]
    by (auto simp: check_port_None none port_ok_def dest: ports doms split: option.splits if_splits)
qed

end
