(* ===== verification/StoreSteps.thy ===== *)
theory StoreSteps
  imports StoreInv
begin

text \<open>
  Every operation of the store keeps the invariant \<open>store_ok\<close>; loading and migrating a
  database file establishes it; so it holds in every state the store can reach, restarts
  and failed writes included.
\<close>

section \<open>Normalisation of tunnels\<close>

lemma normalizeID_idem [simp]: "normalizeID (normalizeID s) = normalizeID s"
  by (simp add: normalizeID_def trim_space_to_lower)

lemma normalizeID_default [simp]: "normalizeID DefaultNodeID = DefaultNodeID"
  by code_simp

lemma DefaultNodeID_not_Nil [simp]: "DefaultNodeID \<noteq> []"
  by (simp add: DefaultNodeID_def)

lemma normalize_tunnel_Inr:
  assumes "normalize_tunnel in0 = Inr t"
  shows "tNodeID t \<noteq> []" "normalizeID (tNodeID t) = tNodeID t" "tLocalIP t \<noteq> []" "domains_ok (tDomains t)"
    "tID t = tID in0" "tUserName t = tUserName in0"
    "isDomainMode (tMode t) \<Longrightarrow> tRemotePort t = 0" "\<not> isDomainMode (tMode t) \<Longrightarrow> tDomains t = []"
  using assms NormalizeDomains_ok
  by (auto simp: normalize_tunnel_def Let_def domains_ok_def split: sum.splits if_splits)

definition same_resources :: "Tunnel \<Rightarrow> Tunnel \<Rightarrow> bool" where
  "same_resources s t \<longleftrightarrow> tUserName s = tUserName t \<and> tNodeID s = tNodeID t \<and> tEngine s = tEngine t \<and>
     tMode s = tMode t \<and> tRemotePort s = tRemotePort t \<and> tLocalIP s = tLocalIP t \<and>
     tLocalPort s = tLocalPort t \<and> tDomains s = tDomains t"

lemma same_resources_admissible:
  assumes "same_resources s t"
  shows "port_admissible db s x u n = port_admissible db t x u n"
    "domains_admissible db s x u n = domains_admissible db t x u n"
  using assms by (simp_all add: same_resources_def port_admissible_def domains_admissible_def
      port_free_def domain_free_def port_conflict_def domain_conflict_def)

lemma same_resources_facts:
  assumes "same_resources s t"
  shows "claims s = claims t" "tunnel_ok us ns s = tunnel_ok us ns t"
    "tunnel_admissible db s x = tunnel_admissible db t x"
  using assms same_resources_admissible [OF assms]
  by (simp_all add: same_resources_def claims_def tunnelNodeID_def tunnel_ok_def
      tunnel_shape_def tunnel_admissible_def split: option.split)

lemma admissible_tunnel_ok:
  assumes "tunnel_admissible db t x" "normalize_tunnel in0 = Inr t"
  shows "tunnel_ok (dUsers db) (dNodes db) t"
  using assms(1) normalize_tunnel_Inr [OF assms(2)] modes_disjoint [of "tMode t"]
  by (auto simp: tunnel_ok_def tunnel_shape_def tunnel_admissible_def port_admissible_def
      domains_admissible_def split: option.splits)

lemma admissible_claims:
  assumes "db_ok db" "tunnel_admissible db t x" "tNodeID t \<noteq> []" "(j, w) \<in> set (dTunnels db)" "j \<noteq> x"
  shows "set (claims t) \<inter> set (claims w) = {}"
proof -
  have w: "tID w \<noteq> x" using assms(1,4,5) by (auto simp: db_ok_iff keyed_iff)
  have "isPortMode (tMode t) \<and> port_free db t x \<or>
      isDomainMode (tMode t) \<and> (\<forall>d \<in> set (tDomains t). domain_free db t x d)"
    using assms(2) by (auto simp: tunnel_admissible_def port_admissible_def domains_admissible_def
        list_all_iff split: option.splits)
  then show ?thesis
  proof
    assume p: "isPortMode (tMode t) \<and> port_free db t x"
    then have "\<not> port_conflict t x w" using assms(4) by (auto simp: port_free_def list_all_iff)
    with p w assms(3) show ?thesis
      by (auto simp: port_conflict_def claims_def tunnelNodeID_def)
  next
    assume d: "isDomainMode (tMode t) \<and> (\<forall>d \<in> set (tDomains t). domain_free db t x d)"
    then have "\<forall>d \<in> set (tDomains t). \<not> domain_conflict t x d w"
      using assms(4) by (auto simp: domain_free_def list_all_iff)
    with d w show ?thesis
      using modes_disjoint [of "tMode t"] modes_disjoint [of "tMode w"]
      by (auto simp: domain_conflict_def claims_def)
  qed
qed

lemma nextTunnelID_not_Nil [simp]: "nextTunnelID u n e m p s \<noteq> []"
  by (auto simp: nextTunnelID_def Let_def)

section \<open>Preservation, operation by operation\<close>

lemma CreateTunnel_store_ok: "store_ok st \<Longrightarrow> store_ok (fst (CreateTunnel e in0 st))"
proof -
  assume ok: "store_ok st"
  show ?thesis
  proof (cases "normalize_tunnel in0")
    case (Inl a)
    with ok show ?thesis by (simp add: CreateTunnel_def)
  next
    case (Inr t)
    show ?thesis
    proof (cases "validateTunnelLocked (stDb st) t []")
      case None
      then have adm: "tunnel_admissible (stDb st) t []" by (simp add: validateTunnelLocked_iff)
      define k where "k = (if tID t = [] then nextTunnelID (tUserName t) (tNodeID t) (tEngine t)
          (tMode t) (tRemotePort t) (eSecret1 e) else tID t)"
      define cp where "cp = t\<lparr>tID := k, tCreatedAt := eNow e, tUpdatedAt := eNow e\<rparr>"
      have k: "k \<noteq> []" by (simp add: k_def)
      have res: "same_resources cp t" by (simp add: cp_def same_resources_def)
      have "db_ok ((stDb st)\<lparr>dTunnels := mput k cp (dTunnels (stDb st))\<rparr>)"
      proof (rule db_ok_put_tunnel)
        show "db_ok (stDb st)" using ok by (simp add: store_ok_def)
        then have noempty: "(j, w) \<in> set (dTunnels (stDb st)) \<Longrightarrow> j \<noteq> []" for j w
          by (auto simp: db_ok_iff mem_mget)
        show "tunnel_ok (dUsers (stDb st)) (dNodes (stDb st)) cp"
          using admissible_tunnel_ok [OF adm Inr] by (simp add: same_resources_facts [OF res])
        show "set (claims cp) \<inter> set (claims w) = {}" if "(j, w) \<in> set (dTunnels (stDb st))" for j w
          using admissible_claims [OF \<open>db_ok (stDb st)\<close> adm normalize_tunnel_Inr(1) [OF Inr] that noempty [OF that]]
          by (simp add: same_resources_facts [OF res])
      qed (simp_all add: k cp_def)
      moreover have "fst (CreateTunnel e in0 st) =
          (if mget (tunnels_of st) k \<noteq> None then st
           else fst (save_return (eSave e) (set_tunnels (mput k cp) st) cp))"
        using Inr None by (auto simp: CreateTunnel_def Let_def k_def cp_def)
      ultimately show ?thesis using ok by (simp add: store_ok_def frame_simps)
    qed (use ok Inr in \<open>simp add: CreateTunnel_def\<close>)
  qed
qed

lemma UpdateTunnel_store_ok: "store_ok st \<Longrightarrow> store_ok (fst (UpdateTunnel e k in0 st))"
proof -
  assume ok: "store_ok st"
  show ?thesis
  proof (cases "normalize_tunnel in0")
    case (Inl a)
    with ok show ?thesis by (simp add: UpdateTunnel_def)
  next
    case (Inr t)
    define t' where "t' = (if tID t = [] then t\<lparr>tID := k\<rparr> else t)"
    have res: "same_resources t' t" by (simp add: t'_def same_resources_def)
    show ?thesis
    proof (cases "k \<noteq> [] \<and> tID t' = k \<and> validateTunnelLocked (stDb st) t' k = None")
      case True
      then have adm: "tunnel_admissible (stDb st) t k"
        using same_resources_facts(3) [OF res] by (simp add: validateTunnelLocked_iff)
      have db: "db_ok (stDb st)" using ok by (simp add: store_ok_def)
      have put: "store_ok (set_tunnels (mput k cp) st)" if "same_resources cp t" "tID cp = k" for cp
        unfolding store_ok_def set_db
      proof (rule db_ok_put_tunnel)
        show "tunnel_ok (users_of st) (nodes_of st) cp"
          using admissible_tunnel_ok [OF adm Inr] same_resources_facts(2) [OF that(1)] by simp
        show "set (claims cp) \<inter> set (claims w) = {}" if "(j, w) \<in> set (tunnels_of st)" "j \<noteq> k" for j w
          using admissible_claims [OF db adm normalize_tunnel_Inr(1) [OF Inr] that]
            same_resources_facts(1) [OF \<open>same_resources cp t\<close>] by simp
      qed (use db True that in simp_all)
      have "store_ok (set_tunnels (mput k (t'\<lparr>tCreatedAt := c, tUpdatedAt := eNow e\<rparr>)) st)" for c
        using True res by (intro put) (simp_all add: same_resources_def)
      with ok True Inr show ?thesis
        by (auto simp: UpdateTunnel_def Let_def t'_def split: option.split)
    next
      case False
      with ok Inr show ?thesis
        by (auto simp: UpdateTunnel_def Let_def t'_def split: option.split)
    qed
  qed
qed

lemma DeleteTunnel_store_ok: "store_ok st \<Longrightarrow> store_ok (fst (DeleteTunnel io k st))"
  by (simp add: DeleteTunnel_def store_ok_def frame_simps db_ok_del_tunnel)

lemma store_ok_put_user:
  "store_ok st \<Longrightarrow> uName u = k \<Longrightarrow> k \<noteq> [] \<Longrightarrow> store_ok (set_users (mput k u) st)"
  by (simp add: store_ok_def frame_simps db_ok_put_user)

lemma store_ok_del_user:
  "store_ok st \<Longrightarrow> store_ok (set_users (mdel k) (set_tunnels (mfilter (\<lambda>_ t. tUserName t \<noteq> k)) st))"
  using db_ok_del_user [of "stDb st" k] by (simp add: store_ok_def frame_simps)

lemma store_ok_put_node: "store_ok st \<Longrightarrow> nID n = k \<Longrightarrow> store_ok (set_nodes (mput k n) st)"
  by (simp add: store_ok_def frame_simps db_ok_put_node)

lemma store_ok_user:
  assumes "store_ok st" "mget (users_of st) k = Some u" shows "uName u = k \<and> k \<noteq> []"
proof -
  have "keyed uName (users_of st)" "mget (users_of st) [] = None"
    using assms(1) by (simp_all add: store_ok_def db_ok_iff)
  with assms(2) keyed_mget [of uName "users_of st" k u] show ?thesis by auto
qed

lemma store_ok_node: "store_ok st \<Longrightarrow> mget (nodes_of st) k = Some n \<Longrightarrow> nID n = k"
  by (rule keyed_mget [of nID "nodes_of st"]) (simp_all add: store_ok_def db_ok_iff)

lemma store_ok_tunnel: "store_ok st \<Longrightarrow> mget (tunnels_of st) k = Some t \<Longrightarrow> tID t = k"
  by (rule keyed_mget [of tID "tunnels_of st"]) (simp_all add: store_ok_def db_ok_iff)

lemma store_ok_upd_user:
  assumes "store_ok st" "mget (users_of st) k = Some u" "uName u' = uName u"
  shows "store_ok (set_users (mput k u') st)"
  using store_ok_user [OF assms(1,2)] assms by (simp add: store_ok_put_user)

lemma store_ok_upd_node:
  assumes "store_ok st" "mget (nodes_of st) k = Some n" "nID n' = nID n"
  shows "store_ok (set_nodes (mput k n') st)"
  using store_ok_node [OF assms(1,2)] assms by (simp add: store_ok_put_node)

lemma EnsureAdmin_store_ok: "store_ok st \<Longrightarrow> store_ok (fst (EnsureAdmin sha e n p st))"
  by (simp add: EnsureAdmin_def Let_def split_beta store_ok_put_user)

lemma VerifyLogin_store_ok: "store_ok st \<Longrightarrow> store_ok (fst (VerifyLogin sha e n p st))"
  by (auto simp: VerifyLogin_def Let_def intro: store_ok_upd_user split: option.split)

lemma SetPassword_store_ok: "store_ok st \<Longrightarrow> store_ok (fst (SetPassword sha e n p st))"
  by (auto simp: SetPassword_def intro: store_ok_upd_user split: option.split)

lemma ResetUserFlow_store_ok: "store_ok st \<Longrightarrow> store_ok (fst (ResetUserFlow e n st))"
  by (auto simp: ResetUserFlow_def intro: store_ok_upd_user split: option.split)

lemma upsert_user_record_name:
  "uName (upsert_user_record sha e inp old) = (case old of Some u \<Rightarrow> uName u | None \<Rightarrow> uName inp)"
  by (simp add: upsert_user_record_def Let_def split: option.split)

lemma UpsertUser_store_ok: "store_ok st \<Longrightarrow> store_ok (fst (UpsertUser sha e inp st))"
proof -
  assume ok: "store_ok st"
  have put: "store_ok (set_users (mput k (upsert_user_record sha e v (mget (users_of st) k))) st)"
    if "k \<noteq> []" "uName v = k" for k v
    using ok that store_ok_user [OF ok]
    by (intro store_ok_put_user) (auto simp: upsert_user_record_name split: option.split)
  show ?thesis
    using ok by (auto simp: UpsertUser_def Let_def put split: sum.split)
qed

lemma DeleteUser_store_ok: "store_ok st \<Longrightarrow> store_ok (fst (DeleteUser io n st))"
  by (simp add: DeleteUser_def store_ok_del_user split: option.split)

lemma UpsertNode_store_ok: "store_ok st \<Longrightarrow> store_ok (fst (UpsertNode e inp st))"
proof -
  assume ok: "store_ok st"
  have put: "store_ok (set_nodes (mput k n) st)" if "nID n = k" for k n
    using ok that by (rule store_ok_put_node)
  show ?thesis
    using ok store_ok_node [OF ok]
    by (auto simp: UpsertNode_def Let_def intro!: put split: sum.split option.split)
qed

lemma DeleteNode_store_ok: "store_ok st \<Longrightarrow> store_ok (fst (DeleteNode io k st))"
  by (auto simp: DeleteNode_def Let_def store_ok_def frame_simps find_None_pair
      intro!: db_ok_del_node split: option.split)

lemma UpdateNodeStatus_store_ok: "store_ok st \<Longrightarrow> store_ok (fst (UpdateNodeStatus e k b m st))"
  by (auto simp: UpdateNodeStatus_def Let_def intro: store_ok_upd_node split: option.split)

lemma expire_user_name [simp]: "uName (fst (expire_user now u)) = uName u"
  by (simp add: expire_user_def)

lemma expiry_step_store_ok:
  "store_ok (fst sc) \<Longrightarrow> uName u = k \<Longrightarrow> k \<noteq> [] \<Longrightarrow> store_ok (fst (expiry_step now lim k u sc))"
  using store_ok_put_user [of "fst sc" "fst (expire_user now u)" k]
  by (auto simp: expiry_step_def Let_def split_beta intro!: store_ok_del_user)

lemma expiry_loop_store_ok:
  "store_ok (fst sc) \<Longrightarrow> (\<And>k u. (k, u) \<in> set us \<Longrightarrow> uName u = k \<and> k \<noteq> []) \<Longrightarrow>
     store_ok (fst (expiry_loop now lim us sc))"
proof (induction now lim us sc rule: expiry_loop.induct)
  case (2 now lim k u rest sc)
  have "uName u = k \<and> k \<noteq> []" using "2.prems"(2) [of k u] by simp
  with "2.prems"(1) have step: "store_ok (fst (expiry_step now lim k u sc))"
    by (blast intro: expiry_step_store_ok)
  have rest: "uName v = j \<and> j \<noteq> []" if "(j, v) \<in> set rest" for j v
    using "2.prems"(2) [of j v] that by simp
  from "2.IH" [OF step rest] show ?case by simp
qed simp

lemma store_ok_tables: "store_ok st \<Longrightarrow> mwf (users_of st) \<and> mwf (nodes_of st) \<and> mwf (tunnels_of st)"
  unfolding store_ok_def db_ok_iff by (blast intro: keyed_wf)

lemma store_ok_user_entry:
  assumes "store_ok st" "(k, u) \<in> set (users_of st)" shows "uName u = k \<and> k \<noteq> []"
  using store_ok_user [OF assms(1)] store_ok_tables [OF assms(1)] assms(2) by (simp add: mem_mget)

lemma EnforceUserExpiry_store_ok:
  assumes "store_ok st" shows "store_ok (fst (EnforceUserExpiry now r io st))"
  using expiry_loop_store_ok [of "(st, False)" "users_of st" now "now - r"] assms
    store_ok_user_entry [OF assms]
  by (simp add: EnforceUserExpiry_def Let_def split_beta)

section \<open>Loading a file\<close>

text \<open>
  What a database document may look like before migration: tunnels of the time before
  nodes carry no node id, the default node may be missing, node tokens may be empty.
\<close>

definition legacy_tunnel_ok :: "(string, User) gomap \<Rightarrow> (string, Node) gomap \<Rightarrow> Tunnel \<Rightarrow> bool" where
  "legacy_tunnel_ok us ns t \<longleftrightarrow>
     tunnel_shape (t\<lparr>tNodeID := tunnelNodeID t\<rparr>) \<and> mget us (tUserName t) \<noteq> None \<and>
     (tunnelNodeID t = DefaultNodeID \<or> mget ns (tunnelNodeID t) \<noteq> None)"

definition legacy_ok :: "Database \<Rightarrow> bool" where
  "legacy_ok db \<longleftrightarrow>
     keyed uName (dUsers db) \<and> keyed nID (dNodes db) \<and> keyed tID (dTunnels db) \<and>
     mget (dUsers db) [] = None \<and> mget (dTunnels db) [] = None \<and>
     list_all (\<lambda>(_, t). legacy_tunnel_ok (dUsers db) (dNodes db) t) (dTunnels db) \<and>
     exclusive claims (dTunnels db)"

definition file_ok :: "db_file \<Rightarrow> bool" where
  "file_ok f \<longleftrightarrow> (case load f of Inl _ \<Rightarrow> True | Inr db \<Rightarrow> legacy_ok db)"

lemma legacy_ok_empty [simp]: "legacy_ok empty_Database"
  by (simp add: legacy_ok_def empty_Database_def)

lemma db_ok_legacy_ok: "db_ok db \<Longrightarrow> legacy_ok db"
proof -
  assume ok: "db_ok db"
  have "legacy_tunnel_ok (dUsers db) (dNodes db) t" if "(k, t) \<in> set (dTunnels db)" for k t
  proof -
    from ok that have t: "tunnel_ok (dUsers db) (dNodes db) t" by (auto simp: db_ok_iff)
    then have "tunnelNodeID t = tNodeID t" by (auto simp: tunnel_ok_def tunnel_shape_def tunnelNodeID_def)
    with t show ?thesis by (simp add: legacy_tunnel_ok_def tunnel_ok_def)
  qed
  with ok show ?thesis by (auto simp: db_ok_iff legacy_ok_def list_all_iff)
qed

definition fill_node :: "time \<Rightarrow> Tunnel \<Rightarrow> Tunnel" where
  "fill_node now t = (if tNodeID t = [] then t\<lparr>tNodeID := DefaultNodeID, tUpdatedAt := now\<rparr> else t)"

definition fill_token :: "(string \<Rightarrow> string) \<Rightarrow> time \<Rightarrow> string \<Rightarrow> Node \<Rightarrow> Node" where
  "fill_token secrets now k n = (if nToken n = [] then n\<lparr>nToken := secrets k, nUpdatedAt := now\<rparr> else n)"

definition with_default_node :: "Node \<Rightarrow> (string, Node) gomap \<Rightarrow> (string, Node) gomap" where
  "with_default_node d ns = (if mget ns DefaultNodeID = None then mput DefaultNodeID d ns else ns)"

lemma migrateDefaultNode_db:
  "stDb (fst (migrateDefaultNode secrets now io st)) =
     \<lparr>dUsers = users_of st,
      dNodes = mmap (fill_token secrets now)
        (with_default_node (default_node now (secrets DefaultNodeID)) (nodes_of st)),
      dTunnels = mmap (\<lambda>_. fill_node now) (tunnels_of st)\<rparr>"
  by (simp add: migrateDefaultNode_def Let_def frame_simps fill_node_def [abs_def] fill_token_def [abs_def]
      with_default_node_def)

lemma fill_node_facts:
  "tID (fill_node now t) = tID t" "claims (fill_node now t) = claims t"
  "tUserName (fill_node now t) = tUserName t" "tNodeID (fill_node now t) = tunnelNodeID t"
  "tunnel_shape (t\<lparr>tNodeID := tunnelNodeID t\<rparr>) \<Longrightarrow> tunnel_shape (fill_node now t)"
  by (auto simp: fill_node_def claims_def tunnelNodeID_def tunnel_shape_def split: if_splits)

lemma with_default_node_facts:
  "keyed nID ns \<Longrightarrow> nID d = DefaultNodeID \<Longrightarrow> keyed nID (with_default_node d ns)"
  "mget (with_default_node d ns) DefaultNodeID \<noteq> None"
  "mget ns k \<noteq> None \<Longrightarrow> mget (with_default_node d ns) k \<noteq> None"
  by (auto simp: with_default_node_def keyed_nodes_put gomap_simps)

lemma migrateDefaultNode_db_ok:
  assumes "legacy_ok (stDb st)"
  shows "store_ok (fst (migrateDefaultNode secrets now io st))"
proof -
  let ?ns = "with_default_node (default_node now (secrets DefaultNodeID)) (nodes_of st)"
  have nodes: "mget (mmap (fill_token secrets now) ?ns) k \<noteq> None \<longleftrightarrow> mget ?ns k \<noteq> None" for k
    by (simp add: gomap_simps)
  have "keyed nID (mmap (fill_token secrets now) ?ns)"
    using assms by (intro keyed_mmap with_default_node_facts)
      (auto simp: legacy_ok_def default_node_def fill_token_def)
  moreover have "tunnel_ok (users_of st) (mmap (fill_token secrets now) ?ns) (fill_node now t)"
    if "(k, t) \<in> set (tunnels_of st)" for k t
  proof -
    from that assms have "legacy_tunnel_ok (users_of st) (nodes_of st) t"
      by (auto simp: legacy_ok_def list_all_iff)
    then show ?thesis
      unfolding tunnel_ok_def nodes legacy_tunnel_ok_def fill_node_facts
      using with_default_node_facts(2,3) by (metis fill_node_facts(5))
  qed
  ultimately show ?thesis
    using assms unfolding store_ok_def migrateDefaultNode_db db_ok_iff
    by (auto simp: legacy_ok_def nodes with_default_node_facts fill_node_facts mmap_mem gomap_simps
        intro!: keyed_mmap exclusive_mmap)
qed

lemma migrateLegacyPasswords_db_ok:
  assumes "store_ok st" shows "store_ok (fst (migrateLegacyPasswords sha salts io st))"
proof -
  let ?f = "\<lambda>k u. if legacy_password u
    then u\<lparr>uPasswordHash := hashPassword sha (salts k) (uPassword u), uPassword := []\<rparr> else u"
  have "tunnel_ok us ns t \<Longrightarrow> tunnel_ok (mmap ?f us) ns t" for us ns t
    by (simp add: tunnel_ok_def gomap_simps)
  moreover have "keyed uName (mmap ?f (users_of st))"
    using assms by (intro keyed_mmap) (auto simp: store_ok_def db_ok_iff)
  ultimately have "store_ok (set_users (mmap ?f) st)"
    using assms unfolding store_ok_def set_db db_ok_iff by (auto simp: gomap_simps)
  then show ?thesis by (simp add: migrateLegacyPasswords_def Let_def)
qed

lemma NewStore_store_ok_core:
  assumes "NewStore sha secrets salts now io1 io2 f = (st, None)" "file_ok f"
  shows "store_ok st"
proof -
  from assms obtain db where db: "load f = Inr db" "legacy_ok db"
    by (auto simp: NewStore_def file_ok_def split: sum.splits)
  let ?m = "migrateDefaultNode secrets now io1 \<lparr>stDb = db, stFile = f\<rparr>"
  have "store_ok (fst ?m)" using db by (intro migrateDefaultNode_db_ok) simp
  then have "store_ok (fst (migrateLegacyPasswords sha salts io2 (fst ?m)))"
    by (rule migrateLegacyPasswords_db_ok)
  moreover have "migrateLegacyPasswords sha salts io2 (fst ?m) = (st, None)"
    using assms(1) db by (auto simp: NewStore_def split: prod.splits option.splits)
  ultimately show ?thesis by simp
qed

text \<open>Starting the server on any readable database file of the expected layout (including one
  from before nodes existed, or no file) ends in a database that satisfies the invariant.\<close>

theorem NewStore_store_ok:
  assumes "NewStore sha secrets salts now io1 io2 f = (st, None)" "file_ok f"
  shows "store_ok st"
  using assms by (rule NewStore_store_ok_core)

theorem NewStore_store_ok_witness:
  "store_ok (fst (NewStore rev (\<lambda>_. ''s3cret'') (\<lambda>_. ''salt'') 7 Saved Saved Absent))"
proof (rule NewStore_store_ok)
  show "NewStore rev (\<lambda>_. ''s3cret'') (\<lambda>_. ''salt'') 7 Saved Saved Absent =
    (fst (NewStore rev (\<lambda>_. ''s3cret'') (\<lambda>_. ''salt'') 7 Saved Saved Absent), None)"
    by code_simp
  show "file_ok Absent" by (simp add: file_ok_def load_def)
qed

section \<open>Reachable states\<close>

text \<open>
  A run of the server: a start on some acceptable file, then any sequence of operations
  (each with any clock, secrets and outcome of the write), and restarts on what the file
  then holds. A failed write leaves the old file, or one that is not a database document.
\<close>

definition write_ok :: "save_outcome \<Rightarrow> Store \<Rightarrow> bool" where
  "write_ok io st \<longleftrightarrow> (case io of Saved \<Rightarrow> True
     | SaveFailed f \<Rightarrow> f = stFile st \<or> f \<in> {Absent, Unreadable, EmptyFile, Malformed})"

inductive store_step :: "(string \<Rightarrow> string) \<Rightarrow> Store \<Rightarrow> Store \<Rightarrow> bool" for sha where
  ensure_admin: "write_ok (eSave e) st \<Longrightarrow> store_step sha st (fst (EnsureAdmin sha e name pw st))"
| verify_login: "write_ok (eSave e) st \<Longrightarrow> store_step sha st (fst (VerifyLogin sha e name pw st))"
| set_password: "write_ok (eSave e) st \<Longrightarrow> store_step sha st (fst (SetPassword sha e name pw st))"
| upsert_user: "write_ok (eSave e) st \<Longrightarrow> store_step sha st (fst (UpsertUser sha e u st))"
| enforce_expiry: "write_ok io st \<Longrightarrow> store_step sha st (fst (EnforceUserExpiry now r io st))"
| delete_user: "write_ok io st \<Longrightarrow> store_step sha st (fst (DeleteUser io name st))"
| reset_flow: "write_ok (eSave e) st \<Longrightarrow> store_step sha st (fst (ResetUserFlow e name st))"
| upsert_node: "write_ok (eSave e) st \<Longrightarrow> store_step sha st (fst (UpsertNode e n st))"
| delete_node: "write_ok io st \<Longrightarrow> store_step sha st (fst (DeleteNode io name st))"
| node_status: "write_ok (eSave e) st \<Longrightarrow> store_step sha st (fst (UpdateNodeStatus e name online msg st))"
| create_tunnel: "write_ok (eSave e) st \<Longrightarrow> store_step sha st (fst (CreateTunnel e t st))"
| update_tunnel: "write_ok (eSave e) st \<Longrightarrow> store_step sha st (fst (UpdateTunnel e name t st))"
| delete_tunnel: "write_ok io st \<Longrightarrow> store_step sha st (fst (DeleteTunnel io name st))"
| restart: "NewStore sha secrets salts now io1 io2 (stFile st) = (st', None) \<Longrightarrow> store_step sha st st'"

inductive store_reachable :: "(string \<Rightarrow> string) \<Rightarrow> Store \<Rightarrow> bool" for sha where
  start: "file_ok f \<Longrightarrow> NewStore sha secrets salts now io1 io2 f = (st, None) \<Longrightarrow> store_reachable sha st"
| step: "store_reachable sha st \<Longrightarrow> store_step sha st st' \<Longrightarrow> store_reachable sha st'"

lemmas store_op_ok = EnsureAdmin_store_ok VerifyLogin_store_ok SetPassword_store_ok UpsertUser_store_ok
  EnforceUserExpiry_store_ok DeleteUser_store_ok ResetUserFlow_store_ok UpsertNode_store_ok
  DeleteNode_store_ok UpdateNodeStatus_store_ok CreateTunnel_store_ok UpdateTunnel_store_ok
  DeleteTunnel_store_ok

lemma file_ok_trivial [simp]:
  "file_ok Absent" "file_ok Unreadable" "file_ok EmptyFile" "file_ok Malformed"
  by (simp_all add: file_ok_def load_def)

lemma Database_eta [simp]: "\<lparr>dUsers = dUsers db, dNodes = dNodes db, dTunnels = dTunnels db\<rparr> = db"
  by simp

text \<open>An operation leaves the file alone, or ends with the write of its final database.\<close>

definition touched :: "save_outcome \<Rightarrow> Store \<Rightarrow> Store \<Rightarrow> bool" where
  "touched io st st' \<longleftrightarrow> stFile st' = stFile st \<or> (\<exists>s. st' = fst (saveLocked io s))"

lemma touched_same [simp]: "touched io st st"
  by (simp add: touched_def)

lemma touched_save [simp]: "touched io st (fst (saveLocked io s))"
  by (auto simp: touched_def)

lemma touched_save_return [simp]: "touched io st (fst (save_return io s v))"
  by (simp add: save_return_def touched_def split_beta split: option.split) blast

lemma touched_file_ok:
  assumes "store_ok st'" "write_ok io st" "file_ok (stFile st)" "touched io st st'"
  shows "file_ok (stFile st')"
proof (cases "stFile st' = stFile st")
  case False
  with assms(4) obtain s where s: "st' = fst (saveLocked io s)" by (auto simp: touched_def)
  with assms(1) have ok: "legacy_ok (stDb s)" by (simp add: store_ok_def db_ok_legacy_ok frame_simps)
  show ?thesis
  proof (cases io)
    case Saved
    with s ok show ?thesis by (simp add: saveLocked_def file_ok_def load_def)
  next
    case (SaveFailed f)
    with s assms(2,3) show ?thesis by (auto simp: saveLocked_def write_ok_def)
  qed
qed (use assms in simp)

lemma expiry_step_file [simp]: "stFile (fst (expiry_step now lim k u sc)) = stFile (fst sc)"
  by (auto simp: expiry_step_def Let_def split_beta set_users_def set_tunnels_def)

lemma expiry_loop_file [simp]: "stFile (fst (expiry_loop now lim us sc)) = stFile (fst sc)"
  by (induction now lim us sc rule: expiry_loop.induct) auto

lemma op_touched:
  "touched (eSave e) st (fst (EnsureAdmin sha e name pw st))"
  "touched (eSave e) st (fst (VerifyLogin sha e name pw st))"
  "touched (eSave e) st (fst (SetPassword sha e name pw st))"
  "touched (eSave e) st (fst (UpsertUser sha e u st))"
  "touched io st (fst (EnforceUserExpiry now r io st))"
  "touched io st (fst (DeleteUser io name st))"
  "touched (eSave e) st (fst (ResetUserFlow e name st))"
  "touched (eSave e) st (fst (UpsertNode e n st))"
  "touched io st (fst (DeleteNode io name st))"
  "touched (eSave e) st (fst (UpdateNodeStatus e name online msg st))"
  "touched (eSave e) st (fst (CreateTunnel e t st))"
  "touched (eSave e) st (fst (UpdateTunnel e name t st))"
  "touched io st (fst (DeleteTunnel io name st))"
  subgoal by (simp add: EnsureAdmin_def Let_def split_beta)
  subgoal by (simp add: VerifyLogin_def Let_def split: option.split)
  subgoal by (simp add: SetPassword_def split: option.split)
  subgoal by (simp add: UpsertUser_def Let_def split: sum.split)
  subgoal by (simp add: EnforceUserExpiry_def Let_def split_beta) (simp add: touched_def)
  subgoal by (simp add: DeleteUser_def split: option.split)
  subgoal by (simp add: ResetUserFlow_def split: option.split)
  subgoal by (simp add: UpsertNode_def Let_def split: sum.split)
  subgoal by (simp add: DeleteNode_def Let_def split: option.split)
  subgoal by (simp add: UpdateNodeStatus_def Let_def split: option.split)
  subgoal by (simp add: CreateTunnel_def Let_def split: sum.split option.split)
  subgoal by (simp add: UpdateTunnel_def Let_def split: sum.split option.split)
  subgoal by (simp add: DeleteTunnel_def)
  done

lemma saveLocked_None:
  "saveLocked io s = (st', None) \<longleftrightarrow> io = Saved \<and> st' = fst (saveLocked Saved s)"
  by (auto simp: saveLocked_def split: save_outcome.split)

lemma set_file [simp]:
  "stFile (set_users f st) = stFile st" "stFile (set_nodes g st) = stFile st"
  "stFile (set_tunnels h st) = stFile st"
  by (simp_all add: set_users_def set_nodes_def set_tunnels_def)

lemma migrateDefaultNode_touched:
  "migrateDefaultNode secrets now io st = (st', None) \<Longrightarrow> touched Saved st st'"
  by (simp add: migrateDefaultNode_def Let_def saveLocked_None split: if_splits)
    (auto simp: touched_def)

lemma migrateLegacyPasswords_touched:
  "migrateLegacyPasswords sha salts io st = (st', None) \<Longrightarrow> touched Saved st st'"
  by (simp add: migrateLegacyPasswords_def Let_def saveLocked_None split: if_splits)
    (auto simp: touched_def)

lemma NewStore_file_ok:
  assumes "NewStore sha secrets salts now io1 io2 f = (st, None)" "file_ok f"
  shows "file_ok (stFile st)"
proof -
  from assms obtain db st1 where db: "load f = Inr db" "legacy_ok db"
    and 1: "migrateDefaultNode secrets now io1 \<lparr>stDb = db, stFile = f\<rparr> = (st1, None)"
    and 2: "migrateLegacyPasswords sha salts io2 st1 = (st, None)"
    by (auto simp: NewStore_def file_ok_def split: sum.splits prod.splits option.splits)
  have ok1: "store_ok st1"
    using migrateDefaultNode_db_ok [of "\<lparr>stDb = db, stFile = f\<rparr>" secrets now io1] db 1 by simp
  then have ok2: "store_ok st"
    using migrateLegacyPasswords_db_ok [of st1 sha salts io2] 2 by simp
  have saved: "write_ok Saved s" for s by (simp add: write_ok_def)
  have "file_ok (stFile st1)"
    using touched_file_ok [OF ok1 saved _ migrateDefaultNode_touched [OF 1]] assms(2) by simp
  then show ?thesis
    using touched_file_ok [OF ok2 saved _ migrateLegacyPasswords_touched [OF 2]] by simp
qed

lemma store_step_ok:
  assumes "store_step sha st st'" "store_ok st" "file_ok (stFile st)"
  shows "store_ok st' \<and> file_ok (stFile st')"
  using assms
proof (induction rule: store_step.induct)
  case (restart secrets salts now io1 io2 st st')
  then show ?case using NewStore_store_ok_core NewStore_file_ok by blast
qed (simp_all add: store_op_ok touched_file_ok op_touched)

lemma store_reachable_inv: "store_reachable sha st \<Longrightarrow> store_ok st \<and> file_ok (stFile st)"
proof (induction rule: store_reachable.induct)
  case (start f secrets salts now io1 io2 st)
  then show ?case using NewStore_store_ok_core NewStore_file_ok by blast
next
  case (step st st')
  then show ?case using store_step_ok by blast
qed

lemma reachable_store_ok: "store_reachable sha st \<Longrightarrow> store_ok st"
  using store_reachable_inv by blast

end
