(* ===== verification/StoreProps.thy ===== *)
theory StoreProps
  imports StoreSteps
begin

text \<open>
  The theorems about the control database: exclusivity and integrity in every reachable
  state, tunnel operations as a refinement of an abstract registry of public resources,
  quotas, error behaviour, passwords, the life cycle of expiring users, and the
  protection of the last administrator.
\<close>

section \<open>A concrete run\<close>

definition demo_env :: Env where
  "demo_env = \<lparr>eNow = 100, eSalt = ''salt'', eSecret1 = ''0123456789abcdef'', eSecret2 = ''fedcba9876543210'', eSave = Saved\<rparr>"

definition demo_user :: User where
  "demo_user = zero_User\<lparr>uName := ''alice'', uRole := ''user'', uEnabled := True, uPassword := ''pw'',
     uPortPools := [\<lparr>rStart = 10000, rEnd = 10001\<rparr>], uDomainPools := [''*.example.com''], uMaxPorts := 2\<rparr>"

definition demo_tunnel :: Tunnel where
  "demo_tunnel = zero_Tunnel\<lparr>tUserName := ''alice'', tEngine := ''nps'', tMode := ''TCP'', tRemotePort := 10000,
     tLocalPort := 8080, tEnabled := True\<rparr>"

definition demo_web :: Tunnel where
  "demo_web = zero_Tunnel\<lparr>tUserName := ''alice'', tEngine := ''nps'', tMode := ''https'', tLocalPort := 8443,
     tDomains := [''Web.example.com''], tEnabled := True\<rparr>"

definition demo_boot :: Store where
  "demo_boot = fst (NewStore rev (\<lambda>_. ''token'') (\<lambda>_. ''salt'') 1 Saved Saved Absent)"

definition demo_alice :: Store where
  "demo_alice = fst (UpsertUser rev demo_env (demo_user\<lparr>uPassword := []\<rparr>) demo_boot)"

definition demo_store :: Store where
  "demo_store = fst (CreateTunnel demo_env demo_web (fst (CreateTunnel demo_env demo_tunnel demo_alice)))"

lemma demo_env_ok [simp]: "write_ok (eSave demo_env) st"
  by (simp add: demo_env_def write_ok_def)

lemma demo_boot_reachable: "store_reachable rev demo_boot"
proof -
  have "NewStore rev (\<lambda>_. ''token'') (\<lambda>_. ''salt'') 1 Saved Saved Absent = (demo_boot, None)"
    by code_simp
  then show ?thesis by (rule store_reachable.start [OF file_ok_trivial(1)])
qed

lemma demo_alice_reachable: "store_reachable rev demo_alice"
  unfolding demo_alice_def
  by (rule store_reachable.step [OF demo_boot_reachable store_step.upsert_user]) simp

lemma demo_reachable: "store_reachable rev demo_store"
  unfolding demo_store_def
  by (intro store_reachable.step [OF _ store_step.create_tunnel] demo_alice_reachable demo_env_ok)

lemma demo_tunnels:
  "map fst (tunnels_of demo_store) = [''alice-nps-tcp-10000'', ''alice-nps-https-01234567'']"
  by code_simp

definition demo_alice_row :: User where
  "demo_alice_row = demo_user\<lparr>uPassword := [], uFRPToken := ''0123456789abcdef'',
     uNPSVerifyKey := ''fedcba9876543210'', uCreatedAt := 100, uUpdatedAt := 100\<rparr>"

lemma demo_alice_lookup: "mget (users_of demo_alice) ''alice'' = Some demo_alice_row"
  and demo_alice_enabled: "uEnabled demo_alice_row"
  by code_simp+

section \<open>Resources and their holders\<close>

definition holders :: "Database \<Rightarrow> claim \<Rightarrow> string list" where
  "holders db c = map fst (filter (\<lambda>(_, t). c \<in> set (claims t)) (dTunnels db))"

lemma fst_filter_mem: "k \<in> set (map fst (filter (\<lambda>(_, t). P t) m)) \<longleftrightarrow> (\<exists>t. (k, t) \<in> set m \<and> P t)"
  by (induction m) auto

lemma holders_mem:
  assumes "mwf (dTunnels db)"
  shows "k \<in> set (holders db c) \<longleftrightarrow> (\<exists>t. mget (dTunnels db) k = Some t \<and> c \<in> set (claims t))"
proof -
  have "k \<in> set (holders db c) \<longleftrightarrow> (\<exists>t. (k, t) \<in> set (dTunnels db) \<and> c \<in> set (claims t))"
    unfolding holders_def by (rule fst_filter_mem)
  then show ?thesis unfolding mem_mget [OF assms] .
qed

lemma holders_distinct: "mwf (dTunnels db) \<Longrightarrow> distinct (holders db c)"
  by (simp add: holders_def mwf_def distinct_map_filter)

lemma distinct_all_same: "distinct xs \<Longrightarrow> (\<And>x y. x \<in> set xs \<Longrightarrow> y \<in> set xs \<Longrightarrow> x = y) \<Longrightarrow> length xs \<le> 1"
  using card_le_Suc0_iff_eq [of "set xs"] distinct_card [of xs] by fastforce

lemma holders_unique:
  assumes wf: "mwf (dTunnels db)" and ex: "exclusive claims (dTunnels db)"
  shows "length (holders db c) \<le> 1"
proof (rule distinct_all_same [OF holders_distinct [OF wf]])
  fix x y assume "x \<in> set (holders db c)" "y \<in> set (holders db c)"
  then show "x = y"
    using registry.holder_unique [OF wf ex [unfolded exclusive_iff]] unfolding holders_mem [OF wf] by blast
qed

lemma store_ok_excl: "store_ok st \<Longrightarrow> mwf (tunnels_of st) \<and> exclusive claims (tunnels_of st)"
  using store_ok_tables [of st] by (auto simp: store_ok_def db_ok_iff)

text \<open>C2. In every reachable state of the store, whatever the order of operations, failed writes and
  restarts, a public resource (a port of one transport on one node, a domain under one scheme)
  has at most one tunnel holding it.\<close>

theorem reachable_claims_exclusive:
  assumes "store_reachable sha st"
  shows "length (holders (stDb st) c) \<le> 1"
  using reachable_store_ok [OF assms] store_ok_excl by (blast intro: holders_unique)

theorem reachable_claims_exclusive_witness:
  "length (holders (stDb demo_store) (PortClaim ''local'' ''tcp'' 10000)) \<le> 1"
  by (rule reachable_claims_exclusive [OF demo_reachable])

text \<open>C3. In every reachable state every tunnel is filed under its id, well formed, belongs to an existing
  user and sits on an existing node, and the default node exists.\<close>

theorem reachable_referential_integrity:
  assumes "store_reachable sha st"
  shows "mget (nodes_of st) DefaultNodeID \<noteq> None \<and>
    list_all (\<lambda>(k, t). tID t = k \<and> tunnel_shape t \<and> mget (users_of st) (tUserName t) \<noteq> None \<and>
      mget (nodes_of st) (tNodeID t) \<noteq> None) (tunnels_of st)"
  using reachable_store_ok [OF assms]
  by (auto simp: store_ok_def db_ok_iff keyed_iff tunnel_ok_def list_all_iff)

theorem reachable_referential_integrity_witness:
  "mget (nodes_of demo_store) ''local'' \<noteq> None"
  using reachable_referential_integrity [OF demo_reachable] by (simp add: DefaultNodeID_def)

section \<open>The abstract registry\<close>

text \<open>
  The specification: a registry maps each resource to the id of its holder. A tunnel
  operation replaces what its id holds, provided nobody else holds what it wants.
\<close>

definition release :: "string \<Rightarrow> (claim \<Rightarrow> string option) \<Rightarrow> claim \<Rightarrow> string option" where
  "release k R c = (if R c = Some k then None else R c)"

definition acquire :: "string \<Rightarrow> claim list \<Rightarrow> (claim \<Rightarrow> string option) \<Rightarrow> (claim \<Rightarrow> string option) option" where
  "acquire k cs R = (if list_all (\<lambda>c. R c = None \<or> R c = Some k) cs
     then Some (\<lambda>c. if c \<in> set cs then Some k else release k R c) else None)"

definition holder :: "Database \<Rightarrow> claim \<Rightarrow> string option" where
  "holder db c = (case holders db c of [] \<Rightarrow> None | k # _ \<Rightarrow> Some k)"

lemma holder_Some:
  assumes "mwf (dTunnels db)" "exclusive claims (dTunnels db)"
  shows "holder db c = Some k \<longleftrightarrow> (\<exists>t. mget (dTunnels db) k = Some t \<and> c \<in> set (claims t))"
proof -
  have "holder db c = Some k \<longleftrightarrow> k \<in> set (holders db c)"
    using holders_unique [OF assms, of c] by (cases "holders db c") (auto simp: holder_def)
  then show ?thesis using holders_mem [OF assms(1)] by simp
qed

lemma option_eqI: "(\<And>k. x = Some k \<longleftrightarrow> y = Some k) \<Longrightarrow> x = y"
  by (cases x; cases y) auto

lemma holder_put:
  assumes wf: "mwf (dTunnels db)" and ex: "exclusive claims (dTunnels db)"
    and ex': "exclusive claims (mput k t (dTunnels db))"
  shows "acquire k (claims t) (holder db) = Some (holder (db\<lparr>dTunnels := mput k t (dTunnels db)\<rparr>))"
proof -
  let ?db' = "db\<lparr>dTunnels := mput k t (dTunnels db)\<rparr>"
  have wf': "mwf (dTunnels ?db')" using wf by (simp add: gomap_simps)
  have new: "holder ?db' c = Some j \<longleftrightarrow>
      (if j = k then c \<in> set (claims t) else \<exists>s. mget (dTunnels db) j = Some s \<and> c \<in> set (claims s))" for c j
    using holder_Some [OF wf', of c j] ex' by (auto simp: gomap_simps)
  have free: "holder db c = None \<or> holder db c = Some k" if c: "c \<in> set (claims t)" for c
  proof (rule ccontr)
    assume "\<not> ?thesis"
    then obtain j where j: "holder db c = Some j" "j \<noteq> k" by auto
    with holder_Some [OF wf ex] obtain s where "mget (dTunnels db) j = Some s" "c \<in> set (claims s)" by blast
    then have "holder ?db' c = Some j" "holder ?db' c = Some k" using new c j(2) by auto
    with j(2) show False by simp
  qed
  have "holder ?db' c = (if c \<in> set (claims t) then Some k else release k (holder db) c)" for c
  proof (cases "c \<in> set (claims t)")
    case True
    then show ?thesis using new [of c k] by simp
  next
    case False
    have "holder ?db' c = Some j \<longleftrightarrow> release k (holder db) c = Some j" for j
      using new [of c j] False by (auto simp: release_def holder_Some [OF wf ex, symmetric])
    then have "holder ?db' c = release k (holder db) c" by (rule option_eqI)
    with False show ?thesis by simp
  qed
  then have "holder ?db' = (\<lambda>c. if c \<in> set (claims t) then Some k else release k (holder db) c)" by blast
  with free show ?thesis by (auto simp: acquire_def list_all_iff)
qed

lemma CreateTunnel_Inr:
  assumes "CreateTunnel e in0 st = (st', Inr t)"
  shows "stDb st' = (stDb st)\<lparr>dTunnels := mput (tID t) t (tunnels_of st)\<rparr>" "mget (tunnels_of st) (tID t) = None"
    "tunnel_admissible (stDb st) t []" "tCreatedAt t = eNow e" "tUpdatedAt t = eNow e" "eSave e = Saved"
proof -
  from assms obtain in1 where n: "normalize_tunnel in0 = Inr in1"
    by (auto simp: CreateTunnel_def split: sum.splits)
  with assms have v: "validateTunnelLocked (stDb st) in1 [] = None"
    by (auto simp: CreateTunnel_def split: option.splits)
  define in2 where "in2 = (if tID in1 = [] then in1\<lparr>tID := nextTunnelID (tUserName in1) (tNodeID in1)
      (tEngine in1) (tMode in1) (tRemotePort in1) (eSecret1 e)\<rparr> else in1)"
  have res: "same_resources (in2\<lparr>tCreatedAt := eNow e, tUpdatedAt := eNow e\<rparr>) in1"
    by (simp add: in2_def same_resources_def)
  from assms n v have fresh: "mget (tunnels_of st) (tID in2) = None"
    and ret: "save_return (eSave e) (set_tunnels (mput (tID in2) (in2\<lparr>tCreatedAt := eNow e, tUpdatedAt := eNow e\<rparr>)) st)
      (in2\<lparr>tCreatedAt := eNow e, tUpdatedAt := eNow e\<rparr>) = (st', Inr t)"
    by (auto simp: CreateTunnel_def Let_def in2_def split: if_splits)
  then have t: "t = in2\<lparr>tCreatedAt := eNow e, tUpdatedAt := eNow e\<rparr>" "eSave e = Saved"
    and st': "st' = fst (saveLocked Saved (set_tunnels (mput (tID in2) t) st))"
    by (auto simp: save_return_Inr)
  show "stDb st' = (stDb st)\<lparr>dTunnels := mput (tID t) t (tunnels_of st)\<rparr>" "mget (tunnels_of st) (tID t) = None"
    "tCreatedAt t = eNow e" "tUpdatedAt t = eNow e" "eSave e = Saved"
    using fresh t st' by (simp_all add: frame_simps)
  show "tunnel_admissible (stDb st) t []"
    using v res t(1) same_resources_facts(3) by (simp add: validateTunnelLocked_iff)
qed

lemma UpdateTunnel_Inr:
  assumes "UpdateTunnel e k in0 st = (st', Inr t)"
  shows "stDb st' = (stDb st)\<lparr>dTunnels := mput k t (tunnels_of st)\<rparr>" "tID t = k"
    "tunnel_admissible (stDb st) t k" "eSave e = Saved"
    "\<exists>old. mget (tunnels_of st) k = Some old \<and> tCreatedAt t = tCreatedAt old"
proof -
  from assms obtain in1 where n: "normalize_tunnel in0 = Inr in1"
    by (auto simp: UpdateTunnel_def split: sum.splits)
  define in2 where "in2 = (if tID in1 = [] then in1\<lparr>tID := k\<rparr> else in1)"
  from assms n obtain old where old: "mget (tunnels_of st) k = Some old" and id2: "tID in2 = k"
    and v: "validateTunnelLocked (stDb st) in2 k = None"
    and ret: "save_return (eSave e) (set_tunnels (mput k (in2\<lparr>tCreatedAt := tCreatedAt old, tUpdatedAt := eNow e\<rparr>)) st)
      (in2\<lparr>tCreatedAt := tCreatedAt old, tUpdatedAt := eNow e\<rparr>) = (st', Inr t)"
    by (auto simp: UpdateTunnel_def Let_def in2_def split: option.splits if_splits)
  from ret have t: "t = in2\<lparr>tCreatedAt := tCreatedAt old, tUpdatedAt := eNow e\<rparr>" "eSave e = Saved"
    and st': "st' = fst (saveLocked Saved (set_tunnels (mput k t) st))"
    by (auto simp: save_return_Inr)
  have "same_resources t in2" by (simp add: t same_resources_def)
  then show "tunnel_admissible (stDb st) t k"
    using v same_resources_facts(3) by (simp add: validateTunnelLocked_iff)
  show "stDb st' = (stDb st)\<lparr>dTunnels := mput k t (tunnels_of st)\<rparr>" "tID t = k" "eSave e = Saved"
    "\<exists>old. mget (tunnels_of st) k = Some old \<and> tCreatedAt t = tCreatedAt old"
    using t st' old id2 by (simp_all add: frame_simps)
qed

lemma holder_del:
  assumes wf: "mwf (dTunnels db)" and ex: "exclusive claims (dTunnels db)"
  shows "holder (db\<lparr>dTunnels := mdel k (dTunnels db)\<rparr>) = release k (holder db)"
proof (rule ext, rule option_eqI)
  fix c j
  have wf': "mwf (dTunnels (db\<lparr>dTunnels := mdel k (dTunnels db)\<rparr>))" using wf by (simp add: gomap_simps)
  have ex': "exclusive claims (dTunnels (db\<lparr>dTunnels := mdel k (dTunnels db)\<rparr>))"
    using exclusive_tunnels_del [OF wf ex] by simp
  have "holder (db\<lparr>dTunnels := mdel k (dTunnels db)\<rparr>) c = Some j \<longleftrightarrow> j \<noteq> k \<and> holder db c = Some j"
    unfolding holder_Some [OF wf' ex'] holder_Some [OF wf ex] by (auto simp: gomap_simps)
  then show "holder (db\<lparr>dTunnels := mdel k (dTunnels db)\<rparr>) c = Some j \<longleftrightarrow> release k (holder db) c = Some j"
    by (auto simp: release_def)
qed

lemma DeleteTunnel_db:
  assumes "store_ok st"
  shows "stDb (fst (DeleteTunnel io k st)) = (stDb st)\<lparr>dTunnels := mdel k (tunnels_of st)\<rparr>"
proof (cases "k = []")
  case True
  have "mget (tunnels_of st) [] = None" using assms by (simp add: store_ok_def db_ok_iff)
  then have "mdel [] (tunnels_of st) = tunnels_of st"
    unfolding mget_def mdel_def by (simp add: delete_id map_of_eq_None_iff)
  with True show ?thesis by (simp add: DeleteTunnel_def)
qed (simp add: DeleteTunnel_def frame_simps)

lemma put_refines:
  assumes "store_ok st" "store_ok st'" "stDb st' = (stDb st)\<lparr>dTunnels := mput k t (tunnels_of st)\<rparr>"
  shows "acquire k (claims t) (holder (stDb st)) = Some (holder (stDb st'))"
  using holder_put [of "stDb st" k t] store_ok_excl [OF assms(1)] store_ok_excl [OF assms(2)] assms(3) by simp

text \<open>C4. The tunnel operations implement the registry: a successful create or update acquires exactly the
  tunnel's resources under its id (possible only when they are free or its own), and a delete
  releases what the id held, whether or not the file could be written.\<close>

theorem tunnel_operations_refine_registry:
  assumes ok: "store_ok st"
  shows "(\<forall>st1 t. CreateTunnel e in0 st = (st1, Inr t) \<longrightarrow>
       acquire (tID t) (claims t) (holder (stDb st)) = Some (holder (stDb st1))) \<and>
     (\<forall>st2 t. UpdateTunnel e k in0 st = (st2, Inr t) \<longrightarrow>
       acquire k (claims t) (holder (stDb st)) = Some (holder (stDb st2))) \<and>
     holder (stDb (fst (DeleteTunnel io k st))) = release k (holder (stDb st))"
proof (intro conjI allI impI)
  show "acquire (tID t) (claims t) (holder (stDb st)) = Some (holder (stDb st1))"
    if "CreateTunnel e in0 st = (st1, Inr t)" for st1 t
    using put_refines [OF ok _ CreateTunnel_Inr(1) [OF that]] CreateTunnel_store_ok [OF ok, of e in0] that by simp
  show "acquire k (claims t) (holder (stDb st)) = Some (holder (stDb st2))"
    if "UpdateTunnel e k in0 st = (st2, Inr t)" for st2 t
    using put_refines [OF ok _ UpdateTunnel_Inr(1) [OF that]] UpdateTunnel_store_ok [OF ok, of e k in0] that by simp
  show "holder (stDb (fst (DeleteTunnel io k st))) = release k (holder (stDb st))"
    using holder_del [of "stDb st" k] store_ok_excl [OF ok] by (simp add: DeleteTunnel_db [OF ok])
qed

theorem tunnel_operations_refine_registry_witness:
  "acquire ''alice-nps-tcp-10000'' [PortClaim ''local'' ''tcp'' 10000] (holder (stDb demo_alice)) =
     Some (holder (stDb (fst (CreateTunnel demo_env demo_tunnel demo_alice))))"
proof -
  let ?r = "CreateTunnel demo_env demo_tunnel demo_alice"
  have 1: "?r = (fst ?r, Inr (projr (snd ?r)))" by code_simp
  have 2: "tID (projr (snd ?r)) = ''alice-nps-tcp-10000''" by code_simp
  have 3: "claims (projr (snd ?r)) = [PortClaim ''local'' ''tcp'' 10000]" by code_simp
  show ?thesis
    using tunnel_operations_refine_registry [OF reachable_store_ok [OF demo_alice_reachable]] 1 2 3 by metis
qed

section \<open>Quotas and pools\<close>

lemma length_filter_mput:
  "mwf m \<Longrightarrow> length (filter P (mput k v m)) =
     (if P (k, v) then 1 else 0) + length (filter (\<lambda>(j, w). j \<noteq> k \<and> P (j, w)) m)"
proof (induction m)
  case (Cons p m)
  have "filter (\<lambda>(j, w). j \<noteq> k \<and> P (j, w)) m = filter P m" if "fst p = k"
  proof (rule filter_cong [OF refl])
    fix q assume "q \<in> set m"
    then have "fst q \<in> fst ` set m" by (rule imageI)
    moreover have "k \<notin> fst ` set m" using Cons.prems that by (simp add: mwf_def)
    ultimately have "fst q \<noteq> k" by blast
    then show "(case q of (j, w) \<Rightarrow> j \<noteq> k \<and> P (j, w)) = P q" by (cases q) simp
  qed
  with Cons show ?case by (cases p) (auto simp: mput_def mwf_def)
qed (simp add: mput_def)

lemma db_ok_tunnel_entry:
  assumes "db_ok db" "(j, w) \<in> set (dTunnels db)" shows "tID w = j \<and> j \<noteq> []"
proof -
  have "keyed tID (dTunnels db)" "mget (dTunnels db) [] = None" using assms(1) by (simp_all add: db_ok_iff)
  moreover from this assms(2) have "mget (dTunnels db) j = Some w" by (simp add: mem_mget [symmetric])
  ultimately show ?thesis using keyed_mget [of tID "dTunnels db" j w] by auto
qed

lemma count_put:
  assumes "db_ok db" "tID t = k" "k \<noteq> []"
  shows "countUserTunnelsLocked (db\<lparr>dTunnels := mput k t (dTunnels db)\<rparr>) (tUserName t) [] =
    Suc (countUserTunnelsLocked db (tUserName t) k)"
proof -
  have m: "mwf (dTunnels db)" using assms(1) unfolding db_ok_iff by (blast intro: keyed_wf)
  note key = db_ok_tunnel_entry [OF assms(1)]
  have "filter (\<lambda>(j, w). j \<noteq> k \<and> tID w \<noteq> [] \<and> tUserName w = tUserName t) (dTunnels db) =
      filter (\<lambda>(_, w). tID w \<noteq> k \<and> tUserName w = tUserName t) (dTunnels db)"
  proof (rule filter_cong [OF refl])
    fix q assume "q \<in> set (dTunnels db)"
    with key [of "fst q" "snd q"] have "tID (snd q) = fst q" "fst q \<noteq> []" by simp_all
    then show "(case q of (j, w) \<Rightarrow> j \<noteq> k \<and> tID w \<noteq> [] \<and> tUserName w = tUserName t) =
        (case q of (_, w) \<Rightarrow> tID w \<noteq> k \<and> tUserName w = tUserName t)"
      by (cases q) auto
  qed
  with assms(2,3) show ?thesis
    by (simp add: countUserTunnelsLocked_def length_filter_mput [OF m] split_beta)
qed

lemma count_except_nobody:
  assumes "\<And>j w. (j, w) \<in> set (dTunnels db) \<Longrightarrow> tID w \<noteq> x \<and> tID w \<noteq> y"
  shows "countUserTunnelsLocked db n x = countUserTunnelsLocked db n y"
  using assms unfolding countUserTunnelsLocked_def by (intro arg_cong [where f = length] filter_cong) auto

text \<open>What a stored tunnel was granted: the acceptance condition with the quota counted afterwards.\<close>

definition within_limits :: "Database \<Rightarrow> Tunnel \<Rightarrow> User \<Rightarrow> Node \<Rightarrow> bool" where
  "within_limits db t u n \<longleftrightarrow> uEnabled u \<and> nEnabled n \<and> nNPSEnabled n \<and>
     (uMaxPorts u \<le> 0 \<or> int (countUserTunnelsLocked db (tUserName t) []) \<le> uMaxPorts u) \<and>
     (if isPortMode (tMode t)
      then portInRanges (tRemotePort t) (uPortPools u) \<and>
        (nPortPools n = [] \<or> portInRanges (tRemotePort t) (nPortPools n))
      else list_all (\<lambda>d. domainInPools d (uDomainPools u) \<and>
        (nDomainPools n = [] \<or> domainInPools d (nDomainPools n))) (tDomains t))"

lemma stored_within_limits:
  assumes ok: "store_ok st" and adm: "tunnel_admissible (stDb st) t x" and k: "tID t = k" "k \<noteq> []"
    and x: "x = k \<or> x = [] \<and> mget (tunnels_of st) k = None"
  shows "\<exists>u n. mget (users_of st) (tUserName t) = Some u \<and> mget (nodes_of st) (tNodeID t) = Some n \<and>
    within_limits ((stDb st)\<lparr>dTunnels := mput k t (tunnels_of st)\<rparr>) t u n"
proof -
  have db: "db_ok (stDb st)" using ok by (simp add: store_ok_def)
  have "countUserTunnelsLocked (stDb st) (tUserName t) k = countUserTunnelsLocked (stDb st) (tUserName t) x"
    using x
  proof
    assume x: "x = [] \<and> mget (tunnels_of st) k = None"
    show ?thesis
    proof (rule count_except_nobody)
      fix j w assume jw: "(j, w) \<in> set (tunnels_of st)"
      then have "mget (tunnels_of st) j = Some w" using store_ok_tables [OF ok] by (simp add: mem_mget)
      with x have "j \<noteq> k" by auto
      with x db_ok_tunnel_entry [OF db jw] show "tID w \<noteq> k \<and> tID w \<noteq> x" by simp
    qed
  qed simp
  with adm show ?thesis
    by (auto simp: within_limits_def count_put [OF db k] tunnel_admissible_def port_admissible_def
        domains_admissible_def modes_disjoint list_all_iff split: option.splits)
qed

text \<open>Storing a tunnel never exceeds what its owner and node allow: after a successful create or update
  the owner, enabled, has no more tunnels than his quota (when he has one), the node is enabled
  for NPS, and the port, or every domain, is in the owner's pool and in the node's if it has one.\<close>

theorem tunnels_within_limits:
  assumes "store_ok st" "CreateTunnel e in0 st = (st', Inr t) \<or> UpdateTunnel e k in0 st = (st', Inr t)"
  shows "\<exists>u n. mget (users_of st) (tUserName t) = Some u \<and> mget (nodes_of st) (tNodeID t) = Some n \<and>
    within_limits (stDb st') t u n"
  using assms(2)
proof
  assume c: "CreateTunnel e in0 st = (st', Inr t)"
  have "tID t \<noteq> []"
    using c by (auto simp: CreateTunnel_def Let_def save_return_Inr split: sum.splits option.splits if_splits)
  with CreateTunnel_Inr [OF c] assms(1) show ?thesis
    using stored_within_limits [of st t "[]" "tID t"] by simp
next
  assume u: "UpdateTunnel e k in0 st = (st', Inr t)"
  then have "k \<noteq> []" by (auto simp: UpdateTunnel_def split: sum.splits)
  with UpdateTunnel_Inr [OF u] assms(1) show ?thesis
    using stored_within_limits [of st t k k] by simp
qed

theorem tunnels_within_limits_witness:
  "\<exists>u n. mget (users_of demo_alice) ''alice'' = Some u \<and> mget (nodes_of demo_alice) ''local'' = Some n \<and>
     within_limits (stDb (fst (CreateTunnel demo_env demo_tunnel demo_alice)))
       (projr (snd (CreateTunnel demo_env demo_tunnel demo_alice))) u n"
proof -
  let ?r = "CreateTunnel demo_env demo_tunnel demo_alice"
  have 1: "?r = (fst ?r, Inr (projr (snd ?r)))" by code_simp
  have 2: "tUserName (projr (snd ?r)) = ''alice''" "tNodeID (projr (snd ?r)) = ''local''" by code_simp+
  show ?thesis
    using tunnels_within_limits [OF reachable_store_ok [OF demo_alice_reachable] disjI1 [OF 1]] unfolding 2 .
qed

section \<open>Errors\<close>

lemma save_return_Inl: "save_return io st v = (st', Inl err) \<Longrightarrow> err = SaveError"
  by (auto simp: save_return_def saveLocked_def split: save_outcome.splits)

text \<open>C5. An operation that returns an error other than that of writing the file changes neither the database
  nor the file; only a failed write returns an error after the change was made in memory.\<close>

theorem errors_leave_store_unchanged:
  assumes "err \<noteq> SaveError"
  shows "(SetPassword sha e n p st = (st', Inl err) \<longrightarrow> st' = st) \<and>
    (UpsertUser sha e u st = (st', Inl err) \<longrightarrow> st' = st) \<and>
    (DeleteUser io n st = (st', Inl err) \<longrightarrow> st' = st) \<and>
    (ResetUserFlow e n st = (st', Inl err) \<longrightarrow> st' = st) \<and>
    (UpsertNode e nd st = (st', Inl err) \<longrightarrow> st' = st) \<and>
    (DeleteNode io n st = (st', Inl err) \<longrightarrow> st' = st) \<and>
    (UpdateNodeStatus e n b msg st = (st', Inl err) \<longrightarrow> st' = st) \<and>
    (CreateTunnel e t st = (st', Inl err) \<longrightarrow> st' = st) \<and>
    (UpdateTunnel e k t st = (st', Inl err) \<longrightarrow> st' = st) \<and>
    (DeleteTunnel io k st = (st', Inl err) \<longrightarrow> st' = st)"
  by (intro conjI allI impI)
      (auto simp: SetPassword_def UpsertUser_def DeleteUser_def ResetUserFlow_def UpsertNode_def DeleteNode_def
        UpdateNodeStatus_def CreateTunnel_def UpdateTunnel_def DeleteTunnel_def Let_def assms
        dest: save_return_Inl split: sum.splits option.splits if_splits)

theorem errors_leave_store_unchanged_witness:
  "CreateTunnel demo_env demo_tunnel demo_store = (demo_store, Inl (PortInUse ''tcp'' 10000 ''alice-nps-tcp-10000''))"
proof -
  let ?r = "CreateTunnel demo_env demo_tunnel demo_store"
  have err: "snd ?r = Inl (PortInUse ''tcp'' 10000 ''alice-nps-tcp-10000'')" by code_simp
  then have "?r = (fst ?r, Inl (PortInUse ''tcp'' 10000 ''alice-nps-tcp-10000''))" by (simp add: prod_eq_iff)
  moreover from this have "fst ?r = demo_store"
    using errors_leave_store_unchanged [of "PortInUse ''tcp'' 10000 ''alice-nps-tcp-10000''"] by blast
  ultimately show ?thesis by simp
qed

end
