(* ===== verification/StoreUsers.thy ===== *)
theory StoreUsers
  imports StoreProps
begin

text \<open>
  The theorems about users in the control database: logins across password changes and
  across the migration of plain-text passwords, the life cycle of expiring users, which
  operations protect the last administrator, and the restart of a saved store.
\<close>

section \<open>Passwords\<close>

lemma VerifyLogin_accepts:
  "snd (VerifyLogin sha e n q st) \<noteq> None \<longleftrightarrow>
     (\<exists>u. mget (users_of st) n = Some u \<and> uEnabled u \<and> verifyPassword sha u q)"
  by (auto simp: VerifyLogin_def Let_def split: option.split)

lemma SetPassword_Inr:
  assumes "SetPassword sha e n p st = (st', Inr ())"
    and "mget (users_of st) n = Some u"
  shows "stDb st' = (stDb st)\<lparr>dUsers := mput n (u\<lparr>uPassword := [], uPasswordHash := hashPassword sha (eSalt e) p,
       uUpdatedAt := eNow e\<rparr>) (users_of st)\<rparr>"
  using assms by (auto simp: SetPassword_def save_return_Inr frame_simps split: option.splits if_splits)

text \<open>After a password change the user's login accepts the new password, and any other only on a
  collision of the salted digest; the logins of all other users are what they were.\<close>

theorem SetPassword_VerifyLogin:
  assumes "SetPassword sha e n p st = (st', Inr ())" "eSalt e = randomSecret rnd t"
    and "mget (users_of st) n = Some u" "uEnabled u"
  shows "snd (VerifyLogin sha e1 n p st') \<noteq> None \<and>
    (snd (VerifyLogin sha e1 n q st') \<noteq> None \<longleftrightarrow>
       passwordDigest sha q (eSalt e) hash_iterations = passwordDigest sha p (eSalt e) hash_iterations) \<and>
    (m \<noteq> n \<longrightarrow> snd (VerifyLogin sha e1 m q st') = snd (VerifyLogin sha e1 m q st))"
proof -
  let ?u = "u\<lparr>uPassword := [], uPasswordHash := hashPassword sha (eSalt e) p, uUpdatedAt := eNow e\<rparr>"
  have db: "users_of st' = mput n ?u (users_of st)"
    by (simp add: SetPassword_Inr [OF assms(1,3)])
  have v: "verifyPassword sha ?u x \<longleftrightarrow>
      passwordDigest sha p (eSalt e) hash_iterations = passwordDigest sha x (eSalt e) hash_iterations" for x
    by (rule verify_hash) (simp_all add: assms(2) randomSecret_no_colon)
  have "m \<noteq> n \<longrightarrow> snd (VerifyLogin sha e1 m q st') = snd (VerifyLogin sha e1 m q st)"
    by (simp add: VerifyLogin_def Let_def db gomap_simps split: option.split)
  then show ?thesis
    unfolding VerifyLogin_accepts using assms(4) by (auto simp: db gomap_simps v)
qed

definition demo_alice_salt :: Env where
  "demo_alice_salt = demo_env\<lparr>eSalt := randomSecret (Some ''pepper'') 0\<rparr>"

theorem SetPassword_VerifyLogin_witness:
  "snd (VerifyLogin rev demo_env ''alice'' ''new''
     (fst (SetPassword rev demo_alice_salt ''alice'' ''new'' demo_alice))) \<noteq> None"
proof -
  have 1: "SetPassword rev demo_alice_salt ''alice'' ''new'' demo_alice =
      (fst (SetPassword rev demo_alice_salt ''alice'' ''new'' demo_alice), Inr ())"
    by (simp add: SetPassword_def demo_alice_salt_def demo_env_def save_return_def saveLocked_def
        demo_alice_lookup)
  show ?thesis
    using SetPassword_VerifyLogin [OF 1 _ demo_alice_lookup demo_alice_enabled] by (simp add: demo_alice_salt_def)
qed

section \<open>Migration of plain-text passwords\<close>

definition migrate_user :: "(string \<Rightarrow> string) \<Rightarrow> (string \<Rightarrow> string) \<Rightarrow> string \<Rightarrow> User \<Rightarrow> User" where
  "migrate_user sha salts k u = (if legacy_password u
     then u\<lparr>uPasswordHash := hashPassword sha (salts k) (uPassword u), uPassword := []\<rparr> else u)"

lemma NewStore_users:
  assumes "NewStore sha secrets salts now io1 io2 f = (st, None)" "load f = Inr db"
  shows "users_of st = mmap (migrate_user sha salts) (dUsers db)"
proof -
  let ?m = "migrateDefaultNode secrets now io1 \<lparr>stDb = db, stFile = f\<rparr>"
  have "users_of (fst ?m) = dUsers db" by (simp add: migrateDefaultNode_db)
  moreover have "migrateLegacyPasswords sha salts io2 (fst ?m) = (st, None)"
    using assms by (auto simp: NewStore_def split: prod.splits option.splits)
  ultimately show ?thesis
    by (auto simp: migrateLegacyPasswords_def migrate_user_def [abs_def] Let_def saveLocked_None frame_simps
        split: if_splits)
qed

lemma migrate_user_login:
  assumes "CHR '':'' \<notin> set (salts k)" "verifyPassword sha u q"
  shows "verifyPassword sha (migrate_user sha salts k u) q"
proof (cases "legacy_password u")
  case True
  then have "q = uPassword u" using assms(2) by (simp add: legacy_password_def verifyPassword_def)
  with True show ?thesis
    using verify_hash [of "salts k" "migrate_user sha salts k u" sha q q] assms(1)
    by (simp add: migrate_user_def)
qed (use assms in \<open>simp add: migrate_user_def\<close>)

text \<open>Starting the server on an old file replaces every plain-text password by a hash, and whoever could
  log in before still can, with the same password.\<close>

theorem legacy_passwords_migrated:
  assumes "NewStore sha secrets salts now io1 io2 f = (st, None)" "load f = Inr db"
    and "\<And>k. salts k = randomSecret (rnd k) (t k)"
  shows "list_all (\<lambda>(_, u). \<not> legacy_password u) (users_of st) \<and>
    (snd (VerifyLogin sha e n q \<lparr>stDb = db, stFile = f\<rparr>) \<noteq> None \<longrightarrow> snd (VerifyLogin sha e n q st) \<noteq> None)"
proof
  note us = NewStore_users [OF assms(1,2)]
  have "\<not> legacy_password (migrate_user sha salts k u)" for k u
    by (simp add: migrate_user_def) (simp add: legacy_password_def)
  then show "list_all (\<lambda>(_, u). \<not> legacy_password u) (users_of st)"
    by (auto simp: us list_all_iff mmap_mem)
  have "CHR '':'' \<notin> set (salts k)" for k by (simp add: assms(3) randomSecret_no_colon)
  moreover have "uEnabled (migrate_user sha salts k u) = uEnabled u" for k u by (simp add: migrate_user_def)
  ultimately show "snd (VerifyLogin sha e n q \<lparr>stDb = db, stFile = f\<rparr>) \<noteq> None \<longrightarrow>
      snd (VerifyLogin sha e n q st) \<noteq> None"
    unfolding VerifyLogin_accepts us by (auto simp: gomap_simps intro: migrate_user_login)
qed

lemma NewStore_Saved: "load f = Inr db \<Longrightarrow> snd (NewStore sha secrets salts now Saved Saved f) = None"
  by (simp add: NewStore_def migrateDefaultNode_def migrateLegacyPasswords_def saveLocked_def Let_def)

definition demo_old_db :: Database where
  "demo_old_db = \<lparr>dUsers = [(''bob'', zero_User\<lparr>uName := ''bob'', uPassword := ''secret'', uEnabled := True\<rparr>)],
     dNodes = [], dTunnels = []\<rparr>"

theorem legacy_passwords_migrated_witness:
  "snd (VerifyLogin rev demo_env ''bob'' ''secret'' (fst (NewStore rev (\<lambda>_. ''tok'')
     (\<lambda>_. randomSecret (Some ''pepper'') 0) 5 Saved Saved (Document (Some (dUsers demo_old_db)) None None)))) \<noteq> None"
proof -
  let ?f = "Document (Some (dUsers demo_old_db)) None None"
  let ?r = "NewStore rev (\<lambda>_. ''tok'') (\<lambda>_. randomSecret (Some ''pepper'') 0) 5 Saved Saved ?f"
  have load: "load ?f = Inr demo_old_db" by (simp add: load_def demo_old_db_def)
  have "?r = (fst ?r, None)" using NewStore_Saved [OF load] by (simp add: prod_eq_iff)
  moreover have "snd (VerifyLogin rev demo_env ''bob'' ''secret'' \<lparr>stDb = demo_old_db, stFile = ?f\<rparr>) \<noteq> None"
    unfolding VerifyLogin_accepts by (simp add: demo_old_db_def mget_def verifyPassword_def zero_User_def)
  ultimately show ?thesis
    using legacy_passwords_migrated [OF _ load, of rev "\<lambda>_. ''tok''" "\<lambda>_. randomSecret (Some ''pepper'') 0" 5
      Saved Saved "fst ?r" "\<lambda>_. Some ''pepper''" "\<lambda>_. 0" demo_env "''bob''" "''secret''"] by blast
qed

section \<open>Expiring users\<close>

text \<open>What one pass makes of a user, in terms of the code.\<close>

definition expiry_result :: "time \<Rightarrow> time \<Rightarrow> User \<Rightarrow> User option" where
  "expiry_result now cutoff u =
     (if uRole u = RoleAdmin \<or> IsZero (uExpiresAt u) then Some u
      else let v = fst (expire_user now u) in
        if \<not> IsZero (uExpiredAt v) \<and> \<not> After (uExpiredAt v) cutoff then None else Some v)"

lemma expire_user_unchanged: "\<not> snd (expire_user now u) \<Longrightarrow> fst (expire_user now u) = u"
  by (cases "After (uExpiresAt u) now"; cases "uEnabled u"; cases "IsZero (uExpiredAt u)")
    (simp_all add: expire_user_def)

lemma expiry_step_cases:
  "fst (expiry_step now cutoff k u sc) = (case expiry_result now cutoff u of
      None \<Rightarrow> set_users (mdel k) (set_tunnels (mfilter (\<lambda>_ t. tUserName t \<noteq> k))
        (if snd (expire_user now u) then set_users (mput k (fst (expire_user now u))) (fst sc) else fst sc))
    | Some v \<Rightarrow> if v = u then
        (if uRole u \<noteq> RoleAdmin \<and> \<not> IsZero (uExpiresAt u) \<and> snd (expire_user now u)
         then set_users (mput k u) (fst sc) else fst sc)
      else set_users (mput k v) (fst sc))"
proof -
  obtain st c where sc: "sc = (st, c)" by fastforce
  obtain v ch where v: "expire_user now u = (v, ch)" by fastforce
  show ?thesis
  proof (cases ch)
    case True
    then show ?thesis by (simp add: sc v expiry_step_def expiry_result_def)
  next
    case False
    then have "v = u" using expire_user_unchanged [of now u] v by simp
    with False show ?thesis by (simp add: sc v expiry_step_def expiry_result_def)
  qed
qed

lemma expiry_step_users:
  assumes "mget (users_of (fst sc)) k = Some u" "mwf (tunnels_of (fst sc))"
  shows "mget (users_of (fst (expiry_step now cutoff k u sc))) j =
      (if j = k then expiry_result now cutoff u else mget (users_of (fst sc)) j)"
    "mget (tunnels_of (fst (expiry_step now cutoff k u sc))) i = Some t \<longleftrightarrow>
      mget (tunnels_of (fst sc)) i = Some t \<and> (tUserName t = k \<longrightarrow> expiry_result now cutoff u \<noteq> None)"
    "mwf (tunnels_of (fst (expiry_step now cutoff k u sc)))"
proof -
  show "mget (users_of (fst (expiry_step now cutoff k u sc))) j =
      (if j = k then expiry_result now cutoff u else mget (users_of (fst sc)) j)"
    using assms unfolding expiry_step_cases
    by (cases "expiry_result now cutoff u") (simp_all add: frame_simps gomap_simps)
  show "mget (tunnels_of (fst (expiry_step now cutoff k u sc))) i = Some t \<longleftrightarrow>
      mget (tunnels_of (fst sc)) i = Some t \<and> (tUserName t = k \<longrightarrow> expiry_result now cutoff u \<noteq> None)"
    using assms unfolding expiry_step_cases
    by (cases "expiry_result now cutoff u"; cases "mget (tunnels_of (fst sc)) i")
      (simp_all add: frame_simps gomap_simps, blast)
  show "mwf (tunnels_of (fst (expiry_step now cutoff k u sc)))"
    using assms unfolding expiry_step_cases
    by (cases "expiry_result now cutoff u") (simp_all add: frame_simps)
qed

lemma expiry_loop_users:
  assumes "distinct (map fst us)" "\<And>k u. (k, u) \<in> set us \<Longrightarrow> mget (users_of (fst sc)) k = Some u" "mwf (tunnels_of (fst sc))"
  shows "(\<forall>k. mget (users_of (fst (expiry_loop now cutoff us sc))) k =
      (case mget us k of Some u \<Rightarrow> expiry_result now cutoff u | None \<Rightarrow> mget (users_of (fst sc)) k)) \<and>
    (\<forall>i t. mget (tunnels_of (fst (expiry_loop now cutoff us sc))) i = Some t \<longleftrightarrow>
      mget (tunnels_of (fst sc)) i = Some t \<and>
      (case mget us (tUserName t) of Some u \<Rightarrow> expiry_result now cutoff u \<noteq> None | None \<Rightarrow> True))"
  using assms
proof (induction us arbitrary: sc)
  case (Cons p us)
  obtain k u where p: "p = (k, u)" by fastforce
  let ?sc = "expiry_step now cutoff k u sc"
  have cur: "mget (users_of (fst sc)) k = Some u" using Cons.prems(2) p by simp
  note step = expiry_step_users [OF cur Cons.prems(3), of now cutoff]
  have fresh: "mget us k = None" using Cons.prems(1) p by (simp add: mget_None_iff)
  have "mget (users_of (fst ?sc)) j = Some v" if "(j, v) \<in> set us" for j v
    using Cons.prems(1,2) that p step(1) [of j] by (force simp: rev_image_eqI)
  then have IH: "\<And>j. mget (users_of (fst (expiry_loop now cutoff us ?sc))) j =
      (case mget us j of Some u \<Rightarrow> expiry_result now cutoff u | None \<Rightarrow> mget (users_of (fst ?sc)) j)"
    "\<And>i t. mget (tunnels_of (fst (expiry_loop now cutoff us ?sc))) i = Some t \<longleftrightarrow>
      mget (tunnels_of (fst ?sc)) i = Some t \<and>
      (case mget us (tUserName t) of Some u \<Rightarrow> expiry_result now cutoff u \<noteq> None | None \<Rightarrow> True)"
    using Cons.IH [of ?sc] Cons.prems(1) p step(3) by simp_all
  have look: "mget ((k, u) # us) j = (if j = k then Some u else mget us j)" for j by (simp add: mget_def)
  show ?case unfolding p expiry_loop.simps IH look step using fresh by (auto split: option.splits)
qed simp

lemma EnforceUserExpiry_db:
  "stDb (fst (EnforceUserExpiry now r io st)) = stDb (fst (expiry_loop now (now - r) (users_of st) (st, False)))"
  by (simp add: EnforceUserExpiry_def split_beta Let_def frame_simps)

text \<open>
  The rule in terms of the dates alone. A user is overdue when he is no administrator, has an expiry date and
  the date has come. The time of expiry is the one on record, or now for an overdue user who is still enabled or has none.
\<close>

definition overdue :: "time \<Rightarrow> User \<Rightarrow> bool" where
  "overdue now u \<longleftrightarrow> uRole u \<noteq> ''admin'' \<and> uExpiresAt u \<noteq> 0 \<and> uExpiresAt u \<le> now"

definition expires_now :: "time \<Rightarrow> User \<Rightarrow> bool" where
  "expires_now now u \<longleftrightarrow> overdue now u \<and> (uEnabled u \<or> uExpiredAt u = 0)"

definition expired_since :: "time \<Rightarrow> User \<Rightarrow> time" where
  "expired_since now u = (if expires_now now u then now else uExpiredAt u)"

definition expired_long_ago :: "time \<Rightarrow> int \<Rightarrow> User \<Rightarrow> bool" where
  "expired_long_ago now r u \<longleftrightarrow> uRole u \<noteq> ''admin'' \<and> uExpiresAt u \<noteq> 0 \<and> expired_since now u \<noteq> 0 \<and> r \<le> now - expired_since now u"

lemma expiry_result_dates:
  "expiry_result now (now - r) u = (if expired_long_ago now r u then None
     else Some (u\<lparr>uEnabled := uEnabled u \<and> \<not> overdue now u, uExpiredAt := expired_since now u,
       uUpdatedAt := if expires_now now u then now else uUpdatedAt u\<rparr>))"
  by (cases "After (uExpiresAt u) now"; cases "uEnabled u"; cases "uExpiredAt u = 0")
    (auto simp: expiry_result_def expire_user_def Let_def expired_long_ago_def expired_since_def expires_now_def
      overdue_def After_def IsZero_def RoleAdmin_def)

text \<open>C6. One pass of the expiry loop treats every user on its own, in whatever order the map is visited. Administrators
  and users without an expiry date stay as they are. Of the others exactly those whose time of expiry is at least the retention
  time ago are removed; an overdue user who is kept is disabled and has a time of expiry, which is now when the pass
  disabled him; a user who is not overdue keeps his record. Exactly the tunnels of removed users go, and
  nobody who is overdue is enabled afterwards.\<close>

theorem EnforceUserExpiry_effect:
  assumes "store_ok st" "st' = fst (EnforceUserExpiry now r io st)"
  shows "mget (users_of st') k = (case mget (users_of st) k of
       None \<Rightarrow> None
     | Some u \<Rightarrow> if expired_long_ago now r u then None
         else Some (u\<lparr>uEnabled := uEnabled u \<and> \<not> overdue now u, uExpiredAt := expired_since now u,
           uUpdatedAt := if expires_now now u then now else uUpdatedAt u\<rparr>)) \<and>
    (mget (tunnels_of st') i = Some t \<longleftrightarrow>
       mget (tunnels_of st) i = Some t \<and> mget (users_of st') (tUserName t) \<noteq> None) \<and>
    (\<forall>v. mget (users_of st') k = Some v \<and> overdue now v \<longrightarrow> \<not> uEnabled v)"
proof -
  have wf: "mwf (users_of st)" "mwf (tunnels_of st)" using store_ok_tables [OF assms(1)] by simp_all
  note loop = expiry_loop_users [of "users_of st" "(st, False)" now "now - r", simplified, OF _ _ wf(2)]
  have all: "mget (users_of st') j = (case mget (users_of st) j of
       None \<Rightarrow> None | Some u \<Rightarrow> expiry_result now (now - r) u)" for j
    using loop wf unfolding assms(2) EnforceUserExpiry_db by (simp add: mwf_def mem_mget split: option.split)
  have own: "mget (users_of st) (tUserName t) \<noteq> None" if "mget (tunnels_of st) i = Some t"
    using assms(1) mget_Some_mem [OF that] by (auto simp: store_ok_def db_ok_iff tunnel_ok_def)
  have "mget (tunnels_of st') i = Some t \<longleftrightarrow> mget (tunnels_of st) i = Some t \<and>
      (case mget (users_of st) (tUserName t) of Some u \<Rightarrow> expiry_result now (now - r) u \<noteq> None | None \<Rightarrow> True)"
    using loop wf unfolding assms(2) EnforceUserExpiry_db by (simp add: mwf_def mem_mget)
  with all own have "mget (tunnels_of st') i = Some t \<longleftrightarrow>
      mget (tunnels_of st) i = Some t \<and> mget (users_of st') (tUserName t) \<noteq> None" by (auto split: option.splits)
  moreover have "\<not> uEnabled v" if "mget (users_of st') k = Some v" "overdue now v" for v
    using that all [of k] by (auto simp: expiry_result_dates overdue_def split: option.splits if_splits)
  ultimately show ?thesis using all [of k] unfolding expiry_result_dates by blast
qed

definition demo_expired :: Store where
  "demo_expired = fst (UpsertUser rev (demo_env\<lparr>eNow := 200\<rparr>) (demo_user\<lparr>uPassword := [], uExpiresAt := 150\<rparr>) demo_store)"

lemma demo_expired_reachable: "store_reachable rev demo_expired"
  unfolding demo_expired_def
  by (rule store_reachable.step [OF demo_reachable store_step.upsert_user]) (simp add: demo_env_def write_ok_def)

definition demo_late :: Store where
  "demo_late = fst (UpsertUser rev demo_env (demo_user\<lparr>uPassword := [], uExpiresAt := 150\<rparr>) demo_store)"

lemma demo_late_reachable: "store_reachable rev demo_late"
  unfolding demo_late_def
  by (rule store_reachable.step [OF demo_reachable store_step.upsert_user]) simp

theorem EnforceUserExpiry_effect_witness:
  "map_option uEnabled (mget (users_of demo_late) ''alice'') = Some True \<and>
   map_option (\<lambda>u. (uEnabled u, uExpiredAt u)) (mget (users_of (fst (EnforceUserExpiry 160 50 Saved demo_late))) ''alice'') = Some (False, 160) \<and>
   mget (users_of (fst (EnforceUserExpiry 500 50 Saved demo_expired))) ''alice'' = None"
proof -
  have l: "map_option (\<lambda>u. (uRole u, uExpiresAt u, uEnabled u)) (mget (users_of demo_late) ''alice'') = Some (''user'', 150, True)"
    and e: "map_option (\<lambda>u. (uRole u, uExpiresAt u, uEnabled u, uExpiredAt u)) (mget (users_of demo_expired) ''alice'') = Some (''user'', 150, False, 200)"
    by code_simp+
  note dates = overdue_def expires_now_def expired_since_def expired_long_ago_def
  from l EnforceUserExpiry_effect [OF reachable_store_ok [OF demo_late_reachable] refl, where now = 160 and r = 50 and io = Saved and k = "''alice''"]
  have "map_option (\<lambda>u. (uEnabled u, uExpiredAt u)) (mget (users_of (fst (EnforceUserExpiry 160 50 Saved demo_late))) ''alice'') = Some (False, 160)"
    by (auto simp: dates)
  moreover from e EnforceUserExpiry_effect [OF reachable_store_ok [OF demo_expired_reachable] refl, where now = 500 and r = 50 and io = Saved and k = "''alice''"]
  have "mget (users_of (fst (EnforceUserExpiry 500 50 Saved demo_expired))) ''alice'' = None" by (auto simp: dates)
  ultimately show ?thesis using l by auto
qed

lemma demo_expired_removed:
  "users_of (fst (EnforceUserExpiry 500 50 Saved demo_expired)) = []"
  "tunnels_of (fst (EnforceUserExpiry 500 50 Saved demo_expired)) = []"
  by code_simp+

definition expiry_settled :: "time \<Rightarrow> time \<Rightarrow> User \<Rightarrow> bool" where
  "expiry_settled now cutoff u \<longleftrightarrow> uRole u = RoleAdmin \<or> IsZero (uExpiresAt u) \<or>
     (After (uExpiresAt u) now \<or> \<not> uEnabled u \<and> \<not> IsZero (uExpiredAt u)) \<and>
     (IsZero (uExpiredAt u) \<or> After (uExpiredAt u) cutoff)"

lemma expiry_result_settled:
  assumes "now \<noteq> 0" "expiry_result now cutoff u = Some v"
  shows "expiry_settled now cutoff v"
  using assms by (cases "After (uExpiresAt u) now"; cases "uEnabled u"; cases "IsZero (uExpiredAt u)")
    (auto simp: expiry_result_def expire_user_def expiry_settled_def IsZero_def Let_def split: if_splits)

lemma expiry_settled_step: "expiry_settled now cutoff u \<Longrightarrow> expiry_step now cutoff k u sc = sc"
  by (cases sc; cases "After (uExpiresAt u) now"; cases "uEnabled u"; cases "IsZero (uExpiredAt u)")
    (auto simp: expiry_step_def expiry_settled_def expire_user_def)

lemma expiry_settled_loop:
  "(\<And>k u. (k, u) \<in> set us \<Longrightarrow> expiry_settled now cutoff u) \<Longrightarrow> expiry_loop now cutoff us sc = sc"
proof (induction us arbitrary: sc)
  case (Cons p us)
  obtain k u where p: "p = (k, u)" by fastforce
  have "expiry_settled now cutoff u" using Cons.prems [of k u] p by simp
  moreover have "expiry_loop now cutoff us sc = sc"
  proof (rule Cons.IH)
    show "expiry_settled now cutoff v" if "(j, v) \<in> set us" for j v
      using Cons.prems [of j v] that by simp
  qed
  ultimately show ?case by (simp add: p expiry_settled_step)
qed simp

lemma EnforceUserExpiry_settles:
  assumes "store_ok st" "now \<noteq> 0" "(k, u) \<in> set (users_of (fst (EnforceUserExpiry now r io st)))"
  shows "expiry_settled now (now - r) u"
proof -
  let ?st = "fst (EnforceUserExpiry now r io st)"
  have "mwf (users_of ?st)" using store_ok_tables EnforceUserExpiry_store_ok [OF assms(1)] by blast
  with assms(3) have u: "mget (users_of ?st) k = Some u" by (simp add: mem_mget)
  have wf: "mwf (users_of st)" "mwf (tunnels_of st)" using store_ok_tables [OF assms(1)] by simp_all
  have "mget (users_of ?st) k = (case mget (users_of st) k of
       None \<Rightarrow> None | Some u \<Rightarrow> expiry_result now (now - r) u)"
    using expiry_loop_users [of "users_of st" "(st, False)" now "now - r"] wf
    unfolding EnforceUserExpiry_db by (simp add: mwf_def mem_mget split: option.split)
  with u show ?thesis by (auto split: option.splits intro: expiry_result_settled [OF assms(2)])
qed

text \<open>After the pass every user who is past his date is disabled and stamped (administrators
  excepted), and a second pass at the same time finds nothing to do and writes nothing.\<close>

theorem EnforceUserExpiry_idempotent:
  assumes "store_ok st" "now \<noteq> 0" "st' = fst (EnforceUserExpiry now r io st)"
  shows "list_all (\<lambda>(_, u). expiry_settled now (now - r) u) (users_of st') \<and>
    EnforceUserExpiry now r io2 st' = (st', False, None)"
proof -
  have all: "\<And>k u. (k, u) \<in> set (users_of st') \<Longrightarrow> expiry_settled now (now - r) u"
    using EnforceUserExpiry_settles [OF assms(1,2)] unfolding assms(3) .
  then have "expiry_loop now (now - r) (users_of st') (st', False) = (st', False)"
    by (rule expiry_settled_loop)
  then have "EnforceUserExpiry now r io2 st' = (st', False, None)" by (simp add: EnforceUserExpiry_def)
  with all show ?thesis by (auto simp: list_all_iff)
qed

theorem EnforceUserExpiry_idempotent_witness:
  "snd (EnforceUserExpiry 160 50 Saved (fst (EnforceUserExpiry 160 50 Saved demo_expired))) = (False, None)"
  using EnforceUserExpiry_idempotent [OF reachable_store_ok [OF demo_expired_reachable] _ refl, of 160 50 Saved Saved]
  by simp

section \<open>Administrators\<close>

definition has_admin :: "Store \<Rightarrow> bool" where
  "has_admin st \<longleftrightarrow> list_ex (\<lambda>(_, u). enabled_admin u) (users_of st)"

lemma has_admin_iff: "mwf (users_of st) \<Longrightarrow> has_admin st \<longleftrightarrow> (\<exists>k u. mget (users_of st) k = Some u \<and> enabled_admin u)"
  by (auto simp: has_admin_def list_ex_iff mem_mget [symmetric])

lemma has_admin_save [simp]:
  "has_admin (fst (saveLocked io st)) = has_admin st" "has_admin (fst (save_return io st v)) = has_admin st"
  by (simp_all add: has_admin_def frame_simps)

lemma has_admin_others [simp]:
  "has_admin (set_nodes f st) = has_admin st" "has_admin (set_tunnels g st) = has_admin st"
  by (simp_all add: has_admin_def frame_simps)

lemma has_admin_put:
  assumes "mwf (users_of st)" "has_admin st" "\<And>u. mget (users_of st) k = Some u \<Longrightarrow> enabled_admin u \<Longrightarrow> enabled_admin v"
  shows "has_admin (set_users (mput k v) st)"
proof -
  obtain j u where u: "mget (users_of st) j = Some u" "enabled_admin u"
    using assms(2) unfolding has_admin_iff [OF assms(1)] by blast
  have "mwf (users_of (set_users (mput k v) st))" using assms(1) by (simp add: frame_simps gomap_simps)
  moreover have "mget (users_of (set_users (mput k v) st)) j = (if j = k then Some v else Some u)"
    using u by (simp add: frame_simps gomap_simps)
  ultimately show ?thesis using assms(3) u unfolding has_admin_iff by (metis (full_types) has_admin_iff)
qed

lemma two_admins:
  assumes "mwf m" "1 < length (filter (\<lambda>(_, u). P u) m)"
  shows "\<exists>j u. j \<noteq> k \<and> mget m j = Some u \<and> P u"
proof (rule ccontr)
  assume no: "\<not> ?thesis"
  have "fst q = k" if "q \<in> set (filter (\<lambda>(_, u). P u) m)" for q
    using no that assms(1) by (cases q) (auto simp: mem_mget)
  moreover have "distinct (map fst (filter (\<lambda>(_, u). P u) m))"
    using assms(1) by (simp add: mwf_def distinct_map_filter)
  ultimately have "length (map fst (filter (\<lambda>(_, u). P u) m)) \<le> 1"
    by (intro distinct_all_same) auto
  with assms(2) show False by simp
qed

lemma DeleteUser_has_admin:
  assumes "mwf (users_of st)" "has_admin st"
  shows "has_admin (fst (DeleteUser io k st))"
proof (cases "mget (users_of st) k")
  case (Some u)
  let ?st = "set_users (mdel k) (set_tunnels (mfilter (\<lambda>_ t. tUserName t \<noteq> k)) st)"
  have wf: "mwf (users_of ?st)" using assms(1) by (simp add: frame_simps gomap_simps)
  have look: "mget (users_of ?st) j = (if j = k then None else mget (users_of st) j)" for j
    by (simp add: frame_simps gomap_simps)
  have "has_admin ?st"
    if "\<not> (uRole u = RoleAdmin \<and> length (filter (\<lambda>(_, v). enabled_admin v) (users_of st)) \<le> 1)"
  proof -
    have "\<exists>j v. j \<noteq> k \<and> mget (users_of st) j = Some v \<and> enabled_admin v"
    proof (cases "uRole u = RoleAdmin")
      case True
      with that show ?thesis by (intro two_admins [OF assms(1)]) simp
    next
      case False
      then have "\<not> enabled_admin u" by (simp add: enabled_admin_def)
      moreover obtain j v where v: "mget (users_of st) j = Some v" "enabled_admin v"
        using assms(2) unfolding has_admin_iff [OF assms(1)] by blast
      ultimately have "j \<noteq> k" using Some by auto
      with v show ?thesis by blast
    qed
    then show ?thesis unfolding has_admin_iff [OF wf] look by auto
  qed
  with assms(2) Some show ?thesis by (simp add: DeleteUser_def)
qed (use assms in \<open>simp add: DeleteUser_def\<close>)

lemma EnforceUserExpiry_has_admin:
  assumes "store_ok st" "has_admin st"
  shows "has_admin (fst (EnforceUserExpiry now r io st))"
proof -
  have wf: "mwf (users_of st)" "mwf (tunnels_of st)" using store_ok_tables [OF assms(1)] by simp_all
  obtain k u where u: "mget (users_of st) k = Some u" "enabled_admin u"
    using assms(2) unfolding has_admin_iff [OF wf(1)] by blast
  have "mget (users_of (fst (EnforceUserExpiry now r io st))) k = expiry_result now (now - r) u"
    using expiry_loop_users [of "users_of st" "(st, False)" now "now - r"] wf u(1)
    unfolding EnforceUserExpiry_db by (simp add: mwf_def mem_mget)
  then have "mget (users_of (fst (EnforceUserExpiry now r io st))) k = Some u"
    using u(2) by (simp add: expiry_result_def enabled_admin_def)
  moreover have "mwf (users_of (fst (EnforceUserExpiry now r io st)))"
    using store_ok_tables EnforceUserExpiry_store_ok [OF assms(1)] by blast
  ultimately show ?thesis using u(2) by (auto simp: has_admin_iff)
qed

text \<open>C7. Once there is an enabled administrator, no operation other than editing a user record can take the
  last one away: not the deletion of users, not the expiry pass, not logins or password changes,
  not any operation on nodes and tunnels.\<close>

theorem last_admin_protected:
  assumes "store_ok st" "has_admin st"
  shows "has_admin (fst (DeleteUser io n st)) \<and> has_admin (fst (EnforceUserExpiry now r io st)) \<and>
    has_admin (fst (SetPassword sha e n p st)) \<and> has_admin (fst (VerifyLogin sha e n p st)) \<and>
    has_admin (fst (ResetUserFlow e n st)) \<and> has_admin (fst (EnsureAdmin sha e n p st)) \<and>
    has_admin (fst (UpsertNode e nd st)) \<and> has_admin (fst (DeleteNode io k st)) \<and>
    has_admin (fst (UpdateNodeStatus e k b msg st)) \<and> has_admin (fst (CreateTunnel e t st)) \<and>
    has_admin (fst (UpdateTunnel e k t st)) \<and> has_admin (fst (DeleteTunnel io k st))"
proof -
  have wf: "mwf (users_of st)" using store_ok_tables [OF assms(1)] by simp
  have put: "has_admin (set_users (mput k v) st)"
    if "mget (users_of st) k = Some u" "uRole v = uRole u" "uEnabled v = uEnabled u" for k u v
    using that by (intro has_admin_put [OF wf assms(2)]) (auto simp: enabled_admin_def)
  have "has_admin (fst (SetPassword sha e n p st))"
    using assms(2) by (auto simp: SetPassword_def intro: put split: option.split)
  moreover have "has_admin (fst (VerifyLogin sha e n p st))"
    using assms(2) by (auto simp: VerifyLogin_def Let_def intro: put split: option.split)
  moreover have "has_admin (fst (ResetUserFlow e n st))"
    using assms(2) by (auto simp: ResetUserFlow_def intro: put split: option.split)
  moreover have "has_admin (fst (EnsureAdmin sha e n p st))"
    using assms(2) by (simp add: EnsureAdmin_def has_admin_def)
  moreover have "has_admin (fst (UpsertNode e nd st))" "has_admin (fst (DeleteNode io k st))"
      "has_admin (fst (UpdateNodeStatus e k b msg st))" "has_admin (fst (CreateTunnel e t st))"
      "has_admin (fst (UpdateTunnel e k t st))" "has_admin (fst (DeleteTunnel io k st))"
    using assms(2) by (simp_all add: UpsertNode_def DeleteNode_def UpdateNodeStatus_def CreateTunnel_def
        UpdateTunnel_def DeleteTunnel_def Let_def split: sum.split option.split)
  ultimately show ?thesis
    using DeleteUser_has_admin [OF wf assms(2)] EnforceUserExpiry_has_admin [OF assms] by blast
qed

definition demo_admin :: User where
  "demo_admin = zero_User\<lparr>uName := ''root'', uRole := ''admin'', uEnabled := True\<rparr>"

definition demo_admins :: Store where
  "demo_admins = fst (UpsertUser rev demo_env demo_admin demo_boot)"

lemma demo_admins_reachable: "store_reachable rev demo_admins"
  unfolding demo_admins_def
  by (rule store_reachable.step [OF demo_boot_reachable store_step.upsert_user]) simp

lemma demo_has_admin: "has_admin demo_admins"
  by code_simp

theorem last_admin_protected_witness:
  "has_admin (fst (DeleteUser Saved ''root'' demo_admins))"
  using last_admin_protected [OF reachable_store_ok [OF demo_admins_reachable] demo_has_admin] by blast

text \<open>The edit of a user record is not protected: disabling the only administrator through it is accepted
  and leaves none, and from then on the deletion check also refuses to delete the disabled one.\<close>

theorem UpsertUser_can_disable_last_admin:
  "has_admin demo_admins \<and>
   \<not> has_admin (fst (UpsertUser rev demo_env (demo_admin\<lparr>uEnabled := False\<rparr>) demo_admins)) \<and>
   is_ok (snd (UpsertUser rev demo_env (demo_admin\<lparr>uEnabled := False\<rparr>) demo_admins)) \<and>
   snd (DeleteUser Saved ''root'' (fst (UpsertUser rev demo_env (demo_admin\<lparr>uEnabled := False\<rparr>) demo_admins)))
     = Inl LastEnabledAdmin"
  by code_simp

section \<open>Restart\<close>

text \<open>
  A database in which the migrations find nothing to do: every tunnel names its node,
  every node has a token, no password is stored in plain text.
\<close>

definition migrated :: "Database \<Rightarrow> bool" where
  "migrated db \<longleftrightarrow> mget (dNodes db) DefaultNodeID \<noteq> None \<and>
     list_all (\<lambda>(_, t). tNodeID t \<noteq> []) (dTunnels db) \<and>
     list_all (\<lambda>(_, n). nToken n \<noteq> []) (dNodes db) \<and>
     list_all (\<lambda>(_, u). \<not> legacy_password u) (dUsers db)"

lemma mmap_id: "(\<And>k v. (k, v) \<in> set m \<Longrightarrow> f k v = v) \<Longrightarrow> mmap f m = m"
  unfolding mmap_def by (rule map_idI) auto

lemma migrateDefaultNode_migrated:
  assumes "migrated (stDb st)" shows "migrateDefaultNode secrets now io st = (st, None)"
proof -
  have 1: "mmap (\<lambda>_ t. if tNodeID t = [] then t\<lparr>tNodeID := DefaultNodeID, tUpdatedAt := now\<rparr> else t) (tunnels_of st)
      = tunnels_of st"
    using assms by (intro mmap_id) (auto simp: migrated_def list_all_iff)
  have 2: "mmap (\<lambda>k n. if nToken n = [] then n\<lparr>nToken := secrets k, nUpdatedAt := now\<rparr> else n) (nodes_of st)
      = nodes_of st"
    using assms by (intro mmap_id) (auto simp: migrated_def list_all_iff)
  have 3: "\<not> list_ex (\<lambda>(_, t). tNodeID t = []) (tunnels_of st)" "\<not> list_ex (\<lambda>(_, n). nToken n = []) (nodes_of st)"
    using assms by (auto simp: migrated_def list_all_iff list_ex_iff)
  obtain n where "mget (nodes_of st) DefaultNodeID = Some n" using assms by (auto simp: migrated_def)
  with 3 show ?thesis by (simp add: migrateDefaultNode_def set_tunnels_def set_nodes_def Let_def 1 2)
qed

lemma migrateLegacyPasswords_migrated:
  assumes "migrated (stDb st)" shows "migrateLegacyPasswords sha salts io st = (st, None)"
proof -
  have "mmap (\<lambda>k u. if legacy_password u
      then u\<lparr>uPasswordHash := hashPassword sha (salts k) (uPassword u), uPassword := []\<rparr> else u) (users_of st) = users_of st"
    using assms by (intro mmap_id) (auto simp: migrated_def list_all_iff)
  moreover have "\<not> list_ex (\<lambda>(_, u). legacy_password u) (users_of st)"
    using assms by (auto simp: migrated_def list_all_iff list_ex_iff)
  ultimately show ?thesis by (simp add: migrateLegacyPasswords_def set_users_def Let_def)
qed

text \<open>A store that starts on such a database changes nothing and writes nothing.\<close>

lemma NewStore_migrated:
  assumes "load f = Inr db" "migrated db"
  shows "NewStore sha secrets salts now io1 io2 f = (\<lparr>stDb = db, stFile = f\<rparr>, None)"
  using assms by (simp add: NewStore_def migrateDefaultNode_migrated migrateLegacyPasswords_migrated)

end
