(* ===== verification/StoreJson.thy ===== *)
theory StoreJson
  imports StoreUsers
begin

text \<open>
  The database file of \<^verbatim>\<open>internal/core/store.go\<close>: what \<^verbatim>\<open>json.MarshalIndent\<close> makes
  of the database in \<^verbatim>\<open>saveLocked\<close> and what \<^verbatim>\<open>json.Unmarshal\<close> makes of the file in
  \<^verbatim>\<open>load\<close>, by the struct tags of \<^verbatim>\<open>types.go\<close> and \<^verbatim>\<open>adapters.go\<close>. A document is a tree;
  its printing and parsing, and the text of a time, are those of the Go library. A
  string that is not UTF-8 is written with the replacement character in place of each bad byte.
\<close>

section \<open>Documents\<close>

datatype json =
    JNull
  | JBool bool
  | JNum int
  | JText string
  | JTime time
  | JArray "json list"
  | JObject "(string \<times> json) list"

text \<open>The length of the UTF-8 sequence at the front of a text, 0 when it is none.\<close>

definition cont_byte :: "char \<Rightarrow> bool" where
  "cont_byte c \<longleftrightarrow> 0x80 \<le> byte c \<and> byte c \<le> 0xBF"

definition second_ok :: "nat \<Rightarrow> nat \<Rightarrow> bool" where
  "second_ok b d \<longleftrightarrow> (if b = 0xE0 then 0xA0 else if b = 0xF0 then 0x90 else 0x80) \<le> d \<and>
     d \<le> (if b = 0xED then 0x9F else if b = 0xF4 then 0x8F else 0xBF)"

definition rune_len :: "string \<Rightarrow> nat" where
  "rune_len s = (case s of
       [] \<Rightarrow> 0
     | c # cs \<Rightarrow>
         let b = byte c;
             n = (if b < 0x80 then 1 else if 0xC2 \<le> b \<and> b \<le> 0xDF then 2 else if 0xE0 \<le> b \<and> b \<le> 0xEF then 3
                  else if 0xF0 \<le> b \<and> b \<le> 0xF4 then 4 else 0)
         in if n \<le> 1 then n
            else if length cs < n - 1 \<or> \<not> second_ok b (byte (hd cs)) \<or> \<not> list_all cont_byte (take (n - 2) (tl cs)) then 0
            else n)"

fun to_valid :: "string \<Rightarrow> string" where
  "to_valid [] = []"
| "to_valid (c # cs) =
     (let n = rune_len (c # cs) in
      if n = 0 then [CHR 0xEF, CHR 0xBF, CHR 0xBD] @ to_valid cs
      else take n (c # cs) @ to_valid (drop (n - 1) cs))"

definition utf8 :: "string \<Rightarrow> bool" where
  "utf8 s \<longleftrightarrow> to_valid s = s"

section \<open>Structs and their tags\<close>

text \<open>
  A field of a struct: its name in the document, when it is left out, how it is written, and how a value is
  read into it. Two fields of the same name hide each other. A member of a document goes to the field of that
  name, or else to the first that differs in case only; other members are ignored, and a later member
  overrides an earlier one. \<open>None\<close> is an error of the decoder.
\<close>

record 'r json_field =
  fName :: string
  fOmit :: "'r \<Rightarrow> bool"
  fEnc :: "'r \<Rightarrow> json"
  fDec :: "json \<Rightarrow> 'r \<Rightarrow> 'r option"

definition visible :: "'r json_field list \<Rightarrow> 'r json_field list" where
  "visible fs = filter (\<lambda>f. length (filter (\<lambda>g. fName g = fName f) fs) = 1) fs"

definition marshal :: "'r json_field list \<Rightarrow> 'r \<Rightarrow> json" where
  "marshal fs r = JObject (map (\<lambda>f. (fName f, fEnc f r)) (filter (\<lambda>f. \<not> fOmit f r) (visible fs)))"

definition find_field :: "'r json_field list \<Rightarrow> string \<Rightarrow> 'r json_field option" where
  "find_field fs k = (case List.find (\<lambda>f. fName f = k) fs of
       Some f \<Rightarrow> Some f
     | None \<Rightarrow> List.find (\<lambda>f. to_lower (fName f) = to_lower k) fs)"

fun set_members :: "'r json_field list \<Rightarrow> (string \<times> json) list \<Rightarrow> 'r \<Rightarrow> 'r option" where
  "set_members fs [] r = Some r"
| "set_members fs ((k, v) # ms) r = (case find_field fs k of
       None \<Rightarrow> set_members fs ms r
     | Some f \<Rightarrow> (case fDec f v r of None \<Rightarrow> None | Some r' \<Rightarrow> set_members fs ms r'))"

definition unmarshal :: "'r json_field list \<Rightarrow> json \<Rightarrow> 'r \<Rightarrow> 'r option" where
  "unmarshal fs v r = (case v of
       JNull \<Rightarrow> Some r
     | JObject ms \<Rightarrow> set_members (visible fs) ms r
     | _ \<Rightarrow> None)"

section \<open>Values\<close>

definition dec_text :: "json \<Rightarrow> string \<Rightarrow> string option" where
  "dec_text v old = (case v of JText s \<Rightarrow> Some s | JNull \<Rightarrow> Some old | _ \<Rightarrow> None)"

definition dec_bool :: "json \<Rightarrow> bool \<Rightarrow> bool option" where
  "dec_bool v old = (case v of JBool b \<Rightarrow> Some b | JNull \<Rightarrow> Some old | _ \<Rightarrow> None)"

definition dec_num :: "json \<Rightarrow> int \<Rightarrow> int option" where
  "dec_num v old = (case v of JNum n \<Rightarrow> if int64 n then Some n else None | JNull \<Rightarrow> Some old | _ \<Rightarrow> None)"

definition dec_time :: "json \<Rightarrow> time \<Rightarrow> time option" where
  "dec_time v old = (case v of JTime t \<Rightarrow> Some t | JNull \<Rightarrow> Some old | _ \<Rightarrow> None)"

definition enc_list :: "('a \<Rightarrow> json) \<Rightarrow> 'a list \<Rightarrow> json" where
  "enc_list enc xs = JArray (map enc xs)"

definition dec_list :: "(json \<Rightarrow> 'a \<Rightarrow> 'a option) \<Rightarrow> 'a \<Rightarrow> json \<Rightarrow> 'a list \<Rightarrow> 'a list option" where
  "dec_list dec zero v old = (case v of
       JNull \<Rightarrow> Some []
     | JArray vs \<Rightarrow> those (map (\<lambda>x. dec x zero) vs)
     | _ \<Rightarrow> None)"

text \<open>
  A map to pointers to structs: \<open>None\<close> is the nil map. A null in it would be a nil pointer,
  which the migrations dereference; a document with one is taken as one that cannot be read.
\<close>

definition enc_map :: "'v json_field list \<Rightarrow> (string, 'v) gomap option \<Rightarrow> json" where
  "enc_map fs m = (case m of None \<Rightarrow> JNull
     | Some m \<Rightarrow> JObject (map (\<lambda>(k, v). (to_valid k, marshal fs v)) (sort_key fst m)))"

fun put_members :: "'v json_field list \<Rightarrow> 'v \<Rightarrow> (string \<times> json) list \<Rightarrow> (string, 'v) gomap \<Rightarrow> (string, 'v) gomap option" where
  "put_members fs zero [] m = Some m"
| "put_members fs zero ((k, v) # ms) m =
     (if v = JNull then None
      else (case unmarshal fs v zero of None \<Rightarrow> None | Some r \<Rightarrow> put_members fs zero ms (mput k r m)))"

definition dec_map :: "'v json_field list \<Rightarrow> 'v \<Rightarrow> json \<Rightarrow> (string, 'v) gomap option \<Rightarrow> (string, 'v) gomap option option" where
  "dec_map fs zero v old = (case v of
       JNull \<Rightarrow> Some None
     | JObject ms \<Rightarrow> map_option Some (put_members fs zero ms (case old of None \<Rightarrow> [] | Some m \<Rightarrow> m))
     | _ \<Rightarrow> None)"

text \<open>
  The tags: \<open>keep_always\<close> has no option, \<open>omit_empty\<close>, \<open>omit_zero\<close> and \<open>omit_nil\<close> are \<^verbatim>\<open>omitempty\<close> on lists and texts, numbers and maps.
  On a struct, a time among them, \<^verbatim>\<open>omitempty\<close> does nothing; \<^verbatim>\<open>omitzero\<close> asks \<^verbatim>\<open>IsZero\<close>.
\<close>

definition keep_always :: "'a \<Rightarrow> bool" where
  "keep_always x = False"

definition omit_empty :: "'a list \<Rightarrow> bool" where
  "omit_empty x \<longleftrightarrow> x = []"

definition omit_zero :: "int \<Rightarrow> bool" where
  "omit_zero n \<longleftrightarrow> n = 0"

definition omit_nil :: "('k, 'v) gomap option \<Rightarrow> bool" where
  "omit_nil m \<longleftrightarrow> m = None \<or> m = Some []"

definition fld :: "string \<Rightarrow> ('a \<Rightarrow> bool) \<Rightarrow> ('a \<Rightarrow> json) \<Rightarrow> (json \<Rightarrow> 'a \<Rightarrow> 'a option) \<Rightarrow>
    ('r \<Rightarrow> 'a) \<Rightarrow> (('a \<Rightarrow> 'a) \<Rightarrow> 'r \<Rightarrow> 'r) \<Rightarrow> 'r json_field" where
  "fld tag omit enc dec get upd =
     \<lparr>fName = tag, fOmit = (\<lambda>r. omit (get r)), fEnc = (\<lambda>r. enc (get r)),
      fDec = (\<lambda>v r. map_option (\<lambda>x. upd (\<lambda>_. x) r) (dec v (get r)))\<rparr>"

definition enc_text :: "string \<Rightarrow> json" where
  "enc_text s = JText (to_valid s)"

abbreviation "text_fld tag omit \<equiv> fld tag omit enc_text dec_text"
abbreviation "bool_fld tag \<equiv> fld tag keep_always JBool dec_bool"
abbreviation "num_fld tag omit \<equiv> fld tag omit JNum dec_num"
abbreviation "time_fld tag omit \<equiv> fld tag omit JTime dec_time"
abbreviation "texts_fld tag \<equiv> fld tag omit_empty (enc_list enc_text) (dec_list dec_text [])"

section \<open>The structs of the database\<close>

definition range_fields :: "PortRange json_field list" where
  "range_fields = [num_fld ''start'' keep_always rStart rStart_update, num_fld ''end'' keep_always rEnd rEnd_update]"

definition zero_Range :: PortRange where
  "zero_Range = \<lparr>rStart = 0, rEnd = 0\<rparr>"

abbreviation "ranges_fld tag \<equiv>
  fld tag omit_empty (enc_list (marshal range_fields)) (dec_list (unmarshal range_fields) zero_Range)"

definition user_fields :: "User json_field list" where
  "user_fields =
     [text_fld ''name'' keep_always uName uName_update,
      text_fld ''password'' omit_empty uPassword uPassword_update,
      text_fld ''passwordHash'' omit_empty uPasswordHash uPasswordHash_update,
      text_fld ''role'' keep_always uRole uRole_update,
      bool_fld ''enabled'' uEnabled uEnabled_update,
      ranges_fld ''portPools'' uPortPools uPortPools_update,
      texts_fld ''domainPools'' uDomainPools uDomainPools_update,
      num_fld ''maxPorts'' omit_zero uMaxPorts uMaxPorts_update,
      text_fld ''frpToken'' omit_empty uFRPToken uFRPToken_update,
      text_fld ''npsVerifyKey'' omit_empty uNPSVerifyKey uNPSVerifyKey_update,
      num_fld ''rateLimit'' omit_zero uRateLimit uRateLimit_update,
      num_fld ''flowLimit'' omit_zero uFlowLimit uFlowLimit_update,
      num_fld ''flowUsed'' omit_zero uFlowUsed uFlowUsed_update,
      time_fld ''expiresAt'' keep_always uExpiresAt uExpiresAt_update,
      time_fld ''expiredAt'' keep_always uExpiredAt uExpiredAt_update,
      time_fld ''createdAt'' keep_always uCreatedAt uCreatedAt_update,
      time_fld ''updatedAt'' keep_always uUpdatedAt uUpdatedAt_update]"

definition status_fields :: "NodeStatus json_field list" where
  "status_fields =
     [bool_fld ''online'' sOnline sOnline_update,
      time_fld ''lastSeenAt'' IsZero sLastSeenAt sLastSeenAt_update,
      time_fld ''lastSyncAt'' IsZero sLastSyncAt sLastSyncAt_update,
      text_fld ''lastError'' omit_empty sLastError sLastError_update]"

definition runtime_fields :: "RuntimeConfig json_field list" where
  "runtime_fields =
     [text_fld ''serverAddr'' keep_always cServerAddr cServerAddr_update,
      num_fld ''frpServerPort'' keep_always cFRPServerPort cFRPServerPort_update,
      num_fld ''frpHttpPort'' keep_always cFRPHTTPPort cFRPHTTPPort_update,
      num_fld ''frpHttpsPort'' keep_always cFRPHTTPSPort cFRPHTTPSPort_update,
      num_fld ''npsServerPort'' keep_always cNPSServerPort cNPSServerPort_update,
      num_fld ''npsHttpProxyPort'' keep_always cNPSHTTPProxyPort cNPSHTTPProxyPort_update,
      num_fld ''npsHttpsProxyPort'' keep_always cNPSHTTPSPort cNPSHTTPSPort_update]"

definition node_fields :: "Node json_field list" where
  "node_fields =
     [text_fld ''id'' keep_always nID nID_update,
      text_fld ''name'' keep_always nName nName_update,
      text_fld ''token'' omit_empty nToken nToken_update,
      text_fld ''publicAddr'' omit_empty nPublicAddr nPublicAddr_update,
      bool_fld ''enabled'' nEnabled nEnabled_update,
      bool_fld ''frpEnabled'' nFRPEnabled nFRPEnabled_update,
      bool_fld ''npsEnabled'' nNPSEnabled nNPSEnabled_update,
      ranges_fld ''portPools'' nPortPools nPortPools_update,
      texts_fld ''domainPools'' nDomainPools nDomainPools_update,
      fld ''runtime'' keep_always (marshal runtime_fields) (unmarshal runtime_fields) nRuntime nRuntime_update,
      fld ''status'' status_IsZero (marshal status_fields) (unmarshal status_fields) nStatus nStatus_update,
      time_fld ''createdAt'' keep_always nCreatedAt nCreatedAt_update,
      time_fld ''updatedAt'' keep_always nUpdatedAt nUpdatedAt_update]"

definition tunnel_fields :: "Tunnel json_field list" where
  "tunnel_fields =
     [text_fld ''id'' keep_always tID tID_update,
      text_fld ''userName'' keep_always tUserName tUserName_update,
      text_fld ''nodeId'' omit_empty tNodeID tNodeID_update,
      text_fld ''engine'' keep_always tEngine tEngine_update,
      text_fld ''mode'' keep_always tMode tMode_update,
      num_fld ''remotePort'' omit_zero tRemotePort tRemotePort_update,
      text_fld ''localIp'' omit_empty tLocalIP tLocalIP_update,
      num_fld ''localPort'' omit_zero tLocalPort tLocalPort_update,
      texts_fld ''domains'' tDomains tDomains_update,
      text_fld ''remark'' omit_empty tRemark tRemark_update,
      bool_fld ''enabled'' tEnabled tEnabled_update,
      time_fld ''createdAt'' keep_always tCreatedAt tCreatedAt_update,
      time_fld ''updatedAt'' keep_always tUpdatedAt tUpdatedAt_update]"

text \<open>The database as the decoder fills it: a map that a document sets to null is nil until \<^verbatim>\<open>load\<close> ends.\<close>

record Tables =
  xUsers :: "(string, User) gomap option"
  xNodes :: "(string, Node) gomap option"
  xTunnels :: "(string, Tunnel) gomap option"

definition database_fields :: "Tables json_field list" where
  "database_fields =
     [fld ''users'' keep_always (enc_map user_fields) (dec_map user_fields zero_User) xUsers xUsers_update,
      fld ''nodes'' omit_nil (enc_map node_fields) (dec_map node_fields zero_Node) xNodes xNodes_update,
      fld ''tunnels'' keep_always (enc_map tunnel_fields) (dec_map tunnel_fields zero_Tunnel) xTunnels xTunnels_update]"

text \<open>What \<^verbatim>\<open>saveLocked\<close> writes, and what \<^verbatim>\<open>load\<close> takes a document for.\<close>

definition write_tree :: "Database \<Rightarrow> json" where
  "write_tree db = marshal database_fields \<lparr>xUsers = Some (dUsers db), xNodes = Some (dNodes db), xTunnels = Some (dTunnels db)\<rparr>"

definition read_tree :: "json \<Rightarrow> db_file" where
  "read_tree v = (case unmarshal database_fields v \<lparr>xUsers = Some [], xNodes = Some [], xTunnels = Some []\<rparr> of
       None \<Rightarrow> Malformed
     | Some t \<Rightarrow> Document (xUsers t) (xNodes t) (xTunnels t))"

end
