(* ===== verification/StoreJsonProps.thy ===== *)
theory StoreJsonProps
  imports StoreJson
begin

text \<open>
  The file gives back what was written: first for any struct with distinct tags, then for the
  records of the database and its maps, then for a store that is started on the file of a
  running one. The migrations of the start find nothing to do there, because every operation of
  a running store keeps the database migrated.
\<close>

section \<open>Structs\<close>

text \<open>What becomes of one field from one record to another, and of a list of them.\<close>

definition carry :: "'r json_field \<Rightarrow> 'r \<Rightarrow> 'r \<Rightarrow> 'r option" where
  "carry f r acc = (if fOmit f r then Some acc else fDec f (fEnc f r) acc)"

fun carry_all :: "'r json_field list \<Rightarrow> 'r \<Rightarrow> 'r \<Rightarrow> 'r option" where
  "carry_all [] r acc = Some acc"
| "carry_all (f # fs) r acc = (case carry f r acc of None \<Rightarrow> None | Some a \<Rightarrow> carry_all fs r a)"

lemma filter_name: "distinct (map fName fs) \<Longrightarrow> f \<in> set fs \<Longrightarrow> filter (\<lambda>g. fName g = fName f) fs = [f]"
proof (induction fs)
  case (Cons g fs)
  have "filter (\<lambda>h. fName h = fName g) fs = []" using Cons.prems(1) by (auto simp: filter_empty_conv image_iff)
  moreover have "fName g \<noteq> fName f" if "f \<in> set fs" using Cons.prems(1) that by (auto simp: image_iff)
  ultimately show ?case using Cons by auto
qed simp

lemma visible_distinct: "distinct (map fName fs) \<Longrightarrow> visible fs = fs"
  by (simp add: visible_def filter_name)

lemma find_name: "distinct (map fName fs) \<Longrightarrow> f \<in> set fs \<Longrightarrow> List.find (\<lambda>g. fName g = fName f) fs = Some f"
  by (induction fs) force+

lemma set_members_marshal:
  assumes "distinct (map fName fs)" "set gs \<subseteq> set fs"
  shows "set_members fs (map (\<lambda>f. (fName f, fEnc f r)) (filter (\<lambda>f. \<not> fOmit f r) gs)) acc = carry_all gs r acc"
  using assms(2)
proof (induction gs arbitrary: acc)
  case (Cons g gs)
  then have "find_field fs (fName g) = Some g" by (simp add: find_field_def find_name [OF assms(1)])
  with Cons show ?case by (simp add: carry_def split: option.split)
qed simp

lemma unmarshal_marshal:
  "distinct (map fName fs) \<Longrightarrow> unmarshal fs (marshal fs r) acc = carry_all fs r acc"
  by (simp add: unmarshal_def marshal_def visible_distinct set_members_marshal)

lemma carry_fld:
  assumes "omit (get r) \<longrightarrow> upd (\<lambda>_. get r) acc = acc" "\<not> omit (get r) \<longrightarrow> dec (enc (get r)) (get acc) = Some (get r)"
  shows "carry (fld tag omit enc dec get upd) r acc = Some (upd (\<lambda>_. get r) acc)"
  using assms by (auto simp: carry_def fld_def)

lemma fName_fld [simp]: "fName (fld tag omit enc dec get upd) = tag"
  by (simp add: fld_def)

named_theorems codec_simps

lemma dec_enc_text [codec_simps]: "utf8 s \<Longrightarrow> dec_text (enc_text s) old = Some s"
  by (simp add: dec_text_def enc_text_def utf8_def)

lemma dec_enc_atoms [codec_simps]:
  "dec_bool (JBool b) b0 = Some b" "int64 n \<Longrightarrow> dec_num (JNum n) n0 = Some n" "dec_time (JTime t) t0 = Some t"
  by (simp_all add: dec_bool_def dec_num_def dec_time_def)

lemma dec_enc_list [codec_simps]:
  "list_all (\<lambda>x. dec (enc x) zero = Some x) xs \<Longrightarrow> dec_list dec zero (enc_list enc xs) old = Some xs"
  by (induction xs) (auto simp: dec_list_def enc_list_def)

lemmas omit_defs [codec_simps] = keep_always_def omit_empty_def omit_zero_def IsZero_def

section \<open>Records a file can hold\<close>

text \<open>Texts in UTF-8, and numbers of 64 bits as the program has them.\<close>

definition range_fits :: "PortRange \<Rightarrow> bool" where
  "range_fits r \<longleftrightarrow> int64 (rStart r) \<and> int64 (rEnd r)"

definition user_fits :: "User \<Rightarrow> bool" where
  "user_fits u \<longleftrightarrow> list_all utf8 [uName u, uPassword u, uPasswordHash u, uRole u, uFRPToken u, uNPSVerifyKey u] \<and>
     list_all utf8 (uDomainPools u) \<and> list_all range_fits (uPortPools u) \<and>
     list_all int64 [uMaxPorts u, uRateLimit u, uFlowLimit u, uFlowUsed u]"

definition runtime_fits :: "RuntimeConfig \<Rightarrow> bool" where
  "runtime_fits c \<longleftrightarrow> utf8 (cServerAddr c) \<and> list_all int64 [cFRPServerPort c, cFRPHTTPPort c, cFRPHTTPSPort c,
     cNPSServerPort c, cNPSHTTPProxyPort c, cNPSHTTPSPort c]"

definition node_fits :: "Node \<Rightarrow> bool" where
  "node_fits n \<longleftrightarrow> list_all utf8 [nID n, nName n, nToken n, nPublicAddr n] \<and> list_all utf8 (nDomainPools n) \<and>
     list_all range_fits (nPortPools n) \<and> runtime_fits (nRuntime n) \<and> utf8 (sLastError (nStatus n))"

definition tunnel_fits :: "Tunnel \<Rightarrow> bool" where
  "tunnel_fits t \<longleftrightarrow> list_all utf8 [tID t, tUserName t, tNodeID t, tEngine t, tMode t, tLocalIP t, tRemark t] \<and>
     list_all utf8 (tDomains t) \<and> list_all int64 [tRemotePort t, tLocalPort t]"

definition table_fits :: "('v \<Rightarrow> bool) \<Rightarrow> (string, 'v) gomap \<Rightarrow> bool" where
  "table_fits p m \<longleftrightarrow> list_all (\<lambda>(k, v). utf8 k \<and> p v) m"

definition db_fits :: "Database \<Rightarrow> bool" where
  "db_fits db \<longleftrightarrow> table_fits user_fits (dUsers db) \<and> table_fits node_fits (dNodes db) \<and> table_fits tunnel_fits (dTunnels db)"

lemma tags_distinct:
  "distinct (map fName range_fields)" "distinct (map fName user_fields)" "distinct (map fName status_fields)"
  "distinct (map fName runtime_fields)" "distinct (map fName node_fields)" "distinct (map fName tunnel_fields)"
  "distinct (map fName database_fields)"
  by (simp_all add: range_fields_def user_fields_def status_fields_def runtime_fields_def node_fields_def
      tunnel_fields_def database_fields_def)

lemma range_roundtrip [codec_simps]:
  "range_fits r \<Longrightarrow> unmarshal range_fields (marshal range_fields r) zero_Range = Some r"
  unfolding unmarshal_marshal [OF tags_distinct(1)] unfolding range_fields_def zero_Range_def
  by (cases r) (simp add: carry_fld codec_simps range_fits_def)

lemma user_roundtrip [codec_simps]:
  assumes "user_fits u" shows "unmarshal user_fields (marshal user_fields u) zero_User = Some u"
  unfolding unmarshal_marshal [OF tags_distinct(2)] unfolding user_fields_def zero_User_def
  using assms by (cases u) (simp add: carry_fld codec_simps user_fits_def list_all_iff)

lemma status_roundtrip [codec_simps]:
  "utf8 (sLastError s) \<Longrightarrow> unmarshal status_fields (marshal status_fields s) zero_Status = Some s"
  unfolding unmarshal_marshal [OF tags_distinct(3)] unfolding status_fields_def zero_Status_def
  by (cases s) (simp add: carry_fld codec_simps)

lemma runtime_roundtrip [codec_simps]:
  "runtime_fits c \<Longrightarrow> unmarshal runtime_fields (marshal runtime_fields c) zero_Runtime = Some c"
  unfolding unmarshal_marshal [OF tags_distinct(4)] unfolding runtime_fields_def zero_Runtime_def
  by (cases c) (simp add: carry_fld codec_simps runtime_fits_def)

lemma status_zero: "status_IsZero s \<longleftrightarrow> s = zero_Status"
  by (cases s) (auto simp: status_IsZero_def zero_Status_def IsZero_def)

lemma node_roundtrip [codec_simps]:
  assumes "node_fits n" shows "unmarshal node_fields (marshal node_fields n) zero_Node = Some n"
  unfolding unmarshal_marshal [OF tags_distinct(5)] unfolding node_fields_def zero_Node_def
  using assms by (cases n) (simp add: carry_fld codec_simps node_fits_def status_zero list_all_iff)

lemma tunnel_roundtrip [codec_simps]:
  assumes "tunnel_fits t" shows "unmarshal tunnel_fields (marshal tunnel_fields t) zero_Tunnel = Some t"
  unfolding unmarshal_marshal [OF tags_distinct(6)] unfolding tunnel_fields_def zero_Tunnel_def
  using assms by (cases t) (simp add: carry_fld codec_simps tunnel_fits_def list_all_iff)

section \<open>Maps\<close>

text \<open>The same rows, whatever their order.\<close>

definition same_table :: "('k, 'v) gomap \<Rightarrow> ('k, 'v) gomap \<Rightarrow> bool" where
  "same_table m m' \<longleftrightarrow> mwf m' \<and> set m' = set m"

definition same_rows :: "Database \<Rightarrow> Database \<Rightarrow> bool" where
  "same_rows db db' \<longleftrightarrow> same_table (dUsers db) (dUsers db') \<and> same_table (dNodes db) (dNodes db') \<and>
     same_table (dTunnels db) (dTunnels db')"

lemma same_table_mget:
  assumes "mwf m" "same_table m m'" shows "mget m' k = mget m k"
proof -
  have "mget m' k = Some v \<longleftrightarrow> mget m k = Some v" for v
    using mem_mget [OF assms(1), of k v] mem_mget [of m' k v] assms(2) by (simp add: same_table_def)
  then show ?thesis by (metis not_None_eq)
qed

lemma put_new: "k \<notin> fst ` set m \<Longrightarrow> mput k v m = m @ [(k, v)]"
  by (induction m) (auto simp: mput_def)

lemma put_members_marshal:
  assumes "\<And>k v. (k, v) \<in> set ms \<Longrightarrow> utf8 k \<and> unmarshal fs (marshal fs v) zero = Some v"
    and "distinct (map fst (m @ ms))"
  shows "put_members fs zero (map (\<lambda>(k, v). (to_valid k, marshal fs v)) ms) m = Some (m @ ms)"
  using assms
proof (induction ms arbitrary: m)
  case (Cons x ms)
  obtain k v where x: "x = (k, v)" by fastforce
  have k: "to_valid k = k" "unmarshal fs (marshal fs v) zero = Some v"
    using Cons.prems(1) [of k v] by (simp_all add: x utf8_def)
  have nn: "marshal fs v \<noteq> JNull" by (simp add: marshal_def)
  have "mput k v m = m @ [(k, v)]" using Cons.prems(2) by (intro put_new) (auto simp: x)
  moreover have "put_members fs zero (map (\<lambda>(k, v). (to_valid k, marshal fs v)) ms) (m @ [(k, v)]) = Some ((m @ [(k, v)]) @ ms)"
    by (rule Cons.IH) (use Cons.prems in \<open>auto simp: x\<close>)
  ultimately show ?case using k nn by (simp add: x)
qed simp

lemma map_roundtrip:
  assumes "mwf m" "\<And>k v. (k, v) \<in> set m \<Longrightarrow> utf8 k \<and> unmarshal fs (marshal fs v) zero = Some v"
  shows "dec_map fs zero (enc_map fs (Some m)) (Some []) = Some (Some (sort_key fst m))"
proof -
  have "distinct (map fst (sort_key fst m))"
    using assms(1) by (simp add: mwf_def distinct_map)
  then have "put_members fs zero (map (\<lambda>(k, v). (to_valid k, marshal fs v)) (sort_key fst m)) [] = Some ([] @ sort_key fst m)"
    by (intro put_members_marshal) (use assms(2) in auto)
  then show ?thesis by (simp add: dec_map_def enc_map_def)
qed

lemma sorted_same_table: "mwf m \<Longrightarrow> same_table m (sort_key fst m)"
  by (simp add: same_table_def mwf_def distinct_map)

definition tables_wf :: "Database \<Rightarrow> bool" where
  "tables_wf db \<longleftrightarrow> mwf (dUsers db) \<and> mwf (dNodes db) \<and> mwf (dTunnels db)"

text \<open>What is read of a written database; an empty map of nodes is left out.\<close>

lemma read_write_tree:
  assumes "tables_wf db" "db_fits db"
  shows "read_tree (write_tree db) = Document (Some (sort_key fst (dUsers db))) (Some (sort_key fst (dNodes db)))
    (Some (sort_key fst (dTunnels db)))"
proof -
  have u: "dec_map user_fields zero_User (enc_map user_fields (Some (dUsers db))) (Some []) = Some (Some (sort_key fst (dUsers db)))"
    and n: "dec_map node_fields zero_Node (enc_map node_fields (Some (dNodes db))) (Some []) = Some (Some (sort_key fst (dNodes db)))"
    and t: "dec_map tunnel_fields zero_Tunnel (enc_map tunnel_fields (Some (dTunnels db))) (Some []) = Some (Some (sort_key fst (dTunnels db)))"
    using assms by (auto intro!: map_roundtrip simp: tables_wf_def db_fits_def table_fits_def list_all_iff
        user_roundtrip node_roundtrip tunnel_roundtrip)
  have "unmarshal database_fields (write_tree db) \<lparr>xUsers = Some [], xNodes = Some [], xTunnels = Some []\<rparr> =
      Some \<lparr>xUsers = Some (sort_key fst (dUsers db)), xNodes = Some (sort_key fst (dNodes db)), xTunnels = Some (sort_key fst (dTunnels db))\<rparr>"
    unfolding write_tree_def unmarshal_marshal [OF tags_distinct(7)] unfolding database_fields_def
    by (auto simp: carry_def fld_def keep_always_def omit_nil_def u n t)
  then show ?thesis by (simp add: read_tree_def)
qed

section \<open>Running stores\<close>

text \<open>
  A store that was started without an error, on no file, an empty one or any document, and whose
  operations have drawn secrets that are not empty, as those of \<^verbatim>\<open>randomSecret\<close> are
  (\<open>randomSecret_not_Nil\<close>). Any write may have failed.
\<close>

inductive running :: "(string \<Rightarrow> string) \<Rightarrow> Store \<Rightarrow> bool" for sha where
  start: "f = Absent \<or> f = EmptyFile \<or> (\<exists>v. f = read_tree v) \<Longrightarrow> (\<And>k. secrets k \<noteq> []) \<Longrightarrow>
    NewStore sha secrets salts now io1 io2 f = (st, None) \<Longrightarrow> running sha st"
| ensure_admin: "running sha st \<Longrightarrow> running sha (fst (EnsureAdmin sha e name pw st))"
| verify_login: "running sha st \<Longrightarrow> running sha (fst (VerifyLogin sha e name pw st))"
| set_password: "running sha st \<Longrightarrow> running sha (fst (SetPassword sha e name pw st))"
| upsert_user: "running sha st \<Longrightarrow> running sha (fst (UpsertUser sha e u st))"
| enforce_expiry: "running sha st \<Longrightarrow> running sha (fst (EnforceUserExpiry now r io st))"
| delete_user: "running sha st \<Longrightarrow> running sha (fst (DeleteUser io name st))"
| reset_flow: "running sha st \<Longrightarrow> running sha (fst (ResetUserFlow e name st))"
| upsert_node: "running sha st \<Longrightarrow> eSecret1 e \<noteq> [] \<Longrightarrow> running sha (fst (UpsertNode e n st))"
| delete_node: "running sha st \<Longrightarrow> running sha (fst (DeleteNode io name st))"
| node_status: "running sha st \<Longrightarrow> running sha (fst (UpdateNodeStatus e name online msg st))"
| create_tunnel: "running sha st \<Longrightarrow> running sha (fst (CreateTunnel e t st))"
| update_tunnel: "running sha st \<Longrightarrow> running sha (fst (UpdateTunnel e name t st))"
| delete_tunnel: "running sha st \<Longrightarrow> running sha (fst (DeleteTunnel io name st))"

definition settled :: "Store \<Rightarrow> bool" where
  "settled st \<longleftrightarrow> tables_wf (stDb st) \<and> migrated (stDb st)"

lemma settled_cong: "stDb st' = stDb st \<Longrightarrow> settled st' = settled st"
  by (simp add: settled_def)

lemma settled_save [simp]:
  "settled (fst (saveLocked io st)) = settled st" "settled (fst (save_return io st v)) = settled st"
  by (simp_all add: settled_def frame_simps)

lemma settled_put_user: "settled st \<Longrightarrow> \<not> legacy_password u \<Longrightarrow> settled (set_users (mput n u) st)"
  by (auto simp: settled_def migrated_def tables_wf_def frame_simps gomap_simps list_all_iff split: if_splits)

lemma settled_del_user: "settled st \<Longrightarrow> settled (set_users (mdel n) st)"
  by (auto simp: settled_def migrated_def tables_wf_def frame_simps gomap_simps list_all_iff)

lemma settled_filter_tunnels: "settled st \<Longrightarrow> settled (set_tunnels (mfilter p) st)"
  by (auto simp: settled_def migrated_def tables_wf_def frame_simps gomap_simps list_all_iff)

lemma settled_put_node: "settled st \<Longrightarrow> nToken n \<noteq> [] \<Longrightarrow> settled (set_nodes (mput k n) st)"
  by (auto simp: settled_def migrated_def tables_wf_def frame_simps gomap_simps list_all_iff split: if_splits)

lemma settled_del_node: "settled st \<Longrightarrow> k \<noteq> DefaultNodeID \<Longrightarrow> settled (set_nodes (mdel k) st)"
  by (auto simp: settled_def migrated_def tables_wf_def frame_simps gomap_simps list_all_iff)

lemma settled_put_tunnel: "settled st \<Longrightarrow> tNodeID t \<noteq> [] \<Longrightarrow> settled (set_tunnels (mput k t) st)"
  by (auto simp: settled_def migrated_def tables_wf_def frame_simps gomap_simps list_all_iff split: if_splits)

lemma settled_del_tunnel: "settled st \<Longrightarrow> settled (set_tunnels (mdel k) st)"
  by (auto simp: settled_def migrated_def tables_wf_def frame_simps gomap_simps list_all_iff)

lemma settled_rows:
  assumes "settled st"
  shows "mget (users_of st) n = Some u \<Longrightarrow> \<not> legacy_password u" "mget (nodes_of st) k = Some nd \<Longrightarrow> nToken nd \<noteq> []"
  using assms by (auto simp: settled_def migrated_def list_all_iff dest!: mget_Some_mem)

lemma expiry_step_settled: "settled (fst sc) \<Longrightarrow> \<not> legacy_password u \<Longrightarrow> settled (fst (expiry_step now cutoff n u sc))"
proof -
  assume a: "settled (fst sc)" "\<not> legacy_password u"
  then have "\<not> legacy_password (fst (expire_user now u))" by (simp add: expire_user_def legacy_password_def)
  with a show ?thesis
    by (auto simp: expiry_step_def Let_def intro!: settled_del_user settled_filter_tunnels settled_put_user split: prod.split)
qed

lemma expiry_loop_settled:
  "settled (fst sc) \<Longrightarrow> list_all (\<lambda>(_, u). \<not> legacy_password u) us \<Longrightarrow> settled (fst (expiry_loop now cutoff us sc))"
  by (induction now cutoff us sc rule: expiry_loop.induct) (simp_all add: expiry_step_settled)

lemma upsert_record_password:
  "uPassword (upsert_user_record sha e inp old) =
     (if uPassword inp \<noteq> [] then [] else case old of None \<Rightarrow> [] | Some u \<Rightarrow> uPassword u)"
  "uPasswordHash (upsert_user_record sha e inp old) =
     (if uPassword inp \<noteq> [] then hashPassword sha (eSalt e) (uPassword inp) else case old of None \<Rightarrow> [] | Some u \<Rightarrow> uPasswordHash u)"
  by (simp_all add: upsert_user_record_def Let_def if_distrib [of uPassword] if_distrib [of uPasswordHash] zero_User_def
      cong: if_cong split: option.split split del: if_split)

lemma upsert_record_not_legacy:
  "(\<And>u. old = Some u \<Longrightarrow> \<not> legacy_password u) \<Longrightarrow> \<not> legacy_password (upsert_user_record sha e inp old)"
  by (cases old) (simp_all add: upsert_record_password legacy_password_def)

lemma op_settled:
  assumes s: "settled st"
  shows "settled (fst (EnsureAdmin sha e name pw st))" "settled (fst (VerifyLogin sha e name pw st))"
    "settled (fst (SetPassword sha e name pw st))" "settled (fst (UpsertUser sha e u st))"
    "settled (fst (EnforceUserExpiry now r io st))" "settled (fst (DeleteUser io name st))"
    "settled (fst (ResetUserFlow e name st))" "eSecret1 e \<noteq> [] \<Longrightarrow> settled (fst (UpsertNode e n st))"
    "settled (fst (DeleteNode io name st))" "settled (fst (UpdateNodeStatus e name online msg st))"
    "settled (fst (CreateTunnel e t st))" "settled (fst (UpdateTunnel e name t st))" "settled (fst (DeleteTunnel io name st))"
proof -
  note rows = settled_rows [OF s]
  show "settled (fst (EnsureAdmin sha e name pw st))"
    using s by (auto simp: EnsureAdmin_def Let_def legacy_password_def case_prod_unfold intro!: settled_put_user)
  show "settled (fst (VerifyLogin sha e name pw st))" "settled (fst (SetPassword sha e name pw st))"
    using s by (auto simp: VerifyLogin_def SetPassword_def Let_def legacy_password_def intro!: settled_put_user split: option.split)
  show "settled (fst (ResetUserFlow e name st))"
    using s by (auto simp: ResetUserFlow_def legacy_password_def dest: rows(1) [unfolded legacy_password_def]
        intro!: settled_put_user split: option.split)
  show "settled (fst (UpsertUser sha e u st))"
    using s rows(1) by (auto simp: UpsertUser_def Let_def intro!: settled_put_user upsert_record_not_legacy split: sum.split)
  show "settled (fst (EnforceUserExpiry now r io st))"
  proof -
    have "list_all (\<lambda>(_, u). \<not> legacy_password u) (users_of st)" using s by (simp add: settled_def migrated_def)
    then have "settled (fst (expiry_loop now (now - r) (users_of st) (st, False)))" using s by (intro expiry_loop_settled) simp_all
    then show ?thesis using s by (simp add: EnforceUserExpiry_def Let_def case_prod_unfold)
  qed
  show "settled (fst (DeleteUser io name st))"
    using s by (auto simp: DeleteUser_def intro!: settled_del_user settled_filter_tunnels split: option.split)
  show "settled (fst (UpsertNode e n st))" if "eSecret1 e \<noteq> []"
    using s rows(2) that by (auto simp: UpsertNode_def Let_def intro!: settled_put_node split: sum.split option.split)
  show "settled (fst (DeleteNode io name st))"
    using s by (auto simp: DeleteNode_def Let_def intro!: settled_del_node split: option.split)
  show "settled (fst (UpdateNodeStatus e name online msg st))"
    using s rows(2) by (auto simp: UpdateNodeStatus_def Let_def intro!: settled_put_node split: option.split)
  have node: "tNodeID t1 \<noteq> []" if "normalize_tunnel t0 = Inr t1" for t0 t1
    using that by (auto simp: normalize_tunnel_def Let_def split: sum.splits if_splits)
  show "settled (fst (CreateTunnel e t st))" "settled (fst (UpdateTunnel e name t st))" "settled (fst (DeleteTunnel io name st))"
    using s by (auto simp: CreateTunnel_def UpdateTunnel_def DeleteTunnel_def Let_def node
        intro!: settled_put_tunnel settled_del_tunnel split: sum.split option.split)
qed

text \<open>A document fills the maps with each name once.\<close>

lemma put_members_wf: "put_members fs zero ms m = Some m' \<Longrightarrow> mwf m \<Longrightarrow> mwf m'"
  by (induction fs zero ms m rule: put_members.induct) (auto simp: gomap_simps split: if_splits option.splits)

definition maps_wf :: "Tables \<Rightarrow> bool" where
  "maps_wf t \<longleftrightarrow> pred_option mwf (xUsers t) \<and> pred_option mwf (xNodes t) \<and> pred_option mwf (xTunnels t)"

lemma dec_map_wf: "dec_map fs zero v old = Some m \<Longrightarrow> pred_option mwf old \<Longrightarrow> pred_option mwf m"
  by (auto simp: dec_map_def dest!: put_members_wf split: json.splits option.splits)

lemma read_fields_wf: "f \<in> set database_fields \<Longrightarrow> fDec f v t = Some t' \<Longrightarrow> maps_wf t \<Longrightarrow> maps_wf t'"
  by (auto simp: database_fields_def fld_def maps_wf_def) (erule (1) dec_map_wf)+

lemma find_field_in: "find_field fs k = Some f \<Longrightarrow> f \<in> set fs"
  by (auto simp: find_field_def find_Some_iff split: option.splits)

lemma set_members_wf: "set_members (visible database_fields) ms t = Some t' \<Longrightarrow> maps_wf t \<Longrightarrow> maps_wf t'"
proof (induction ms arbitrary: t)
  case (Cons x ms)
  obtain k v where x: "x = (k, v)" by fastforce
  show ?case
  proof (cases "find_field (visible database_fields) k")
    case None
    with Cons x show ?thesis by simp
  next
    case (Some f)
    then have "f \<in> set database_fields" using find_field_in [OF Some] by (simp add: visible_def)
    with Cons x Some show ?thesis by (auto split: option.splits dest: read_fields_wf)
  qed
qed simp

lemma load_wf:
  assumes "f = Absent \<or> f = EmptyFile \<or> (\<exists>v. f = read_tree v)" "load f = Inr db" shows "tables_wf db"
proof -
  consider "f = Absent \<or> f = EmptyFile" | (doc) v where "f = read_tree v" using assms(1) by blast
  then show ?thesis
  proof cases
    case doc
    then obtain t where t: "unmarshal database_fields v \<lparr>xUsers = Some [], xNodes = Some [], xTunnels = Some []\<rparr> = Some t"
      "f = Document (xUsers t) (xNodes t) (xTunnels t)"
      using assms(2) by (auto simp: read_tree_def load_def split: option.splits)
    then have "maps_wf t"
      by (auto simp: unmarshal_def maps_wf_def split: json.splits dest!: set_members_wf)
    with t(2) assms(2) show ?thesis by (auto simp: load_def maps_wf_def tables_wf_def split: option.splits)
  qed (use assms(2) in \<open>auto simp: load_def tables_wf_def empty_Database_def\<close>)
qed

lemma all_mmap: "(\<And>k v. p (f k v)) \<Longrightarrow> list_all (\<lambda>(_, v). p v) (mmap f m)"
  by (induction m) (auto simp: mmap_def)

lemma start_settled:
  assumes "f = Absent \<or> f = EmptyFile \<or> (\<exists>v. f = read_tree v)" "\<And>k. secrets k \<noteq> []"
    and "NewStore sha secrets salts now io1 io2 f = (st, None)"
  shows "settled st"
proof -
  from assms(3) obtain db where db: "load f = Inr db" by (auto simp: NewStore_def split: sum.splits)
  have wf: "tables_wf db" by (rule load_wf [OF assms(1) db])
  let ?m = "migrateDefaultNode secrets now io1 \<lparr>stDb = db, stFile = f\<rparr>"
  have st: "migrateLegacyPasswords sha salts io2 (fst ?m) = (st, None)"
    using assms(3) db by (auto simp: NewStore_def split: prod.splits option.splits)
  then have "st = fst (migrateLegacyPasswords sha salts io2 (fst ?m))" by simp
  then have st: "stDb st = (stDb (fst ?m))\<lparr>dUsers := mmap (\<lambda>k u. if legacy_password u
      then u\<lparr>uPasswordHash := hashPassword sha (salts k) (uPassword u), uPassword := []\<rparr> else u) (dUsers (stDb (fst ?m)))\<rparr>"
    by (simp add: migrateLegacyPasswords_def Let_def frame_simps)
  have "list_all (\<lambda>(_, t). tNodeID t \<noteq> []) (dTunnels (stDb st))"
    by (simp add: st migrateDefaultNode_db, rule all_mmap) (simp add: fill_node_def)
  moreover have "list_all (\<lambda>(_, n). nToken n \<noteq> []) (dNodes (stDb st))"
    by (simp add: st migrateDefaultNode_db, rule all_mmap) (simp add: fill_token_def assms(2))
  moreover have "list_all (\<lambda>(_, u). \<not> legacy_password u) (dUsers (stDb st))"
    by (simp add: st migrateDefaultNode_db, rule all_mmap) (simp add: legacy_password_def)
  moreover have "mwf (with_default_node (default_node now (secrets DefaultNodeID)) (dNodes db))"
    using wf by (simp add: with_default_node_def tables_wf_def gomap_simps)
  then have "tables_wf (stDb st)" using wf by (simp add: tables_wf_def st migrateDefaultNode_db)
  moreover have "mget (dNodes (stDb st)) DefaultNodeID \<noteq> None"
    using with_default_node_facts(2) [where ns = "dNodes db" and d = "default_node now (secrets DefaultNodeID)"]
    by (simp add: st migrateDefaultNode_db gomap_simps)
  ultimately show ?thesis by (simp add: settled_def migrated_def)
qed

lemma running_settled: "running sha st \<Longrightarrow> settled st"
  by (induction rule: running.induct) (auto intro: op_settled start_settled)

text \<open>C8. A restart loses nothing and changes nothing. What \<^verbatim>\<open>saveLocked\<close> writes of a running store under the
  tags of the structs, \<^verbatim>\<open>load\<close> reads back at the next start into the same users, nodes and tunnels, each with
  every field it had, whatever the clock and the secrets of the start; the migrations find nothing to do, however
  the store came to its state, and nothing is written. The texts of the store must be UTF-8 and its numbers of
  64 bits.\<close>

theorem restart_roundtrip:
  assumes "running sha st" "db_fits (stDb st)"
  shows "\<exists>st'. NewStore sha secrets salts now io1 io2 (read_tree (write_tree (stDb st))) = (st', None) \<and>
    (\<forall>k. mget (users_of st') k = mget (users_of st) k) \<and> (\<forall>k. mget (nodes_of st') k = mget (nodes_of st) k) \<and>
    (\<forall>k. mget (tunnels_of st') k = mget (tunnels_of st) k) \<and> stFile st' = read_tree (write_tree (stDb st))"
proof -
  have s: "tables_wf (stDb st)" "migrated (stDb st)" using running_settled [OF assms(1)] by (simp_all add: settled_def)
  let ?db = "\<lparr>dUsers = sort_key fst (users_of st), dNodes = sort_key fst (nodes_of st), dTunnels = sort_key fst (tunnels_of st)\<rparr>"
  have l: "load (read_tree (write_tree (stDb st))) = Inr ?db"
    unfolding read_write_tree [OF s(1) assms(2)] by (simp add: load_def)
  have rows: "same_table (users_of st) (dUsers ?db)" "same_table (nodes_of st) (dNodes ?db)" "same_table (tunnels_of st) (dTunnels ?db)"
    using s(1) by (simp_all add: sorted_same_table tables_wf_def)
  have get: "mget (dUsers ?db) k = mget (users_of st) k" "mget (dNodes ?db) k = mget (nodes_of st) k"
    "mget (dTunnels ?db) k = mget (tunnels_of st) k" for k
    using s(1) rows by (simp_all add: same_table_mget tables_wf_def)
  have "migrated ?db" using s(2) get(2) unfolding migrated_def by (simp add: list_all_iff)
  from NewStore_migrated [OF l this] get show ?thesis by simp
qed

lemma demo_running: "running rev demo_store"
proof -
  have "running rev demo_boot"
  proof (rule running.start)
    show "NewStore rev (\<lambda>_. ''token'') (\<lambda>_. ''salt'') 1 Saved Saved Absent = (demo_boot, None)" by code_simp
  qed simp_all
  then show ?thesis unfolding demo_store_def demo_alice_def
    by (intro running.create_tunnel running.upsert_user)
qed

theorem restart_roundtrip_witness:
  "\<exists>st'. NewStore rev (\<lambda>_. ''x'') (\<lambda>_. ''y'') 999 Saved Saved (read_tree (write_tree (stDb demo_store))) = (st', None) \<and>
     map_option uNPSVerifyKey (mget (users_of st') ''alice'') = Some ''fedcba9876543210'' \<and>
     map_option tLocalPort (mget (tunnels_of st') ''alice-nps-tcp-10000'') = Some 8080"
proof -
  have "db_fits (stDb demo_store)" by code_simp
  then obtain st' where st': "NewStore rev (\<lambda>_. ''x'') (\<lambda>_. ''y'') 999 Saved Saved (read_tree (write_tree (stDb demo_store))) = (st', None)"
    "\<And>k. mget (users_of st') k = mget (users_of demo_store) k" "\<And>k. mget (tunnels_of st') k = mget (tunnels_of demo_store) k"
    using restart_roundtrip [OF demo_running, where secrets = "\<lambda>_. ''x''" and salts = "\<lambda>_. ''y''" and now = 999 and ?io1.0 = Saved and ?io2.0 = Saved]
    by blast
  have "map_option uNPSVerifyKey (mget (users_of demo_store) ''alice'') = Some ''fedcba9876543210''"
    "map_option tLocalPort (mget (tunnels_of demo_store) ''alice-nps-tcp-10000'') = Some 8080" by code_simp+
  then show ?thesis using st' by simp
qed

text \<open>The error of a node is cut after 500 bytes, inside a letter of two bytes: the file does not give it back.\<close>

lemma to_valid_ascii: "list_all (\<lambda>c. byte c < 0x80) s \<Longrightarrow> to_valid (s @ t) = s @ to_valid t"
  by (induction s) (simp_all add: rune_len_def)

lemma cut_error_not_kept:
  fixes msg assumes "msg = replicate 499 CHR ''a'' @ [CHR 0xC3, CHR 0xA9]"
  shows "utf8 msg" "\<not> utf8 (take 500 (trim_space msg))"
proof -
  have a: "list_all (\<lambda>c. byte c < 0x80) (replicate 499 CHR ''a'')" by (simp add: list_all_iff)
  have "to_valid [CHR 0xC3, CHR 0xA9] = [CHR 0xC3, CHR 0xA9]" "to_valid [CHR 0xC3] \<noteq> [CHR 0xC3]" by code_simp+
  then have v: "utf8 msg" "\<not> utf8 (replicate 499 CHR ''a'' @ [CHR 0xC3])"
    by (simp_all only: assms utf8_def to_valid_ascii [OF a] append_self_conv append_eq_append_conv simp_thms)
  have "dropWhile is_space (replicate (Suc n) CHR ''a'' @ t) = replicate (Suc n) CHR ''a'' @ t" for n t
    by (simp add: is_space_def)
  from this [of 498] have "trim_space msg = msg"
    by (simp add: assms trim_space_def trim_left_by_def trim_right_by_def is_space_def del: replicate.simps)
  then have "take 500 (trim_space msg) = replicate 499 CHR ''a'' @ [CHR 0xC3]" by (simp add: assms)
  with v show "utf8 msg" "\<not> utf8 (take 500 (trim_space msg))" by simp_all
qed

end
