(* ===== verification/Adapters.thy ===== *)
theory Adapters
  imports CoreTypesFacts "HOL-Library.Multiset"
begin

text \<open>
  \<^verbatim>\<open>internal/core/adapters.go\<close>: the configuration texts and record lists made for
  the two engines from users and tunnels. JSON documents are the list of records they encode;
  the rendering of a time (\<^verbatim>\<open>CreatedAt.Format\<close>) is the parameter \<open>fmt\<close>.
\<close>

section \<open>Package strconv: quoting\<close>

text \<open>
  \<^verbatim>\<open>%q\<close> and \<^verbatim>\<open>strconv.Quote\<close>. Bytes from 128 on stand for printable UTF-8 and
  are kept.
\<close>

definition quote_char :: "char \<Rightarrow> string" where
  "quote_char c =
     (if byte c = 34 \<or> byte c = 92 then [CHR 0x5C, c]
      else if 32 \<le> byte c \<and> byte c \<noteq> 127 then [c]
      else if byte c = 7 then [CHR 0x5C, CHR ''a'']
      else if byte c = 8 then [CHR 0x5C, CHR ''b'']
      else if byte c = 12 then [CHR 0x5C, CHR ''f'']
      else if byte c = 10 then [CHR 0x5C, CHR ''n'']
      else if byte c = 13 then [CHR 0x5C, CHR ''r'']
      else if byte c = 9 then [CHR 0x5C, CHR ''t'']
      else if byte c = 11 then [CHR 0x5C, CHR ''v'']
      else [CHR 0x5C, CHR ''x'', hex_digit (byte c div 16), hex_digit (byte c mod 16)])"

definition quote :: "string \<Rightarrow> string" where
  "quote s = CHR 0x22 # concat (map quote_char s) @ [CHR 0x22]"

definition newline :: string where
  "newline = [CHR 0x0A]"

section \<open>Adapters\<close>

datatype adapter_error =
    NoFRPToken string
  | FRPDomainsRequired string string
  | FRPRemotePortRequired string string
  | NoNPSVerifyKey string

definition withDefaults :: "RuntimeConfig \<Rightarrow> RuntimeConfig" where
  "withDefaults c0 =
     (let c1 = (if cServerAddr c0 = [] then c0\<lparr>cServerAddr := ''127.0.0.1''\<rparr> else c0);
          c2 = (if cFRPServerPort c1 = 0 then c1\<lparr>cFRPServerPort := 7000\<rparr> else c1)
      in if cNPSServerPort c2 = 0 then c2\<lparr>cNPSServerPort := 8024\<rparr> else c2)"

definition WithDefaultsForClient :: "RuntimeConfig \<Rightarrow> RuntimeConfig" where
  "WithDefaultsForClient c = withDefaults c"

definition quoteList :: "string list \<Rightarrow> string" where
  "quoteList values = join '', '' (map quote values)"

definition frpc_head :: "User \<Rightarrow> RuntimeConfig \<Rightarrow> string" where
  "frpc_head user cfg =
     ''user = '' @ quote (uName user) @ newline
     @ ''serverAddr = '' @ quote (cServerAddr cfg) @ newline
     @ ''serverPort = '' @ itoa (cFRPServerPort cfg) @ newline
     @ ''loginFailExit = true'' @ newline @ newline
     @ ''[auth]'' @ newline
     @ ''method = '' @ quote ''token'' @ newline
     @ ''token = '' @ quote (uFRPToken user) @ newline"

definition frpc_proxy :: "Tunnel \<Rightarrow> adapter_error + string" where
  "frpc_proxy t =
     (let start = newline @ ''[[proxies]]'' @ newline
            @ ''name = '' @ quote (tID t) @ newline @ ''type = '' @ quote (tMode t) @ newline;
          tail = (if tLocalIP t \<noteq> [] then ''localIP = '' @ quote (tLocalIP t) @ newline else [])
            @ (if 0 < tLocalPort t then ''localPort = '' @ itoa (tLocalPort t) @ newline else [])
      in if tMode t = ''http'' \<or> tMode t = ''https'' then
           (if tDomains t = [] then Inl (FRPDomainsRequired (tMode t) (tID t))
            else Inr (start @ ''customDomains = ['' @ quoteList (tDomains t) @ '']'' @ newline @ tail))
         else if 0 < tRemotePort t then
           Inr (start @ ''remotePort = '' @ itoa (tRemotePort t) @ newline @ tail)
         else Inl (FRPRemotePortRequired (tMode t) (tID t)))"

fun frpc_proxies :: "Tunnel list \<Rightarrow> adapter_error + string" where
  "frpc_proxies [] = Inr []"
| "frpc_proxies (t # ts) =
     (if tEngine t \<noteq> EngineFRP \<or> \<not> tEnabled t then frpc_proxies ts
      else (case frpc_proxy t of
          Inl e \<Rightarrow> Inl e
        | Inr s \<Rightarrow> (case frpc_proxies ts of Inl e \<Rightarrow> Inl e | Inr r \<Rightarrow> Inr (s @ r))))"

definition RenderFRPC :: "User \<Rightarrow> Tunnel list \<Rightarrow> RuntimeConfig \<Rightarrow> adapter_error + string" where
  "RenderFRPC user tunnels cfg0 =
     (let cfg = withDefaults cfg0 in
      if uFRPToken user = [] then Inl (NoFRPToken (uName user))
      else (case frpc_proxies tunnels of
          Inl e \<Rightarrow> Inl e
        | Inr s \<Rightarrow> Inr (frpc_head user cfg @ s)))"

definition RenderNPCCommand :: "User \<Rightarrow> RuntimeConfig \<Rightarrow> adapter_error + string" where
  "RenderNPCCommand user cfg0 =
     (let cfg = withDefaults cfg0 in
      if uNPSVerifyKey user = [] then Inl (NoNPSVerifyKey (uName user))
      else Inr (''./npc -server='' @ cServerAddr cfg @ '':'' @ itoa (cNPSServerPort cfg)
        @ '' -vkey='' @ uNPSVerifyKey user))"

record frpUser =
  fuName :: string
  fuPassword :: string
  fuToken :: string
  fuRole :: string
  fuEnabled :: bool
  fuAllowPorts :: "PortRange list"
  fuDomains :: "string list"
  fuMaxPorts :: int

definition ExportFRPUsers :: "User list \<Rightarrow> frpUser list" where
  "ExportFRPUsers users = sort_key fuName
     (map (\<lambda>u. \<lparr>fuName = uName u, fuPassword = uPassword u, fuToken = uFRPToken u, fuRole = uRole u,
        fuEnabled = uEnabled u, fuAllowPorts = uPortPools u, fuDomains = uDomainPools u,
        fuMaxPorts = uMaxPorts u\<rparr>) users)"

text \<open>The fields of an exported client that depend on the user; the others are constants of the source.\<close>

record npsClient =
  ncID :: int
  ncVerifyKey :: string
  ncRemark :: string
  ncStatus :: bool
  ncFlowLimit :: int
  ncNowRate :: int
  ncWebUserName :: string
  ncPortPool :: string
  ncConfigConnAllow :: bool
  ncMaxTunnelNum :: int
  ncCreateTime :: string

fun export_loop :: "(time \<Rightarrow> string) \<Rightarrow> int \<Rightarrow> User list \<Rightarrow> npsClient list" where
  "export_loop fmt nid [] = []"
| "export_loop fmt nid (u # us) =
     (if \<not> uEnabled u \<or> uNPSVerifyKey u = [] then export_loop fmt nid us
      else \<lparr>ncID = nid + 1, ncVerifyKey = uNPSVerifyKey u, ncRemark = uName u, ncStatus = True,
             ncFlowLimit = 0, ncNowRate = 17179869184, ncWebUserName = uName u,
             ncPortPool = FormatPortRanges (uPortPools u), ncConfigConnAllow = True,
             ncMaxTunnelNum = uMaxPorts u, ncCreateTime = fmt (uCreatedAt u)\<rparr>
           # export_loop fmt (nid + 1) us)"

definition ExportNPSClients :: "(time \<Rightarrow> string) \<Rightarrow> User list \<Rightarrow> npsClient list" where
  "ExportNPSClients fmt users = export_loop fmt 1 (sort_key uName users)"

section \<open>Quoting is reversible and stays on its line\<close>

definition escape_val :: "char \<Rightarrow> char option" where
  "escape_val e =
     (if e = CHR ''a'' then Some (char_of (7 :: nat)) else if e = CHR ''b'' then Some (char_of (8 :: nat))
      else if e = CHR ''f'' then Some (char_of (12 :: nat)) else if e = CHR ''n'' then Some (char_of (10 :: nat))
      else if e = CHR ''r'' then Some (char_of (13 :: nat)) else if e = CHR ''t'' then Some (char_of (9 :: nat))
      else if e = CHR ''v'' then Some (char_of (11 :: nat))
      else if byte e = 34 \<or> byte e = 92 then Some e else None)"

fun scan_quoted :: "string \<Rightarrow> (string \<times> string) option" where
  "scan_quoted [] = None"
| "scan_quoted (c # s) =
     (if byte c = 34 then Some ([], s)
      else if byte c \<noteq> 92 then map_option (\<lambda>(v, r). (c # v, r)) (scan_quoted s)
      else (case s of
          [] \<Rightarrow> None
        | e # s' \<Rightarrow>
            if e = CHR ''x'' then
              (case s' of
                 h # l # s'' \<Rightarrow> (case (hex_val h, hex_val l) of
                     (Some a, Some b) \<Rightarrow> map_option (\<lambda>(v, r). (char_of (16 * a + b) # v, r)) (scan_quoted s'')
                   | _ \<Rightarrow> None)
               | _ \<Rightarrow> None)
            else (case escape_val e of
                None \<Rightarrow> None
              | Some x \<Rightarrow> map_option (\<lambda>(v, r). (x # v, r)) (scan_quoted s'))))"

lemma char_byte: "byte c = n \<Longrightarrow> c = char_of n"
  by (metis char_of_char)

lemma scan_quote_char:
  "scan_quoted (quote_char c @ s) = map_option (\<lambda>(v, r). (c # v, r)) (scan_quoted s)"
proof -
  have hex: "scan_quoted ([CHR 0x5C, CHR ''x'', hex_digit (byte c div 16), hex_digit (byte c mod 16)] @ s) =
      map_option (\<lambda>(v, r). (c # v, r)) (scan_quoted s)"
    using byte_less [of c] by (simp add: less_mult_imp_div_less)
  have esc: "scan_quoted ([CHR 0x5C, e] @ s) = map_option (\<lambda>(v, r). (c # v, r)) (scan_quoted s)"
    if "e \<noteq> CHR ''x''" "escape_val e = Some c" for e
    using that by simp
  have plain: "scan_quoted ([c] @ s) = map_option (\<lambda>(v, r). (c # v, r)) (scan_quoted s)"
    if "byte c \<noteq> 34" "byte c \<noteq> 92" using that by simp
  have code: "escape_val e = Some c" if "byte c = k" "escape_val e = Some (char_of k)" for e k
    by (subst char_byte [OF that(1)]) (rule that(2))
  have fin: ?thesis if "quote_char c = [CHR 0x5C, e]" "e \<noteq> CHR ''x''" "byte c = k" "escape_val e = Some (char_of k)" for e k
    unfolding that(1) by (rule esc [OF that(2) code [OF that(3,4)]])
  have vals: "escape_val CHR ''a'' = Some (char_of (7 :: nat))" "escape_val CHR ''b'' = Some (char_of (8 :: nat))"
    "escape_val CHR ''f'' = Some (char_of (12 :: nat))" "escape_val CHR ''n'' = Some (char_of (10 :: nat))"
    "escape_val CHR ''r'' = Some (char_of (13 :: nat))" "escape_val CHR ''t'' = Some (char_of (9 :: nat))"
    "escape_val CHR ''v'' = Some (char_of (11 :: nat))"
    by (simp_all add: escape_val_def)
  show ?thesis
  proof (cases "byte c = 34 \<or> byte c = 92")
    case True
    have q: "quote_char c = [CHR 0x5C, c]" unfolding quote_char_def using True by (rule if_P)
    have "c = char_of (34 :: nat) \<or> c = char_of (92 :: nat)"
      using True by (elim disjE) (rule disjI1, erule char_byte, rule disjI2, erule char_byte)
    moreover have "char_of (34 :: nat) \<noteq> CHR ''x'' \<and> escape_val (char_of (34 :: nat)) = Some (char_of (34 :: nat))"
      "char_of (92 :: nat) \<noteq> CHR ''x'' \<and> escape_val (char_of (92 :: nat)) = Some (char_of (92 :: nat))"
      by code_simp+
    ultimately have "c \<noteq> CHR ''x''" "escape_val c = Some c" by metis+
    then show ?thesis unfolding q by (rule esc)
  next
    case False
    consider "32 \<le> byte c \<and> byte c \<noteq> 127" | "byte c = 7" | "byte c = 8" | "byte c = 12" | "byte c = 10"
      | "byte c = 13" | "byte c = 9" | "byte c = 11"
      | "\<not> (32 \<le> byte c \<and> byte c \<noteq> 127)" "byte c \<notin> {7, 8, 12, 10, 13, 9, 11}"
      by blast
    then show ?thesis
    proof cases
      case 1
      with False plain show ?thesis by (simp add: quote_char_def del: scan_quoted.simps)
    next
      case 2
      show ?thesis by (rule fin [OF _ _ 2 vals(1)]) (simp_all add: quote_char_def 2)
    next
      case 3
      show ?thesis by (rule fin [OF _ _ 3 vals(2)]) (simp_all add: quote_char_def 3)
    next
      case 4
      show ?thesis by (rule fin [OF _ _ 4 vals(3)]) (simp_all add: quote_char_def 4)
    next
      case 5
      show ?thesis by (rule fin [OF _ _ 5 vals(4)]) (simp_all add: quote_char_def 5)
    next
      case 6
      show ?thesis by (rule fin [OF _ _ 6 vals(5)]) (simp_all add: quote_char_def 6)
    next
      case 7
      show ?thesis by (rule fin [OF _ _ 7 vals(6)]) (simp_all add: quote_char_def 7)
    next
      case 8
      show ?thesis by (rule fin [OF _ _ 8 vals(7)]) (simp_all add: quote_char_def 8)
    next
      case 9
      then have "byte c \<noteq> 7" "byte c \<noteq> 8" "byte c \<noteq> 12" "byte c \<noteq> 10" "byte c \<noteq> 13" "byte c \<noteq> 9" "byte c \<noteq> 11"
        by simp_all
      with 9(1) False have "quote_char c = [CHR 0x5C, CHR ''x'', hex_digit (byte c div 16), hex_digit (byte c mod 16)]"
        unfolding quote_char_def by (simp only: if_False if_True simp_thms)
      with hex show ?thesis by simp
    qed
  qed
qed

lemma scan_quote [simp]: "scan_quoted (concat (map quote_char s) @ CHR 0x22 # r) = Some (s, r)"
  by (induction s) (simp_all add: scan_quote_char del: scan_quoted.simps(2), simp)

lemma quote_inj:
  assumes "quote s = quote t" shows "s = t"
proof -
  have "concat (map quote_char s) = concat (map quote_char t)"
    using assms unfolding quote_def by (simp only: list.inject append_same_eq)
  then have "Some (s, []) = Some (t, [] :: string)"
    unfolding scan_quote [of s "[]", symmetric] scan_quote [of t "[]", symmetric] by (simp only:)
  then show ?thesis by simp
qed

abbreviation nl :: char where
  "nl \<equiv> CHR 0x0A"

lemma hex_digit_not_nl [simp]: "n < 16 \<Longrightarrow> hex_digit n \<noteq> nl" "n < 16 \<Longrightarrow> nl \<noteq> hex_digit n"
proof -
  show "hex_digit n \<noteq> nl" if "n < 16" using hex_digit_chars [OF that] by (auto simp: is_digit_def is_lower_def)
  then show "n < 16 \<Longrightarrow> nl \<noteq> hex_digit n" by metis
qed

lemma quote_char_line: "nl \<notin> set (quote_char c)"
proof -
  have "hex_digit (byte c div 16) \<noteq> nl" "hex_digit (byte c mod 16) \<noteq> nl"
    using byte_less [of c] by (simp_all add: less_mult_imp_div_less)
  moreover have "nl \<noteq> c" if "byte c = 34 \<or> byte c = 92"
    using that by (rule contrapos_pn) (erule subst, simp)
  moreover have "nl \<noteq> c" if "32 \<le> byte c"
    using that by (rule contrapos_pn) (erule subst, simp)
  moreover have cases: "x \<notin> set (if P then a else b)"
    if "P \<Longrightarrow> x \<notin> set a" "\<not> P \<Longrightarrow> x \<notin> set b" for P x and a b :: string
    using that by simp
  ultimately show ?thesis
    unfolding quote_char_def by (intro cases) (simp_all add: eq_commute [of nl])
qed

lemma quote_line [simp]: "nl \<notin> set (quote s)"
  using quote_char_line by (auto simp: quote_def)

lemma itoa_line [simp]: "nl \<notin> set (itoa i)"
  using itoa_chars [of nl i] by (auto simp: is_digit_def)

lemma join_line: "nl \<notin> set sep \<Longrightarrow> (\<And>x. x \<in> set xs \<Longrightarrow> nl \<notin> set x) \<Longrightarrow> nl \<notin> set (join sep xs)"
  by (induction sep xs rule: join.induct) auto

lemma quoteList_line [simp]: "nl \<notin> set (quoteList ds)"
  unfolding quoteList_def by (rule join_line) auto

section \<open>The lines of an frpc configuration\<close>

definition unlines :: "string list \<Rightarrow> string" where
  "unlines ls = concat (map (\<lambda>l. l @ newline) ls)"

lemma unlines_simps [simp]:
  "unlines [] = []" "unlines (l # ls) = l @ newline @ unlines ls" "unlines (ls @ ms) = unlines ls @ unlines ms"
  by (simp_all add: unlines_def)

lemma split_unlines: "(\<And>l. l \<in> set ls \<Longrightarrow> nl \<notin> set l) \<Longrightarrow> split_on nl (unlines ls) = ls @ [[]]"
  by (induction ls) (simp_all add: newline_def split_on_append)

definition head_lines :: "User \<Rightarrow> RuntimeConfig \<Rightarrow> string list" where
  "head_lines user cfg =
     [''user = '' @ quote (uName user), ''serverAddr = '' @ quote (cServerAddr cfg),
      ''serverPort = '' @ itoa (cFRPServerPort cfg), ''loginFailExit = true'', [], ''[auth]'',
      ''method = '' @ quote ''token'', ''token = '' @ quote (uFRPToken user)]"

definition web_mode :: "Tunnel \<Rightarrow> bool" where
  "web_mode t \<longleftrightarrow> tMode t = ''http'' \<or> tMode t = ''https''"

definition proxy_lines :: "Tunnel \<Rightarrow> string list" where
  "proxy_lines t =
     [[], ''[[proxies]]'', ''name = '' @ quote (tID t), ''type = '' @ quote (tMode t),
      (if web_mode t then ''customDomains = ['' @ quoteList (tDomains t) @ '']''
       else ''remotePort = '' @ itoa (tRemotePort t))]
     @ (if tLocalIP t \<noteq> [] then [''localIP = '' @ quote (tLocalIP t)] else [])
     @ (if 0 < tLocalPort t then [''localPort = '' @ itoa (tLocalPort t)] else [])"

definition frp_active :: "Tunnel \<Rightarrow> bool" where
  "frp_active t \<longleftrightarrow> tEngine t = EngineFRP \<and> tEnabled t"

definition proxy_complete :: "Tunnel \<Rightarrow> bool" where
  "proxy_complete t \<longleftrightarrow> (if web_mode t then tDomains t \<noteq> [] else 0 < tRemotePort t)"

lemma frpc_head_lines: "frpc_head user cfg = unlines (head_lines user cfg)"
  by (simp add: frpc_head_def head_lines_def)

lemma frpc_proxy_lines:
  "frpc_proxy t = Inr s \<longleftrightarrow> proxy_complete t \<and> s = unlines (proxy_lines t)"
  by (auto simp: frpc_proxy_def proxy_complete_def proxy_lines_def web_mode_def Let_def)

lemma frpc_proxies_lines:
  "frpc_proxies ts = Inr s \<longleftrightarrow> list_all proxy_complete (filter frp_active ts) \<and>
     s = unlines (concat (map proxy_lines (filter frp_active ts)))"
proof (induction ts arbitrary: s)
  case (Cons t ts)
  show ?case
  proof (cases "frp_active t")
    case True
    then have "frpc_proxies (t # ts) = Inr s \<longleftrightarrow>
        (\<exists>a r. frpc_proxy t = Inr a \<and> frpc_proxies ts = Inr r \<and> s = a @ r)"
      by (auto simp: frp_active_def split: sum.splits)
    then show ?thesis using True unfolding frpc_proxy_lines Cons.IH by auto
  next
    case False
    then have "frpc_proxies (t # ts) = frpc_proxies ts" by (auto simp: frp_active_def)
    with False show ?thesis using Cons.IH by simp
  qed
qed auto

lemma config_lines_clean:
  "l \<in> set (head_lines user cfg) \<Longrightarrow> nl \<notin> set l" "l \<in> set (proxy_lines t) \<Longrightarrow> nl \<notin> set l"
  by (auto simp: head_lines_def proxy_lines_def split: if_splits)

text \<open>RenderFRPC succeeds exactly when the user has a token and every active frp tunnel has its domains or
  its port; and the lines of the text it makes are then the fixed lines of the template, so no
  name, domain or token, whatever bytes it holds, can add a line to the configuration.\<close>

theorem RenderFRPC_lines:
  "(is_ok (RenderFRPC user ts cfg) \<longleftrightarrow>
      uFRPToken user \<noteq> [] \<and> list_all proxy_complete (filter frp_active ts)) \<and>
   (\<forall>s. RenderFRPC user ts cfg = Inr s \<longrightarrow>
      split_on nl s = head_lines user (withDefaults cfg) @ concat (map proxy_lines (filter frp_active ts)) @ [[]])"
proof (intro conjI allI impI)
  have iff: "RenderFRPC user ts cfg = Inr s \<longleftrightarrow> uFRPToken user \<noteq> [] \<and>
      (\<exists>r. frpc_proxies ts = Inr r \<and> s = frpc_head user (withDefaults cfg) @ r)" for s
    by (auto simp: RenderFRPC_def Let_def split: sum.splits)
  then show "is_ok (RenderFRPC user ts cfg) \<longleftrightarrow>
      uFRPToken user \<noteq> [] \<and> list_all proxy_complete (filter frp_active ts)"
    unfolding is_ok_iff frpc_proxies_lines by auto
  fix s assume "RenderFRPC user ts cfg = Inr s"
  then have "s = unlines (head_lines user (withDefaults cfg) @ concat (map proxy_lines (filter frp_active ts)))"
    unfolding iff frpc_proxies_lines frpc_head_lines by auto
  moreover have "split_on nl (unlines (head_lines user (withDefaults cfg) @ concat (map proxy_lines (filter frp_active ts))))
      = (head_lines user (withDefaults cfg) @ concat (map proxy_lines (filter frp_active ts))) @ [[]]"
    by (rule split_unlines) (auto dest: config_lines_clean)
  ultimately show "split_on nl s =
      head_lines user (withDefaults cfg) @ concat (map proxy_lines (filter frp_active ts)) @ [[]]"
    by simp
qed

definition nasty_user :: User where
  "nasty_user = zero_User\<lparr>uName := ''eve'' @ [CHR 0x22, nl] @ ''[auth]'', uFRPToken := ''t''\<rparr>"

theorem RenderFRPC_lines_witness:
  "\<exists>s. RenderFRPC nasty_user [] zero_Runtime = Inr s \<and>
     split_on nl s = head_lines nasty_user (withDefaults zero_Runtime) @ [[]]"
proof -
  note spec = RenderFRPC_lines [of nasty_user "[]" zero_Runtime]
  have "uFRPToken nasty_user \<noteq> []" by (simp add: nasty_user_def)
  with spec obtain s where "RenderFRPC nasty_user [] zero_Runtime = Inr s" by (auto simp: is_ok_iff)
  with spec show ?thesis by auto
qed

section \<open>The exported client list\<close>

definition npc_exported :: "User \<Rightarrow> bool" where
  "npc_exported u \<longleftrightarrow> uEnabled u \<and> uNPSVerifyKey u \<noteq> []"

lemma export_loop_map:
  "map ncID (export_loop fmt n us) = map (\<lambda>i. n + 1 + int i) [0..<length (filter npc_exported us)]"
  "map ncVerifyKey (export_loop fmt n us) = map uNPSVerifyKey (filter npc_exported us)"
  "map ncRemark (export_loop fmt n us) = map uName (filter npc_exported us)"
proof (induction fmt n us rule: export_loop.induct)
  case (2 fmt n u us)
  {
    case 1
    have "map (\<lambda>i. n + 1 + int i) [0..<Suc k] = (n + 1) # map (\<lambda>i. n + 1 + 1 + int i) [0..<k]" for k
      by (simp add: upt_conv_Cons map_Suc_upt [symmetric] del: upt_Suc map_Suc_upt)
    with 2 show ?case by (simp add: npc_exported_def)
  next
    case 2
    with "2.IH" show ?case by (simp add: npc_exported_def)
  next
    case 3
    with "2.IH" show ?case by (simp add: npc_exported_def)
  }
qed simp_all

text \<open>The client list written for nps holds exactly the enabled users with a key, in the order of their
  names, under the ids 2, 3, 4, ... without gap or repetition.\<close>

theorem ExportNPSClients_ids:
  "map ncID (ExportNPSClients fmt us) = map (\<lambda>i. 2 + int i) [0..<length (filter npc_exported us)] \<and>
   map ncRemark (ExportNPSClients fmt us) = sort (map uName (filter npc_exported us)) \<and>
   mset (map ncVerifyKey (ExportNPSClients fmt us)) = mset (map uNPSVerifyKey (filter npc_exported us))"
proof -
  have f: "filter npc_exported (sort_key uName us) = sort_key uName (filter npc_exported us)"
    by (rule filter_sort)
  have "map uName (sort_key uName xs) = sort (map uName xs)" for xs
    by (rule properties_for_sort [symmetric]) (simp_all add: mset_map)
  then show ?thesis
    unfolding ExportNPSClients_def export_loop_map f by simp
qed

end
