(* ===== verification/NpsDb.thy ===== *)
theory NpsDb
  imports CoreTypesFacts
begin

text \<open>
  The part of the embedded nps server that the control program drives: its database of
  clients, tasks and hosts (\<^verbatim>\<open>upstream/NPS/lib/file\<close>) and the starting and stopping of
  tasks (\<^verbatim>\<open>upstream/NPS/server/server.go\<close>). A record holds the fields the control
  program reads or writes, and those the limits of \<^verbatim>\<open>NpsServe\<close> need. A task or host refers to its client by id. The three maps are
  visited in list order. A client with a positive id is the object in the table, so writing
  to it is a write to the table. The JSON files nps keeps of the maps are not modelled, nor
  are the connections of a running task.
\<close>

section \<open>State\<close>

definition wrap32 :: "int \<Rightarrow> int" where
  "wrap32 x = (x + 2 ^ 31) mod 2 ^ 32 - 2 ^ 31"

record NpsFlow =
  flExportFlow :: int
  flInletFlow :: int
  flFlowLimit :: int

record NpsClient =
  clId :: int
  clVerifyKey :: string
  clAddr :: string
  clRemark :: string
  clStatus :: bool
  clIsConnect :: bool
  clRateLimit :: int
  clFlow :: "NpsFlow option"
  clRate :: "int option"
  clNoStore :: bool
  clNoDisplay :: bool
  clNowConn :: int
  clWebUserName :: string
  clPortPool :: string
  clConfigConnAllow :: bool
  clMaxTunnelNum :: int
  clVersion :: string
  clLastOnlineTime :: string
  clMaxConn :: int
  clBlackIpList :: "string list"

record NpsTask =
  tkId :: int
  tkPort :: int
  tkMode :: string
  tkStatus :: bool
  tkClient :: int
  tkFlow :: "NpsFlow option"
  tkPassword :: string
  tkRemark :: string
  tkTarget :: string
  tkNoStore :: bool

record NpsHost =
  hoId :: int
  hoHost :: string
  hoHeaderChange :: string
  hoHostChange :: string
  hoLocation :: string
  hoRemark :: string
  hoScheme :: string
  hoClient :: int
  hoFlow :: "NpsFlow option"
  hoTarget :: string
  hoIsClose :: bool
  hoAutoHttps :: bool
  hoNoStore :: bool

text \<open>
  \<open>ndRunning\<close> holds the keys of \<^verbatim>\<open>RunList\<close>; \<open>ndBridge\<close> is \<open>None\<close> while
  \<^verbatim>\<open>server.Bridge\<close> is nil, else the ids of the connected clients with their versions.
\<close>

record NpsState =
  ndClients :: "(int, NpsClient) gomap"
  ndTasks :: "(int, NpsTask) gomap"
  ndHosts :: "(int, NpsHost) gomap"
  ndClientInc :: int
  ndTaskInc :: int
  ndHostInc :: int
  ndRunning :: "int list"
  ndBridge :: "(int, string) gomap option"

text \<open>
  What the operating system and the configuration decide: the ports the configuration
  allows, whether a port can be opened, whether closing a task's listener succeeds, and the
  keys \<^verbatim>\<open>crypt.GetVkey\<close> draws.
\<close>

record NpsEnv =
  neAllowed :: "int list"
  nePortFree :: "string \<Rightarrow> int \<Rightarrow> bool"
  neCloses :: "int \<Rightarrow> bool"
  neVkeys :: "string list"

datatype nps_error =
    DuplicateWebUser
  | DuplicateVkey
  | NoFreshVkey
  | CloseFailed
  | TaskNotFound
  | TaskNotRunning
  | PortOpenError
  | ModeNotCorrect
  | NpsHostExists string string string

definition zero_Flow :: NpsFlow where
  "zero_Flow = \<lparr>flExportFlow = 0, flInletFlow = 0, flFlowLimit = 0\<rparr>"

definition zero_Task :: NpsTask where
  "zero_Task = \<lparr>tkId = 0, tkPort = 0, tkMode = [], tkStatus = False, tkClient = 0, tkFlow = None,
     tkPassword = [], tkRemark = [], tkTarget = [], tkNoStore = False\<rparr>"

definition zero_Host :: NpsHost where
  "zero_Host = \<lparr>hoId = 0, hoHost = [], hoHeaderChange = [], hoHostChange = [], hoLocation = [],
     hoRemark = [], hoScheme = [], hoClient = 0, hoFlow = None, hoTarget = [], hoIsClose = False,
     hoAutoHttps = False, hoNoStore = False\<rparr>"

text \<open>\<^verbatim>\<open>file.NewClient\<close> (the constructor).\<close>

definition make_NpsClient :: "string \<Rightarrow> bool \<Rightarrow> bool \<Rightarrow> NpsClient" where
  "make_NpsClient vKey noStore noDisplay =
     \<lparr>clId = 0, clVerifyKey = vKey, clAddr = [], clRemark = [], clStatus = True, clIsConnect = False,
      clRateLimit = 0, clFlow = Some zero_Flow, clRate = None, clNoStore = noStore,
      clNoDisplay = noDisplay, clNowConn = 0, clWebUserName = [], clPortPool = [],
      clConfigConnAllow = False, clMaxTunnelNum = 0, clVersion = [], clLastOnlineTime = [],
      clMaxConn = 0, clBlackIpList = []\<rparr>"

definition put_client :: "NpsClient \<Rightarrow> NpsState \<Rightarrow> NpsState" where
  "put_client c db = db\<lparr>ndClients := mput (clId c) c (ndClients db)\<rparr>"

definition put_task :: "NpsTask \<Rightarrow> NpsState \<Rightarrow> NpsState" where
  "put_task t db = db\<lparr>ndTasks := mput (tkId t) t (ndTasks db)\<rparr>"

definition put_host :: "NpsHost \<Rightarrow> NpsState \<Rightarrow> NpsState" where
  "put_host h db = db\<lparr>ndHosts := mput (hoId h) h (ndHosts db)\<rparr>"

section \<open>The database\<close>

definition GetClientId :: "NpsState \<Rightarrow> NpsState \<times> int" where
  "GetClientId db = (let n = wrap32 (ndClientInc db + 1) in (db\<lparr>ndClientInc := n\<rparr>, n))"

definition GetTaskId :: "NpsState \<Rightarrow> NpsState \<times> int" where
  "GetTaskId db = (let n = wrap32 (ndTaskInc db + 1) in (db\<lparr>ndTaskInc := n\<rparr>, n))"

definition GetHostId :: "NpsState \<Rightarrow> NpsState \<times> int" where
  "GetHostId db = (let n = wrap32 (ndHostInc db + 1) in (db\<lparr>ndHostInc := n\<rparr>, n))"

definition VerifyVkey :: "NpsState \<Rightarrow> string \<Rightarrow> int \<Rightarrow> bool" where
  "VerifyVkey db vkey cid \<longleftrightarrow> list_all (\<lambda>(_, v). \<not> (clVerifyKey v = vkey \<and> clId v \<noteq> cid)) (ndClients db)"

definition VerifyUserName :: "NpsState \<Rightarrow> string \<Rightarrow> int \<Rightarrow> bool" where
  "VerifyUserName db name cid \<longleftrightarrow> list_all (\<lambda>(_, v). \<not> (clWebUserName v = name \<and> clId v \<noteq> cid)) (ndClients db)"

text \<open>The rate limiter \<^verbatim>\<open>NewClient\<close> gives a client: an existing one is kept when a limit is set.\<close>

definition client_rate :: "NpsClient \<Rightarrow> int option" where
  "client_rate c =
     (if clRateLimit c = 0 then Some (16777216 * 1024)
      else if clRate c = None then Some (wrap64 (clRateLimit c * 1024))
      else clRate c)"

text \<open>
  The object behind a pointer: if it is in the table (its id is not zero) a write shows there.
\<close>

definition write_client :: "NpsClient \<Rightarrow> NpsState \<Rightarrow> NpsState" where
  "write_client c db = (if clId c \<noteq> 0 then put_client c db else db)"

text \<open>
  The loop at label \<^verbatim>\<open>reset\<close>, entered without a key: draw keys until one is unused. The
  draws are a list; when it ends the loop is still running, which is no result.
\<close>

fun draw_vkey :: "NpsState \<Rightarrow> int \<Rightarrow> string list \<Rightarrow> string option" where
  "draw_vkey db cid [] = None"
| "draw_vkey db cid (k # ks) = (if VerifyVkey db k cid then Some k else draw_vkey db cid ks)"

definition NewClient :: "NpsEnv \<Rightarrow> NpsClient \<Rightarrow> NpsState \<Rightarrow> NpsState \<times> (nps_error + NpsClient)" where
  "NewClient env c0 db0 =
     (if clWebUserName c0 \<noteq> [] \<and> \<not> VerifyUserName db0 (clWebUserName c0) (clId c0)
      then (db0, Inl DuplicateWebUser)
      else let c1 = c0\<lparr>clRate := client_rate c0\<rparr>; db1 = write_client c1 db0 in
        (case (if clVerifyKey c1 = [] then
                 (case draw_vkey db1 (clId c1) (neVkeys env) of None \<Rightarrow> Inl NoFreshVkey | Some k \<Rightarrow> Inr k)
               else if VerifyVkey db1 (clVerifyKey c1) (clId c1) then Inr (clVerifyKey c1)
               else Inl DuplicateVkey) of
           Inl e \<Rightarrow> (db1, Inl e)
         | Inr key \<Rightarrow>
             let c2 = c1\<lparr>clVerifyKey := key\<rparr>;
                 (db2, c3) = (if clId c2 = 0 then (let (db', n) = GetClientId db1 in (db', c2\<lparr>clId := n\<rparr>))
                              else (db1, c2));
                 c4 = (if clFlow c3 = None then c3\<lparr>clFlow := Some zero_Flow\<rparr> else c3)
             in (put_client c4 db2, Inr c4)))"

definition DelClient :: "int \<Rightarrow> NpsState \<Rightarrow> NpsState" where
  "DelClient cid db = db\<lparr>ndClients := mdel cid (ndClients db)\<rparr>"

definition UpdateTask :: "NpsTask \<Rightarrow> NpsState \<Rightarrow> NpsState" where
  "UpdateTask t db = put_task t db"

definition db_DelTask :: "int \<Rightarrow> NpsState \<Rightarrow> NpsState" where
  "db_DelTask tid db = db\<lparr>ndTasks := mdel tid (ndTasks db)\<rparr>"

definition DelHost :: "int \<Rightarrow> NpsState \<Rightarrow> NpsState" where
  "DelHost hid db = db\<lparr>ndHosts := mdel hid (ndHosts db)\<rparr>"

section \<open>Ports\<close>

definition IsPort :: "string \<Rightarrow> bool" where
  "IsPort p = (case atoi p of None \<Rightarrow> False | Some pi \<Rightarrow> \<not> (65536 < pi \<or> pi < 1))"

definition port_val :: "string \<Rightarrow> int" where
  "port_val p = (case atoi p of None \<Rightarrow> 0 | Some n \<Rightarrow> n)"

definition ports_of_part :: "string \<Rightarrow> int list" where
  "ports_of_part v =
     (let fw = split_on CHR ''-'' v in
      if length fw = 2 then
        (if IsPort (fw ! 0) \<and> IsPort (fw ! 1) then [port_val (fw ! 0) .. port_val (fw ! 1)] else [])
      else if IsPort v then [port_val v] else [])"

definition GetPorts :: "string \<Rightarrow> int list" where
  "GetPorts p = concat (map ports_of_part (split_on CHR '','' p))"

definition IsServerPortAllowed :: "int list \<Rightarrow> int \<Rightarrow> string \<Rightarrow> int list \<Rightarrow> bool" where
  "IsServerPortAllowed ports p m pool =
     (if m = ''p2p'' \<or> m = ''secret'' then True
      else if 65535 < p \<or> p < 0 then False
      else if pool \<noteq> [] \<and> p \<notin> set pool then False
      else if ports \<noteq> [] \<and> p \<notin> set ports then False
      else True)"

definition TestServerPortInPool :: "NpsEnv \<Rightarrow> int \<Rightarrow> string \<Rightarrow> int list \<Rightarrow> bool" where
  "TestServerPortInPool env p m pool \<longleftrightarrow>
     IsServerPortAllowed (neAllowed env) p m pool \<and> nePortFree env (if m = ''udp'' then ''udp'' else ''tcp'') p"

section \<open>Starting and stopping tasks\<close>

definition NewMode :: "string \<Rightarrow> bool" where
  "NewMode m \<longleftrightarrow> m \<in> {''tcp'', ''file'', ''socks5'', ''httpProxy'', ''tcpTrans'', ''udp'', ''webServer'', ''httpHostServer''}"

definition store_running :: "int \<Rightarrow> NpsState \<Rightarrow> NpsState" where
  "store_running tid db = db\<lparr>ndRunning := (if tid \<in> set (ndRunning db) then ndRunning db else ndRunning db @ [tid])\<rparr>"

definition StopServer :: "NpsEnv \<Rightarrow> int \<Rightarrow> NpsState \<Rightarrow> NpsState \<times> nps_error option" where
  "StopServer env tid db =
     (if tid \<in> set (ndRunning db) then
        (if \<not> neCloses env tid then (db, Some CloseFailed)
         else (case mget (ndTasks db) tid of
             None \<Rightarrow> (db, Some TaskNotFound)
           | Some t \<Rightarrow>
               let db1 = UpdateTask (t\<lparr>tkStatus := False\<rparr>) db
               in (db1\<lparr>ndRunning := removeAll tid (ndRunning db1)\<rparr>, None)))
      else (db, Some TaskNotRunning))"

definition AddTask :: "NpsEnv \<Rightarrow> NpsTask \<Rightarrow> NpsState \<Rightarrow> NpsState \<times> nps_error option" where
  "AddTask env t db =
     (if tkMode t = ''secret'' \<or> tkMode t = ''p2p'' then (store_running (tkId t) db, None)
      else let portPool = (case mget (ndClients db) (tkClient t) of
              None \<Rightarrow> [] | Some c \<Rightarrow> GetPorts (clPortPool c)) in
        if \<not> TestServerPortInPool env (tkPort t) (tkMode t) portPool \<and> tkMode t \<noteq> ''httpHostServer''
        then (db, Some PortOpenError)
        else if NewMode (tkMode t) then (store_running (tkId t) db, None)
        else (db, Some ModeNotCorrect))"

definition server_DelTask :: "NpsEnv \<Rightarrow> int \<Rightarrow> NpsState \<Rightarrow> NpsState" where
  "server_DelTask env tid db =
     (if tid \<in> set (ndRunning db) then
        (case StopServer env tid db of
           (db1, Some _) \<Rightarrow> db1
         | (db1, None) \<Rightarrow> db_DelTask tid db1)
      else db_DelTask tid db)"

definition DelTunnelAndHostByClientId :: "NpsEnv \<Rightarrow> int \<Rightarrow> bool \<Rightarrow> NpsState \<Rightarrow> NpsState" where
  "DelTunnelAndHostByClientId env cid justDelNoStore db =
     (let tids = map (\<lambda>(_, v). tkId v)
            (filter (\<lambda>(_, v). \<not> (justDelNoStore \<and> \<not> tkNoStore v) \<and> tkClient v = cid) (ndTasks db));
          db1 = fold (server_DelTask env) tids db;
          hids = map (\<lambda>(_, v). hoId v)
            (filter (\<lambda>(_, v). \<not> (justDelNoStore \<and> \<not> hoNoStore v) \<and> hoClient v = cid) (ndHosts db1))
      in fold DelHost hids db1)"

text \<open>\<^verbatim>\<open>Bridge.DelClient\<close>: forget the connection (its signal to the bridge loop is not modelled).\<close>

definition DelClientConnect :: "int \<Rightarrow> NpsState \<Rightarrow> NpsState" where
  "DelClientConnect cid db = db\<lparr>ndBridge := map_option (mdel cid) (ndBridge db)\<rparr>"

end
