(* ===== verification/Integrated.thy ===== *)
theory Integrated
  imports NpsDb
begin

text \<open>
  \<^verbatim>\<open>internal/integrated/engines.go\<close>: how the users and tunnels of the control
  database are put into the embedded nps server (\<^verbatim>\<open>SyncNPSState\<close>) and how traffic and
  connection states are read back. \<^verbatim>\<open>npsfile.Db == nil\<close>, before nps runs, is \<open>None\<close>.
\<close>

section \<open>Looking things up\<close>

definition findNPSClient :: "NpsState \<Rightarrow> string \<Rightarrow> NpsClient option" where
  "findNPSClient db name =
     map_option snd (List.find (\<lambda>(_, c). clWebUserName c = name \<or> clRemark c = name) (ndClients db))"

definition findNPSTask :: "NpsState \<Rightarrow> string \<Rightarrow> NpsTask option" where
  "findNPSTask db remark = map_option snd (List.find (\<lambda>(_, t). tkRemark t = remark) (ndTasks db))"

definition findNPSHost :: "NpsState \<Rightarrow> string \<Rightarrow> NpsHost option" where
  "findNPSHost db remark = map_option snd (List.find (\<lambda>(_, h). hoRemark h = remark) (ndHosts db))"

definition findNPSHostByDomain :: "NpsState \<Rightarrow> string \<Rightarrow> string \<Rightarrow> string \<Rightarrow> NpsHost option" where
  "findNPSHostByDomain db domain scheme exceptRemark =
     map_option snd (List.find (\<lambda>(_, h). \<not> hoRemark h = exceptRemark \<and>
       hoHost h = domain \<and> hoLocation h = ''/'' \<and> (hoScheme h = scheme \<or> hoScheme h = ''all'')) (ndHosts db))"

definition upsertNPSHost :: "NpsHost \<Rightarrow> NpsState \<Rightarrow> NpsState" where
  "upsertNPSHost h0 db =
     (let h1 = (if hoLocation h0 = [] then h0\<lparr>hoLocation := ''/''\<rparr> else h0);
          h2 = (if hoFlow h1 = None then h1\<lparr>hoFlow := Some zero_Flow\<rparr> else h1)
      in put_host h2 db)"

definition managedNPSRemark :: "string \<Rightarrow> string" where
  "managedNPSRemark tid = ''tc:'' @ tid"

definition managedNPSHostRemark :: "string \<Rightarrow> string \<Rightarrow> string" where
  "managedNPSHostRemark tid domain = ''tc:'' @ tid @ '':'' @ domain"

definition nps_display_name :: "NpsClient \<Rightarrow> string" where
  "nps_display_name c = (if clWebUserName c = [] then clRemark c else clWebUserName c)"

section \<open>Users become clients\<close>

definition nps_user :: "User \<Rightarrow> bool" where
  "nps_user u \<longleftrightarrow> \<not> (\<not> uEnabled u \<or> uNPSVerifyKey u = [])"

text \<open>The assignments to the client's fields in the first loop of \<^verbatim>\<open>SyncNPSState\<close>.\<close>

definition configure_client :: "User \<Rightarrow> NpsClient \<Rightarrow> NpsClient" where
  "configure_client u c = c\<lparr>clVerifyKey := uNPSVerifyKey u, clRemark := uName u, clStatus := True,
     clWebUserName := uName u, clPortPool := FormatPortRanges (uPortPools u), clConfigConnAllow := True,
     clMaxTunnelNum := uMaxPorts u, clRateLimit := wrap64 (uRateLimit u * 128),
     clFlow := Some ((case clFlow c of None \<Rightarrow> zero_Flow | Some f \<Rightarrow> f)
       \<lparr>flFlowLimit := wrap64 (uFlowLimit u * 1024 * 1024 * 1024)\<rparr>)\<rparr>"

definition sync_user :: "NpsEnv \<Rightarrow> User \<Rightarrow> NpsState \<Rightarrow> NpsState \<times> (nps_error + NpsClient)" where
  "sync_user env u db =
     (let c0 = (case findNPSClient db (uName u) of
            Some c \<Rightarrow> c | None \<Rightarrow> make_NpsClient (uNPSVerifyKey u) False False);
          c1 = configure_client u c0
      in NewClient env c1 (write_client c1 db))"

fun sync_users :: "NpsEnv \<Rightarrow> User list \<Rightarrow> NpsState \<Rightarrow> (string, int) gomap \<Rightarrow>
    NpsState \<times> (nps_error + (string, int) gomap)" where
  "sync_users env [] db clients = (db, Inr clients)"
| "sync_users env (u # us) db clients =
     (if \<not> uEnabled u \<or> uNPSVerifyKey u = [] then sync_users env us db clients
      else (case sync_user env u db of
          (db', Inl e) \<Rightarrow> (db', Inl e)
        | (db', Inr c) \<Rightarrow> sync_users env us db' (mput (uName u) (clId c) clients)))"

section \<open>Tunnels become hosts and tasks\<close>

definition tunnel_target :: "Tunnel \<Rightarrow> string" where
  "tunnel_target t = tLocalIP t @ '':'' @ itoa (tLocalPort t)"

definition configure_host :: "Tunnel \<Rightarrow> int \<Rightarrow> string \<Rightarrow> NpsHost \<Rightarrow> NpsHost" where
  "configure_host t cid domain h = h\<lparr>hoHost := domain, hoTarget := tunnel_target t, hoHeaderChange := [],
     hoHostChange := [], hoRemark := managedNPSHostRemark (tID t) domain, hoLocation := ''/'',
     hoFlow := Some zero_Flow, hoScheme := tMode t, hoClient := cid, hoIsClose := False,
     hoAutoHttps := False\<rparr>"

definition sync_host :: "Tunnel \<Rightarrow> int \<Rightarrow> string \<Rightarrow> NpsState \<Rightarrow> NpsState \<times> nps_error option" where
  "sync_host t cid domain db =
     (let remark = managedNPSHostRemark (tID t) domain;
          (db1, h) = (case findNPSHost db remark of
              Some h0 \<Rightarrow> (let h1 = configure_host t cid domain h0 in (put_host h1 db, h1))
            | None \<Rightarrow> (let (db', n) = GetHostId db in (db', configure_host t cid domain (zero_Host\<lparr>hoId := n\<rparr>))))
      in (case findNPSHostByDomain db1 domain (tMode t) remark of
            Some existing \<Rightarrow> (db1, Some (NpsHostExists (tMode t) domain (hoRemark existing)))
          | None \<Rightarrow> (upsertNPSHost h db1, None)))"

fun sync_hosts :: "Tunnel \<Rightarrow> int \<Rightarrow> string list \<Rightarrow> NpsState \<Rightarrow> string list \<Rightarrow>
    NpsState \<times> string list \<times> nps_error option" where
  "sync_hosts t cid [] db desired = (db, desired, None)"
| "sync_hosts t cid (d # ds) db desired =
     (let desired' = desired @ [managedNPSHostRemark (tID t) d] in
      (case sync_host t cid d db of
         (db', Some e) \<Rightarrow> (db', desired', Some e)
       | (db', None) \<Rightarrow> sync_hosts t cid ds db' desired'))"

definition configure_task :: "Tunnel \<Rightarrow> int \<Rightarrow> NpsTask \<Rightarrow> NpsTask" where
  "configure_task t cid k0 =
     (let k = k0\<lparr>tkPort := tRemotePort t, tkMode := tMode t, tkStatus := True, tkClient := cid,
            tkRemark := managedNPSRemark (tID t), tkTarget := tunnel_target t, tkFlow := Some zero_Flow\<rparr>
      in if tkMode k = ''secret'' \<or> tkMode k = ''p2p'' then k\<lparr>tkPassword := tID t\<rparr> else k)"

definition sync_task :: "NpsEnv \<Rightarrow> Tunnel \<Rightarrow> int \<Rightarrow> NpsState \<Rightarrow> NpsState \<times> nps_error option" where
  "sync_task env t cid db =
     (let (db1, k0) = (case findNPSTask db (managedNPSRemark (tID t)) of
              Some k \<Rightarrow> (db, k)
            | None \<Rightarrow> (let (db', n) = GetTaskId db in (db', zero_Task\<lparr>tkId := n\<rparr>)));
          k = configure_task t cid k0;
          db2 = UpdateTask k db1
      in if ndBridge db2 = None then (db2, None)
         else let db3 = (if tkId k \<in> set (ndRunning db2) then fst (StopServer env (tkId k) db2) else db2);
                  k' = k\<lparr>tkStatus := True\<rparr>
              in AddTask env k' (UpdateTask k' db3))"

definition web_tunnel :: "Tunnel \<Rightarrow> bool" where
  "web_tunnel t \<longleftrightarrow> tMode t = ''http'' \<or> tMode t = ''https''"

text \<open>The second loop; the accumulators are the sets \<^verbatim>\<open>desiredTasks\<close> and \<^verbatim>\<open>desiredHosts\<close>.\<close>

fun sync_tunnels :: "NpsEnv \<Rightarrow> (string, int) gomap \<Rightarrow> Tunnel list \<Rightarrow> NpsState \<Rightarrow> string list \<Rightarrow> string list \<Rightarrow>
    NpsState \<times> (nps_error + string list \<times> string list)" where
  "sync_tunnels env clients [] db tasks hosts = (db, Inr (tasks, hosts))"
| "sync_tunnels env clients (t # ts) db tasks hosts =
     (if tEngine t \<noteq> EngineNPS \<or> \<not> tEnabled t then sync_tunnels env clients ts db tasks hosts
      else (case mget clients (tUserName t) of
          None \<Rightarrow> sync_tunnels env clients ts db tasks hosts
        | Some cid \<Rightarrow>
            if web_tunnel t then
              (case sync_hosts t cid (tDomains t) db hosts of
                 (db', _, Some e) \<Rightarrow> (db', Inl e)
               | (db', hosts', None) \<Rightarrow> sync_tunnels env clients ts db' tasks hosts')
            else
              (case sync_task env t cid db of
                 (db', Some e) \<Rightarrow> (db', Inl e)
               | (db', None) \<Rightarrow> sync_tunnels env clients ts db' (tasks @ [managedNPSRemark (tID t)]) hosts)))"

section \<open>Removing what is no longer wanted\<close>

definition drop_task :: "NpsEnv \<Rightarrow> string list \<Rightarrow> NpsTask \<Rightarrow> NpsState \<Rightarrow> NpsState" where
  "drop_task env desired k db =
     (if \<not> has_prefix (tkRemark k) ''tc:'' \<or> tkRemark k \<in> set desired then db
      else let db1 = (if ndBridge db \<noteq> None \<and> tkId k \<in> set (ndRunning db)
                      then fst (StopServer env (tkId k) db) else db)
           in db_DelTask (tkId k) db1)"

definition drop_host :: "string list \<Rightarrow> NpsHost \<Rightarrow> NpsState \<Rightarrow> NpsState" where
  "drop_host desired h db =
     (if \<not> has_prefix (hoRemark h) ''tc:'' \<or> hoRemark h \<in> set desired then db else DelHost (hoId h) db)"

definition drop_client :: "NpsEnv \<Rightarrow> string list \<Rightarrow> NpsClient \<Rightarrow> NpsState \<Rightarrow> NpsState" where
  "drop_client env desired c db =
     (if nps_display_name c = [] \<or> nps_display_name c \<in> set desired then db
      else let db1 = (if ndBridge db \<noteq> None then DelClientConnect (clId c) db else db)
           in DelClient (clId c) (DelTunnelAndHostByClientId env (clId c) False db1))"

definition sweep_tasks :: "NpsEnv \<Rightarrow> string list \<Rightarrow> NpsState \<Rightarrow> NpsState" where
  "sweep_tasks env desired db = fold (\<lambda>(_, k). drop_task env desired k) (ndTasks db) db"

definition sweep_hosts :: "string list \<Rightarrow> NpsState \<Rightarrow> NpsState" where
  "sweep_hosts desired db = fold (\<lambda>(_, h). drop_host desired h) (ndHosts db) db"

definition sweep_clients :: "NpsEnv \<Rightarrow> string list \<Rightarrow> NpsState \<Rightarrow> NpsState" where
  "sweep_clients env desired db = fold (\<lambda>(_, c). drop_client env desired c) (ndClients db) db"

definition SyncNPSState :: "NpsEnv \<Rightarrow> User list \<Rightarrow> Tunnel list \<Rightarrow> NpsState option \<Rightarrow> NpsState option \<times> nps_error option" where
  "SyncNPSState env users tunnels dbo = (case dbo of
       None \<Rightarrow> (None, None)
     | Some db \<Rightarrow>
         (case sync_users env users db [] of
            (db1, Inl e) \<Rightarrow> (Some db1, Some e)
          | (db1, Inr clients) \<Rightarrow>
              (case sync_tunnels env clients tunnels db1 [] [] of
                 (db2, Inl e) \<Rightarrow> (Some db2, Some e)
               | (db2, Inr (tasks, hosts)) \<Rightarrow>
                   (Some (sweep_clients env (map uName (filter nps_user users))
                      (sweep_hosts hosts (sweep_tasks env tasks db2))), None))))"

section \<open>Reading traffic\<close>

definition add_traffic :: "string \<Rightarrow> NpsFlow \<Rightarrow> (string, TunnelTraffic) gomap \<Rightarrow> (string, TunnelTraffic) gomap" where
  "add_traffic tid f m =
     (let t = (case mget m tid of Some t \<Rightarrow> t
               | None \<Rightarrow> \<lparr>ttTunnelID = tid, ttInletFlow = 0, ttExportFlow = 0\<rparr>)
      in mput tid (t\<lparr>ttInletFlow := wrap64 (ttInletFlow t + flInletFlow f),
                     ttExportFlow := wrap64 (ttExportFlow t + flExportFlow f)\<rparr>) m)"

definition collect_task :: "NpsTask \<Rightarrow> (string, TunnelTraffic) gomap \<Rightarrow> (string, TunnelTraffic) gomap" where
  "collect_task k m = (case tkFlow k of None \<Rightarrow> m
     | Some f \<Rightarrow> if has_prefix (tkRemark k) ''tc:'' then add_traffic (trim_prefix (tkRemark k) ''tc:'') f m else m)"

definition collect_host :: "NpsHost \<Rightarrow> (string, TunnelTraffic) gomap \<Rightarrow> (string, TunnelTraffic) gomap" where
  "collect_host h m = (case hoFlow h of None \<Rightarrow> m
     | Some f \<Rightarrow>
         if has_prefix (hoRemark h) ''tc:'' then
           (let parts = split_on CHR '':'' (hoRemark h) in
            if 2 \<le> length parts then add_traffic (parts ! 1) f m else m)
         else m)"

definition collect_client :: "NpsClient \<Rightarrow> UserTraffic list" where
  "collect_client c = (case clFlow c of None \<Rightarrow> []
     | Some f \<Rightarrow>
         if nps_display_name c \<noteq> []
         then [\<lparr>utUserName = nps_display_name c, utInletFlow = flInletFlow f, utExportFlow = flExportFlow f\<rparr>]
         else [])"

definition CollectNPSTraffic :: "NpsState option \<Rightarrow> TunnelTraffic list \<times> UserTraffic list" where
  "CollectNPSTraffic dbo = (case dbo of
       None \<Rightarrow> ([], [])
     | Some db \<Rightarrow>
         (map snd (fold (\<lambda>(_, h). collect_host h) (ndHosts db) (fold (\<lambda>(_, k). collect_task k) (ndTasks db) [])),
          concat (map (\<lambda>(_, c). collect_client c) (ndClients db))))"

section \<open>Connection states\<close>

record ClientStatus =
  csNodeID :: string
  csUserName :: string
  csEngine :: string
  csClientID :: string
  csClientIP :: string
  csHostname :: string
  csVersion :: string
  csOnline :: bool
  csConnectedAt :: time
  csLastSeenAt :: time
  csDisconnectedAt :: time
  csCurrentConns :: int

text \<open>\<open>parse\<close> stands for \<^verbatim>\<open>time.ParseInLocation\<close> with the layout and zone of the code.\<close>

definition nps_client_status :: "time \<Rightarrow> (string \<Rightarrow> time option) \<Rightarrow> (int, string) gomap option \<Rightarrow> NpsClient \<Rightarrow> ClientStatus" where
  "nps_client_status now parse bridge c =
     (let s0 = \<lparr>csNodeID = [], csUserName = nps_display_name c, csEngine = EngineNPS,
            csClientID = itoa (clId c), csClientIP = clAddr c, csHostname = [], csVersion = clVersion c,
            csOnline = clIsConnect c, csConnectedAt = 0, csLastSeenAt = 0, csDisconnectedAt = 0,
            csCurrentConns = clNowConn c\<rparr>;
          s1 = (case bridge of None \<Rightarrow> s0
                | Some b \<Rightarrow> (case mget b (clId c) of None \<Rightarrow> s0
                    | Some v \<Rightarrow> s0\<lparr>csOnline := True, csLastSeenAt := now, csVersion := v\<rparr>))
      in if clLastOnlineTime c \<noteq> [] then
           (case parse (clLastOnlineTime c) of None \<Rightarrow> s1 | Some t \<Rightarrow> s1\<lparr>csLastSeenAt := t\<rparr>)
         else s1)"

definition NPSClientStatuses :: "time \<Rightarrow> (string \<Rightarrow> time option) \<Rightarrow> NpsState option \<Rightarrow> ClientStatus list" where
  "NPSClientStatuses now parse dbo = (case dbo of
       None \<Rightarrow> []
     | Some db \<Rightarrow> map (\<lambda>(_, c). nps_client_status now parse (ndBridge db) c)
         (filter (\<lambda>(_, c). \<not> clNoDisplay c) (ndClients db)))"

end
