(* ===== verification/SyncClients.thy ===== *)
theory SyncClients
  imports Integrated
begin

text \<open>
  The first loop of \<^verbatim>\<open>SyncNPSState\<close>: what the clients of nps look like after it, and
  the ports their pools admit.
\<close>

lemma find_snd_Some:
  "map_option snd (List.find (\<lambda>(_, v). P v) m) = Some v \<Longrightarrow> \<exists>k. (k, v) \<in> set m \<and> P v"
  by (auto simp: find_Some_iff dest!: nth_mem)

lemma find_snd_None:
  "map_option snd (List.find (\<lambda>(_, v). P v) m) = None \<longleftrightarrow> (\<forall>k v. (k, v) \<in> set m \<longrightarrow> \<not> P v)"
  by (auto simp: find_None_iff)

section \<open>Well-formed tables with a counter\<close>

text \<open>A table keyed by positive ids that its counter has already passed.\<close>

definition counted :: "('v \<Rightarrow> int) \<Rightarrow> (int, 'v) gomap \<Rightarrow> int \<Rightarrow> bool" where
  "counted key m inc \<longleftrightarrow> keyed key m \<and> 0 \<le> inc \<and> list_all (\<lambda>(k, _). 0 < k \<and> k \<le> inc) m"

lemma counted_keyed: "counted key m inc \<Longrightarrow> keyed key m \<and> mwf m \<and> 0 \<le> inc"
  unfolding counted_def by (blast intro: keyed_wf)

lemma counted_range:
  assumes "counted key m inc" "mget m k \<noteq> None" shows "0 < k \<and> k \<le> inc"
proof -
  obtain v where "mget m k = Some v" using assms(2) by (cases "mget m k") auto
  then have "(k, v) \<in> set m" by (rule mget_Some_mem)
  moreover have "\<forall>p \<in> set m. case p of (k, _) \<Rightarrow> 0 < k \<and> k \<le> inc"
    using assms(1) by (simp add: counted_def list_all_iff)
  ultimately show ?thesis by blast
qed

lemma counted_key:
  assumes "counted key m inc" "mget m k = Some v" shows "key v = k \<and> 0 < k \<and> k \<le> inc"
  using assms keyed_mget [of key m k v] counted_range [of key m inc k] by (auto simp: counted_def)

lemma counted_entry:
  assumes "counted key m inc" "(k, v) \<in> set m" shows "mget m k = Some v"
  using mem_mget [of m k v] counted_keyed [OF assms(1)] assms(2) by simp

lemma counted_put:
  assumes "counted key m inc" "key v = k" "0 < k" "k \<le> inc'" "inc \<le> inc'"
  shows "counted key (mput k v m) inc'"
proof -
  have "mwf m" using counted_keyed [OF assms(1)] by blast
  then have "0 < j \<and> j \<le> inc'" if "(j, w) \<in> set (mput k v m)" for j w
  proof (cases "j = k")
    case False
    with that \<open>mwf m\<close> have "(j, w) \<in> set m" by (simp add: gomap_simps)
    from counted_key [OF assms(1) counted_entry [OF assms(1) this]] assms(5) show ?thesis by simp
  qed (use assms in simp)
  moreover have "keyed key (mput k v m)" using counted_keyed [OF assms(1)] assms(2) by (blast intro: keyed_mput)
  moreover have "0 \<le> inc'" using counted_keyed [OF assms(1)] assms(5) by simp
  ultimately show ?thesis unfolding counted_def list_all_iff by blast
qed

lemma counted_fresh: "counted key m inc \<Longrightarrow> mget m (inc + 1) = None"
  using counted_range [of key m inc "inc + 1"] by fastforce

lemma wrap32_next: "0 \<le> x \<Longrightarrow> x < 2 ^ 31 - 1 \<Longrightarrow> wrap32 (x + 1) = x + 1"
  by (simp add: wrap32_def)

lemma mput_mput [simp]: "mput k v (mput k w m) = mput k v m"
  by (simp add: mput_def)

section \<open>One user\<close>

text \<open>What the client of a user must look like after a synchronisation.\<close>

definition serves :: "User \<Rightarrow> NpsClient \<Rightarrow> bool" where
  "serves u c \<longleftrightarrow> clVerifyKey c = uNPSVerifyKey u \<and> clWebUserName c = uName u \<and> clRemark c = uName u \<and>
     clStatus c \<and> clConfigConnAllow c \<and> clPortPool c = FormatPortRanges (uPortPools u) \<and>
     clMaxTunnelNum c = uMaxPorts u \<and> clRateLimit c = wrap64 (uRateLimit u * 128) \<and>
     map_option flFlowLimit (clFlow c) = Some (wrap64 (uFlowLimit u * 1024 * 1024 * 1024)) \<and> clRate c \<noteq> None"

definition clients_ok :: "NpsState \<Rightarrow> bool" where
  "clients_ok db \<longleftrightarrow> counted clId (ndClients db) (ndClientInc db)"

lemma configure_client_Id [simp]: "clId (configure_client u c) = clId c"
  by (simp add: configure_client_def)

lemma NewClient_Inr:
  assumes "NewClient env c0 db = (db', Inr c)" "clVerifyKey c0 \<noteq> []" "clFlow c0 \<noteq> None"
  shows "c = c0\<lparr>clRate := client_rate c0, clId := (if clId c0 = 0 then wrap32 (ndClientInc db + 1) else clId c0)\<rparr>"
    "db' = db\<lparr>ndClients := mput (clId c) c (ndClients db),
       ndClientInc := (if clId c0 = 0 then wrap32 (ndClientInc db + 1) else ndClientInc db)\<rparr>"
  using assms
  by (auto simp: NewClient_def Let_def write_client_def put_client_def GetClientId_def split: if_splits)

lemma sync_user_Inr:
  assumes ok: "clients_ok db" and room: "ndClientInc db < 2 ^ 31 - 1" and u: "nps_user u"
    and s: "sync_user env u db = (db', Inr c)"
  shows "serves u c" "clients_ok db'" "ndClientInc db' \<le> ndClientInc db + 1"
    "db' = db\<lparr>ndClients := mput (clId c) c (ndClients db), ndClientInc := ndClientInc db'\<rparr>"
    "mget (ndClients db) (clId c) = None \<or>
      (\<exists>c0. mget (ndClients db) (clId c) = Some c0 \<and> (clWebUserName c0 = uName u \<or> clRemark c0 = uName u))"
proof -
  have cl: "counted clId (ndClients db) (ndClientInc db)" using ok by (simp add: clients_ok_def)
  define c0 where "c0 = (case findNPSClient db (uName u) of
      Some c \<Rightarrow> c | None \<Rightarrow> make_NpsClient (uNPSVerifyKey u) False False)"
  define c1 where "c1 = configure_client u c0"
  have new: "NewClient env c1 (write_client c1 db) = (db', Inr c)"
    using s by (simp add: sync_user_def c0_def c1_def Let_def)
  have "clVerifyKey c1 \<noteq> []" "clFlow c1 \<noteq> None" using u by (simp_all add: c1_def configure_client_def nps_user_def)
  note N = NewClient_Inr [OF new this]
  have id1: "clId c1 = clId c0" by (simp add: c1_def)
  have found: "clId c0 = 0 \<or> mget (ndClients db) (clId c0) = Some c0 \<and> clId c0 \<noteq> 0 \<and>
      clId c0 \<le> ndClientInc db \<and> 0 < clId c0 \<and> (clWebUserName c0 = uName u \<or> clRemark c0 = uName u)"
  proof (cases "findNPSClient db (uName u)")
    case None
    then show ?thesis by (simp add: c0_def make_NpsClient_def)
  next
    case (Some d)
    then obtain k where k: "(k, d) \<in> set (ndClients db)" "clWebUserName d = uName u \<or> clRemark d = uName u"
      unfolding findNPSClient_def using find_snd_Some by fast
    have "mget (ndClients db) k = Some d" by (rule counted_entry [OF cl k(1)])
    moreover from counted_key [OF cl this] have "clId d = k" "0 < k" "k \<le> ndClientInc db" by simp_all
    ultimately have "mget (ndClients db) (clId d) = Some d" "0 < clId d" "clId d \<le> ndClientInc db" by simp_all
    with Some k(2) show ?thesis by (simp add: c0_def)
  qed
  have inc: "wrap32 (ndClientInc db + 1) = ndClientInc db + 1" "0 \<le> ndClientInc db"
    using wrap32_next counted_keyed [OF cl] room by simp_all
  have w: "ndClientInc (write_client c1 db) = ndClientInc db"
    by (simp add: write_client_def put_client_def)
  show "serves u c"
    unfolding N(1) serves_def by (simp add: c1_def configure_client_def client_rate_def)
  show 4: "db' = db\<lparr>ndClients := mput (clId c) c (ndClients db), ndClientInc := ndClientInc db'\<rparr>"
    using N by (auto simp: write_client_def put_client_def id1 split: if_splits)
  show "ndClientInc db' \<le> ndClientInc db + 1" using N(2) inc by (auto simp: w split: if_splits)
  have id: "clId c = (if clId c0 = 0 then ndClientInc db + 1 else clId c0)"
    using N(1) inc by (simp add: w id1)
  show 5: "mget (ndClients db) (clId c) = None \<or>
      (\<exists>c0. mget (ndClients db) (clId c) = Some c0 \<and> (clWebUserName c0 = uName u \<or> clRemark c0 = uName u))"
    using found id counted_fresh [OF cl] by auto
  have "0 < clId c" "clId c \<le> ndClientInc db'" "ndClientInc db \<le> ndClientInc db'"
    using found id inc N(2) by (auto simp: w id1 split: if_splits)
  then have "counted clId (mput (clId c) c (ndClients db)) (ndClientInc db')"
    by (intro counted_put [OF cl]) simp_all
  moreover have "ndClients db' = mput (clId c) c (ndClients db)" by (subst 4) simp
  ultimately show "clients_ok db'" by (simp add: clients_ok_def)
qed

section \<open>All users\<close>

definition active_names :: "User list \<Rightarrow> string list" where
  "active_names us = map uName (filter nps_user us)"

lemma active_names_simps [simp]:
  "active_names [] = []" "active_names (u # us) = (if nps_user u then uName u # active_names us else active_names us)"
  by (simp_all add: active_names_def)

lemma sync_users_Cons:
  "sync_users env (u # us) db clients =
     (if nps_user u then (case sync_user env u db of
          (db', Inl e) \<Rightarrow> (db', Inl e)
        | (db', Inr c) \<Rightarrow> sync_users env us db' (mput (uName u) (clId c) clients))
      else sync_users env us db clients)"
  by (simp add: nps_user_def)

text \<open>The map \<open>clients\<close> of the code, while the loop runs: it names settled clients of users done.\<close>

definition settled :: "(string, int) gomap \<Rightarrow> NpsState \<Rightarrow> bool" where
  "settled clients db \<longleftrightarrow> mwf clients \<and> (\<forall>n cid. mget clients n = Some cid \<longrightarrow>
     (\<exists>c. mget (ndClients db) cid = Some c \<and> clWebUserName c = n \<and> clRemark c = n))"

lemma settled_put:
  assumes "settled clients db" "mget clients n = None" "clWebUserName c = n" "clRemark c = n"
    and db': "ndClients db' = mput (clId c) c (ndClients db)"
    and own: "mget (ndClients db) (clId c) = None \<or>
      (\<exists>c0. mget (ndClients db) (clId c) = Some c0 \<and> (clWebUserName c0 = n \<or> clRemark c0 = n))"
  shows "settled (mput n (clId c) clients) db'"
    "mget clients m = Some cid \<Longrightarrow> mget (ndClients db') cid = mget (ndClients db) cid"
proof -
  have keep: "mget (ndClients db') cid = mget (ndClients db) cid" if m: "mget clients m = Some cid" for m cid
  proof -
    from assms(1) m obtain d where d: "mget (ndClients db) cid = Some d" "clWebUserName d = m" "clRemark d = m"
      unfolding settled_def by blast
    have "m \<noteq> n" using m assms(2) by auto
    then have "cid \<noteq> clId c" using own d by auto
    then show ?thesis by (simp add: db' gomap_simps)
  qed
  then show "mget clients m = Some cid \<Longrightarrow> mget (ndClients db') cid = mget (ndClients db) cid" .
  have "\<exists>d. mget (ndClients db') cid = Some d \<and> clWebUserName d = m \<and> clRemark d = m"
    if "mget (mput n (clId c) clients) m = Some cid" for m cid
  proof (cases "m = n")
    case True
    with that assms(3,4) show ?thesis by (auto simp: gomap_simps db')
  next
    case False
    with that have m: "mget clients m = Some cid" by (simp add: gomap_simps)
    with assms(1) show ?thesis unfolding settled_def keep [OF m] by blast
  qed
  then show "settled (mput n (clId c) clients) db'"
    using assms(1) by (simp add: settled_def gomap_simps)
qed

lemma sync_users_Inr:
  assumes "sync_users env us db clients = (db', Inr cl)" "clients_ok db" "settled clients db"
    and "distinct (active_names us)" "\<forall>n \<in> set (active_names us). mget clients n = None"
    and "ndClientInc db + int (length us) < 2 ^ 31"
  shows "clients_ok db' \<and> settled cl db' \<and>
    db' = db\<lparr>ndClients := ndClients db', ndClientInc := ndClientInc db'\<rparr> \<and>
    (\<forall>n cid. mget clients n = Some cid \<longrightarrow> mget cl n = Some cid \<and> mget (ndClients db') cid = mget (ndClients db) cid) \<and>
    (\<forall>n. mget cl n \<noteq> None \<longrightarrow> mget clients n \<noteq> None \<or> n \<in> set (active_names us)) \<and>
    (\<forall>u \<in> set us. nps_user u \<longrightarrow> (\<exists>cid c. mget cl (uName u) = Some cid \<and>
       mget (ndClients db') cid = Some c \<and> serves u c)) \<and>
    (\<forall>j c. mget (ndClients db) j = Some c \<longrightarrow> (\<exists>c'. mget (ndClients db') j = Some c' \<and>
       (c' = c \<or> clWebUserName c' \<in> set (active_names us))))"
  using assms
proof (induction us arbitrary: db clients)
  case Nil
  then show ?case by simp
next
  case (Cons u us)
  show ?case
  proof (cases "nps_user u")
    case False
    then have "sync_users env us db clients = (db', Inr cl)" using Cons.prems(1) unfolding sync_users_Cons by simp
    from Cons.IH [OF this Cons.prems(2,3)] Cons.prems(4,5,6) False show ?thesis by simp
  next
    case True
    then obtain d c where s: "sync_user env u db = (d, Inr c)"
      and rest: "sync_users env us d (mput (uName u) (clId c) clients) = (db', Inr cl)"
      using Cons.prems(1) unfolding sync_users_Cons by (auto split: prod.splits sum.splits)
    have room: "ndClientInc db < 2 ^ 31 - 1" using Cons.prems(6) by simp
    note U = sync_user_Inr [OF Cons.prems(2) room True s]
    have new: "mget clients (uName u) = None" using Cons.prems(5) True by simp
    have cl': "ndClients d = mput (clId c) c (ndClients db)" by (subst U(4)) simp
    have served: "clWebUserName c = uName u" "clRemark c = uName u" using U(1) by (simp_all add: serves_def)
    note P = settled_put [OF Cons.prems(3) new served cl' U(5)]
    have fresh: "\<forall>n \<in> set (active_names us). mget (mput (uName u) (clId c) clients) n = None"
      using Cons.prems(4,5) True by (auto simp: gomap_simps)
    have I: "clients_ok db'" "settled cl db'"
      "db' = d\<lparr>ndClients := ndClients db', ndClientInc := ndClientInc db'\<rparr>"
      "\<And>n cid. mget (mput (uName u) (clId c) clients) n = Some cid \<Longrightarrow>
         mget cl n = Some cid \<and> mget (ndClients db') cid = mget (ndClients d) cid"
      "\<And>n. mget cl n \<noteq> None \<Longrightarrow> mget (mput (uName u) (clId c) clients) n \<noteq> None \<or> n \<in> set (active_names us)"
      "\<And>v. v \<in> set us \<Longrightarrow> nps_user v \<Longrightarrow> \<exists>cid c. mget cl (uName v) = Some cid \<and>
         mget (ndClients db') cid = Some c \<and> serves v c"
      and I7: "\<And>j c. mget (ndClients d) j = Some c \<Longrightarrow> \<exists>c'. mget (ndClients db') j = Some c' \<and>
         (c' = c \<or> clWebUserName c' \<in> set (active_names us))"
      using Cons.IH [OF rest U(2) P(1) _ fresh] Cons.prems(4,6) True U(3) by simp_all
    have "db' = db\<lparr>ndClients := ndClients db', ndClientInc := ndClientInc db'\<rparr>"
      by (subst I(3), subst U(4)) simp
    moreover have "mget cl n = Some cid \<and> mget (ndClients db') cid = mget (ndClients db) cid"
      if "mget clients n = Some cid" for n cid
    proof -
      have "n \<noteq> uName u" using that new by auto
      with I(4) [of n cid] P(2) [OF that] that show ?thesis by (simp add: gomap_simps)
    qed
    moreover have "mget clients n \<noteq> None \<or> n \<in> set (active_names (u # us))" if "mget cl n \<noteq> None" for n
      using I(5) [OF that] True by (auto simp: gomap_simps split: if_splits)
    moreover have "\<exists>cid c. mget cl (uName u) = Some cid \<and> mget (ndClients db') cid = Some c \<and> serves u c"
      using I(4) [of "uName u" "clId c"] U(1) by (auto simp: gomap_simps cl')
    moreover have "\<exists>b. mget (ndClients db') j = Some b \<and> (b = a \<or> clWebUserName b \<in> set (active_names (u # us)))"
      if a: "mget (ndClients db) j = Some a" for j a
    proof (cases "j = clId c")
      case True
      then have "mget (ndClients d) j = Some c" by (simp add: cl' gomap_simps)
      from I7 [OF this] served(1) \<open>nps_user u\<close> show ?thesis by auto
    next
      case False
      then have "mget (ndClients d) j = Some a" using a by (simp add: cl' gomap_simps)
      from I7 [OF this] \<open>nps_user u\<close> show ?thesis by auto
    qed
    ultimately show ?thesis using I(1,2,6) by auto
  qed
qed

end
