(* ===== verification/SyncTasks.thy ===== *)
theory SyncTasks
  imports SyncClients
begin

text \<open>
  The second loop and the sweeps of \<^verbatim>\<open>SyncNPSState\<close>: the tasks and hosts of nps are
  made to agree with the wanted tunnels.
\<close>

section \<open>Managed remarks\<close>

definition managed :: "string \<Rightarrow> bool" where
  "managed remark \<longleftrightarrow> has_prefix remark ''tc:''"

lemma managed_task [simp]: "managed (managedNPSRemark i)"
  and managed_host [simp]: "managed (managedNPSHostRemark i d)"
  by (simp_all add: managed_def managedNPSRemark_def managedNPSHostRemark_def has_prefix_def)

lemma task_remark_inj [simp]: "managedNPSRemark i = managedNPSRemark j \<longleftrightarrow> i = j"
  by (simp add: managedNPSRemark_def)

text \<open>Managed rows have distinct remarks: a remark identifies a row.\<close>

definition remarks_ok :: "('v \<Rightarrow> string) \<Rightarrow> (int, 'v) gomap \<Rightarrow> bool" where
  "remarks_ok rem m \<longleftrightarrow> (\<forall>i v j w. mget m i = Some v \<longrightarrow> mget m j = Some w \<longrightarrow> managed (rem v) \<longrightarrow>
     rem v = rem w \<longrightarrow> i = j)"

text \<open>The row at a remark, and what storing a row at its remark does to it.\<close>

definition row_at :: "('v \<Rightarrow> string) \<Rightarrow> (int, 'v) gomap \<Rightarrow> string \<Rightarrow> 'v \<Rightarrow> bool" where
  "row_at rem m r v \<longleftrightarrow> (\<exists>k. mget m k = Some v) \<and> rem v = r"

lemma put_at_remark:
  assumes ok: "remarks_ok rem m" and r: "rem v = r" "managed r"
    and own: "mget m k = None \<and> (\<forall>j w. mget m j = Some w \<longrightarrow> rem w \<noteq> r) \<or> (\<exists>w. mget m k = Some w \<and> rem w = r)"
  shows "remarks_ok rem (mput k v m)"
    "row_at rem (mput k v m) q w \<longleftrightarrow> (if q = r then w = v else row_at rem m q w)"
    "(\<forall>j w. mget m j = Some w \<longrightarrow> rem w \<noteq> r \<longrightarrow> mget (mput k v m) j = Some w)"
proof -
  have other: "rem w \<noteq> r" if "mget m j = Some w" "j \<noteq> k" for j w
    using own
  proof
    assume "mget m k = None \<and> (\<forall>j w. mget m j = Some w \<longrightarrow> rem w \<noteq> r)"
    with that show ?thesis by blast
  next
    assume "\<exists>w. mget m k = Some w \<and> rem w = r"
    then obtain x where x: "mget m k = Some x" "rem x = r" by blast
    show ?thesis
    proof
      assume "rem w = r"
      with x r(2) that(1) ok have "k = j" unfolding remarks_ok_def by metis
      with that(2) show False by simp
    qed
  qed
  have look: "mget (mput k v m) j = (if j = k then Some v else mget m j)" for j
    by (simp add: gomap_simps)
  show "remarks_ok rem (mput k v m)"
    unfolding remarks_ok_def look using ok r other unfolding remarks_ok_def
    by (metis option.inject)
  have old: "rem w = r" if "mget m k = Some w" for w
    using own that by (metis option.distinct(1) option.inject)
  show "row_at rem (mput k v m) q w \<longleftrightarrow> (if q = r then w = v else row_at rem m q w)"
    unfolding row_at_def look using r other old by (metis option.inject)
  show "\<forall>j w. mget m j = Some w \<longrightarrow> rem w \<noteq> r \<longrightarrow> mget (mput k v m) j = Some w"
    unfolding look using old by (metis)
qed

section \<open>One task\<close>

definition tasks_ok :: "NpsState \<Rightarrow> bool" where
  "tasks_ok db \<longleftrightarrow> counted tkId (ndTasks db) (ndTaskInc db) \<and> remarks_ok tkRemark (ndTasks db)"

definition hosts_ok :: "NpsState \<Rightarrow> bool" where
  "hosts_ok db \<longleftrightarrow> counted hoId (ndHosts db) (ndHostInc db) \<and> remarks_ok hoRemark (ndHosts db)"

text \<open>What the task of a tunnel must look like.\<close>

definition runs :: "Tunnel \<Rightarrow> int \<Rightarrow> NpsTask \<Rightarrow> bool" where
  "runs t cid k \<longleftrightarrow> tkRemark k = managedNPSRemark (tID t) \<and> tkPort k = tRemotePort t \<and> tkMode k = tMode t \<and>
     tkStatus k \<and> tkClient k = cid \<and> tkTarget k = tunnel_target t \<and> tkFlow k = Some zero_Flow"

text \<open>An operation on tasks leaves hosts and clients alone.\<close>

definition tasks_only :: "NpsState \<Rightarrow> NpsState \<Rightarrow> bool" where
  "tasks_only db db' \<longleftrightarrow> ndHosts db' = ndHosts db \<and> ndHostInc db' = ndHostInc db \<and>
     ndClients db' = ndClients db \<and> ndClientInc db' = ndClientInc db \<and> ndBridge db' = ndBridge db"

definition hosts_only :: "NpsState \<Rightarrow> NpsState \<Rightarrow> bool" where
  "hosts_only db db' \<longleftrightarrow> ndTasks db' = ndTasks db \<and> ndTaskInc db' = ndTaskInc db \<and>
     ndClients db' = ndClients db \<and> ndClientInc db' = ndClientInc db \<and> ndBridge db' = ndBridge db \<and>
     ndRunning db' = ndRunning db"

lemma StopServer_tasks:
  "ndTasks (fst (StopServer env i db)) = ndTasks db \<or>
     (\<exists>t. mget (ndTasks db) i = Some t \<and> ndTasks (fst (StopServer env i db)) = mput (tkId t) (t\<lparr>tkStatus := False\<rparr>) (ndTasks db))"
  "ndTaskInc (fst (StopServer env i db)) = ndTaskInc db" "tasks_only db (fst (StopServer env i db))"
  by (auto simp: StopServer_def UpdateTask_def put_task_def tasks_only_def Let_def split: option.split)

lemma AddTask_tasks:
  "ndTasks (fst (AddTask env k db)) = ndTasks db" "ndTaskInc (fst (AddTask env k db)) = ndTaskInc db"
  "tasks_only db (fst (AddTask env k db))"
  by (simp_all add: AddTask_def store_running_def tasks_only_def Let_def)

lemma configure_task_Id [simp]: "tkId (configure_task t cid k) = tkId k"
  and configure_task_runs: "runs t cid (configure_task t cid k)"
  by (simp_all add: configure_task_def runs_def Let_def)

lemma tasks_only_trans: "tasks_only a b \<Longrightarrow> tasks_only b c \<Longrightarrow> tasks_only a c"
  by (simp add: tasks_only_def)

lemma sync_task_db:
  assumes s: "sync_task env t cid db = (db', r)" and ok: "tasks_ok db" and room: "ndTaskInc db < 2 ^ 31 - 1"
  shows "\<exists>k. runs t cid k \<and> ndTasks db' = mput (tkId k) k (ndTasks db) \<and> 0 < tkId k \<and> tkId k \<le> ndTaskInc db' \<and>
    ndTaskInc db \<le> ndTaskInc db' \<and> ndTaskInc db' \<le> ndTaskInc db + 1 \<and> tasks_only db db' \<and>
    (mget (ndTasks db) (tkId k) = None \<and> (\<forall>j w. mget (ndTasks db) j = Some w \<longrightarrow> tkRemark w \<noteq> managedNPSRemark (tID t)) \<or>
     (\<exists>w. mget (ndTasks db) (tkId k) = Some w \<and> tkRemark w = managedNPSRemark (tID t)))"
proof -
  let ?r = "managedNPSRemark (tID t)"
  have cnt: "counted tkId (ndTasks db) (ndTaskInc db)" using ok by (simp add: tasks_ok_def)
  obtain db1 k0 where 1: "(case findNPSTask db ?r of Some k \<Rightarrow> (db, k)
      | None \<Rightarrow> (let (db', n) = GetTaskId db in (db', zero_Task\<lparr>tkId := n\<rparr>))) = (db1, k0)" by fastforce
  have start: "ndTasks db1 = ndTasks db \<and> tasks_only db db1 \<and> ndTaskInc db \<le> ndTaskInc db1 \<and>
      ndTaskInc db1 \<le> ndTaskInc db + 1 \<and> 0 < tkId k0 \<and> tkId k0 \<le> ndTaskInc db1 \<and>
      (mget (ndTasks db) (tkId k0) = None \<and> (\<forall>j w. mget (ndTasks db) j = Some w \<longrightarrow> tkRemark w \<noteq> ?r) \<or>
       (\<exists>w. mget (ndTasks db) (tkId k0) = Some w \<and> tkRemark w = ?r))"
  proof (cases "findNPSTask db ?r")
    case None
    have "wrap32 (ndTaskInc db + 1) = ndTaskInc db + 1" "0 \<le> ndTaskInc db"
      using wrap32_next counted_keyed [OF cnt] room by simp_all
    moreover have "\<forall>j w. mget (ndTasks db) j = Some w \<longrightarrow> tkRemark w \<noteq> ?r"
      using None mget_Some_mem [of "ndTasks db"] unfolding findNPSTask_def find_snd_None by metis
    ultimately show ?thesis
      using 1 None counted_fresh [OF cnt] by (auto simp: GetTaskId_def tasks_only_def Let_def)
  next
    case (Some k)
    then obtain j where j: "(j, k) \<in> set (ndTasks db)" "tkRemark k = ?r"
      unfolding findNPSTask_def using find_snd_Some by fast
    have g: "mget (ndTasks db) j = Some k" by (rule counted_entry [OF cnt j(1)])
    with counted_key [OF cnt g] j(2) 1 Some show ?thesis by (auto simp: tasks_only_def)
  qed
  define k where "k = configure_task t cid k0"
  define db2 where "db2 = UpdateTask k db1"
  have id: "tkId k = tkId k0" by (simp add: k_def)
  have runs: "runs t cid k" by (simp add: k_def configure_task_runs)
  have db2: "ndTasks db2 = mput (tkId k) k (ndTasks db)" "ndTaskInc db2 = ndTaskInc db1" "tasks_only db db2"
    using start by (simp_all add: db2_def UpdateTask_def put_task_def tasks_only_def)
  have fin: ?thesis if "ndTasks db' = mput (tkId k) k (ndTasks db)" "ndTaskInc db' = ndTaskInc db1" "tasks_only db db'"
    using that start runs unfolding id [symmetric] by (intro exI [of _ k]) auto
  show ?thesis
  proof (cases "ndBridge db2 = None")
    case True
    then have "db' = db2" using s 1 by (simp add: sync_task_def k_def db2_def Let_def)
    then show ?thesis using fin db2 by simp
  next
    case False
    define db3 where "db3 = (if tkId k \<in> set (ndRunning db2) then fst (StopServer env (tkId k) db2) else db2)"
    have st: "k\<lparr>tkStatus := True\<rparr> = k" using runs by (simp add: runs_def)
    have db': "db' = fst (AddTask env k (UpdateTask k db3))"
      using s 1 False st unfolding sync_task_def by (simp add: k_def [symmetric] db2_def [symmetric] db3_def [symmetric])
    have "ndTasks db3 = ndTasks db2 \<or> ndTasks db3 = mput (tkId k) (k\<lparr>tkStatus := False\<rparr>) (ndTasks db2)"
      using StopServer_tasks(1) [where env = env and i = "tkId k" and db = db2] by (auto simp: db3_def db2 gomap_simps)
    then have "ndTasks (UpdateTask k db3) = mput (tkId k) k (ndTasks db)"
      by (auto simp: UpdateTask_def put_task_def db2)
    moreover have "ndTaskInc db3 = ndTaskInc db1" "tasks_only db2 db3"
      using StopServer_tasks(2,3) by (auto simp: db3_def db2 tasks_only_def)
    ultimately show ?thesis
      using AddTask_tasks [where env = env and k = k and db = "UpdateTask k db3"] db2(3)
      by (intro fin) (simp_all add: db' UpdateTask_def put_task_def tasks_only_def)
  qed
qed

section \<open>Tables that evolve at given remarks\<close>

definition evolves :: "('v \<Rightarrow> string) \<Rightarrow> string set \<Rightarrow> (int, 'v) gomap \<Rightarrow> (int, 'v) gomap \<Rightarrow> bool" where
  "evolves rem R m m' \<longleftrightarrow>
     (\<forall>j w. mget m j = Some w \<longrightarrow> rem w \<notin> R \<longrightarrow> mget m' j = Some w) \<and>
     (\<forall>j w. mget m' j = Some w \<longrightarrow> rem w \<in> R \<or> mget m j = Some w)"

lemma evolves_refl [simp]: "evolves rem R m m"
  by (simp add: evolves_def)

lemma evolves_trans: "evolves rem R a b \<Longrightarrow> evolves rem S b c \<Longrightarrow> evolves rem (R \<union> S) a c"
  unfolding evolves_def by (meson UnCI)

lemma evolves_mono: "evolves rem R a b \<Longrightarrow> R \<subseteq> S \<Longrightarrow> evolves rem S a b"
  unfolding evolves_def by (meson subsetD)

lemma evolves_row: "evolves rem R m m' \<Longrightarrow> row_at rem m q v \<Longrightarrow> q \<notin> R \<Longrightarrow> row_at rem m' q v"
  unfolding evolves_def row_at_def by meson

definition own_row :: "('v \<Rightarrow> string) \<Rightarrow> (int, 'v) gomap \<Rightarrow> int \<Rightarrow> string \<Rightarrow> bool" where
  "own_row rem m k r \<longleftrightarrow> mget m k = None \<and> (\<forall>j w. mget m j = Some w \<longrightarrow> rem w \<noteq> r) \<or>
     (\<exists>w. mget m k = Some w \<and> rem w = r)"

lemma put_evolves:
  assumes "remarks_ok rem m" "rem v = r" "managed r" "own_row rem m k r"
  shows "remarks_ok rem (mput k v m)" "evolves rem {r} m (mput k v m)" "row_at rem (mput k v m) r v"
proof -
  note P = put_at_remark [OF assms(1-3) assms(4) [unfolded own_row_def]]
  show "remarks_ok rem (mput k v m)" by (rule P(1))
  show "row_at rem (mput k v m) r v" using P(2) [of r v] by simp
  have "mget (mput k v m) j = Some w \<longrightarrow> rem w \<in> {r} \<or> mget m j = Some w" for j w
    using assms(2) by (auto simp: gomap_simps)
  with P(3) show "evolves rem {r} m (mput k v m)" unfolding evolves_def by blast
qed

lemma sync_task_step:
  assumes "sync_task env t cid db = (db', r)" "tasks_ok db" "ndTaskInc db < 2 ^ 31 - 1"
  shows "tasks_ok db'" "tasks_only db db'" "ndTaskInc db' \<le> ndTaskInc db + 1"
    "evolves tkRemark {managedNPSRemark (tID t)} (ndTasks db) (ndTasks db')"
    "\<exists>k. row_at tkRemark (ndTasks db') (managedNPSRemark (tID t)) k \<and> runs t cid k"
proof -
  from sync_task_db [OF assms] obtain k where k: "runs t cid k" "ndTasks db' = mput (tkId k) k (ndTasks db)"
    "0 < tkId k" "tkId k \<le> ndTaskInc db'" "ndTaskInc db \<le> ndTaskInc db'"
    and inc: "ndTaskInc db' \<le> ndTaskInc db + 1" and only: "tasks_only db db'"
    and own: "own_row tkRemark (ndTasks db) (tkId k) (managedNPSRemark (tID t))"
    unfolding own_row_def by blast
  have ok: "counted tkId (ndTasks db) (ndTaskInc db)" "remarks_ok tkRemark (ndTasks db)"
    using assms(2) by (simp_all add: tasks_ok_def)
  have rem: "tkRemark k = managedNPSRemark (tID t)" using k(1) by (simp add: runs_def)
  note P = put_evolves [OF ok(2) rem managed_task own]
  have "counted tkId (mput (tkId k) k (ndTasks db)) (ndTaskInc db')"
    using k(3-5) by (intro counted_put [OF ok(1)]) simp_all
  with P(1) show "tasks_ok db'" by (simp add: tasks_ok_def k(2))
  show "tasks_only db db'" "ndTaskInc db' \<le> ndTaskInc db + 1" by (fact only, fact inc)
  show "evolves tkRemark {managedNPSRemark (tID t)} (ndTasks db) (ndTasks db')"
    using P(2) by (simp add: k(2))
  show "\<exists>k. row_at tkRemark (ndTasks db') (managedNPSRemark (tID t)) k \<and> runs t cid k"
    using P(3) k(1) by (auto simp: k(2))
qed

section \<open>One host\<close>

definition fronts :: "Tunnel \<Rightarrow> int \<Rightarrow> string \<Rightarrow> NpsHost \<Rightarrow> bool" where
  "fronts t cid d h \<longleftrightarrow> hoRemark h = managedNPSHostRemark (tID t) d \<and> hoHost h = d \<and> hoScheme h = tMode t \<and>
     hoLocation h = ''/'' \<and> hoTarget h = tunnel_target t \<and> hoClient h = cid \<and> \<not> hoIsClose h \<and>
     \<not> hoAutoHttps h \<and> hoFlow h = Some zero_Flow"

lemma configure_host_facts [simp]:
  "hoId (configure_host t cid d h) = hoId h" "fronts t cid d (configure_host t cid d h)"
  "hoRemark (configure_host t cid d h) = managedNPSHostRemark (tID t) d"
  "hoLocation (configure_host t cid d h) \<noteq> []" "hoFlow (configure_host t cid d h) = Some zero_Flow"
  by (simp_all add: configure_host_def fronts_def)

text \<open>Two hosts that answer the same requests.\<close>

definition same_site :: "string \<Rightarrow> string \<Rightarrow> NpsHost \<Rightarrow> bool" where
  "same_site d scheme h \<longleftrightarrow> hoHost h = d \<and> hoLocation h = ''/'' \<and> (hoScheme h = scheme \<or> hoScheme h = ''all'')"

lemma sync_host_step:
  assumes s: "sync_host t cid d db = (db', None)" and ok: "hosts_ok db" and room: "ndHostInc db < 2 ^ 31 - 1"
  shows "hosts_ok db'" "hosts_only db db'" "ndHostInc db' \<le> ndHostInc db + 1"
    "evolves hoRemark {managedNPSHostRemark (tID t) d} (ndHosts db) (ndHosts db')"
    "\<exists>h. row_at hoRemark (ndHosts db') (managedNPSHostRemark (tID t) d) h \<and> fronts t cid d h"
    "\<forall>j w. mget (ndHosts db') j = Some w \<longrightarrow> hoRemark w \<noteq> managedNPSHostRemark (tID t) d \<longrightarrow> \<not> same_site d (tMode t) w"
proof -
  let ?r = "managedNPSHostRemark (tID t) d"
  have cnt: "counted hoId (ndHosts db) (ndHostInc db)" and rems: "remarks_ok hoRemark (ndHosts db)"
    using ok by (simp_all add: hosts_ok_def)
  obtain db1 h where 1: "(case findNPSHost db ?r of
              Some h0 \<Rightarrow> (let h1 = configure_host t cid d h0 in (put_host h1 db, h1))
            | None \<Rightarrow> (let (db', n) = GetHostId db in (db', configure_host t cid d (zero_Host\<lparr>hoId := n\<rparr>)))) = (db1, h)"
    by fastforce
  have h: "fronts t cid d h" "hoRemark h = ?r" "hoLocation h \<noteq> []" "hoFlow h = Some zero_Flow"
    using 1 by (auto simp: GetHostId_def Let_def split: option.splits)
  have none: "findNPSHostByDomain db1 d (tMode t) ?r = None" and db': "db' = put_host h db1"
    using s 1 h unfolding sync_host_def by (auto simp: upsertNPSHost_def Let_def split: option.splits)
  have start: "(ndHosts db1 = ndHosts db \<or> ndHosts db1 = mput (hoId h) h (ndHosts db)) \<and> hosts_only db db1 \<and>
      ndHostInc db \<le> ndHostInc db1 \<and> ndHostInc db1 \<le> ndHostInc db + 1 \<and> 0 < hoId h \<and> hoId h \<le> ndHostInc db1 \<and>
      own_row hoRemark (ndHosts db) (hoId h) ?r"
  proof (cases "findNPSHost db ?r")
    case None
    have "wrap32 (ndHostInc db + 1) = ndHostInc db + 1" "0 \<le> ndHostInc db"
      using wrap32_next counted_keyed [OF cnt] room by simp_all
    moreover have "\<forall>j w. mget (ndHosts db) j = Some w \<longrightarrow> hoRemark w \<noteq> ?r"
      using None mget_Some_mem [of "ndHosts db"] unfolding findNPSHost_def find_snd_None by metis
    ultimately show ?thesis
      using 1 None counted_fresh [OF cnt] by (auto simp: GetHostId_def hosts_only_def own_row_def Let_def)
  next
    case (Some h0)
    then obtain j where j: "(j, h0) \<in> set (ndHosts db)" "hoRemark h0 = ?r"
      unfolding findNPSHost_def using find_snd_Some by fast
    have g: "mget (ndHosts db) j = Some h0" by (rule counted_entry [OF cnt j(1)])
    with counted_key [OF cnt g] j(2) 1 Some show ?thesis
      by (auto simp: hosts_only_def own_row_def put_host_def Let_def)
  qed
  then have hosts: "ndHosts db' = mput (hoId h) h (ndHosts db)" and inc: "ndHostInc db' = ndHostInc db1"
    and only: "hosts_only db db'" and own: "own_row hoRemark (ndHosts db) (hoId h) ?r"
    by (auto simp: db' put_host_def hosts_only_def)
  note P = put_evolves [OF rems h(2) managed_host own]
  have "counted hoId (mput (hoId h) h (ndHosts db)) (ndHostInc db')"
    using start inc by (intro counted_put [OF cnt]) simp_all
  with P(1) show "hosts_ok db'" by (simp add: hosts_ok_def hosts)
  show "hosts_only db db'" by (fact only)
  show "ndHostInc db' \<le> ndHostInc db + 1" using start inc by simp
  show "evolves hoRemark {?r} (ndHosts db) (ndHosts db')" using P(2) by (simp add: hosts)
  show "\<exists>h. row_at hoRemark (ndHosts db') ?r h \<and> fronts t cid d h" using P(3) h(1) by (auto simp: hosts)
  show "\<forall>j w. mget (ndHosts db') j = Some w \<longrightarrow> hoRemark w \<noteq> ?r \<longrightarrow> \<not> same_site d (tMode t) w"
  proof (intro allI impI)
    fix j w assume w: "mget (ndHosts db') j = Some w" "hoRemark w \<noteq> ?r"
    then have "j \<noteq> hoId h" using h(2) by (auto simp: hosts gomap_simps)
    with w have "mget (ndHosts db1) j = Some w" using start by (auto simp: hosts gomap_simps)
    then have "(j, w) \<in> set (ndHosts db1)" by (rule mget_Some_mem)
    with none w(2) show "\<not> same_site d (tMode t) w"
      unfolding findNPSHostByDomain_def find_snd_None same_site_def by blast
  qed
qed

section \<open>All hosts of a tunnel\<close>

definition host_remarks :: "Tunnel \<Rightarrow> string list" where
  "host_remarks t = map (managedNPSHostRemark (tID t)) (tDomains t)"

text \<open>A settled host: it is there, it has its fields, and nothing else answers for its site.\<close>

definition site_ok :: "NpsState \<Rightarrow> Tunnel \<Rightarrow> int \<Rightarrow> string \<Rightarrow> bool" where
  "site_ok db t cid d \<longleftrightarrow>
     (\<exists>h. row_at hoRemark (ndHosts db) (managedNPSHostRemark (tID t) d) h \<and> fronts t cid d h)"

lemma hosts_only_trans: "hosts_only a b \<Longrightarrow> hosts_only b c \<Longrightarrow> hosts_only a c"
  by (simp add: hosts_only_def)

lemma hosts_only_refl [simp]: "hosts_only a a"
  by (simp add: hosts_only_def)

lemma tasks_only_refl [simp]: "tasks_only a a"
  by (simp add: tasks_only_def)

lemma sync_hosts_run:
  assumes "sync_hosts t cid ds db acc = (db', acc', None)" "hosts_ok db" "ndHostInc db + int (length ds) < 2 ^ 31"
    and "distinct (map (managedNPSHostRemark (tID t)) ds)"
  shows "hosts_ok db' \<and> hosts_only db db' \<and> ndHostInc db' \<le> ndHostInc db + int (length ds) \<and>
    evolves hoRemark (set (map (managedNPSHostRemark (tID t)) ds)) (ndHosts db) (ndHosts db') \<and>
    (\<forall>d \<in> set ds. site_ok db' t cid d) \<and> acc' = acc @ map (managedNPSHostRemark (tID t)) ds"
  using assms
proof (induction ds arbitrary: db acc)
  case (Cons d ds)
  let ?r = "managedNPSHostRemark (tID t)"
  obtain db1 where 1: "sync_host t cid d db = (db1, None)"
    and rest: "sync_hosts t cid ds db1 (acc @ [?r d]) = (db', acc', None)"
    using Cons.prems(1) by (auto simp: Let_def split: prod.splits option.splits)
  have room: "ndHostInc db < 2 ^ 31 - 1" using Cons.prems(3) by simp
  note S = sync_host_step [OF 1 Cons.prems(2) room]
  have I: "hosts_ok db'" "hosts_only db1 db'" "ndHostInc db' \<le> ndHostInc db1 + int (length ds)"
    "evolves hoRemark (set (map ?r ds)) (ndHosts db1) (ndHosts db')" "\<forall>d \<in> set ds. site_ok db' t cid d"
    "acc' = (acc @ [?r d]) @ map ?r ds"
    using Cons.IH [OF rest S(1)] S(3) Cons.prems(3,4) by simp_all
  have "site_ok db' t cid d"
  proof -
    obtain h where h: "row_at hoRemark (ndHosts db1) (?r d) h" "fronts t cid d h" using S(5) by blast
    have "?r d \<notin> set (map ?r ds)" using Cons.prems(4) by simp
    from evolves_row [OF I(4) h(1) this] h(2) show ?thesis unfolding site_ok_def by blast
  qed
  moreover have "evolves hoRemark (set (map ?r (d # ds))) (ndHosts db) (ndHosts db')"
    using evolves_trans [OF S(4) I(4)] by simp
  ultimately show ?case using I S(3) hosts_only_trans [OF S(2) I(2)] by simp
qed simp

section \<open>All tunnels\<close>

definition wanted :: "(string, int) gomap \<Rightarrow> Tunnel \<Rightarrow> bool" where
  "wanted clients t \<longleftrightarrow> tEngine t = EngineNPS \<and> tEnabled t \<and> mget clients (tUserName t) \<noteq> None"

definition task_ok :: "(string, int) gomap \<Rightarrow> NpsState \<Rightarrow> Tunnel \<Rightarrow> bool" where
  "task_ok clients db t \<longleftrightarrow> (\<exists>cid k. mget clients (tUserName t) = Some cid \<and>
     row_at tkRemark (ndTasks db) (managedNPSRemark (tID t)) k \<and> runs t cid k)"

definition sites_ok :: "(string, int) gomap \<Rightarrow> NpsState \<Rightarrow> Tunnel \<Rightarrow> bool" where
  "sites_ok clients db t \<longleftrightarrow> (\<exists>cid. mget clients (tUserName t) = Some cid \<and> (\<forall>d \<in> set (tDomains t). site_ok db t cid d))"

definition task_remarks :: "(string, int) gomap \<Rightarrow> Tunnel list \<Rightarrow> string list" where
  "task_remarks clients ts = map (\<lambda>t. managedNPSRemark (tID t)) (filter (\<lambda>t. wanted clients t \<and> \<not> web_tunnel t) ts)"

definition site_remarks :: "(string, int) gomap \<Rightarrow> Tunnel list \<Rightarrow> string list" where
  "site_remarks clients ts = concat (map host_remarks (filter (\<lambda>t. wanted clients t \<and> web_tunnel t) ts))"

lemma remarks_simps [simp]:
  "task_remarks clients [] = []" "site_remarks clients [] = []"
  "task_remarks clients (t # ts) = (if wanted clients t \<and> \<not> web_tunnel t
     then managedNPSRemark (tID t) # task_remarks clients ts else task_remarks clients ts)"
  "site_remarks clients (t # ts) = (if wanted clients t \<and> web_tunnel t
     then host_remarks t @ site_remarks clients ts else site_remarks clients ts)"
  by (simp_all add: task_remarks_def site_remarks_def)

lemma task_ok_evolves:
  assumes "task_ok clients db t" "evolves tkRemark R (ndTasks db) (ndTasks db')" "managedNPSRemark (tID t) \<notin> R"
  shows "task_ok clients db' t"
proof -
  obtain cid k where "mget clients (tUserName t) = Some cid" "runs t cid k"
    "row_at tkRemark (ndTasks db) (managedNPSRemark (tID t)) k"
    using assms(1) unfolding task_ok_def by blast
  with evolves_row [OF assms(2) this(3) assms(3)] show ?thesis unfolding task_ok_def by blast
qed

lemma sites_ok_evolves:
  assumes "sites_ok clients db t" "evolves hoRemark R (ndHosts db) (ndHosts db')" "set (host_remarks t) \<inter> R = {}"
  shows "sites_ok clients db' t"
proof -
  obtain cid where c: "mget clients (tUserName t) = Some cid" "\<forall>d \<in> set (tDomains t). site_ok db t cid d"
    using assms(1) unfolding sites_ok_def by blast
  have "site_ok db' t cid d" if d: "d \<in> set (tDomains t)" for d
  proof -
    obtain h where h: "row_at hoRemark (ndHosts db) (managedNPSHostRemark (tID t) d) h" "fronts t cid d h"
      using c(2) d unfolding site_ok_def by blast
    have "managedNPSHostRemark (tID t) d \<notin> R" using d assms(3) by (auto simp: host_remarks_def)
    from evolves_row [OF assms(2) h(1) this] h(2) show ?thesis unfolding site_ok_def by blast
  qed
  with c(1) show ?thesis unfolding sites_ok_def by blast
qed

definition same_clients :: "NpsState \<Rightarrow> NpsState \<Rightarrow> bool" where
  "same_clients db db' \<longleftrightarrow> ndClients db' = ndClients db \<and> ndClientInc db' = ndClientInc db \<and> ndBridge db' = ndBridge db"

definition total_domains :: "Tunnel list \<Rightarrow> nat" where
  "total_domains ts = length (concat (map tDomains ts))"

lemma total_domains_simps [simp]:
  "total_domains [] = 0" "total_domains (t # ts) = length (tDomains t) + total_domains ts"
  by (simp_all add: total_domains_def)

lemma sync_tunnels_run:
  assumes "sync_tunnels env cl ts db tasks hosts = (db', Inr (tasks', hosts'))" "tasks_ok db" "hosts_ok db"
    and "ndTaskInc db + int (length ts) < 2 ^ 31" "ndHostInc db + int (total_domains ts) < 2 ^ 31"
    and "distinct (task_remarks cl ts)" "distinct (site_remarks cl ts)"
  shows "tasks_ok db' \<and> hosts_ok db' \<and> same_clients db db' \<and>
    evolves tkRemark (set (task_remarks cl ts)) (ndTasks db) (ndTasks db') \<and>
    evolves hoRemark (set (site_remarks cl ts)) (ndHosts db) (ndHosts db') \<and>
    (\<forall>t \<in> set ts. wanted cl t \<longrightarrow> (if web_tunnel t then sites_ok cl db' t else task_ok cl db' t)) \<and>
    tasks' = tasks @ task_remarks cl ts \<and> hosts' = hosts @ site_remarks cl ts"
  using assms
proof (induction ts arbitrary: db tasks hosts)
  case Nil
  then show ?case by (simp add: same_clients_def)
next
  case (Cons t ts)
  show ?case
  proof (cases "wanted cl t")
    case False
    then have "sync_tunnels env cl ts db tasks hosts = (db', Inr (tasks', hosts'))"
      using Cons.prems(1) by (auto simp: wanted_def split: option.splits if_splits)
    from Cons.IH [OF this Cons.prems(2,3)] Cons.prems(4-) False show ?thesis by simp
  next
    case True
    then obtain cid where cid: "mget cl (tUserName t) = Some cid" by (auto simp: wanted_def)
    show ?thesis
    proof (cases "web_tunnel t")
      case web: True
      obtain db1 hosts1 where 1: "sync_hosts t cid (tDomains t) db hosts = (db1, hosts1, None)"
        and rest: "sync_tunnels env cl ts db1 tasks hosts1 = (db', Inr (tasks', hosts'))"
        using Cons.prems(1) True web cid by (auto simp: wanted_def split: prod.splits option.splits)
      have "distinct (host_remarks t)" using Cons.prems(7) True web by simp
      then have H: "hosts_ok db1" "hosts_only db db1" "ndHostInc db1 \<le> ndHostInc db + int (length (tDomains t))"
        "evolves hoRemark (set (host_remarks t)) (ndHosts db) (ndHosts db1)"
        "\<forall>d \<in> set (tDomains t). site_ok db1 t cid d" "hosts1 = hosts @ host_remarks t"
        using sync_hosts_run [OF 1 Cons.prems(3)] Cons.prems(5) by (simp_all add: host_remarks_def)
      have same: "ndTasks db1 = ndTasks db" "ndTaskInc db1 = ndTaskInc db" "tasks_ok db1"
        using H(2) Cons.prems(2) by (simp_all add: hosts_only_def tasks_ok_def)
      have I: "tasks_ok db'" "hosts_ok db'" "same_clients db1 db'"
        "evolves tkRemark (set (task_remarks cl ts)) (ndTasks db1) (ndTasks db')"
        "evolves hoRemark (set (site_remarks cl ts)) (ndHosts db1) (ndHosts db')"
        "\<forall>t \<in> set ts. wanted cl t \<longrightarrow> (if web_tunnel t then sites_ok cl db' t else task_ok cl db' t)"
        "tasks' = tasks @ task_remarks cl ts" "hosts' = hosts1 @ site_remarks cl ts"
        using Cons.IH [OF rest same(3) H(1)] Cons.prems(4-7) True web H(3) same by simp_all
      have "sites_ok cl db1 t" using H(5) cid unfolding sites_ok_def by blast
      then have "sites_ok cl db' t"
        by (rule sites_ok_evolves [OF _ I(5)]) (use Cons.prems(7) True web in simp)
      moreover have "evolves hoRemark (set (site_remarks cl (t # ts))) (ndHosts db) (ndHosts db')"
        using evolves_trans [OF H(4) I(5)] True web by simp
      moreover have "same_clients db db'" using I(3) H(2) by (simp add: same_clients_def hosts_only_def)
      ultimately show ?thesis using I True web same H(6) by simp
    next
      case port: False
      obtain db1 where 1: "sync_task env t cid db = (db1, None)"
        and rest: "sync_tunnels env cl ts db1 (tasks @ [managedNPSRemark (tID t)]) hosts = (db', Inr (tasks', hosts'))"
        using Cons.prems(1) True port cid by (auto simp: wanted_def split: prod.splits option.splits)
      have room: "ndTaskInc db < 2 ^ 31 - 1" using Cons.prems(4) by simp
      note S = sync_task_step [OF 1 Cons.prems(2) room]
      have same: "ndHosts db1 = ndHosts db" "ndHostInc db1 = ndHostInc db" "hosts_ok db1"
        using S(2) Cons.prems(3) by (simp_all add: tasks_only_def hosts_ok_def)
      have I: "tasks_ok db'" "hosts_ok db'" "same_clients db1 db'"
        "evolves tkRemark (set (task_remarks cl ts)) (ndTasks db1) (ndTasks db')"
        "evolves hoRemark (set (site_remarks cl ts)) (ndHosts db1) (ndHosts db')"
        "\<forall>t \<in> set ts. wanted cl t \<longrightarrow> (if web_tunnel t then sites_ok cl db' t else task_ok cl db' t)"
        "tasks' = (tasks @ [managedNPSRemark (tID t)]) @ task_remarks cl ts" "hosts' = hosts @ site_remarks cl ts"
        using Cons.IH [OF rest S(1) same(3)] Cons.prems(4-7) True port S(3) same by simp_all
      have "task_ok cl db1 t" using S(5) cid unfolding task_ok_def by blast
      then have "task_ok cl db' t"
        by (rule task_ok_evolves [OF _ I(4)]) (use Cons.prems(6) True port in simp)
      moreover have "evolves tkRemark (set (task_remarks cl (t # ts))) (ndTasks db) (ndTasks db')"
        using evolves_trans [OF S(4) I(4)] True port by simp
      moreover have "same_clients db db'" using I(3) S(2) by (simp add: same_clients_def tasks_only_def)
      ultimately show ?thesis using I True port same by simp
    qed
  qed
qed

end
