(* ===== verification/SyncSweep.thy ===== *)
theory SyncSweep
  imports SyncTasks
begin

text \<open>
  The last three loops of \<^verbatim>\<open>SyncNPSState\<close>, which remove the tasks, hosts and clients
  that are no longer wanted.
\<close>

section \<open>Tasks\<close>

definition stale :: "string list \<Rightarrow> string \<Rightarrow> bool" where
  "stale desired remark \<longleftrightarrow> managed remark \<and> remark \<notin> set desired"

lemma StopServer_lookup:
  assumes "keyed tkId (ndTasks db)"
  shows "keyed tkId (ndTasks (fst (StopServer env i db)))"
    "j \<noteq> i \<Longrightarrow> mget (ndTasks (fst (StopServer env i db))) j = mget (ndTasks db) j"
    "snd (StopServer env i db) \<noteq> None \<Longrightarrow> fst (StopServer env i db) = db"
proof -
  have id: "tkId t = i" if "mget (ndTasks db) i = Some t" for t
    by (rule keyed_mget [OF assms that])
  show "keyed tkId (ndTasks (fst (StopServer env i db)))"
    using StopServer_tasks(1) [where env = env and i = i and db = db] assms id by (auto simp: keyed_mput)
  show "j \<noteq> i \<Longrightarrow> mget (ndTasks (fst (StopServer env i db))) j = mget (ndTasks db) j"
    using StopServer_tasks(1) [where env = env and i = i and db = db] id by (auto simp: gomap_simps)
  show "snd (StopServer env i db) \<noteq> None \<Longrightarrow> fst (StopServer env i db) = db"
    by (auto simp: StopServer_def Let_def split: option.splits if_splits)
qed

lemma drop_task_step:
  assumes "keyed tkId (ndTasks db)"
  shows "keyed tkId (ndTasks (drop_task env des k db))"
    "mget (ndTasks (drop_task env des k db)) j = (if stale des (tkRemark k) \<and> j = tkId k then None else mget (ndTasks db) j)"
    "tasks_only db (drop_task env des k db)"
proof -
  define db1 where "db1 = (if ndBridge db \<noteq> None \<and> tkId k \<in> set (ndRunning db) then fst (StopServer env (tkId k) db) else db)"
  have d: "drop_task env des k db = (if stale des (tkRemark k) then db_DelTask (tkId k) db1 else db)"
    by (simp add: drop_task_def stale_def managed_def db1_def)
  have 1: "keyed tkId (ndTasks db1)" "j \<noteq> tkId k \<Longrightarrow> mget (ndTasks db1) j = mget (ndTasks db) j"
    "tasks_only db db1"
    using StopServer_lookup [OF assms] StopServer_tasks(3) assms by (auto simp: db1_def)
  show "keyed tkId (ndTasks (drop_task env des k db))"
    using 1(1) assms by (simp add: d db_DelTask_def keyed_mdel)
  show "mget (ndTasks (drop_task env des k db)) j = (if stale des (tkRemark k) \<and> j = tkId k then None else mget (ndTasks db) j)"
    using 1(2) by (simp add: d db_DelTask_def gomap_simps)
  show "tasks_only db (drop_task env des k db)"
    using 1(3) by (simp add: d db_DelTask_def tasks_only_def)
qed

lemma drop_tasks_fold:
  assumes "keyed tkId (ndTasks db)"
  shows "keyed tkId (ndTasks (fold (\<lambda>(_, k). drop_task env des k) m db)) \<and>
    mget (ndTasks (fold (\<lambda>(_, k). drop_task env des k) m db)) j =
      (if list_ex (\<lambda>(_, k). stale des (tkRemark k) \<and> j = tkId k) m then None else mget (ndTasks db) j) \<and>
    tasks_only db (fold (\<lambda>(_, k). drop_task env des k) m db)"
  using assms
proof (induction m arbitrary: db)
  case (Cons p m)
  obtain i k where p: "p = (i, k)" by fastforce
  note D = drop_task_step [OF Cons.prems, of env des k]
  show ?case using Cons.IH [OF D(1)] D(2) [of j] tasks_only_trans [OF D(3)] by (auto simp: p)
qed simp

lemma sweep_tasks_lookup:
  assumes "counted tkId (ndTasks db) inc"
  shows "mget (ndTasks (sweep_tasks env des db)) j = Some k \<longleftrightarrow>
      mget (ndTasks db) j = Some k \<and> \<not> stale des (tkRemark k)"
    "keyed tkId (ndTasks (sweep_tasks env des db))" "tasks_only db (sweep_tasks env des db)"
proof -
  have keyed: "keyed tkId (ndTasks db)" using counted_keyed [OF assms] by simp
  note F = drop_tasks_fold [OF keyed, of env des "ndTasks db"]
  show "keyed tkId (ndTasks (sweep_tasks env des db))" "tasks_only db (sweep_tasks env des db)"
    using F unfolding sweep_tasks_def by simp_all
  have "list_ex (\<lambda>(_, k). stale des (tkRemark k) \<and> j = tkId k) (ndTasks db) \<longleftrightarrow>
      (\<exists>k. mget (ndTasks db) j = Some k \<and> stale des (tkRemark k))"
  proof
    assume "list_ex (\<lambda>(_, k). stale des (tkRemark k) \<and> j = tkId k) (ndTasks db)"
    then obtain i k where i: "(i, k) \<in> set (ndTasks db)" "stale des (tkRemark k)" "j = tkId k"
      by (auto simp: list_ex_iff)
    have "mget (ndTasks db) i = Some k" by (rule counted_entry [OF assms i(1)])
    with counted_key [OF assms this] i show "\<exists>k. mget (ndTasks db) j = Some k \<and> stale des (tkRemark k)" by auto
  next
    assume "\<exists>k. mget (ndTasks db) j = Some k \<and> stale des (tkRemark k)"
    then obtain k where k: "mget (ndTasks db) j = Some k" "stale des (tkRemark k)" by blast
    with counted_key [OF assms k(1)] mget_Some_mem [OF k(1)]
    show "list_ex (\<lambda>(_, k). stale des (tkRemark k) \<and> j = tkId k) (ndTasks db)"
      by (auto simp: list_ex_iff intro!: bexI [of _ "(j, k)"])
  qed
  then have "mget (ndTasks (sweep_tasks env des db)) j =
      (if \<exists>k. mget (ndTasks db) j = Some k \<and> stale des (tkRemark k) then None else mget (ndTasks db) j)"
    using F [of j] unfolding sweep_tasks_def by simp
  then show "mget (ndTasks (sweep_tasks env des db)) j = Some k \<longleftrightarrow>
      mget (ndTasks db) j = Some k \<and> \<not> stale des (tkRemark k)"
    by auto
qed

section \<open>Hosts\<close>

lemma drop_hosts_fold:
  assumes "keyed hoId (ndHosts db)"
  shows "keyed hoId (ndHosts (fold (\<lambda>(_, h). drop_host des h) m db)) \<and>
    mget (ndHosts (fold (\<lambda>(_, h). drop_host des h) m db)) j =
      (if list_ex (\<lambda>(_, h). stale des (hoRemark h) \<and> j = hoId h) m then None else mget (ndHosts db) j) \<and>
    hosts_only db (fold (\<lambda>(_, h). drop_host des h) m db)"
  using assms
proof (induction m arbitrary: db)
  case (Cons p m)
  obtain i h where p: "p = (i, h)" by fastforce
  have d: "drop_host des h db = (if stale des (hoRemark h) then DelHost (hoId h) db else db)"
    by (simp add: drop_host_def stale_def managed_def)
  then have "keyed hoId (ndHosts (drop_host des h db))" "hosts_only db (drop_host des h db)"
    "mget (ndHosts (drop_host des h db)) j = (if stale des (hoRemark h) \<and> j = hoId h then None else mget (ndHosts db) j)"
    using Cons.prems by (simp_all add: DelHost_def keyed_mdel hosts_only_def gomap_simps)
  with Cons.IH [OF this(1)] hosts_only_trans [OF this(2)] show ?case by (auto simp: p)
qed simp

lemma sweep_hosts_lookup:
  assumes "counted hoId (ndHosts db) inc"
  shows "mget (ndHosts (sweep_hosts des db)) j = Some h \<longleftrightarrow>
      mget (ndHosts db) j = Some h \<and> \<not> stale des (hoRemark h)"
    "keyed hoId (ndHosts (sweep_hosts des db))" "hosts_only db (sweep_hosts des db)"
proof -
  have keyed: "keyed hoId (ndHosts db)" using counted_keyed [OF assms] by simp
  note F = drop_hosts_fold [OF keyed, of des "ndHosts db"]
  show "keyed hoId (ndHosts (sweep_hosts des db))" "hosts_only db (sweep_hosts des db)"
    using F unfolding sweep_hosts_def by simp_all
  have "list_ex (\<lambda>(_, h). stale des (hoRemark h) \<and> j = hoId h) (ndHosts db) \<longleftrightarrow>
      (\<exists>h. mget (ndHosts db) j = Some h \<and> stale des (hoRemark h))"
  proof
    assume "list_ex (\<lambda>(_, h). stale des (hoRemark h) \<and> j = hoId h) (ndHosts db)"
    then obtain i h where i: "(i, h) \<in> set (ndHosts db)" "stale des (hoRemark h)" "j = hoId h"
      by (auto simp: list_ex_iff)
    have "mget (ndHosts db) i = Some h" by (rule counted_entry [OF assms i(1)])
    with counted_key [OF assms this] i show "\<exists>h. mget (ndHosts db) j = Some h \<and> stale des (hoRemark h)" by auto
  next
    assume "\<exists>h. mget (ndHosts db) j = Some h \<and> stale des (hoRemark h)"
    then obtain h where h: "mget (ndHosts db) j = Some h" "stale des (hoRemark h)" by blast
    with counted_key [OF assms h(1)] mget_Some_mem [OF h(1)]
    show "list_ex (\<lambda>(_, h). stale des (hoRemark h) \<and> j = hoId h) (ndHosts db)"
      by (auto simp: list_ex_iff intro!: bexI [of _ "(j, h)"])
  qed
  then have "mget (ndHosts (sweep_hosts des db)) j =
      (if \<exists>h. mget (ndHosts db) j = Some h \<and> stale des (hoRemark h) then None else mget (ndHosts db) j)"
    using F [of j] unfolding sweep_hosts_def by simp
  then show "mget (ndHosts (sweep_hosts des db)) j = Some h \<longleftrightarrow>
      mget (ndHosts db) j = Some h \<and> \<not> stale des (hoRemark h)"
    by auto
qed

section \<open>Clients\<close>

text \<open>
  Dropping a set of clients: their rows go, rows of others stay as they are, and no row
  changes (a task whose listener cannot be closed stays behind).
\<close>

definition shrinks :: "int set \<Rightarrow> NpsState \<Rightarrow> NpsState \<Rightarrow> bool" where
  "shrinks D db db' \<longleftrightarrow>
     (\<forall>j k. mget (ndTasks db') j = Some k \<longrightarrow> mget (ndTasks db) j = Some k) \<and>
     (\<forall>j k. mget (ndTasks db) j = Some k \<longrightarrow> tkClient k \<notin> D \<longrightarrow> mget (ndTasks db') j = Some k) \<and>
     (\<forall>j h. mget (ndHosts db') j = Some h \<longrightarrow> mget (ndHosts db) j = Some h) \<and>
     (\<forall>j h. mget (ndHosts db) j = Some h \<longrightarrow> hoClient h \<notin> D \<longrightarrow> mget (ndHosts db') j = Some h) \<and>
     keyed tkId (ndTasks db') \<and> keyed hoId (ndHosts db')"

lemma shrinks_refl: "keyed tkId (ndTasks db) \<Longrightarrow> keyed hoId (ndHosts db) \<Longrightarrow> shrinks D db db"
  by (simp add: shrinks_def)

lemma shrinks_trans: "shrinks D a b \<Longrightarrow> shrinks E b c \<Longrightarrow> shrinks (D \<union> E) a c"
  unfolding shrinks_def by (meson UnCI)

lemma shrinks_cong:
  assumes "shrinks D a b" "ndTasks a' = ndTasks a" "ndHosts a' = ndHosts a" "ndTasks b' = ndTasks b" "ndHosts b' = ndHosts b"
  shows "shrinks D a' b'"
  using assms(1) unfolding shrinks_def assms(2-5) .

lemma shrinks_trans_same: "shrinks D a b \<Longrightarrow> shrinks D b c \<Longrightarrow> shrinks D a c"
  using shrinks_trans [of D a b D c] by simp

lemma shrinks_del_task:
  assumes "keyed tkId (ndTasks db')" "keyed hoId (ndHosts db)" "ndHosts db' = ndHosts db"
    and look: "\<And>j. mget (ndTasks db') j = (if j = i then None else mget (ndTasks db) j)"
    and own: "\<forall>k. mget (ndTasks db) i = Some k \<longrightarrow> tkClient k = cid"
  shows "shrinks {cid} db db'"
proof -
  have "mget (ndTasks db') j = Some k" if "mget (ndTasks db) j = Some k" "tkClient k \<notin> {cid}" for j k
  proof -
    have "j \<noteq> i"
    proof
      assume "j = i"
      then have "tkClient k = cid" using own that(1) by blast
      with that(2) show False by simp
    qed
    with that(1) show ?thesis by (simp add: look)
  qed
  moreover have "mget (ndTasks db) j = Some k" if "mget (ndTasks db') j = Some k" for j k
    using that by (simp add: look split: if_splits)
  ultimately show ?thesis using assms(1,2) unfolding shrinks_def assms(3) by blast
qed

lemma shrinks_del_host:
  assumes "keyed hoId (ndHosts db')" "keyed tkId (ndTasks db)" "ndTasks db' = ndTasks db"
    and look: "\<And>j. mget (ndHosts db') j = (if j = i then None else mget (ndHosts db) j)"
    and own: "\<forall>h. mget (ndHosts db) i = Some h \<longrightarrow> hoClient h = cid"
  shows "shrinks {cid} db db'"
proof -
  have "mget (ndHosts db') j = Some h" if "mget (ndHosts db) j = Some h" "hoClient h \<notin> {cid}" for j h
  proof -
    have "j \<noteq> i"
    proof
      assume "j = i"
      then have "hoClient h = cid" using own that(1) by blast
      with that(2) show False by simp
    qed
    with that(1) show ?thesis by (simp add: look)
  qed
  moreover have "mget (ndHosts db) j = Some h" if "mget (ndHosts db') j = Some h" for j h
    using that by (simp add: look split: if_splits)
  ultimately show ?thesis using assms(1,2) unfolding shrinks_def assms(3) by blast
qed

lemma shrinks_facts:
  assumes "shrinks D a b"
  shows "mget (ndTasks b) j = Some k \<Longrightarrow> mget (ndTasks a) j = Some k"
    "mget (ndHosts b) j = Some h \<Longrightarrow> mget (ndHosts a) j = Some h"
    "keyed tkId (ndTasks b)" "keyed hoId (ndHosts b)"
  using assms unfolding shrinks_def by blast+

lemma shrinks_keep:
  assumes "shrinks D a b"
  shows "mget (ndTasks a) j = Some k \<Longrightarrow> tkClient k \<notin> D \<Longrightarrow> mget (ndTasks b) j = Some k"
    "mget (ndHosts a) j = Some h \<Longrightarrow> hoClient h \<notin> D \<Longrightarrow> mget (ndHosts b) j = Some h"
  using assms unfolding shrinks_def by blast+

lemma server_DelTask_shrinks:
  assumes "keyed tkId (ndTasks db)" "keyed hoId (ndHosts db)" "\<forall>k. mget (ndTasks db) i = Some k \<longrightarrow> tkClient k = cid"
  shows "shrinks {cid} db (server_DelTask env i db)" "ndClients (server_DelTask env i db) = ndClients db"
proof -
  note L = StopServer_lookup [OF assms(1), where env = env and i = i]
  have only: "tasks_only db (fst (StopServer env i db))" by (rule StopServer_tasks(3))
  show "ndClients (server_DelTask env i db) = ndClients db"
    using only by (cases "StopServer env i db"; cases "snd (StopServer env i db)")
      (simp_all add: server_DelTask_def db_DelTask_def tasks_only_def)
  have del: "shrinks {cid} db (db_DelTask i db1)"
    if "keyed tkId (ndTasks db1)" "ndHosts db1 = ndHosts db" "\<And>j. j \<noteq> i \<Longrightarrow> mget (ndTasks db1) j = mget (ndTasks db) j" for db1
    by (rule shrinks_del_task [OF _ assms(2) _ _ assms(3)])
      (use that in \<open>simp_all add: db_DelTask_def gomap_simps keyed_mdel\<close>)
  show "shrinks {cid} db (server_DelTask env i db)"
  proof (cases "i \<in> set (ndRunning db)")
    case False
    then show ?thesis using del [OF assms(1)] by (simp add: server_DelTask_def)
  next
    case True
    obtain db1 e where s: "StopServer env i db = (db1, e)" by fastforce
    show ?thesis
    proof (cases e)
      case None
      have "shrinks {cid} db (db_DelTask i db1)"
        by (rule del) (use L s only in \<open>auto simp: tasks_only_def\<close>)
      with True None s show ?thesis by (simp add: server_DelTask_def)
    next
      case (Some err)
      then have "db1 = db" using L(3) s by simp
      with True Some s assms show ?thesis by (simp add: server_DelTask_def shrinks_refl)
    qed
  qed
qed

lemma server_DelTask_fold:
  assumes "keyed tkId (ndTasks db)" "keyed hoId (ndHosts db)"
    "\<forall>i \<in> set is. \<forall>k. mget (ndTasks db) i = Some k \<longrightarrow> tkClient k = cid"
  shows "shrinks {cid} db (fold (server_DelTask env) is db) \<and> ndClients (fold (server_DelTask env) is db) = ndClients db"
  using assms
proof (induction "is" arbitrary: db)
  case (Cons i "is")
  have own: "\<forall>k. mget (ndTasks db) i = Some k \<longrightarrow> tkClient k = cid" using Cons.prems(3) by simp
  note S = server_DelTask_shrinks [OF Cons.prems(1,2) own, of env]
  have "shrinks {cid} (server_DelTask env i db) (fold (server_DelTask env) is (server_DelTask env i db)) \<and>
      ndClients (fold (server_DelTask env) is (server_DelTask env i db)) = ndClients (server_DelTask env i db)"
  proof (rule Cons.IH [OF shrinks_facts(3,4) [OF S(1)]], intro ballI allI impI)
    fix m k assume "m \<in> set is" "mget (ndTasks (server_DelTask env i db)) m = Some k"
    with shrinks_facts(1) [OF S(1)] Cons.prems(3) show "tkClient k = cid" by (meson list.set_intros(2))
  qed
  with shrinks_trans_same [OF S(1)] S(2) show ?case by simp
qed (simp add: shrinks_refl)

lemma DelHost_fold:
  assumes "keyed hoId (ndHosts db)" "keyed tkId (ndTasks db)"
    "\<forall>i \<in> set is. \<forall>h. mget (ndHosts db) i = Some h \<longrightarrow> hoClient h = cid"
  shows "shrinks {cid} db (fold DelHost is db) \<and> ndClients (fold DelHost is db) = ndClients db"
  using assms
proof (induction "is" arbitrary: db)
  case (Cons i "is")
  have own: "\<forall>h. mget (ndHosts db) i = Some h \<longrightarrow> hoClient h = cid" using Cons.prems(3) by simp
  have S: "shrinks {cid} db (DelHost i db)" "ndClients (DelHost i db) = ndClients db"
    using Cons.prems(1,2) by (auto intro!: shrinks_del_host [OF _ _ _ _ own] simp: DelHost_def gomap_simps keyed_mdel)
  have "shrinks {cid} (DelHost i db) (fold DelHost is (DelHost i db)) \<and>
      ndClients (fold DelHost is (DelHost i db)) = ndClients (DelHost i db)"
  proof (rule Cons.IH [OF shrinks_facts(4,3) [OF S(1)]], intro ballI allI impI)
    fix m h assume "m \<in> set is" "mget (ndHosts (DelHost i db)) m = Some h"
    with shrinks_facts(2) [OF S(1)] Cons.prems(3) show "hoClient h = cid" by (meson list.set_intros(2))
  qed
  with shrinks_trans_same [OF S(1)] S(2) show ?case by simp
qed (simp add: shrinks_refl)

lemma drop_client_step:
  assumes t: "keyed tkId (ndTasks db)" and h: "keyed hoId (ndHosts db)"
  shows "shrinks (if nps_display_name c = [] \<or> nps_display_name c \<in> set des then {} else {clId c}) db (drop_client env des c db)"
    "mget (ndClients (drop_client env des c db)) j =
      (if \<not> (nps_display_name c = [] \<or> nps_display_name c \<in> set des) \<and> j = clId c then None else mget (ndClients db) j)"
proof -
  let ?keep = "nps_display_name c = [] \<or> nps_display_name c \<in> set des"
  define db1 where "db1 = (if ndBridge db \<noteq> None then DelClientConnect (clId c) db else db)"
  have 1: "ndTasks db1 = ndTasks db" "ndHosts db1 = ndHosts db" "ndClients db1 = ndClients db"
    by (simp_all add: db1_def DelClientConnect_def)
  define tids where "tids = map (\<lambda>(_, v). tkId v) (filter (\<lambda>(_, v). tkClient v = clId c) (ndTasks db1))"
  define db2 where "db2 = fold (server_DelTask env) tids db1"
  define hids where "hids = map (\<lambda>(_, v). hoId v) (filter (\<lambda>(_, v). hoClient v = clId c) (ndHosts db2))"
  define db3 where "db3 = fold DelHost hids db2"
  have own_t: "tkClient k = clId c" if "i \<in> set tids" "mget (ndTasks db1) i = Some k" for i k
  proof -
    from that(1) obtain j v where v: "(j, v) \<in> set (ndTasks db)" "tkClient v = clId c" "i = tkId v"
      by (auto simp: tids_def 1)
    then have "mget (ndTasks db) j = Some v" using t mem_mget [of "ndTasks db" j v] unfolding keyed_iff by blast
    moreover from keyed_mget [OF t this] v(3) have "j = i" by simp
    ultimately show ?thesis using that(2) v(2) by (simp add: 1)
  qed
  have k1: "keyed tkId (ndTasks db1)" "keyed hoId (ndHosts db1)" using t h by (simp_all add: 1)
  have T: "shrinks {clId c} db1 db2" "ndClients db2 = ndClients db1"
    using server_DelTask_fold [OF k1, of tids "clId c" env] own_t unfolding db2_def by blast+
  note k2 = shrinks_facts(3,4) [OF T(1)]
  have own_h: "hoClient w = clId c" if "i \<in> set hids" "mget (ndHosts db2) i = Some w" for i w
  proof -
    from that(1) obtain j v where v: "(j, v) \<in> set (ndHosts db2)" "hoClient v = clId c" "i = hoId v"
      by (auto simp: hids_def)
    then have "mget (ndHosts db2) j = Some v" using k2(2) mem_mget [of "ndHosts db2" j v] unfolding keyed_iff by blast
    moreover from keyed_mget [OF k2(2) this] v(3) have "j = i" by simp
    ultimately show ?thesis using that(2) v(2) by simp
  qed
  have H: "shrinks {clId c} db2 db3" "ndClients db3 = ndClients db2"
    using DelHost_fold [OF k2(2,1), of hids "clId c"] own_h unfolding db3_def by blast+
  have d: "drop_client env des c db = (if ?keep then db else DelClient (clId c) db3)"
    unfolding drop_client_def DelTunnelAndHostByClientId_def db3_def hids_def db2_def tids_def db1_def
    by (simp add: Let_def)
  have "shrinks {clId c} db1 db3" using shrinks_trans [OF T(1) H(1)] by simp
  then have "shrinks {clId c} db (DelClient (clId c) db3)" 
    by (rule shrinks_cong) (simp_all add: DelClient_def 1)
  then show "shrinks (if ?keep then {} else {clId c}) db (drop_client env des c db)"
    using t h by (simp add: d shrinks_refl)
  show "mget (ndClients (drop_client env des c db)) j = (if \<not> ?keep \<and> j = clId c then None else mget (ndClients db) j)"
    using T(2) H(2) by (simp add: d DelClient_def 1 gomap_simps)
qed

definition dropped :: "string list \<Rightarrow> (int, NpsClient) gomap \<Rightarrow> int set" where
  "dropped des m = {clId c | i c. (i, c) \<in> set m \<and> nps_display_name c \<noteq> [] \<and> nps_display_name c \<notin> set des}"

lemma dropped_Cons:
  "dropped des ((i, c) # m) = (if nps_display_name c = [] \<or> nps_display_name c \<in> set des then {} else {clId c}) \<union> dropped des m"
  by (auto simp: dropped_def)

lemma drop_clients_fold:
  assumes "keyed tkId (ndTasks db)" "keyed hoId (ndHosts db)"
  shows "shrinks (dropped des m) db (fold (\<lambda>(_, c). drop_client env des c) m db) \<and>
    (\<forall>j. mget (ndClients (fold (\<lambda>(_, c). drop_client env des c) m db)) j =
      (if j \<in> dropped des m then None else mget (ndClients db) j))"
  using assms
proof (induction m arbitrary: db)
  case (Cons p m)
  obtain i c where p: "p = (i, c)" by fastforce
  note D = drop_client_step [OF Cons.prems, where des = des and c = c and env = env]
  have I: "shrinks (dropped des m) (drop_client env des c db) (fold (\<lambda>(_, c). drop_client env des c) m (drop_client env des c db))"
    "\<And>j. mget (ndClients (fold (\<lambda>(_, c). drop_client env des c) m (drop_client env des c db))) j =
      (if j \<in> dropped des m then None else mget (ndClients (drop_client env des c db)) j)"
    using Cons.IH [OF shrinks_facts(3,4) [OF D(1)]] by blast+
  show ?case
    using shrinks_trans [OF D(1) I(1)] I(2) D(2) by (simp add: p dropped_Cons)
qed (simp add: shrinks_refl dropped_def)

lemma sweep_clients_effect:
  assumes "counted clId (ndClients db) inc" "keyed tkId (ndTasks db)" "keyed hoId (ndHosts db)"
  shows "shrinks {cid. \<exists>c. mget (ndClients db) cid = Some c \<and> nps_display_name c \<noteq> [] \<and> nps_display_name c \<notin> set des}
      db (sweep_clients env des db)"
    "mget (ndClients (sweep_clients env des db)) j = Some c \<longleftrightarrow>
      mget (ndClients db) j = Some c \<and> (nps_display_name c = [] \<or> nps_display_name c \<in> set des)"
proof -
  have d: "dropped des (ndClients db) =
      {cid. \<exists>c. mget (ndClients db) cid = Some c \<and> nps_display_name c \<noteq> [] \<and> nps_display_name c \<notin> set des}"
  proof (intro set_eqI iffI)
    fix cid assume "cid \<in> dropped des (ndClients db)"
    then obtain i c where c: "(i, c) \<in> set (ndClients db)" "cid = clId c" "nps_display_name c \<noteq> []" "nps_display_name c \<notin> set des"
      by (auto simp: dropped_def)
    have m: "mget (ndClients db) i = Some c" by (rule counted_entry [OF assms(1) c(1)])
    with counted_key [OF assms(1) m] c show "cid \<in> {cid. \<exists>c. mget (ndClients db) cid = Some c \<and>
        nps_display_name c \<noteq> [] \<and> nps_display_name c \<notin> set des}" by auto
  next
    fix cid assume "cid \<in> {cid. \<exists>c. mget (ndClients db) cid = Some c \<and> nps_display_name c \<noteq> [] \<and> nps_display_name c \<notin> set des}"
    then obtain c where c: "mget (ndClients db) cid = Some c" "nps_display_name c \<noteq> []" "nps_display_name c \<notin> set des"
      by blast
    with counted_key [OF assms(1) c(1)] mget_Some_mem [OF c(1)] show "cid \<in> dropped des (ndClients db)"
      by (auto simp: dropped_def intro!: exI [of _ cid] exI [of _ c])
  qed
  note F = drop_clients_fold [OF assms(2,3), where des = des and env = env and m = "ndClients db"]
  show "shrinks {cid. \<exists>c. mget (ndClients db) cid = Some c \<and> nps_display_name c \<noteq> [] \<and> nps_display_name c \<notin> set des}
      db (sweep_clients env des db)"
    using F unfolding sweep_clients_def d by blast
  have "mget (ndClients (sweep_clients env des db)) j = (if j \<in> dropped des (ndClients db) then None else mget (ndClients db) j)"
    using F unfolding sweep_clients_def by blast
  then show "mget (ndClients (sweep_clients env des db)) j = Some c \<longleftrightarrow>
      mget (ndClients db) j = Some c \<and> (nps_display_name c = [] \<or> nps_display_name c \<in> set des)"
    unfolding d by auto
qed

section \<open>What a sweep leaves alone\<close>

lemma fold_same: "(\<And>x d. h (f x d) = h d) \<Longrightarrow> h (fold f xs d) = h d"
  by (induction xs arbitrary: d) simp_all

lemma fold_keeps: "(\<And>x d. P d \<Longrightarrow> P (f x d)) \<Longrightarrow> P d \<Longrightarrow> P (fold f xs d)"
  by (induction xs arbitrary: d) simp_all

definition counters :: "NpsState \<Rightarrow> int \<times> int \<times> int" where
  "counters db = (ndClientInc db, ndTaskInc db, ndHostInc db)"

lemma row_counters [simp]:
  "counters (UpdateTask t db) = counters db" "counters (db_DelTask i db) = counters db" "counters (DelHost j db) = counters db"
  "counters (DelClient c db) = counters db" "counters (DelClientConnect c db) = counters db" "counters (db\<lparr>ndRunning := rs\<rparr>) = counters db"
  by (simp_all add: counters_def UpdateTask_def put_task_def db_DelTask_def DelHost_def DelClient_def DelClientConnect_def)

lemma StopServer_counters [simp]: "counters (fst (StopServer env i db)) = counters db"
  by (simp add: StopServer_def Let_def split: option.split)

lemma server_DelTask_counters [simp]: "counters (server_DelTask env i db) = counters db"
  using StopServer_counters [of env i db]
  by (cases "StopServer env i db"; cases "snd (StopServer env i db)") (simp_all add: server_DelTask_def)

lemma StopServer_clients [simp]: "ndClients (fst (StopServer env i db)) = ndClients db"
  by (simp add: StopServer_def UpdateTask_def put_task_def Let_def split: option.split)

lemma server_DelTask_clients [simp]: "ndClients (server_DelTask env i db) = ndClients db"
  using StopServer_clients [of env i db]
  by (cases "StopServer env i db"; cases "snd (StopServer env i db)") (simp_all add: server_DelTask_def db_DelTask_def)

lemma fold_frame [simp]:
  "counters (fold DelHost is db) = counters db" "ndClients (fold DelHost is db) = ndClients db"
  "counters (fold (server_DelTask env) is db) = counters db" "ndClients (fold (server_DelTask env) is db) = ndClients db"
proof -
  have "ndClients (DelHost i d) = ndClients d" for i d by (simp add: DelHost_def)
  then show "ndClients (fold DelHost is db) = ndClients db" by (rule fold_same)
qed (rule fold_same, simp)+

lemma DelTunnelAndHost_frame [simp]:
  "counters (DelTunnelAndHostByClientId env cid b db) = counters db"
  "ndClients (DelTunnelAndHostByClientId env cid b db) = ndClients db"
  by (simp_all add: DelTunnelAndHostByClientId_def Let_def)

lemma sweep_frame:
  "counters (sweep_tasks env ts db) = counters db" "counters (sweep_hosts hs db) = counters db" "counters (sweep_clients env des db) = counters db"
  "keyed clId (ndClients db) \<Longrightarrow> keyed clId (ndClients (sweep_clients env des db))"
proof -
  show "counters (sweep_tasks env ts db) = counters db"
    unfolding sweep_tasks_def by (rule fold_same) (simp add: drop_task_def Let_def split: prod.split)
  show "counters (sweep_hosts hs db) = counters db"
    unfolding sweep_hosts_def by (rule fold_same) (simp add: drop_host_def split: prod.split)
  show "counters (sweep_clients env des db) = counters db"
    unfolding sweep_clients_def by (rule fold_same) (simp add: drop_client_def Let_def split: prod.split)
  show "keyed clId (ndClients (sweep_clients env des db))" if "keyed clId (ndClients db)"
    unfolding sweep_clients_def using that
    by (rule fold_keeps [rotated]) (auto simp: drop_client_def DelClient_def DelClientConnect_def Let_def intro: keyed_mdel)
qed

end
