(* ===== verification/SyncProps.thy ===== *)
theory SyncProps
  imports SyncSweep
begin

text \<open>
  What \<^verbatim>\<open>SyncNPSState\<close> achieves as a whole: after a run that reports no error the
  clients, tasks and hosts of nps are those the control database asks for, and what the
  control program does not manage is left alone.
\<close>

section \<open>Inputs\<close>

definition nps_ok :: "NpsState \<Rightarrow> bool" where
  "nps_ok db \<longleftrightarrow> clients_ok db \<and> tasks_ok db \<and> hosts_ok db"

text \<open>The id counters are far from the end of their 32 bits.\<close>

definition nps_room :: "NpsState \<Rightarrow> User list \<Rightarrow> Tunnel list \<Rightarrow> bool" where
  "nps_room db us ts \<longleftrightarrow> ndClientInc db + int (length us) < 2 ^ 31 \<and> ndTaskInc db + int (length ts) < 2 ^ 31 \<and>
     ndHostInc db + int (total_domains ts) < 2 ^ 31"

definition clean_domains :: "Tunnel \<Rightarrow> bool" where
  "clean_domains t \<longleftrightarrow> distinct (tDomains t) \<and> list_all (\<lambda>d. CHR '':'' \<notin> set d) (tDomains t)"

text \<open>What the control database guarantees of the lists it hands over.\<close>

definition sync_inputs :: "User list \<Rightarrow> Tunnel list \<Rightarrow> bool" where
  "sync_inputs us ts \<longleftrightarrow> distinct (map uName us) \<and> list_all (\<lambda>u. uName u \<noteq> []) us \<and> distinct (map tID ts) \<and>
     list_all clean_domains ts"

definition nps_tunnel :: "User list \<Rightarrow> Tunnel \<Rightarrow> bool" where
  "nps_tunnel us t \<longleftrightarrow> tEngine t = EngineNPS \<and> tEnabled t \<and> tUserName t \<in> set (active_names us)"

section \<open>Remarks are unambiguous\<close>

lemma last_separator:
  assumes "c \<notin> set (x :: string)" "c \<notin> set y" "a @ c # x = b @ c # y" shows "a = b \<and> x = y"
proof -
  have "rev x @ c # rev a = rev y @ c # rev b" using arg_cong [OF assms(3), of rev] by simp
  moreover have "cut_on c (rev x @ c # rev a) = Some (rev x, rev a)" "cut_on c (rev y @ c # rev b) = Some (rev y, rev b)"
    using assms(1,2) by (intro cut_on_append; simp)+
  ultimately have "Some (rev x, rev a) = Some (rev y, rev b)" by metis
  then show ?thesis by simp
qed

lemma host_remark_inj:
  assumes "managedNPSHostRemark i d = managedNPSHostRemark j e" "CHR '':'' \<notin> set d" "CHR '':'' \<notin> set e"
  shows "i = j \<and> d = e"
  using assms last_separator [of "CHR '':''" d e i j] by (simp add: managedNPSHostRemark_def)

lemma task_remarks_distinct:
  assumes "distinct (map tID ts)" shows "distinct (task_remarks cl ts)"
proof -
  have "distinct (map tID (filter p ts))" for p using assms by (rule distinct_map_filter)
  then have "distinct (map managedNPSRemark (map tID (filter p ts)))" for p
    by (simp add: distinct_map inj_on_def)
  then show ?thesis unfolding task_remarks_def by (simp add: comp_def)
qed

lemma host_remarks_distinct: "clean_domains t \<Longrightarrow> distinct (host_remarks t)"
  unfolding host_remarks_def clean_domains_def list_all_iff
  by (auto simp: distinct_map inj_on_def managedNPSHostRemark_def)

lemma host_remarks_disjoint:
  assumes "clean_domains s" "clean_domains t" "tID s \<noteq> tID t"
  shows "set (host_remarks s) \<inter> set (host_remarks t) = {}"
proof -
  have "managedNPSHostRemark (tID s) d \<noteq> managedNPSHostRemark (tID t) e"
    if "d \<in> set (tDomains s)" "e \<in> set (tDomains t)" for d e
    using host_remark_inj that assms unfolding clean_domains_def list_all_iff by blast
  then show ?thesis by (auto simp: host_remarks_def)
qed

lemma site_remarks_mem:
  "r \<in> set (site_remarks cl ts) \<longleftrightarrow> (\<exists>t \<in> set ts. wanted cl t \<and> web_tunnel t \<and> r \<in> set (host_remarks t))"
  by (auto simp: site_remarks_def)

lemma site_remarks_distinct:
  "distinct (map tID ts) \<Longrightarrow> list_all clean_domains ts \<Longrightarrow> distinct (site_remarks cl ts)"
proof (induction ts)
  case (Cons t ts)
  have "set (host_remarks t) \<inter> set (site_remarks cl ts) = {}"
  proof -
    have "set (host_remarks t) \<inter> set (host_remarks s) = {}" if "s \<in> set ts" for s
      using that Cons.prems by (intro host_remarks_disjoint) (auto simp: list_all_iff)
    then show ?thesis using site_remarks_mem [of _ cl ts] by blast
  qed
  with Cons host_remarks_distinct [of t] show ?case by simp
qed simp

section \<open>A successful run\<close>

lemma SyncNPSState_phases:
  assumes "SyncNPSState env us ts (Some db) = (Some db', None)"
  obtains db1 cl db2 tasks hosts where
    "sync_users env us db [] = (db1, Inr cl)" "sync_tunnels env cl ts db1 [] [] = (db2, Inr (tasks, hosts))"
    "db' = sweep_clients env (active_names us) (sweep_hosts hosts (sweep_tasks env tasks db2))"
  using assms unfolding SyncNPSState_def active_names_def
  by (auto split: prod.splits sum.splits)

lemma settled_Nil [simp]: "settled [] db"
  by (simp add: settled_def)

lemma active_names_distinct: "distinct (map uName us) \<Longrightarrow> distinct (active_names us)"
  unfolding active_names_def by (rule distinct_map_filter)

lemma serves_display: "serves u c \<Longrightarrow> nps_display_name c = uName u"
  by (simp add: serves_def nps_display_name_def)

lemma counted_sub:
  assumes "counted key m inc" "keyed key m'" "\<And>j v. mget m' j = Some v \<Longrightarrow> mget m j \<noteq> None"
  shows "counted key m' inc"
proof -
  have "0 < j \<and> j \<le> inc" if "(j, v) \<in> set m'" for j v
    using counted_range [OF assms(1) assms(3)] that mem_mget [of m'] keyed_wf [OF assms(2)] by blast
  with assms(1,2) show ?thesis by (auto simp: counted_def list_all_iff)
qed

text \<open>The four facts the properties below are read off from.\<close>

definition kept :: "User list \<Rightarrow> NpsClient \<Rightarrow> bool" where
  "kept us c \<longleftrightarrow> nps_display_name c = [] \<or> nps_display_name c \<in> set (active_names us)"

lemma SyncNPSState_run:
  assumes s: "SyncNPSState env us ts (Some db) = (Some db', None)"
    and ok: "nps_ok db" and room: "nps_room db us ts" and inp: "sync_inputs us ts"
  obtains db1 cl where
    "\<And>n. mget cl n \<noteq> None \<longleftrightarrow> n \<in> set (active_names us)"
    "\<And>n cid. mget cl n = Some cid \<Longrightarrow> \<exists>c u. mget (ndClients db') cid = Some c \<and> u \<in> set us \<and> nps_user u \<and>
       uName u = n \<and> serves u c"
    "\<And>j c. mget (ndClients db') j = Some c \<Longrightarrow> kept us c"
    "\<And>t. t \<in> set ts \<Longrightarrow> wanted cl t \<Longrightarrow> (if web_tunnel t then sites_ok cl db' t else task_ok cl db' t)"
    "\<And>j k. mget (ndTasks db') j = Some k \<Longrightarrow> managed (tkRemark k) \<Longrightarrow> tkRemark k \<in> set (task_remarks cl ts)"
    "\<And>j h. mget (ndHosts db') j = Some h \<Longrightarrow> managed (hoRemark h) \<Longrightarrow> hoRemark h \<in> set (site_remarks cl ts)"
    "remarks_ok tkRemark (ndTasks db')" "remarks_ok hoRemark (ndHosts db')"
    "\<And>j k c. mget (ndTasks db) j = Some k \<Longrightarrow> \<not> managed (tkRemark k) \<Longrightarrow> mget (ndClients db) (tkClient k) = Some c \<Longrightarrow>
       kept us c \<Longrightarrow> mget (ndTasks db') j = Some k"
    "\<And>j h c. mget (ndHosts db) j = Some h \<Longrightarrow> \<not> managed (hoRemark h) \<Longrightarrow> mget (ndClients db) (hoClient h) = Some c \<Longrightarrow>
       kept us c \<Longrightarrow> mget (ndHosts db') j = Some h"
    "nps_ok db'"
proof -
  obtain db1 cl db2 tasks hosts where 1: "sync_users env us db [] = (db1, Inr cl)"
    and 2: "sync_tunnels env cl ts db1 [] [] = (db2, Inr (tasks, hosts))"
    and 3: "db' = sweep_clients env (active_names us) (sweep_hosts hosts (sweep_tasks env tasks db2))"
    using SyncNPSState_phases [OF s] .
  have ok0: "clients_ok db" "tasks_ok db" "hosts_ok db" using ok by (simp_all add: nps_ok_def)
  have inp': "distinct (map uName us)" "list_all (\<lambda>u. uName u \<noteq> []) us" "distinct (map tID ts)" "list_all clean_domains ts"
    using inp by (simp_all add: sync_inputs_def)
  have room': "ndClientInc db + int (length us) < 2 ^ 31" "ndTaskInc db + int (length ts) < 2 ^ 31"
    "ndHostInc db + int (total_domains ts) < 2 ^ 31" using room by (simp_all add: nps_room_def)
  note U = sync_users_Inr [OF 1 ok0(1) settled_Nil active_names_distinct [OF inp'(1)] _ room'(1), simplified]
  have db1: "ndTasks db1 = ndTasks db" "ndTaskInc db1 = ndTaskInc db" "ndHosts db1 = ndHosts db" "ndHostInc db1 = ndHostInc db"
    using U by (metis NpsState.select_convs NpsState.surjective NpsState.update_convs(1,4))+
  have ok1: "tasks_ok db1" "hosts_ok db1" using ok0 by (simp_all add: tasks_ok_def hosts_ok_def db1)
  have T: "tasks_ok db2" "hosts_ok db2" "same_clients db1 db2"
    "evolves tkRemark (set (task_remarks cl ts)) (ndTasks db1) (ndTasks db2)"
    "evolves hoRemark (set (site_remarks cl ts)) (ndHosts db1) (ndHosts db2)"
    "\<forall>t \<in> set ts. wanted cl t \<longrightarrow> (if web_tunnel t then sites_ok cl db2 t else task_ok cl db2 t)"
    "tasks = task_remarks cl ts" "hosts = site_remarks cl ts"
    using sync_tunnels_run [OF 2 ok1] room'(2,3) task_remarks_distinct [OF inp'(3)]
      site_remarks_distinct [OF inp'(3,4)] by (simp_all add: db1)
  define db3 where "db3 = sweep_tasks env tasks db2"
  define db4 where "db4 = sweep_hosts hosts db3"
  have c2: "counted tkId (ndTasks db2) (ndTaskInc db2)" "remarks_ok tkRemark (ndTasks db2)"
    "counted hoId (ndHosts db2) (ndHostInc db2)" "remarks_ok hoRemark (ndHosts db2)"
    using T(1,2) by (simp_all add: tasks_ok_def hosts_ok_def)
  note S1 = sweep_tasks_lookup [OF c2(1), of env tasks, folded db3_def]
  have h3: "ndHosts db3 = ndHosts db2" "ndClients db3 = ndClients db2" using S1(3) by (simp_all add: tasks_only_def)
  have c3: "counted hoId (ndHosts db3) (ndHostInc db2)" using c2(3) by (simp add: h3)
  note S2 = sweep_hosts_lookup [OF c3, of hosts, folded db4_def]
  have h4: "ndTasks db4 = ndTasks db3" "ndClients db4 = ndClients db1"
    using S2(3) T(3) by (simp_all add: hosts_only_def same_clients_def h3)
  have "clients_ok db1" using U by blast
  then have c4: "counted clId (ndClients db4) (ndClientInc db1)" by (simp add: h4 clients_ok_def)
  have k4: "keyed tkId (ndTasks db4)" using S1(2) by (simp add: h4)
  note S3 = sweep_clients_effect [OF c4 k4 S2(2), where env = env and des = "active_names us"]
  have db': "db' = sweep_clients env (active_names us) db4" by (simp add: 3 db4_def db3_def)
  define D where "D = {cid. \<exists>c. mget (ndClients db1) cid = Some c \<and> \<not> kept us c}"
  have D: "shrinks D db4 db'" using S3(1) by (simp add: db' D_def kept_def h4)
  have cl': "mget (ndClients db') j = Some c \<longleftrightarrow> mget (ndClients db1) j = Some c \<and> kept us c" for j c
    using S3(2) [of j c] by (simp add: db' kept_def h4)
  have tasks': "mget (ndTasks db2) j = Some k \<and> \<not> stale tasks (tkRemark k)" if "mget (ndTasks db') j = Some k" for j k
    using shrinks_facts(1) [OF D that] S1(1) by (simp add: h4)
  have tasks'': "mget (ndTasks db') j = Some k"
    if "mget (ndTasks db2) j = Some k" "\<not> stale tasks (tkRemark k)" "tkClient k \<notin> D" for j k
  proof (rule shrinks_keep(1) [OF D _ that(3)])
    show "mget (ndTasks db4) j = Some k" using S1(1) [of j k] that(1,2) by (simp add: h4)
  qed
  have hosts': "mget (ndHosts db2) j = Some h \<and> \<not> stale hosts (hoRemark h)" if "mget (ndHosts db') j = Some h" for j h
    using shrinks_facts(2) [OF D that] S2(1) by (simp add: h3)
  have hosts'': "mget (ndHosts db') j = Some h"
    if "mget (ndHosts db2) j = Some h" "\<not> stale hosts (hoRemark h)" "hoClient h \<notin> D" for j h
  proof (rule shrinks_keep(2) [OF D _ that(3)])
    show "mget (ndHosts db4) j = Some h" using S2(1) [of j h] that(1,2) by (simp add: h3)
  qed
  have serve: "\<exists>cid c. mget cl (uName u) = Some cid \<and> mget (ndClients db1) cid = Some c \<and> serves u c"
    if "u \<in> set us" "nps_user u" for u using U that by blast
  have active: "\<exists>u. u \<in> set us \<and> nps_user u \<and> uName u = n" if "n \<in> set (active_names us)" for n
    using that by (auto simp: active_names_def)
  have names: "mget cl n \<noteq> None \<longleftrightarrow> n \<in> set (active_names us)" for n
  proof
    show "n \<in> set (active_names us)" if "mget cl n \<noteq> None" using U that by blast
    show "mget cl n \<noteq> None" if "n \<in> set (active_names us)"
      using active [OF that] serve by (metis option.distinct(1))
  qed
  have served: "\<exists>c u. mget (ndClients db') cid = Some c \<and> u \<in> set us \<and> nps_user u \<and> uName u = n \<and> serves u c"
    if "mget cl n = Some cid" for n cid
  proof -
    have "n \<in> set (active_names us)" using names [of n] that by simp
    then obtain u where u: "u \<in> set us" "nps_user u" "uName u = n" using active by blast
    obtain cid1 c where c1: "mget cl (uName u) = Some cid1" "mget (ndClients db1) cid1 = Some c" "serves u c"
      using serve [OF u(1,2)] by blast
    have "cid1 = cid" using c1(1) that u(3) by simp
    with c1 have c: "mget (ndClients db1) cid = Some c" "serves u c" by simp_all
    then have "kept us c" using \<open>n \<in> set (active_names us)\<close> u(3) by (simp add: kept_def serves_display)
    with c u show ?thesis using cl' by blast
  qed
  have safe: "cid \<notin> D" if n: "mget cl n = Some cid" for n cid
  proof
    assume "cid \<in> D"
    then obtain c where c: "mget (ndClients db1) cid = Some c" "\<not> kept us c" unfolding D_def by blast
    obtain c' where "mget (ndClients db') cid = Some c'" using served [OF n] by blast
    then have "mget (ndClients db1) cid = Some c' \<and> kept us c'" by (simp only: cl')
    with c show False by simp
  qed
  have foreign: "cid \<notin> D" if c: "mget (ndClients db) cid = Some c" "kept us c" for cid c
  proof -
    obtain c' where c': "mget (ndClients db1) cid = Some c'" "c' = c \<or> clWebUserName c' \<in> set (active_names us)"
      using U c(1) by blast
    have "kept us c'"
      using c'(2)
    proof
      assume a: "clWebUserName c' \<in> set (active_names us)"
      then have "clWebUserName c' \<noteq> []" using inp'(2) by (auto simp: active_names_def list_all_iff)
      with a show ?thesis by (simp add: kept_def nps_display_name_def)
    qed (use c(2) in simp)
    with c'(1) show ?thesis by (auto simp: D_def)
  qed
  have row_t: "row_at tkRemark (ndTasks db') r k"
    if "row_at tkRemark (ndTasks db2) r k" "r \<in> set tasks" "tkClient k \<notin> D" for r k
    using that tasks'' unfolding row_at_def stale_def by blast
  have row_h: "row_at hoRemark (ndHosts db') r h"
    if "row_at hoRemark (ndHosts db2) r h" "r \<in> set hosts" "hoClient h \<notin> D" for r h
    using that hosts'' unfolding row_at_def stale_def by blast
  have ok': "nps_ok db'"
  proof -
    have inc: "counters db' = counters db2" by (simp add: db' db4_def db3_def sweep_frame)
    have kc: "keyed clId (ndClients db')" using sweep_frame(4) counted_keyed [OF c4] by (simp add: db')
    note k = kc shrinks_facts(3,4) [OF D]
    have "ndClientInc db2 = ndClientInc db1" using T(3) by (simp add: same_clients_def)
    then have "counted clId (ndClients db') (ndClientInc db')"
      using counted_sub [OF c4 kc] cl' inc by (simp add: counters_def h4)
    moreover have "counted tkId (ndTasks db') (ndTaskInc db')" "counted hoId (ndHosts db') (ndHostInc db')"
      using counted_sub [OF c2(1) k(2)] counted_sub [OF c2(3) k(3)] tasks' hosts' inc by (simp_all add: counters_def)
    moreover have "remarks_ok tkRemark (ndTasks db')" using c2(2) tasks' unfolding remarks_ok_def by blast
    moreover have "remarks_ok hoRemark (ndHosts db')" using c2(4) hosts' unfolding remarks_ok_def by blast
    ultimately show ?thesis by (simp add: nps_ok_def clients_ok_def tasks_ok_def hosts_ok_def)
  qed
  show ?thesis
  proof
    show "mget cl n \<noteq> None \<longleftrightarrow> n \<in> set (active_names us)" for n by (rule names)
    show "\<exists>c u. mget (ndClients db') cid = Some c \<and> u \<in> set us \<and> nps_user u \<and> uName u = n \<and> serves u c"
      if "mget cl n = Some cid" for n cid by (rule served [OF that])
    show "kept us c" if "mget (ndClients db') j = Some c" for j c using that cl' by blast
    show "if web_tunnel t then sites_ok cl db' t else task_ok cl db' t" if t: "t \<in> set ts" "wanted cl t" for t
    proof (cases "web_tunnel t")
      case True
      from T(6) t have "if web_tunnel t then sites_ok cl db2 t else task_ok cl db2 t" by blast
      then have "sites_ok cl db2 t" using True by simp
      then obtain cid where cid: "mget cl (tUserName t) = Some cid" "\<forall>d \<in> set (tDomains t). site_ok db2 t cid d"
        unfolding sites_ok_def by blast
      have "site_ok db' t cid d" if d: "d \<in> set (tDomains t)" for d
      proof -
        obtain h where h: "row_at hoRemark (ndHosts db2) (managedNPSHostRemark (tID t) d) h" "fronts t cid d h"
          using cid(2) d unfolding site_ok_def by blast
        have "managedNPSHostRemark (tID t) d \<in> set hosts"
          using d t True by (auto simp: T(8) site_remarks_mem host_remarks_def)
        moreover have "hoClient h \<notin> D" using safe [OF cid(1)] h(2) by (simp add: fronts_def)
        ultimately show ?thesis using row_h [OF h(1)] h(2) unfolding site_ok_def by blast
      qed
      with True cid(1) show ?thesis unfolding sites_ok_def by auto
    next
      case False
      from T(6) t have "if web_tunnel t then sites_ok cl db2 t else task_ok cl db2 t" by blast
      then have "task_ok cl db2 t" using False by simp
      then obtain cid k where k: "mget cl (tUserName t) = Some cid" "runs t cid k"
        "row_at tkRemark (ndTasks db2) (managedNPSRemark (tID t)) k"
        unfolding task_ok_def by blast
      have "managedNPSRemark (tID t) \<in> set tasks" using t False by (auto simp: T(7) task_remarks_def)
      moreover have "tkClient k \<notin> D" using safe [OF k(1)] k(2) by (simp add: runs_def)
      ultimately show ?thesis using row_t [OF k(3)] k False unfolding task_ok_def by auto
    qed
    show "tkRemark k \<in> set (task_remarks cl ts)" if "mget (ndTasks db') j = Some k" "managed (tkRemark k)" for j k
      using tasks' [OF that(1)] that(2) by (simp add: stale_def T(7))
    show "hoRemark h \<in> set (site_remarks cl ts)" if "mget (ndHosts db') j = Some h" "managed (hoRemark h)" for j h
      using hosts' [OF that(1)] that(2) by (simp add: stale_def T(8))
    show "remarks_ok tkRemark (ndTasks db')" using c2(2) tasks' unfolding remarks_ok_def by blast
    show "remarks_ok hoRemark (ndHosts db')" using c2(4) hosts' unfolding remarks_ok_def by blast
    show "mget (ndTasks db') j = Some k" if "mget (ndTasks db) j = Some k" "\<not> managed (tkRemark k)"
      "mget (ndClients db) (tkClient k) = Some c" "kept us c" for j k c
    proof (rule tasks'')
      have "tkRemark k \<notin> set (task_remarks cl ts)" using that(2) by (auto simp: task_remarks_def)
      with T(4) that(1) show "mget (ndTasks db2) j = Some k" unfolding evolves_def db1 by blast
    qed (use that foreign in \<open>simp_all add: stale_def\<close>)
    show "mget (ndHosts db') j = Some h" if "mget (ndHosts db) j = Some h" "\<not> managed (hoRemark h)"
      "mget (ndClients db) (hoClient h) = Some c" "kept us c" for j h c
    proof (rule hosts'')
      have "hoRemark h \<notin> set (site_remarks cl ts)" using that(2) by (auto simp: site_remarks_def host_remarks_def)
      with T(5) that(1) show "mget (ndHosts db2) j = Some h" unfolding evolves_def db1 by blast
    qed (use that foreign in \<open>simp_all add: stale_def\<close>)
    show "nps_ok db'" by (rule ok')
  qed
qed

lemma SyncNPSState_keeps_ok:
  assumes "SyncNPSState env us ts (Some db) = (Some db', None)" "nps_ok db" "nps_room db us ts" "sync_inputs us ts"
  shows "nps_ok db'"
  by (rule SyncNPSState_run [OF assms]) blast

lemma synced_hosts_wf:
  assumes "SyncNPSState env us ts (Some db) = (Some db', None)" "nps_ok db" "nps_room db us ts" "sync_inputs us ts"
  shows "mwf (ndHosts db')"
  using SyncNPSState_keeps_ok [OF assms] by (auto simp: nps_ok_def hosts_ok_def counted_def)

section \<open>Properties\<close>

lemma wanted_iff: "(\<And>n. mget cl n \<noteq> None \<longleftrightarrow> n \<in> set (active_names us)) \<Longrightarrow> wanted cl t \<longleftrightarrow> nps_tunnel us t"
  by (simp add: wanted_def nps_tunnel_def)

lemma clients_of_a_run:
  assumes "SyncNPSState env us ts (Some db) = (Some db', None)" "nps_ok db" "nps_room db us ts" "sync_inputs us ts"
  shows "(\<forall>u \<in> set us. nps_user u \<longrightarrow> (\<exists>cid c. mget (ndClients db') cid = Some c \<and> serves u c)) \<and>
    (\<forall>cid c. mget (ndClients db') cid = Some c \<longrightarrow> nps_display_name c = [] \<or>
       (\<exists>u \<in> set us. nps_user u \<and> nps_display_name c = uName u))"
proof (rule SyncNPSState_run [OF assms], intro conjI ballI allI impI)
  fix db1 and cl :: "(string, int) gomap"
  assume names: "\<And>n. mget cl n \<noteq> None \<longleftrightarrow> n \<in> set (active_names us)"
    and served: "\<And>n cid. mget cl n = Some cid \<Longrightarrow> \<exists>c u. mget (ndClients db') cid = Some c \<and> u \<in> set us \<and>
       nps_user u \<and> uName u = n \<and> serves u c"
    and kept: "\<And>j c. mget (ndClients db') j = Some c \<Longrightarrow> kept us c"
  show "\<exists>cid c. mget (ndClients db') cid = Some c \<and> serves u c" if u: "u \<in> set us" "nps_user u" for u
  proof -
    have "uName u \<in> set (active_names us)" using u by (auto simp: active_names_def)
    then obtain cid where "mget cl (uName u) = Some cid" using names [of "uName u"] by auto
    from served [OF this] obtain c v where v: "mget (ndClients db') cid = Some c" "v \<in> set us" "uName v = uName u" "serves v c"
      by blast
    have "distinct (map uName us)" using assms(4) by (simp add: sync_inputs_def)
    then have "v = u" using v(2,3) u(1) by (simp add: distinct_map inj_on_def)
    with v show ?thesis by blast
  qed
  show "nps_display_name c = [] \<or> (\<exists>u \<in> set us. nps_user u \<and> nps_display_name c = uName u)"
    if "mget (ndClients db') cid = Some c" for cid c
    using kept [OF that] by (auto simp: kept_def active_names_def)
qed

text \<open>C9. After a synchronisation without error every enabled user with a key has its client, with his key,
  pools and limits, and every client that has a name belongs to such a user.\<close>

theorem SyncNPSState_clients:
  assumes "SyncNPSState env us ts (Some db) = (Some db', None)" "nps_ok db" "nps_room db us ts" "sync_inputs us ts"
  shows "(\<forall>u \<in> set us. nps_user u \<longrightarrow> (\<exists>cid c. mget (ndClients db') cid = Some c \<and> serves u c)) \<and>
    (\<forall>cid c. mget (ndClients db') cid = Some c \<longrightarrow> nps_display_name c = [] \<or>
       (\<exists>u \<in> set us. nps_user u \<and> nps_display_name c = uName u))"
  by (rule clients_of_a_run [OF assms])

text \<open>The tasks and hosts a list of tunnels asks for, and nothing managed beside them.\<close>

definition tunnels_realised :: "User list \<Rightarrow> Tunnel list \<Rightarrow> NpsState \<Rightarrow> bool" where
  "tunnels_realised us ts db \<longleftrightarrow> (\<forall>t \<in> set ts. nps_tunnel us t \<longrightarrow>
     (\<exists>cid c. mget (ndClients db) cid = Some c \<and> clWebUserName c = tUserName t \<and>
        (if web_tunnel t then \<forall>d \<in> set (tDomains t). \<exists>i h. mget (ndHosts db) i = Some h \<and> fronts t cid d h
         else \<exists>i k. mget (ndTasks db) i = Some k \<and> runs t cid k)))"

definition nothing_else_managed :: "User list \<Rightarrow> Tunnel list \<Rightarrow> NpsState \<Rightarrow> bool" where
  "nothing_else_managed us ts db \<longleftrightarrow>
     (\<forall>i k. mget (ndTasks db) i = Some k \<longrightarrow> managed (tkRemark k) \<longrightarrow>
        (\<exists>t \<in> set ts. nps_tunnel us t \<and> \<not> web_tunnel t \<and> tkRemark k = managedNPSRemark (tID t))) \<and>
     (\<forall>i h. mget (ndHosts db) i = Some h \<longrightarrow> managed (hoRemark h) \<longrightarrow>
        (\<exists>t \<in> set ts. nps_tunnel us t \<and> web_tunnel t \<and> hoRemark h \<in> set (host_remarks t))) \<and>
     remarks_ok tkRemark (ndTasks db) \<and> remarks_ok hoRemark (ndHosts db)"

lemma tunnels_of_a_run:
  assumes "SyncNPSState env us ts (Some db) = (Some db', None)" "nps_ok db" "nps_room db us ts" "sync_inputs us ts"
  shows "tunnels_realised us ts db' \<and> nothing_else_managed us ts db'"
proof (rule SyncNPSState_run [OF assms], intro conjI)
  fix db1 and cl :: "(string, int) gomap"
  assume names: "\<And>n. mget cl n \<noteq> None \<longleftrightarrow> n \<in> set (active_names us)"
    and served: "\<And>n cid. mget cl n = Some cid \<Longrightarrow> \<exists>c u. mget (ndClients db') cid = Some c \<and> u \<in> set us \<and>
       nps_user u \<and> uName u = n \<and> serves u c"
    and there: "\<And>t. t \<in> set ts \<Longrightarrow> wanted cl t \<Longrightarrow> (if web_tunnel t then sites_ok cl db' t else task_ok cl db' t)"
    and t_only: "\<And>j k. mget (ndTasks db') j = Some k \<Longrightarrow> managed (tkRemark k) \<Longrightarrow> tkRemark k \<in> set (task_remarks cl ts)"
    and h_only: "\<And>j h. mget (ndHosts db') j = Some h \<Longrightarrow> managed (hoRemark h) \<Longrightarrow> hoRemark h \<in> set (site_remarks cl ts)"
    and rems: "remarks_ok tkRemark (ndTasks db')" "remarks_ok hoRemark (ndHosts db')"
  note w = wanted_iff [OF names]
  have owner: "\<exists>c. mget (ndClients db') cid = Some c \<and> clWebUserName c = n" if "mget cl n = Some cid" for n cid
    using served [OF that] by (auto simp: serves_def)
  show "tunnels_realised us ts db'"
    unfolding tunnels_realised_def
  proof (intro ballI impI)
    fix t assume t: "t \<in> set ts" "nps_tunnel us t"
    note at = there [OF t(1) t(2) [folded w]]
    obtain cid where cid: "mget cl (tUserName t) = Some cid"
      and goal: "if web_tunnel t then \<forall>d \<in> set (tDomains t). \<exists>i h. mget (ndHosts db') i = Some h \<and> fronts t cid d h
         else \<exists>i k. mget (ndTasks db') i = Some k \<and> runs t cid k"
      using at unfolding sites_ok_def task_ok_def site_ok_def row_at_def by (cases "web_tunnel t") (simp, blast)+
    with owner [OF cid] show "\<exists>cid c. mget (ndClients db') cid = Some c \<and> clWebUserName c = tUserName t \<and>
        (if web_tunnel t then \<forall>d \<in> set (tDomains t). \<exists>i h. mget (ndHosts db') i = Some h \<and> fronts t cid d h
         else \<exists>i k. mget (ndTasks db') i = Some k \<and> runs t cid k)"
      by blast
  qed
  show "nothing_else_managed us ts db'"
    unfolding nothing_else_managed_def
  proof (intro conjI allI impI)
    show "\<exists>t \<in> set ts. nps_tunnel us t \<and> \<not> web_tunnel t \<and> tkRemark k = managedNPSRemark (tID t)"
      if "mget (ndTasks db') i = Some k" "managed (tkRemark k)" for i k
      using t_only [OF that] by (auto simp: task_remarks_def w)
    show "\<exists>t \<in> set ts. nps_tunnel us t \<and> web_tunnel t \<and> hoRemark h \<in> set (host_remarks t)"
      if "mget (ndHosts db') i = Some h" "managed (hoRemark h)" for i h
      using h_only [OF that] by (auto simp: site_remarks_mem w)
  qed (fact rems)+
qed

text \<open>C10. After a synchronisation without error nps holds exactly the managed tasks and hosts the enabled
  tunnels of enabled users ask for: each port tunnel has its task and each domain its host, with
  port, mode, target and client, no two share a remark, and no managed one is left over.\<close>

theorem SyncNPSState_tunnels:
  assumes "SyncNPSState env us ts (Some db) = (Some db', None)" "nps_ok db" "nps_room db us ts" "sync_inputs us ts"
  shows "tunnels_realised us ts db' \<and> nothing_else_managed us ts db'"
  by (rule tunnels_of_a_run [OF assms])

text \<open>C11. A synchronisation does not touch what the control program does not manage: a task or host whose
  remark is not its own survives unchanged, unless the client it belongs to has the name of no
  enabled user.\<close>

theorem SyncNPSState_foreign:
  assumes "SyncNPSState env us ts (Some db) = (Some db', None)" "nps_ok db" "nps_room db us ts" "sync_inputs us ts"
  shows "(mget (ndTasks db) j = Some k \<and> \<not> managed (tkRemark k) \<and> mget (ndClients db) (tkClient k) = Some c \<and> kept us c \<longrightarrow>
      mget (ndTasks db') j = Some k) \<and>
    (mget (ndHosts db) j = Some h \<and> \<not> managed (hoRemark h) \<and> mget (ndClients db) (hoClient h) = Some c \<and> kept us c \<longrightarrow>
      mget (ndHosts db') j = Some h)"
  by (rule SyncNPSState_run [OF assms]) blast

section \<open>A concrete synchronisation\<close>

definition demo_nps_env :: NpsEnv where
  "demo_nps_env = \<lparr>neAllowed = [], nePortFree = \<lambda>_ _. True, neCloses = \<lambda>_. True, neVkeys = []\<rparr>"

definition demo_nps_users :: "User list" where
  "demo_nps_users =
     [zero_User\<lparr>uName := ''alice'', uEnabled := True, uNPSVerifyKey := ''ka'', uPortPools := [\<lparr>rStart = 7000, rEnd = 7001\<rparr>]\<rparr>,
      zero_User\<lparr>uName := ''carol'', uEnabled := True, uNPSVerifyKey := ''kc''\<rparr>,
      zero_User\<lparr>uName := ''dave'', uNPSVerifyKey := ''kd''\<rparr>]"

definition demo_nps_tunnels :: "Tunnel list" where
  "demo_nps_tunnels =
     [zero_Tunnel\<lparr>tID := ''t1'', tUserName := ''alice'', tEngine := ''nps'', tMode := ''tcp'', tRemotePort := 7000,
        tLocalIP := ''127.0.0.1'', tLocalPort := 80, tEnabled := True\<rparr>,
      zero_Tunnel\<lparr>tID := ''t2'', tUserName := ''carol'', tEngine := ''nps'', tMode := ''https'', tDomains := [''a.io'', ''b.io''],
        tLocalIP := ''127.0.0.1'', tLocalPort := 443, tEnabled := True\<rparr>]"

definition demo_foreign_task :: NpsTask where
  "demo_foreign_task = zero_Task\<lparr>tkId := 1, tkPort := 9000, tkMode := ''tcp'', tkClient := 1, tkRemark := ''manual''\<rparr>"

definition demo_carol :: NpsClient where
  "demo_carol = (make_NpsClient ''kc'' False False)\<lparr>clId := 1, clWebUserName := ''carol'', clRate := Some 1\<rparr>"

definition demo_nps :: NpsState where
  "demo_nps = \<lparr>ndClients = [(1, demo_carol)], ndTasks = [(1, demo_foreign_task)], ndHosts = [],
     ndClientInc = 1, ndTaskInc = 1, ndHostInc = 0, ndRunning = [1], ndBridge = Some []\<rparr>"

definition demo_synced :: NpsState where
  "demo_synced = the (fst (SyncNPSState demo_nps_env demo_nps_users demo_nps_tunnels (Some demo_nps)))"

lemma demo_sync:
  "SyncNPSState demo_nps_env demo_nps_users demo_nps_tunnels (Some demo_nps) = (Some demo_synced, None)"
proof -
  have "snd (SyncNPSState demo_nps_env demo_nps_users demo_nps_tunnels (Some demo_nps)) = None" by code_simp
  moreover have "fst (SyncNPSState demo_nps_env demo_nps_users demo_nps_tunnels (Some demo_nps)) \<noteq> None" by code_simp
  ultimately show ?thesis by (auto simp: demo_synced_def prod_eq_iff)
qed

lemma demo_sync_pre:
  "nps_ok demo_nps" "nps_room demo_nps demo_nps_users demo_nps_tunnels" "sync_inputs demo_nps_users demo_nps_tunnels"
proof -
  show "nps_ok demo_nps"
    by (auto simp: nps_ok_def clients_ok_def tasks_ok_def hosts_ok_def counted_def keyed_iff remarks_ok_def mwf_def
        mget_def demo_nps_def demo_carol_def demo_foreign_task_def)
  show "nps_room demo_nps demo_nps_users demo_nps_tunnels" by code_simp
  show "sync_inputs demo_nps_users demo_nps_tunnels" by code_simp
qed

theorem SyncNPSState_clients_witness:
  "\<exists>cid c. mget (ndClients demo_synced) cid = Some c \<and> serves (hd demo_nps_users) c"
  using SyncNPSState_clients [OF demo_sync demo_sync_pre] by (auto simp: demo_nps_users_def nps_user_def)

theorem SyncNPSState_tunnels_witness:
  "tunnels_realised demo_nps_users demo_nps_tunnels demo_synced \<and>
   nothing_else_managed demo_nps_users demo_nps_tunnels demo_synced"
  by (rule SyncNPSState_tunnels [OF demo_sync demo_sync_pre])

theorem SyncNPSState_foreign_witness:
  "mget (ndTasks demo_synced) 1 = Some demo_foreign_task"
proof -
  have "mget (ndTasks demo_nps) 1 = Some demo_foreign_task" "\<not> managed (tkRemark demo_foreign_task)"
    "mget (ndClients demo_nps) (tkClient demo_foreign_task) = Some demo_carol" "kept demo_nps_users demo_carol"
    by code_simp+
  then show ?thesis using SyncNPSState_foreign [OF demo_sync demo_sync_pre] by blast
qed

lemma demo_synced_rows:
  "map fst (ndTasks demo_synced) = [1, 2]" "map (hoRemark \<circ> snd) (ndHosts demo_synced) = [''tc:t2:a.io'', ''tc:t2:b.io'']"
  "map (clWebUserName \<circ> snd) (ndClients demo_synced) = [''carol'', ''alice'']"
  by code_simp+

end
