(* ===== verification/NpsLimits.thy ===== *)
theory NpsLimits
  imports SyncProps
begin

text \<open>
  Ports, rates and traffic as the embedded nps sees them: the port pool text read back by
  nps, the limits a synchronisation sets, and the totals read from the flow counters.
\<close>

section \<open>The port pool\<close>

lemma port_text: "port_ok p \<Longrightarrow> IsPort (itoa p) \<and> port_val (itoa p) = p"
  using atoi_itoa [OF port_ok_int64 [of p]] by (simp add: IsPort_def port_val_def port_ok_def)

lemma ports_of_range: "range_ok r \<Longrightarrow> set (ports_of_part (range_String r)) = {p. Contains r p}"
proof -
  assume r: "range_ok r"
  then have s: "port_ok (rStart r)" and e: "port_ok (rEnd r)" by (simp_all add: range_ok_def)
  note S = port_text [OF s] and E = port_text [OF e]
  note d = minus_notin_itoa [OF s] minus_notin_itoa [OF e]
  show ?thesis
  proof (cases "rStart r = rEnd r")
    case True
    have "split_on CHR ''-'' (itoa (rStart r)) = [itoa (rStart r)]" by (rule split_on_single [OF d(1)])
    with True S show ?thesis by (auto simp: range_String_def ports_of_part_def Contains_def)
  next
    case False
    have "split_on CHR ''-'' (itoa (rStart r) @ CHR ''-'' # itoa (rEnd r)) = [itoa (rStart r), itoa (rEnd r)]"
      using split_on_append [OF d(1), of "itoa (rEnd r)"] split_on_single [OF d(2)] by simp
    with False S E show ?thesis by (auto simp: range_String_def ports_of_part_def Contains_def)
  qed
qed

text \<open>The text of a port pool that the control program hands to nps admits exactly the ports of the pool
  when the pool is not empty: both programs agree on every port.\<close>

theorem port_pool_agreement:
  assumes "list_all range_ok rs" "rs \<noteq> []"
  shows "p \<in> set (GetPorts (FormatPortRanges rs)) \<longleftrightarrow> portInRanges p rs"
proof -
  have "set (GetPorts (FormatPortRanges rs)) = (\<Union>r \<in> set rs. {p. Contains r p})"
    unfolding GetPorts_def split_FormatPortRanges [OF assms]
    using assms(1) by (auto simp: list_all_iff ports_of_range)
  then show ?thesis by (auto simp: portInRanges_def list_ex_iff)
qed

theorem port_pool_agreement_witness:
  "7000 \<in> set (GetPorts (FormatPortRanges [\<lparr>rStart = 7000, rEnd = 7001\<rparr>]))"
  using port_pool_agreement [of "[\<lparr>rStart = 7000, rEnd = 7001\<rparr>]" 7000]
  by (simp add: range_ok_def port_ok_def portInRanges_def Contains_def)

text \<open>The empty pool is read in opposite ways: the control program grants no port of an empty pool, while
  the client it configures in nps from that pool may open every port.\<close>

theorem empty_pool_admits_all:
  "\<not> portInRanges p [] \<and>
   clPortPool (configure_client (u\<lparr>uPortPools := []\<rparr>) c) = [] \<and> GetPorts [] = [] \<and>
   clConfigConnAllow (configure_client (u\<lparr>uPortPools := []\<rparr>) c) \<and>
   IsServerPortAllowed [] p m (GetPorts (clPortPool (configure_client (u\<lparr>uPortPools := []\<rparr>) c))) =
     (m = ''p2p'' \<or> m = ''secret'' \<or> p \<in> {0..65535})"
proof -
  have "atoi [] = None" by code_simp
  then have "GetPorts [] = []" by (simp add: GetPorts_def ports_of_part_def IsPort_def)
  then show ?thesis
    by (auto simp: portInRanges_def configure_client_def FormatPortRanges_def IsServerPortAllowed_def)
qed

section \<open>Rate and flow limits\<close>

text \<open>Two limits do not take effect as set: a flow limit of 2^34 GiB becomes 0 bytes, which stands for no limit,
  because the product wraps; and a client that already has a rate limiter keeps it when the user's rate
  changes, because NewClient only makes one where none is.\<close>

theorem limits_edge_cases:
  "map_option flFlowLimit (clFlow (configure_client (u\<lparr>uFlowLimit := 2 ^ 34\<rparr>) c)) = Some 0 \<and>
   client_rate (configure_client (u\<lparr>uRateLimit := n\<rparr>) (c\<lparr>clRate := Some r\<rparr>)) =
     (if wrap64 (n * 128) = 0 then Some 17179869184 else Some r) \<and>
   map (clRate \<circ> snd) (ndClients (fst (sync_user demo_nps_env ((demo_nps_users ! 1)\<lparr>uRateLimit := 20\<rparr>) demo_nps))) = [Some 1]"
proof -
  have "wrap64 (2 ^ 34 * 1024 * 1024 * 1024) = 0" by (simp add: wrap64_def)
  moreover have "map (clRate \<circ> snd) (ndClients (fst (sync_user demo_nps_env
      ((demo_nps_users ! 1)\<lparr>uRateLimit := 20\<rparr>) demo_nps))) = [Some 1]" by code_simp
  ultimately show ?thesis by (simp add: configure_client_def client_rate_def)
qed

section \<open>Traffic totals\<close>

definition flow_inlet :: "string \<Rightarrow> (string \<times> NpsFlow) list \<Rightarrow> int" where
  "flow_inlet tid fs = sum_list (map (flInletFlow \<circ> snd) (filter (\<lambda>(i, _). i = tid) fs))"

definition flow_export :: "string \<Rightarrow> (string \<times> NpsFlow) list \<Rightarrow> int" where
  "flow_export tid fs = sum_list (map (flExportFlow \<circ> snd) (filter (\<lambda>(i, _). i = tid) fs))"

text \<open>The tunnel a managed row belongs to, with its counters.\<close>

definition task_flows :: "NpsTask \<Rightarrow> (string \<times> NpsFlow) list" where
  "task_flows k = (case tkFlow k of None \<Rightarrow> []
     | Some f \<Rightarrow> if has_prefix (tkRemark k) ''tc:'' then [(trim_prefix (tkRemark k) ''tc:'', f)] else [])"

definition host_flows :: "NpsHost \<Rightarrow> (string \<times> NpsFlow) list" where
  "host_flows h = (case hoFlow h of None \<Rightarrow> []
     | Some f \<Rightarrow> if has_prefix (hoRemark h) ''tc:'' then [(takeWhile (\<lambda>c. c \<noteq> CHR '':'') (trim_prefix (hoRemark h) ''tc:''), f)] else [])"

definition all_flows :: "NpsState \<Rightarrow> (string \<times> NpsFlow) list" where
  "all_flows db = concat (map (task_flows \<circ> snd) (ndTasks db)) @ concat (map (host_flows \<circ> snd) (ndHosts db))"

abbreviation add_flows :: "(string \<times> NpsFlow) list \<Rightarrow> (string, TunnelTraffic) gomap \<Rightarrow> (string, TunnelTraffic) gomap" where
  "add_flows fs m \<equiv> fold (\<lambda>(i, f). add_traffic i f) fs m"

lemma split_on_second:
  "length (split_on c s) \<ge> 1 \<and> hd (split_on c s) = takeWhile (\<lambda>x. x \<noteq> c) s"
  by (induction s) (auto split: list.splits)

lemma collect_task_flows: "collect_task k m = add_flows (task_flows k) m"
  by (simp add: collect_task_def task_flows_def split: option.splits)

lemma collect_host_flows: "collect_host h m = add_flows (host_flows h) m"
proof (cases "has_prefix (hoRemark h) ''tc:''")
  case True
  then obtain s where s: "hoRemark h = ''tc'' @ CHR '':'' # s" by (auto simp: has_prefix_iff)
  have tp: "trim_prefix (hoRemark h) ''tc:'' = s" using trim_prefix_append [of "''tc:''" s] by (simp add: s)
  have sp: "split_on CHR '':'' (hoRemark h) = ''tc'' # split_on CHR '':'' s"
    unfolding s by (rule split_on_append) simp
  have "split_on CHR '':'' s ! 0 = takeWhile (\<lambda>c. c \<noteq> CHR '':'') s"
    using split_on_second [of "CHR '':''" s] by (metis hd_conv_nth split_on_not_Nil)
  with True tp sp split_on_second [of "CHR '':''" s] show ?thesis
    by (simp add: collect_host_def host_flows_def split: option.splits)
qed (simp add: collect_host_def host_flows_def split: option.splits)

lemma add_flows_tasks: "fold (\<lambda>(_, k). collect_task k) xs m = add_flows (concat (map (task_flows \<circ> snd) xs)) m"
  by (induction xs arbitrary: m) (auto simp: collect_task_flows)

lemma add_flows_hosts: "fold (\<lambda>(_, h). collect_host h) xs m = add_flows (concat (map (host_flows \<circ> snd) xs)) m"
  by (induction xs arbitrary: m) (auto simp: collect_host_flows)

lemma collected_flows: "fst (CollectNPSTraffic (Some db)) = map snd (add_flows (all_flows db) [])"
  by (simp add: CollectNPSTraffic_def all_flows_def add_flows_tasks add_flows_hosts)

definition traffic_row :: "string \<Rightarrow> (string \<times> NpsFlow) list \<Rightarrow> TunnelTraffic" where
  "traffic_row tid fs = \<lparr>ttTunnelID = tid, ttInletFlow = wrap64 (flow_inlet tid fs), ttExportFlow = wrap64 (flow_export tid fs)\<rparr>"

lemma wrap64_0 [simp]: "wrap64 0 = 0"
  by (simp add: wrap64_def)

lemma add_flows_rows:
  "mwf (add_flows fs []) \<and> (\<forall>tid. mget (add_flows fs []) tid =
     (if tid \<in> fst ` set fs then Some (traffic_row tid fs) else None))"
proof (induction fs rule: rev_induct)
  case (snoc x fs)
  obtain i f where x: "x = (i, f)" by (cases x)
  have miss: "flow_inlet i fs = 0 \<and> flow_export i fs = 0" if "i \<notin> fst ` set fs"
  proof -
    have "filter (\<lambda>(j, _). j = i) fs = []" using that by (force simp: filter_empty_conv)
    then show ?thesis by (simp add: flow_inlet_def flow_export_def)
  qed
  have row: "traffic_row i (fs @ [(i, f)]) = (if i \<in> fst ` set fs then traffic_row i fs
      else \<lparr>ttTunnelID = i, ttInletFlow = 0, ttExportFlow = 0\<rparr>)
      \<lparr>ttInletFlow := wrap64 (wrap64 (flow_inlet i fs) + flInletFlow f),
       ttExportFlow := wrap64 (wrap64 (flow_export i fs) + flExportFlow f)\<rparr>"
    by (simp add: traffic_row_def flow_inlet_def flow_export_def wrap64_add_wrap64)
  have other: "traffic_row j (fs @ [(i, f)]) = traffic_row j fs" if "j \<noteq> i" for j
    using that by (simp add: traffic_row_def flow_inlet_def flow_export_def)
  show ?case
    using snoc.IH row other miss
    by (auto simp: x add_traffic_def Let_def gomap_simps traffic_row_def)
qed simp

lemma managed_flows:
  "task_flows (k\<lparr>tkRemark := managedNPSRemark tid, tkFlow := Some f\<rparr>) = [(tid, f)]"
  "host_flows (h\<lparr>hoRemark := managedNPSHostRemark tid d, hoFlow := Some f\<rparr>) = [(takeWhile (\<lambda>c. c \<noteq> CHR '':'') tid, f)]"
proof -
  have "takeWhile (\<lambda>x. x \<noteq> CHR '':'') (tid @ CHR '':'' # d) = takeWhile (\<lambda>c. c \<noteq> CHR '':'') tid"
    by (induction tid) auto
  then show "host_flows (h\<lparr>hoRemark := managedNPSHostRemark tid d, hoFlow := Some f\<rparr>) = [(takeWhile (\<lambda>c. c \<noteq> CHR '':'') tid, f)]"
    by (simp add: host_flows_def managedNPSHostRemark_def has_prefix_def trim_prefix_def)
qed (simp add: task_flows_def managedNPSRemark_def has_prefix_def trim_prefix_def)

text \<open>The traffic nps reports has one row per tunnel, with the sums (at 64 bits) of the counters of the rows of
  nps that belong to the tunnel: the task of a port tunnel, the hosts of a domain tunnel. The task of a
  tunnel counts for it; a host counts for the part of the tunnel's id before the first colon, which is the id itself
  unless it has one.\<close>

theorem CollectNPSTraffic_totals:
  "set (fst (CollectNPSTraffic (Some db))) = {traffic_row tid (all_flows db) | tid. tid \<in> fst ` set (all_flows db)} \<and>
   distinct (map ttTunnelID (fst (CollectNPSTraffic (Some db)))) \<and>
   task_flows (k\<lparr>tkRemark := managedNPSRemark i, tkFlow := Some f\<rparr>) = [(i, f)] \<and>
   host_flows (h\<lparr>hoRemark := managedNPSHostRemark i d, hoFlow := Some f\<rparr>) = [(takeWhile (\<lambda>c. c \<noteq> CHR '':'') i, f)]"
proof -
  let ?m = "add_flows (all_flows db) []"
  note rows = add_flows_rows [of "all_flows db"]
  then have wf: "mwf ?m" by blast
  have mem: "(tid, t) \<in> set ?m \<longleftrightarrow> tid \<in> fst ` set (all_flows db) \<and> t = traffic_row tid (all_flows db)" for tid t
    unfolding mem_mget [OF wf] using rows by auto
  have "map (ttTunnelID \<circ> snd) ?m = map fst ?m"
    by (rule map_cong [OF refl]) (auto simp: mem traffic_row_def)
  then have "distinct (map ttTunnelID (map snd ?m))" using wf unfolding map_map mwf_def by (rule ssubst)
  moreover have "set (map snd ?m) = {traffic_row tid (all_flows db) | tid. tid \<in> fst ` set (all_flows db)}"
    using mem by (force simp: image_iff)
  ultimately show ?thesis
    by (simp add: collected_flows managed_flows)
qed

end
