(* ===== verification/NpsKeys.thy ===== *)
theory NpsKeys
  imports NpsLimits
begin

text \<open>
  The loop of nps that draws verification keys for a client created without one ends as soon
  as more different keys were drawn than there are clients.
\<close>

lemma draw_vkey_Some:
  "draw_vkey db cid ks = Some k \<longleftrightarrow> (\<exists>xs ys. ks = xs @ k # ys \<and> VerifyVkey db k cid \<and> (\<forall>x \<in> set xs. \<not> VerifyVkey db x cid))"
proof (induction ks)
  case (Cons a ks)
  show ?case
  proof (cases "VerifyVkey db a cid")
    case True
    then show ?thesis by (auto simp: Cons_eq_append_conv)
  next
    case False
    then show ?thesis by (auto simp: Cons Cons_eq_append_conv) (metis append_Cons set_ConsD)
  qed
qed simp

lemma draw_vkey_None: "draw_vkey db cid ks = None \<longleftrightarrow> (\<forall>k \<in> set ks. \<not> VerifyVkey db k cid)"
  by (induction ks) auto

lemma fresh_key_drawn:
  assumes "distinct ks" "length (ndClients db) < length ks"
  shows "\<exists>k. draw_vkey db cid ks = Some k"
proof (rule ccontr)
  assume "\<not> ?thesis"
  then have "\<forall>k \<in> set ks. \<not> VerifyVkey db k cid" by (simp add: draw_vkey_None [symmetric])
  then have "set ks \<subseteq> (\<lambda>(_, v). clVerifyKey v) ` set (ndClients db)"
    by (force simp: VerifyVkey_def list_all_iff)
  then have "card (set ks) \<le> card ((\<lambda>(_, v). clVerifyKey v) ` set (ndClients db))" by (rule card_mono [rotated]) simp
  also have "\<dots> \<le> card (set (ndClients db))" by (rule card_image_le) simp
  also have "\<dots> \<le> length (ndClients db)" by (rule card_length)
  finally show False using assms by (simp add: distinct_card)
qed

text \<open>A client created without a verification key and without a login name gets one: the loop that draws keys
  returns once it has drawn more different keys than there are clients, the key it returns was drawn and belongs to
  no other client, no earlier draw was free, and the client is stored under the next id.\<close>

theorem NewClient_returns:
  assumes "clId c = 0" "clVerifyKey c = []" "clWebUserName c = []"
    and "distinct (neVkeys env)" "length (ndClients db) < length (neVkeys env)"
  shows "\<exists>db' c' used rest. NewClient env c db = (db', Inr c') \<and> neVkeys env = used @ clVerifyKey c' # rest \<and>
    (\<forall>i v. (i, v) \<in> set (ndClients db) \<longrightarrow> clVerifyKey v = clVerifyKey c' \<longrightarrow> clId v = 0) \<and>
    (\<forall>k \<in> set used. \<exists>i v. (i, v) \<in> set (ndClients db) \<and> clVerifyKey v = k) \<and>
    clId c' = wrap32 (ndClientInc db + 1) \<and> mget (ndClients db') (clId c') = Some c'"
proof -
  let ?c = "c\<lparr>clRate := client_rate c\<rparr>"
  obtain k where k: "draw_vkey db 0 (neVkeys env) = Some k" using fresh_key_drawn [OF assms(4,5)] by blast
  then obtain used rest where split: "neVkeys env = used @ k # rest" "VerifyVkey db k 0"
    "\<forall>x \<in> set used. \<not> VerifyVkey db x 0" unfolding draw_vkey_Some by blast
  define c' where "c' = (let c2 = ?c\<lparr>clVerifyKey := k, clId := wrap32 (ndClientInc db + 1)\<rparr>
    in if clFlow c2 = None then c2\<lparr>clFlow := Some zero_Flow\<rparr> else c2)"
  have "NewClient env c db = (put_client c' (db\<lparr>ndClientInc := wrap32 (ndClientInc db + 1)\<rparr>), Inr c')"
    using assms(1-3) k by (simp add: NewClient_def write_client_def GetClientId_def c'_def Let_def)
  moreover have c': "clVerifyKey c' = k" "clId c' = wrap32 (ndClientInc db + 1)" by (simp_all add: c'_def Let_def)
  moreover have "mget (ndClients (put_client c' (db\<lparr>ndClientInc := wrap32 (ndClientInc db + 1)\<rparr>))) (clId c') = Some c'"
    by (simp add: put_client_def gomap_simps)
  moreover have "\<forall>i v. (i, v) \<in> set (ndClients db) \<longrightarrow> clVerifyKey v = k \<longrightarrow> clId v = 0"
    using split(2) by (auto simp: VerifyVkey_def list_all_iff)
  moreover have "\<forall>x \<in> set used. \<exists>i v. (i, v) \<in> set (ndClients db) \<and> clVerifyKey v = x"
    using split(3) by (fastforce simp: VerifyVkey_def list_all_iff)
  ultimately show ?thesis using split(1) by blast
qed

theorem NewClient_returns_witness:
  "\<exists>db' c'. NewClient (demo_nps_env\<lparr>neVkeys := [''kc'', ''k1'']\<rparr>) (make_NpsClient [] True True) demo_nps = (db', Inr c') \<and>
     clVerifyKey c' = ''k1'' \<and> clId c' = 2"
proof -
  have h: "clId (make_NpsClient [] True True) = 0" "clVerifyKey (make_NpsClient [] True True) = []"
    "clWebUserName (make_NpsClient [] True True) = []"
    "distinct (neVkeys (demo_nps_env\<lparr>neVkeys := [''kc'', ''k1'']\<rparr>))"
    "length (ndClients demo_nps) < length (neVkeys (demo_nps_env\<lparr>neVkeys := [''kc'', ''k1'']\<rparr>))" by code_simp+
  have db: "(1, demo_carol) \<in> set (ndClients demo_nps)" "clVerifyKey demo_carol = ''kc''" "clId demo_carol = 1"
    "wrap32 (ndClientInc demo_nps + 1) = 2" by code_simp+
  from NewClient_returns [OF h] obtain db' c' used rest where
    r: "NewClient (demo_nps_env\<lparr>neVkeys := [''kc'', ''k1'']\<rparr>) (make_NpsClient [] True True) demo_nps = (db', Inr c')"
    "[''kc'', ''k1''] = used @ clVerifyKey c' # rest" "clId c' = 2"
    "\<forall>i v. (i, v) \<in> set (ndClients demo_nps) \<longrightarrow> clVerifyKey v = clVerifyKey c' \<longrightarrow> clId v = 0"
    unfolding db(4) by auto
  have "clVerifyKey c' \<noteq> ''kc''" using r(4) db(1-3) by fastforce
  then have "clVerifyKey c' = ''k1''" using r(2) by (auto simp: Cons_eq_append_conv)
  with r show ?thesis by blast
qed

end
