(* ===== verification/LogBuffer.thy ===== *)
theory LogBuffer
  imports CoreTypesFacts
begin

text \<open>
  \<^verbatim>\<open>cmd/tunnel-control/log_buffer.go\<close>: the bounded buffer of log lines behind
  \<^verbatim>\<open>/api/logs\<close>. The clock is the function \<open>clock\<close> from the id of an entry to
  the time it is made.
\<close>

section \<open>State\<close>

record logEntry =
  leID :: int
  leTime :: time
  leStream :: string
  leMessage :: string

record logBuffer =
  lbNextID :: int
  lbMax :: nat
  lbEntries :: "logEntry list"
  lbPartial :: "(string, string) gomap"

definition newLogBuffer :: "int \<Rightarrow> logBuffer" where
  "newLogBuffer m = \<lparr>lbNextID = 0, lbMax = nat (if m \<le> 0 then 1000 else m), lbEntries = [], lbPartial = []\<rparr>"

section \<open>Removing terminal escapes\<close>

text \<open>
  \<^verbatim>\<open>ansiPattern\<close>: ESC, an opening bracket, parameter bytes, intermediate bytes, one final
  byte. The three classes are disjoint, so the longest match is the only one.
\<close>

definition ansi_param :: "char \<Rightarrow> bool" where
  "ansi_param c \<longleftrightarrow> is_digit c \<or> c = CHR '';'' \<or> c = CHR ''?''"

definition ansi_inter :: "char \<Rightarrow> bool" where
  "ansi_inter c \<longleftrightarrow> 32 \<le> byte c \<and> byte c \<le> 47"

definition ansi_final :: "char \<Rightarrow> bool" where
  "ansi_final c \<longleftrightarrow> 64 \<le> byte c \<and> byte c \<le> 126"

text \<open>The text after an escape at the start of \<open>s\<close>.\<close>

definition ansi_match :: "string \<Rightarrow> string option" where
  "ansi_match s =
     (if has_prefix s [CHR 0x1B, CHR ''['']
      then (case dropWhile ansi_inter (dropWhile ansi_param (drop 2 s)) of
          [] \<Rightarrow> None
        | c # rest \<Rightarrow> if ansi_final c then Some rest else None)
      else None)"

lemma length_dropWhile2: "length (dropWhile p (dropWhile q s)) \<le> length s"
  by (meson length_dropWhile_le order_trans)

lemma ansi_match_shorter: "ansi_match s = Some r \<Longrightarrow> length r < length s"
  using length_dropWhile2 [of ansi_inter ansi_param "drop 2 s"]
  by (cases s) (auto simp: ansi_match_def has_prefix_def split: if_splits list.splits)

function strip_ansi :: "string \<Rightarrow> string" where
  "strip_ansi [] = []"
| "strip_ansi (c # s) = (case ansi_match (c # s) of
       Some rest \<Rightarrow> strip_ansi rest
     | None \<Rightarrow> c # strip_ansi s)"
  by pat_completeness auto
termination
  by (relation "measure length") (use ansi_match_shorter in fastforce)+

section \<open>Operations\<close>

definition clean_line :: "string \<Rightarrow> string" where
  "clean_line line = trim_space (strip_ansi line)"

definition addLine :: "(int \<Rightarrow> time) \<Rightarrow> string \<Rightarrow> string \<Rightarrow> logBuffer \<Rightarrow> logBuffer" where
  "addLine clock stream line0 b =
     (let line = clean_line line0 in
      if line = [] then b
      else let n = wrap64 (lbNextID b + 1);
               es = lbEntries b @ [\<lparr>leID = n, leTime = clock n, leStream = stream, leMessage = line\<rparr>]
           in b\<lparr>lbNextID := n,
                lbEntries := (if lbMax b < length es then drop (length es - lbMax b) es else es)\<rparr>)"

definition partial_of :: "logBuffer \<Rightarrow> string \<Rightarrow> string" where
  "partial_of b stream = (case mget (lbPartial b) stream of None \<Rightarrow> [] | Some p \<Rightarrow> p)"

definition LF :: char where "LF = CHR 0x0A"
definition CR :: char where "CR = CHR 0x0D"

definition addChunk :: "(int \<Rightarrow> time) \<Rightarrow> string \<Rightarrow> string \<Rightarrow> logBuffer \<Rightarrow> logBuffer" where
  "addChunk clock stream chunk b =
     (if chunk = [] then b
      else let text = partial_of b stream @ replace_all [CR, LF] [LF] chunk;
               lines = split_on LF text
           in fold (addLine clock stream) (butlast lines)
                (b\<lparr>lbPartial := mput stream (last lines) (lbPartial b)\<rparr>))"

definition Write :: "(int \<Rightarrow> time) \<Rightarrow> string \<Rightarrow> logBuffer \<Rightarrow> logBuffer \<times> nat" where
  "Write clock p b = (addChunk clock ''process'' p b, length p)"

definition entry_matches :: "string \<Rightarrow> logEntry \<Rightarrow> bool" where
  "entry_matches query e \<longleftrightarrow>
     \<not> (query \<noteq> [] \<and> \<not> contains (to_lower (leMessage e)) query \<and> \<not> contains (to_lower (leStream e)) query)"

text \<open>The loop of \<^verbatim>\<open>list\<close> runs over the entries from the newest one.\<close>

fun list_loop :: "nat \<Rightarrow> string \<Rightarrow> logEntry list \<Rightarrow> logEntry list \<Rightarrow> logEntry list" where
  "list_loop limit query [] out = out"
| "list_loop limit query (e # es) out =
     (if length out < limit
      then list_loop limit query es (if entry_matches query e then out @ [e] else out)
      else out)"

definition log_list :: "logBuffer \<Rightarrow> int \<Rightarrow> string \<Rightarrow> logEntry list" where
  "log_list b limit0 query0 =
     (let limit = (if limit0 \<le> 0 \<or> int (lbMax b) < limit0 then lbMax b else nat limit0);
          query = to_lower (trim_space query0)
      in rev (list_loop limit query (rev (lbEntries b)) []))"

definition log_clear :: "logBuffer \<Rightarrow> logBuffer" where
  "log_clear b = b\<lparr>lbEntries := [], lbPartial := []\<rparr>"

section \<open>Chunks do not matter\<close>

text \<open>A carriage return at the end of a line is removed with the surrounding white space.\<close>

lemma CR_facts: "is_space CR" "\<not> ansi_param CR" "\<not> ansi_inter CR" "\<not> ansi_final CR" "CR \<noteq> LF" "CR \<noteq> CHR 0x1B" "CR \<noteq> CHR ''[''"
  by code_simp+

lemma dropWhile_snoc: "\<not> p c \<Longrightarrow> dropWhile p (s @ [c]) = dropWhile p s @ [c]"
  by (induction s) auto

lemma ansi_match_CR: "ansi_match (s @ [CR]) = map_option (\<lambda>r. r @ [CR]) (ansi_match s)"
proof -
  consider "s = []" | c where "s = [c]" | c d t where "s = c # d # t" by (metis list.exhaust)
  then show ?thesis
  proof cases
    case 3
    define u where "u = dropWhile ansi_inter (dropWhile ansi_param t)"
    have "dropWhile ansi_inter (dropWhile ansi_param (t @ [CR])) = u @ [CR]"
      by (simp add: dropWhile_snoc CR_facts u_def)
    with 3 show ?thesis
      by (cases u) (auto simp: ansi_match_def has_prefix_def u_def [symmetric] CR_facts)
  qed (auto simp: ansi_match_def has_prefix_def CR_facts)
qed

lemma strip_ansi_CR: "strip_ansi (s @ [CR]) = strip_ansi s @ [CR]"
proof (induction s rule: strip_ansi.induct)
  case 1
  have "ansi_match [CR] = None" by (simp add: ansi_match_def has_prefix_def)
  then show ?case by simp
next
  case (2 c s)
  show ?case
  proof (cases "ansi_match (c # s)")
    case None
    then have "ansi_match (c # s @ [CR]) = None" using ansi_match_CR [of "c # s"] by simp
    with 2(1) [OF None] None show ?thesis by simp
  next
    case (Some r)
    then have "ansi_match (c # s @ [CR]) = Some (r @ [CR])" using ansi_match_CR [of "c # s"] by simp
    with 2(2) [OF Some] Some show ?thesis by simp
  qed
qed

lemma trim_space_snoc: "is_space c \<Longrightarrow> trim_space (x @ [c]) = trim_space x"
proof (cases "\<forall>d \<in> set x. is_space d")
  case True
  then have d: "dropWhile is_space x = []" by simp
  assume c: "is_space c"
  have "dropWhile is_space (x @ [c]) = []" using True c by simp
  with d show ?thesis by (simp only: trim_space_def trim_left_by_def)
next
  case False
  then obtain d where "d \<in> set x" "\<not> is_space d" by blast
  then have "dropWhile is_space (x @ [c]) = dropWhile is_space x @ [c]" by (rule dropWhile_append1)
  moreover assume "is_space c"
  ultimately show ?thesis by (simp add: trim_space_def trim_left_by_def trim_right_by_def)
qed

lemma clean_line_CR [simp]: "clean_line (s @ [CR]) = clean_line s"
  by (simp add: clean_line_def strip_ansi_CR CR_facts trim_space_snoc)

lemma addLine_clean: "clean_line x = clean_line y \<Longrightarrow> addLine clock stream x = addLine clock stream y"
  by (rule ext) (simp add: addLine_def)

lemma add_lines_clean:
  "map clean_line xs = map clean_line ys \<Longrightarrow> fold (addLine clock stream) xs b = fold (addLine clock stream) ys b"
proof (induction xs arbitrary: ys b)
  case (Cons x xs)
  then obtain y zs where ys: "ys = y # zs" "clean_line x = clean_line y" "map clean_line xs = map clean_line zs"
    by (cases ys) auto
  then show ?case using Cons.IH [OF ys(3)] addLine_clean [OF ys(2)] by simp
qed simp

text \<open>Cutting a text into lines, and what the replacement of CR LF changes about the lines.\<close>

lemma split_on_Cons_other: "x \<noteq> c \<Longrightarrow> split_on c (x # xs) = (x # hd (split_on c xs)) # tl (split_on c xs)"
  by (cases "split_on c xs") auto

lemma split_on_append_gen:
  "split_on c (xs @ ys) = butlast (split_on c xs) @ (last (split_on c xs) @ hd (split_on c ys)) # tl (split_on c ys)"
proof (induction xs)
  case Nil
  then show ?case by simp
next
  case (Cons x xs)
  obtain z zs where z: "split_on c xs = z # zs" by (meson split_on_not_Nil neq_Nil_conv)
  show ?case using Cons z by (cases zs) (auto split: list.splits)
qed

definition drop_cr :: "string \<Rightarrow> string" where
  "drop_cr s = (if s \<noteq> [] \<and> last s = CR then butlast s else s)"

lemma clean_drop_cr [simp]: "clean_line (p @ drop_cr s) = clean_line (p @ s)"
proof (cases "s \<noteq> [] \<and> last s = CR")
  case True
  then have "s = butlast s @ [CR]" by (metis append_butlast_last_id)
  then have "p @ s = (p @ butlast s) @ [CR]" by simp
  with True show ?thesis by (metis clean_line_CR drop_cr_def)
next
  case False
  then have "drop_cr s = s" unfolding drop_cr_def by (rule if_not_P)
  then show ?thesis by simp
qed

lemma clean_drop_cr0 [simp]: "clean_line (drop_cr s) = clean_line s"
  using clean_drop_cr [of "[]" s] by simp

lemma split_replace_CRLF:
  "split_on LF (replace_all [CR, LF] [LF] s) = map drop_cr (butlast (split_on LF s)) @ [last (split_on LF s)]"
proof (induction "length s" arbitrary: s rule: less_induct)
  case less
  show ?case
  proof (cases s)
    case (Cons c t)
    show ?thesis
    proof (cases "has_prefix s [CR, LF]")
      case True
      then obtain u where s: "s = CR # LF # u" by (auto simp: has_prefix_iff)
      then have "length u < length s" by simp
      from less [OF this] s CR_facts(5) show ?thesis
        by (auto simp: has_prefix_def drop_cr_def)
    next
      case False
      then have r: "replace_all [CR, LF] [LF] s = c # replace_all [CR, LF] [LF] t" using Cons by simp
      have "length t < length s" using Cons by simp
      note ih = less [OF this]
      obtain x xs where x: "split_on LF t = x # xs" by (meson split_on_not_Nil neq_Nil_conv)
      show ?thesis
      proof (cases "c = LF")
        case True
        with ih r Cons x show ?thesis by (simp add: drop_cr_def)
      next
        case c: False
        have d: "drop_cr (c # x) = c # drop_cr x" if "xs \<noteq> []"
        proof (cases "x = []")
          case True
          with x that have "t \<noteq> [] \<and> hd t = LF" by (cases t) (auto split: list.splits if_splits)
          with False Cons have "c \<noteq> CR" by (cases t) (auto simp: has_prefix_def)
          with True show ?thesis by (simp add: drop_cr_def)
        qed (simp add: drop_cr_def)
        from c ih r Cons x d show ?thesis by (cases "xs = []") (simp_all add: split_on_Cons_other)
      qed
    qed
  qed simp
qed

lemma addLine_partial: "addLine clock stream l (b\<lparr>lbPartial := m\<rparr>) = (addLine clock stream l b)\<lparr>lbPartial := m\<rparr>"
  by (simp add: addLine_def Let_def)

lemma addLines_partial: "fold (addLine clock stream) ls (b\<lparr>lbPartial := m\<rparr>) = (fold (addLine clock stream) ls b)\<lparr>lbPartial := m\<rparr>"
  by (induction ls arbitrary: b) (auto simp: addLine_partial)

lemma mput_twice [simp]: "mput k v (mput k w m) = mput k v m"
  unfolding mput_def by (induction m) auto

text \<open>The lines of the text so far, without the replacement of CR LF.\<close>

lemma addChunk_lines:
  assumes "chunk \<noteq> []"
  shows "addChunk clock stream chunk b =
    (let lines = split_on LF (partial_of b stream @ chunk) in
     (fold (addLine clock stream) (butlast lines) b)\<lparr>lbPartial := mput stream (last lines) (lbPartial b)\<rparr>)"
proof -
  let ?p = "partial_of b stream" and ?r = "replace_all [CR, LF] [LF] chunk"
  let ?P = "split_on LF ?p"
  obtain x xs where x: "split_on LF chunk = x # xs" by (meson split_on_not_Nil neq_Nil_conv)
  have r: "split_on LF ?r = map drop_cr (butlast (x # xs)) @ [last (x # xs)]"
    unfolding split_replace_CRLF x ..
  have c: "split_on LF (?p @ chunk) = butlast ?P @ (last ?P @ x) # xs"
    by (simp add: split_on_append_gen x)
  show ?thesis
  proof (cases "xs = []")
    case True
    then have "split_on LF (?p @ ?r) = split_on LF (?p @ chunk)" by (simp add: split_on_append_gen x r)
    with assms show ?thesis by (simp add: addChunk_def addLines_partial)
  next
    case False
    have d: "split_on LF (?p @ ?r) = butlast ?P @ (last ?P @ drop_cr x) # map drop_cr (butlast xs) @ [last xs]"
      using False by (simp add: split_on_append_gen r)
    have "map clean_line (butlast (split_on LF (?p @ ?r))) = map clean_line (butlast (split_on LF (?p @ chunk)))"
      unfolding c d using False by (simp add: butlast_append o_def)
    note same = add_lines_clean [OF this]
    have "last (split_on LF (?p @ ?r)) = last (split_on LF (?p @ chunk))"
      unfolding c d using False by simp
    with assms same show ?thesis by (simp add: addChunk_def addLines_partial Let_def)
  qed
qed

lemma addLines_keep_partial: "lbPartial (fold (addLine clock stream) ls b) = lbPartial b"
  by (induction ls arbitrary: b) (auto simp: addLine_def Let_def)

text \<open>How a stream is cut into writes does not matter: a chunk has the same effect on the buffer as its two
  parts one after the other, wherever it is cut, be it inside a line, inside an escape sequence or
  between a carriage return and its line feed.\<close>

theorem addChunk_split:
  "addChunk clock stream (c1 @ c2) b = addChunk clock stream c2 (addChunk clock stream c1 b)"
proof (cases "c1 = [] \<or> c2 = []")
  case True
  then show ?thesis by (auto simp: addChunk_def)
next
  case False
  let ?L = "split_on LF (partial_of b stream @ c1)"
  let ?b1 = "addChunk clock stream c1 b"
  have b1: "?b1 = (fold (addLine clock stream) (butlast ?L) b)\<lparr>lbPartial := mput stream (last ?L) (lbPartial b)\<rparr>"
    using False by (simp add: addChunk_lines Let_def)
  then have p1: "partial_of ?b1 stream = last ?L" by (simp add: partial_of_def gomap_simps)
  have lf: "LF \<notin> set (last ?L)" by (rule split_on_no_sep [of _ _ "partial_of b stream @ c1"]) simp
  have both: "split_on LF (partial_of b stream @ c1 @ c2) = butlast ?L @ split_on LF (last ?L @ c2)"
    using split_on_append_gen [of LF "partial_of b stream @ c1" c2] split_on_append_gen [of LF "last ?L" c2]
      split_on_single [OF lf] by simp
  have left: "addChunk clock stream (c1 @ c2) b =
      (fold (addLine clock stream) (butlast ?L @ butlast (split_on LF (last ?L @ c2))) b)
        \<lparr>lbPartial := mput stream (last (split_on LF (last ?L @ c2))) (lbPartial b)\<rparr>"
    using False by (simp add: addChunk_lines Let_def both butlast_append)
  have right: "addChunk clock stream c2 ?b1 =
      (fold (addLine clock stream) (butlast (split_on LF (last ?L @ c2))) ?b1)
        \<lparr>lbPartial := mput stream (last (split_on LF (last ?L @ c2))) (lbPartial ?b1)\<rparr>"
    using False addChunk_lines [of c2 clock stream ?b1] unfolding p1 Let_def by blast
  show ?thesis unfolding left right by (simp add: b1 addLines_partial)
qed

section \<open>The window\<close>

definition take_last :: "nat \<Rightarrow> 'a list \<Rightarrow> 'a list" where
  "take_last n xs = drop (length xs - n) xs"

lemma take_last_short [simp]: "length xs \<le> n \<Longrightarrow> take_last n xs = xs"
  by (simp add: take_last_def)

lemma length_take_last: "length (take_last n xs) \<le> n"
  by (simp add: take_last_def)

lemma take_last_snoc: "take_last n (take_last n xs @ [x]) = take_last n (xs @ [x])"
proof (cases "length xs < n")
  case False
  then have "Suc (length xs - Suc k) = length xs - k" if "n = Suc k" for k using that by simp
  with False show ?thesis by (cases n) (simp_all add: take_last_def)
qed simp

lemma take_last_rev: "take_last n xs = rev (take n (rev xs))"
  by (simp add: take_last_def take_rev)

text \<open>The entries made of a list of lines, with the numbers they get.\<close>

fun number_lines :: "(int \<Rightarrow> time) \<Rightarrow> int \<Rightarrow> (string \<times> string) list \<Rightarrow> logEntry list" where
  "number_lines clock n [] = []"
| "number_lines clock n ((stream, line) # ls) =
     (if clean_line line = [] then number_lines clock n ls
      else \<lparr>leID = wrap64 (n + 1), leTime = clock (wrap64 (n + 1)), leStream = stream, leMessage = clean_line line\<rparr>
        # number_lines clock (wrap64 (n + 1)) ls)"

abbreviation feed :: "(int \<Rightarrow> time) \<Rightarrow> (string \<times> string) list \<Rightarrow> logBuffer \<Rightarrow> logBuffer" where
  "feed clock ls b \<equiv> fold (\<lambda>(stream, line). addLine clock stream line) ls b"

lemma feed_max [simp]: "lbMax (feed clock ls b) = lbMax b"
  by (induction ls arbitrary: b) (auto simp: addLine_def Let_def)

lemma feed_entries:
  "lbEntries b = take_last (lbMax b) old \<Longrightarrow>
   lbEntries (feed clock ls b) = take_last (lbMax b) (old @ number_lines clock (lbNextID b) ls)"
proof (induction ls arbitrary: b old)
  case (Cons l ls)
  obtain stream line where l: "l = (stream, line)" by (cases l)
  show ?case
  proof (cases "clean_line line = []")
    case True
    with Cons l show ?thesis by (simp add: addLine_def)
  next
    case False
    let ?n = "wrap64 (lbNextID b + 1)"
    let ?e = "\<lparr>leID = ?n, leTime = clock ?n, leStream = stream, leMessage = clean_line line\<rparr>"
    let ?b = "addLine clock stream line b"
    have b: "lbMax ?b = lbMax b" "lbNextID ?b = ?n" using False by (simp_all add: addLine_def Let_def)
    have "lbEntries ?b = take_last (lbMax b) (lbEntries b @ [?e])"
      using False by (auto simp: addLine_def Let_def take_last_def)
    then have "lbEntries ?b = take_last (lbMax ?b) (old @ [?e])"
      unfolding Cons.prems take_last_snoc by (simp add: b)
    from Cons.IH [OF this] show ?thesis using False by (simp add: l b)
  qed
qed simp

lemma list_loop_take: "list_loop n q es out = out @ take (n - length out) (filter (entry_matches q) es)"
proof (induction es arbitrary: out)
  case (Cons e es)
  have "n - length out = Suc (n - Suc (length out))" if "length out < n" using that by simp
  with Cons show ?case by (auto simp: not_less)
qed simp

text \<open>The buffer is the tail of the whole log: after any lines it holds the last \<open>max\<close> non-empty ones, cleaned and
  numbered in order, and \<^verbatim>\<open>list\<close> returns, oldest first, the newest of those that match the query,
  never more than the limit or the size of the buffer.\<close>

theorem log_window:
  "let b = feed clock ls (newLogBuffer m); full = number_lines clock 0 ls; q = to_lower (trim_space query) in
   lbEntries b = take_last (lbMax b) full \<and> 0 < lbMax b \<and>
   log_list b limit query =
     take_last (if limit \<le> 0 \<or> int (lbMax b) < limit then lbMax b else nat limit)
       (filter (entry_matches q) (take_last (lbMax b) full))"
proof -
  have "lbEntries (newLogBuffer m) = take_last (lbMax (newLogBuffer m)) []"
    by (simp add: newLogBuffer_def)
  from feed_entries [OF this, of clock ls]
  have es: "lbEntries (feed clock ls (newLogBuffer m)) = take_last (lbMax (newLogBuffer m)) (number_lines clock 0 ls)"
    by (simp add: newLogBuffer_def)
  have pos: "0 < lbMax (newLogBuffer m)" by (simp add: newLogBuffer_def)
  show ?thesis
    unfolding Let_def log_list_def list_loop_take take_last_rev [of _ "filter _ _"] rev_filter
    by (simp add: es pos rev_filter [symmetric])
qed

end
