(* ===== verification/GoPath.thy ===== *)
theory GoPath
  imports GoStrings
begin

text \<open>
  \<^verbatim>\<open>path/filepath\<close> on Unix: \<^verbatim>\<open>Clean\<close>, \<^verbatim>\<open>Join\<close> and \<^verbatim>\<open>Dir\<close>. A path
  is resolved into its components on a stack whose top is the head of the list.
\<close>

fun clean_comps :: "bool \<Rightarrow> string list \<Rightarrow> string list \<Rightarrow> string list" where
  "clean_comps rooted st [] = rev st"
| "clean_comps rooted st (c # cs) =
     (if c = [] \<or> c = ''.'' then clean_comps rooted st cs
      else if c = ''..'' then
        (case st of
           [] \<Rightarrow> clean_comps rooted (if rooted then [] else [c]) cs
         | d # ds \<Rightarrow> clean_comps rooted (if d = ''..'' then c # st else ds) cs)
      else clean_comps rooted (c # st) cs)"

definition path_clean :: "string \<Rightarrow> string" where
  "path_clean p =
     (let rooted = has_prefix p ''/'';
          out = (if rooted then ''/'' else []) @ join ''/'' (clean_comps rooted [] (split_on CHR ''/'' p))
      in if out = [] then ''.'' else out)"

definition path_join :: "string list \<Rightarrow> string" where
  "path_join ps =
     (case filter (\<lambda>p. p \<noteq> []) ps of [] \<Rightarrow> [] | qs \<Rightarrow> path_clean (join ''/'' qs))"

definition path_dir :: "string \<Rightarrow> string" where
  "path_dir p = path_clean (rev (dropWhile (\<lambda>c. c \<noteq> CHR ''/'') (rev p)))"

definition plain_comp :: "string \<Rightarrow> bool" where
  "plain_comp c \<longleftrightarrow> c \<noteq> [] \<and> c \<noteq> ''.'' \<and> c \<noteq> ''..'' \<and> CHR ''/'' \<notin> set c"

lemma clean_comps_plain: "\<forall>c \<in> set cs. plain_comp c \<Longrightarrow> clean_comps r st cs = rev st @ cs"
  by (induction cs arbitrary: st) (auto simp: plain_comp_def)

lemma clean_comps_append_plain:
  "\<forall>c \<in> set cs. plain_comp c \<Longrightarrow> clean_comps r st (ds @ cs) = clean_comps r st ds @ cs"
proof (induction ds arbitrary: st)
  case Nil
  then show ?case by (simp add: clean_comps_plain)
next
  case (Cons d ds)
  then show ?case by (auto split: list.splits)
qed

lemma split_on_join_plain:
  "ps \<noteq> [] \<Longrightarrow> (\<And>p. p \<in> set ps \<Longrightarrow> CHR ''/'' \<notin> set p) \<Longrightarrow> split_on CHR ''/'' (join ''/'' ps) = ps"
  using split_on_join [of ps "CHR ''/''"] by simp

lemma split_on_slash: "split_on c (xs @ c # ys) = split_on c xs @ split_on c ys"
proof (induction xs)
  case (Cons x xs)
  obtain z zs where z: "split_on c xs = z # zs" by (meson split_on_not_Nil neq_Nil_conv)
  with Cons show ?case by auto
qed simp

lemma join_append: "xs \<noteq> [] \<Longrightarrow> ys \<noteq> [] \<Longrightarrow> join sep (xs @ ys) = join sep xs @ sep @ join sep ys"
  by (induction xs rule: induct_list012) (auto simp: join_Cons)

lemma join_Nil_iff: "(\<And>x. x \<in> set xs \<Longrightarrow> x \<noteq> []) \<Longrightarrow> join sep xs = [] \<longleftrightarrow> xs = []"
  by (cases xs; cases "tl xs") auto

text \<open>Joining plain names to a directory stays below the directory.\<close>

lemma path_join_below:
  assumes "d \<noteq> []" "path_clean d = d" "d \<noteq> ''/''" "d \<noteq> ''.''" "cs \<noteq> []" "\<forall>c \<in> set cs. plain_comp c"
  shows "path_join (d # cs) = d @ ''/'' @ join ''/'' cs"
proof -
  have ne: "filter (\<lambda>p. p \<noteq> []) (d # cs) = d # cs" using assms(1,6) by (auto simp: plain_comp_def filter_id_conv)
  let ?r = "has_prefix d ''/''"
  have pre: "has_prefix (d @ ''/'' @ join ''/'' cs) ''/'' = ?r"
    using assms(1) by (cases d) (auto simp: has_prefix_def)
  have sp: "split_on CHR ''/'' (d @ ''/'' @ join ''/'' cs) = split_on CHR ''/'' d @ cs"
    using split_on_slash [of "CHR ''/''" d "join ''/'' cs"] split_on_join_plain [OF assms(5)] assms(6)
    by (simp add: plain_comp_def)
  let ?c = "clean_comps ?r [] (split_on CHR ''/'' d)"
  have d: "(if ?r then ''/'' else []) @ join ''/'' ?c = d"
    using assms(2,4) by (auto simp: path_clean_def Let_def split: if_splits)
  have nec: "?c \<noteq> []" using d assms(1,3) by (auto split: if_splits)
  have "(if ?r then ''/'' else []) @ join ''/'' (?c @ cs) = ((if ?r then ''/'' else []) @ join ''/'' ?c) @ ''/'' @ join ''/'' cs"
    by (simp add: join_append [OF nec assms(5)])
  also have "\<dots> = d @ ''/'' @ join ''/'' cs" by (simp only: d)
  finally have out: "(if ?r then ''/'' else []) @ join ''/'' (?c @ cs) = d @ ''/'' @ join ''/'' cs" .
  have pj: "path_join (d # cs) = path_clean (d @ ''/'' @ join ''/'' cs)"
    unfolding path_join_def ne using assms(5) by (simp add: join_Cons)
  show ?thesis
    unfolding pj path_clean_def Let_def pre sp clean_comps_append_plain [OF assms(6)] out by simp
qed

end
