(* ===== verification/EngineManager.thy ===== *)
theory EngineManager
  imports GoPath CoreTypesFacts
begin

text \<open>
  \<^verbatim>\<open>internal/engine/manager.go\<close>: starting, stopping and observing the two engine
  processes. A command that was started is a record with a serial number (the identity of
  the \<^verbatim>\<open>*exec.Cmd\<close>) and a process id. What the operating system answers is the argument
  \<open>MgrEnv\<close>: which ports accept a connection at the first and at the last look, the process
  id a start gives (\<open>None\<close>: it fails), and whether killing succeeds.
\<close>

section \<open>State\<close>

record EngineConfig =
  ecFRPSBin :: string
  ecFRPSConfig :: string
  ecFRPSPort :: int
  ecNPSBin :: string
  ecNPSWorkDir :: string
  ecNPSPort :: int
  ecEmbedded :: bool

record EngineStatus =
  esEngine :: string
  esConfigured :: bool
  esRunning :: bool
  esPID :: int
  esPort :: int
  esPortOpen :: bool
  esBinary :: string
  esConfigPath :: string
  esWorkDir :: string
  esMessage :: string

record Command =
  cmPath :: string
  cmArgs :: "string list"
  cmDir :: string

record Process =
  prSerial :: nat
  prPid :: int
  prCommand :: Command

record Manager =
  mgCfg :: EngineConfig
  mgProcs :: "(string, Process) gomap"
  mgSerial :: nat

datatype manager_error =
    EmbeddedEngine string
  | FRPSNotConfigured
  | NPSNotConfigured
  | UnknownEngine string
  | StartFailed
  | KillFailed

record MgrEnv =
  mePortOpen :: "int \<Rightarrow> bool"
  mePortOpenLater :: "int \<Rightarrow> bool"
  mePid :: "int option"
  meKills :: bool

text \<open>The parts of \<^verbatim>\<open>runtime\<close> and \<^verbatim>\<open>filepath\<close> that depend on the platform.\<close>

record Platform =
  plWindows :: bool
  plVolumeName :: "string \<Rightarrow> string"
  plIsAbs :: "string \<Rightarrow> bool"

definition NewManager :: "EngineConfig \<Rightarrow> Manager" where
  "NewManager cfg = \<lparr>mgCfg = cfg, mgProcs = [], mgSerial = 0\<rparr>"

definition zero_EngineStatus :: EngineStatus where
  "zero_EngineStatus = \<lparr>esEngine = [], esConfigured = False, esRunning = False, esPID = 0, esPort = 0,
     esPortOpen = False, esBinary = [], esConfigPath = [], esWorkDir = [], esMessage = []\<rparr>"

section \<open>Operations\<close>

definition workDir :: "Platform \<Rightarrow> string \<Rightarrow> string \<Rightarrow> string" where
  "workDir pl bin configured =
     (if configured \<noteq> [] then configured
      else if bin = [] then []
      else if plWindows pl \<and> plVolumeName pl bin = [] \<and> \<not> plIsAbs pl bin then []
      else path_dir bin)"

definition command :: "Platform \<Rightarrow> EngineConfig \<Rightarrow> string \<Rightarrow> manager_error + Command" where
  "command pl cfg name =
     (if ecEmbedded cfg then Inl (EmbeddedEngine name)
      else if name = EngineFRP then
        (if ecFRPSBin cfg = [] then Inl FRPSNotConfigured
         else Inr \<lparr>cmPath = ecFRPSBin cfg,
                cmArgs = (if ecFRPSConfig cfg \<noteq> [] then [''-c'', ecFRPSConfig cfg] else []),
                cmDir = workDir pl (ecFRPSBin cfg) []\<rparr>)
      else if name = EngineNPS then
        (if ecNPSBin cfg = [] then Inl NPSNotConfigured
         else Inr \<lparr>cmPath = ecNPSBin cfg, cmArgs = [],
                cmDir = workDir pl (ecNPSBin cfg) (ecNPSWorkDir cfg)\<rparr>)
      else Inl (UnknownEngine name))"

definition baseStatus :: "EngineConfig \<Rightarrow> string \<Rightarrow> EngineStatus" where
  "baseStatus cfg name =
     (if name = EngineFRP then
        (let st = zero_EngineStatus\<lparr>esEngine := EngineFRP, esConfigured := (ecEmbedded cfg \<or> ecFRPSBin cfg \<noteq> []),
               esPort := ecFRPSPort cfg, esBinary := ecFRPSBin cfg, esConfigPath := ecFRPSConfig cfg\<rparr>
         in if ecEmbedded cfg then st\<lparr>esMessage := ''embedded in tunnel-control''\<rparr>
            else if \<not> esConfigured st then st\<lparr>esMessage := ''frps binary path is not configured''\<rparr> else st)
      else if name = EngineNPS then
        (let st = zero_EngineStatus\<lparr>esEngine := EngineNPS, esConfigured := (ecEmbedded cfg \<or> ecNPSBin cfg \<noteq> []),
               esPort := ecNPSPort cfg, esBinary := ecNPSBin cfg, esWorkDir := ecNPSWorkDir cfg\<rparr>
         in if ecEmbedded cfg then st\<lparr>esMessage := ''embedded in tunnel-control''\<rparr>
            else if \<not> esConfigured st then st\<lparr>esMessage := ''nps binary path is not configured''\<rparr> else st)
      else zero_EngineStatus\<lparr>esEngine := name, esMessage := ''unknown engine''\<rparr>)"

definition statusLocked :: "(int \<Rightarrow> bool) \<Rightarrow> Manager \<Rightarrow> string \<Rightarrow> EngineStatus" where
  "statusLocked portOpen m name =
     (let s0 = baseStatus (mgCfg m) name;
          s1 = (case mget (mgProcs m) name of None \<Rightarrow> s0 | Some p \<Rightarrow> s0\<lparr>esRunning := True, esPID := prPid p\<rparr>)
      in if 0 < esPort s1 then
           (let s2 = s1\<lparr>esPortOpen := portOpen (esPort s1)\<rparr>
            in if esPortOpen s2 then
                 (let s3 = s2\<lparr>esRunning := True\<rparr>
                  in if esPID s3 = 0
                     then s3\<lparr>esMessage := ''running; process is managed outside this control panel''\<rparr> else s3)
               else s2)
         else s1)"

definition Status :: "MgrEnv \<Rightarrow> Manager \<Rightarrow> string \<Rightarrow> EngineStatus" where
  "Status env m name = statusLocked (mePortOpen env) m name"

definition Statuses :: "MgrEnv \<Rightarrow> Manager \<Rightarrow> EngineStatus list" where
  "Statuses env m = [Status env m EngineFRP, Status env m EngineNPS]"

definition Start :: "Platform \<Rightarrow> MgrEnv \<Rightarrow> string \<Rightarrow> Manager \<Rightarrow> Manager \<times> EngineStatus \<times> manager_error option" where
  "Start pl env name m =
     (let st = statusLocked (mePortOpen env) m name in
      if esRunning st then (m, st, None)
      else (case command pl (mgCfg m) name of
          Inl e \<Rightarrow> (m, statusLocked (mePortOpen env) m name, Some e)
        | Inr cmd \<Rightarrow>
            (case mePid env of
               None \<Rightarrow> (m, statusLocked (mePortOpen env) m name, Some StartFailed)
             | Some pid \<Rightarrow>
                 let m' = m\<lparr>mgProcs := mput name \<lparr>prSerial = mgSerial m, prPid = pid, prCommand = cmd\<rparr> (mgProcs m),
                            mgSerial := mgSerial m + 1\<rparr>
                 in (m', statusLocked (mePortOpenLater env) m' name, None))))"

definition Stop :: "MgrEnv \<Rightarrow> string \<Rightarrow> Manager \<Rightarrow> Manager \<times> EngineStatus \<times> manager_error option" where
  "Stop env name m = (case mget (mgProcs m) name of
       None \<Rightarrow> (m, statusLocked (mePortOpenLater env) m name, None)
     | Some p \<Rightarrow>
         let m' = m\<lparr>mgProcs := mdel name (mgProcs m)\<rparr>
         in (m', statusLocked (mePortOpenLater env) m' name, if meKills env then None else Some KillFailed))"

text \<open>The goroutine that waits for process \<open>serial\<close>, started as \<open>name\<close>, when it has ended.\<close>

definition reap :: "string \<Rightarrow> nat \<Rightarrow> Manager \<Rightarrow> Manager" where
  "reap name serial m = (case mget (mgProcs m) name of
       None \<Rightarrow> m
     | Some p \<Rightarrow> if prSerial p = serial then m\<lparr>mgProcs := mdel name (mgProcs m)\<rparr> else m)"

text \<open>The steps: calls under the mutex, and a process ending after it was started.\<close>

inductive manager_step :: "Platform \<Rightarrow> Manager \<Rightarrow> Manager \<Rightarrow> bool" for pl where
  start: "manager_step pl m (fst (Start pl env name m))"
| stop: "manager_step pl m (fst (Stop env name m))"
| ended: "n < mgSerial m \<Longrightarrow> manager_step pl m (reap name n m)"

inductive manager_reachable :: "Platform \<Rightarrow> EngineConfig \<Rightarrow> Manager \<Rightarrow> bool" for pl cfg where
  new: "manager_reachable pl cfg (NewManager cfg)"
| step: "manager_reachable pl cfg m \<Longrightarrow> manager_step pl m m' \<Longrightarrow> manager_reachable pl cfg m'"

inductive_cases manager_stepE: "manager_step pl m m'"

section \<open>The invariant\<close>

definition manager_ok :: "Platform \<Rightarrow> EngineConfig \<Rightarrow> Manager \<Rightarrow> bool" where
  "manager_ok pl cfg m \<longleftrightarrow> mgCfg m = cfg \<and> mwf (mgProcs m) \<and>
     (\<forall>name p. mget (mgProcs m) name = Some p \<longrightarrow>
        command pl cfg name = Inr (prCommand p) \<and> prSerial p < mgSerial m) \<and>
     (\<forall>a b p q. mget (mgProcs m) a = Some p \<longrightarrow> mget (mgProcs m) b = Some q \<longrightarrow> a \<noteq> b \<longrightarrow> prSerial p \<noteq> prSerial q)"

lemma Start_procs:
  "fst (Start pl env name m) = m \<or>
   (\<exists>cmd pid. command pl (mgCfg m) name = Inr cmd \<and> mget (mgProcs m) name = None \<and>
      fst (Start pl env name m) =
        m\<lparr>mgProcs := mput name \<lparr>prSerial = mgSerial m, prPid = pid, prCommand = cmd\<rparr> (mgProcs m), mgSerial := mgSerial m + 1\<rparr>)"
proof (cases "esRunning (statusLocked (mePortOpen env) m name)")
  case False
  then have none: "mget (mgProcs m) name = None"
    by (auto simp: statusLocked_def Let_def split: option.splits if_splits)
  show ?thesis using False none by (auto simp: Start_def Let_def split: sum.splits option.splits)
qed (simp add: Start_def)

lemma manager_ok_del: "manager_ok pl cfg m \<Longrightarrow> manager_ok pl cfg (m\<lparr>mgProcs := mdel k (mgProcs m)\<rparr>)"
  by (auto simp: manager_ok_def gomap_simps split: if_splits)

lemma manager_ok_put:
  assumes "manager_ok pl cfg m" "command pl cfg k = Inr cmd"
  shows "manager_ok pl cfg (m\<lparr>mgProcs := mput k \<lparr>prSerial = mgSerial m, prPid = pid, prCommand = cmd\<rparr> (mgProcs m),
     mgSerial := mgSerial m + 1\<rparr>)"
  using assms unfolding manager_ok_def
  by (auto simp: gomap_simps less_Suc_eq split: if_splits) (metis less_irrefl)+

lemma manager_ok_step: "manager_step pl m m' \<Longrightarrow> manager_ok pl cfg m \<Longrightarrow> manager_ok pl cfg m'"
proof (erule manager_stepE)
  fix env name assume ok: "manager_ok pl cfg m" and m': "m' = fst (Start pl env name m)"
  have cfg: "mgCfg m = cfg" using ok by (simp add: manager_ok_def)
  show "manager_ok pl cfg m'"
    using Start_procs [of pl env name m] manager_ok_put [OF ok] ok unfolding m' cfg by auto
next
  fix env name assume ok: "manager_ok pl cfg m" and m': "m' = fst (Stop env name m)"
  then show "manager_ok pl cfg m'" by (auto simp: Stop_def Let_def manager_ok_del split: option.split)
next
  fix n name assume ok: "manager_ok pl cfg m" and m': "m' = reap name n m"
  then show "manager_ok pl cfg m'" by (auto simp: reap_def manager_ok_del split: option.split)
qed

lemma manager_reachable_ok: "manager_reachable pl cfg m \<Longrightarrow> manager_ok pl cfg m"
proof (induction rule: manager_reachable.induct)
  case new
  show ?case by (simp add: manager_ok_def NewManager_def)
next
  case (step m m')
  then show ?case by (blast intro: manager_ok_step)
qed

definition demo_platform :: Platform where
  "demo_platform = \<lparr>plWindows = False, plVolumeName = \<lambda>_. [], plIsAbs = \<lambda>p. has_prefix p ''/''\<rparr>"

definition demo_engines :: EngineConfig where
  "demo_engines = \<lparr>ecFRPSBin = [], ecFRPSConfig = [], ecFRPSPort = 7000, ecNPSBin = ''/opt/nps/nps'',
     ecNPSWorkDir = [], ecNPSPort = 8024, ecEmbedded = False\<rparr>"

definition demo_mgr_env :: MgrEnv where
  "demo_mgr_env = \<lparr>mePortOpen = \<lambda>_. False, mePortOpenLater = \<lambda>_. True, mePid = Some 42, meKills = True\<rparr>"

definition demo_manager :: Manager where
  "demo_manager = fst (Start demo_platform demo_mgr_env EngineNPS (NewManager demo_engines))"

text \<open>C33. In every reachable state the manager tracks at most one process per engine, only for engines that are
  configured and not embedded, each started with the command of the configuration; the goroutine of a
  process that was stopped and replaced never removes its successor.\<close>

theorem manager_tracks_engines:
  assumes "manager_reachable pl cfg m" "mget (mgProcs m) name = Some p"
  shows "command pl cfg name = Inr (prCommand p) \<and> name \<in> {EngineFRP, EngineNPS} \<and> \<not> ecEmbedded cfg \<and>
    mget (mgProcs (fst (Start pl env name m))) name = Some p \<and>
    mget (mgProcs (fst (Stop env name m))) name = None \<and>
    (n \<noteq> prSerial p \<longrightarrow> mget (mgProcs (reap name n m)) name = Some p) \<and>
    mget (mgProcs (reap name (prSerial p) m)) name = None"
proof -
  from manager_reachable_ok [OF assms(1)] assms(2) have c: "command pl cfg name = Inr (prCommand p)"
    by (auto simp: manager_ok_def)
  then have "name \<in> {EngineFRP, EngineNPS} \<and> \<not> ecEmbedded cfg"
    by (auto simp: command_def split: if_splits)
  moreover have "mget (mgProcs (fst (Start pl env name m))) name = Some p"
    using Start_procs [of pl env name m] assms(2) by auto
  ultimately show ?thesis using c assms(2)
    by (auto simp: Stop_def Let_def reap_def gomap_simps)
qed

theorem manager_tracks_engines_witness:
  "command demo_platform demo_engines EngineNPS = Inr \<lparr>cmPath = ''/opt/nps/nps'', cmArgs = [], cmDir = ''/opt/nps''\<rparr> \<and>
   mget (mgProcs (fst (Stop demo_mgr_env EngineNPS demo_manager))) EngineNPS = None"
proof -
  have r: "manager_reachable demo_platform demo_engines demo_manager"
    unfolding demo_manager_def by (rule manager_reachable.step [OF manager_reachable.new manager_step.start])
  have g: "mget (mgProcs demo_manager) EngineNPS =
      Some \<lparr>prSerial = 0, prPid = 42, prCommand = \<lparr>cmPath = ''/opt/nps/nps'', cmArgs = [], cmDir = ''/opt/nps''\<rparr>\<rparr>"
    by code_simp
  from manager_tracks_engines [OF r g, of demo_mgr_env 0] show ?thesis by simp
qed

text \<open>Starting an engine is idempotent and honest about errors: it succeeds exactly when the engine already runs, or
  is configured, not embedded and the process can be spawned; then its status says running and a
  second start changes nothing. When it fails nothing is tracked.\<close>

theorem Start_outcome:
  "let (m', st, err) = Start pl env name m in
   (err = None \<longleftrightarrow> esRunning (Status env m name) \<or> is_ok (command pl (mgCfg m) name) \<and> mePid env \<noteq> None) \<and>
   (err = None \<longrightarrow> esRunning st) \<and> (err \<noteq> None \<longrightarrow> m' = m \<and> \<not> esRunning st) \<and>
   (err = None \<longrightarrow> mget (mgProcs m') name \<noteq> None \<longrightarrow> fst (Start pl env2 name m') = m')"
proof -
  have run: "esRunning (statusLocked po m name)" if "mget (mgProcs m) name \<noteq> None" for po m name
    using that by (auto simp: statusLocked_def Let_def split: option.splits if_splits)
  then have idem: "fst (Start pl env2 name m) = m" if "mget (mgProcs m) name \<noteq> None" for m
    using that by (simp add: Start_def)
  show ?thesis
  proof (cases "esRunning (statusLocked (mePortOpen env) m name)")
    case True
    then show ?thesis using idem [of m] by (simp add: Start_def Status_def)
  next
    case False
    then show ?thesis
      using idem [of "fst (Start pl env name m)"]
      by (auto simp: Start_def Status_def Let_def run gomap_simps split: sum.splits option.splits)
  qed
qed

theorem Start_outcome_witness:
  "snd (snd (Start demo_platform demo_mgr_env EngineNPS (NewManager demo_engines))) = None \<and>
   esRunning (fst (snd (Start demo_platform demo_mgr_env EngineNPS (NewManager demo_engines)))) \<and>
   fst (Start demo_platform demo_mgr_env EngineNPS demo_manager) = demo_manager"
proof -
  have e: "is_ok (command demo_platform (mgCfg (NewManager demo_engines)) EngineNPS)" "mePid demo_mgr_env \<noteq> None"
    "mget (mgProcs demo_manager) EngineNPS \<noteq> None" by code_simp+
  obtain m' st err where r: "Start demo_platform demo_mgr_env EngineNPS (NewManager demo_engines) = (m', st, err)"
    by (metis prod.exhaust)
  then have m': "demo_manager = m'" by (simp add: demo_manager_def)
  from Start_outcome [of demo_platform demo_mgr_env EngineNPS "NewManager demo_engines" demo_mgr_env] e
  show ?thesis unfolding r m' by auto
qed

end
