(* ===== verification/FrpUsers.thy ===== *)
theory FrpUsers
  imports Integrated
begin

text \<open>
  The user store of the embedded frp server
  (\<^verbatim>\<open>upstream/frp/server/userstore/store.go\<close>) and \<^verbatim>\<open>SyncFRPState\<close> of
  \<^verbatim>\<open>internal/integrated/engines.go\<close>, which puts the users of the control database
  into it. The file of the store is a value; \<open>fwOk\<close> says whether it can be written. The
  verification of a login message is the parameter of \<open>ClientAuth\<close>.
\<close>

section \<open>The user store\<close>

record FrpRange =
  frStart :: int
  frEnd :: int
  frSingle :: int

record FrpUser =
  fxName :: string
  fxPassword :: string
  fxToken :: string
  fxRole :: string
  fxEnabled :: bool
  fxAllowPorts :: "FrpRange list"
  fxDomains :: "string list"
  fxMaxPorts :: int
  fxCreatedAt :: time
  fxUpdatedAt :: time
  fxLastLoginAt :: time

record FrpPublicUser =
  fpName :: string
  fpRole :: string
  fpEnabled :: bool
  fpAllowPorts :: "FrpRange list"
  fpDomains :: "string list"
  fpMaxPorts :: int
  fpHasPassword :: bool
  fpHasToken :: bool
  fpCreatedAt :: time
  fpUpdatedAt :: time
  fpLastLoginAt :: time

datatype frp_file = FrpAbsent | FrpUnreadable | FrpMalformed | FrpList "FrpUser list"

record FrpStore =
  fsData :: "(string, FrpUser) gomap"
  fsFile :: frp_file

record FrpEnv =
  fwNow :: time
  fwOk :: bool

datatype frp_error =
    FrpLoadError
  | FrpSaveError
  | FrpNameRequired
  | FrpBadRole
  | FrpLastAdmin
  | FrpUserRequired
  | FrpUserNotFound string
  | FrpUserDisabled string
  | FrpNoToken string
  | FrpBadLogin
  | UserStoreDisabled

definition zero_FrpUser :: FrpUser where
  "zero_FrpUser = \<lparr>fxName = [], fxPassword = [], fxToken = [], fxRole = [], fxEnabled = False,
     fxAllowPorts = [], fxDomains = [], fxMaxPorts = 0, fxCreatedAt = 0, fxUpdatedAt = 0, fxLastLoginAt = 0\<rparr>"

definition toPublicUser :: "FrpUser \<Rightarrow> FrpPublicUser" where
  "toPublicUser u = \<lparr>fpName = fxName u, fpRole = fxRole u, fpEnabled = fxEnabled u,
     fpAllowPorts = fxAllowPorts u, fpDomains = fxDomains u, fpMaxPorts = fxMaxPorts u,
     fpHasPassword = (fxPassword u \<noteq> []), fpHasToken = (fxToken u \<noteq> []), fpCreatedAt = fxCreatedAt u,
     fpUpdatedAt = fxUpdatedAt u, fpLastLoginAt = fxLastLoginAt u\<rparr>"

definition frp_save :: "FrpEnv \<Rightarrow> FrpStore \<Rightarrow> FrpStore \<times> frp_error option" where
  "frp_save e s = (if fwOk e then (s\<lparr>fsFile := FrpList (sort_key fxName (map snd (fsData s)))\<rparr>, None)
     else (s, Some FrpSaveError))"

definition frp_load :: "frp_file \<Rightarrow> frp_error + (string, FrpUser) gomap" where
  "frp_load f = (case f of
       FrpAbsent \<Rightarrow> Inr []
     | FrpUnreadable \<Rightarrow> Inl FrpLoadError
     | FrpMalformed \<Rightarrow> Inl FrpLoadError
     | FrpList us \<Rightarrow> Inr (fold (\<lambda>u m. if fxName u = [] then m else mput (fxName u) u m) us []))"

definition frp_NewStore :: "FrpEnv \<Rightarrow> string \<Rightarrow> string \<Rightarrow> frp_file \<Rightarrow> frp_error + FrpStore" where
  "frp_NewStore e adminUser adminPassword f = (case frp_load f of
       Inl err \<Rightarrow> Inl err
     | Inr m \<Rightarrow>
         if m = [] then
           (case frp_save e \<lparr>fsData = [(adminUser, zero_FrpUser\<lparr>fxName := adminUser, fxPassword := adminPassword,
                 fxRole := RoleAdmin, fxEnabled := True, fxCreatedAt := fwNow e, fxUpdatedAt := fwNow e\<rparr>)],
               fsFile = f\<rparr> of
              (s, None) \<Rightarrow> Inr s
            | (s, Some err) \<Rightarrow> Inl err)
         else Inr \<lparr>fsData = m, fsFile = f\<rparr>)"

definition frp_List :: "FrpStore \<Rightarrow> FrpPublicUser list" where
  "frp_List s = sort_key fpName (map (\<lambda>(_, u). toPublicUser u) (fsData s))"

definition frp_Get :: "FrpStore \<Rightarrow> string \<Rightarrow> FrpPublicUser option" where
  "frp_Get s name = map_option toPublicUser (mget (fsData s) name)"

definition frp_Upsert :: "FrpEnv \<Rightarrow> FrpUser \<Rightarrow> FrpStore \<Rightarrow> FrpStore \<times> (frp_error + FrpPublicUser)" where
  "frp_Upsert e in0 s =
     (if fxName in0 = [] then (s, Inl FrpNameRequired)
      else let in1 = (if fxRole in0 = [] then in0\<lparr>fxRole := ''user''\<rparr> else in0) in
        if fxRole in1 \<noteq> ''user'' \<and> fxRole in1 \<noteq> RoleAdmin then (s, Inl FrpBadRole)
        else let u0 = (case mget (fsData s) (fxName in1) of Some u \<Rightarrow> u
                       | None \<Rightarrow> zero_FrpUser\<lparr>fxName := fxName in1, fxCreatedAt := fwNow e\<rparr>);
                 u1 = u0\<lparr>fxRole := fxRole in1, fxEnabled := fxEnabled in1, fxAllowPorts := fxAllowPorts in1,
                        fxDomains := fxDomains in1, fxMaxPorts := fxMaxPorts in1\<rparr>;
                 u2 = (if fxPassword in1 \<noteq> [] then u1\<lparr>fxPassword := fxPassword in1\<rparr> else u1);
                 u3 = (if fxToken in1 \<noteq> [] then u2\<lparr>fxToken := fxToken in1\<rparr> else u2);
                 u4 = u3\<lparr>fxUpdatedAt := fwNow e\<rparr>
             in (case frp_save e (s\<lparr>fsData := mput (fxName in1) u4 (fsData s)\<rparr>) of
                   (s', Some err) \<Rightarrow> (s', Inl err)
                 | (s', None) \<Rightarrow> (s', Inr (toPublicUser u4))))"

definition frp_Delete :: "FrpEnv \<Rightarrow> string \<Rightarrow> FrpStore \<Rightarrow> FrpStore \<times> frp_error option" where
  "frp_Delete e name s = (case mget (fsData s) name of
       None \<Rightarrow> (s, None)
     | Some u \<Rightarrow>
         if fxRole u = RoleAdmin then
           (if list_ex (\<lambda>(_, v). fxName v \<noteq> name \<and> fxRole v = RoleAdmin \<and> fxEnabled v) (fsData s)
            then frp_save e (s\<lparr>fsData := mdel name (fsData s)\<rparr>)
            else (s, Some FrpLastAdmin))
         else frp_save e (s\<lparr>fsData := mdel name (fsData s)\<rparr>))"

definition VerifyWebLogin :: "FrpEnv \<Rightarrow> string \<Rightarrow> string \<Rightarrow> FrpStore \<Rightarrow> FrpStore \<times> FrpPublicUser option" where
  "VerifyWebLogin e name password s = (case mget (fsData s) name of
       None \<Rightarrow> (s, None)
     | Some u \<Rightarrow>
         if \<not> fxEnabled u \<or> fxPassword u = [] \<or> fxPassword u \<noteq> password then (s, None)
         else let u' = u\<lparr>fxLastLoginAt := fwNow e\<rparr>
           in (fst (frp_save e (s\<lparr>fsData := mput name u' (fsData s)\<rparr>)), Some (toPublicUser u')))"

definition VerifyClientToken :: "FrpStore \<Rightarrow> string \<Rightarrow> string \<Rightarrow> FrpUser option" where
  "VerifyClientToken s name token = (case mget (fsData s) name of
       None \<Rightarrow> None
     | Some u \<Rightarrow> if \<not> fxEnabled u \<or> fxToken u = [] \<or> fxToken u \<noteq> token then None else Some u)"

text \<open>\<open>verify\<close> is the check of the login message against a token (\<^verbatim>\<open>auth.NewTokenAuth\<close>).\<close>

definition ClientAuth :: "(string \<Rightarrow> bool) \<Rightarrow> FrpStore \<Rightarrow> string \<Rightarrow> frp_error + string" where
  "ClientAuth verify s user =
     (if user = [] then Inl FrpUserRequired
      else (case mget (fsData s) user of
          None \<Rightarrow> Inl (FrpUserNotFound user)
        | Some u \<Rightarrow>
            if \<not> fxEnabled u then Inl (FrpUserDisabled user)
            else if fxToken u = [] then Inl (FrpNoToken user)
            else if \<not> verify (fxToken u) then Inl FrpBadLogin
            else Inr (fxToken u)))"

definition UserPorts :: "FrpStore \<Rightarrow> string \<Rightarrow> FrpRange list" where
  "UserPorts s name = (case mget (fsData s) name of None \<Rightarrow> []
     | Some u \<Rightarrow> if \<not> fxEnabled u then [] else fxAllowPorts u)"

definition UserMaxPorts :: "FrpStore \<Rightarrow> string \<Rightarrow> int" where
  "UserMaxPorts s name = (case mget (fsData s) name of None \<Rightarrow> 0
     | Some u \<Rightarrow> if \<not> fxEnabled u then 0 else fxMaxPorts u)"

definition UserDomains :: "FrpStore \<Rightarrow> string \<Rightarrow> string list" where
  "UserDomains s name = (case mget (fsData s) name of None \<Rightarrow> []
     | Some u \<Rightarrow> if \<not> fxEnabled u then [] else fxDomains u)"

section \<open>The service's access to the store\<close>

text \<open>A service without a user store is \<open>None\<close>.\<close>

definition UpsertUserStoreUser :: "FrpEnv \<Rightarrow> FrpUser \<Rightarrow> FrpStore option \<Rightarrow> FrpStore option \<times> frp_error option" where
  "UpsertUserStoreUser e u so = (case so of
       None \<Rightarrow> (None, Some UserStoreDisabled)
     | Some s \<Rightarrow> (case frp_Upsert e u s of
         (s', Inl err) \<Rightarrow> (Some s', Some err) | (s', Inr _) \<Rightarrow> (Some s', None)))"

definition DeleteUserStoreUser :: "FrpEnv \<Rightarrow> string \<Rightarrow> FrpStore option \<Rightarrow> FrpStore option \<times> frp_error option" where
  "DeleteUserStoreUser e name so = (case so of
       None \<Rightarrow> (None, Some UserStoreDisabled)
     | Some s \<Rightarrow> (case frp_Delete e name s of (s', err) \<Rightarrow> (Some s', err)))"

definition ListUserStoreUsers :: "FrpStore option \<Rightarrow> frp_error + FrpPublicUser list" where
  "ListUserStoreUsers so = (case so of None \<Rightarrow> Inl UserStoreDisabled | Some s \<Rightarrow> Inr (frp_List s))"

section \<open>SyncFRPState\<close>

definition toFRPPortRange :: "PortRange \<Rightarrow> FrpRange" where
  "toFRPPortRange r =
     (if rStart r = rEnd r then \<lparr>frStart = 0, frEnd = 0, frSingle = rStart r\<rparr>
      else \<lparr>frStart = rStart r, frEnd = rEnd r, frSingle = 0\<rparr>)"

definition toFRPPortRanges :: "PortRange list \<Rightarrow> FrpRange list" where
  "toFRPPortRanges rs = map toFRPPortRange rs"

definition frp_user_of :: "User \<Rightarrow> FrpUser" where
  "frp_user_of u = zero_FrpUser\<lparr>fxName := uName u, fxToken := uFRPToken u, fxRole := uRole u, fxEnabled := True,
     fxAllowPorts := toFRPPortRanges (uPortPools u), fxDomains := uDomainPools u, fxMaxPorts := uMaxPorts u\<rparr>"

fun frp_push :: "FrpEnv \<Rightarrow> User list \<Rightarrow> FrpStore option \<Rightarrow> FrpStore option \<times> frp_error option" where
  "frp_push e [] s = (s, None)"
| "frp_push e (u # us) s =
     (if \<not> uEnabled u \<or> uFRPToken u = [] then frp_push e us s
      else (case UpsertUserStoreUser e (frp_user_of u) s of
          (s', Some err) \<Rightarrow> (s', Some err)
        | (s', None) \<Rightarrow> frp_push e us s'))"

fun frp_prune :: "FrpEnv \<Rightarrow> string list \<Rightarrow> FrpPublicUser list \<Rightarrow> FrpStore option \<Rightarrow> FrpStore option \<times> frp_error option" where
  "frp_prune e desired [] s = (s, None)"
| "frp_prune e desired (p # ps) s =
     (if fpName p \<in> set desired \<or> fpRole p = RoleAdmin then frp_prune e desired ps s
      else (case DeleteUserStoreUser e (fpName p) s of
          (s', Some err) \<Rightarrow> (s', Some err)
        | (s', None) \<Rightarrow> frp_prune e desired ps s'))"

definition frp_wanted :: "User \<Rightarrow> bool" where
  "frp_wanted u \<longleftrightarrow> \<not> (\<not> uEnabled u \<or> uFRPToken u = [])"

text \<open>No service runs: \<open>None\<close>.\<close>

definition SyncFRPState :: "FrpEnv \<Rightarrow> User list \<Rightarrow> FrpStore option option \<Rightarrow> FrpStore option option \<times> frp_error option" where
  "SyncFRPState e users svc = (case svc of
       None \<Rightarrow> (None, None)
     | Some so \<Rightarrow>
         (case frp_push e users so of
            (s1, Some err) \<Rightarrow> (Some s1, Some err)
          | (s1, None) \<Rightarrow>
              (case ListUserStoreUsers s1 of
                 Inl err \<Rightarrow> (Some s1, Some err)
               | Inr existing \<Rightarrow>
                   (case frp_prune e (map uName (filter frp_wanted users)) existing s1 of
                      (s2, err) \<Rightarrow> (Some s2, err)))))"

section \<open>What a synchronisation does\<close>

definition frp_ok :: "FrpStore \<Rightarrow> bool" where
  "frp_ok s \<longleftrightarrow> keyed fxName (fsData s)"

lemma frp_save_data [simp]: "fsData (fst (frp_save e s)) = fsData s"
  by (simp add: frp_save_def)

lemma frp_save_None: "frp_save e s = (s', None) \<Longrightarrow> fsData s' = fsData s"
  using frp_save_data [of e s] by simp

definition holds_user :: "FrpStore \<Rightarrow> User \<Rightarrow> bool" where
  "holds_user s u \<longleftrightarrow> (case mget (fsData s) (uName u) of None \<Rightarrow> False
     | Some v \<Rightarrow> fxEnabled v \<and> fxToken v = uFRPToken u \<and> fxAllowPorts v = toFRPPortRanges (uPortPools u) \<and>
         fxDomains v = uDomainPools u \<and> fxMaxPorts v = uMaxPorts u \<and>
         fxRole v = (if uRole u = [] then ''user'' else uRole u))"

lemma keyed_frp_put: "frp_ok s \<Longrightarrow> fxName v = k \<Longrightarrow> frp_ok (s\<lparr>fsData := mput k v (fsData s)\<rparr>)"
  by (auto simp: frp_ok_def keyed_iff gomap_simps)

lemma keyed_frp_del: "frp_ok s \<Longrightarrow> frp_ok (s\<lparr>fsData := mdel k (fsData s)\<rparr>)"
  by (auto simp: frp_ok_def keyed_iff gomap_simps)

lemma frp_user_of_fields [simp]:
  "fxName (frp_user_of u) = uName u" "fxToken (frp_user_of u) = uFRPToken u" "fxRole (frp_user_of u) = uRole u"
  "fxEnabled (frp_user_of u)" "fxAllowPorts (frp_user_of u) = toFRPPortRanges (uPortPools u)"
  "fxDomains (frp_user_of u) = uDomainPools u" "fxMaxPorts (frp_user_of u) = uMaxPorts u"
  "fxPassword (frp_user_of u) = []"
  by (simp_all add: frp_user_of_def zero_FrpUser_def)

lemma frp_Upsert_user:
  assumes up: "frp_Upsert e (frp_user_of u) s = (s', Inr p)" and ok: "frp_ok s" and tok: "uFRPToken u \<noteq> []"
  shows "frp_ok s' \<and> holds_user s' u \<and> (\<forall>n. n \<noteq> uName u \<longrightarrow> mget (fsData s') n = mget (fsData s) n)"
proof -
  let ?u0 = "case mget (fsData s) (uName u) of Some u \<Rightarrow> u
     | None \<Rightarrow> zero_FrpUser\<lparr>fxName := uName u, fxCreatedAt := fwNow e\<rparr>"
  let ?u = "?u0\<lparr>fxRole := (if uRole u = [] then ''user'' else uRole u), fxEnabled := True,
     fxAllowPorts := toFRPPortRanges (uPortPools u), fxDomains := uDomainPools u, fxMaxPorts := uMaxPorts u,
     fxToken := uFRPToken u, fxUpdatedAt := fwNow e\<rparr>"
  have n0: "fxName ?u0 = uName u"
    using ok keyed_mget [of fxName "fsData s" "uName u"] by (auto simp: frp_ok_def split: option.split)
  have d: "fsData s' = mput (uName u) ?u (fsData s)"
    using up tok by (cases "uRole u = []"; cases "mget (fsData s) (uName u)")
      (auto simp: frp_Upsert_def frp_save_def Let_def split: if_splits)
  have "frp_ok (s\<lparr>fsData := mput (uName u) ?u (fsData s)\<rparr>)" by (rule keyed_frp_put [OF ok]) (simp add: n0)
  then have "frp_ok s'" by (simp add: frp_ok_def d)
  moreover have "holds_user s' u" by (simp add: holds_user_def d gomap_simps)
  ultimately show ?thesis by (simp add: d gomap_simps)
qed

lemma holds_user_mget: "mget (fsData s') (uName u) = mget (fsData s) (uName u) \<Longrightarrow> holds_user s' u = holds_user s u"
  by (simp add: holds_user_def)

lemma frp_push_effect:
  "frp_push e us (Some s) = (so, None) \<Longrightarrow> frp_ok s \<Longrightarrow> distinct (map uName us) \<Longrightarrow>
   \<exists>s'. so = Some s' \<and> frp_ok s' \<and> (\<forall>u \<in> set us. frp_wanted u \<longrightarrow> holds_user s' u) \<and>
     (\<forall>n. n \<notin> uName ` {u \<in> set us. frp_wanted u} \<longrightarrow> mget (fsData s') n = mget (fsData s) n)"
proof (induction us arbitrary: s)
  case (Cons u us)
  show ?case
  proof (cases "frp_wanted u")
    case False
    then have same: "{v \<in> set (u # us). frp_wanted v} = {v \<in> set us. frp_wanted v}" by auto
    have "frp_push e us (Some s) = (so, None)" using Cons.prems(1) False by (auto simp: frp_wanted_def)
    from Cons.IH [OF this Cons.prems(2)] Cons.prems(3) False show ?thesis unfolding same by auto
  next
    case True
    then have t: "uEnabled u" "uFRPToken u \<noteq> []" by (auto simp: frp_wanted_def)
    with Cons.prems(1) obtain s1 p where up: "frp_Upsert e (frp_user_of u) s = (s1, Inr p)"
      and rest: "frp_push e us (Some s1) = (so, None)"
      by (auto simp: UpsertUserStoreUser_def split: prod.splits sum.splits option.splits)
    from frp_Upsert_user [OF up Cons.prems(2) t(2)]
    have s1: "frp_ok s1" "holds_user s1 u" "\<And>n. n \<noteq> uName u \<Longrightarrow> mget (fsData s1) n = mget (fsData s) n" by blast+
    from Cons.prems(3) have nd: "uName u \<notin> uName ` set us" "distinct (map uName us)" by auto
    from Cons.IH [OF rest s1(1) nd(2)] obtain s' where s': "so = Some s'" "frp_ok s'"
      "\<forall>v \<in> set us. frp_wanted v \<longrightarrow> holds_user s' v"
      "\<forall>n. n \<notin> uName ` {v \<in> set us. frp_wanted v} \<longrightarrow> mget (fsData s') n = mget (fsData s1) n" by blast
    have "uName u \<notin> uName ` {v \<in> set us. frp_wanted v}" using nd(1) by blast
    with s'(4) have "mget (fsData s') (uName u) = mget (fsData s1) (uName u)" by blast
    then have "holds_user s' u" using s1(2) holds_user_mget [of s' u s1] by simp
    moreover have "mget (fsData s') n = mget (fsData s) n" if "n \<notin> uName ` {v \<in> set (u # us). frp_wanted v}" for n
    proof -
      from that True have "n \<noteq> uName u" "n \<notin> uName ` {v \<in> set us. frp_wanted v}" by auto
      with s'(4) s1(3) show ?thesis by simp
    qed
    ultimately show ?thesis using s' by auto
  qed
qed auto

definition pruned :: "string list \<Rightarrow> FrpPublicUser list \<Rightarrow> string \<Rightarrow> bool" where
  "pruned ds ps n \<longleftrightarrow> n \<notin> set ds \<and> list_ex (\<lambda>p. fpName p = n \<and> fpRole p \<noteq> RoleAdmin) ps"

lemma pruned_Cons: "pruned ds (p # ps) n \<longleftrightarrow> (n \<notin> set ds \<and> fpName p = n \<and> fpRole p \<noteq> RoleAdmin) \<or> pruned ds ps n"
  by (auto simp: pruned_def)

lemma frp_Delete_user:
  assumes del: "frp_Delete e k s = (s', None)" and ok: "frp_ok s"
    and role: "\<And>v. mget (fsData s) k = Some v \<Longrightarrow> fxRole v \<noteq> RoleAdmin"
  shows "frp_ok s' \<and> (\<forall>n. mget (fsData s') n = (if n = k then None else mget (fsData s) n))"
proof (cases "mget (fsData s) k")
  case None
  with del ok show ?thesis by (simp add: frp_Delete_def)
next
  case (Some v)
  with del role [OF Some] have "frp_save e (s\<lparr>fsData := mdel k (fsData s)\<rparr>) = (s', None)"
    by (simp add: frp_Delete_def)
  then have d: "fsData s' = mdel k (fsData s)" using frp_save_None by fastforce
  then have "frp_ok s'" using keyed_frp_del [OF ok, of k] by (simp add: frp_ok_def)
  with d show ?thesis by (simp add: gomap_simps)
qed

lemma frp_prune_effect:
  "frp_prune e ds ps (Some s) = (so, None) \<Longrightarrow> frp_ok s \<Longrightarrow>
   (\<And>p v. p \<in> set ps \<Longrightarrow> mget (fsData s) (fpName p) = Some v \<Longrightarrow> fpRole p = fxRole v) \<Longrightarrow>
   \<exists>s'. so = Some s' \<and> (\<forall>n. mget (fsData s') n = (if pruned ds ps n then None else mget (fsData s) n))"
proof (induction ps arbitrary: s)
  case Nil
  then have "so = Some s" by simp
  then show ?case by (simp add: pruned_def)
next
  case (Cons p ps)
  have roles: "fpRole q = fxRole v" if "q \<in> set ps" "mget (fsData s) (fpName q) = Some v" for q v
    by (rule Cons.prems(3) [OF _ that(2)]) (use that(1) in simp)
  show ?case
  proof (cases "fpName p \<in> set ds \<or> fpRole p = RoleAdmin")
    case True
    then have "frp_prune e ds ps (Some s) = (so, None)" using Cons.prems(1) by auto
    from Cons.IH [OF this Cons.prems(2) roles] obtain s' where s': "so = Some s'"
      "\<forall>n. mget (fsData s') n = (if pruned ds ps n then None else mget (fsData s) n)" by blast
    have "pruned ds (p # ps) n = pruned ds ps n" for n using True by (auto simp: pruned_Cons)
    with s' show ?thesis by auto
  next
    case False
    then have np: "fpName p \<notin> set ds" "fpRole p \<noteq> RoleAdmin" by blast+
    obtain s1 err where del: "frp_Delete e (fpName p) s = (s1, err)" by (cases "frp_Delete e (fpName p) s")
    with Cons.prems(1) np have err: "err = None" and rest: "frp_prune e ds ps (Some s1) = (so, None)"
      by (auto simp: DeleteUserStoreUser_def split: option.splits)
    have role: "fxRole v \<noteq> RoleAdmin" if "mget (fsData s) (fpName p) = Some v" for v
      using Cons.prems(3) [OF _ that] np(2) by simp
    from frp_Delete_user [OF del [unfolded err] Cons.prems(2) role]
    have ok1: "frp_ok s1" and d: "\<And>n. mget (fsData s1) n = (if n = fpName p then None else mget (fsData s) n)" by blast+
    have roles1: "fpRole q = fxRole v" if "q \<in> set ps" "mget (fsData s1) (fpName q) = Some v" for q v
    proof -
      from that(2) have "mget (fsData s) (fpName q) = Some v" unfolding d by (auto split: if_splits)
      with that(1) show ?thesis by (rule roles)
    qed
    from Cons.IH [OF rest ok1 roles1] obtain s' where s': "so = Some s'"
      "\<And>n. mget (fsData s') n = (if pruned ds ps n then None else mget (fsData s1) n)" by blast
    have "mget (fsData s') n = (if pruned ds (p # ps) n then None else mget (fsData s) n)" for n
      unfolding s'(2) d pruned_Cons using np by (cases "n = fpName p") simp_all
    with s'(1) show ?thesis by blast
  qed
qed

lemma frp_List_iff:
  assumes "frp_ok s"
  shows "p \<in> set (frp_List s) \<longleftrightarrow> (\<exists>v. mget (fsData s) (fpName p) = Some v \<and> p = toPublicUser v)"
proof -
  have wf: "mwf (fsData s)" and key: "\<And>k v. mget (fsData s) k = Some v \<Longrightarrow> fxName v = k"
    using assms keyed_mget [of fxName "fsData s"] by (simp_all add: frp_ok_def)
  have "p \<in> set (frp_List s) \<longleftrightarrow> (\<exists>k v. mget (fsData s) k = Some v \<and> p = toPublicUser v)"
    unfolding frp_List_def set_sort
    by (auto simp: mem_mget [OF wf, symmetric] image_iff split: prod.splits)
  also have "\<dots> \<longleftrightarrow> (\<exists>v. mget (fsData s) (fpName p) = Some v \<and> p = toPublicUser v)"
  proof
    assume "\<exists>k v. mget (fsData s) k = Some v \<and> p = toPublicUser v"
    then obtain k v where v: "mget (fsData s) k = Some v" "p = toPublicUser v" by blast
    have "fpName p = k" using key [OF v(1)] by (simp add: v(2) toPublicUser_def)
    with v show "\<exists>v. mget (fsData s) (fpName p) = Some v \<and> p = toPublicUser v" by blast
  qed blast
  finally show ?thesis .
qed

lemma frp_List_role:
  "frp_ok s \<Longrightarrow> p \<in> set (frp_List s) \<Longrightarrow> mget (fsData s) (fpName p) = Some v \<Longrightarrow> fpRole p = fxRole v"
  by (auto simp: frp_List_iff toPublicUser_def)

lemma pruned_frp_List:
  assumes "frp_ok s"
  shows "pruned ds (frp_List s) n \<longleftrightarrow> n \<notin> set ds \<and> (\<exists>v. mget (fsData s) n = Some v \<and> fxRole v \<noteq> RoleAdmin)"
proof -
  have key: "fpName (toPublicUser v) = k" if "mget (fsData s) k = Some v" for k v
    using keyed_mget [OF assms [unfolded frp_ok_def] that] by (simp add: toPublicUser_def)
  have "list_ex (\<lambda>p. fpName p = n \<and> fpRole p \<noteq> RoleAdmin) (frp_List s) \<longleftrightarrow>
      (\<exists>v. mget (fsData s) n = Some v \<and> fxRole v \<noteq> RoleAdmin)" (is "?l \<longleftrightarrow> ?r")
  proof
    assume ?l
    then show ?r by (auto simp: list_ex_iff frp_List_iff [OF assms] toPublicUser_def)
  next
    assume ?r
    then obtain v where v: "mget (fsData s) n = Some v" "fxRole v \<noteq> RoleAdmin" by blast
    then have "toPublicUser v \<in> set (frp_List s)" by (auto simp: frp_List_iff [OF assms] key [OF v(1)])
    with v key [OF v(1)] show ?l by (auto simp: list_ex_iff toPublicUser_def intro!: bexI)
  qed
  then show ?thesis unfolding pruned_def by blast
qed

text \<open>C13. A synchronisation of the frp user store without error makes it an image of the control database: it holds
  every enabled user with a token, enabled, with his token, ports, domains and limit; every other
  account is gone, except one whose role is admin, which stays as it was.\<close>

theorem SyncFRPState_effect:
  assumes "SyncFRPState e users (Some (Some s)) = (Some so, None)" "frp_ok s" "distinct (map uName users)"
  shows "\<exists>s'. so = Some s' \<and>
    (\<forall>u \<in> set users. frp_wanted u \<longrightarrow> holds_user s' u) \<and>
    (\<forall>n. n \<notin> uName ` {u \<in> set users. frp_wanted u} \<longrightarrow>
      mget (fsData s') n = (case mget (fsData s) n of None \<Rightarrow> None | Some v \<Rightarrow> if fxRole v = RoleAdmin then Some v else None))"
proof -
  let ?W = "uName ` {u \<in> set users. frp_wanted u}"
  have W: "set (map uName (filter frp_wanted users)) = ?W" by auto
  obtain s1o err1 where p1: "frp_push e users (Some s) = (s1o, err1)" by (cases "frp_push e users (Some s)")
  with assms(1) have err1: "err1 = None" by (cases err1) (simp_all add: SyncFRPState_def)
  from frp_push_effect [OF p1 [unfolded err1] assms(2,3)] obtain s1 where s1: "s1o = Some s1" "frp_ok s1"
    "\<forall>u \<in> set users. frp_wanted u \<longrightarrow> holds_user s1 u" "\<forall>n. n \<notin> ?W \<longrightarrow> mget (fsData s1) n = mget (fsData s) n" by blast
  have prune: "frp_prune e (map uName (filter frp_wanted users)) (frp_List s1) (Some s1) = (so, None)"
    using assms(1) p1 err1 s1(1) by (auto simp: SyncFRPState_def ListUserStoreUsers_def split: prod.splits)
  from frp_prune_effect [OF prune s1(2) frp_List_role [OF s1(2)]] obtain s' where s': "so = Some s'"
    "\<And>n. mget (fsData s') n = (if n \<notin> ?W \<and> (\<exists>v. mget (fsData s1) n = Some v \<and> fxRole v \<noteq> RoleAdmin) then None
      else mget (fsData s1) n)" unfolding pruned_frp_List [OF s1(2)] W by blast
  have "holds_user s' u" if u: "u \<in> set users" "frp_wanted u" for u
  proof -
    have "uName u \<in> ?W" using u by blast
    then have "mget (fsData s') (uName u) = mget (fsData s1) (uName u)" unfolding s'(2) by simp
    then show ?thesis using s1(3) u holds_user_mget [of s' u s1] by blast
  qed
  moreover have "mget (fsData s') n = (case mget (fsData s) n of None \<Rightarrow> None | Some v \<Rightarrow> if fxRole v = RoleAdmin then Some v else None)"
    if n: "n \<notin> ?W" for n
  proof -
    have "mget (fsData s1) n = mget (fsData s) n" using s1(4) n by blast
    then show ?thesis unfolding s'(2) using n by (cases "mget (fsData s) n") simp_all
  qed
  ultimately show ?thesis using s'(1) by blast
qed

definition demo_frp :: FrpStore where
  "demo_frp = \<lparr>fsData = [(''root'', zero_FrpUser\<lparr>fxName := ''root'', fxRole := RoleAdmin, fxEnabled := True\<rparr>),
     (''old'', zero_FrpUser\<lparr>fxName := ''old'', fxRole := ''user'', fxToken := ''x'', fxEnabled := True\<rparr>)], fsFile = FrpAbsent\<rparr>"

definition demo_frp_users :: "User list" where
  "demo_frp_users = [zero_User\<lparr>uName := ''alice'', uEnabled := True, uFRPToken := ''ta'', uRole := ''user''\<rparr>,
     zero_User\<lparr>uName := ''old'', uFRPToken := ''x''\<rparr>]"

theorem SyncFRPState_effect_witness:
  "\<exists>s'. SyncFRPState \<lparr>fwNow = 1, fwOk = True\<rparr> demo_frp_users (Some (Some demo_frp)) = (Some (Some s'), None) \<and>
     holds_user s' (hd demo_frp_users) \<and> mget (fsData s') ''old'' = None \<and> mget (fsData s') ''root'' \<noteq> None"
proof -
  let ?r = "SyncFRPState \<lparr>fwNow = 1, fwOk = True\<rparr> demo_frp_users (Some (Some demo_frp))"
  have "snd ?r = None" "fst ?r \<noteq> None" by code_simp+
  then obtain so where r: "?r = (Some so, None)" by (auto simp: prod_eq_iff)
  have ok: "frp_ok demo_frp" by (simp add: frp_ok_def keyed_iff mwf_def demo_frp_def zero_FrpUser_def)
  have nd: "distinct (map uName demo_frp_users)" by (simp add: demo_frp_users_def)
  have "map uName (filter frp_wanted demo_frp_users) = [''alice'']" by code_simp
  then have "uName ` {u \<in> set demo_frp_users. frp_wanted u} = {''alice''}" by (metis set_filter set_map list.simps(15) empty_set)
  moreover have "hd demo_frp_users \<in> set demo_frp_users" "frp_wanted (hd demo_frp_users)"
    by (auto simp: demo_frp_users_def frp_wanted_def zero_User_def)
  ultimately have w: "uName ` {u \<in> set demo_frp_users. frp_wanted u} = {''alice''}"
    "hd demo_frp_users \<in> set demo_frp_users" "frp_wanted (hd demo_frp_users)" .
  have g: "mget (fsData demo_frp) ''old'' = Some (zero_FrpUser\<lparr>fxName := ''old'', fxRole := ''user'', fxToken := ''x'', fxEnabled := True\<rparr>)"
    "mget (fsData demo_frp) ''root'' = Some (zero_FrpUser\<lparr>fxName := ''root'', fxRole := RoleAdmin, fxEnabled := True\<rparr>)"
    by (simp_all add: demo_frp_def mget_def)
  from SyncFRPState_effect [OF r ok nd] obtain s' where s': "so = Some s'"
    "\<forall>u \<in> set demo_frp_users. frp_wanted u \<longrightarrow> holds_user s' u"
    "\<forall>n. n \<notin> uName ` {u \<in> set demo_frp_users. frp_wanted u} \<longrightarrow> mget (fsData s') n =
      (case mget (fsData demo_frp) n of None \<Rightarrow> None | Some v \<Rightarrow> if fxRole v = RoleAdmin then Some v else None)" by blast
  have "holds_user s' (hd demo_frp_users)" using s'(2) w(2,3) by blast
  moreover have "mget (fsData s') ''old'' = None" "mget (fsData s') ''root'' \<noteq> None"
    using spec [OF s'(3), of "''old''"] spec [OF s'(3), of "''root''"] unfolding w(1) g by (simp_all add: RoleAdmin_def)
  ultimately show ?thesis using r s'(1) by blast
qed

text \<open>
  An account that was pushed with the role admin is never removed again: disabling or
  deleting that admin in the control database leaves him his access to frp.
\<close>

theorem stale_frp_admin_survives:
  "fst (SyncFRPState e [] (Some (Some (s\<lparr>fsData := [(k, v\<lparr>fxName := k, fxRole := RoleAdmin, fxEnabled := True\<rparr>)]\<rparr>)))) =
   Some (Some (s\<lparr>fsData := [(k, v\<lparr>fxName := k, fxRole := RoleAdmin, fxEnabled := True\<rparr>)]\<rparr>))"
  by (simp add: SyncFRPState_def ListUserStoreUsers_def frp_List_def toPublicUser_def)

end
