(* ===== verification/ControlViews.thy ===== *)
theory ControlViews
  imports Store Integrated
begin

text \<open>
  The pure functions of \<^verbatim>\<open>cmd/tunnel-control/main.go\<close>: filters, the address of a
  node, what a user has used, the states of clients, and the availability of tunnels. What
  the network answers to a probe is an argument: \<open>dial\<close> is the error of a connection attempt
  (\<open>None\<close>: connected), \<open>get\<close> the error or status code of a request. The Chinese messages
  are the constructors of \<open>notice\<close>.
\<close>

section \<open>Filters\<close>

definition filterUsersByName :: "User list \<Rightarrow> string \<Rightarrow> User list" where
  "filterUsersByName users name = (case List.find (\<lambda>u. uName u = name) users of None \<Rightarrow> [] | Some u \<Rightarrow> [u])"

definition filterTunnelsByUser :: "Tunnel list \<Rightarrow> string \<Rightarrow> Tunnel list" where
  "filterTunnelsByUser tunnels name = filter (\<lambda>t. tUserName t = name) tunnels"

definition filterTunnelsByNode :: "Tunnel list \<Rightarrow> string \<Rightarrow> Tunnel list" where
  "filterTunnelsByNode tunnels nodeID0 =
     (let nodeID = (if nodeID0 = [] then DefaultNodeID else nodeID0)
      in filter (\<lambda>t. (if tNodeID t = [] then DefaultNodeID else tNodeID t) = nodeID) tunnels)"

definition usersForTunnels :: "User list \<Rightarrow> Tunnel list \<Rightarrow> User list" where
  "usersForTunnels users tunnels = filter (\<lambda>u. uName u \<in> set (map tUserName tunnels)) users"

section \<open>Addresses\<close>

definition runtimeForNode :: "Node \<Rightarrow> RuntimeConfig \<Rightarrow> RuntimeConfig" where
  "runtimeForNode node fallback =
     (let r = nRuntime node;
          c0 = (if nPublicAddr node \<noteq> [] then fallback\<lparr>cServerAddr := nPublicAddr node\<rparr> else fallback);
          c1 = (if cServerAddr r \<noteq> [] then c0\<lparr>cServerAddr := cServerAddr r\<rparr> else c0);
          c2 = (if 0 < cFRPServerPort r then c1\<lparr>cFRPServerPort := cFRPServerPort r\<rparr> else c1);
          c3 = (if 0 < cFRPHTTPPort r then c2\<lparr>cFRPHTTPPort := cFRPHTTPPort r\<rparr> else c2);
          c4 = (if 0 < cFRPHTTPSPort r then c3\<lparr>cFRPHTTPSPort := cFRPHTTPSPort r\<rparr> else c3);
          c5 = (if 0 < cNPSServerPort r then c4\<lparr>cNPSServerPort := cNPSServerPort r\<rparr> else c4);
          c6 = (if 0 < cNPSHTTPProxyPort r then c5\<lparr>cNPSHTTPProxyPort := cNPSHTTPProxyPort r\<rparr> else c5)
      in if 0 < cNPSHTTPSPort r then c6\<lparr>cNPSHTTPSPort := cNPSHTTPSPort r\<rparr> else c6)"

definition runtimeForTunnel :: "Store \<Rightarrow> RuntimeConfig \<Rightarrow> Tunnel \<Rightarrow> RuntimeConfig" where
  "runtimeForTunnel st fallback t =
     (case GetNode st (if tNodeID t = [] then DefaultNodeID else tNodeID t) of
        Some node \<Rightarrow> runtimeForNode node fallback | None \<Rightarrow> fallback)"

text \<open>\<^verbatim>\<open>net.JoinHostPort\<close> and the host part of \<^verbatim>\<open>net.SplitHostPort\<close> (\<open>None\<close>: an error).\<close>

definition JoinHostPort :: "string \<Rightarrow> string \<Rightarrow> string" where
  "JoinHostPort host port =
     (if CHR '':'' \<in> set host then ''['' @ host @ '']:'' @ port else host @ '':'' @ port)"

definition last_index :: "char \<Rightarrow> string \<Rightarrow> nat option" where
  "last_index c s = (if c \<in> set s then Some (length s - 1 - length (takeWhile (\<lambda>x. x \<noteq> c) (rev s))) else None)"

definition SplitHost :: "string \<Rightarrow> string option" where
  "SplitHost hp = (case last_index CHR '':'' hp of
       None \<Rightarrow> None
     | Some i \<Rightarrow>
         if has_prefix hp ''['' then
           (let e = length (takeWhile (\<lambda>x. x \<noteq> CHR '']'') hp) in
            if length hp \<le> e \<or> e + 1 \<noteq> i then None
            else if CHR ''['' \<in> set (drop 1 hp) \<or> CHR '']'' \<in> set (drop (e + 1) hp) then None
            else Some (drop 1 (take e hp)))
         else if CHR '':'' \<in> set (take i hp) then None
         else if CHR ''['' \<in> set hp \<or> CHR '']'' \<in> set hp then None
         else Some (take i hp))"

definition probeHost :: "string \<Rightarrow> string" where
  "probeHost serverAddr =
     (let a1 = trim_prefix (trim_prefix (trim_space serverAddr) ''http://'') ''https://'';
          a2 = (case index_any a1 ''/'' of None \<Rightarrow> a1 | Some slash \<Rightarrow> take slash a1);
          a3 = (case SplitHost a2 of Some host \<Rightarrow> host | None \<Rightarrow> a2)
      in if a3 = [] then ''127.0.0.1'' else a3)"

definition agentApplyURL :: "string \<Rightarrow> int \<Rightarrow> string" where
  "agentApplyURL publicAddr port =
     (let addr = trim_right (trim_space publicAddr) ''/'' in
      if has_prefix addr ''http://'' \<or> has_prefix addr ''https://'' then addr @ ''/api/agent/apply''
      else if contains addr '':'' \<and> \<not> contains addr '']'' then ''http://'' @ addr @ ''/api/agent/apply''
      else ''http://'' @ JoinHostPort addr (itoa port) @ ''/api/agent/apply'')"

definition httpEntryPort :: "string \<Rightarrow> string \<Rightarrow> RuntimeConfig \<Rightarrow> int" where
  "httpEntryPort engineName mode runtime =
     (if engineName = EngineFRP \<and> mode = ''http'' then cFRPHTTPPort runtime
      else if engineName = EngineFRP \<and> mode = ''https'' then cFRPHTTPSPort runtime
      else if engineName = EngineNPS \<and> mode = ''http'' then cNPSHTTPProxyPort runtime
      else if engineName = EngineNPS \<and> mode = ''https'' then cNPSHTTPSPort runtime
      else 0)"

section \<open>Resource usage\<close>

record resourceUsage =
  ruUserName :: string
  ruPortTotal :: int
  ruTCPUsed :: int
  ruTCPFree :: int
  ruUDPUsed :: int
  ruUDPFree :: int
  ruDomainTotal :: int
  ruDomainUsed :: int
  ruDomainFree :: int
  ruTunnelUsed :: int
  ruTunnelLimit :: int
  ruTunnelFree :: int
  ruHasWildcard :: bool
  ruUnlimited :: bool

fun totalPorts :: "PortRange list \<Rightarrow> int" where
  "totalPorts [] = 0"
| "totalPorts (r # rs) =
     (if rStart r \<le> rEnd r then wrap64 (totalPorts rs + (rEnd r - rStart r + 1)) else totalPorts rs)"

definition freeCount :: "int \<Rightarrow> int \<Rightarrow> int" where
  "freeCount n used = (if n \<le> 0 then 0 else if n \<le> used then 0 else n - used)"

text \<open>The body of the loop over the tunnels: the sets of TCP ports, UDP ports and domains, and the count.\<close>

record usage_sets =
  usTCP :: "int list"
  usUDP :: "int list"
  usDomains :: "string list"
  usCount :: int

definition usage_step :: "string \<Rightarrow> Tunnel \<Rightarrow> usage_sets \<Rightarrow> usage_sets" where
  "usage_step name t a =
     (if tUserName t \<noteq> name then a
      else let a1 = a\<lparr>usCount := usCount a + 1\<rparr> in
        if \<not> tEnabled t then a1
        else if tMode t = ''udp'' then
          (if 0 < tRemotePort t then a1\<lparr>usUDP := List.insert (tRemotePort t) (usUDP a1)\<rparr> else a1)
        else if tMode t = ''tcp'' \<or> tMode t = ''socks5'' then
          (if 0 < tRemotePort t then a1\<lparr>usTCP := List.insert (tRemotePort t) (usTCP a1)\<rparr> else a1)
        else if tMode t = ''http'' \<or> tMode t = ''https'' then
          a1\<lparr>usDomains := fold List.insert (tDomains t) (usDomains a1)\<rparr>
        else a1)"

definition user_usage :: "Tunnel list \<Rightarrow> User \<Rightarrow> resourceUsage" where
  "user_usage tunnels user =
     (let a = fold (usage_step (uName user)) tunnels \<lparr>usTCP = [], usUDP = [], usDomains = [], usCount = 0\<rparr>;
          ports = totalPorts (uPortPools user);
          domains = int (length (uDomainPools user));
          wild = list_ex (\<lambda>pool. pool = ''*'' \<or> has_prefix pool ''*.'') (uDomainPools user)
      in \<lparr>ruUserName = uName user, ruPortTotal = ports,
          ruTCPUsed = int (length (usTCP a)), ruTCPFree = freeCount ports (int (length (usTCP a))),
          ruUDPUsed = int (length (usUDP a)), ruUDPFree = freeCount ports (int (length (usUDP a))),
          ruDomainTotal = domains, ruDomainUsed = int (length (usDomains a)),
          ruDomainFree = (if wild then - 1 else freeCount domains (int (length (usDomains a)))),
          ruTunnelUsed = usCount a, ruTunnelLimit = uMaxPorts user,
          ruTunnelFree = (if 0 < uMaxPorts user then freeCount (uMaxPorts user) (usCount a) else - 1),
          ruHasWildcard = wild, ruUnlimited = (\<not> 0 < uMaxPorts user)\<rparr>)"

definition resourceUsageFor :: "User list \<Rightarrow> Tunnel list \<Rightarrow> resourceUsage list" where
  "resourceUsageFor users tunnels = map (user_usage tunnels) users"

section \<open>Client states\<close>

record clientRuntimeStatus =
  crNodeID :: string
  crUserName :: string
  crEngine :: string
  crState :: string
  crOnline :: bool
  crClientID :: string
  crClientIP :: string
  crHostname :: string
  crVersion :: string
  crConnectedAt :: string
  crLastSeenAt :: string
  crDisconnectedAt :: string
  crCurrentConns :: int
  crTunnelTotal :: int
  crTunnelOnline :: int

definition zero_ClientStatus :: ClientStatus where
  "zero_ClientStatus = \<lparr>csNodeID = [], csUserName = [], csEngine = [], csClientID = [], csClientIP = [],
     csHostname = [], csVersion = [], csOnline = False, csConnectedAt = 0, csLastSeenAt = 0,
     csDisconnectedAt = 0, csCurrentConns = 0\<rparr>"

definition statusKey :: "string \<Rightarrow> string \<Rightarrow> string" where
  "statusKey userName engineName = userName @ [CHR 0x00] @ engineName"

text \<open>\<open>rfc\<close> stands for \<^verbatim>\<open>t.UTC().Format(time.RFC3339)\<close>.\<close>

definition statusTime :: "(time \<Rightarrow> string) \<Rightarrow> time \<Rightarrow> string" where
  "statusTime rfc t = (if IsZero t then [] else rfc t)"

definition betterClientStatus :: "ClientStatus \<Rightarrow> ClientStatus \<Rightarrow> bool" where
  "betterClientStatus candidate current =
     (if csOnline candidate \<noteq> csOnline current then csOnline candidate
      else After (csLastSeenAt candidate) (csLastSeenAt current))"

definition buildClientRuntimeStatus :: "(time \<Rightarrow> string) \<Rightarrow> string \<Rightarrow> string \<Rightarrow> bool \<Rightarrow> ClientStatus \<Rightarrow> int \<times> int \<Rightarrow> clientRuntimeStatus" where
  "buildClientRuntimeStatus rfc userName engineName embedded live count =
     (let s0 = \<lparr>crNodeID = csNodeID live, crUserName = userName, crEngine = engineName,
            crState = (if embedded then ''offline'' else ''unknown''), crOnline = False, crClientID = [],
            crClientIP = [], crHostname = [], crVersion = [], crConnectedAt = [], crLastSeenAt = [],
            crDisconnectedAt = [], crCurrentConns = 0, crTunnelTotal = fst count, crTunnelOnline = snd count\<rparr>
      in if csUserName live = [] then s0
         else let s1 = s0\<lparr>crOnline := csOnline live\<rparr>;
                  s2 = (if csOnline live then s1\<lparr>crState := ''online'', crTunnelOnline := crTunnelTotal s1\<rparr>
                        else if embedded then s1\<lparr>crState := ''offline''\<rparr> else s1)
              in s2\<lparr>crClientID := csClientID live, crClientIP := csClientIP live, crHostname := csHostname live,
                   crVersion := csVersion live, crConnectedAt := statusTime rfc (csConnectedAt live),
                   crLastSeenAt := statusTime rfc (csLastSeenAt live),
                   crDisconnectedAt := statusTime rfc (csDisconnectedAt live),
                   crCurrentConns := csCurrentConns live\<rparr>)"

fun index_live :: "ClientStatus list \<Rightarrow> (string, ClientStatus) gomap \<Rightarrow> (string, ClientStatus) gomap" where
  "index_live [] m = m"
| "index_live (s # ss) m =
     (if csUserName s = [] \<or> csEngine s = [] then index_live ss m
      else let key = statusKey (csUserName s) (csEngine s) in
        (case mget m key of
           None \<Rightarrow> index_live ss (mput key s m)
         | Some current \<Rightarrow> index_live ss (if betterClientStatus s current then mput key s m else m)))"

fun count_tunnels :: "Tunnel list \<Rightarrow> (string, int) gomap \<Rightarrow> (string, int) gomap" where
  "count_tunnels [] m = m"
| "count_tunnels (t # ts) m =
     (if \<not> tEnabled t then count_tunnels ts m
      else let key = statusKey (tUserName t) (tEngine t)
           in count_tunnels ts (mput key ((case mget m key of None \<Rightarrow> 0 | Some n \<Rightarrow> n) + 1) m))"

definition client_row :: "(time \<Rightarrow> string) \<Rightarrow> bool \<Rightarrow> (string, ClientStatus) gomap \<Rightarrow> (string, int) gomap \<Rightarrow> string \<Rightarrow> User \<Rightarrow> clientRuntimeStatus" where
  "client_row rfc embedded live counts engine u =
     (let key = statusKey (uName u) engine in
      buildClientRuntimeStatus rfc (uName u) engine embedded
        (case mget live key of None \<Rightarrow> zero_ClientStatus | Some s \<Rightarrow> s)
        ((case mget counts key of None \<Rightarrow> 0 | Some n \<Rightarrow> n), 0))"

definition clientStatusesFor :: "(time \<Rightarrow> string) \<Rightarrow> User list \<Rightarrow> Tunnel list \<Rightarrow> bool \<Rightarrow> ClientStatus list \<Rightarrow> clientRuntimeStatus list" where
  "clientStatusesFor rfc users tunnels embedded live =
     (let liveBy = index_live live []; counts = count_tunnels tunnels []
      in concat (map (\<lambda>u.
           (if uFRPToken u \<noteq> [] then [client_row rfc embedded liveBy counts EngineFRP u] else []) @
           (if uNPSVerifyKey u \<noteq> [] then [client_row rfc embedded liveBy counts EngineNPS u] else [])) users))"

text \<open>The loop of \<^verbatim>\<open>clientStatusForTunnel\<close>; \<open>best\<close> starts as the zero value.\<close>

definition status_matches :: "Tunnel \<Rightarrow> string \<Rightarrow> ClientStatus \<Rightarrow> bool" where
  "status_matches t nodeID s \<longleftrightarrow>
     \<not> (csUserName s \<noteq> tUserName t \<or> csEngine s \<noteq> tEngine t) \<and> \<not> (csNodeID s \<noteq> [] \<and> csNodeID s \<noteq> nodeID)"

fun pick_best :: "Tunnel \<Rightarrow> string \<Rightarrow> ClientStatus list \<Rightarrow> ClientStatus \<Rightarrow> ClientStatus" where
  "pick_best t nodeID [] best = best"
| "pick_best t nodeID (s # ss) best =
     (if \<not> status_matches t nodeID s then pick_best t nodeID ss best
      else if csUserName best = [] \<or> betterClientStatus s best then pick_best t nodeID ss s
      else pick_best t nodeID ss best)"

definition clientStatusForTunnel :: "(time \<Rightarrow> string) \<Rightarrow> Tunnel \<Rightarrow> ClientStatus list \<Rightarrow> clientRuntimeStatus" where
  "clientStatusForTunnel rfc t live =
     (let nodeID = (if tNodeID t = [] then DefaultNodeID else tNodeID t)
      in buildClientRuntimeStatus rfc (tUserName t) (tEngine t) (nodeID = DefaultNodeID)
           (pick_best t nodeID live zero_ClientStatus) (1, 0))"

end
