(* ===== verification/ControlProbes.thy ===== *)
theory ControlProbes
  imports ControlViews
begin

text \<open>
  The availability of tunnels in \<^verbatim>\<open>cmd/tunnel-control/main.go\<close>: the probe of a
  tunnel's public entry and its summary with the state of the client. The network is the
  argument \<open>Network\<close>: the error text of a TCP dial or \<open>None\<close>, the error or status code of
  an HTTP request, whether a URL can be parsed, and the measured latency. The Chinese texts are the constructors
  of \<open>notice\<close>.
\<close>

datatype notice =
    NoNotice
  | NoticeText string
  | TunnelDisabled
  | NotProbed
  | EntryBroken
  | ClientOffline
  | AllGood
  | EntryUpClientUnknown
  | ClientUnknown
  | NeedsAttention
  | UdpNotProbed
  | UnknownTunnelType
  | RemotePortMissing
  | TcpListening
  | DomainMissing
  | EntryPortMissing
  | HttpAnswered
  | HttpUpstreamError int

record tunnelAvailabilityProbe =
  tpState :: string
  tpTarget :: string
  tpMessage :: notice
  tpStatusCode :: int
  tpLatencyMS :: int

record tunnelAvailability =
  taTunnelID :: string
  taUserName :: string
  taEngine :: string
  taMode :: string
  taState :: string
  taMessage :: notice
  taClientState :: string
  taEntry :: tunnelAvailabilityProbe
  taCheckedAt :: string
  taInletFlow :: int
  taExportFlow :: int
  taInletSpeed :: int
  taExportSpeed :: int

record Network =
  nwDial :: "string \<Rightarrow> string option"
  nwGet :: "string \<Rightarrow> string \<Rightarrow> string + int"
  nwBadURL :: "string \<Rightarrow> string option"
  nwLatency :: "string \<Rightarrow> int"

definition make_probe :: "string \<Rightarrow> string \<Rightarrow> notice \<Rightarrow> tunnelAvailabilityProbe" where
  "make_probe state target msg =
     \<lparr>tpState = state, tpTarget = target, tpMessage = msg, tpStatusCode = 0, tpLatencyMS = 0\<rparr>"

definition probeTCPEntry :: "Network \<Rightarrow> string \<Rightarrow> int \<Rightarrow> tunnelAvailabilityProbe" where
  "probeTCPEntry nw host port =
     (let target = JoinHostPort host (itoa port) in
      if port \<le> 0 then make_probe ''down'' target RemotePortMissing
      else (case nwDial nw target of
          Some err \<Rightarrow> (make_probe ''down'' target (NoticeText err))\<lparr>tpLatencyMS := nwLatency nw target\<rparr>
        | None \<Rightarrow> (make_probe ''ok'' target TcpListening)\<lparr>tpLatencyMS := nwLatency nw target\<rparr>))"

definition probeHTTPEntry :: "Network \<Rightarrow> Tunnel \<Rightarrow> RuntimeConfig \<Rightarrow> tunnelAvailabilityProbe" where
  "probeHTTPEntry nw t runtime =
     (let domain = (case tDomains t of [] \<Rightarrow> [] | d # _ \<Rightarrow> d);
          port = httpEntryPort (tEngine t) (tMode t) runtime;
          target = tMode t @ ''://'' @ domain @ (if 0 < port then '':'' @ itoa port else [])
      in if domain = [] then make_probe ''down'' target DomainMissing
         else if port \<le> 0 then make_probe ''down'' target EntryPortMissing
         else let url = tMode t @ ''://'' @ JoinHostPort (probeHost (cServerAddr runtime)) (itoa port) @ ''/'' in
           (case nwBadURL nw url of
              Some err \<Rightarrow> make_probe ''down'' target (NoticeText err)
            | None \<Rightarrow>
                (case nwGet nw url domain of
                   Inl err \<Rightarrow> (make_probe ''down'' target (NoticeText err))\<lparr>tpLatencyMS := nwLatency nw url\<rparr>
                 | Inr code \<Rightarrow>
                     (if 500 \<le> code then make_probe ''warning'' target (HttpUpstreamError code)
                      else make_probe ''ok'' target HttpAnswered)
                       \<lparr>tpStatusCode := code, tpLatencyMS := nwLatency nw url\<rparr>)))"

definition probeTunnelEntry :: "Network \<Rightarrow> Tunnel \<Rightarrow> RuntimeConfig \<Rightarrow> tunnelAvailabilityProbe" where
  "probeTunnelEntry nw t runtime =
     (let host = probeHost (cServerAddr runtime) in
      if tMode t = ''tcp'' \<or> tMode t = ''socks5'' then probeTCPEntry nw host (tRemotePort t)
      else if tMode t = ''udp'' then
        make_probe ''unknown'' (JoinHostPort host (itoa (tRemotePort t)) @ ''/udp'') UdpNotProbed
      else if tMode t = ''http'' \<or> tMode t = ''https'' then probeHTTPEntry nw t runtime
      else make_probe ''unknown'' [] UnknownTunnelType)"

definition summarizeTunnelAvailability :: "string \<Rightarrow> tunnelAvailabilityProbe \<Rightarrow> string \<times> notice" where
  "summarizeTunnelAvailability clientState entry =
     (if tpState entry = ''down'' then (''down'', EntryBroken)
      else if clientState = ''offline'' then (''down'', ClientOffline)
      else if tpState entry = ''warning'' then (''warning'', tpMessage entry)
      else if clientState = ''online'' \<and> tpState entry = ''ok'' then (''ok'', AllGood)
      else if clientState = ''online'' \<and> tpState entry = ''unknown'' then (''warning'', tpMessage entry)
      else if clientState = ''unknown'' \<and> tpState entry = ''ok'' then (''warning'', EntryUpClientUnknown)
      else if clientState = ''unknown'' then (''unknown'', ClientUnknown)
      else (''warning'', NeedsAttention))"

definition checkTunnelAvailability :: "Network \<Rightarrow> string \<Rightarrow> Tunnel \<Rightarrow> clientRuntimeStatus \<Rightarrow> RuntimeConfig \<Rightarrow> tunnelAvailability" where
  "checkTunnelAvailability nw checkedAt t client runtime =
     (let clientState = (if crState client = [] then ''unknown'' else crState client);
          result = \<lparr>taTunnelID = tID t, taUserName = tUserName t, taEngine = tEngine t, taMode = tMode t,
            taState = [], taMessage = NoNotice, taClientState = clientState,
            taEntry = make_probe [] [] NoNotice, taCheckedAt = checkedAt, taInletFlow = 0, taExportFlow = 0,
            taInletSpeed = 0, taExportSpeed = 0\<rparr>
      in if \<not> tEnabled t then
           result\<lparr>taState := ''disabled'', taMessage := TunnelDisabled, taEntry := make_probe ''disabled'' [] NotProbed\<rparr>
         else let entry = probeTunnelEntry nw t runtime;
                  (state, msg) = summarizeTunnelAvailability clientState entry
              in result\<lparr>taEntry := entry, taState := state, taMessage := msg\<rparr>)"

definition availabilityFor :: "Network \<Rightarrow> (time \<Rightarrow> string) \<Rightarrow> string \<Rightarrow> Tunnel list \<Rightarrow> ClientStatus list \<Rightarrow>
    (Tunnel \<Rightarrow> RuntimeConfig) \<Rightarrow> tunnelAvailability list" where
  "availabilityFor nw rfc checkedAt tunnels live runtimeFor =
     map (\<lambda>t. checkTunnelAvailability nw checkedAt t (clientStatusForTunnel rfc t live) (runtimeFor t)) tunnels"

section \<open>The best client of a tunnel\<close>

text \<open>Online before offline, then the one seen last: a strict weak order on the states.\<close>

lemma better_irrefl: "\<not> betterClientStatus s s"
  by (simp add: betterClientStatus_def After_def)

lemma better_asym: "betterClientStatus a b \<Longrightarrow> \<not> betterClientStatus b a"
  by (auto simp: betterClientStatus_def After_def split: if_splits)

lemma better_negtrans: "betterClientStatus a c \<Longrightarrow> betterClientStatus a b \<or> betterClientStatus b c"
  by (auto simp: betterClientStatus_def After_def split: if_splits)

lemma not_better_trans: "\<not> betterClientStatus a b \<Longrightarrow> \<not> betterClientStatus b c \<Longrightarrow> \<not> betterClientStatus a c"
  using better_negtrans by blast

definition best_among :: "ClientStatus \<Rightarrow> ClientStatus list \<Rightarrow> bool" where
  "best_among b xs \<longleftrightarrow> b \<in> set xs \<and> list_all (\<lambda>x. \<not> betterClientStatus x b) xs"

lemma pick_best_spec:
  "tUserName t \<noteq> [] \<Longrightarrow> csUserName best \<noteq> [] \<Longrightarrow>
   best_among (pick_best t n ss best) (best # filter (status_matches t n) ss)"
proof (induction ss arbitrary: best)
  case Nil
  then show ?case by (simp add: best_among_def better_irrefl)
next
  case (Cons s ss)
  show ?case
  proof (cases "status_matches t n s")
    case False
    with Cons show ?thesis by simp
  next
    case m: True
    then have ne: "csUserName s \<noteq> []" using Cons.prems(1) by (auto simp: status_matches_def)
    show ?thesis
    proof (cases "betterClientStatus s best")
      case True
      let ?r = "pick_best t n ss s"
      have "best_among ?r (s # filter (status_matches t n) ss)" by (rule Cons.IH [OF Cons.prems(1) ne])
      moreover have "\<not> betterClientStatus best ?r"
        using calculation better_asym [OF True] not_better_trans [of best s ?r] by (auto simp: best_among_def)
      ultimately show ?thesis using m True by (auto simp: best_among_def)
    next
      case False
      let ?r = "pick_best t n ss best"
      have "best_among ?r (best # filter (status_matches t n) ss)" by (rule Cons.IH [OF Cons.prems])
      moreover have "\<not> betterClientStatus s ?r"
        using calculation False not_better_trans [of s best ?r] by (auto simp: best_among_def)
      ultimately show ?thesis using m False Cons.prems(2) by (auto simp: best_among_def)
    qed
  qed
qed

lemma pick_best_zero:
  assumes "tUserName t \<noteq> []" "filter (status_matches t n) ss \<noteq> []"
  shows "best_among (pick_best t n ss zero_ClientStatus) (filter (status_matches t n) ss)"
  using assms(2)
proof (induction ss)
  case (Cons s ss)
  show ?case
  proof (cases "status_matches t n s")
    case False
    with Cons show ?thesis by simp
  next
    case True
    then have "csUserName s \<noteq> []" using assms(1) by (auto simp: status_matches_def)
    from pick_best_spec [OF assms(1) this, of n ss] True show ?thesis by (simp add: zero_ClientStatus_def)
  qed
qed simp

lemma pick_best_none: "filter (status_matches t n) ss = [] \<Longrightarrow> pick_best t n ss b = b"
  by (induction ss) (auto split: if_splits)

lemma build_state:
  "crState (buildClientRuntimeStatus rfc u e emb live cnt) =
     (if csUserName live \<noteq> [] \<and> csOnline live then ''online'' else if emb then ''offline'' else ''unknown'')"
  by (simp add: buildClientRuntimeStatus_def Let_def)

lemma probe_states: "tpState (probeTunnelEntry nw t runtime) \<in> {''ok'', ''down'', ''warning'', ''unknown''}"
  by (auto simp: probeTunnelEntry_def probeTCPEntry_def probeHTTPEntry_def make_probe_def Let_def split: option.splits sum.splits)

text \<open>A tunnel is reported available exactly when it is enabled, its entry answers, and a client of its owner and
  engine on its node (or on an unnamed one) is online; the report is down exactly when it is enabled and
  the entry is dead, or all its clients are offline on the node where the server is embedded.\<close>

theorem availability_verdict:
  assumes "tUserName t \<noteq> []"
  shows "let a = checkTunnelAvailability nw at t (clientStatusForTunnel rfc t live) runtime;
             node = (if tNodeID t = [] then DefaultNodeID else tNodeID t);
             online = list_ex (\<lambda>s. status_matches t node s \<and> csOnline s) live;
             entry = tpState (probeTunnelEntry nw t runtime) in
    (taState a = ''ok'' \<longleftrightarrow> tEnabled t \<and> entry = ''ok'' \<and> online) \<and>
    (taState a = ''down'' \<longleftrightarrow> tEnabled t \<and> (entry = ''down'' \<or> \<not> online \<and> node = DefaultNodeID)) \<and>
    (taState a = ''disabled'' \<longleftrightarrow> \<not> tEnabled t)"
proof -
  let ?n = "if tNodeID t = [] then DefaultNodeID else tNodeID t"
  let ?b = "pick_best t ?n live zero_ClientStatus"
  have on: "csUserName ?b \<noteq> [] \<and> csOnline ?b \<longleftrightarrow> list_ex (\<lambda>s. status_matches t ?n s \<and> csOnline s) live"
  proof (cases "filter (status_matches t ?n) live = []")
    case True
    then have "\<not> list_ex (\<lambda>s. status_matches t ?n s \<and> csOnline s) live" by (auto simp: list_ex_iff filter_empty_conv)
    with pick_best_none [OF True] show ?thesis by (simp add: zero_ClientStatus_def)
  next
    case False
    from pick_best_zero [OF assms False] have b: "?b \<in> set live" "status_matches t ?n ?b"
      "\<And>x. x \<in> set live \<Longrightarrow> status_matches t ?n x \<Longrightarrow> \<not> betterClientStatus x ?b"
      by (auto simp: best_among_def list_all_iff)
    have "csUserName ?b \<noteq> []" using b(2) assms by (auto simp: status_matches_def)
    moreover have "csOnline ?b" if "x \<in> set live" "status_matches t ?n x" "csOnline x" for x
      using b(3) [OF that(1,2)] that(3) by (auto simp: betterClientStatus_def split: if_splits)
    ultimately show ?thesis using b(1,2) by (auto simp: list_ex_iff)
  qed
  have st: "crState (clientStatusForTunnel rfc t live) =
      (if list_ex (\<lambda>s. status_matches t ?n s \<and> csOnline s) live then ''online''
       else if ?n = DefaultNodeID then ''offline'' else ''unknown'')"
    unfolding clientStatusForTunnel_def Let_def build_state on ..
  show ?thesis
    using probe_states [of nw t runtime]
    unfolding Let_def checkTunnelAvailability_def st summarizeTunnelAvailability_def
    by (auto split: prod.splits)
qed

definition demo_live :: "ClientStatus list" where
  "demo_live = [zero_ClientStatus\<lparr>csUserName := ''alice'', csEngine := ''nps'', csLastSeenAt := 5\<rparr>,
     zero_ClientStatus\<lparr>csUserName := ''alice'', csEngine := ''nps'', csOnline := True, csLastSeenAt := 3\<rparr>]"

definition demo_probe_tunnel :: Tunnel where
  "demo_probe_tunnel = zero_Tunnel\<lparr>tID := ''t1'', tUserName := ''alice'', tEngine := ''nps'', tMode := ''tcp'',
     tRemotePort := 7000, tEnabled := True\<rparr>"

definition demo_network :: Network where
  "demo_network = \<lparr>nwDial = \<lambda>_. None, nwGet = \<lambda>_ _. Inr 200, nwBadURL = \<lambda>_. None, nwLatency = \<lambda>_. 1\<rparr>"

theorem availability_verdict_witness:
  "taState (checkTunnelAvailability demo_network [] demo_probe_tunnel
     (clientStatusForTunnel (\<lambda>_. []) demo_probe_tunnel demo_live) zero_Runtime) = ''ok''"
proof -
  have u: "tUserName demo_probe_tunnel \<noteq> []" by (simp add: demo_probe_tunnel_def)
  have "tEnabled demo_probe_tunnel" "tpState (probeTunnelEntry demo_network demo_probe_tunnel zero_Runtime) = ''ok''"
    "list_ex (\<lambda>s. status_matches demo_probe_tunnel DefaultNodeID s \<and> csOnline s) demo_live"
    "tNodeID demo_probe_tunnel = []"
    by code_simp+
  with availability_verdict [OF u, of demo_network "[]" "\<lambda>_. []" demo_live zero_Runtime] show ?thesis by (simp add: Let_def)
qed

end
