(* ===== verification/ControlState.thy ===== *)
theory ControlState
  imports ControlProbes Adapters FrpUsers LogBuffer GoPath
begin

text \<open>
  The state of the control program (\<^verbatim>\<open>apiServer\<close> of
  \<^verbatim>\<open>cmd/tunnel-control/main.go\<close>) with its sessions, the synchronisation of the
  engines, the push to the nodes, and the traffic counters. \<open>ApiConfig\<close> holds the fields
  that never change and the library functions that are parameters: SHA-256, the printing
  and parsing of times. \<open>ApiEnv\<close> holds what the outside decides during one request: an
  \<open>Env\<close> for each call into the store (numbered in the order of the calls), the random
  session token, which directories and files can be written, and the environments of the
  embedded engines. A write of a file that fails is taken to leave the file as it was.
\<close>

section \<open>State\<close>

record trafficState =
  xsNodeID :: string
  xsItem :: string
  xsLastInletFlow :: int
  xsLastExportFlow :: int
  xsLastSeenAt :: time
  xsInletFlow :: int
  xsExportFlow :: int
  xsInletSpeed :: int
  xsExportSpeed :: int

text \<open>
  \<^verbatim>\<open>tunnelTrafficState\<close> and \<^verbatim>\<open>userTrafficState\<close> have the same fields; the item is the
  tunnel's id or the user's name.
\<close>

type_synonym tunnelTrafficState = trafficState
type_synonym userTrafficState = trafficState

datatype file_text =
    FrpUsersFile "frpUser list"
  | NpsClientsFile "npsClient list"
  | TextFile string

record ApiConfig =
  acFrpUserOut :: string
  acNpsClientOut :: string
  acConfigOut :: string
  acEmbedded :: bool
  acAgentPushPort :: int
  acRuntime :: RuntimeConfig
  acSha :: "string \<Rightarrow> string"
  acFormat :: "time \<Rightarrow> string"
  acRFC3339 :: "time \<Rightarrow> string"
  acParse :: "string \<Rightarrow> string \<Rightarrow> time option"
  acParseLocal :: "string \<Rightarrow> time option"

record Api =
  apStore :: Store
  apSessions :: "(string, string) gomap"
  apRemote :: "(string, ClientStatus list) gomap"
  apTunnelTraffic :: "(string, tunnelTrafficState) gomap"
  apUserTraffic :: "(string, userTrafficState) gomap"
  apLogs :: logBuffer
  apFrp :: "FrpStore option option"
  apFrpClients :: "ClientStatus list"
  apNps :: "NpsState option"
  apFiles :: "(string, file_text) gomap"

record ApiEnv =
  aeStore :: "nat \<Rightarrow> Env"
  aeNow :: time
  aeToken :: string
  aeMkdir :: "string \<Rightarrow> bool"
  aeWrite :: "string \<Rightarrow> bool"
  aeFrp :: FrpEnv
  aeNps :: NpsEnv
  aeNetwork :: Network

datatype api_error =
    Msg string
  | DecodeErr
  | IoErr string
  | ParseErr parse_error
  | TimeErr string
  | StoreErr store_error
  | FrpErr frp_error
  | NpsErr nps_error
  | AdapterErr adapter_error

section \<open>Sessions\<close>

definition session_create :: "string \<Rightarrow> string \<Rightarrow> (string, string) gomap \<Rightarrow> (string, string) gomap" where
  "session_create token user values = mput token user values"

definition session_get :: "(string, string) gomap \<Rightarrow> string \<Rightarrow> string option" where
  "session_get values token = mget values token"

definition session_delete :: "string \<Rightarrow> (string, string) gomap \<Rightarrow> (string, string) gomap" where
  "session_delete token values = mdel token values"

text \<open>\<^verbatim>\<open>currentUser\<close>, from the value of the cookie.\<close>

definition currentUser :: "Api \<Rightarrow> string option \<Rightarrow> User option" where
  "currentUser a cookie = (case cookie of
       None \<Rightarrow> None
     | Some c \<Rightarrow>
         if c = [] then None
         else (case session_get (apSessions a) c of
             None \<Rightarrow> None
           | Some name \<Rightarrow>
               (case GetUser (apStore a) name of
                  None \<Rightarrow> None
                | Some u \<Rightarrow> if uEnabled u then Some u else None)))"

definition isAdmin :: "User \<Rightarrow> bool" where
  "isAdmin u \<longleftrightarrow> uRole u = RoleAdmin"

section \<open>Synchronisation of the engines\<close>

definition write_file :: "ApiEnv \<Rightarrow> string \<Rightarrow> file_text \<Rightarrow> Api \<Rightarrow> Api \<times> api_error option" where
  "write_file env path content a =
     (if aeWrite env path then (a\<lparr>apFiles := mput path content (apFiles a)\<rparr>, None)
      else (a, Some (IoErr path)))"

definition write_in_dir :: "ApiEnv \<Rightarrow> string \<Rightarrow> file_text \<Rightarrow> Api \<Rightarrow> Api \<times> api_error option" where
  "write_in_dir env path content a =
     (if \<not> aeMkdir env (path_dir path) then (a, Some (IoErr path)) else write_file env path content a)"

definition syncEmbeddedFRP :: "ApiConfig \<Rightarrow> ApiEnv \<Rightarrow> Api \<Rightarrow> Api \<times> api_error option" where
  "syncEmbeddedFRP cfg env a =
     (if \<not> acEmbedded cfg then (a, None)
      else (case SyncFRPState (aeFrp env) (Users (apStore a)) (apFrp a) of
          (svc, err) \<Rightarrow> (a\<lparr>apFrp := svc\<rparr>, map_option FrpErr err)))"

definition syncEmbeddedNPS :: "ApiConfig \<Rightarrow> ApiEnv \<Rightarrow> Api \<Rightarrow> Api \<times> api_error option" where
  "syncEmbeddedNPS cfg env a =
     (if \<not> acEmbedded cfg then (a, None)
      else (case SyncNPSState (aeNps env) (Users (apStore a))
              (filterTunnelsByNode (ListTunnels (apStore a) []) DefaultNodeID) (apNps a) of
          (nps, err) \<Rightarrow> (a\<lparr>apNps := nps\<rparr>, map_option NpsErr err)))"

definition syncEmbeddedAll :: "ApiConfig \<Rightarrow> ApiEnv \<Rightarrow> Api \<Rightarrow> Api \<times> api_error option" where
  "syncEmbeddedAll cfg env a = (case syncEmbeddedFRP cfg env a of
       (a1, Some e) \<Rightarrow> (a1, Some e)
     | (a1, None) \<Rightarrow> syncEmbeddedNPS cfg env a1)"

definition syncEngineUsers :: "ApiConfig \<Rightarrow> ApiEnv \<Rightarrow> Api \<Rightarrow> Api \<times> (api_error + (string, string) gomap)" where
  "syncEngineUsers cfg env a =
     (let users = Users (apStore a) in
      (case write_in_dir env (acFrpUserOut cfg) (FrpUsersFile (ExportFRPUsers users)) a of
         (a1, Some e) \<Rightarrow> (a1, Inl e)
       | (a1, None) \<Rightarrow>
           (case (if acNpsClientOut cfg = [] then (a1, None)
                  else write_in_dir env (acNpsClientOut cfg) (NpsClientsFile (ExportNPSClients (acFormat cfg) users)) a1) of
              (a2, Some e) \<Rightarrow> (a2, Inl e)
            | (a2, None) \<Rightarrow>
                (case syncEmbeddedAll cfg env a2 of
                   (a3, Some e) \<Rightarrow> (a3, Inl e)
                 | (a3, None) \<Rightarrow>
                     (a3, Inr ([(''frp'', acFrpUserOut cfg)] @
                        (if acNpsClientOut cfg = [] then [] else [(''nps'', acNpsClientOut cfg)])))))))"

section \<open>Nodes\<close>

record agentSyncBundle =
  abGeneratedAt :: time
  abNode :: Node
  abUsers :: "User list"
  abTunnels :: "Tunnel list"

definition bundleForNode :: "time \<Rightarrow> Store \<Rightarrow> Node \<Rightarrow> agentSyncBundle" where
  "bundleForNode now st node =
     (let tunnels = filterTunnelsByNode (ListTunnels st []) (nID node)
      in \<lparr>abGeneratedAt = now, abNode = node, abUsers = usersForTunnels (Users st) tunnels, abTunnels = tunnels\<rparr>)"

definition setRemoteClientStatuses :: "string \<Rightarrow> ClientStatus list \<Rightarrow> Api \<Rightarrow> Api" where
  "setRemoteClientStatuses nodeID statuses a =
     (if statuses = [] then a\<lparr>apRemote := mdel nodeID (apRemote a)\<rparr>
      else a\<lparr>apRemote := mput nodeID statuses (apRemote a)\<rparr>)"

definition runtimeClientStatuses :: "ApiConfig \<Rightarrow> time \<Rightarrow> Api \<Rightarrow> ClientStatus list" where
  "runtimeClientStatuses cfg now a =
     map (\<lambda>s. s\<lparr>csNodeID := DefaultNodeID\<rparr>)
       (apFrpClients a @ NPSClientStatuses now (acParseLocal cfg) (apNps a))"

definition allClientStatuses :: "ApiConfig \<Rightarrow> time \<Rightarrow> Api \<Rightarrow> ClientStatus list" where
  "allClientStatuses cfg now a = runtimeClientStatuses cfg now a @ concat (map snd (apRemote a))"

text \<open>
  What an agent answers to a bundle posted to a URL with a token: an error text, or the states of its
  clients after a status in the 200s.
\<close>

type_synonym agent = "string \<Rightarrow> string \<Rightarrow> agentSyncBundle \<Rightarrow> string + ClientStatus list"

definition pushRemoteNode :: "ApiConfig \<Rightarrow> agent \<Rightarrow> time \<Rightarrow> Node \<Rightarrow> Api \<Rightarrow> Api \<times> string option" where
  "pushRemoteNode cfg agent now node a =
     (case agent (agentApplyURL (nPublicAddr node) (acAgentPushPort cfg)) (nToken node)
             (bundleForNode now (apStore a) node) of
        Inl err \<Rightarrow> (a, Some err)
      | Inr clients \<Rightarrow> (setRemoteClientStatuses (nID node) clients a, None))"

definition push_node :: "ApiConfig \<Rightarrow> agent \<Rightarrow> ApiEnv \<Rightarrow> nat \<Rightarrow> Node \<Rightarrow> Api \<Rightarrow> Api" where
  "push_node cfg agent env n node a =
     (if nID node = DefaultNodeID \<or> \<not> nEnabled node \<or> nToken node = [] \<or> trim_space (nPublicAddr node) = [] then a
      else (case pushRemoteNode cfg agent (aeNow env) node a of
          (a1, Some err) \<Rightarrow>
            (let a2 = setRemoteClientStatuses (nID node) [] a1
             in a2\<lparr>apStore := fst (UpdateNodeStatus (aeStore env n) (nID node) False err (apStore a2))\<rparr>)
        | (a1, None) \<Rightarrow>
            a1\<lparr>apStore := fst (UpdateNodeStatus (aeStore env n) (nID node) True [] (apStore a1))\<rparr>))"

fun push_nodes :: "ApiConfig \<Rightarrow> agent \<Rightarrow> ApiEnv \<Rightarrow> nat \<Rightarrow> Node list \<Rightarrow> Api \<Rightarrow> Api" where
  "push_nodes cfg agent env n [] a = a"
| "push_nodes cfg agent env n (node # nodes) a = push_nodes cfg agent env (n + 1) nodes (push_node cfg agent env n node a)"

definition pushRemoteNodes :: "ApiConfig \<Rightarrow> agent \<Rightarrow> ApiEnv \<Rightarrow> Api \<Rightarrow> Api" where
  "pushRemoteNodes cfg agent env a = push_nodes cfg agent env 0 (ListNodes (apStore a)) a"

section \<open>Expiry\<close>

text \<open>Seven days in nanoseconds.\<close>

definition expiry_retention :: int where
  "expiry_retention = 7 * 24 * 3600 * 1000000000"

definition enforceUserExpiry :: "ApiConfig \<Rightarrow> ApiEnv \<Rightarrow> Api \<Rightarrow> Api" where
  "enforceUserExpiry cfg env a =
     (case EnforceUserExpiry (aeNow env) expiry_retention (eSave (aeStore env 0)) (apStore a) of
        (st, changed, err) \<Rightarrow>
          (let a1 = a\<lparr>apStore := st\<rparr> in
           if err \<noteq> None \<or> \<not> changed then a1 else fst (syncEngineUsers cfg env a1)))"

section \<open>Traffic reports\<close>

definition trafficKey :: "string \<Rightarrow> string \<Rightarrow> string" where
  "trafficKey nodeID itemID = nodeID @ [CHR 0x00] @ itemID"

text \<open>
  The part of the loops that tunnels and users share. A speed is the quotient of a difference
  and the seconds since the last report, rounded down; the program computes it in
  \<^verbatim>\<open>float64\<close>.
\<close>

definition flow_speed :: "int \<Rightarrow> int \<Rightarrow> int \<Rightarrow> int" where
  "flow_speed new old delta = (if old \<le> new then (wrap64 (new - old) * 1000000000) div delta else 0)"

definition new_traffic :: "string \<Rightarrow> string \<Rightarrow> int \<Rightarrow> int \<Rightarrow> time \<Rightarrow> trafficState" where
  "new_traffic nodeID item inlet export now =
     \<lparr>xsNodeID = nodeID, xsItem = item, xsLastInletFlow = inlet, xsLastExportFlow = export, xsLastSeenAt = now,
      xsInletFlow = inlet, xsExportFlow = export, xsInletSpeed = 0, xsExportSpeed = 0\<rparr>"

definition next_traffic :: "int \<Rightarrow> int \<Rightarrow> time \<Rightarrow> trafficState \<Rightarrow> trafficState" where
  "next_traffic inlet export now s =
     (let delta = now - xsLastSeenAt s;
          s1 = (if 500000000 < delta
                then s\<lparr>xsInletSpeed := flow_speed inlet (xsInletFlow s) delta,
                       xsExportSpeed := flow_speed export (xsExportFlow s) delta\<rparr>
                else s)
      in s1\<lparr>xsLastInletFlow := xsInletFlow s1, xsLastExportFlow := xsExportFlow s1, xsInletFlow := inlet,
            xsExportFlow := export, xsLastSeenAt := now\<rparr>)"

definition report_tunnel :: "time \<Rightarrow> string \<Rightarrow> TunnelTraffic \<Rightarrow> (string, tunnelTrafficState) gomap \<Rightarrow> (string, tunnelTrafficState) gomap" where
  "report_tunnel now nodeID t m =
     (let key = trafficKey nodeID (ttTunnelID t) in
      (case mget m key of
         None \<Rightarrow> mput key (new_traffic nodeID (ttTunnelID t) (ttInletFlow t) (ttExportFlow t) now) m
       | Some s \<Rightarrow> mput key (next_traffic (ttInletFlow t) (ttExportFlow t) now s) m))"

definition flow_delta :: "int \<Rightarrow> int \<Rightarrow> int" where
  "flow_delta new old = (if old \<le> new then wrap64 (new - old) else 0)"

text \<open>The new total of a user and whether it reaches the limit.\<close>

definition charge_user :: "int \<Rightarrow> int \<Rightarrow> User \<Rightarrow> User" where
  "charge_user deltaIn deltaOut u =
     (let newUsed = wrap64 (wrap64 (uFlowUsed u + deltaIn) + deltaOut);
          limitBytes = wrap64 (uFlowLimit u * 1024 * 1024 * 1024);
          enabled = (if 0 < limitBytes \<and> limitBytes \<le> newUsed \<and> uEnabled u then False else uEnabled u)
      in zero_User\<lparr>uName := uName u, uRole := uRole u, uEnabled := enabled, uPortPools := uPortPools u,
           uDomainPools := uDomainPools u, uMaxPorts := uMaxPorts u, uFRPToken := uFRPToken u,
           uNPSVerifyKey := uNPSVerifyKey u, uRateLimit := uRateLimit u, uFlowLimit := uFlowLimit u,
           uFlowUsed := newUsed, uExpiresAt := uExpiresAt u\<rparr>)"

definition charge :: "ApiConfig \<Rightarrow> Env \<Rightarrow> string \<Rightarrow> int \<Rightarrow> int \<Rightarrow> Store \<Rightarrow> Store \<times> bool" where
  "charge cfg e name deltaIn deltaOut st =
     (if 0 < deltaIn \<or> 0 < deltaOut then
        (case GetUser st name of
           None \<Rightarrow> (st, False)
         | Some u \<Rightarrow>
             let u' = charge_user deltaIn deltaOut u
             in (fst (UpsertUser (acSha cfg) e u' st), \<not> uEnabled u' \<and> uEnabled u))
      else (st, False))"

definition report_user :: "ApiConfig \<Rightarrow> Env \<Rightarrow> time \<Rightarrow> string \<Rightarrow> UserTraffic \<Rightarrow> Api \<Rightarrow> Api \<times> bool" where
  "report_user cfg e now nodeID t a =
     (let key = trafficKey nodeID (utUserName t) in
      (case mget (apUserTraffic a) key of
         None \<Rightarrow> (a\<lparr>apUserTraffic := mput key (new_traffic nodeID (utUserName t) (utInletFlow t) (utExportFlow t) now)
                     (apUserTraffic a)\<rparr>, False)
       | Some s \<Rightarrow>
           let deltaIn = flow_delta (utInletFlow t) (xsInletFlow s);
               deltaOut = flow_delta (utExportFlow t) (xsExportFlow s);
               a1 = a\<lparr>apUserTraffic := mput key (next_traffic (utInletFlow t) (utExportFlow t) now s) (apUserTraffic a)\<rparr>;
               (st, dirty) = charge cfg e (utUserName t) deltaIn deltaOut (apStore a1)
           in (a1\<lparr>apStore := st\<rparr>, dirty)))"

fun report_users :: "ApiConfig \<Rightarrow> ApiEnv \<Rightarrow> nat \<Rightarrow> string \<Rightarrow> UserTraffic list \<Rightarrow> Api \<Rightarrow> bool \<Rightarrow> Api \<times> bool" where
  "report_users cfg env n nodeID [] a dirty = (a, dirty)"
| "report_users cfg env n nodeID (t # ts) a dirty =
     (case report_user cfg (aeStore env n) (aeNow env) nodeID t a of
        (a1, d) \<Rightarrow> report_users cfg env (n + 1) nodeID ts a1 (dirty \<or> d))"

text \<open>The body of \<^verbatim>\<open>reportTraffic\<close> after the checks; the flag asks for a synchronisation.\<close>

definition apply_report :: "ApiConfig \<Rightarrow> ApiEnv \<Rightarrow> TrafficReport \<Rightarrow> Api \<Rightarrow> Api \<times> bool" where
  "apply_report cfg env r a =
     report_users cfg env 0 (trNodeID r) (trUsers r)
       (a\<lparr>apTunnelTraffic := fold (report_tunnel (aeNow env) (trNodeID r)) (trTunnels r) (apTunnelTraffic a)\<rparr>) False"

definition attachUserTraffic :: "Api \<Rightarrow> PublicUser list \<Rightarrow> PublicUser list" where
  "attachUserTraffic a users =
     map (\<lambda>u. fold (\<lambda>(_, s) p. if xsItem s = pName p
          then p\<lparr>pInletSpeed := wrap64 (pInletSpeed p + xsInletSpeed s),
                 pExportSpeed := wrap64 (pExportSpeed p + xsExportSpeed s)\<rparr> else p) (apUserTraffic a) u) users"

definition attach_tunnel_traffic :: "Api \<Rightarrow> tunnelAvailability list \<Rightarrow> tunnelAvailability list" where
  "attach_tunnel_traffic a ts =
     map (\<lambda>t. fold (\<lambda>(_, s) x. if xsItem s = taTunnelID x
          then x\<lparr>taInletFlow := wrap64 (taInletFlow x + xsInletFlow s),
                 taExportFlow := wrap64 (taExportFlow x + xsExportFlow s),
                 taInletSpeed := wrap64 (taInletSpeed x + xsInletSpeed s),
                 taExportSpeed := wrap64 (taExportSpeed x + xsExportSpeed s)\<rparr> else x) (apTunnelTraffic a) t) ts"

section \<open>Parsing the expiry of a user\<close>

definition time_layouts :: "string list" where
  "time_layouts = [''2006-01-02T15:04:05Z07:00'', ''2006-01-02T15:04'', ''2006-01-02 15:04:05'', ''2006-01-02 15:04'', ''2006-01-02'']"

fun try_layouts :: "(string \<Rightarrow> string \<Rightarrow> time option) \<Rightarrow> string \<Rightarrow> string list \<Rightarrow> time option" where
  "try_layouts parse value [] = None"
| "try_layouts parse value (l # ls) = (case parse l value of Some t \<Rightarrow> Some t | None \<Rightarrow> try_layouts parse value ls)"

definition parseOptionalTime :: "(string \<Rightarrow> string \<Rightarrow> time option) \<Rightarrow> string \<Rightarrow> api_error + time" where
  "parseOptionalTime parse value0 =
     (let value = trim_space value0 in
      if value = [] then Inr 0
      else (case try_layouts parse value time_layouts of Some t \<Rightarrow> Inr t | None \<Rightarrow> Inl (TimeErr value)))"

end
