(* ===== verification/ControlHandlers.thy ===== *)
theory ControlHandlers
  imports ControlState
begin

text \<open>
  The request handlers of \<^verbatim>\<open>cmd/tunnel-control/main.go\<close>. A handler takes the
  configuration, the environment, the logged-in user where it asks for one, its part of the
  request and the state, and returns the new state and the reply. A decoded body is an
  option: \<open>None\<close> is a decoding error. \<open>push\<close> in a reply stands for the start of
  \<^verbatim>\<open>pushRemoteNodes\<close> in the background, which is a step of its own. Calls into the store
  within a request follow each other without other requests in between.
\<close>

section \<open>Requests and replies\<close>

record user_req =
  urName :: string
  urPassword :: string
  urRole :: string
  urEnabled :: "bool option"
  urPortPool :: string
  urPortPools :: "PortRange list"
  urDomainPool :: string
  urDomainPools :: "string list"
  urMaxPorts :: int
  urFRPToken :: string
  urNPSVerifyKey :: string
  urRateLimit :: int
  urFlowLimit :: int
  urExpiresAt :: string

record node_req =
  nrID :: string
  nrName :: string
  nrToken :: string
  nrPublicAddr :: string
  nrEnabled :: "bool option"
  nrNPSEnabled :: "bool option"
  nrPortPool :: string
  nrPortPools :: "PortRange list"
  nrDomainPool :: string
  nrDomainPools :: "string list"
  nrRuntime :: RuntimeConfig

record clientBootstrapNode =
  cbID :: string
  cbName :: string
  cbRuntime :: RuntimeConfig
  cbTunnels :: "Tunnel list"

record clientBootstrapResponse =
  brGeneratedAt :: time
  brUser :: PublicUser
  brFRPToken :: string
  brNPSVerifyKey :: string
  brNodes :: "clientBootstrapNode list"

text \<open>\<open>FileReply\<close> is the answer of a file server, for the agent's binary and the web pages.\<close>

datatype reply =
    NotFound
  | FileReply
  | ErrorReply nat api_error
  | MessageReply string
  | LoginReply string PublicUser
  | LogoutReply
  | UserReply PublicUser
  | UsersReply "PublicUser list"
  | NodeReply Node
  | NodesReply "Node list"
  | TunnelReply Tunnel
  | TunnelsReply "Tunnel list"
  | BundleReply agentSyncBundle
  | BootstrapReply clientBootstrapResponse
  | UsageReply time "resourceUsage list"
  | ClientsReply time "clientRuntimeStatus list"
  | AvailabilityReply time "tunnelAvailability list"
  | RuntimeReply RuntimeConfig string string string "Node list option"
  | LogsReply time "logEntry list"
  | SyncedReply "(string, string) gomap"
  | ExportedReply string "string list"
  | FrpUsersReply "frpUser list"
  | TextReply string
  | HelpReply string string
  | ScriptReply string string string int int int int

definition need_admin :: "User \<Rightarrow> Api \<Rightarrow> Api \<times> reply \<Rightarrow> Api \<times> reply" where
  "need_admin u a r = (if isAdmin u then r else (a, ErrorReply 403 (Msg ''admin required'')))"

text \<open>The tail of the handlers that change users: synchronise, then answer.\<close>

definition sync_users_then :: "ApiConfig \<Rightarrow> ApiEnv \<Rightarrow> Api \<Rightarrow> reply \<Rightarrow> Api \<times> reply" where
  "sync_users_then cfg env a r = (case syncEngineUsers cfg env a of
       (a', Inl e) \<Rightarrow> (a', ErrorReply 500 e) | (a', Inr _) \<Rightarrow> (a', r))"

definition sync_nps_then :: "ApiConfig \<Rightarrow> ApiEnv \<Rightarrow> Api \<Rightarrow> reply \<Rightarrow> Api \<times> reply" where
  "sync_nps_then cfg env a r = (case syncEmbeddedNPS cfg env a of
       (a', Some e) \<Rightarrow> (a', ErrorReply 500 e) | (a', None) \<Rightarrow> (a', r))"

section \<open>Login\<close>

definition login :: "ApiConfig \<Rightarrow> ApiEnv \<Rightarrow> (string \<times> string) option \<Rightarrow> Api \<Rightarrow> Api \<times> reply" where
  "login cfg env req a = (case req of
       None \<Rightarrow> (a, ErrorReply 400 DecodeErr)
     | Some (name, password) \<Rightarrow>
         (case VerifyLogin (acSha cfg) (aeStore env 0) name password (apStore a) of
            (st, None) \<Rightarrow> (a\<lparr>apStore := st\<rparr>, ErrorReply 401 (Msg ''invalid username or password''))
          | (st, Some u) \<Rightarrow>
              (a\<lparr>apStore := st, apSessions := session_create (aeToken env) (uName u) (apSessions a)\<rparr>,
               LoginReply (aeToken env) (Public u))))"

definition logout :: "string option \<Rightarrow> Api \<Rightarrow> Api \<times> reply" where
  "logout cookie a = (case cookie of
       None \<Rightarrow> (a, LogoutReply)
     | Some c \<Rightarrow> (a\<lparr>apSessions := session_delete c (apSessions a)\<rparr>, LogoutReply))"

definition me :: "User \<Rightarrow> Api \<Rightarrow> Api \<times> reply" where
  "me u a = (a, UserReply (Public u))"

definition changePassword :: "ApiConfig \<Rightarrow> ApiEnv \<Rightarrow> User \<Rightarrow> (string \<times> string \<times> string) option \<Rightarrow> Api \<Rightarrow> Api \<times> reply" where
  "changePassword cfg env current req a = (case req of
       None \<Rightarrow> (a, ErrorReply 400 DecodeErr)
     | Some (name, oldPassword, newPassword) \<Rightarrow>
         if newPassword = [] then (a, ErrorReply 400 (Msg ''new password is required''))
         else let target = (if name = [] then uName current else name) in
           if \<not> isAdmin current \<and> target \<noteq> uName current
           then (a, ErrorReply 403 (Msg ''cannot change another user's password''))
           else (case (if isAdmin current then (apStore a, True)
                       else (case VerifyLogin (acSha cfg) (aeStore env 0) (uName current) oldPassword (apStore a) of
                           (st, r) \<Rightarrow> (st, r \<noteq> None))) of
               (st, False) \<Rightarrow> (a\<lparr>apStore := st\<rparr>, ErrorReply 400 (Msg ''old password is incorrect''))
             | (st, True) \<Rightarrow>
                 (case SetPassword (acSha cfg) (aeStore env 1) target newPassword st of
                    (st', Inl e) \<Rightarrow> (a\<lparr>apStore := st'\<rparr>, ErrorReply 400 (StoreErr e))
                  | (st', Inr _) \<Rightarrow> (a\<lparr>apStore := st'\<rparr>, MessageReply ''password changed''))))"

section \<open>Users\<close>

definition listUsers :: "User \<Rightarrow> Api \<Rightarrow> Api \<times> reply" where
  "listUsers u a =
     (a, UsersReply (attachUserTraffic a (if isAdmin u then ListUsers (apStore a) else [Public u])))"

text \<open>The pools of a request: a text wins over the list.\<close>

definition req_ports :: "string \<Rightarrow> PortRange list \<Rightarrow> parse_error + PortRange list" where
  "req_ports s pools = (if s \<noteq> [] then ParsePortRanges s else Inr pools)"

definition req_domains :: "string \<Rightarrow> string list \<Rightarrow> parse_error + string list" where
  "req_domains s pools = (if s \<noteq> [] then ParseDomainPools s else Inr pools)"

definition upsertUser :: "ApiConfig \<Rightarrow> ApiEnv \<Rightarrow> User \<Rightarrow> user_req option \<Rightarrow> Api \<Rightarrow> Api \<times> reply" where
  "upsertUser cfg env current body a = need_admin current a (case body of
       None \<Rightarrow> (a, ErrorReply 400 DecodeErr)
     | Some req \<Rightarrow>
         (case req_ports (urPortPool req) (urPortPools req) of
            Inl e \<Rightarrow> (a, ErrorReply 400 (ParseErr e))
          | Inr pools \<Rightarrow>
              (case req_domains (urDomainPool req) (urDomainPools req) of
                 Inl e \<Rightarrow> (a, ErrorReply 400 (ParseErr e))
               | Inr domainPools \<Rightarrow>
                   (let enabled = (case urEnabled req of None \<Rightarrow> True | Some b \<Rightarrow> b);
                        used = (case GetUser (apStore a) (urName req) of None \<Rightarrow> 0 | Some u \<Rightarrow> uFlowUsed u)
                    in (case parseOptionalTime (acParse cfg) (urExpiresAt req) of
                          Inl e \<Rightarrow> (a, ErrorReply 400 e)
                        | Inr expiresAt \<Rightarrow>
                            (case UpsertUser (acSha cfg) (aeStore env 0)
                                (zero_User\<lparr>uName := urName req, uPassword := urPassword req, uRole := urRole req,
                                   uEnabled := enabled, uPortPools := pools, uDomainPools := domainPools,
                                   uMaxPorts := urMaxPorts req, uFRPToken := urFRPToken req,
                                   uNPSVerifyKey := urNPSVerifyKey req, uRateLimit := urRateLimit req,
                                   uFlowLimit := urFlowLimit req, uFlowUsed := used, uExpiresAt := expiresAt\<rparr>)
                                (apStore a) of
                               (st, Inl e) \<Rightarrow> (a\<lparr>apStore := st\<rparr>, ErrorReply 400 (StoreErr e))
                             | (st, Inr p) \<Rightarrow> sync_users_then cfg env (a\<lparr>apStore := st\<rparr>) (UserReply p)))))))"

definition deleteUser :: "ApiConfig \<Rightarrow> ApiEnv \<Rightarrow> User \<Rightarrow> string \<Rightarrow> Api \<Rightarrow> Api \<times> reply" where
  "deleteUser cfg env current path a = need_admin current a
     (let name = trim_prefix path ''/api/users/'' in
      if CHR ''/'' \<in> set name then (a, NotFound)
      else (case DeleteUser (eSave (aeStore env 0)) name (apStore a) of
          (st, Inl e) \<Rightarrow> (a\<lparr>apStore := st\<rparr>, ErrorReply 400 (StoreErr e))
        | (st, Inr _) \<Rightarrow> sync_users_then cfg env (a\<lparr>apStore := st\<rparr>) (MessageReply ''deleted'')))"

definition userAction :: "ApiEnv \<Rightarrow> User \<Rightarrow> string \<Rightarrow> Api \<Rightarrow> Api \<times> reply" where
  "userAction env current path a = need_admin current a
     (case cut_on CHR ''/'' (trim_prefix path ''/api/users/'') of
        None \<Rightarrow> (a, NotFound)
      | Some (name, action) \<Rightarrow>
          if name = [] \<or> action \<noteq> ''reset-flow'' then (a, NotFound)
          else (case ResetUserFlow (aeStore env 0) name (apStore a) of
              (st, Inl e) \<Rightarrow> (a\<lparr>apStore := st\<rparr>, ErrorReply 400 (StoreErr e))
            | (st, Inr _) \<Rightarrow>
                (a\<lparr>apStore := st, apUserTraffic := mfilter (\<lambda>_ s. xsItem s \<noteq> name) (apUserTraffic a)\<rparr>,
                 MessageReply ''flow reset'')))"

section \<open>Nodes\<close>

definition listNodes :: "User \<Rightarrow> Api \<Rightarrow> Api \<times> reply" where
  "listNodes u a =
     (if isAdmin u then (a, NodesReply (ListNodes (apStore a)))
      else (a, NodesReply (map (\<lambda>n. n\<lparr>nToken := []\<rparr>)
              (filter (\<lambda>n. \<not> (nID n = DefaultNodeID \<or> \<not> nEnabled n)) (ListNodes (apStore a))))))"

definition upsertNode :: "ApiEnv \<Rightarrow> User \<Rightarrow> node_req option \<Rightarrow> Api \<Rightarrow> Api \<times> reply" where
  "upsertNode env current body a = need_admin current a (case body of
       None \<Rightarrow> (a, ErrorReply 400 DecodeErr)
     | Some req \<Rightarrow>
         (case req_ports (nrPortPool req) (nrPortPools req) of
            Inl e \<Rightarrow> (a, ErrorReply 400 (ParseErr e))
          | Inr pools \<Rightarrow>
              (case req_domains (nrDomainPool req) (nrDomainPools req) of
                 Inl e \<Rightarrow> (a, ErrorReply 400 (ParseErr e))
               | Inr domainPools \<Rightarrow>
                   (case UpsertNode (aeStore env 0)
                       (zero_Node\<lparr>nID := nrID req, nName := nrName req, nToken := nrToken req,
                          nPublicAddr := nrPublicAddr req,
                          nEnabled := (case nrEnabled req of None \<Rightarrow> True | Some b \<Rightarrow> b), nFRPEnabled := False,
                          nNPSEnabled := (case nrNPSEnabled req of None \<Rightarrow> True | Some b \<Rightarrow> b),
                          nPortPools := pools, nDomainPools := domainPools, nRuntime := nrRuntime req\<rparr>)
                       (apStore a) of
                      (st, Inl e) \<Rightarrow> (a\<lparr>apStore := st\<rparr>, ErrorReply 400 (StoreErr e))
                    | (st, Inr n) \<Rightarrow> (a\<lparr>apStore := st\<rparr>, NodeReply n)))))"

definition deleteNode :: "ApiEnv \<Rightarrow> User \<Rightarrow> string \<Rightarrow> Api \<Rightarrow> Api \<times> reply" where
  "deleteNode env current path a = need_admin current a
     (let nid = trim_prefix path ''/api/nodes/'' in
      if nid = [] \<or> CHR ''/'' \<in> set nid then (a, NotFound)
      else (case DeleteNode (eSave (aeStore env 0)) nid (apStore a) of
          (st, Inl e) \<Rightarrow> (a\<lparr>apStore := st\<rparr>, ErrorReply 400 (StoreErr e))
        | (st, Inr _) \<Rightarrow> (a\<lparr>apStore := st\<rparr>, MessageReply ''deleted'')))"

text \<open>Handlers of the agents: they carry the node's token instead of a session.\<close>

definition agentBundle :: "ApiEnv \<Rightarrow> string \<Rightarrow> string \<Rightarrow> Api \<Rightarrow> Api \<times> reply" where
  "agentBundle env node0 auth a =
     (let nodeID = trim_space node0 in
      if nodeID = [] then (a, ErrorReply 400 (Msg ''node is required''))
      else (case GetNode (apStore a) nodeID of
          None \<Rightarrow> (a, ErrorReply 404 (Msg ''node not found or disabled''))
        | Some n \<Rightarrow>
            if \<not> nEnabled n then (a, ErrorReply 404 (Msg ''node not found or disabled''))
            else let token = trim_space (trim_prefix auth ''Bearer '') in
              if token = [] \<or> nToken n = [] \<or> token \<noteq> nToken n
              then (a, ErrorReply 401 (Msg ''invalid node token''))
              else (a, BundleReply (bundleForNode (aeNow env) (apStore a) n))))"

definition reportTraffic :: "ApiConfig \<Rightarrow> ApiEnv \<Rightarrow> string \<Rightarrow> TrafficReport option \<Rightarrow> Api \<Rightarrow> (Api \<times> reply) \<times> bool" where
  "reportTraffic cfg env auth0 req a =
     (let token = trim_prefix (trim_space auth0) ''Bearer '' in
      if token = [] then ((a, ErrorReply 401 (Msg ''invalid node token'')), False)
      else (case req of
          None \<Rightarrow> ((a, ErrorReply 400 DecodeErr), False)
        | Some r \<Rightarrow>
            (case GetNode (apStore a) (trNodeID r) of
               None \<Rightarrow> ((a, ErrorReply 401 (Msg ''node not found or token mismatch'')), False)
             | Some n \<Rightarrow>
                 if nToken n \<noteq> token then ((a, ErrorReply 401 (Msg ''node not found or token mismatch'')), False)
                 else (case apply_report cfg env r a of (a1, dirty) \<Rightarrow> ((a1, MessageReply ''ok''), dirty)))))"

text \<open>\<open>base\<close> is the URL the request came to. The script is the reply's seven parameters.\<close>

definition agentBootstrap :: "string \<Rightarrow> string \<Rightarrow> string \<Rightarrow> string \<Rightarrow> Api \<Rightarrow> Api \<times> reply" where
  "agentBootstrap id0 token0 base override a =
     (let nodeID = trim_space id0; token = trim_space token0 in
      if nodeID = [] \<or> token = [] then (a, ErrorReply 400 (Msg ''id and token are required''))
      else (case GetNode (apStore a) nodeID of
          None \<Rightarrow> (a, ErrorReply 404 (Msg ''node not found''))
        | Some n \<Rightarrow>
            if nToken n \<noteq> token then (a, ErrorReply 401 (Msg ''invalid node token''))
            else let r = nRuntime n;
                     npsPort = (if cNPSServerPort r \<le> 0 then 18024 else cNPSServerPort r)
              in (a, ScriptReply (if override \<noteq> [] then override else base) nodeID token npsPort (wrap64 (npsPort + 1))
                   (if cNPSHTTPProxyPort r \<le> 0 then 9080 else cNPSHTTPProxyPort r)
                   (if cNPSHTTPSPort r \<le> 0 then 9443 else cNPSHTTPSPort r))))"

section \<open>Tunnels\<close>

definition listTunnels :: "User \<Rightarrow> string \<Rightarrow> Api \<Rightarrow> Api \<times> reply" where
  "listTunnels u query_user a =
     (a, TunnelsReply (ListTunnels (apStore a) (if isAdmin u then query_user else uName u)))"

text \<open>The decoder of \<^verbatim>\<open>createTunnel\<close> starts from a tunnel that is enabled.\<close>

definition createTunnel :: "ApiConfig \<Rightarrow> ApiEnv \<Rightarrow> User \<Rightarrow> (bool \<Rightarrow> Tunnel option) \<Rightarrow> Api \<Rightarrow> Api \<times> reply" where
  "createTunnel cfg env u body a = (case body True of
       None \<Rightarrow> (a, ErrorReply 400 DecodeErr)
     | Some req0 \<Rightarrow>
         let req = (if isAdmin u then req0 else req0\<lparr>tUserName := uName u\<rparr>) in
         (case CreateTunnel (aeStore env 0) req (apStore a) of
            (st, Inl e) \<Rightarrow> (a\<lparr>apStore := st\<rparr>, ErrorReply 400 (StoreErr e))
          | (st, Inr t) \<Rightarrow> sync_nps_then cfg env (a\<lparr>apStore := st\<rparr>) (TunnelReply t)))"

definition owns_tunnel :: "Api \<Rightarrow> User \<Rightarrow> string \<Rightarrow> bool" where
  "owns_tunnel a u tid \<longleftrightarrow> list_ex (\<lambda>t. tID t = tid) (ListTunnels (apStore a) (uName u))"

definition updateTunnel :: "ApiConfig \<Rightarrow> ApiEnv \<Rightarrow> User \<Rightarrow> string \<Rightarrow> (bool \<Rightarrow> Tunnel option) \<Rightarrow> Api \<Rightarrow> Api \<times> reply" where
  "updateTunnel cfg env u path body a =
     (let tid = trim_prefix path ''/api/tunnels/'' in
      if tid = [] \<or> CHR ''/'' \<in> set tid then (a, NotFound)
      else (case body False of
          None \<Rightarrow> (a, ErrorReply 400 DecodeErr)
        | Some req0 \<Rightarrow>
            if \<not> isAdmin u \<and> \<not> owns_tunnel a u tid
            then (a, ErrorReply 403 (Msg ''cannot update another user's tunnel''))
            else let req = (if isAdmin u then req0 else req0\<lparr>tUserName := uName u\<rparr>) in
              (case UpdateTunnel (aeStore env 0) tid req (apStore a) of
                 (st, Inl e) \<Rightarrow> (a\<lparr>apStore := st\<rparr>, ErrorReply 400 (StoreErr e))
               | (st, Inr t) \<Rightarrow> sync_nps_then cfg env (a\<lparr>apStore := st\<rparr>) (TunnelReply t))))"

definition deleteTunnel :: "ApiConfig \<Rightarrow> ApiEnv \<Rightarrow> User \<Rightarrow> string \<Rightarrow> Api \<Rightarrow> Api \<times> reply" where
  "deleteTunnel cfg env u path a =
     (let tid = trim_prefix path ''/api/tunnels/'' in
      if tid = [] \<or> CHR ''/'' \<in> set tid then (a, NotFound)
      else if \<not> isAdmin u \<and> \<not> owns_tunnel a u tid
           then (a, ErrorReply 403 (Msg ''cannot delete another user's tunnel''))
      else (case DeleteTunnel (eSave (aeStore env 0)) tid (apStore a) of
          (st, Inl e) \<Rightarrow> (a\<lparr>apStore := st\<rparr>, ErrorReply 400 (StoreErr e))
        | (st, Inr _) \<Rightarrow> sync_nps_then cfg env (a\<lparr>apStore := st\<rparr>) (MessageReply ''deleted'')))"

section \<open>Views\<close>

definition runtimeInfo :: "ApiConfig \<Rightarrow> User \<Rightarrow> Api \<Rightarrow> Api \<times> reply" where
  "runtimeInfo cfg u a =
     (a, RuntimeReply (acRuntime cfg) (acFrpUserOut cfg) (acNpsClientOut cfg) (acConfigOut cfg)
        (if isAdmin u then Some (ListNodes (apStore a)) else None))"

definition visible_users :: "User \<Rightarrow> Store \<Rightarrow> User list" where
  "visible_users u st = (if isAdmin u then Users st else filterUsersByName (Users st) (uName u))"

definition visible_tunnels :: "User \<Rightarrow> Store \<Rightarrow> Tunnel list" where
  "visible_tunnels u st = (if isAdmin u then ListTunnels st [] else filterTunnelsByUser (ListTunnels st []) (uName u))"

definition diagnostics :: "ApiEnv \<Rightarrow> User \<Rightarrow> Api \<Rightarrow> Api \<times> reply" where
  "diagnostics env u a =
     (a, UsageReply (aeNow env) (resourceUsageFor (visible_users u (apStore a)) (visible_tunnels u (apStore a))))"

definition listClients :: "ApiConfig \<Rightarrow> ApiEnv \<Rightarrow> User \<Rightarrow> Api \<Rightarrow> Api \<times> reply" where
  "listClients cfg env u a =
     (a, ClientsReply (aeNow env) (clientStatusesFor (acRFC3339 cfg) (visible_users u (apStore a))
        (visible_tunnels u (apStore a)) (acEmbedded cfg) (allClientStatuses cfg (aeNow env) a)))"

definition listAvailability :: "ApiConfig \<Rightarrow> ApiEnv \<Rightarrow> User \<Rightarrow> Api \<Rightarrow> Api \<times> reply" where
  "listAvailability cfg env u a =
     (a, AvailabilityReply (aeNow env) (attach_tunnel_traffic a
        (availabilityFor (aeNetwork env) (acRFC3339 cfg) (acRFC3339 cfg (aeNow env)) (visible_tunnels u (apStore a))
           (allClientStatuses cfg (aeNow env) a) (runtimeForTunnel (apStore a) (acRuntime cfg)))))"

text \<open>The map \<^verbatim>\<open>grouped\<close> of \<^verbatim>\<open>clientBootstrap\<close>, in the order of first use.\<close>

definition group_tunnel :: "Tunnel \<Rightarrow> (string, Tunnel list) gomap \<Rightarrow> (string, Tunnel list) gomap" where
  "group_tunnel t m =
     (if \<not> tEnabled t then m
      else let nodeID = (if tNodeID t = [] then DefaultNodeID else tNodeID t)
           in mput nodeID ((case mget m nodeID of None \<Rightarrow> [] | Some ts \<Rightarrow> ts) @ [t]) m)"

definition bootstrap_nodes :: "RuntimeConfig \<Rightarrow> Store \<Rightarrow> Tunnel list \<Rightarrow> clientBootstrapNode list" where
  "bootstrap_nodes runtime st tunnels =
     (let nodeByID = fold (\<lambda>n. mput (nID n) n) (ListNodes st) [] in
      concat (map (\<lambda>(nodeID, ts). (case mget nodeByID nodeID of
          None \<Rightarrow> []
        | Some n \<Rightarrow> if \<not> nEnabled n then []
            else [\<lparr>cbID = nID n, cbName = nName n, cbRuntime = runtimeForNode n runtime, cbTunnels = ts\<rparr>]))
        (fold group_tunnel tunnels [])))"

definition clientBootstrap :: "ApiConfig \<Rightarrow> ApiEnv \<Rightarrow> User \<Rightarrow> string \<Rightarrow> Api \<Rightarrow> Api \<times> reply" where
  "clientBootstrap cfg env current query_user a =
     (let userName = (if isAdmin current \<and> query_user \<noteq> [] then query_user else uName current) in
      (case GetUser (apStore a) userName of
         None \<Rightarrow> (a, ErrorReply 404 (Msg ''user not found''))
       | Some u \<Rightarrow>
           if \<not> uEnabled u then (a, ErrorReply 404 (Msg ''user not found''))
           else (a, BootstrapReply \<lparr>brGeneratedAt = aeNow env, brUser = Public u, brFRPToken = uFRPToken u,
                  brNPSVerifyKey = uNPSVerifyKey u,
                  brNodes = bootstrap_nodes (acRuntime cfg) (apStore a) (ListTunnels (apStore a) (uName u))\<rparr>)))"

text \<open>
  The help text of \<^verbatim>\<open>renderCosmoClientHelp\<close> is fixed but for the user's name and the URL:
  the two arguments of \<open>HelpReply\<close>. A body of text is \<open>TextReply\<close>.
\<close>

definition userConfig :: "ApiConfig \<Rightarrow> string \<Rightarrow> User \<Rightarrow> string \<Rightarrow> string \<Rightarrow> Api \<Rightarrow> Api \<times> reply" where
  "userConfig cfg base reqUser path node a =
     (let parts = split_on CHR ''/'' (trim_prefix path ''/api/users/'') in
      if length parts \<noteq> 2 then (a, NotFound)
      else if \<not> isAdmin reqUser \<and> uName reqUser \<noteq> parts ! 0
           then (a, ErrorReply 403 (Msg ''cannot view another user's config''))
      else (case GetUser (apStore a) (parts ! 0) of
          None \<Rightarrow> (a, ErrorReply 404 (Msg ''user not found''))
        | Some u \<Rightarrow>
            if parts ! 1 = ''frpc.toml'' \<or> parts ! 1 = ''npc-command'' then
              (case (if node = [] then Some (acRuntime cfg, ListTunnels (apStore a) (uName u))
                     else map_option (\<lambda>n. (runtimeForNode n (acRuntime cfg),
                            filterTunnelsByNode (ListTunnels (apStore a) (uName u)) (nID n))) (GetNode (apStore a) node)) of
                 None \<Rightarrow> (a, ErrorReply 404 (Msg ''node not found''))
               | Some (rt, tunnels) \<Rightarrow>
                   (case (if parts ! 1 = ''frpc.toml'' then RenderFRPC u tunnels rt
                          else (case RenderNPCCommand u rt of Inl e \<Rightarrow> Inl e | Inr s \<Rightarrow> Inr (s @ newline))) of
                      Inl e \<Rightarrow> (a, ErrorReply 400 (AdapterErr e))
                    | Inr s \<Rightarrow> (a, TextReply s)))
            else if parts ! 1 = ''tunnel-client'' then (a, HelpReply (uName u) base)
            else if parts ! 1 = ''nps-key'' then
              (if uNPSVerifyKey u = [] then (a, ErrorReply 404 (Msg ''nps key not found''))
               else (a, TextReply (uNPSVerifyKey u @ newline)))
            else (a, NotFound)))"

section \<open>Logs, synchronisation and export\<close>

definition listLogs :: "ApiEnv \<Rightarrow> User \<Rightarrow> string \<Rightarrow> string \<Rightarrow> Api \<Rightarrow> Api \<times> reply" where
  "listLogs env u raw query a = need_admin u a
     (case (if raw = [] then Some 300 else (case atoi raw of None \<Rightarrow> None | Some n \<Rightarrow> if n \<le> 0 then None else Some n)) of
        None \<Rightarrow> (a, ErrorReply 400 (Msg ''invalid limit''))
      | Some limit \<Rightarrow> (a, LogsReply (aeNow env) (log_list (apLogs a) limit query)))"

definition clearLogs :: "User \<Rightarrow> Api \<Rightarrow> Api \<times> reply" where
  "clearLogs u a = need_admin u a (a\<lparr>apLogs := log_clear (apLogs a)\<rparr>, MessageReply ''cleared'')"

definition syncFRPUsers :: "ApiConfig \<Rightarrow> ApiEnv \<Rightarrow> User \<Rightarrow> Api \<Rightarrow> Api \<times> reply" where
  "syncFRPUsers cfg env u a = need_admin u a
     (case syncEngineUsers cfg env a of
        (a', Inl e) \<Rightarrow> (a', ErrorReply 500 e) | (a', Inr paths) \<Rightarrow> (a', SyncedReply paths))"

definition exportFRPUsers :: "User \<Rightarrow> Api \<Rightarrow> Api \<times> reply" where
  "exportFRPUsers u a = need_admin u a (a, FrpUsersReply (ExportFRPUsers (Users (apStore a))))"

text \<open>Writing one file of \<^verbatim>\<open>exportConfigs\<close>; the accumulator is the list \<^verbatim>\<open>written\<close>.\<close>

definition export_file :: "ApiEnv \<Rightarrow> string \<Rightarrow> file_text \<Rightarrow> Api \<times> string list \<Rightarrow> (Api \<times> string list) \<times> api_error option" where
  "export_file env path content aw = (case write_file env path content (fst aw) of
       (a, Some e) \<Rightarrow> ((a, snd aw), Some e) | (a, None) \<Rightarrow> ((a, snd aw @ [path]), None))"

fun export_nodes :: "ApiConfig \<Rightarrow> ApiEnv \<Rightarrow> User \<Rightarrow> string \<Rightarrow> Tunnel list \<Rightarrow> Node list \<Rightarrow> Api \<times> string list \<Rightarrow>
    (Api \<times> string list) \<times> api_error option" where
  "export_nodes cfg env u userDir tunnels [] aw = (aw, None)"
| "export_nodes cfg env u userDir tunnels (n # ns) aw =
     (if filterTunnelsByNode tunnels (nID n) = [] then export_nodes cfg env u userDir tunnels ns aw
      else let nodeDir = path_join [userDir, nID n] in
        if \<not> aeMkdir env nodeDir then (aw, Some (IoErr nodeDir))
        else (case RenderNPCCommand u (runtimeForNode n (acRuntime cfg)) of
            Inl _ \<Rightarrow> export_nodes cfg env u userDir tunnels ns aw
          | Inr npc \<Rightarrow>
              (case export_file env (path_join [nodeDir, ''npc-command.txt'']) (TextFile (npc @ newline)) aw of
                 (aw', Some e) \<Rightarrow> (aw', Some e)
               | (aw', None) \<Rightarrow> export_nodes cfg env u userDir tunnels ns aw')))"

definition export_user :: "ApiConfig \<Rightarrow> ApiEnv \<Rightarrow> Node list \<Rightarrow> User \<Rightarrow> Api \<times> string list \<Rightarrow> (Api \<times> string list) \<times> api_error option" where
  "export_user cfg env nodes u aw =
     (let userDir = path_join [acConfigOut cfg, ''clients'', uName u] in
      if \<not> aeMkdir env userDir then (aw, Some (IoErr userDir))
      else let tunnels = ListTunnels (apStore (fst aw)) (uName u) in
        (case (case RenderNPCCommand u (acRuntime cfg) of
             Inl _ \<Rightarrow> (aw, None)
           | Inr npc \<Rightarrow> export_file env (path_join [userDir, ''npc-command.txt'']) (TextFile (npc @ newline)) aw) of
           (aw1, Some e) \<Rightarrow> (aw1, Some e)
         | (aw1, None) \<Rightarrow> export_nodes cfg env u userDir tunnels nodes aw1))"

fun export_users :: "ApiConfig \<Rightarrow> ApiEnv \<Rightarrow> Node list \<Rightarrow> User list \<Rightarrow> Api \<times> string list \<Rightarrow> (Api \<times> string list) \<times> api_error option" where
  "export_users cfg env nodes [] aw = (aw, None)"
| "export_users cfg env nodes (u # us) aw = (case export_user cfg env nodes u aw of
       (aw', Some e) \<Rightarrow> (aw', Some e) | (aw', None) \<Rightarrow> export_users cfg env nodes us aw')"

definition export_readme :: string where
  "export_readme = ''Cosmo NPS export'' @ newline @ newline
     @ ''nps-clients.json: managed NPS client list.'' @ newline
     @ ''clients/<user>/npc-command.txt: npc startup command for that user.'' @ newline"

definition exportConfigs :: "ApiConfig \<Rightarrow> ApiEnv \<Rightarrow> User \<Rightarrow> Api \<Rightarrow> Api \<times> reply" where
  "exportConfigs cfg env current a = need_admin current a
     (let users = Users (apStore a) in
      if \<not> aeMkdir env (acConfigOut cfg) then (a, ErrorReply 500 (IoErr (acConfigOut cfg)))
      else (case export_file env (path_join [acConfigOut cfg, ''nps-clients.json''])
              (NpsClientsFile (ExportNPSClients (acFormat cfg) users)) (a, []) of
          ((a1, _), Some e) \<Rightarrow> (a1, ErrorReply 500 e)
        | (aw1, None) \<Rightarrow>
            (case export_users cfg env (ListNodes (apStore a)) users aw1 of
               ((a2, _), Some e) \<Rightarrow> (a2, ErrorReply 500 e)
             | (aw2, None) \<Rightarrow>
                 (case export_file env (path_join [acConfigOut cfg, ''README.txt'']) (TextFile export_readme) aw2 of
                    ((a3, _), Some e) \<Rightarrow> (a3, ErrorReply 500 e)
                  | ((a3, written), None) \<Rightarrow> (a3, ExportedReply (acConfigOut cfg) written)))))"

end
