(* ===== verification/ControlRoutes.thy ===== *)
theory ControlRoutes
  imports ControlHandlers
begin

text \<open>
  The request multiplexer and the authentication middleware of
  \<^verbatim>\<open>cmd/tunnel-control/main.go\<close>: from a request to the handler it reaches. The paths
  outside \<^verbatim>\<open>/api/\<close> are the health check and the static files. A request carries the
  decoding of its body into the structure of each handler.
\<close>

record Request =
  rqMethod :: string
  rqPath :: string
  rqCookie :: "string option"
  rqQuery :: "string \<Rightarrow> string"
  rqAuth :: string
  rqHost :: string
  rqTLS :: bool
  rqFwdProto :: string
  rqFwdHost :: string
  rqLogin :: "(string \<times> string) option"
  rqPasswords :: "(string \<times> string \<times> string) option"
  rqUser :: "user_req option"
  rqNode :: "node_req option"
  rqTunnel :: "bool \<Rightarrow> Tunnel option"
  rqReport :: "TrafficReport option"

datatype endpoint =
    Health | Login | Logout | Me | Password | GetUsers | PostUser | UserActions | DropUser | AgentBundle
  | GetNodes | PostNode | DropNode | GetTunnels | PostTunnel | PutTunnel | DropTunnel | Diagnostics
  | Clients | Bootstrap | AgentBootstrap | AgentDownload | AgentReport | Availability | RuntimeInfo
  | GetLogs | DropLogs | SyncUsers | ExportConfigs | UserConfigs | ExportUsers | StaticFile

text \<open>The patterns of the multiplexer: exact ones first, then those that end in a slash.\<close>

definition exact_routes :: "((string \<times> string) \<times> endpoint) list" where
  "exact_routes =
     [((''GET'', ''/healthz''), Health), ((''POST'', ''/api/login''), Login), ((''POST'', ''/api/logout''), Logout),
      ((''GET'', ''/api/me''), Me), ((''POST'', ''/api/password''), Password), ((''GET'', ''/api/users''), GetUsers),
      ((''POST'', ''/api/users''), PostUser), ((''GET'', ''/api/agent/bundle''), AgentBundle),
      ((''GET'', ''/api/nodes''), GetNodes), ((''POST'', ''/api/nodes''), PostNode),
      ((''GET'', ''/api/tunnels''), GetTunnels), ((''POST'', ''/api/tunnels''), PostTunnel),
      ((''GET'', ''/api/diagnostics''), Diagnostics), ((''GET'', ''/api/clients''), Clients),
      ((''GET'', ''/api/client/bootstrap''), Bootstrap), ((''GET'', ''/api/agent/bootstrap''), AgentBootstrap),
      ((''GET'', ''/api/agent/download''), AgentDownload), ((''POST'', ''/api/agent/report''), AgentReport),
      ((''GET'', ''/api/availability''), Availability), ((''GET'', ''/api/runtime''), RuntimeInfo),
      ((''GET'', ''/api/logs''), GetLogs), ((''DELETE'', ''/api/logs''), DropLogs),
      ((''POST'', ''/api/sync/frp-users''), SyncUsers), ((''POST'', ''/api/export/configs''), ExportConfigs),
      ((''GET'', ''/api/export/frp-users.json''), ExportUsers)]"

definition prefix_routes :: "((string \<times> string) \<times> endpoint) list" where
  "prefix_routes =
     [((''POST'', ''/api/users/''), UserActions), ((''DELETE'', ''/api/users/''), DropUser),
      ((''DELETE'', ''/api/nodes/''), DropNode), ((''PUT'', ''/api/tunnels/''), PutTunnel),
      ((''DELETE'', ''/api/tunnels/''), DropTunnel), ((''GET'', ''/api/users/''), UserConfigs)]"

definition route :: "string \<Rightarrow> string \<Rightarrow> endpoint" where
  "route meth path = (case map_of exact_routes (meth, path) of
       Some e \<Rightarrow> e
     | None \<Rightarrow> (case List.find (\<lambda>((m, p), _). m = meth \<and> has_prefix path p) prefix_routes of
         Some (_, e) \<Rightarrow> e | None \<Rightarrow> StaticFile))"

section \<open>URLs of the request\<close>

definition requestBaseURL :: "Request \<Rightarrow> string" where
  "requestBaseURL r =
     (let scheme0 = (if rqTLS r then ''https'' else ''http'');
          proto = trim_space (rqFwdProto r);
          scheme = (if proto \<noteq> [] then hd (split_on CHR '','' proto) else scheme0);
          fhost = trim_space (rqFwdHost r);
          host = (if fhost \<noteq> [] then hd (split_on CHR '','' fhost) else rqHost r)
      in scheme @ ''://'' @ host)"

definition bootstrap_base :: "Request \<Rightarrow> string" where
  "bootstrap_base r = (if rqTLS r \<or> rqFwdProto r = ''https'' then ''https'' else ''http'') @ ''://'' @ rqHost r"

section \<open>Serving\<close>

text \<open>What a request without a session reaches, and what the logged-in user \<open>u\<close> reaches.\<close>

definition serve_open :: "ApiConfig \<Rightarrow> ApiEnv \<Rightarrow> Request \<Rightarrow> Api \<Rightarrow> Api \<times> reply" where
  "serve_open cfg env r a = (case route (rqMethod r) (rqPath r) of
       Login \<Rightarrow> login cfg env (rqLogin r) a
     | AgentBundle \<Rightarrow> agentBundle env (rqQuery r ''node'') (rqAuth r) a
     | AgentBootstrap \<Rightarrow> agentBootstrap (rqQuery r ''id'') (rqQuery r ''token'') (bootstrap_base r) (rqQuery r ''control_url'') a
     | AgentReport \<Rightarrow> fst (reportTraffic cfg env (rqAuth r) (rqReport r) a)
     | Health \<Rightarrow> (a, MessageReply ''ok'')
     | _ \<Rightarrow> (a, FileReply))"

definition serve_user :: "ApiConfig \<Rightarrow> ApiEnv \<Rightarrow> User \<Rightarrow> Request \<Rightarrow> Api \<Rightarrow> Api \<times> reply" where
  "serve_user cfg env u r a = (case route (rqMethod r) (rqPath r) of
       Logout \<Rightarrow> logout (rqCookie r) a
     | Me \<Rightarrow> me u a
     | Password \<Rightarrow> changePassword cfg env u (rqPasswords r) a
     | GetUsers \<Rightarrow> listUsers u a
     | PostUser \<Rightarrow> upsertUser cfg env u (rqUser r) a
     | UserActions \<Rightarrow> userAction env u (rqPath r) a
     | DropUser \<Rightarrow> deleteUser cfg env u (rqPath r) a
     | GetNodes \<Rightarrow> listNodes u a
     | PostNode \<Rightarrow> upsertNode env u (rqNode r) a
     | DropNode \<Rightarrow> deleteNode env u (rqPath r) a
     | GetTunnels \<Rightarrow> listTunnels u (rqQuery r ''user'') a
     | PostTunnel \<Rightarrow> createTunnel cfg env u (rqTunnel r) a
     | PutTunnel \<Rightarrow> updateTunnel cfg env u (rqPath r) (rqTunnel r) a
     | DropTunnel \<Rightarrow> deleteTunnel cfg env u (rqPath r) a
     | Diagnostics \<Rightarrow> diagnostics env u a
     | Clients \<Rightarrow> listClients cfg env u a
     | Bootstrap \<Rightarrow> clientBootstrap cfg env u (rqQuery r ''user'') a
     | Availability \<Rightarrow> listAvailability cfg env u a
     | RuntimeInfo \<Rightarrow> runtimeInfo cfg u a
     | GetLogs \<Rightarrow> listLogs env u (rqQuery r ''limit'') (rqQuery r ''q'') a
     | DropLogs \<Rightarrow> clearLogs u a
     | SyncUsers \<Rightarrow> syncFRPUsers cfg env u a
     | ExportConfigs \<Rightarrow> exportConfigs cfg env u a
     | UserConfigs \<Rightarrow> userConfig cfg (requestBaseURL r) u (rqPath r) (rqQuery r ''node'') a
     | ExportUsers \<Rightarrow> exportFRPUsers u a
     | _ \<Rightarrow> (a, FileReply))"

definition open_path :: "string \<Rightarrow> bool" where
  "open_path path \<longleftrightarrow> \<not> has_prefix path ''/api/'' \<or> path = ''/api/login'' \<or> has_prefix path ''/api/agent/''"

text \<open>\<^verbatim>\<open>authMiddleware\<close> around the multiplexer.\<close>

definition serve :: "ApiConfig \<Rightarrow> ApiEnv \<Rightarrow> Request \<Rightarrow> Api \<Rightarrow> Api \<times> reply" where
  "serve cfg env r a =
     (if open_path (rqPath r) then serve_open cfg env r a
      else (case currentUser a (rqCookie r) of
          None \<Rightarrow> (a, ErrorReply 401 (Msg ''login required''))
        | Some u \<Rightarrow> serve_user cfg env u r a))"

text \<open>
  The steps of the running program: a request, a push to the nodes, the synchronisation a
  traffic report asks for, and the daily expiry.
\<close>

inductive api_step :: "ApiConfig \<Rightarrow> Api \<Rightarrow> Api \<Rightarrow> bool" for cfg where
  request: "api_step cfg a (fst (serve cfg env r a))"
| push: "api_step cfg a (pushRemoteNodes cfg agent env a)"
| resync: "api_step cfg a (fst (syncEngineUsers cfg env a))"
| expiry: "api_step cfg a (enforceUserExpiry cfg env a)"
| log_chunk: "api_step cfg a (a\<lparr>apLogs := fst (Write clock p (apLogs a))\<rparr>)"

inductive_cases api_stepE: "api_step cfg a a'"

definition new_api :: "Store \<Rightarrow> Api" where
  "new_api st = \<lparr>apStore = st, apSessions = [], apRemote = [], apTunnelTraffic = [], apUserTraffic = [],
     apLogs = newLogBuffer 3000, apFrp = None, apFrpClients = [], apNps = None, apFiles = []\<rparr>"

section \<open>Routes of the open paths\<close>

abbreviation open_endpoints :: "endpoint set" where
  "open_endpoints \<equiv> {Health, Login, AgentBundle, AgentBootstrap, AgentDownload, AgentReport, StaticFile}"

lemma exact_open: "list_all (\<lambda>((m, p), e). open_path p \<longrightarrow> e \<in> open_endpoints) exact_routes"
  by code_simp

lemma prefix_paths: "((m, p), e) \<in> set prefix_routes \<Longrightarrow> p \<in> {''/api/users/'', ''/api/nodes/'', ''/api/tunnels/''}"
  by (auto simp: prefix_routes_def)

lemma prefix_closed: "p \<in> {''/api/users/'', ''/api/nodes/'', ''/api/tunnels/''} \<Longrightarrow> \<not> open_path (p @ t)"
  by (elim insertE emptyE) (simp_all add: open_path_def has_prefix_def)

lemma open_routes:
  assumes "open_path path" shows "route meth path \<in> open_endpoints"
proof -
  have e: "e \<in> open_endpoints" if "map_of exact_routes (meth, path) = Some e" for e
    using exact_open map_of_SomeD [OF that] assms unfolding list_all_iff by blast
  have "\<not> (\<lambda>((m, p), _). m = meth \<and> has_prefix path p) x" if x: "x \<in> set prefix_routes" for x
  proof -
    obtain m p e where fields: "x = ((m, p), e)" by (metis prod.exhaust)
    with x have p: "p \<in> {''/api/users/'', ''/api/nodes/'', ''/api/tunnels/''}" using prefix_paths by blast
    have "\<not> has_prefix path p"
    proof
      assume "has_prefix path p"
      then obtain t where "path = p @ t" by (auto simp: has_prefix_iff)
      with prefix_closed [OF p] assms show False by blast
    qed
    with fields show ?thesis by simp
  qed
  then have "List.find (\<lambda>((m, p), _). m = meth \<and> has_prefix path p) prefix_routes = None"
    unfolding find_None_iff by blast
  then show ?thesis unfolding route_def using e by (auto split: option.split)
qed

end
