(* ===== verification/ControlInv.thy ===== *)
theory ControlInv
  imports ControlRoutes StoreSteps
begin

text \<open>
  What the handlers do to the control database: an invariant of the store's operations is
  an invariant of the running program. The locale \<open>store_contract\<close> states what the control
  program relies on; it is interpreted with the well-formedness of the database.
\<close>

section \<open>The synchronisation touches only the engines and the files\<close>

definition same_core :: "Api \<Rightarrow> Api \<Rightarrow> bool" where
  "same_core a a' \<longleftrightarrow> apStore a' = apStore a \<and> apSessions a' = apSessions a \<and> apRemote a' = apRemote a \<and>
     apTunnelTraffic a' = apTunnelTraffic a \<and> apUserTraffic a' = apUserTraffic a \<and> apLogs a' = apLogs a \<and>
     apFrpClients a' = apFrpClients a"

lemma same_core_refl [simp]: "same_core a a"
  by (simp add: same_core_def)

lemma same_core_trans: "same_core a b \<Longrightarrow> same_core b c \<Longrightarrow> same_core a c"
  by (simp add: same_core_def)

lemma write_file_core: "write_file env p c a = (a', r) \<Longrightarrow> same_core a a'"
  by (auto simp: write_file_def same_core_def split: if_splits)

lemma write_in_dir_core: "write_in_dir env p c a = (a', r) \<Longrightarrow> same_core a a'"
  by (auto simp: write_in_dir_def dest: write_file_core split: if_splits)

lemma sync_frp_core: "syncEmbeddedFRP cfg env a = (a', r) \<Longrightarrow> same_core a a'"
  by (auto simp: syncEmbeddedFRP_def same_core_def split: if_splits prod.splits)

lemma sync_nps_core: "syncEmbeddedNPS cfg env a = (a', r) \<Longrightarrow> same_core a a'"
  by (auto simp: syncEmbeddedNPS_def same_core_def split: if_splits prod.splits)

lemma sync_all_core: "syncEmbeddedAll cfg env a = (a', r) \<Longrightarrow> same_core a a'"
  by (auto simp: syncEmbeddedAll_def dest: sync_frp_core sync_nps_core intro: same_core_trans
      split: prod.splits option.splits)

lemma syncEngineUsers_core: "syncEngineUsers cfg env a = (a', r) \<Longrightarrow> same_core a a'"
  unfolding syncEngineUsers_def Let_def
  by (auto dest!: write_in_dir_core sync_all_core intro: same_core_trans split: prod.splits option.splits if_splits)

lemma sync_users_then_core: "same_core a (fst (sync_users_then cfg env a r))"
  by (auto simp: sync_users_then_def dest: syncEngineUsers_core split: prod.split sum.split)

lemma sync_nps_then_core: "same_core a (fst (sync_nps_then cfg env a r))"
  by (auto simp: sync_nps_then_def dest: sync_nps_core split: prod.split option.split)

lemma export_file_core: "export_file env p c aw = (aw', r) \<Longrightarrow> same_core (fst aw) (fst aw')"
  by (auto simp: export_file_def dest: write_file_core split: prod.splits option.splits)

lemma export_nodes_core: "export_nodes cfg env u d ts ns aw = (aw', r) \<Longrightarrow> same_core (fst aw) (fst aw')"
proof (induction ns arbitrary: aw)
  case (Cons n ns)
  then show ?case
    by (auto simp: Let_def dest!: export_file_core intro: same_core_trans split: if_splits sum.splits prod.splits option.splits)
qed simp

lemma export_user_core: "export_user cfg env ns u aw = (aw', r) \<Longrightarrow> same_core (fst aw) (fst aw')"
  by (auto simp: export_user_def Let_def dest!: export_file_core export_nodes_core intro: same_core_trans
      split: if_splits sum.splits prod.splits option.splits)

lemma export_users_core: "export_users cfg env ns us aw = (aw', r) \<Longrightarrow> same_core (fst aw) (fst aw')"
proof (induction us arbitrary: aw)
  case (Cons u us)
  then show ?case by (auto dest!: export_user_core intro: same_core_trans split: prod.splits option.splits)
qed simp

lemma exportConfigs_core: "same_core a (fst (exportConfigs cfg env u a))"
proof (cases "isAdmin u \<and> aeMkdir env (acConfigOut cfg)")
  case False
  then show ?thesis by (auto simp: exportConfigs_def need_admin_def Let_def)
next
  case True
  obtain a1 w1 e1 where 1: "export_file env (path_join [acConfigOut cfg, ''nps-clients.json''])
      (NpsClientsFile (ExportNPSClients (acFormat cfg) (Users (apStore a)))) (a, []) = ((a1, w1), e1)" by (metis prod.exhaust)
  obtain a2 w2 e2 where 2: "export_users cfg env (ListNodes (apStore a)) (Users (apStore a)) (a1, w1) = ((a2, w2), e2)"
    by (metis prod.exhaust)
  obtain a3 w3 e3 where 3: "export_file env (path_join [acConfigOut cfg, ''README.txt'']) (TextFile export_readme) (a2, w2) = ((a3, w3), e3)"
    by (metis prod.exhaust)
  have c1: "same_core a a1" using export_file_core [OF 1] by simp
  have c2: "same_core a a2" using same_core_trans [OF c1] export_users_core [OF 2] by simp
  have c3: "same_core a a3" using same_core_trans [OF c2] export_file_core [OF 3] by simp
  show ?thesis using True c1 c2 c3
    by (simp add: exportConfigs_def need_admin_def Let_def 1 2 3 split: option.split)
qed

section \<open>Store invariants\<close>

text \<open>
  The contract: \<open>inv\<close> survives every operation of the store a request or a background task
  calls, whatever its arguments and however its write to the file ends.
\<close>

locale store_contract =
  fixes sha :: "string \<Rightarrow> string" and inv :: "Store \<Rightarrow> bool"
  assumes inv_VerifyLogin: "inv st \<Longrightarrow> inv (fst (VerifyLogin sha e n p st))"
    and inv_SetPassword: "inv st \<Longrightarrow> inv (fst (SetPassword sha e n p st))"
    and inv_UpsertUser: "inv st \<Longrightarrow> inv (fst (UpsertUser sha e u st))"
    and inv_DeleteUser: "inv st \<Longrightarrow> inv (fst (DeleteUser io n st))"
    and inv_ResetUserFlow: "inv st \<Longrightarrow> inv (fst (ResetUserFlow e n st))"
    and inv_EnforceUserExpiry: "inv st \<Longrightarrow> inv (fst (EnforceUserExpiry now ret io st))"
    and inv_UpsertNode: "inv st \<Longrightarrow> inv (fst (UpsertNode e nd st))"
    and inv_DeleteNode: "inv st \<Longrightarrow> inv (fst (DeleteNode io n st))"
    and inv_UpdateNodeStatus: "inv st \<Longrightarrow> inv (fst (UpdateNodeStatus e n online msg st))"
    and inv_CreateTunnel: "inv st \<Longrightarrow> inv (fst (CreateTunnel e t st))"
    and inv_UpdateTunnel: "inv st \<Longrightarrow> inv (fst (UpdateTunnel e n t st))"
    and inv_DeleteTunnel: "inv st \<Longrightarrow> inv (fst (DeleteTunnel io n st))"
begin

lemma via: "op = (st', r) \<Longrightarrow> inv (fst op) \<Longrightarrow> inv st'"
  by simp

lemma inv_core: "same_core a a' \<Longrightarrow> inv (apStore a) \<Longrightarrow> inv (apStore a')"
  by (simp add: same_core_def)

lemma inv_sync_users_then: "inv (apStore a) \<Longrightarrow> inv (apStore (fst (sync_users_then cfg env a r)))"
  by (rule inv_core [OF sync_users_then_core])

lemma inv_sync_nps_then: "inv (apStore a) \<Longrightarrow> inv (apStore (fst (sync_nps_then cfg env a r)))"
  by (rule inv_core [OF sync_nps_then_core])

lemma inv_need_admin: "inv (apStore a) \<Longrightarrow> inv (apStore (fst r)) \<Longrightarrow> inv (apStore (fst (need_admin u a r)))"
  by (simp add: need_admin_def)

lemma inv_charge: "acSha cfg = sha \<Longrightarrow> inv st \<Longrightarrow> inv (fst (charge cfg e n i x st))"
  by (auto simp: charge_def Let_def inv_UpsertUser split: option.split)

lemma inv_report_user: "acSha cfg = sha \<Longrightarrow> inv (apStore a) \<Longrightarrow> inv (apStore (fst (report_user cfg e now nid t a)))"
  using inv_charge [of cfg "apStore a"]
  by (auto simp: report_user_def Let_def dest: via split: option.split prod.split)

lemma inv_report_users:
  "acSha cfg = sha \<Longrightarrow> inv (apStore a) \<Longrightarrow> inv (apStore (fst (report_users cfg env n nid ts a d)))"
proof (induction ts arbitrary: n a d)
  case (Cons t ts)
  obtain a1 d1 where r: "report_user cfg (aeStore env n) (aeNow env) nid t a = (a1, d1)" by fastforce
  have "inv (apStore a1)" using inv_report_user [OF Cons.prems, of "aeStore env n" "aeNow env" nid t] by (simp add: r)
  then show ?case using Cons by (simp add: r)
qed simp

lemma inv_push_node: "inv (apStore a) \<Longrightarrow> inv (apStore (push_node cfg agent env n node a))"
  by (auto simp: push_node_def pushRemoteNode_def setRemoteClientStatuses_def Let_def inv_UpdateNodeStatus split: prod.splits sum.splits)

lemma inv_push_nodes: "inv (apStore a) \<Longrightarrow> inv (apStore (push_nodes cfg agent env n nodes a))"
  by (induction nodes arbitrary: n a) (auto simp: inv_push_node)

lemma inv_login: "acSha cfg = sha \<Longrightarrow> inv (apStore a) \<Longrightarrow> inv (apStore (fst (login cfg env req a)))"
  using inv_VerifyLogin [of "apStore a" "aeStore env 0"]
  by (auto simp: login_def dest: via split: option.split prod.split)

lemma inv_report: "acSha cfg = sha \<Longrightarrow> inv (apStore a) \<Longrightarrow> inv (apStore (fst (fst (reportTraffic cfg env auth req a))))"
proof -
  assume h: "acSha cfg = sha" "inv (apStore a)"
  have "inv (apStore (fst (apply_report cfg env r a)))" for r
    unfolding apply_report_def by (rule inv_report_users [OF h(1)]) (simp add: h(2))
  then have "inv (apStore a1)" if "apply_report cfg env r a = (a1, d)" for r a1 d using that by (metis fst_conv)
  with h(2) show ?thesis by (auto simp: reportTraffic_def Let_def split: option.split prod.split)
qed

lemma open_handlers_same:
  "fst (agentBundle env n0 auth a) = a" "fst (agentBootstrap i t b ov a) = a"
  by (auto simp: agentBundle_def agentBootstrap_def Let_def split: option.split)

lemma inv_open: "acSha cfg = sha \<Longrightarrow> inv (apStore a) \<Longrightarrow> inv (apStore (fst (serve_open cfg env r a)))"
  unfolding serve_open_def
  by (cases "route (rqMethod r) (rqPath r)") (simp_all add: inv_login inv_report open_handlers_same)

lemma inv_changePassword:
  "acSha cfg = sha \<Longrightarrow> inv (apStore a) \<Longrightarrow> inv (apStore (fst (changePassword cfg env u req a)))"
proof -
  assume h: "acSha cfg = sha" "inv (apStore a)"
  have v: "inv st" if "VerifyLogin (acSha cfg) e n p (apStore a) = (st, r)" for e n p st r
    using inv_VerifyLogin [OF h(2), of e n p] that by (simp add: h(1))
  have s: "inv st'" if "SetPassword (acSha cfg) e n p st = (st', r)" "inv st" for e n p st st' r
    using inv_SetPassword [OF that(2), of e n p] that(1) by (simp add: h(1))
  show ?thesis using h(2)
    by (auto simp: changePassword_def Let_def dest: v s split: option.split prod.split sum.split bool.split)
qed

lemma inv_upsertUser:
  "acSha cfg = sha \<Longrightarrow> inv (apStore a) \<Longrightarrow> inv (apStore (fst (upsertUser cfg env u body a)))"
proof -
  assume h: "acSha cfg = sha" "inv (apStore a)"
  have s: "inv st'" if "UpsertUser (acSha cfg) e x (apStore a) = (st', r)" for e x st' r
    using inv_UpsertUser [OF h(2), of e x] that by (simp add: h(1))
  show ?thesis unfolding upsertUser_def
    by (rule inv_need_admin [OF h(2)])
      (use h(2) in \<open>auto simp: Let_def intro!: inv_sync_users_then dest: s split: option.split prod.split sum.split\<close>)
qed

lemma inv_deleteUser: "inv (apStore a) \<Longrightarrow> inv (apStore (fst (deleteUser cfg env u path a)))"
proof -
  assume h: "inv (apStore a)"
  have s: "inv st'" if "DeleteUser io n (apStore a) = (st', r)" for io n st' r
    using inv_DeleteUser [OF h, of io n] that by simp
  show ?thesis unfolding deleteUser_def
    by (rule inv_need_admin [OF h])
      (use h in \<open>auto simp: Let_def intro!: inv_sync_users_then dest: s split: prod.split sum.split\<close>)
qed

lemma inv_userAction: "inv (apStore a) \<Longrightarrow> inv (apStore (fst (userAction env u path a)))"
proof -
  assume h: "inv (apStore a)"
  have s: "inv st'" if "ResetUserFlow e n (apStore a) = (st', r)" for e n st' r
    using inv_ResetUserFlow [OF h, of e n] that by simp
  show ?thesis unfolding userAction_def
    by (rule inv_need_admin [OF h]) (use h in \<open>auto dest: s split: option.split prod.split sum.split\<close>)
qed

lemma inv_upsertNode: "inv (apStore a) \<Longrightarrow> inv (apStore (fst (upsertNode env u body a)))"
proof -
  assume h: "inv (apStore a)"
  have s: "inv st'" if "UpsertNode e n (apStore a) = (st', r)" for e n st' r
    using inv_UpsertNode [OF h, of e n] that by simp
  show ?thesis unfolding upsertNode_def
    by (rule inv_need_admin [OF h]) (use h in \<open>auto dest: s split: option.split prod.split sum.split\<close>)
qed

lemma inv_deleteNode: "inv (apStore a) \<Longrightarrow> inv (apStore (fst (deleteNode env u path a)))"
proof -
  assume h: "inv (apStore a)"
  have s: "inv st'" if "DeleteNode io n (apStore a) = (st', r)" for io n st' r
    using inv_DeleteNode [OF h, of io n] that by simp
  show ?thesis unfolding deleteNode_def
    by (rule inv_need_admin [OF h]) (use h in \<open>auto simp: Let_def dest: s split: prod.split sum.split\<close>)
qed

lemma inv_createTunnel: "inv (apStore a) \<Longrightarrow> inv (apStore (fst (createTunnel cfg env u body a)))"
proof -
  assume h: "inv (apStore a)"
  have s: "inv st'" if "CreateTunnel e t (apStore a) = (st', r)" for e t st' r
    using inv_CreateTunnel [OF h, of e t] that by simp
  show ?thesis using h
    by (auto simp: createTunnel_def Let_def intro!: inv_sync_nps_then dest: s split: option.split prod.split sum.split)
qed

lemma inv_updateTunnel: "inv (apStore a) \<Longrightarrow> inv (apStore (fst (updateTunnel cfg env u path body a)))"
proof -
  assume h: "inv (apStore a)"
  have s: "inv st'" if "UpdateTunnel e n t (apStore a) = (st', r)" for e n t st' r
    using inv_UpdateTunnel [OF h, of e n t] that by simp
  show ?thesis using h
    by (auto simp: updateTunnel_def Let_def intro!: inv_sync_nps_then dest: s split: option.split prod.split sum.split)
qed

lemma inv_deleteTunnel: "inv (apStore a) \<Longrightarrow> inv (apStore (fst (deleteTunnel cfg env u path a)))"
proof -
  assume h: "inv (apStore a)"
  have s: "inv st'" if "DeleteTunnel io n (apStore a) = (st', r)" for io n st' r
    using inv_DeleteTunnel [OF h, of io n] that by simp
  show ?thesis using h
    by (auto simp: deleteTunnel_def Let_def intro!: inv_sync_nps_then dest: s split: prod.split sum.split)
qed

lemma inv_syncFRPUsers: "inv (apStore a) \<Longrightarrow> inv (apStore (fst (syncFRPUsers cfg env u a)))"
  unfolding syncFRPUsers_def
  by (rule inv_need_admin) (auto dest: syncEngineUsers_core intro: inv_core split: prod.split sum.split)

lemma inv_user: "acSha cfg = sha \<Longrightarrow> inv (apStore a) \<Longrightarrow> inv (apStore (fst (serve_user cfg env u r a)))"
  unfolding serve_user_def
  by (cases "route (rqMethod r) (rqPath r)")
    (simp_all add: inv_changePassword inv_upsertUser inv_deleteUser inv_userAction inv_upsertNode inv_deleteNode
      inv_createTunnel inv_updateTunnel inv_deleteTunnel inv_syncFRPUsers inv_core [OF exportConfigs_core] logout_def me_def listUsers_def
      listNodes_def listTunnels_def diagnostics_def listClients_def clientBootstrap_def listAvailability_def
      runtimeInfo_def listLogs_def clearLogs_def exportFRPUsers_def userConfig_def need_admin_def Let_def
      split: option.split sum.split)

lemma inv_serve: "acSha cfg = sha \<Longrightarrow> inv (apStore a) \<Longrightarrow> inv (apStore (fst (serve cfg env r a)))"
  by (simp add: serve_def inv_open inv_user split: option.split)

lemma inv_sync: "inv (apStore a) \<Longrightarrow> inv (apStore (fst (syncEngineUsers cfg env a)))"
  by (cases "syncEngineUsers cfg env a") (auto dest!: syncEngineUsers_core intro: inv_core)

lemma inv_expiry: "inv (apStore a) \<Longrightarrow> inv (apStore (enforceUserExpiry cfg env a))"
proof -
  assume h: "inv (apStore a)"
  obtain st ch err where e: "EnforceUserExpiry (aeNow env) expiry_retention (eSave (aeStore env 0)) (apStore a) = (st, ch, err)"
    by (metis prod.exhaust)
  have "inv st" using inv_EnforceUserExpiry [OF h, of "aeNow env" expiry_retention "eSave (aeStore env 0)"] by (simp add: e)
  then show ?thesis using inv_sync [of "a\<lparr>apStore := st\<rparr>" cfg env] by (simp add: enforceUserExpiry_def e Let_def)
qed

theorem inv_step: "api_step cfg a a' \<Longrightarrow> acSha cfg = sha \<Longrightarrow> inv (apStore a) \<Longrightarrow> inv (apStore a')"
  by (erule api_stepE) (auto simp: inv_serve inv_push_nodes pushRemoteNodes_def inv_sync inv_expiry)

end

interpretation db: store_contract sha store_ok for sha
  by unfold_locales (simp_all add: store_op_ok)

end
