(* ===== verification/ControlSafety.thy ===== *)
theory ControlSafety
  imports ControlInv StoreProps
begin

text \<open>
  Who may change what through the HTTP interface: the reachable states of the control
  program, the confinement of users without the admin role, and the requests without a
  session.
\<close>

section \<open>Reachable states\<close>

inductive api_reachable :: "ApiConfig \<Rightarrow> Api \<Rightarrow> bool" for cfg where
  boot: "store_reachable (acSha cfg) st \<Longrightarrow> api_reachable cfg (new_api st)"
| step: "api_reachable cfg a \<Longrightarrow> api_step cfg a a' \<Longrightarrow> api_reachable cfg a'"

lemma api_reachable_store_ok: "api_reachable cfg a \<Longrightarrow> store_ok (apStore a)"
proof (induction rule: api_reachable.induct)
  case (boot st)
  then show ?case by (simp add: new_api_def reachable_store_ok)
next
  case (step a a')
  show ?case by (rule db.inv_step [OF step.hyps(2) refl step.IH])
qed

section \<open>Confinement to one user\<close>

definition public_part :: "User \<Rightarrow> User" where
  "public_part u = u\<lparr>uPassword := [], uPasswordHash := [], uUpdatedAt := 0\<rparr>"

definition confined :: "string \<Rightarrow> Store \<Rightarrow> Store \<Rightarrow> bool" where
  "confined n st st' \<longleftrightarrow>
     nodes_of st' = nodes_of st \<and>
     (\<forall>m. m \<noteq> n \<longrightarrow> mget (users_of st') m = mget (users_of st) m) \<and>
     map_option public_part (mget (users_of st') n) = map_option public_part (mget (users_of st) n) \<and>
     (\<forall>k t. tUserName t \<noteq> n \<longrightarrow> (mget (tunnels_of st') k = Some t \<longleftrightarrow> mget (tunnels_of st) k = Some t))"

lemma confined_refl [simp]: "confined n st st"
  by (simp add: confined_def)

lemma confined_trans: "confined n s t \<Longrightarrow> confined n t u \<Longrightarrow> confined n s u"
  by (simp add: confined_def)

lemma confined_db: "stDb st' = stDb st \<Longrightarrow> confined n st st'"
  by (simp add: confined_def)

lemma confined_put_user:
  "mget (users_of st) n = Some u \<Longrightarrow> public_part v = public_part u \<Longrightarrow>
   stDb st' = stDb (set_users (mput n v) st) \<Longrightarrow> confined n st st'"
  by (auto simp: confined_def frame_simps gomap_simps)

lemma VerifyLogin_confined: "VerifyLogin sha e n p st = (st', r) \<Longrightarrow> confined n st st'"
proof -
  assume v: "VerifyLogin sha e n p st = (st', r)"
  show ?thesis
  proof (cases "mget (users_of st) n")
    case None
    with v show ?thesis by (simp add: VerifyLogin_def)
  next
    case (Some u)
    let ?u = "u\<lparr>uPasswordHash := hashPassword sha (eSalt e) p, uPassword := [], uUpdatedAt := eNow e\<rparr>"
    from v Some have "stDb st' = stDb st \<or> stDb st' = stDb (set_users (mput n ?u) st)"
      by (auto simp: VerifyLogin_def Let_def frame_simps split: if_splits)
    moreover have "public_part ?u = public_part u" by (simp add: public_part_def)
    ultimately show ?thesis using confined_db confined_put_user [OF Some] by blast
  qed
qed

lemma SetPassword_confined: "SetPassword sha e n p st = (st', r) \<Longrightarrow> confined n st st'"
proof -
  assume v: "SetPassword sha e n p st = (st', r)"
  show ?thesis
  proof (cases "mget (users_of st) n")
    case None
    with v show ?thesis by (auto simp: SetPassword_def split: if_splits)
  next
    case (Some u)
    let ?u = "u\<lparr>uPassword := [], uPasswordHash := hashPassword sha (eSalt e) p, uUpdatedAt := eNow e\<rparr>"
    from v have "st' = fst (SetPassword sha e n p st)" by simp
    then have "stDb st' = stDb st \<or> stDb st' = stDb (set_users (mput n ?u) st)"
      using Some by (auto simp: SetPassword_def Let_def frame_simps split: if_splits)
    moreover have "public_part ?u = public_part u" by (simp add: public_part_def)
    ultimately show ?thesis using confined_db confined_put_user [OF Some] by blast
  qed
qed

lemma confined_put_tunnel:
  "tUserName t = n \<Longrightarrow> (\<And>s. mget (tunnels_of st) k = Some s \<Longrightarrow> tUserName s = n) \<Longrightarrow>
   stDb st' = stDb (set_tunnels (mput k t) st) \<Longrightarrow> confined n st st'"
  by (auto simp: confined_def frame_simps gomap_simps)

lemma normalize_tunnel_user: "normalize_tunnel t = Inr t' \<Longrightarrow> tUserName t' = tUserName t"
  by (auto simp: normalize_tunnel_def Let_def split: sum.splits if_splits)

lemma CreateTunnel_confined:
  assumes "CreateTunnel e t st = (st', r)" shows "confined (tUserName t) st st'"
proof (cases "normalize_tunnel t")
  case (Inl err)
  with assms show ?thesis by (simp add: CreateTunnel_def)
next
  case (Inr t1)
  let ?t2 = "if tID t1 = [] then t1\<lparr>tID := nextTunnelID (tUserName t1) (tNodeID t1) (tEngine t1) (tMode t1) (tRemotePort t1) (eSecret1 e)\<rparr> else t1"
  let ?cp = "?t2\<lparr>tCreatedAt := eNow e, tUpdatedAt := eNow e\<rparr>"
  have u: "tUserName ?cp = tUserName t" using normalize_tunnel_user [OF Inr] by simp
  have st': "st' = fst (CreateTunnel e t st)" using assms by simp
  have "stDb st' = stDb st \<or> mget (tunnels_of st) (tID ?t2) = None \<and> stDb st' = stDb (set_tunnels (mput (tID ?t2) ?cp) st)"
    unfolding st' CreateTunnel_def Inr sum.case Let_def by (auto simp: frame_simps split: option.split)
  then show ?thesis using confined_db confined_put_tunnel [OF u, of st "tID ?t2"] by auto
qed

lemma UpdateTunnel_confined:
  assumes "UpdateTunnel e k t st = (st', r)" "mget (tunnels_of st) k = Some s" "tUserName s = tUserName t"
  shows "confined (tUserName t) st st'"
proof (cases "normalize_tunnel t")
  case (Inl err)
  with assms show ?thesis by (simp add: UpdateTunnel_def)
next
  case (Inr t1)
  let ?t2 = "if tID t1 = [] then t1\<lparr>tID := k\<rparr> else t1"
  let ?cp = "?t2\<lparr>tCreatedAt := tCreatedAt s, tUpdatedAt := eNow e\<rparr>"
  have u: "tUserName ?cp = tUserName t" using normalize_tunnel_user [OF Inr] by simp
  have st': "st' = fst (UpdateTunnel e k t st)" using assms by simp
  have "stDb st' = stDb st \<or> stDb st' = stDb (set_tunnels (mput k ?cp) st)"
    unfolding st' UpdateTunnel_def Inr sum.case Let_def assms(2) option.case by (auto simp: frame_simps split: option.split)
  then show ?thesis using confined_db confined_put_tunnel [OF u, of st k] assms(2,3) by auto
qed

lemma DeleteTunnel_confined:
  assumes "DeleteTunnel io k st = (st', r)" "mget (tunnels_of st) k = Some s" "tUserName s = n"
  shows "confined n st st'"
proof -
  have st': "st' = fst (DeleteTunnel io k st)" using assms by simp
  have "stDb st' = stDb st \<or> stDb st' = stDb (set_tunnels (mdel k) st)"
    unfolding st' DeleteTunnel_def by (simp add: frame_simps)
  then show ?thesis using assms(2,3) by (auto simp: confined_def frame_simps gomap_simps split: if_splits)
qed

lemma owned_row:
  assumes "store_ok (apStore a)" "owns_tunnel a u k" "uName u \<noteq> []"
  shows "\<exists>s. mget (tunnels_of (apStore a)) k = Some s \<and> tUserName s = uName u"
proof -
  have wf: "mwf (tunnels_of (apStore a))" "\<forall>j t. (j, t) \<in> set (tunnels_of (apStore a)) \<longrightarrow> tID t = j"
    using assms(1) by (auto simp: store_ok_def db_ok_iff keyed_iff)
  from assms(2,3) obtain j t where "(j, t) \<in> set (tunnels_of (apStore a))" "tID t = k" "tUserName t = uName u"
    by (auto simp: owns_tunnel_def ListTunnels_def list_ex_iff)
  with wf show ?thesis by (auto simp: mem_mget)
qed

text \<open>The part of the state outside the database that a user can change is his session and the engines.\<close>

definition user_effect :: "Request \<Rightarrow> string \<Rightarrow> Api \<Rightarrow> Api \<Rightarrow> bool" where
  "user_effect r n a a' \<longleftrightarrow> confined n (apStore a) (apStore a') \<and>
     (\<forall>token. Some token \<noteq> rqCookie r \<longrightarrow> mget (apSessions a') token = mget (apSessions a) token) \<and>
     apRemote a' = apRemote a \<and> apTunnelTraffic a' = apTunnelTraffic a \<and> apUserTraffic a' = apUserTraffic a \<and>
     apLogs a' = apLogs a \<and> apFiles a' = apFiles a"

lemma user_effect_refl [simp]: "user_effect r n a a"
  by (simp add: user_effect_def)

lemma user_effect_store: "confined n (apStore a) st \<Longrightarrow> user_effect r n a (a\<lparr>apStore := st\<rparr>)"
  by (simp add: user_effect_def)

lemma user_effect_sync:
  "user_effect r n a b \<Longrightarrow> user_effect r n a (fst (sync_nps_then cfg env b rep))"
  by (auto simp: user_effect_def sync_nps_then_def syncEmbeddedNPS_def split: prod.split option.split if_splits)

lemma changePassword_effect:
  "\<not> isAdmin u \<Longrightarrow> user_effect r (uName u) a (fst (changePassword cfg env u req a))"
  by (auto simp: changePassword_def Let_def intro!: user_effect_store
      dest!: VerifyLogin_confined SetPassword_confined intro: confined_trans
      split: option.split prod.split sum.split bool.split)

lemma createTunnel_effect:
  "\<not> isAdmin u \<Longrightarrow> user_effect r (uName u) a (fst (createTunnel cfg env u body a))"
proof -
  assume n: "\<not> isAdmin u"
  have c: "confined (uName u) (apStore a) st'" if "CreateTunnel e (t\<lparr>tUserName := uName u\<rparr>) (apStore a) = (st', x)" for e t st' x
    using CreateTunnel_confined [OF that] by simp
  show ?thesis using n
    by (auto simp: createTunnel_def Let_def intro!: user_effect_sync user_effect_store dest!: c
        split: option.split prod.split sum.split)
qed

lemma updateTunnel_effect:
  assumes "store_ok (apStore a)" "uName u \<noteq> []" "\<not> isAdmin u"
  shows "user_effect r (uName u) a (fst (updateTunnel cfg env u path body a))"
proof -
  have c: "confined (uName u) (apStore a) st'"
    if "UpdateTunnel e k (t\<lparr>tUserName := uName u\<rparr>) (apStore a) = (st', x)" "owns_tunnel a u k" for e k t st' x
    using UpdateTunnel_confined [OF that(1)] owned_row [OF assms(1) that(2) assms(2)] by auto
  show ?thesis using assms(3)
    by (auto simp: updateTunnel_def Let_def intro!: user_effect_sync user_effect_store dest: c
        split: option.split prod.split sum.split)
qed

lemma deleteTunnel_effect:
  assumes "store_ok (apStore a)" "uName u \<noteq> []" "\<not> isAdmin u"
  shows "user_effect r (uName u) a (fst (deleteTunnel cfg env u path a))"
proof -
  have c: "confined (uName u) (apStore a) st'"
    if "DeleteTunnel io k (apStore a) = (st', x)" "owns_tunnel a u k" for io k st' x
    using DeleteTunnel_confined [OF that(1)] owned_row [OF assms(1) that(2) assms(2)] by auto
  show ?thesis using assms(3)
    by (auto simp: deleteTunnel_def Let_def intro!: user_effect_sync user_effect_store dest: c
        split: prod.split sum.split)
qed

lemma logout_effect: "user_effect r n a (fst (logout (rqCookie r) a))"
  by (auto simp: logout_def user_effect_def session_delete_def gomap_simps split: option.split)

lemma need_admin_denied: "\<not> isAdmin u \<Longrightarrow> need_admin u a x = (a, ErrorReply 403 (Msg ''admin required''))"
  by (simp add: need_admin_def)

lemma currentUser_row:
  assumes "currentUser a c = Some u" "store_ok (apStore a)"
  shows "mget (users_of (apStore a)) (uName u) = Some u \<and> uEnabled u \<and> uName u \<noteq> []"
proof -
  from assms(1) obtain name where g: "mget (users_of (apStore a)) name = Some u" "uEnabled u"
    by (auto simp: currentUser_def GetUser_def split: option.splits if_splits)
  have k: "keyed uName (users_of (apStore a))" "mget (users_of (apStore a)) [] = None"
    using assms(2) by (simp_all add: store_ok_def db_ok_iff)
  have "uName u = name" by (rule keyed_mget [OF k(1) g(1)])
  with g k(2) show ?thesis by auto
qed

text \<open>C35. A request by a user without the admin role is confined to him: it leaves every node, every other user's record
  and tunnels, the files, logs and traffic counters as they are, touches at most the password of his own
  record, and no session but his own.\<close>

theorem non_admin_confined:
  assumes "store_ok (apStore a)" "currentUser a (rqCookie r) = Some u" "\<not> isAdmin u" "\<not> open_path (rqPath r)"
  shows "user_effect r (uName u) a (fst (serve cfg env r a))"
proof -
  have n: "uName u \<noteq> []" using currentUser_row [OF assms(2,1)] by blast
  have "user_effect r (uName u) a (fst (serve_user cfg env u r a))"
    unfolding serve_user_def
    by (cases "route (rqMethod r) (rqPath r)")
      (simp_all add: assms(3) need_admin_denied changePassword_effect createTunnel_effect
        updateTunnel_effect [OF assms(1) n] deleteTunnel_effect [OF assms(1) n] logout_effect me_def listUsers_def
        upsertUser_def userAction_def deleteUser_def listNodes_def upsertNode_def deleteNode_def listTunnels_def
        diagnostics_def listClients_def clientBootstrap_def listAvailability_def runtimeInfo_def listLogs_def
        clearLogs_def syncFRPUsers_def exportConfigs_def exportFRPUsers_def userConfig_def Let_def
        split: option.split sum.split)
  then show ?thesis using assms(2,4) by (simp add: serve_def)
qed

definition demo_cfg :: ApiConfig where
  "demo_cfg = \<lparr>acFrpUserOut = ''.data/frps-users.json'', acNpsClientOut = [], acConfigOut = ''.data/export'',
     acEmbedded = False, acAgentPushPort = 18089, acRuntime = zero_Runtime, acSha = rev, acFormat = \<lambda>_. [],
     acRFC3339 = \<lambda>_. [], acParse = \<lambda>_ _. None, acParseLocal = \<lambda>_. None\<rparr>"

definition demo_aenv :: ApiEnv where
  "demo_aenv = \<lparr>aeStore = \<lambda>_. demo_env, aeNow = 100, aeToken = ''tok'', aeMkdir = \<lambda>_. True, aeWrite = \<lambda>_. True,
     aeFrp = \<lparr>fwNow = 100, fwOk = True\<rparr>, aeNps = \<lparr>neAllowed = [], nePortFree = \<lambda>_ _. True, neCloses = \<lambda>_. True, neVkeys = []\<rparr>,
     aeNetwork = demo_network\<rparr>"

definition demo_request :: Request where
  "demo_request = \<lparr>rqMethod = ''DELETE'', rqPath = ''/api/tunnels/alice-nps-tcp-10000'', rqCookie = Some ''tok'',
     rqQuery = \<lambda>_. [], rqAuth = [], rqHost = ''control'', rqTLS = False, rqFwdProto = [], rqFwdHost = [], rqLogin = None,
     rqPasswords = None, rqUser = None, rqNode = None, rqTunnel = \<lambda>_. None, rqReport = None\<rparr>"

definition demo_api :: Api where
  "demo_api = (new_api demo_store)\<lparr>apSessions := [(''tok'', ''alice'')]\<rparr>"

lemma demo_api_user: "currentUser demo_api (Some ''tok'') = Some demo_alice_row" "\<not> isAdmin demo_alice_row"
  by code_simp+

lemma demo_api_ok: "store_ok (apStore demo_api)"
  using reachable_store_ok [OF demo_reachable] by (simp add: demo_api_def new_api_def)

theorem non_admin_confined_witness:
  "user_effect demo_request ''alice'' demo_api (fst (serve demo_cfg demo_aenv demo_request demo_api)) \<and>
   map fst (tunnels_of (apStore (fst (serve demo_cfg demo_aenv demo_request demo_api)))) = [''alice-nps-https-01234567'']"
proof -
  have "currentUser demo_api (rqCookie demo_request) = Some demo_alice_row" "\<not> open_path (rqPath demo_request)"
    "uName demo_alice_row = ''alice''"
    using demo_api_user(1) by (simp_all add: demo_request_def open_path_def has_prefix_def demo_alice_row_def demo_user_def)
  moreover have "map fst (tunnels_of (apStore (fst (serve demo_cfg demo_aenv demo_request demo_api)))) = [''alice-nps-https-01234567'']"
    by code_simp
  ultimately show ?thesis
    using non_admin_confined [OF demo_api_ok, of demo_request demo_alice_row demo_cfg demo_aenv] demo_api_user(2) by simp
qed

text \<open>C34. In every reachable state of the control program, whatever the requests, reports, pushes and expiries before it,
  the database is well formed: its tables are keyed by their rows, every tunnel is complete and has an existing
  owner and node, no two tunnels hold the same port or domain; and whoever a session stands for is an
  enabled user of it.\<close>

theorem control_state_well_formed:
  assumes "api_reachable cfg a"
  shows "db_ok (stDb (apStore a)) \<and>
    (\<forall>cookie u. currentUser a cookie = Some u \<longrightarrow> mget (users_of (apStore a)) (uName u) = Some u \<and> uEnabled u)"
proof -
  have ok: "store_ok (apStore a)" by (rule api_reachable_store_ok [OF assms])
  then show ?thesis using currentUser_row [OF _ ok] by (auto simp: store_ok_def)
qed

theorem control_state_well_formed_witness:
  "db_ok (stDb (apStore (fst (serve demo_cfg demo_aenv demo_request (new_api demo_store)))))"
proof -
  have "api_reachable demo_cfg (new_api demo_store)"
    by (rule api_reachable.boot) (use demo_reachable in \<open>simp add: demo_cfg_def\<close>)
  from api_reachable.step [OF this api_step.request] show ?thesis
    using control_state_well_formed by blast
qed

section \<open>Requests without a session\<close>

definition refused :: "reply \<Rightarrow> bool" where
  "refused rep = (case rep of ErrorReply _ _ \<Rightarrow> True | NotFound \<Rightarrow> True | FileReply \<Rightarrow> True | _ \<Rightarrow> False)"

text \<open>The node tokens a request can present, in the three ways the handlers read them.\<close>

definition presented_tokens :: "Request \<Rightarrow> string list" where
  "presented_tokens r = [trim_space (trim_prefix (rqAuth r) ''Bearer ''), trim_prefix (trim_space (rqAuth r)) ''Bearer '',
     trim_space (rqQuery r ''token'')]"

text \<open>A request without a valid session that presents no node's token changes nothing and learns nothing: but for a
  login, the health check and the static files every endpoint refuses it and leaves the whole state as it was.\<close>

theorem unauthenticated_refused:
  assumes "currentUser a (rqCookie r) = None" "route (rqMethod r) (rqPath r) \<noteq> Login"
    and "\<forall>k n. mget (nodes_of (apStore a)) k = Some n \<longrightarrow> nToken n \<notin> set (presented_tokens r)"
  shows "fst (serve cfg env r a) = a \<and> (refused (snd (serve cfg env r a)) \<or> route (rqMethod r) (rqPath r) = Health)"
proof (cases "open_path (rqPath r)")
  case False
  with assms(1) show ?thesis by (simp add: serve_def refused_def)
next
  case True
  have node: "nToken n \<notin> set (presented_tokens r)" if "GetNode (apStore a) i = Some n" for i n
    using assms(3) that by (auto simp: GetNode_def)
  have b: "fst (agentBundle env q (rqAuth r) a) = a \<and> refused (snd (agentBundle env q (rqAuth r) a))" for q
    using node [of "trim_space q"]
    by (cases "GetNode (apStore a) (trim_space q)") (auto simp: agentBundle_def Let_def refused_def presented_tokens_def)
  have s: "fst (agentBootstrap i (rqQuery r ''token'') base ov a) = a \<and> refused (snd (agentBootstrap i (rqQuery r ''token'') base ov a))" for i base ov
    using node [of "trim_space i"]
    by (cases "GetNode (apStore a) (trim_space i)") (auto simp: agentBootstrap_def Let_def refused_def presented_tokens_def)
  have t: "fst (fst (reportTraffic cfg env (rqAuth r) q a)) = a \<and> refused (snd (fst (reportTraffic cfg env (rqAuth r) q a)))" for q
  proof (cases q)
    case None
    then show ?thesis by (simp add: reportTraffic_def Let_def refused_def)
  next
    case (Some rep)
    then show ?thesis using node [of "trNodeID rep"]
      by (cases "GetNode (apStore a) (trNodeID rep)") (auto simp: reportTraffic_def Let_def refused_def presented_tokens_def)
  qed
  from open_routes [OF True] assms(2) b s t show ?thesis
    unfolding serve_def serve_open_def using True
    by (cases "route (rqMethod r) (rqPath r)") (simp_all add: refused_def)
qed

theorem unauthenticated_refused_witness:
  "fst (serve demo_cfg demo_aenv (demo_request\<lparr>rqCookie := Some ''stolen''\<rparr>) demo_api) = demo_api"
proof -
  let ?r = "demo_request\<lparr>rqCookie := Some ''stolen''\<rparr>"
  have "currentUser demo_api (rqCookie ?r) = None" "route (rqMethod ?r) (rqPath ?r) \<noteq> Login" by code_simp+
  moreover have "\<forall>k n. mget (nodes_of (apStore demo_api)) k = Some n \<longrightarrow> nToken n \<notin> set (presented_tokens ?r)"
  proof -
    have "list_all (\<lambda>(_, n). nToken n \<notin> set (presented_tokens ?r)) (nodes_of (apStore demo_api))" by code_simp
    then show ?thesis by (auto simp: list_all_iff dest!: mget_Some_mem)
  qed
  ultimately show ?thesis using unauthenticated_refused by blast
qed

end
