(* ===== verification/ControlData.thy ===== *)
theory ControlData
  imports ControlSafety
begin

text \<open>
  What the agents and clients get and give: the bundle of a node, the bootstrap of a
  client, and the charging of users by traffic reports.
\<close>

section \<open>Lists of the store as sets\<close>

lemma rows_iff:
  assumes "keyed key m"
  shows "v \<in> snd ` set m \<longleftrightarrow> mget m (key v) = Some v"
proof
  assume "v \<in> snd ` set m"
  then obtain k where k: "(k, v) \<in> set m" by (metis imageE prod.collapse)
  then have "mget m k = Some v" by (rule iffD1 [OF mem_mget [OF keyed_wf [OF assms]]])
  with keyed_mget [OF assms this] show "mget m (key v) = Some v" by simp
next
  assume "mget m (key v) = Some v"
  from imageI [OF mget_Some_mem [OF this], of snd] show "v \<in> snd ` set m" by simp
qed

lemma keys_of_rows: "keyed key m \<Longrightarrow> map key (map snd m) = map fst m"
  by (auto simp: keyed_def)

lemma store_keyed:
  assumes "store_ok st"
  shows "keyed uName (users_of st)" "keyed nID (nodes_of st)" "keyed tID (tunnels_of st)"
  using assms by (simp_all add: store_ok_def db_ok_def)

lemma ListTunnels_iff:
  "store_ok st \<Longrightarrow> t \<in> set (ListTunnels st n) \<longleftrightarrow> mget (tunnels_of st) (tID t) = Some t \<and> (n = [] \<or> tUserName t = n)"
  using rows_iff [OF store_keyed(3), of st t] by (auto simp: ListTunnels_def)

lemma Users_iff: "store_ok st \<Longrightarrow> u \<in> set (Users st) \<longleftrightarrow> mget (users_of st) (uName u) = Some u"
  using rows_iff [OF store_keyed(1), of st u] by (simp add: Users_def)

lemma ListNodes_iff: "store_ok st \<Longrightarrow> n \<in> set (ListNodes st) \<longleftrightarrow> mget (nodes_of st) (nID n) = Some n"
  using rows_iff [OF store_keyed(2), of st n] by (simp add: ListNodes_def)

lemma distinct_keys_sorted:
  assumes "keyed key m" shows "distinct (map key (sort_key f (map snd m)))"
proof -
  have "distinct (map key (map snd m))"
    unfolding keys_of_rows [OF assms] using keyed_wf [OF assms] by (simp add: mwf_def)
  moreover have "mset (map key (sort_key f (map snd m))) = mset (map key (map snd m))" 
    by (simp only: mset_map mset_sort)
  ultimately show ?thesis by (rule mset_eq_imp_distinct_iff [THEN iffD2, rotated])
qed

lemma distinct_ListNodes: "store_ok st \<Longrightarrow> distinct (map nID (ListNodes st))"
  unfolding ListNodes_def by (rule distinct_keys_sorted [OF store_keyed(2)])

lemma stored_tunnel:
  assumes "store_ok st" "mget (tunnels_of st) k = Some t"
  shows "tunnel_ok (users_of st) (nodes_of st) t"
  using assms(1) mget_Some_mem [OF assms(2)] unfolding store_ok_def db_ok_iff by blast


section \<open>The bundle of a node\<close>

lemma bundle_tunnels:
  assumes "store_ok st" "nID n \<noteq> []"
  shows "t \<in> set (abTunnels (bundleForNode now st n)) \<longleftrightarrow> mget (tunnels_of st) (tID t) = Some t \<and> tNodeID t = nID n"
proof -
  have "tNodeID t \<noteq> []" if "mget (tunnels_of st) (tID t) = Some t"
    using stored_tunnel [OF assms(1) that] by (simp add: tunnel_ok_def tunnel_shape_def)
  then show ?thesis
    using assms(2) by (auto simp: bundleForNode_def Let_def filterTunnelsByNode_def ListTunnels_iff [OF assms(1)])
qed

lemma bundle_users:
  assumes "store_ok st"
  shows "u \<in> set (abUsers (bundleForNode now st n)) \<longleftrightarrow> mget (users_of st) (uName u) = Some u \<and>
    (\<exists>t \<in> set (abTunnels (bundleForNode now st n)). tUserName t = uName u)"
  unfolding bundleForNode_def Let_def usersForTunnels_def
  by (simp add: Users_iff [OF assms] image_iff eq_commute [of "uName u"])

lemma agentBundle_reply:
  "agentBundle env q auth a = (a', BundleReply b) \<longleftrightarrow> a' = a \<and> (\<exists>n. trim_space q \<noteq> [] \<and>
     GetNode (apStore a) (trim_space q) = Some n \<and> nEnabled n \<and> nToken n \<noteq> [] \<and>
     trim_space (trim_prefix auth ''Bearer '') = nToken n \<and> b = bundleForNode (aeNow env) (apStore a) n)"
  by (auto simp: agentBundle_def Let_def split: option.splits)

text \<open>C12. An agent gets a bundle only for an enabled node whose token it presents, and the bundle is exact: the node's
  record, the tunnels of that node and no others, and the owners of those tunnels and no other users.\<close>

theorem agentBundle_exact:
  assumes "agentBundle env q auth a = (a', BundleReply b)" "store_ok (apStore a)"
  shows "a' = a \<and> nEnabled (abNode b) \<and> mget (nodes_of (apStore a)) (nID (abNode b)) = Some (abNode b) \<and>
    nToken (abNode b) \<noteq> [] \<and> trim_space (trim_prefix auth ''Bearer '') = nToken (abNode b) \<and>
    set (abTunnels b) = {t. mget (tunnels_of (apStore a)) (tID t) = Some t \<and> tNodeID t = nID (abNode b)} \<and>
    set (abUsers b) = {u. mget (users_of (apStore a)) (uName u) = Some u \<and> (\<exists>t \<in> set (abTunnels b). tUserName t = uName u)}"
proof -
  let ?st = "apStore a"
  from assms(1) obtain n where n: "GetNode ?st (trim_space q) = Some n" "nEnabled n" "nToken n \<noteq> []"
    "trim_space (trim_prefix auth ''Bearer '') = nToken n" "a' = a" "b = bundleForNode (aeNow env) ?st n" "trim_space q \<noteq> []"
    unfolding agentBundle_reply by blast
  from n(1) have g: "mget (nodes_of ?st) (normalizeID (trim_space q)) = Some n" by (simp add: GetNode_def)
  have named: "normalizeID (trim_space q) \<noteq> []" using n(7) by (simp add: normalizeID_def to_lower_def)
  note key = keyed_mget [OF store_keyed(2) [OF assms(2)] g]
  have b: "abNode b = n" by (simp add: n(6) bundleForNode_def Let_def)
  have "mget (nodes_of ?st) (nID n) = Some n" using g key by simp
  moreover have "set (abTunnels b) = {t. mget (tunnels_of ?st) (tID t) = Some t \<and> tNodeID t = nID n}"
    using bundle_tunnels [OF assms(2)] named key unfolding n(6) by auto
  moreover have "set (abUsers b) = {u. mget (users_of ?st) (uName u) = Some u \<and> (\<exists>t \<in> set (abTunnels b). tUserName t = uName u)}"
    unfolding n(6) using bundle_users [OF assms(2)] by auto
  ultimately show ?thesis using n b by simp
qed

theorem agentBundle_exact_witness:
  "\<exists>b. snd (agentBundle demo_aenv ''local'' ''Bearer token'' demo_api) = BundleReply b \<and>
     tUserName ` set (abTunnels b) \<subseteq> uName ` set (abUsers b) \<and> nToken (abNode b) = ''token''"
proof -
  define r where "r = agentBundle demo_aenv ''local'' ''Bearer token'' demo_api"
  have "(case snd r of BundleReply _ \<Rightarrow> True | _ \<Rightarrow> False)" unfolding r_def by code_simp
  then obtain b where b: "r = (fst r, BundleReply b)" by (cases r) (auto split: reply.splits)
  note ex = agentBundle_exact [OF b [unfolded r_def] demo_api_ok]
  have "uName u = tUserName t \<Longrightarrow> t \<in> set (abTunnels b) \<Longrightarrow> mget (users_of (apStore demo_api)) (tUserName t) = Some u \<Longrightarrow>
      tUserName t \<in> uName ` set (abUsers b)" for t u
    using ex by (intro image_eqI [of _ _ u]) auto
  moreover have "\<exists>u. mget (users_of (apStore demo_api)) (tUserName t) = Some u \<and> uName u = tUserName t"
    if "t \<in> set (abTunnels b)" for t
  proof -
    have "tunnel_ok (users_of (apStore demo_api)) (nodes_of (apStore demo_api)) t"
      using that ex by (intro stored_tunnel [OF demo_api_ok]) auto
    then obtain u where "mget (users_of (apStore demo_api)) (tUserName t) = Some u" by (auto simp: tunnel_ok_def)
    with keyed_mget [OF store_keyed(1) [OF demo_api_ok] this] show ?thesis by blast
  qed
  ultimately have "tUserName ` set (abTunnels b) \<subseteq> uName ` set (abUsers b)" by blast
  moreover have "trim_space (trim_prefix ''Bearer token'' ''Bearer '') = ''token''" by code_simp
  moreover have "snd (agentBundle demo_aenv ''local'' ''Bearer token'' demo_api) = BundleReply b"
    using b unfolding r_def by (simp add: prod_eq_iff)
  ultimately show ?thesis using ex by (intro exI [of _ b]) simp
qed

section \<open>The bootstrap of a client\<close>

definition tunnel_home :: "Tunnel \<Rightarrow> string" where
  "tunnel_home t = (if tNodeID t = [] then DefaultNodeID else tNodeID t)"

definition group_of :: "Tunnel list \<Rightarrow> string \<Rightarrow> Tunnel list" where
  "group_of ts n = filter (\<lambda>t. tEnabled t \<and> tunnel_home t = n) ts"

lemma grouped_wf: "mwf m \<Longrightarrow> mwf (fold group_tunnel ts m)"
  by (induction ts arbitrary: m) (auto simp: group_tunnel_def Let_def gomap_simps)

lemma group_step:
  "mget (group_tunnel t m) n = (if tEnabled t \<and> tunnel_home t = n
     then Some ((case mget m n of None \<Rightarrow> [] | Some g \<Rightarrow> g) @ [t]) else mget m n)"
  by (auto simp: group_tunnel_def Let_def gomap_simps tunnel_home_def)

lemma grouped:
  "mget (fold group_tunnel ts []) n = (if group_of ts n = [] then None else Some (group_of ts n))"
  by (induction ts rule: rev_induct) (simp_all add: group_step group_of_def)

lemma node_index:
  "distinct (map nID ns) \<Longrightarrow>
   mget (fold (\<lambda>n. mput (nID n) n) ns []) k = Some n \<longleftrightarrow> n \<in> set ns \<and> nID n = k"
proof (induction ns rule: rev_induct)
  case (snoc x ns)
  then have "n \<in> set ns \<Longrightarrow> nID n \<noteq> nID x" by (auto simp: rev_image_eqI)
  with snoc show ?case by (auto simp: gomap_simps)
qed simp

lemma node_index_store:
  assumes "store_ok st"
  shows "mget (fold (\<lambda>n. mput (nID n) n) (ListNodes st) []) k = mget (nodes_of st) k" (is "?l = ?r")
proof -
  note key = keyed_mget [OF store_keyed(2) [OF assms], of k]
  have l: "?l = Some n \<longleftrightarrow> mget (nodes_of st) (nID n) = Some n \<and> nID n = k" for n
    unfolding node_index [OF distinct_ListNodes [OF assms]] ListNodes_iff [OF assms] ..
  show ?thesis
  proof (cases ?r)
    case None
    have "?l \<noteq> Some n" for n
      unfolding l using None by (metis option.distinct(1))
    then have "?l = None" by (simp add: not_Some_eq [symmetric])
    with None show ?thesis by (simp only:)
  next
    case (Some n)
    have "mget (nodes_of st) (nID n) = Some n" unfolding key [OF Some] by (rule Some)
    then have "?l = Some n" unfolding l using key [OF Some] by (rule conjI)
    with Some show ?thesis by (simp only:)
  qed
qed

definition node_entry :: "RuntimeConfig \<Rightarrow> Store \<Rightarrow> string \<times> Tunnel list \<Rightarrow> clientBootstrapNode list" where
  "node_entry rt st p = (case mget (nodes_of st) (fst p) of
      None \<Rightarrow> [] | Some n \<Rightarrow> if \<not> nEnabled n then []
        else [\<lparr>cbID = nID n, cbName = nName n, cbRuntime = runtimeForNode n rt, cbTunnels = snd p\<rparr>])"

lemma bootstrap_nodes_entries:
  "store_ok st \<Longrightarrow> bootstrap_nodes rt st ts = concat (map (node_entry rt st) (fold group_tunnel ts []))"
  unfolding bootstrap_nodes_def Let_def node_entry_def
  by (simp add: node_index_store case_prod_unfold)

lemma node_entry_iff:
  assumes "store_ok st"
  shows "c \<in> set (node_entry rt st p) \<longleftrightarrow> (\<exists>n. mget (nodes_of st) (fst p) = Some n \<and> nEnabled n \<and> cbID c = fst p \<and>
    c = \<lparr>cbID = nID n, cbName = nName n, cbRuntime = runtimeForNode n rt, cbTunnels = snd p\<rparr>)"
  using keyed_mget [OF store_keyed(2) [OF assms], of "fst p"]
  by (cases "mget (nodes_of st) (fst p)") (auto simp: node_entry_def)

lemma bootstrap_nodes_mem:
  assumes "store_ok st"
  shows "c \<in> set (bootstrap_nodes rt st ts) \<longleftrightarrow> (\<exists>n. mget (nodes_of st) (cbID c) = Some n \<and> nEnabled n \<and>
    group_of ts (cbID c) \<noteq> [] \<and>
    c = \<lparr>cbID = nID n, cbName = nName n, cbRuntime = runtimeForNode n rt, cbTunnels = group_of ts (cbID c)\<rparr>)"
proof -
  have wf: "mwf (fold group_tunnel ts [])" by (simp add: grouped_wf)
  have mem: "p \<in> set (fold group_tunnel ts []) \<longleftrightarrow> snd p = group_of ts (fst p) \<and> group_of ts (fst p) \<noteq> []" for p
    using mem_mget [OF wf, of "fst p" "snd p"] by (auto simp: grouped)
  have "c \<in> set (bootstrap_nodes rt st ts) \<longleftrightarrow> (\<exists>p \<in> set (fold group_tunnel ts []). c \<in> set (node_entry rt st p))"
    by (simp add: bootstrap_nodes_entries [OF assms])
  also have "\<dots> \<longleftrightarrow> c \<in> set (node_entry rt st (cbID c, group_of ts (cbID c))) \<and> group_of ts (cbID c) \<noteq> []"
  proof
    assume "\<exists>p \<in> set (fold group_tunnel ts []). c \<in> set (node_entry rt st p)"
    then obtain p where p: "snd p = group_of ts (fst p)" "group_of ts (fst p) \<noteq> []" "c \<in> set (node_entry rt st p)"
      by (auto simp only: mem)
    then have "fst p = cbID c" unfolding node_entry_iff [OF assms] by auto
    with p show "c \<in> set (node_entry rt st (cbID c, group_of ts (cbID c))) \<and> group_of ts (cbID c) \<noteq> []"
      by (metis prod.collapse)
  next
    assume "c \<in> set (node_entry rt st (cbID c, group_of ts (cbID c))) \<and> group_of ts (cbID c) \<noteq> []"
    then show "\<exists>p \<in> set (fold group_tunnel ts []). c \<in> set (node_entry rt st p)"
      by (intro bexI [of _ "(cbID c, group_of ts (cbID c))"]) (auto simp: mem)
  qed
  finally show ?thesis unfolding node_entry_iff [OF assms] by auto
qed

lemma distinct_bootstrap:
  assumes "store_ok st"
  shows "distinct (map cbID (bootstrap_nodes rt st ts))"
proof -
  have f: "map cbID (node_entry rt st p) = [] \<or> map cbID (node_entry rt st p) = [fst p]" for p
    using keyed_mget [OF store_keyed(2) [OF assms], of "fst p"]
    by (cases "mget (nodes_of st) (fst p)") (auto simp: node_entry_def)
  have sub: "set (map cbID (concat (map (node_entry rt st) m))) \<subseteq> set (map fst m)" for m
  proof (induction m)
    case (Cons p m)
    have "set (map cbID (node_entry rt st p)) \<subseteq> {fst p}" using f [of p] by auto
    with Cons show ?case by auto
  qed simp
  have "distinct (map cbID (concat (map (node_entry rt st) m)))" if "distinct (map fst m)" for m
    using that
  proof (induction m)
    case (Cons p m)
    then have d: "distinct (map cbID (concat (map (node_entry rt st) m)))"
      "fst p \<notin> set (map cbID (concat (map (node_entry rt st) m)))" using sub [of m] by auto
    have "map cbID (concat (map (node_entry rt st) (p # m))) =
        map cbID (node_entry rt st p) @ map cbID (concat (map (node_entry rt st) m))" by simp
    with d f [of p] show ?case by (elim disjE) (simp_all del: map_concat)
  qed simp
  from this [OF grouped_wf [OF mwf_empty, unfolded mwf_def]] show ?thesis
    by (simp add: bootstrap_nodes_entries [OF assms])
qed

lemma group_of_tunnels:
  assumes "store_ok st" "n \<noteq> []"
  shows "t \<in> set (group_of (ListTunnels st n) k) \<longleftrightarrow>
    mget (tunnels_of st) (tID t) = Some t \<and> tUserName t = n \<and> tEnabled t \<and> tNodeID t = k"
proof -
  have "tunnel_home t = tNodeID t" if "mget (tunnels_of st) (tID t) = Some t"
    using stored_tunnel [OF assms(1) that] by (simp add: tunnel_ok_def tunnel_shape_def tunnel_home_def)
  then show ?thesis using assms(2) by (auto simp: group_of_def ListTunnels_iff [OF assms(1)])
qed

text \<open>A client's bootstrap carries each enabled tunnel of its user that lives on an enabled node exactly under
  that node, no other tunnel, and each node once; it is given to an enabled user, and only to an administrator
  for another user's name.\<close>

theorem clientBootstrap_exact:
  assumes "clientBootstrap cfg env current q a = (a', BootstrapReply b)" "store_ok (apStore a)"
    and "uName current \<noteq> []"
  shows "a' = a \<and> (\<exists>u. GetUser (apStore a) (if isAdmin current \<and> q \<noteq> [] then q else uName current) = Some u \<and> uEnabled u \<and>
      brUser b = Public u \<and> brFRPToken b = uFRPToken u \<and> brNPSVerifyKey b = uNPSVerifyKey u \<and>
      distinct (map cbID (brNodes b)) \<and>
      (\<forall>k t. (\<exists>c \<in> set (brNodes b). cbID c = k \<and> t \<in> set (cbTunnels c)) \<longleftrightarrow>
        mget (tunnels_of (apStore a)) (tID t) = Some t \<and> tUserName t = uName u \<and> tEnabled t \<and> tNodeID t = k \<and>
        (\<exists>n. mget (nodes_of (apStore a)) k = Some n \<and> nEnabled n)))"
proof -
  let ?st = "apStore a" and ?name = "if isAdmin current \<and> q \<noteq> [] then q else uName current"
  from assms(1) obtain u where u: "GetUser ?st ?name = Some u" "uEnabled u" "a' = a"
    and b: "b = \<lparr>brGeneratedAt = aeNow env, brUser = Public u, brFRPToken = uFRPToken u, brNPSVerifyKey = uNPSVerifyKey u,
      brNodes = bootstrap_nodes (acRuntime cfg) ?st (ListTunnels ?st (uName u))\<rparr>"
    by (auto simp: clientBootstrap_def Let_def split: option.splits if_split_asm)
  have g: "mget (users_of ?st) ?name = Some u" using u(1) by (simp only: GetUser_def)
  from keyed_mget [OF store_keyed(1) [OF assms(2)] g] have name: "uName u \<noteq> []" using assms(3) by (auto split: if_splits)
  have "(\<exists>c \<in> set (brNodes b). cbID c = k \<and> t \<in> set (cbTunnels c)) \<longleftrightarrow>
      t \<in> set (group_of (ListTunnels ?st (uName u)) k) \<and> (\<exists>n. mget (nodes_of ?st) k = Some n \<and> nEnabled n)" (is "?l \<longleftrightarrow> ?r") for k t
  proof
    assume ?l
    then obtain c where c: "c \<in> set (brNodes b)" "cbID c = k" "t \<in> set (cbTunnels c)" by blast
    from c(1) obtain n where n: "mget (nodes_of ?st) (cbID c) = Some n" "nEnabled n"
      "c = \<lparr>cbID = nID n, cbName = nName n, cbRuntime = runtimeForNode n (acRuntime cfg),
            cbTunnels = group_of (ListTunnels ?st (uName u)) (cbID c)\<rparr>"
      using bootstrap_nodes_mem [OF assms(2), THEN iffD1, of c] unfolding b clientBootstrapResponse.select_convs by blast
    have "cbTunnels c = group_of (ListTunnels ?st (uName u)) (cbID c)" by (subst n(3)) simp
    then have "t \<in> set (group_of (ListTunnels ?st (uName u)) k)" using c(2,3) by simp
    moreover have "mget (nodes_of ?st) k = Some n" using n(1) unfolding c(2) .
    ultimately show ?r using n(2) by blast
  next
    assume ?r
    then obtain n where n: "mget (nodes_of ?st) k = Some n" "nEnabled n" and t: "t \<in> set (group_of (ListTunnels ?st (uName u)) k)" by blast
    let ?c = "\<lparr>cbID = nID n, cbName = nName n, cbRuntime = runtimeForNode n (acRuntime cfg),
            cbTunnels = group_of (ListTunnels ?st (uName u)) k\<rparr>"
    note k = keyed_mget [OF store_keyed(2) [OF assms(2)] n(1)]
    have "?c \<in> set (brNodes b)" using n t unfolding b by (auto simp: bootstrap_nodes_mem [OF assms(2)] k)
    then show ?l using k t by (intro bexI [of _ ?c]) simp_all
  qed
  then show ?thesis using u b distinct_bootstrap [OF assms(2)]
    by (intro conjI exI [of _ u]) (simp_all add: group_of_tunnels [OF assms(2) name])
qed

theorem clientBootstrap_exact_witness:
  "\<exists>b u. snd (clientBootstrap demo_cfg demo_aenv demo_alice_row [] demo_api) = BootstrapReply b \<and>
     GetUser (apStore demo_api) ''alice'' = Some u \<and> brFRPToken b = uFRPToken u \<and>
     map cbID (brNodes b) = [''local''] \<and> map (map tID) (map cbTunnels (brNodes b)) = [map tID (ListTunnels (apStore demo_api) ''alice'')]"
proof -
  define r where "r = clientBootstrap demo_cfg demo_aenv demo_alice_row [] demo_api"
  have "(case snd r of BootstrapReply b \<Rightarrow> map cbID (brNodes b) = [''local''] \<and>
      map (map tID) (map cbTunnels (brNodes b)) = [map tID (ListTunnels (apStore demo_api) ''alice'')] | _ \<Rightarrow> False)"
    unfolding r_def by code_simp
  then obtain b where b: "snd r = BootstrapReply b" "map cbID (brNodes b) = [''local'']"
    "map (map tID) (map cbTunnels (brNodes b)) = [map tID (ListTunnels (apStore demo_api) ''alice'')]"
    by (cases r) (auto split: reply.splits)
  have "clientBootstrap demo_cfg demo_aenv demo_alice_row [] demo_api = (fst r, BootstrapReply b)"
    using b(1) by (simp add: r_def prod_eq_iff)
  moreover have "uName demo_alice_row = ''alice''" by code_simp
  ultimately show ?thesis
    using clientBootstrap_exact [of demo_cfg demo_aenv demo_alice_row "[]" demo_api "fst r" b] demo_api_ok b
    unfolding r_def by (auto simp del: map_map)
qed

end
