(* ===== verification/ControlTraffic.thy ===== *)
theory ControlTraffic
  imports ControlData
begin

text \<open>
  The charging of users by the reports of the nodes: the growth of a user's counters since the node's last
  report is added to the flow the user has consumed, and a user who reaches the limit is disabled.
\<close>

section \<open>What a report owes\<close>

text \<open>\<open>due\<close> is the growth of a user's two counters against the node's last report; the first report owes nothing.\<close>

definition due :: "Api \<Rightarrow> string \<Rightarrow> UserTraffic list \<Rightarrow> string \<Rightarrow> int \<times> int" where
  "due a nodeID ts name = (case List.find (\<lambda>t. utUserName t = name) ts of
       None \<Rightarrow> (0, 0)
     | Some t \<Rightarrow> (case mget (apUserTraffic a) (trafficKey nodeID name) of
          None \<Rightarrow> (0, 0)
        | Some s \<Rightarrow> (flow_delta (utInletFlow t) (xsInletFlow s), flow_delta (utExportFlow t) (xsExportFlow s))))"

definition limit_reached :: "User \<Rightarrow> int \<Rightarrow> bool" where
  "limit_reached u used \<longleftrightarrow>
     (let limit = wrap64 (uFlowLimit u * 1024 * 1024 * 1024) in 0 < limit \<and> limit \<le> used)"

fun charged :: "int \<times> int \<Rightarrow> User \<Rightarrow> User \<Rightarrow> bool" where
  "charged (i, j) u u' \<longleftrightarrow>
     (if 0 < i \<or> 0 < j
      then uFlowUsed u' = wrap64 (uFlowUsed u + i + j) \<and>
        (uEnabled u' \<longrightarrow> uEnabled u \<and> \<not> limit_reached u (uFlowUsed u')) \<and>
        uName u' = uName u \<and> uRole u' = uRole u \<and> uPassword u' = uPassword u \<and> uPasswordHash u' = uPasswordHash u \<and>
        uFlowLimit u' = uFlowLimit u \<and> uExpiresAt u' = uExpiresAt u
      else u' = u)"

definition row_valid :: "User \<Rightarrow> bool" where
  "row_valid u \<longleftrightarrow> uName u \<noteq> [] \<and> (uRole u = RoleAdmin \<or> uRole u = RoleUser) \<and> is_ok (NormalizeDomains (uDomainPools u))"

section \<open>One user\<close>

lemma trafficKey_eq [simp]: "trafficKey n x = trafficKey n y \<longleftrightarrow> x = y"
  by (simp add: trafficKey_def)

lemma charge_user_fields:
  "uName (charge_user i j u) = uName u" "uRole (charge_user i j u) = uRole u" "uPassword (charge_user i j u) = []"
  "uDomainPools (charge_user i j u) = uDomainPools u" "uFlowUsed (charge_user i j u) = wrap64 (uFlowUsed u + i + j)"
  "uFlowLimit (charge_user i j u) = uFlowLimit u" "uExpiresAt (charge_user i j u) = uExpiresAt u"
  "uEnabled (charge_user i j u) \<longleftrightarrow> uEnabled u \<and> \<not> limit_reached u (wrap64 (uFlowUsed u + i + j))"
  by (auto simp add: charge_user_def Let_def zero_User_def wrap64_add_wrap64 limit_reached_def)

lemma upsert_record_fields:
  "uName (upsert_user_record sha e inp (Some u)) = uName u"
  "uRole (upsert_user_record sha e inp (Some u)) = uRole inp"
  "uPassword inp = [] \<Longrightarrow> uPassword (upsert_user_record sha e inp (Some u)) = uPassword u"
  "uPassword inp = [] \<Longrightarrow> uPasswordHash (upsert_user_record sha e inp (Some u)) = uPasswordHash u"
  "uFlowUsed (upsert_user_record sha e inp (Some u)) = uFlowUsed inp"
  "uFlowLimit (upsert_user_record sha e inp (Some u)) = uFlowLimit inp"
  "uExpiresAt (upsert_user_record sha e inp (Some u)) = uExpiresAt inp"
  "uEnabled (upsert_user_record sha e inp (Some u)) \<Longrightarrow> uEnabled inp"
  by (simp_all add: upsert_user_record_def Let_def split: if_splits)

lemma charge_store_ok: "store_ok st \<Longrightarrow> store_ok (fst (charge cfg e name i j st))"
  by (auto simp: charge_def Let_def UpsertUser_store_ok split: option.split)

lemma charge_other:
  assumes "store_ok st" "m \<noteq> name"
  shows "mget (users_of (fst (charge cfg e name i j st))) m = mget (users_of st) m"
proof (cases "mget (users_of st) name")
  case None
  then show ?thesis by (simp add: charge_def GetUser_def)
next
  case (Some u)
  have "uName (charge_user i j u) = name"
    using keyed_mget [OF store_keyed(1) [OF assms(1)] Some] by (simp add: charge_user_fields)
  with Some assms(2) show ?thesis
    by (simp add: charge_def GetUser_def UpsertUser_def Let_def frame_simps gomap_simps split: sum.split)
qed

lemma charge_same:
  assumes "store_ok st" "mget (users_of st) name = Some u" "row_valid u"
  shows "\<exists>u'. mget (users_of (fst (charge cfg e name i j st))) name = Some u' \<and> charged (i, j) u u' \<and>
    (snd (charge cfg e name i j st) \<longleftrightarrow> (0 < i \<or> 0 < j) \<and> uEnabled u \<and> limit_reached u (wrap64 (uFlowUsed u + i + j)))"
proof (cases "0 < i \<or> 0 < j")
  case True
  have k: "uName u = name" by (rule keyed_mget [OF store_keyed(1) [OF assms(1)] assms(2)])
  from assms(3) obtain ds where ds: "NormalizeDomains (uDomainPools u) = Inr ds" by (auto simp: row_valid_def is_ok_iff)
  have role: "uRole u \<noteq> []" "uRole u = RoleAdmin \<or> uRole u = RoleUser" "name \<noteq> []"
    using assms(3) k by (auto simp: row_valid_def RoleAdmin_def RoleUser_def)
  let ?v = "upsert_user_record (acSha cfg) e ((charge_user i j u)\<lparr>uDomainPools := ds\<rparr>) (Some u)"
  have "mget (users_of (fst (charge cfg e name i j st))) name = Some ?v"
    using True role(1,3) disjE [OF role(2)] by (auto simp add: charge_def GetUser_def assms(2) UpsertUser_def Let_def charge_user_fields k ds frame_simps gomap_simps)
  moreover have "charged (i, j) u ?v"
    using True by (auto simp: upsert_record_fields(1-7) charge_user_fields dest!: upsert_record_fields(8))
  moreover have "snd (charge cfg e name i j st) \<longleftrightarrow> uEnabled u \<and> limit_reached u (wrap64 (uFlowUsed u + i + j))"
    using True by (auto simp: charge_def GetUser_def assms(2) Let_def charge_user_fields)
  ultimately show ?thesis using True by blast
next
  case False
  then show ?thesis using assms(2) by (simp add: charge_def)
qed

section \<open>A report\<close>

lemma report_user_store:
  "apStore (fst (report_user cfg e now nodeID t a)) =
     fst (charge cfg e (utUserName t) (fst (due a nodeID [t] (utUserName t))) (snd (due a nodeID [t] (utUserName t))) (apStore a))"
  "snd (report_user cfg e now nodeID t a) =
     snd (charge cfg e (utUserName t) (fst (due a nodeID [t] (utUserName t))) (snd (due a nodeID [t] (utUserName t))) (apStore a))"
  by (simp_all add: report_user_def due_def Let_def charge_def split: option.split prod.split)

lemma report_user_traffic:
  "mget (apUserTraffic (fst (report_user cfg e now nodeID t a))) (trafficKey nodeID name) =
     (if name = utUserName t
      then Some (case mget (apUserTraffic a) (trafficKey nodeID name) of
          None \<Rightarrow> new_traffic nodeID name (utInletFlow t) (utExportFlow t) now
        | Some s \<Rightarrow> next_traffic (utInletFlow t) (utExportFlow t) now s)
      else mget (apUserTraffic a) (trafficKey nodeID name))"
  by (auto simp: report_user_def Let_def gomap_simps split: option.split prod.split)

lemma report_user_ok: "store_ok (apStore a) \<Longrightarrow> store_ok (apStore (fst (report_user cfg e now nodeID t a)))"
  by (simp add: report_user_store charge_store_ok)

lemma report_users_other:
  assumes "store_ok (apStore a)" "name \<notin> set (map utUserName ts)"
  shows "mget (users_of (apStore (fst (report_users cfg env n nodeID ts a d)))) name = mget (users_of (apStore a)) name"
  using assms
proof (induction ts arbitrary: n a d)
  case (Cons t ts)
  let ?r = "report_user cfg (aeStore env n) (aeNow env) nodeID t a"
  have "mget (users_of (apStore (fst ?r))) name = mget (users_of (apStore a)) name"
    using Cons.prems by (simp add: report_user_store charge_other)
  with Cons.IH [OF report_user_ok [OF Cons.prems(1)]] Cons.prems(2) show ?case
    by (simp add: case_prod_beta)
qed simp

lemma report_users_dirty: "d \<Longrightarrow> snd (report_users cfg env n nodeID ts a d)"
  by (induction ts arbitrary: n a d) (auto split: prod.split)

lemma due_other:
  "name \<noteq> utUserName t \<Longrightarrow> due (fst (report_user cfg e now nodeID t a)) nodeID ts name = due a nodeID (t # ts) name"
  by (simp add: due_def report_user_traffic eq_commute [of name] split: option.split)

lemma due_Nil: "name \<notin> set (map utUserName ts) \<Longrightarrow> due a nodeID ts name = (0, 0)"
  by (auto simp: due_def find_Some_iff split: option.split dest!: nth_mem)

lemma due_single: "due a nodeID (t # ts) (utUserName t) = due a nodeID [t] (utUserName t)"
  by (simp add: due_def)

definition owed :: "int \<times> int \<Rightarrow> bool" where
  "owed ij \<longleftrightarrow> 0 < fst ij \<or> 0 < snd ij"

lemma report_users_charges:
  assumes "store_ok (apStore a)" "mget (users_of (apStore a)) name = Some u" "row_valid u" "distinct (map utUserName ts)"
  shows "\<exists>u'. mget (users_of (apStore (fst (report_users cfg env n nodeID ts a d)))) name = Some u' \<and>
    charged (due a nodeID ts name) u u' \<and>
    (owed (due a nodeID ts name) \<and> uEnabled u \<and> limit_reached u (uFlowUsed u') \<longrightarrow>
       snd (report_users cfg env n nodeID ts a d))"
  using assms
proof (induction ts arbitrary: n a d)
  case Nil
  then show ?case by (simp add: due_def owed_def)
next
  case (Cons t ts)
  let ?r = "report_user cfg (aeStore env n) (aeNow env) nodeID t a"
  have step: "report_users cfg env n nodeID (t # ts) a d = report_users cfg env (n + 1) nodeID ts (fst ?r) (d \<or> snd ?r)"
    by (simp add: case_prod_beta)
  note ok = report_user_ok [OF Cons.prems(1), of cfg "aeStore env n" "aeNow env" nodeID t]
  show ?case
  proof (cases "name = utUserName t")
    case True
    obtain i j where ij: "due a nodeID [t] name = (i, j)" by (metis prod.exhaust)
    obtain u' where u': "mget (users_of (apStore (fst ?r))) name = Some u'" "charged (i, j) u u'"
      "snd ?r \<longleftrightarrow> (0 < i \<or> 0 < j) \<and> uEnabled u \<and> limit_reached u (wrap64 (uFlowUsed u + i + j))"
      using charge_same [OF Cons.prems(1-3), of cfg "aeStore env n" i j] ij True by (auto simp: report_user_store)
    have "mget (users_of (apStore (fst (report_users cfg env n nodeID (t # ts) a d)))) name = Some u'"
      unfolding step using report_users_other [OF ok] Cons.prems(4) True u'(1) by simp
    moreover have d: "due a nodeID (t # ts) name = (i, j)" using ij by (simp only: True due_single [of a nodeID t ts])
    moreover have "snd (report_users cfg env n nodeID (t # ts) a d)"
      if "owed (i, j)" "uEnabled u" "limit_reached u (uFlowUsed u')"
      unfolding step using that u'(2,3) by (intro report_users_dirty) (auto simp: owed_def split: if_splits)
    ultimately show ?thesis using u'(2) by auto
  next
    case False
    then have "mget (users_of (apStore (fst ?r))) name = Some u"
      using Cons.prems(1,2) by (simp add: report_user_store charge_other)
    from Cons.IH [OF ok this Cons.prems(3)] Cons.prems(4) show ?thesis
      unfolding step by (simp only: due_other [OF False] list.map distinct.simps(2))
  qed
qed

lemma report_users_keep_traffic:
  "name \<notin> set (map utUserName ts) \<Longrightarrow>
   mget (apUserTraffic (fst (report_users cfg env n nodeID ts a d))) (trafficKey nodeID name) =
     mget (apUserTraffic a) (trafficKey nodeID name)"
  by (induction ts arbitrary: n a d) (simp_all add: case_prod_beta report_user_traffic)

lemma next_traffic_flows:
  "xsInletFlow (next_traffic i j now s) = i" "xsExportFlow (next_traffic i j now s) = j"
  by (simp_all add: next_traffic_def Let_def)

lemma report_users_traffic:
  assumes "distinct (map utUserName ts)" "t \<in> set ts"
  shows "\<exists>s. mget (apUserTraffic (fst (report_users cfg env n nodeID ts a d))) (trafficKey nodeID (utUserName t)) = Some s \<and>
    xsInletFlow s = utInletFlow t \<and> xsExportFlow s = utExportFlow t"
  using assms
proof (induction ts arbitrary: n a d)
  case (Cons x ts)
  show ?case
  proof (cases "t = x")
    case True
    with Cons.prems(1) show ?thesis
      by (auto simp: case_prod_beta report_users_keep_traffic report_user_traffic next_traffic_flows new_traffic_def
          split: option.split)
  next
    case False
    with Cons show ?thesis by (simp add: case_prod_beta)
  qed
qed simp

lemma report_users_free:
  assumes "distinct (map utUserName ts)" "\<And>t. t \<in> set ts \<Longrightarrow> due a nodeID [t] (utUserName t) = (0, 0)"
  shows "apStore (fst (report_users cfg env n nodeID ts a d)) = apStore a \<and> snd (report_users cfg env n nodeID ts a d) = d"
  using assms
proof (induction ts arbitrary: n a d)
  case (Cons x ts)
  let ?r = "report_user cfg (aeStore env n) (aeNow env) nodeID x a"
  have x: "apStore (fst ?r) = apStore a" "\<not> snd ?r"
    using Cons.prems(2) [of x] by (simp_all add: report_user_store charge_def)
  have "due (fst ?r) nodeID [t] (utUserName t) = (0, 0)" if "t \<in> set ts" for t
  proof -
    have "utUserName t \<noteq> utUserName x" using that Cons.prems(1) by (auto simp: rev_image_eqI)
    then show ?thesis using Cons.prems(2) [of t] that by (simp add: due_def report_user_traffic)
  qed
  from Cons.IH [OF _ this] Cons.prems(1) x show ?case by (simp add: case_prod_beta)
qed simp

lemma due_after_report:
  assumes "distinct (map utUserName ts)" "t \<in> set ts"
  shows "due (fst (report_users cfg env n nodeID ts a d)) nodeID [t] (utUserName t) = (0, 0)"
  using report_users_traffic [OF assms, of cfg env n nodeID a d] by (auto simp: due_def flow_delta_def wrap64_def)

section \<open>The properties\<close>

lemma due_tunnels [simp]: "due (a\<lparr>apTunnelTraffic := m\<rparr>) nodeID ts name = due a nodeID ts name"
  by (simp add: due_def split: option.split)

text \<open>C37. A report that names each user once charges each of them the growth of the counters the same node reported
  before: it is added to the flow used, a user at the limit ends disabled and the engines are resynchronised, a
  user who owes nothing keeps the row, and the password and the role never change.\<close>

theorem report_charges_users:
  assumes "apply_report cfg env r a = (a', dirty)" "store_ok (apStore a)" "distinct (map utUserName (trUsers r))"
    and "mget (users_of (apStore a)) name = Some u" "row_valid u"
  shows "\<exists>u'. mget (users_of (apStore a')) name = Some u' \<and> charged (due a (trNodeID r) (trUsers r) name) u u' \<and>
    (owed (due a (trNodeID r) (trUsers r) name) \<and> uEnabled u \<and> limit_reached u (uFlowUsed u') \<longrightarrow> dirty)"
  using report_users_charges [of "a\<lparr>apTunnelTraffic := fold (report_tunnel (aeNow env) (trNodeID r)) (trTunnels r) (apTunnelTraffic a)\<rparr>"
      name u "trUsers r" cfg env 0 "trNodeID r" False] assms
  by (simp add: apply_report_def)

text \<open>A report that is sent again with the same counters charges nobody: the second copy leaves the database as
  the first left it and asks for no synchronisation.\<close>

theorem repeated_report_is_free:
  assumes "distinct (map utUserName (trUsers r))"
  shows "apStore (fst (apply_report cfg2 env2 r (fst (apply_report cfg env r a)))) = apStore (fst (apply_report cfg env r a)) \<and>
    \<not> snd (apply_report cfg2 env2 r (fst (apply_report cfg env r a)))"
proof -
  have "due ((fst (apply_report cfg env r a))\<lparr>apTunnelTraffic := m\<rparr>) (trNodeID r) [t] (utUserName t) = (0, 0)"
    if "t \<in> set (trUsers r)" for t m
    using due_after_report [OF assms that] by (simp add: apply_report_def)
  from report_users_free [OF assms this] show ?thesis unfolding apply_report_def [of cfg2] by fastforce
qed

section \<open>Witnesses\<close>

definition demo_report :: "int \<Rightarrow> TrafficReport" where
  "demo_report used = \<lparr>trNodeID = ''local'', trTunnels = [], trUsers = [\<lparr>utUserName = ''alice'', utInletFlow = used, utExportFlow = 7\<rparr>]\<rparr>"

definition demo_reported :: Api where
  "demo_reported = fst (apply_report demo_cfg demo_aenv (demo_report 100) demo_api)"

theorem report_charges_users_witness:
  "\<exists>u'. mget (users_of (apStore (fst (apply_report demo_cfg demo_aenv (demo_report 150) demo_reported)))) ''alice'' = Some u' \<and>
     uFlowUsed u' = uFlowUsed demo_alice_row + 50"
proof -
  have same: "apStore demo_reported = apStore demo_api" by code_simp
  have row: "mget (users_of (apStore demo_reported)) ''alice'' = Some demo_alice_row" by code_simp
  have "row_valid demo_alice_row" "distinct (map utUserName (trUsers (demo_report 150)))"
    "due demo_reported (trNodeID (demo_report 150)) (trUsers (demo_report 150)) ''alice'' = (50, 0)"
    "wrap64 (uFlowUsed demo_alice_row + 50 + 0) = uFlowUsed demo_alice_row + 50" by code_simp+
  then show ?thesis
    using report_charges_users [where cfg = demo_cfg and env = demo_aenv and r = "demo_report 150",
        OF prod.collapse [symmetric] _ _ row] demo_api_ok
    by (fastforce simp: same)
qed

theorem repeated_report_is_free_witness:
  "apStore (fst (apply_report demo_cfg demo_aenv (demo_report 150) (fst (apply_report demo_cfg demo_aenv (demo_report 150) demo_reported)))) =
   apStore (fst (apply_report demo_cfg demo_aenv (demo_report 150) demo_reported))"
proof -
  have "distinct (map utUserName (trUsers (demo_report 150)))" by code_simp
  from repeated_report_is_free [OF this] show ?thesis by blast
qed

end
