(* ===== verification/AgentNode.thy ===== *)
theory AgentNode
  imports ControlData NpsKeys
begin

text \<open>
  \<^verbatim>\<open>cmd/tunnel-agent/main.go\<close>: the agent that runs nps on a remote node. It takes
  bundles from the control program, by asking for them and by having them pushed, and puts them into
  its nps; it reports traffic; and it writes the configuration file nps starts with.
\<close>

section \<open>Bundles\<close>

text \<open>
  \<open>agNps\<close> is the database of the embedded nps, \<open>None\<close> before it runs. The agent's
  \<^verbatim>\<open>syncBundle\<close> has the fields of the control program's \<open>agentSyncBundle\<close>.
\<close>

record Agent =
  agControlURL :: string
  agNodeID :: string
  agToken :: string
  agNps :: "NpsState option"

datatype agent_error =
    CentralError string
  | WrongNode string string
  | AgentNpsError nps_error

datatype agent_reply = ApplyOk "ClientStatus list" | InvalidToken | BadBody | ApplyFailed agent_error

definition applyBundle :: "NpsEnv \<Rightarrow> agentSyncBundle \<Rightarrow> Agent \<Rightarrow> Agent \<times> agent_error option" where
  "applyBundle env b ag =
     (if nID (abNode b) \<noteq> [] \<and> nID (abNode b) \<noteq> agNodeID ag
      then (ag, Some (WrongNode (nID (abNode b)) (agNodeID ag)))
      else (case SyncNPSState env (abUsers b) (abTunnels b) (agNps ag) of
          (nps, err) \<Rightarrow> (ag\<lparr>agNps := nps\<rparr>, map_option AgentNpsError err)))"

text \<open>\<open>central\<close> is the answer to a GET: an error or, with status 200, the decoded bundle.\<close>

definition syncOnce :: "(string \<Rightarrow> string \<Rightarrow> string + agentSyncBundle) \<Rightarrow> NpsEnv \<Rightarrow> Agent \<Rightarrow> Agent \<times> agent_error option" where
  "syncOnce central env ag =
     (case central (agControlURL ag @ ''/api/agent/bundle?node='' @ agNodeID ag) (''Bearer '' @ agToken ag) of
        Inl e \<Rightarrow> (ag, Some (CentralError e))
      | Inr b \<Rightarrow> applyBundle env b ag)"

definition agent_client_statuses :: "time \<Rightarrow> (string \<Rightarrow> time option) \<Rightarrow> Agent \<Rightarrow> ClientStatus list" where
  "agent_client_statuses now parse ag = map (\<lambda>s. s\<lparr>csNodeID := agNodeID ag\<rparr>) (NPSClientStatuses now parse (agNps ag))"

text \<open>The handler of \<^verbatim>\<open>POST /api/agent/apply\<close>.\<close>

definition apply_api :: "NpsEnv \<Rightarrow> time \<Rightarrow> (string \<Rightarrow> time option) \<Rightarrow> string \<Rightarrow> agentSyncBundle option \<Rightarrow> Agent \<Rightarrow> Agent \<times> agent_reply" where
  "apply_api env now parse auth body ag =
     (let token = trim_space (trim_prefix auth ''Bearer '') in
      if token = [] \<or> token \<noteq> agToken ag then (ag, InvalidToken)
      else (case body of
          None \<Rightarrow> (ag, BadBody)
        | Some b \<Rightarrow>
            (case applyBundle env b ag of
               (ag', Some e) \<Rightarrow> (ag', ApplyFailed e)
             | (ag', None) \<Rightarrow> (ag', ApplyOk (agent_client_statuses now parse ag')))))"

text \<open>\<open>post\<close> is the answer to a POST: an error, or nothing with status 200.\<close>

definition reportTrafficOnce :: "(string \<Rightarrow> string \<Rightarrow> TrafficReport \<Rightarrow> string option) \<Rightarrow> Agent \<Rightarrow> string option" where
  "reportTrafficOnce post ag =
     (case CollectNPSTraffic (agNps ag) of (tunnels, users) \<Rightarrow>
        if tunnels = [] \<and> users = [] then None
        else post (agControlURL ag @ ''/api/agent/report'') (''Bearer '' @ agToken ag)
               \<lparr>trNodeID = agNodeID ag, trTunnels = tunnels, trUsers = users\<rparr>)"

section \<open>The configuration of nps\<close>

text \<open>The key of a line of the form \<^verbatim>\<open>key = value\<close>.\<close>

definition conf_key :: "string \<Rightarrow> string option" where
  "conf_key line =
     (let trimmed = trim_space line in
      if trimmed = [] \<or> has_prefix trimmed ''#'' \<or> \<not> contains trimmed ''='' then None
      else Some (trim_space (takeWhile (\<lambda>c. c \<noteq> CHR ''='') trimmed)))"

definition replace_line :: "(string, string) gomap \<Rightarrow> string \<Rightarrow> string" where
  "replace_line replacements line = (case conf_key line of
       None \<Rightarrow> line
     | Some key \<Rightarrow> (case mget replacements key of None \<Rightarrow> line | Some value \<Rightarrow> key @ ''='' @ value))"

definition replaceNPSConfig :: "string \<Rightarrow> (string, string) gomap \<Rightarrow> string" where
  "replaceNPSConfig conf replacements =
     (let lines = split_on CHR 0x0A conf;
          seen = map conf_key lines;
          missing = filter (\<lambda>(key, _). Some key \<notin> set seen) replacements
      in join [CHR 0x0A] (map (replace_line replacements) lines @ map (\<lambda>(key, value). key @ ''='' @ value) missing))"

text \<open>
  The outside of \<^verbatim>\<open>prepareAgentData\<close>: which directories can be made and which files be
  written, the entries of the directory of defaults (\<open>None\<close>: it cannot be read) as names, whether they are
  directories and their contents (\<open>None\<close>: unreadable), and the default \<^verbatim>\<open>nps.conf\<close>.
\<close>

record AgentHost =
  ahMkdir :: "string \<Rightarrow> bool"
  ahWrite :: "string \<Rightarrow> bool"
  ahDefaults :: "(string \<times> bool \<times> string option) list option"
  ahDefaultConf :: "string option"

type_synonym agent_files = "(string, string) gomap"

fun copy_entries :: "AgentHost \<Rightarrow> string \<Rightarrow> (string \<times> bool \<times> string option) list \<Rightarrow> agent_files \<Rightarrow> agent_files \<times> bool" where
  "copy_entries h dst [] fs = (fs, True)"
| "copy_entries h dst ((name, isDir, content) # es) fs =
     (let target = path_join [dst, name] in
      if isDir \<or> mget fs target \<noteq> None then copy_entries h dst es fs
      else (case content of
          None \<Rightarrow> (fs, False)
        | Some b \<Rightarrow> if ahWrite h target then copy_entries h dst es (mput target b fs) else (fs, False)))"

definition copyDefaultNPSConf :: "AgentHost \<Rightarrow> string \<Rightarrow> agent_files \<Rightarrow> agent_files \<times> bool" where
  "copyDefaultNPSConf h dst fs = (case ahDefaults h of None \<Rightarrow> (fs, True) | Some es \<Rightarrow> copy_entries h dst es fs)"

definition defaultNPSConf :: "AgentHost \<Rightarrow> string \<Rightarrow> string" where
  "defaultNPSConf h workDir = (case ahDefaultConf h of
       Some b \<Rightarrow> b
     | None \<Rightarrow> concat (map (\<lambda>l. l @ [CHR 0x0A])
         [''appname = nps'', ''runmode = pro'', ''http_proxy_ip=0.0.0.0'', ''http_proxy_port=9080'', ''https_proxy_port=9443'',
          ''bridge_type=tcp'', ''bridge_port=18024'', ''bridge_ip=0.0.0.0'', ''tls_enable=true'', ''tls_bridge_port=18025'',
          ''log_level=6'', ''log_path='' @ path_join [workDir, ''data'', ''nps.log''], ''web_port=0'', ''web_ip=127.0.0.1'',
          ''auth_key=agent'', ''auth_crypt_key=change16bytekey'', ''allow_ports=1-65535'']))"

definition agent_settings :: "string \<Rightarrow> string \<Rightarrow> int \<Rightarrow> int \<Rightarrow> int \<Rightarrow> int \<Rightarrow> (string, string) gomap" where
  "agent_settings workDir token npsPort npsTLSPort npsHTTPPort npsHTTPSPort =
     [(''http_proxy_port'', itoa npsHTTPPort), (''https_proxy_port'', itoa npsHTTPSPort), (''bridge_port'', itoa npsPort),
      (''tls_bridge_port'', itoa npsTLSPort), (''log_path'', path_join [workDir, ''data'', ''nps.log'']), (''web_port'', ''0''),
      (''web_ip'', ''127.0.0.1''), (''auth_key'', token), (''allow_ports'', ''1-65535'')]"

definition prepareAgentData :: "AgentHost \<Rightarrow> string \<Rightarrow> string \<Rightarrow> int \<Rightarrow> int \<Rightarrow> int \<Rightarrow> int \<Rightarrow> agent_files \<Rightarrow> agent_files \<times> bool" where
  "prepareAgentData h workDir token npsPort npsTLSPort npsHTTPPort npsHTTPSPort fs =
     (if \<not> ahMkdir h (path_join [workDir, ''conf'']) \<or> \<not> ahMkdir h (path_join [workDir, ''data'']) then (fs, False)
      else (case copyDefaultNPSConf h (path_join [workDir, ''conf'']) fs of
          (fs1, False) \<Rightarrow> (fs1, False)
        | (fs1, True) \<Rightarrow>
            (let confPath = path_join [workDir, ''conf'', ''nps.conf''];
                 conf = replaceNPSConfig (defaultNPSConf h workDir)
                   (agent_settings workDir token npsPort npsTLSPort npsHTTPPort npsHTTPSPort)
             in if ahWrite h confPath then (mput confPath conf fs1, True) else (fs1, False))))"

section \<open>The environment\<close>

definition agent_getenv :: "(string \<Rightarrow> string option) \<Rightarrow> string \<Rightarrow> string \<Rightarrow> string" where
  "agent_getenv env key fallback = (case env key of None \<Rightarrow> fallback | Some v \<Rightarrow> if v \<noteq> [] then v else fallback)"

definition getenvAllowEmpty :: "(string \<Rightarrow> string option) \<Rightarrow> string \<Rightarrow> string \<Rightarrow> string" where
  "getenvAllowEmpty env key fallback = (case env key of None \<Rightarrow> fallback | Some v \<Rightarrow> v)"

text \<open>\<^verbatim>\<open>fmt.Sscanf\<close> with \<^verbatim>\<open>%d\<close>: blanks but no newline, a sign, the digits that follow.\<close>

definition scan_int :: "string \<Rightarrow> int option" where
  "scan_int s =
     (let t = dropWhile (\<lambda>c. is_space c \<and> c \<noteq> CHR 0x0A) s;
          (sign, u) = (case t of [] \<Rightarrow> ([], []) | c # r \<Rightarrow> if c = CHR ''-'' \<or> c = CHR ''+'' then ([c], r) else ([], t))
      in atoi (sign @ takeWhile is_digit u))"

definition getenvInt :: "(string \<Rightarrow> string option) \<Rightarrow> string \<Rightarrow> int \<Rightarrow> int" where
  "getenvInt env key fallback = (case scan_int (case env key of None \<Rightarrow> [] | Some v \<Rightarrow> v) of
       None \<Rightarrow> fallback
     | Some value \<Rightarrow> if 0 < value then value else fallback)"

end
