(* ===== verification/AgentConf.thy ===== *)
theory AgentConf
  imports AgentNode
begin

text \<open>The configuration file the agent writes for nps: what a reader of the file finds under each key.\<close>

section \<open>Reading the file\<close>

definition conf_value :: "string \<Rightarrow> string" where
  "conf_value line = trim_space (tl (dropWhile (\<lambda>c. c \<noteq> CHR ''='') (trim_space line)))"

definition conf_values :: "string \<Rightarrow> string \<Rightarrow> string list" where
  "conf_values conf key = map conf_value (filter (\<lambda>l. conf_key l = Some key) (split_on CHR 0x0A conf))"

text \<open>A setting that stays one line with its key and its value when it is written.\<close>

definition clean_setting :: "string \<times> string \<Rightarrow> bool" where
  "clean_setting kv \<longleftrightarrow> fst kv \<noteq> [] \<and> trim_space (fst kv) = fst kv \<and> hd (fst kv) \<noteq> CHR ''#'' \<and>
     CHR ''='' \<notin> set (fst kv) \<and> CHR 0x0A \<notin> set (fst kv) \<and> trim_space (snd kv) = snd kv \<and> CHR 0x0A \<notin> set (snd kv)"

section \<open>One line\<close>

lemma trim_space_fix:
  "trim_space s = s \<longleftrightarrow> s = [] \<or> \<not> is_space (hd s) \<and> \<not> is_space (last s)"
proof -
  have "trim_space s = s" if "\<not> is_space (hd s)" "\<not> is_space (last s)" "s \<noteq> []"
  proof -
    have "dropWhile is_space s = s" using that by (cases s) auto
    moreover have "dropWhile is_space (rev s) = rev s" using that by (cases s rule: rev_cases) auto
    ultimately show ?thesis by (simp add: trim_space_def trim_left_by_def trim_right_by_def)
  qed
  moreover have "\<not> is_space (hd s) \<and> \<not> is_space (last s)" if "trim_space s = s" "s \<noteq> []"
  proof
    have len: "length (trim_space s) \<le> length (dropWhile is_space s)"
      by (simp add: trim_space_def trim_left_by_def trim_right_by_def) (metis length_dropWhile_le length_rev)
    have len2: "length (dropWhile is_space (rev ys)) \<le> length ys" for ys
      using length_dropWhile_le [of is_space "rev ys"] by simp
    show "\<not> is_space (hd s)"
    proof
      assume "is_space (hd s)"
      then have "length (dropWhile is_space s) < length s"
        using that(2) by (cases s) (auto simp: le_imp_less_Suc length_dropWhile_le)
      with len that(1) show False by simp
    qed
    then have l: "dropWhile is_space s = s" using that(2) by (cases s) auto
    show "\<not> is_space (last s)"
    proof
      assume "is_space (last s)"
      then have "length (dropWhile is_space (rev s)) < length (rev s)"
        using that(2) len2 by (cases s rule: rev_cases) (auto simp: le_imp_less_Suc)
      moreover have "trim_space s = rev (dropWhile is_space (rev s))"
        by (simp add: trim_space_def trim_left_by_def trim_right_by_def l)
      ultimately show False using that(1) by (metis length_rev nat_neq_iff)
    qed
  qed
  ultimately show ?thesis by (cases "s = []") auto
qed

lemma setting_line:
  assumes "clean_setting (k, v)"
  shows "conf_key (k @ ''='' @ v) = Some k" "conf_value (k @ ''='' @ v) = v" "CHR 0x0A \<notin> set (k @ ''='' @ v)"
proof -
  have k: "k \<noteq> []" "trim_space k = k" "hd k \<noteq> CHR ''#''" "CHR ''='' \<notin> set k" "CHR 0x0A \<notin> set k"
    and v: "trim_space v = v" "CHR 0x0A \<notin> set v" using assms by (simp_all add: clean_setting_def)
  have "\<not> is_space (hd k)" using k(1,2) by (simp add: trim_space_fix)
  moreover have "v \<noteq> [] \<Longrightarrow> \<not> is_space (last v)" using v(1) by (simp add: trim_space_fix)
  moreover have "\<not> is_space CHR ''=''" by code_simp
  ultimately have t: "trim_space (k @ ''='' @ v) = k @ ''='' @ v"
    using k(1) by (simp add: trim_space_fix)
  have "\<not> has_prefix (k @ ''='' @ v) ''#''" using k(1,3) by (cases k) (simp_all add: has_prefix_def)
  moreover have "contains (k @ ''='' @ v) ''=''" by (simp add: contains_single)
  moreover have "takeWhile (\<lambda>c. c \<noteq> CHR ''='') (k @ ''='' @ v) = k"
    using k(4) by (subst takeWhile_append2) auto
  ultimately show "conf_key (k @ ''='' @ v) = Some k" using k(1,2) by (simp add: conf_key_def t [simplified])
  have "dropWhile (\<lambda>c. c \<noteq> CHR ''='') (k @ ''='' @ v) = CHR ''='' # v"
    using k(4) by (subst dropWhile_append2) auto
  then show "conf_value (k @ ''='' @ v) = v" using v(1) by (simp add: conf_value_def t [simplified])
  show "CHR 0x0A \<notin> set (k @ ''='' @ v)" using k(5) v(2) by simp
qed

lemma clean_mget:
  "list_all clean_setting reps \<Longrightarrow> mget reps k = Some v \<Longrightarrow> clean_setting (k, v)"
  using mget_Some_mem [of reps k v] by (auto simp: list_all_iff)

lemma replace_line_key:
  assumes "list_all clean_setting reps"
  shows "conf_key (replace_line reps l) = conf_key l"
proof (cases "conf_key l")
  case (Some k)
  then show ?thesis
    by (cases "mget reps k") (simp_all add: replace_line_def setting_line(1) [OF clean_mget [OF assms], simplified])
qed (simp add: replace_line_def)

lemma replace_line_value:
  assumes "list_all clean_setting reps" "conf_key l = Some k" "mget reps k = Some v"
  shows "conf_value (replace_line reps l) = v"
  using assms setting_line(2) [OF clean_mget [OF assms(1,3)]] by (simp add: replace_line_def)

lemma replace_line_same: "conf_key l = Some k \<Longrightarrow> mget reps k = None \<Longrightarrow> replace_line reps l = l"
  by (simp add: replace_line_def)

lemma replace_line_idem:
  "list_all clean_setting reps \<Longrightarrow> replace_line reps (replace_line reps l) = replace_line reps l"
  using replace_line_key [of reps l] by (auto simp: replace_line_def split: option.splits)

section \<open>The whole file\<close>

definition missing_settings :: "(string, string) gomap \<Rightarrow> string list \<Rightarrow> (string, string) gomap" where
  "missing_settings reps ls = filter (\<lambda>(k, _). Some k \<notin> set (map conf_key ls)) reps"

definition setting_text :: "string \<times> string \<Rightarrow> string" where
  "setting_text kv = fst kv @ ''='' @ snd kv"

lemma replaced_lines:
  assumes "list_all clean_setting reps"
  shows "split_on CHR 0x0A (replaceNPSConfig conf reps) =
    map (replace_line reps) (split_on CHR 0x0A conf) @ map setting_text (missing_settings reps (split_on CHR 0x0A conf))"
proof -
  let ?ls = "split_on CHR 0x0A conf"
  have e: "replaceNPSConfig conf reps =
      join [CHR 0x0A] (map (replace_line reps) ?ls @ map setting_text (missing_settings reps ?ls))"
    by (simp add: replaceNPSConfig_def missing_settings_def setting_text_def [abs_def] case_prod_unfold Let_def)
  have "CHR 0x0A \<notin> set (replace_line reps l)" if "l \<in> set ?ls" for l
    using split_on_no_sep [OF that] setting_line(3) [OF clean_mget [OF assms]]
    by (auto simp: replace_line_def split: option.split)
  moreover have "CHR 0x0A \<notin> set (setting_text kv)" if "kv \<in> set (missing_settings reps ?ls)" for kv
  proof -
    have "clean_setting kv" using that assms by (auto simp: missing_settings_def list_all_iff)
    then show ?thesis using setting_line(3) [of "fst kv" "snd kv"] by (simp add: setting_text_def)
  qed
  ultimately show ?thesis unfolding e by (intro split_on_join) auto
qed

lemma missing_keys:
  assumes "list_all clean_setting reps" "kv \<in> set (missing_settings reps ls)"
  shows "conf_key (setting_text kv) = Some (fst kv)" "conf_value (setting_text kv) = snd kv"
proof -
  have "clean_setting (fst kv, snd kv)" using assms by (auto simp: missing_settings_def list_all_iff)
  then show "conf_key (setting_text kv) = Some (fst kv)" "conf_value (setting_text kv) = snd kv"
    unfolding setting_text_def by (rule setting_line)+
qed

lemma missing_after:
  assumes "list_all clean_setting reps"
  shows "missing_settings reps (map (replace_line reps) ls @ map setting_text (missing_settings reps ls)) = []"
proof -
  have "Some k \<in> set (map conf_key (map (replace_line reps) ls @ map setting_text (missing_settings reps ls)))"
    if "(k, v) \<in> set reps" for k v
  proof (cases "Some k \<in> set (map conf_key ls)")
    case True
    then show ?thesis by (auto simp: replace_line_key [OF assms])
  next
    case False
    with that have m: "(k, v) \<in> set (missing_settings reps ls)" by (auto simp: missing_settings_def)
    from missing_keys(1) [OF assms m] m show ?thesis by (auto simp: image_iff intro!: bexI)
  qed
  then show ?thesis unfolding missing_settings_def [of _ "map _ _ @ _"] by (auto simp: filter_empty_conv simp del: map_append)
qed

lemma values_of_lines:
  assumes "list_all clean_setting reps"
  shows "map conf_value (filter (\<lambda>l. conf_key l = Some k) (map (replace_line reps) ls)) =
    (case mget reps k of None \<Rightarrow> map conf_value (filter (\<lambda>l. conf_key l = Some k) ls)
     | Some v \<Rightarrow> replicate (length (filter (\<lambda>l. conf_key l = Some k) ls)) v)"
  by (induction ls)
    (auto simp: replace_line_key [OF assms] replace_line_same replace_line_value [OF assms] split: option.splits)

lemma values_of_missing:
  assumes "list_all clean_setting reps" "mwf reps"
  shows "map conf_value (filter (\<lambda>l. conf_key l = Some k) (map setting_text (missing_settings reps ls))) =
    (case mget reps k of None \<Rightarrow> [] | Some v \<Rightarrow> if Some k \<in> set (map conf_key ls) then [] else [v])"
proof -
  let ?m = "missing_settings reps ls"
  have "map conf_value (filter (\<lambda>l. conf_key l = Some k) (map setting_text xs)) = map snd (filter (\<lambda>kv. fst kv = k) xs)"
    if "set xs \<subseteq> set ?m" for xs
    using that missing_keys [OF assms(1), of _ ls] by (induction xs) auto
  then have e: "map conf_value (filter (\<lambda>l. conf_key l = Some k) (map setting_text ?m)) = map snd (filter (\<lambda>kv. fst kv = k) ?m)"
    by blast
  have f: "filter (\<lambda>kv. fst kv = k) ?m = (if Some k \<in> set (map conf_key ls) then [] else filter (\<lambda>kv. fst kv = k) reps)"
    unfolding missing_settings_def by (induction reps) auto
  have "map snd (filter (\<lambda>kv. fst kv = k) reps) = (case mget reps k of None \<Rightarrow> [] | Some v \<Rightarrow> [v])"
    using assms(2) unfolding mwf_def mget_def
  proof (induction reps)
    case (Cons kv reps)
    have "filter (\<lambda>kv. fst kv = k) reps = []" if "k \<notin> set (map fst reps)" using that by (auto simp: filter_empty_conv)
    with Cons show ?case by (cases kv) auto
  qed simp
  then show ?thesis unfolding e f by (simp split: option.split)
qed

text \<open>Writing settings into the configuration of nps does what a reader of the file expects: every line of a key that is
  set reads the new value, a key without a line gets exactly one, all other keys read as before, and
  writing the same settings again changes nothing.\<close>

theorem replaceNPSConfig_settings:
  assumes "list_all clean_setting reps" "mwf reps"
  shows "conf_values (replaceNPSConfig conf reps) k =
      (case mget reps k of None \<Rightarrow> conf_values conf k | Some v \<Rightarrow> replicate (max 1 (length (conf_values conf k))) v) \<and>
    replaceNPSConfig (replaceNPSConfig conf reps) reps = replaceNPSConfig conf reps"
proof
  let ?ls = "split_on CHR 0x0A conf"
  have none: "Some k \<in> set (map conf_key ?ls) \<longleftrightarrow> conf_values conf k \<noteq> []"
    by (auto simp: conf_values_def filter_empty_conv image_iff eq_commute [of "Some k"])
  have "conf_values (replaceNPSConfig conf reps) k =
      map conf_value (filter (\<lambda>l. conf_key l = Some k) (map (replace_line reps) ?ls)) @
      map conf_value (filter (\<lambda>l. conf_key l = Some k) (map setting_text (missing_settings reps ?ls)))"
    unfolding conf_values_def [of "replaceNPSConfig conf reps"] replaced_lines [OF assms(1)] by simp
  also have "\<dots> = (case mget reps k of None \<Rightarrow> conf_values conf k | Some v \<Rightarrow> replicate (max 1 (length (conf_values conf k))) v)"
    unfolding values_of_lines [OF assms(1)] values_of_missing [OF assms] none
    by (cases "conf_values conf k") (auto simp: conf_values_def split: option.split)
  finally show "conf_values (replaceNPSConfig conf reps) k =
      (case mget reps k of None \<Rightarrow> conf_values conf k | Some v \<Rightarrow> replicate (max 1 (length (conf_values conf k))) v)" .
  let ?out = "map (replace_line reps) ?ls @ map setting_text (missing_settings reps ?ls)"
  have same: "replace_line reps (setting_text kv) = setting_text kv" if "kv \<in> set (missing_settings reps ?ls)" for kv
  proof -
    have "kv \<in> set reps" using that by (auto simp: missing_settings_def)
    then have "mget reps (fst kv) = Some (snd kv)" by (simp add: mem_mget [OF assms(2), symmetric])
    then show ?thesis using missing_keys(1) [OF assms(1) that] by (simp add: replace_line_def setting_text_def)
  qed
  have lines: "split_on CHR 0x0A (replaceNPSConfig (replaceNPSConfig conf reps) reps) = map (replace_line reps) ?out"
    unfolding replaced_lines [OF assms(1)] missing_after [OF assms(1)] by simp
  also have "\<dots> = ?out" using same by (simp add: replace_line_idem [OF assms(1)])
  also have "\<dots> = split_on CHR 0x0A (replaceNPSConfig conf reps)" by (rule replaced_lines [OF assms(1), symmetric])
  finally show "replaceNPSConfig (replaceNPSConfig conf reps) reps = replaceNPSConfig conf reps"
    by (metis join_split_on)
qed

text \<open>The settings the agent writes are clean when its paths and its token are.\<close>

definition demo_conf :: string where
  "demo_conf = join [CHR 0x0A] [''# nps'', ''bridge_port = 1'', '' bridge_port=2 '', ''web_ip=0.0.0.0'', []]"

theorem replaceNPSConfig_settings_witness:
  "conf_values (replaceNPSConfig demo_conf (agent_settings ''/data/nps'' ''tok'' 18024 18025 9080 9443)) ''bridge_port'' = [''18024'', ''18024''] \<and>
   conf_values (replaceNPSConfig demo_conf (agent_settings ''/data/nps'' ''tok'' 18024 18025 9080 9443)) ''auth_key'' = [''tok'']"
proof -
  let ?s = "agent_settings ''/data/nps'' ''tok'' 18024 18025 9080 9443"
  have h: "list_all clean_setting ?s" "mwf ?s" by code_simp+
  have e: "mget ?s ''bridge_port'' = Some ''18024''" "mget ?s ''auth_key'' = Some ''tok''"
    "conf_values demo_conf ''bridge_port'' = [''1'', ''2'']" "conf_values demo_conf ''auth_key'' = []" by code_simp+
  show ?thesis
    using replaceNPSConfig_settings [OF h, of demo_conf "''bridge_port''"] replaceNPSConfig_settings [OF h, of demo_conf "''auth_key''"]
    by (simp add: e numeral_2_eq_2)
qed

end
