(* ===== verification/AgentMirror.thy ===== *)
theory AgentMirror
  imports AgentConf
begin

text \<open>
  The control program and the agent together: after a bundle has gone from one to the other, by a
  pull or by a push, the agent's nps runs what the control database asks of its node.
\<close>

section \<open>What a node is asked to run\<close>

definition asked_for :: "Store \<Rightarrow> string \<Rightarrow> Tunnel \<Rightarrow> bool" where
  "asked_for st nid t \<longleftrightarrow> mget (tunnels_of st) (tID t) = Some t \<and> tNodeID t = nid \<and> tEnabled t \<and>
     (\<exists>u. mget (users_of st) (tUserName t) = Some u \<and> nps_user u)"

definition runs_tunnel :: "NpsState \<Rightarrow> Tunnel \<Rightarrow> bool" where
  "runs_tunnel db t \<longleftrightarrow> (\<exists>cid c. mget (ndClients db) cid = Some c \<and> clWebUserName c = tUserName t \<and>
     (if web_tunnel t then \<forall>d \<in> set (tDomains t). \<exists>i h. mget (ndHosts db) i = Some h \<and> fronts t cid d h
      else \<exists>i k. mget (ndTasks db) i = Some k \<and> runs t cid k))"

definition node_mirrored :: "Store \<Rightarrow> string \<Rightarrow> NpsState \<Rightarrow> bool" where
  "node_mirrored st nid db \<longleftrightarrow>
     (\<forall>t. asked_for st nid t \<longrightarrow> runs_tunnel db t) \<and>
     (\<forall>i k. mget (ndTasks db) i = Some k \<longrightarrow> managed (tkRemark k) \<longrightarrow>
        (\<exists>t. asked_for st nid t \<and> \<not> web_tunnel t \<and> tkRemark k = managedNPSRemark (tID t))) \<and>
     (\<forall>i h. mget (ndHosts db) i = Some h \<longrightarrow> managed (hoRemark h) \<longrightarrow>
        (\<exists>t. asked_for st nid t \<and> web_tunnel t \<and> hoRemark h \<in> set (host_remarks t)))"

section \<open>The bundle is a proper input\<close>

lemma clean_stored_domains:
  assumes "store_ok st" "mget (tunnels_of st) k = Some t" shows "clean_domains t"
proof -
  have d: "domains_ok (tDomains t)" using stored_tunnel [OF assms] by (simp add: tunnel_ok_def tunnel_shape_def)
  have "CHR '':'' \<notin> set d" if "canonical_domain d" for d
    using canonical_chars [OF that, of "CHR '':''"] by (auto simp: domain_char_def label_char_def is_lower_def is_digit_def)
  with d show ?thesis by (auto simp: clean_domains_def domains_ok_def list_all_iff)
qed

lemma distinct_rows:
  assumes "store_ok st" shows "distinct (map uName (Users st))" "distinct (map tID (ListTunnels st []))"
  using distinct_keys_sorted [OF store_keyed(1) [OF assms]] distinct_keys_sorted [OF store_keyed(3) [OF assms]]
  by (simp_all add: Users_def ListTunnels_def)

lemma bundle_inputs:
  assumes "store_ok st"
  shows "sync_inputs (abUsers (bundleForNode now st n)) (abTunnels (bundleForNode now st n))"
proof -
  have "uName u \<noteq> []" if "u \<in> set (Users st)" for u
    using that assms by (auto simp: Users_iff store_ok_def db_ok_iff)
  moreover have "clean_domains t" if "t \<in> set (ListTunnels st [])" for t
    using that clean_stored_domains [OF assms, of "tID t"] by (simp add: ListTunnels_iff [OF assms])
  ultimately show ?thesis using distinct_rows [OF assms]
    by (auto simp: sync_inputs_def bundleForNode_def Let_def usersForTunnels_def filterTunnelsByNode_def list_all_iff
        intro!: distinct_map_filter)
qed

lemma total_domains_filter: "total_domains (filter p ts) \<le> total_domains ts"
  by (induction ts) auto

lemma bundle_room:
  assumes "nps_room db (Users st) (ListTunnels st [])"
  shows "nps_room db (abUsers (bundleForNode now st n)) (abTunnels (bundleForNode now st n))"
proof -
  have "length (filter p xs) \<le> length xs" for p and xs :: "'a list" by (rule length_filter_le)
  then have u: "length (abUsers (bundleForNode now st n)) \<le> length (Users st)"
    and t: "length (abTunnels (bundleForNode now st n)) \<le> length (ListTunnels st [])"
    and d: "total_domains (abTunnels (bundleForNode now st n)) \<le> total_domains (ListTunnels st [])"
    by (simp_all add: bundleForNode_def Let_def usersForTunnels_def filterTunnelsByNode_def total_domains_filter)
  from assms u t d show ?thesis by (simp add: nps_room_def)
qed

lemma asked_for_bundle:
  assumes "store_ok st" "nID n \<noteq> []"
  shows "t \<in> set (abTunnels (bundleForNode now st n)) \<and> nps_tunnel (abUsers (bundleForNode now st n)) t \<longleftrightarrow> asked_for st (nID n) t"
proof -
  let ?b = "bundleForNode now st n"
  have key: "uName u = k" if "mget (users_of st) k = Some u" for u k
    by (rule keyed_mget [OF store_keyed(1) [OF assms(1)] that])
  have "tEngine t = EngineNPS" if "mget (tunnels_of st) (tID t) = Some t"
    using stored_tunnel [OF assms(1) that] by (simp add: tunnel_ok_def tunnel_shape_def)
  moreover have "tUserName t \<in> set (active_names (abUsers ?b)) \<longleftrightarrow>
      (\<exists>u. mget (users_of st) (tUserName t) = Some u \<and> nps_user u)" if "t \<in> set (abTunnels ?b)"
  proof -
    have "u \<in> set (abUsers ?b) \<and> uName u = tUserName t \<longleftrightarrow> mget (users_of st) (tUserName t) = Some u" for u
      using bundle_users [OF assms(1), of u now n] key [of "tUserName t" u] that by (metis (no_types))
    moreover have "tUserName t \<in> set (active_names (abUsers ?b)) \<longleftrightarrow>
        (\<exists>u. (u \<in> set (abUsers ?b) \<and> uName u = tUserName t) \<and> nps_user u)"
      by (auto simp: active_names_def image_iff)
    ultimately show ?thesis by (simp only:)
  qed
  ultimately show ?thesis unfolding nps_tunnel_def asked_for_def bundle_tunnels [OF assms] by blast
qed

section \<open>Applying a bundle\<close>

lemma applyBundle_mirrors:
  assumes "applyBundle env (bundleForNode now st n) ag = (ag', None)" "store_ok st" "nID n \<noteq> []"
    and "agNps ag = Some db" "nps_ok db" "nps_room db (Users st) (ListTunnels st [])"
  shows "nID n = agNodeID ag \<and> (\<exists>db'. ag' = ag\<lparr>agNps := Some db'\<rparr> \<and> node_mirrored st (agNodeID ag) db')"
proof -
  let ?b = "bundleForNode now st n"
  have b: "abNode ?b = n" by (simp add: bundleForNode_def Let_def)
  from assms(1,3) have id: "nID n = agNodeID ag" by (auto simp: applyBundle_def b split: if_splits)
  obtain x where s: "SyncNPSState env (abUsers ?b) (abTunnels ?b) (Some db) = (x, None)" "ag' = ag\<lparr>agNps := x\<rparr>"
    using assms(1,4) id by (auto simp: applyBundle_def b split: prod.splits)
  obtain db' where x: "x = Some db'" using s(1) by (auto simp: SyncNPSState_def split: prod.splits sum.splits)
  note r = tunnels_of_a_run [OF s(1) [unfolded x] assms(5) bundle_room [OF assms(6)] bundle_inputs [OF assms(2)]]
  note iff = asked_for_bundle [OF assms(2,3), of _ now]
  have "node_mirrored st (nID n) db'"
    unfolding node_mirrored_def runs_tunnel_def
    using r [unfolded tunnels_realised_def nothing_else_managed_def] iff by (intro conjI allI impI) blast+
  then have "node_mirrored st (agNodeID ag) db'" by (simp only: id)
  with id s(2) x show ?thesis by blast
qed

text \<open>The two programs over their connections: the control program as the agent's central, and the
  agent as what answers a push.\<close>

definition bundle_url :: "Agent \<Rightarrow> string" where
  "bundle_url ag = agControlURL ag @ ''/api/agent/bundle?node=''"

definition control_at :: "string \<Rightarrow> ApiEnv \<Rightarrow> Api \<Rightarrow> string \<Rightarrow> string \<Rightarrow> string + agentSyncBundle" where
  "control_at base env a url auth =
     (if \<not> has_prefix url base then Inl ''no route''
      else (case snd (agentBundle env (trim_prefix url base) auth a) of BundleReply b \<Rightarrow> Inr b | _ \<Rightarrow> Inl ''refused''))"

definition agent_at :: "NpsEnv \<Rightarrow> time \<Rightarrow> (string \<Rightarrow> time option) \<Rightarrow> Agent \<Rightarrow> agent" where
  "agent_at env now parse ag url token b =
     (case snd (apply_api env now parse (''Bearer '' @ token) (Some b) ag) of
        ApplyOk cs \<Rightarrow> Inr cs | InvalidToken \<Rightarrow> Inl ''401'' | BadBody \<Rightarrow> Inl ''400'' | ApplyFailed _ \<Rightarrow> Inl ''500'')"

text \<open>C38. When an agent fetches its bundle from the control program without error, its nps then runs exactly what
  the database asks of that node: every enabled tunnel of the node whose owner is enabled, on its port or its domains, and no other
  managed task or host; and the node was enabled and is the agent's own.\<close>

theorem pull_mirrors_node:
  assumes "syncOnce (control_at (bundle_url ag) env a) nenv ag = (ag', None)" "store_ok (apStore a)"
    and "agNps ag = Some db" "nps_ok db" "nps_room db (Users (apStore a)) (ListTunnels (apStore a) [])"
  shows "\<exists>db' n. agNps ag' = Some db' \<and> node_mirrored (apStore a) (agNodeID ag) db' \<and>
    mget (nodes_of (apStore a)) (agNodeID ag) = Some n \<and> nEnabled n"
proof -
  let ?st = "apStore a"
  have url: "control_at (bundle_url ag) env a (bundle_url ag @ agNodeID ag) auth =
      (case snd (agentBundle env (agNodeID ag) auth a) of BundleReply b \<Rightarrow> Inr b | _ \<Rightarrow> Inl ''refused'')" for auth
    by (simp add: control_at_def has_prefix_append trim_prefix_append)
  from assms(1) obtain b where b: "snd (agentBundle env (agNodeID ag) (''Bearer '' @ agToken ag) a) = BundleReply b"
    "applyBundle nenv b ag = (ag', None)"
    unfolding syncOnce_def using url [of "''Bearer '' @ agToken ag"]
    by (auto simp: bundle_url_def split: sum.splits reply.splits)
  have "agentBundle env (agNodeID ag) (''Bearer '' @ agToken ag) a =
      (fst (agentBundle env (agNodeID ag) (''Bearer '' @ agToken ag) a), BundleReply b)"
    using b(1) by (simp add: prod_eq_iff)
  then obtain n where n: "trim_space (agNodeID ag) \<noteq> []" "GetNode ?st (trim_space (agNodeID ag)) = Some n" "nEnabled n"
    "b = bundleForNode (aeNow env) ?st n" unfolding agentBundle_reply by blast
  have g: "mget (nodes_of ?st) (normalizeID (trim_space (agNodeID ag))) = Some n" using n(2) by (simp add: GetNode_def)
  note key = keyed_mget [OF store_keyed(2) [OF assms(2)] g]
  have "nID n \<noteq> []" using n(1) by (simp add: key normalizeID_def to_lower_def)
  from applyBundle_mirrors [OF b(2) [unfolded n(4)] assms(2) this assms(3-5)]
  have m: "nID n = agNodeID ag" "\<exists>db'. ag' = ag\<lparr>agNps := Some db'\<rparr> \<and> node_mirrored ?st (agNodeID ag) db'" by blast+
  have "mget (nodes_of ?st) (agNodeID ag) = Some n" using g by (simp only: key [symmetric] m(1))
  with m(2) n(3) show ?thesis by fastforce
qed

text \<open>A push that the control program counts as done has put the node's tunnels into the agent's nps, exactly, and
  the control program then holds the client states the agent answered, under the node's id; the agent
  accepted it only with its own token and for its own node.\<close>

theorem push_mirrors_node:
  assumes "pushRemoteNode cfg (agent_at nenv t parse ag) now n a = (a', None)" "store_ok (apStore a)" "nID n \<noteq> []"
    and "agNps ag = Some db" "nps_ok db" "nps_room db (Users (apStore a)) (ListTunnels (apStore a) [])"
  shows "\<exists>ag' db'. fst (apply_api nenv t parse (''Bearer '' @ nToken n) (Some (bundleForNode now (apStore a) n)) ag) = ag' \<and>
    agNps ag' = Some db' \<and> node_mirrored (apStore a) (nID n) db' \<and> nID n = agNodeID ag \<and>
    trim_space (nToken n) = agToken ag \<and> apStore a' = apStore a \<and>
    mget (apRemote a') (nID n) = (case agent_client_statuses t parse ag' of [] \<Rightarrow> None | cs \<Rightarrow> Some cs)"
proof -
  let ?b = "bundleForNode now (apStore a) n"
  from assms(1) obtain cs where cs: "agent_at nenv t parse ag (agentApplyURL (nPublicAddr n) (acAgentPushPort cfg)) (nToken n) ?b = Inr cs"
    "a' = setRemoteClientStatuses (nID n) cs a"
    by (auto simp: pushRemoteNode_def split: sum.splits)
  obtain ag' where ap: "applyBundle nenv ?b ag = (ag', None)" "cs = agent_client_statuses t parse ag'"
    and tok: "trim_space (nToken n) = agToken ag"
    and api: "fst (apply_api nenv t parse (''Bearer '' @ nToken n) (Some ?b) ag) = ag'"
    using cs(1) trim_prefix_append [of "''Bearer ''" "nToken n"]
    by (auto simp: agent_at_def apply_api_def Let_def split: if_splits option.splits prod.splits)
  from applyBundle_mirrors [OF ap(1) assms(2-6)] obtain db' where
    m: "nID n = agNodeID ag" "ag' = ag\<lparr>agNps := Some db'\<rparr>" "node_mirrored (apStore a) (agNodeID ag) db'" by blast
  have "mget (apRemote a') (nID n) = (case cs of [] \<Rightarrow> None | cs \<Rightarrow> Some cs)"
    by (cases cs) (simp_all add: cs(2) setRemoteClientStatuses_def gomap_simps)
  moreover have "apStore a' = apStore a" by (simp add: cs(2) setRemoteClientStatuses_def)
  moreover have "agNps ag' = Some db'" by (simp add: m(2))
  ultimately show ?thesis using api tok m(1,3) unfolding ap(2) by (intro exI [of _ ag'] exI [of _ db']) simp
qed

section \<open>Witnesses\<close>

definition empty_nps :: NpsState where
  "empty_nps = \<lparr>ndClients = [], ndTasks = [], ndHosts = [], ndClientInc = 0, ndTaskInc = 0, ndHostInc = 0,
     ndRunning = [], ndBridge = Some []\<rparr>"

definition demo_agent :: Agent where
  "demo_agent = \<lparr>agControlURL = ''http://control:8088'', agNodeID = ''local'', agToken = ''token'', agNps = Some empty_nps\<rparr>"

definition demo_node :: Node where
  "demo_node = the (mget (nodes_of (apStore demo_api)) ''local'')"

lemma demo_agent_pre:
  "agNps demo_agent = Some empty_nps" "nps_ok empty_nps"
  "nps_room empty_nps (Users (apStore demo_api)) (ListTunnels (apStore demo_api) [])"
proof -
  show "agNps demo_agent = Some empty_nps" by (simp add: demo_agent_def)
  show "nps_ok empty_nps"
    by (simp add: nps_ok_def clients_ok_def tasks_ok_def hosts_ok_def counted_def remarks_ok_def empty_nps_def)
  show "nps_room empty_nps (Users (apStore demo_api)) (ListTunnels (apStore demo_api) [])" by code_simp
qed

theorem pull_mirrors_node_witness:
  "\<exists>db'. agNps (fst (syncOnce (control_at (bundle_url demo_agent) demo_aenv demo_api) demo_nps_env demo_agent)) = Some db' \<and>
     node_mirrored (apStore demo_api) ''local'' db'"
proof -
  let ?r = "syncOnce (control_at (bundle_url demo_agent) demo_aenv demo_api) demo_nps_env demo_agent"
  have "snd ?r = None" by code_simp
  then have "?r = (fst ?r, None)" by (simp add: prod_eq_iff)
  from pull_mirrors_node [OF this demo_api_ok demo_agent_pre] show ?thesis
    by (auto simp: demo_agent_def)
qed

theorem push_mirrors_node_witness:
  "\<exists>a' (ag' :: Agent) db'. pushRemoteNode demo_cfg (agent_at demo_nps_env 5 (\<lambda>_. None) demo_agent) 100 demo_node demo_api = (a', None) \<and>
     agNps ag' = Some db' \<and> node_mirrored (apStore demo_api) ''local'' db' \<and> nToken demo_node = agToken demo_agent"
proof -
  let ?r = "pushRemoteNode demo_cfg (agent_at demo_nps_env 5 (\<lambda>_. None) demo_agent) 100 demo_node demo_api"
  have "snd ?r = None" by code_simp
  then have r: "?r = (fst ?r, None)" by (simp add: prod_eq_iff)
  have n: "nID demo_node = ''local''" "nToken demo_node = ''token''" by code_simp+
  have "nID demo_node \<noteq> []" by (simp add: n)
  from push_mirrors_node [OF r demo_api_ok this demo_agent_pre] obtain ag' :: Agent and db' where
    m: "agNps ag' = Some db'" "node_mirrored (apStore demo_api) (nID demo_node) db'" by blast
  moreover have "nToken demo_node = agToken demo_agent" by (simp add: n demo_agent_def)
  ultimately show ?thesis using r unfolding n(1) by blast
qed

end
