(* ===== verification/ClientLauncher.thy ===== *)
theory ClientLauncher
  imports ControlData
begin

text \<open>
  \<^verbatim>\<open>cmd/tunnel-client\<close>: the client that logs in to the control program, fetches its bootstrap
  and starts one nps client per node (\<^verbatim>\<open>main.go\<close>), and the launcher that starts, stops and
  restarts it from a local web page (\<^verbatim>\<open>launcher.go\<close>). The page itself, the tray, the service and the
  registry entry for the automatic start are not modelled.
\<close>

section \<open>Talking to the control program\<close>

definition endpoint_url :: "string \<Rightarrow> string \<Rightarrow> string" where
  "endpoint_url base path = trim_right base ''/'' @ path"

definition countNPSTunnels :: "Tunnel list \<Rightarrow> nat" where
  "countNPSTunnels tunnels = length (filter (\<lambda>t. tEnabled t \<and> tEngine t = EngineNPS) tunnels)"

definition npsServerAddr :: "RuntimeConfig \<Rightarrow> string" where
  "npsServerAddr rt0 = (let rt = WithDefaultsForClient rt0 in JoinHostPort (cServerAddr rt) (itoa (cNPSServerPort rt)))"

datatype client_error = LoginFailed string | EmptyUser | BootstrapFailed string | NoCredentials

text \<open>The answers to the requests: an error, or with status 200 the name of the user, or the bootstrap.\<close>

definition loginControl :: "(string \<Rightarrow> string \<times> string \<Rightarrow> string + string) \<Rightarrow> string \<Rightarrow> string \<Rightarrow> string \<Rightarrow> client_error option" where
  "loginControl post controlURL user password =
     (case post (endpoint_url controlURL ''/api/login'') (user, password) of
        Inl e \<Rightarrow> Some (LoginFailed e)
      | Inr name \<Rightarrow> if name = [] then Some EmptyUser else None)"

definition fetchBootstrap :: "(string \<Rightarrow> string + clientBootstrapResponse) \<Rightarrow> string \<Rightarrow> client_error + clientBootstrapResponse" where
  "fetchBootstrap get controlURL = (case get (endpoint_url controlURL ''/api/client/bootstrap'') of
       Inl e \<Rightarrow> Inl (BootstrapFailed e)
     | Inr b \<Rightarrow> Inr (b\<lparr>brNodes := sort_key cbID (brNodes b)\<rparr>))"

text \<open>An nps client to be run: the node, its server and the key.\<close>

record npsProc =
  npNode :: string
  npServer :: string
  npKey :: string

text \<open>The loop of \<^verbatim>\<open>syncAndStart\<close>: the nodes that have a client, and the clients started.\<close>

definition start_node :: "string \<Rightarrow> clientBootstrapNode \<Rightarrow> string list \<times> npsProc list \<Rightarrow> string list \<times> npsProc list" where
  "start_node key node sp =
     (if 0 < countNPSTunnels (cbTunnels node) then
        (if key = [] then sp
         else if cbID node \<in> set (fst sp) then sp
         else (fst sp @ [cbID node],
               snd sp @ [\<lparr>npNode = cbID node, npServer = npsServerAddr (cbRuntime node), npKey = key\<rparr>]))
      else sp)"

definition start_nodes :: "clientBootstrapResponse \<Rightarrow> string list \<Rightarrow> string list \<times> npsProc list" where
  "start_nodes b started = fold (start_node (brNPSVerifyKey b)) (brNodes b) (started, [])"

section \<open>The launcher\<close>

record launcherConfig =
  lcControlURL :: string
  lcUser :: string
  lcPassword :: string
  lcRefresh :: string

text \<open>A goroutine of \<^verbatim>\<open>startClient\<close>, inside \<^verbatim>\<open>runClientCtx\<close>: its configuration, whether its context
  is cancelled, whether it has logged in, and its map \<^verbatim>\<open>startedNPS\<close>.\<close>

record Run =
  ruCfg :: launcherConfig
  ruCancelled :: bool
  ruLoggedIn :: bool
  ruStarted :: "string list"

text \<open>
  \<^verbatim>\<open>launcherState\<close> and what runs beside it: \<open>lwCancel\<close> is the run whose context the field
  \<^verbatim>\<open>cancel\<close> cancels, \<open>lwPending\<close> the goroutines of \<^verbatim>\<open>startNPSClient\<close> that have not registered their client yet,
  \<open>lwClients\<close> the list \<^verbatim>\<open>runningClients\<close>, \<open>lwWaiters\<close> the goroutines of \<^verbatim>\<open>restart\<close>.
\<close>

record Launcher =
  lwCfg :: launcherConfig
  lwRunning :: bool
  lwStarted :: time
  lwLogs :: "string list"
  lwTunnels :: "Tunnel list"
  lwCancel :: "nat option"
  lwSerial :: nat
  lwRuns :: "(nat, Run) gomap"
  lwPending :: "npsProc list"
  lwClients :: "npsProc list"
  lwFile :: "launcherConfig option"
  lwWaiters :: "launcherConfig list"

text \<open>The clock, its text in the log, the error text of \<^verbatim>\<open>time.ParseDuration\<close> if it fails, and whether the settings
  can be saved.\<close>

record LauncherEnv =
  leNow :: time
  leClock :: string
  leDuration :: "string \<Rightarrow> string option"
  leSaves :: bool

datatype launcher_error = BadRefresh string | AlreadyRunning

datatype launcher_reply =
    LStatus launcherConfig bool time "string list" "Tunnel list" "string list"
  | LMessage string
  | LBadRequest string
  | LBadBody

fun launcher_error_text :: "launcher_error \<Rightarrow> string" where
  "launcher_error_text (BadRefresh e) = ''invalid refresh interval: '' @ e"
| "launcher_error_text AlreadyRunning = ''client is already running''"

definition appendLocked :: "string \<Rightarrow> string \<Rightarrow> Launcher \<Rightarrow> Launcher" where
  "appendLocked clock line0 s =
     (let line = trim_space line0 in
      if line = [] then s
      else let logs = lwLogs s @ [clock @ '' '' @ line]
           in s\<lparr>lwLogs := (if 400 < length logs then drop (length logs - 400) logs else logs)\<rparr>)"

fun active_loop :: "Tunnel list \<Rightarrow> string list \<Rightarrow> string list" where
  "active_loop [] nodes = nodes"
| "active_loop (t # ts) nodes =
     (let nodeID = (if trim_space (tNodeID t) = [] then DefaultNodeID else trim_space (tNodeID t))
      in active_loop ts (if nodeID \<in> set nodes then nodes else nodes @ [nodeID]))"

definition activeNodeIDs :: "Tunnel list \<Rightarrow> string list" where
  "activeNodeIDs tunnels = sort (active_loop tunnels [])"

definition launcher_status :: "Launcher \<Rightarrow> launcher_reply" where
  "launcher_status s = LStatus ((lwCfg s)\<lparr>lcPassword := []\<rparr>) (lwRunning s) (lwStarted s) (activeNodeIDs (lwTunnels s)) (lwTunnels s) (lwLogs s)"

definition startClient :: "LauncherEnv \<Rightarrow> launcherConfig \<Rightarrow> bool \<Rightarrow> Launcher \<Rightarrow> Launcher \<times> launcher_error option" where
  "startClient env cfg clear_logs s =
     (case leDuration env (lcRefresh cfg) of
        Some e \<Rightarrow> (s, Some (BadRefresh e))
      | None \<Rightarrow> if lwRunning s then (s, Some AlreadyRunning)
      else let n = lwSerial s;
               s1 = s\<lparr>lwCancel := Some n, lwCfg := cfg, lwRunning := True, lwStarted := leNow env, lwTunnels := [],
                      lwLogs := (if clear_logs then [] else lwLogs s)\<rparr>;
               s2 = appendLocked (leClock env) ''[INFO] launcher: starting Cosmo NPS client...'' s1
           in (s2\<lparr>lwFile := (if leSaves env then Some cfg else lwFile s2), lwSerial := n + 1,
                  lwRuns := mput n \<lparr>ruCfg = cfg, ruCancelled = False, ruLoggedIn = False, ruStarted = []\<rparr> (lwRuns s2)\<rparr>, None))"

text \<open>Cancelling a context that belongs to no live run does nothing.\<close>

definition cancel_run :: "nat \<Rightarrow> Launcher \<Rightarrow> Launcher" where
  "cancel_run n s = (case mget (lwRuns s) n of None \<Rightarrow> s
     | Some r \<Rightarrow> s\<lparr>lwRuns := mput n (r\<lparr>ruCancelled := True\<rparr>) (lwRuns s)\<rparr>)"

definition launcher_start :: "LauncherEnv \<Rightarrow> launcherConfig option \<Rightarrow> Launcher \<Rightarrow> Launcher \<times> launcher_reply" where
  "launcher_start env body s = (case body of
       None \<Rightarrow> (s, LBadBody)
     | Some c0 \<Rightarrow>
         let c1 = c0\<lparr>lcControlURL := trim_space (lcControlURL c0), lcUser := trim_space (lcUser c0)\<rparr>;
             cfg = (if lcRefresh c1 = [] then c1\<lparr>lcRefresh := ''30s''\<rparr> else c1)
         in if lcControlURL cfg = [] \<or> lcUser cfg = [] \<or> lcPassword cfg = []
            then (s, LBadRequest ''server, user and password are required'')
            else (case startClient env cfg True s of
                (s', Some e) \<Rightarrow> (s', LBadRequest (launcher_error_text e))
              | (s', None) \<Rightarrow> (s', LMessage ''started'')))"

definition launcher_stop :: "LauncherEnv \<Rightarrow> Launcher \<Rightarrow> Launcher \<times> launcher_reply" where
  "launcher_stop env s = (case lwCancel s of
       None \<Rightarrow> (s, LMessage ''stopped'')
     | Some n \<Rightarrow>
         if \<not> lwRunning s then (s, LMessage ''stopped'')
         else (cancel_run n (appendLocked (leClock env) ''[INFO] launcher: stopping tunnel-client...'' s), LMessage ''stopping''))"

definition launcher_restart :: "LauncherEnv \<Rightarrow> Launcher \<Rightarrow> Launcher \<times> launcher_reply" where
  "launcher_restart env s =
     (let cfg = lwCfg s in
      if lcControlURL cfg = [] \<or> lcUser cfg = [] \<or> lcPassword cfg = []
      then (s, LBadRequest ''saved server, user and password are required'')
      else let s1 = (case lwCancel s of None \<Rightarrow> s
              | Some n \<Rightarrow> if lwRunning s
                  then cancel_run n (appendLocked (leClock env) ''[INFO] launcher: reconnect requested'' s) else s)
           in (s1\<lparr>lwWaiters := lwWaiters s1 @ [cfg]\<rparr>, LMessage ''restarting''))"

text \<open>A goroutine of \<^verbatim>\<open>restart\<close> ends its wait: the run has stopped, or eight seconds have passed.\<close>

definition restart_fires :: "LauncherEnv \<Rightarrow> launcherConfig \<Rightarrow> Launcher \<Rightarrow> Launcher" where
  "restart_fires env cfg s =
     (let s0 = s\<lparr>lwWaiters := remove1 cfg (lwWaiters s)\<rparr> in
      (case startClient env cfg False s0 of
         (s1, None) \<Rightarrow> s1
       | (s1, Some e) \<Rightarrow> appendLocked (leClock env) (''[ERROR] launcher: reconnect failed: '' @ launcher_error_text e) s1))"

text \<open>The body of the goroutine of \<^verbatim>\<open>startClient\<close>: the login, one round of \<^verbatim>\<open>syncAndStart\<close>, the end.\<close>

definition run_login :: "nat \<Rightarrow> Launcher \<Rightarrow> Launcher" where
  "run_login n s = (case mget (lwRuns s) n of None \<Rightarrow> s
     | Some r \<Rightarrow> s\<lparr>lwRuns := mput n (r\<lparr>ruLoggedIn := True\<rparr>) (lwRuns s)\<rparr>)"

definition syncAndStart :: "(string \<Rightarrow> string + clientBootstrapResponse) \<Rightarrow> nat \<Rightarrow> Launcher \<Rightarrow> Launcher \<times> client_error option" where
  "syncAndStart get n s = (case mget (lwRuns s) n of
       None \<Rightarrow> (s, None)
     | Some r \<Rightarrow>
         (case fetchBootstrap get (lcControlURL (ruCfg r)) of
            Inl e \<Rightarrow> (s, Some e)
          | Inr b \<Rightarrow>
              (let (started, procs) = start_nodes b (ruStarted r)
               in (s\<lparr>lwTunnels := concat (map cbTunnels (brNodes b)), lwPending := lwPending s @ procs,
                     lwRuns := mput n (r\<lparr>ruStarted := started\<rparr>) (lwRuns s)\<rparr>, None))))"

definition registerClient :: "npsProc \<Rightarrow> Launcher \<Rightarrow> Launcher" where
  "registerClient p s = s\<lparr>lwPending := remove1 p (lwPending s), lwClients := lwClients s @ [p]\<rparr>"

definition closeAllClients :: "Launcher \<Rightarrow> Launcher" where
  "closeAllClients s = s\<lparr>lwClients := []\<rparr>"

definition run_end :: "LauncherEnv \<Rightarrow> nat \<Rightarrow> string option \<Rightarrow> Launcher \<Rightarrow> Launcher" where
  "run_end env n err s = (case mget (lwRuns s) n of None \<Rightarrow> s
     | Some r \<Rightarrow>
         let s1 = (if ruLoggedIn r then closeAllClients s else s);
             s2 = s1\<lparr>lwRuns := mdel n (lwRuns s1), lwRunning := False, lwCancel := None, lwTunnels := []\<rparr>
         in appendLocked (leClock env) (case err of
              Some e \<Rightarrow> ''[ERROR] launcher: Cosmo NPS client exited with error: '' @ e | None \<Rightarrow> ''[INFO] launcher: Cosmo NPS client stopped'') s2)"

section \<open>Starting up\<close>

definition empty_config :: launcherConfig where
  "empty_config = \<lparr>lcControlURL = [], lcUser = [], lcPassword = [], lcRefresh = []\<rparr>"

definition new_launcher :: "launcherConfig option \<Rightarrow> Launcher" where
  "new_launcher file = \<lparr>lwCfg = empty_config, lwRunning = False, lwStarted = 0, lwLogs = [], lwTunnels = [], lwCancel = None,
     lwSerial = 0, lwRuns = [], lwPending = [], lwClients = [], lwFile = file, lwWaiters = []\<rparr>"

text \<open>\<open>lwFile\<close> is what \<^verbatim>\<open>loadLauncherConfig\<close> decodes from the file of settings.\<close>

definition runLauncher :: "LauncherEnv \<Rightarrow> string \<Rightarrow> string \<Rightarrow> Launcher \<Rightarrow> Launcher" where
  "runLauncher env controlURL refresh s =
     (let c0 = (case lwFile s of None \<Rightarrow> empty_config | Some c \<Rightarrow> c);
          c1 = (if lcControlURL c0 = [] then c0\<lparr>lcControlURL := controlURL\<rparr> else c0);
          cfg = (if lcRefresh c1 = [] then c1\<lparr>lcRefresh := refresh\<rparr> else c1);
          s1 = s\<lparr>lwCfg := cfg\<rparr>
      in if lcControlURL cfg \<noteq> [] \<and> lcUser cfg \<noteq> [] \<and> lcPassword cfg \<noteq> []
         then fst (startClient env cfg False s1) else s1)"

section \<open>The steps\<close>

text \<open>
  A run ends after a failed login, or when its context is cancelled. Requests and the
  pieces of the goroutines that hold the mutex are atomic.
\<close>

inductive launcher_step :: "Launcher \<Rightarrow> Launcher \<Rightarrow> bool" where
  start: "launcher_step s (fst (launcher_start env body s))"
| stop: "launcher_step s (fst (launcher_stop env s))"
| restart: "launcher_step s (fst (launcher_restart env s))"
| restarted: "cfg \<in> set (lwWaiters s) \<Longrightarrow> launcher_step s (restart_fires env cfg s)"
| login: "mget (lwRuns s) n = Some r \<Longrightarrow> loginControl post (lcControlURL (ruCfg r)) (lcUser (ruCfg r)) (lcPassword (ruCfg r)) = None \<Longrightarrow>
    launcher_step s (run_login n s)"
| sync: "mget (lwRuns s) n = Some r \<Longrightarrow> ruLoggedIn r \<Longrightarrow> launcher_step s (fst (syncAndStart get n s))"
| register: "p \<in> set (lwPending s) \<Longrightarrow> launcher_step s (registerClient p s)"
| failed: "mget (lwRuns s) n = Some r \<Longrightarrow> \<not> ruLoggedIn r \<Longrightarrow> launcher_step s (run_end env n (Some e) s)"
| ended: "mget (lwRuns s) n = Some r \<Longrightarrow> ruLoggedIn r \<Longrightarrow> ruCancelled r \<Longrightarrow> launcher_step s (run_end env n None s)"

inductive launcher_reachable :: "Launcher \<Rightarrow> bool" where
  new: "launcher_reachable (runLauncher env url refresh (new_launcher file))"
| step: "launcher_reachable s \<Longrightarrow> launcher_step s s' \<Longrightarrow> launcher_reachable s'"

inductive_cases launcher_stepE: "launcher_step s s'"

end
