(* ===== verification/ClientProps.thy ===== *)
theory ClientProps
  imports ClientLauncher
begin

text \<open>
  The client: the launcher runs one client at a time, and a client covers exactly the nodes the
  control program's bootstrap gives it.
\<close>

section \<open>One run at a time\<close>

definition launcher_ok :: "Launcher \<Rightarrow> bool" where
  "launcher_ok s \<longleftrightarrow> length (lwLogs s) \<le> 400 \<and>
     (if lwRunning s
      then \<exists>n r. lwRuns s = [(n, r)] \<and> lwCancel s = Some n \<and> ruCfg r = lwCfg s \<and> distinct (ruStarted r)
      else lwRuns s = [] \<and> lwCancel s = None)"

lemma single_map [simp]: "mput n v [(n, w)] = [(n, v)]" "mdel n [(n, w)] = []" "mput n v [] = [(n, v)]"
  "mget [(n, w)] k = (if k = n then Some w else None)"
  by (simp_all add: mput_def mdel_def mget_def)

lemma appendLocked_fields [simp]:
  "lwCfg (appendLocked c l s) = lwCfg s" "lwRunning (appendLocked c l s) = lwRunning s"
  "lwTunnels (appendLocked c l s) = lwTunnels s" "lwCancel (appendLocked c l s) = lwCancel s"
  "lwRuns (appendLocked c l s) = lwRuns s" "lwSerial (appendLocked c l s) = lwSerial s"
  "lwClients (appendLocked c l s) = lwClients s" "lwPending (appendLocked c l s) = lwPending s"
  "lwWaiters (appendLocked c l s) = lwWaiters s" "lwFile (appendLocked c l s) = lwFile s"
  by (simp_all add: appendLocked_def Let_def)

lemma appendLocked_bound: "length (lwLogs s) \<le> 400 \<Longrightarrow> length (lwLogs (appendLocked c l s)) \<le> 400"
  by (simp add: appendLocked_def Let_def)

lemma appendLocked_ok: "launcher_ok s \<Longrightarrow> launcher_ok (appendLocked c l s)"
  by (simp add: launcher_ok_def appendLocked_bound)

lemma cancel_run_ok: "launcher_ok s \<Longrightarrow> launcher_ok (cancel_run n s)"
  by (auto simp: launcher_ok_def cancel_run_def split: option.split if_splits)

lemma startClient_ok: "launcher_ok s \<Longrightarrow> launcher_ok (fst (startClient env cfg b s))"
  by (auto simp: launcher_ok_def startClient_def Let_def split: option.split intro!: appendLocked_bound)

lemma start_node_distinct: "distinct (fst sp) \<Longrightarrow> distinct (fst (start_node key node sp))"
  by (auto simp: start_node_def)

lemma start_nodes_distinct: "distinct started \<Longrightarrow> distinct (fst (start_nodes b started))"
proof -
  have "distinct (fst sp) \<Longrightarrow> distinct (fst (fold (start_node key) ns sp))" for key ns sp
    by (induction ns arbitrary: sp) (simp_all add: start_node_distinct)
  then show "distinct started \<Longrightarrow> ?thesis" by (simp add: start_nodes_def)
qed

lemma live_run:
  assumes "launcher_ok s" "mget (lwRuns s) n = Some r"
  shows "lwRunning s" "lwRuns s = [(n, r)]" "lwCancel s = Some n" "ruCfg r = lwCfg s" "distinct (ruStarted r)"
  using assms by (auto simp: launcher_ok_def split: if_splits)

lemma syncAndStart_ok:
  assumes "launcher_ok s" shows "launcher_ok (fst (syncAndStart get n s))"
proof (cases "mget (lwRuns s) n")
  case None
  with assms show ?thesis by (simp add: syncAndStart_def)
next
  case (Some r)
  note l = live_run [OF assms Some]
  show ?thesis
  proof (cases "fetchBootstrap get (lcControlURL (ruCfg r))")
    case (Inl e)
    with Some assms show ?thesis by (simp add: syncAndStart_def)
  next
    case (Inr b)
    have "length (lwLogs s) \<le> 400" using assms by (simp add: launcher_ok_def)
    with Some Inr l start_nodes_distinct [OF l(5), of b] show ?thesis
      by (simp add: syncAndStart_def launcher_ok_def Let_def case_prod_unfold)
  qed
qed

lemma run_login_ok: "launcher_ok s \<Longrightarrow> launcher_ok (run_login n s)"
  by (auto simp: launcher_ok_def run_login_def split: option.split if_splits)

lemma run_end_ok: "launcher_ok s \<Longrightarrow> launcher_ok (run_end env n err s)"
  by (auto simp: launcher_ok_def run_end_def closeAllClients_def Let_def split: option.split if_splits intro!: appendLocked_bound)

lemma launcher_step_ok: "launcher_step s s' \<Longrightarrow> launcher_ok s \<Longrightarrow> launcher_ok s'"
proof (induction rule: launcher_step.induct)
  case (start s env body)
  then show ?case using startClient_ok [of s env _ True]
    by (auto simp: launcher_start_def Let_def split: option.split prod.split) (metis fst_conv)+
next
  case (stop s env)
  then show ?case by (auto simp: launcher_stop_def intro!: cancel_run_ok appendLocked_ok split: option.split)
next
  case (restart s env)
  have w: "launcher_ok (x\<lparr>lwWaiters := ws\<rparr>) = launcher_ok x" for x ws by (simp add: launcher_ok_def)
  from restart show ?case
    by (auto simp: launcher_restart_def Let_def w intro!: cancel_run_ok appendLocked_ok split: option.split)
next
  case (restarted cfg s env)
  then have "launcher_ok (s\<lparr>lwWaiters := remove1 cfg (lwWaiters s)\<rparr>)" by (simp add: launcher_ok_def)
  from startClient_ok [OF this, of env cfg False] show ?case
    by (auto simp: restart_fires_def Let_def split: prod.split option.split intro!: appendLocked_ok)
next
  case (register p s)
  then show ?case by (simp add: launcher_ok_def registerClient_def)
qed (simp_all add: run_login_ok syncAndStart_ok run_end_ok)

lemma launcher_reachable_ok: "launcher_reachable s \<Longrightarrow> launcher_ok s"
proof (induction rule: launcher_reachable.induct)
  case (new env url refresh saved)
  have "launcher_ok ((new_launcher saved)\<lparr>lwCfg := cfg\<rparr>)" for cfg by (simp add: launcher_ok_def new_launcher_def)
  then show ?case by (auto simp: runLauncher_def Let_def intro!: startClient_ok)
qed (rule launcher_step_ok)

lemma startClient_running: "lwRunning s \<Longrightarrow> fst (startClient env cfg b s) = s"
  by (simp add: startClient_def split: option.split)

text \<open>However requests, restarts and the goroutines interleave, at most one run of the client is alive, the launcher says
  running exactly then, its cancel function belongs to that run and stops it, its saved configuration is the run's,
  no node is started twice in a run, a start or restart while it runs starts no second one, and the log keeps
  at most 400 lines.\<close>

theorem one_client_at_a_time:
  assumes "launcher_reachable s"
  shows "length (lwRuns s) \<le> 1 \<and> (lwRunning s \<longleftrightarrow> lwRuns s \<noteq> []) \<and> length (lwLogs s) \<le> 400 \<and>
    (\<forall>n r. mget (lwRuns s) n = Some r \<longrightarrow> lwCancel s = Some n \<and> ruCfg r = lwCfg s \<and> distinct (ruStarted r) \<and>
       fst (launcher_start env body s) = s \<and> lwRuns (restart_fires env cfg s) = [(n, r)] \<and>
       lwRuns (fst (launcher_stop env s)) = [(n, r\<lparr>ruCancelled := True\<rparr>)] \<and>
       \<not> lwRunning (run_end env n err s))"
proof -
  note ok = launcher_reachable_ok [OF assms]
  have "lwCancel s = Some n \<and> ruCfg r = lwCfg s \<and> distinct (ruStarted r) \<and>
       fst (launcher_start env body s) = s \<and> lwRuns (restart_fires env cfg s) = [(n, r)] \<and>
       lwRuns (fst (launcher_stop env s)) = [(n, r\<lparr>ruCancelled := True\<rparr>)] \<and> \<not> lwRunning (run_end env n err s)"
    if r: "mget (lwRuns s) n = Some r" for n r
  proof -
    note l = live_run [OF ok r]
    have "fst (launcher_start env body s) = s"
      using startClient_running [OF l(1)] by (auto simp: launcher_start_def Let_def split: option.split prod.split) (metis fst_conv)+
    moreover have "lwRuns (restart_fires env cfg s) = [(n, r)]"
    proof -
      let ?s = "s\<lparr>lwWaiters := remove1 cfg (lwWaiters s)\<rparr>"
      have "fst (startClient env cfg False ?s) = ?s" using l(1) by (intro startClient_running) simp
      with l(2) show ?thesis by (auto simp: restart_fires_def Let_def split: prod.split option.split)
    qed
    moreover have "lwRuns (fst (launcher_stop env s)) = [(n, r\<lparr>ruCancelled := True\<rparr>)]"
      using l by (simp add: launcher_stop_def cancel_run_def)
    moreover have "\<not> lwRunning (run_end env n err s)" using l by (simp add: run_end_def Let_def)
    ultimately show ?thesis using l by blast
  qed
  moreover have "length (lwRuns s) \<le> 1 \<and> (lwRunning s \<longleftrightarrow> lwRuns s \<noteq> []) \<and> length (lwLogs s) \<le> 400"
    using ok by (auto simp: launcher_ok_def split: if_splits)
  ultimately show ?thesis by blast
qed

definition demo_launcher_env :: LauncherEnv where
  "demo_launcher_env = \<lparr>leNow = 7, leClock = ''00:00:00'', leDuration = \<lambda>_. None, leSaves = True\<rparr>"

definition demo_launcher_cfg :: launcherConfig where
  "demo_launcher_cfg = \<lparr>lcControlURL = ''http://c/'', lcUser = ''alice'', lcPassword = ''pw'', lcRefresh = []\<rparr>"

definition demo_launcher :: Launcher where
  "demo_launcher = fst (launcher_start demo_launcher_env (Some demo_launcher_cfg)
     (runLauncher demo_launcher_env ''http://c'' ''30s'' (new_launcher None)))"

lemma demo_launcher_reachable: "launcher_reachable demo_launcher"
  unfolding demo_launcher_def by (rule launcher_reachable.step [OF launcher_reachable.new launcher_step.start])

theorem one_client_at_a_time_witness:
  "fst (launcher_start demo_launcher_env (Some demo_launcher_cfg) demo_launcher) = demo_launcher \<and>
   lwCancel demo_launcher = Some 0 \<and> \<not> lwRunning (run_end demo_launcher_env 0 None demo_launcher)"
proof -
  have "mget (lwRuns demo_launcher) 0 \<noteq> None" by code_simp
  then obtain r where "mget (lwRuns demo_launcher) 0 = Some r" by blast
  with one_client_at_a_time [OF demo_launcher_reachable, of demo_launcher_env "Some demo_launcher_cfg" demo_launcher_cfg None]
  show ?thesis by blast
qed

text \<open>A client whose goroutine registers it after its run has ended stays: nothing closes it until a later run ends.\<close>

definition leak_bootstrap :: clientBootstrapResponse where
  "leak_bootstrap = \<lparr>brGeneratedAt = 0, brUser = Public zero_User, brFRPToken = [], brNPSVerifyKey = ''k'',
     brNodes = [\<lparr>cbID = ''n'', cbName = ''n'', cbRuntime = zero_Runtime,
       cbTunnels = [zero_Tunnel\<lparr>tEngine := EngineNPS, tEnabled := True\<rparr>]\<rparr>]\<rparr>"

definition leak_round :: Launcher where
  "leak_round = fst (syncAndStart (\<lambda>_. Inr leak_bootstrap) 0 (run_login 0 demo_launcher))"

definition leak_ended :: Launcher where
  "leak_ended = run_end demo_launcher_env 0 None (fst (launcher_stop demo_launcher_env leak_round))"

lemma leak_ended_reachable: "launcher_reachable leak_ended"
proof -
  have run: "\<exists>r. mget (lwRuns s) 0 = Some r \<and> P r" if "(case mget (lwRuns s) 0 of None \<Rightarrow> False | Some r \<Rightarrow> P r)" for s P
    using that by (auto split: option.splits)
  have "\<exists>r. mget (lwRuns demo_launcher) 0 = Some r \<and> True" by (rule run) code_simp
  then obtain r where "mget (lwRuns demo_launcher) 0 = Some r" by blast
  from launcher_step.login [OF this, of "\<lambda>_ _. Inr ''alice''"]
  have 1: "launcher_reachable (run_login 0 demo_launcher)"
    by (intro launcher_reachable.step [OF demo_launcher_reachable]) (simp add: loginControl_def)
  have "\<exists>r. mget (lwRuns (run_login 0 demo_launcher)) 0 = Some r \<and> ruLoggedIn r" by (rule run) code_simp
  with 1 have 2: "launcher_reachable leak_round"
    unfolding leak_round_def by (blast intro: launcher_reachable.step launcher_step.sync)
  have "\<exists>r. mget (lwRuns (fst (launcher_stop demo_launcher_env leak_round))) 0 = Some r \<and> ruLoggedIn r \<and> ruCancelled r"
    by (rule run) code_simp
  with launcher_reachable.step [OF 2 launcher_step.stop] show ?thesis
    unfolding leak_ended_def by (blast intro: launcher_reachable.step launcher_step.ended)
qed

lemma stop_leaks_pending_client:
  "\<exists>s. launcher_reachable s \<and> \<not> lwRunning s \<and> lwClients s \<noteq> []"
proof -
  have "hd (lwPending leak_ended) \<in> set (lwPending leak_ended)" by (rule list.set_sel) code_simp
  from launcher_reachable.step [OF leak_ended_reachable launcher_step.register [OF this]]
  show ?thesis by (intro exI conjI) (assumption, code_simp, code_simp)
qed

section \<open>Which nodes get a client\<close>

definition startable :: "string \<Rightarrow> clientBootstrapNode \<Rightarrow> bool" where
  "startable key c \<longleftrightarrow> key \<noteq> [] \<and> 0 < countNPSTunnels (cbTunnels c)"

definition proc_of :: "string \<Rightarrow> clientBootstrapNode \<Rightarrow> npsProc" where
  "proc_of key c = \<lparr>npNode = cbID c, npServer = npsServerAddr (cbRuntime c), npKey = key\<rparr>"

lemma start_node_cases:
  "start_node key c sp = (if startable key c \<and> cbID c \<notin> set (fst sp) then (fst sp @ [cbID c], snd sp @ [proc_of key c]) else sp)"
  by (simp add: start_node_def startable_def proc_of_def)

lemma start_fold:
  assumes "distinct (map cbID ns)"
  shows "fold (start_node key) ns (st, ps) =
    (let cs = filter (\<lambda>c. startable key c \<and> cbID c \<notin> set st) ns in (st @ map cbID cs, ps @ map (proc_of key) cs))"
  using assms
proof (induction ns arbitrary: st ps)
  case (Cons c ns)
  have f: "filter (\<lambda>x. startable key x \<and> cbID x \<noteq> cbID c \<and> cbID x \<notin> set st) ns = filter (\<lambda>x. startable key x \<and> cbID x \<notin> set st) ns"
    using Cons.prems by (intro filter_cong) (auto simp: image_iff)
  from Cons show ?case by (simp add: start_node_cases f Let_def)
qed simp

lemma start_nodes_eq:
  assumes "distinct (map cbID (brNodes b))"
  shows "start_nodes b [] = (let cs = filter (startable (brNPSVerifyKey b)) (brNodes b)
    in (map cbID cs, map (proc_of (brNPSVerifyKey b)) cs))"
  unfolding start_nodes_def start_fold [OF assms] by (simp add: Let_def)

lemma stored_group_counts:
  assumes "store_ok st" "n \<noteq> []" "group_of (ListTunnels st n) k \<noteq> []"
  shows "0 < countNPSTunnels (group_of (ListTunnels st n) k)"
proof -
  let ?g = "group_of (ListTunnels st n) k"
  have "tEnabled t \<and> tEngine t = EngineNPS" if "t \<in> set ?g" for t
    using that stored_tunnel [OF assms(1), of "tID t" t]
    by (simp add: group_of_tunnels [OF assms(1,2)] tunnel_ok_def tunnel_shape_def)
  then have "filter (\<lambda>t. tEnabled t \<and> tEngine t = EngineNPS) ?g = ?g" by (simp add: filter_id_conv)
  with assms(3) show ?thesis by (simp add: countNPSTunnels_def)
qed

lemma boot_node:
  assumes "store_ok st" "n \<noteq> []" "c \<in> set (bootstrap_nodes rt st (ListTunnels st n))"
  obtains nd t where "mget (nodes_of st) (cbID c) = Some nd" "nEnabled nd" "cbRuntime c = runtimeForNode nd rt"
    "mget (tunnels_of st) (tID t) = Some t" "tUserName t = n" "tEnabled t" "tNodeID t = cbID c"
    "cbTunnels c = group_of (ListTunnels st n) (cbID c)"
proof -
  from assms(3) obtain nd where nd: "mget (nodes_of st) (cbID c) = Some nd" "nEnabled nd" "group_of (ListTunnels st n) (cbID c) \<noteq> []"
    and c: "c = \<lparr>cbID = nID nd, cbName = nName nd, cbRuntime = runtimeForNode nd rt, cbTunnels = group_of (ListTunnels st n) (cbID c)\<rparr>"
    unfolding bootstrap_nodes_mem [OF assms(1)] by blast
  have f: "cbRuntime c = runtimeForNode nd rt" "cbTunnels c = group_of (ListTunnels st n) (cbID c)" by (subst c, simp)+
  from nd(3) obtain t where "t \<in> set (group_of (ListTunnels st n) (cbID c))" using hd_in_set by blast
  with that [OF nd(1,2) f(1)] f(2) show thesis unfolding group_of_tunnels [OF assms(1,2)] by blast
qed

lemma boot_node_exists:
  assumes "store_ok st" "n \<noteq> []" "mget (nodes_of st) k = Some nd" "nEnabled nd"
    and "mget (tunnels_of st) (tID t) = Some t" "tUserName t = n" "tEnabled t" "tNodeID t = k"
  shows "\<exists>c \<in> set (bootstrap_nodes rt st (ListTunnels st n)). cbID c = k \<and> cbRuntime c = runtimeForNode nd rt"
proof -
  have k: "nID nd = k" by (rule keyed_mget [OF store_keyed(2) [OF assms(1)] assms(3)])
  have "t \<in> set (group_of (ListTunnels st n) k)" using assms(5-8) by (simp add: group_of_tunnels [OF assms(1,2)])
  then have "group_of (ListTunnels st n) k \<noteq> []" by auto
  with assms(3,4) k show ?thesis
    by (intro bexI [of _ "\<lparr>cbID = nID nd, cbName = nName nd, cbRuntime = runtimeForNode nd rt, cbTunnels = group_of (ListTunnels st n) k\<rparr>"])
      (simp_all add: bootstrap_nodes_mem [OF assms(1)])
qed

lemma startable_boot:
  assumes "store_ok st" "n \<noteq> []" "key \<noteq> []" "c \<in> set (bootstrap_nodes rt st (ListTunnels st n))"
  shows "startable key c"
proof -
  obtain t where "tEnabled t" "mget (tunnels_of st) (tID t) = Some t" "tUserName t = n" "tNodeID t = cbID c"
    and g: "cbTunnels c = group_of (ListTunnels st n) (cbID c)" by (rule boot_node [OF assms(1,2,4)])
  then have "t \<in> set (group_of (ListTunnels st n) (cbID c))" by (simp add: group_of_tunnels [OF assms(1,2)])
  then have "group_of (ListTunnels st n) (cbID c) \<noteq> []" by auto
  with stored_group_counts [OF assms(1,2)] assms(3) g show ?thesis by (simp add: startable_def)
qed

text \<open>What a client is asked to run on a node.\<close>

definition proc_wanted :: "Store \<Rightarrow> RuntimeConfig \<Rightarrow> User \<Rightarrow> npsProc \<Rightarrow> bool" where
  "proc_wanted st rt u p \<longleftrightarrow> npKey p = uNPSVerifyKey u \<and>
     (\<exists>nd t. mget (nodes_of st) (npNode p) = Some nd \<and> nEnabled nd \<and> npServer p = npsServerAddr (runtimeForNode nd rt) \<and>
        mget (tunnels_of st) (tID t) = Some t \<and> tUserName t = uName u \<and> tEnabled t \<and> tNodeID t = npNode p)"

lemma boot_procs:
  assumes "store_ok st" "uName u \<noteq> []"
  shows "p \<in> proc_of (uNPSVerifyKey u) ` set (bootstrap_nodes rt st (ListTunnels st (uName u))) \<longleftrightarrow> proc_wanted st rt u p"
proof
  assume "p \<in> proc_of (uNPSVerifyKey u) ` set (bootstrap_nodes rt st (ListTunnels st (uName u)))"
  then obtain c where c: "c \<in> set (bootstrap_nodes rt st (ListTunnels st (uName u)))" "p = proc_of (uNPSVerifyKey u) c" by blast
  show "proc_wanted st rt u p"
    by (rule boot_node [OF assms c(1)]) (auto simp: proc_wanted_def proc_of_def c(2))
next
  assume "proc_wanted st rt u p"
  then obtain nd t where w: "npKey p = uNPSVerifyKey u" "mget (nodes_of st) (npNode p) = Some nd" "nEnabled nd"
    "npServer p = npsServerAddr (runtimeForNode nd rt)" "mget (tunnels_of st) (tID t) = Some t" "tUserName t = uName u" "tEnabled t"
    "tNodeID t = npNode p" unfolding proc_wanted_def by blast
  from boot_node_exists [OF assms w(2,3,5-8), of rt] obtain c where
    "c \<in> set (bootstrap_nodes rt st (ListTunnels st (uName u)))" "cbID c = npNode p" "cbRuntime c = runtimeForNode nd rt" by blast
  moreover from this have "p = proc_of (uNPSVerifyKey u) c" using w(1,4) by (cases p) (simp add: proc_of_def)
  ultimately show "p \<in> proc_of (uNPSVerifyKey u) ` set (bootstrap_nodes rt st (ListTunnels st (uName u)))" by blast
qed

lemma clientBootstrap_reply:
  assumes "clientBootstrap cfg env current q a = (a', BootstrapReply b)"
  shows "\<exists>u. GetUser (apStore a) (if isAdmin current \<and> q \<noteq> [] then q else uName current) = Some u \<and>
    brNPSVerifyKey b = uNPSVerifyKey u \<and>
    brNodes b = bootstrap_nodes (acRuntime cfg) (apStore a) (ListTunnels (apStore a) (uName u))"
  using assms by (auto simp: clientBootstrap_def Let_def split: option.splits if_split_asm)

lemma distinct_sorted_ids: "distinct (map cbID ns) \<Longrightarrow> distinct (map cbID (sort_key cbID ns))"
  by (metis mset_eq_imp_distinct_iff mset_map mset_sort)

text \<open>A round whose bootstrap has only nodes to start, in a run that has started none, and the round after it.\<close>

lemma first_round:
  assumes "mget (lwRuns s) n = Some r" "ruStarted r = []" "distinct (map cbID (brNodes b))"
    and "\<forall>c \<in> set (brNodes b). startable (brNPSVerifyKey b) c" "syncAndStart (\<lambda>_. Inr b) n s = (s', err)"
  shows "err = None" "lwPending s' = lwPending s @ map (proc_of (brNPSVerifyKey b)) (sort_key cbID (brNodes b))"
    "lwPending (fst (syncAndStart (\<lambda>_. Inr b) n s')) = lwPending s'"
proof -
  define b' where "b' = b\<lparr>brNodes := sort_key cbID (brNodes b)\<rparr>"
  have fetch: "fetchBootstrap (\<lambda>_. Inr b) x = Inr b'" for x by (simp add: fetchBootstrap_def b'_def)
  have ids: "distinct (map cbID (brNodes b'))" using distinct_sorted_ids [OF assms(3)] by (simp add: b'_def)
  have all: "filter (startable (brNPSVerifyKey b')) (brNodes b') = brNodes b'"
    using assms(4) by (simp add: b'_def filter_id_conv)
  have sn: "start_nodes b' [] = (map cbID (brNodes b'), map (proc_of (brNPSVerifyKey b)) (brNodes b'))"
    unfolding start_nodes_eq [OF ids] all by (simp add: b'_def Let_def)
  have "filter (\<lambda>c. startable (brNPSVerifyKey b') c \<and> cbID c \<notin> set (map cbID (brNodes b'))) (brNodes b') = []"
    by (auto simp: filter_empty_conv)
  then have again: "start_nodes b' (map cbID (brNodes b')) = (map cbID (brNodes b'), [])"
    unfolding start_nodes_def start_fold [OF ids] by simp
  have s': "s' = s\<lparr>lwTunnels := concat (map cbTunnels (brNodes b')),
      lwPending := lwPending s @ map (proc_of (brNPSVerifyKey b)) (brNodes b'),
      lwRuns := mput n (r\<lparr>ruStarted := map cbID (brNodes b')\<rparr>) (lwRuns s)\<rparr>" "err = None"
    using assms(1,2,5) by (simp_all add: syncAndStart_def fetch sn)
  show "err = None" by (rule s'(2))
  show "lwPending s' = lwPending s @ map (proc_of (brNPSVerifyKey b)) (sort_key cbID (brNodes b))"
    by (simp add: s'(1)) (simp add: b'_def)
  show "lwPending (fst (syncAndStart (\<lambda>_. Inr b) n s')) = lwPending s'"
    by (simp add: syncAndStart_def fetch s'(1) gomap_simps again)
qed

text \<open>C40. The client and the control program together: the first round of a client whose bootstrap the control program
  answered starts exactly one nps client for each enabled node that has an enabled tunnel of its user, at that
  node's address and with the user's key, and no other; the next round with the same bootstrap starts nothing.\<close>

theorem client_covers_tunnels:
  assumes "clientBootstrap cfg env current q a = (a', BootstrapReply b)" "store_ok (apStore a)" "uName current \<noteq> []"
    and "GetUser (apStore a) (if isAdmin current \<and> q \<noteq> [] then q else uName current) = Some u" "uNPSVerifyKey u \<noteq> []"
    and "mget (lwRuns s) n = Some r" "ruStarted r = []" "syncAndStart (\<lambda>_. Inr b) n s = (s', err)"
  shows "\<exists>procs. lwPending s' = lwPending s @ procs \<and> err = None \<and> distinct (map npNode procs) \<and>
    (\<forall>p. p \<in> set procs \<longleftrightarrow> proc_wanted (apStore a) (acRuntime cfg) u p) \<and>
    lwPending (fst (syncAndStart (\<lambda>_. Inr b) n s')) = lwPending s'"
proof -
  let ?st = "apStore a" and ?name = "if isAdmin current \<and> q \<noteq> [] then q else uName current"
  let ?key = "uNPSVerifyKey u" and ?procs = "map (proc_of (uNPSVerifyKey u)) (sort_key cbID (brNodes b))"
  have b: "brNPSVerifyKey b = ?key" "brNodes b = bootstrap_nodes (acRuntime cfg) ?st (ListTunnels ?st (uName u))"
    using clientBootstrap_reply [OF assms(1)] assms(4) by auto
  have "mget (users_of ?st) ?name = Some u" using assms(4) by (simp only: GetUser_def)
  from keyed_mget [OF store_keyed(1) [OF assms(2)] this] have name: "uName u \<noteq> []" using assms(3) by (auto split: if_splits)
  have ids: "distinct (map cbID (brNodes b))" unfolding b(2) by (rule distinct_bootstrap [OF assms(2)])
  have all: "\<forall>c \<in> set (brNodes b). startable (brNPSVerifyKey b) c"
    unfolding b using startable_boot [OF assms(2) name assms(5)] by blast
  note round = first_round [OF assms(6,7) ids all assms(8), unfolded b(1)]
  have "distinct (map npNode ?procs)" using distinct_sorted_ids [OF ids] by (simp add: proc_of_def comp_def)
  moreover have "p \<in> set ?procs \<longleftrightarrow> proc_wanted ?st (acRuntime cfg) u p" for p
    using boot_procs [OF assms(2) name, of p "acRuntime cfg"] by (simp add: b(2))
  ultimately show ?thesis using round by blast
qed

definition demo_logged_in :: Launcher where
  "demo_logged_in = run_login 0 demo_launcher"

lemma demo_proc_wanted:
  "\<exists>p. proc_wanted (apStore demo_api) (acRuntime demo_cfg) demo_alice_row p \<and> npNode p = ''local'' \<and>
     npKey p = uNPSVerifyKey demo_alice_row"
proof -
  let ?wanted = "\<lambda>t. mget (tunnels_of (apStore demo_api)) (tID t) = Some t \<and> tUserName t = uName demo_alice_row \<and>
    tEnabled t \<and> tNodeID t = ''local''"
  have "(case mget (nodes_of (apStore demo_api)) ''local'' of None \<Rightarrow> False | Some nd \<Rightarrow> nEnabled nd)" by code_simp
  then obtain nd where "mget (nodes_of (apStore demo_api)) ''local'' = Some nd" "nEnabled nd" by (auto split: option.splits)
  moreover have "list_ex ?wanted (map snd (tunnels_of (apStore demo_api)))" by code_simp
  then obtain t where "?wanted t" by (auto simp only: list_ex_iff)
  ultimately show ?thesis unfolding proc_wanted_def
    by (intro exI [of _ "\<lparr>npNode = ''local'', npServer = npsServerAddr (runtimeForNode nd (acRuntime demo_cfg)),
      npKey = uNPSVerifyKey demo_alice_row\<rparr>"] conjI exI [of _ nd] exI [of _ t]) simp_all
qed

theorem client_covers_tunnels_witness:
  "\<exists>b p. snd (clientBootstrap demo_cfg demo_aenv demo_alice_row [] demo_api) = BootstrapReply b \<and>
     p \<in> set (lwPending (fst (syncAndStart (\<lambda>_. Inr b) 0 demo_logged_in))) \<and> npNode p = ''local'' \<and>
     npKey p = uNPSVerifyKey demo_alice_row"
proof -
  define x where "x = clientBootstrap demo_cfg demo_aenv demo_alice_row [] demo_api"
  have "(case snd x of BootstrapReply _ \<Rightarrow> True | _ \<Rightarrow> False)" unfolding x_def by code_simp
  then obtain b where b: "x = (fst x, BootstrapReply b)" by (cases x) (auto split: reply.splits)
  have "mget (lwRuns demo_logged_in) 0 \<noteq> None" by code_simp
  then obtain r where r: "mget (lwRuns demo_logged_in) 0 = Some r" by blast
  have "map ruStarted (map snd (lwRuns demo_logged_in)) = [[]]" by code_simp
  then have st: "ruStarted r = []" using mget_Some_mem [OF r] by (auto simp: map_eq_Cons_conv)
  have u: "uName demo_alice_row \<noteq> []" "uNPSVerifyKey demo_alice_row \<noteq> []"
    "GetUser (apStore demo_api) (if isAdmin demo_alice_row \<and> [] \<noteq> ([] :: string) then [] else uName demo_alice_row) = Some demo_alice_row"
    by code_simp+
  obtain s' err where s': "syncAndStart (\<lambda>_. Inr b) 0 demo_logged_in = (s', err)" by fastforce
  from client_covers_tunnels [OF b [unfolded x_def] demo_api_ok u(1,3,2) r st s'] obtain procs where
    "lwPending s' = lwPending demo_logged_in @ procs"
    "\<forall>p. p \<in> set procs \<longleftrightarrow> proc_wanted (apStore demo_api) (acRuntime demo_cfg) demo_alice_row p" by blast
  moreover from demo_proc_wanted obtain p where "proc_wanted (apStore demo_api) (acRuntime demo_cfg) demo_alice_row p"
    and p: "npNode p = ''local''" "npKey p = uNPSVerifyKey demo_alice_row" by blast
  ultimately have "p \<in> set (lwPending s')" by simp
  moreover have "snd x = BootstrapReply b" using b by (metis snd_conv)
  ultimately show ?thesis unfolding x_def using s' p by (metis fst_conv)
qed

end
