(* ===== verification/FrpPorts.thy ===== *)
theory FrpPorts
  imports FrpUsers
begin

text \<open>
  The port manager of the embedded frp server
  (\<^verbatim>\<open>upstream/frp/server/ports/ports.go\<close>), one for tcp and one for udp. A
  \<^verbatim>\<open>PortCtx\<close> is shared by the maps \<^verbatim>\<open>usedPorts\<close> and \<^verbatim>\<open>reservedPorts\<close>, and
  \<^verbatim>\<open>Release\<close> writes through that pointer, so the model keeps the contexts in a store \<open>pmCtxs\<close>
  and the two maps hold addresses. The trial listen of \<^verbatim>\<open>isPortAvailable\<close> is the
  parameter \<open>paAvail\<close>; \<open>paRank\<close> is the order in which the range loop visits the free
  ports. Times are in nanoseconds.
\<close>

section \<open>The manager\<close>

definition MinPort :: int where "MinPort = 1"
definition MaxPort :: int where "MaxPort = 65535"
definition MaxPortReservedDuration :: int where "MaxPortReservedDuration = 24 * 3600 * 1000000000"

datatype port_error = ErrPortAlreadyUsed | ErrPortNotAllowed | ErrPortUnAvailable | ErrNoAvailablePort

record PortCtx =
  pcName :: string
  pcPort :: int
  pcClosed :: bool
  pcUpdateTime :: time

record PortManager =
  pmReserved :: "(string, nat) gomap"
  pmUsed :: "(int, nat) gomap"
  pmFree :: "(int, unit) gomap"
  pmCtxs :: "(nat, PortCtx) gomap"
  pmNext :: nat

record PortEnv =
  paNow :: time
  paAvail :: "int \<Rightarrow> bool"
  paRank :: "int \<Rightarrow> nat"

definition range_ports :: "FrpRange \<Rightarrow> int list" where
  "range_ports pair = (if 0 < frSingle pair then [frSingle pair] else [frStart pair..frEnd pair])"

definition free_ports :: "FrpRange list \<Rightarrow> (int, unit) gomap" where
  "free_ports allowPorts =
     fold (\<lambda>i m. mput i () m) (if allowPorts \<noteq> [] then concat (map range_ports allowPorts) else [MinPort..MaxPort]) []"

definition newManager :: "FrpRange list \<Rightarrow> PortManager" where
  "newManager allowPorts = \<lparr>pmReserved = [], pmUsed = [], pmFree = free_ports allowPorts, pmCtxs = [], pmNext = 0\<rparr>"

fun frp_portInRanges :: "int \<Rightarrow> FrpRange list \<Rightarrow> bool" where
  "frp_portInRanges port [] = False"
| "frp_portInRanges port (pair # ranges) =
     (if 0 < frSingle pair then (if port = frSingle pair then True else frp_portInRanges port ranges)
      else if frStart pair \<le> port \<and> port \<le> frEnd pair then True
      else frp_portInRanges port ranges)"

definition markPortAcquiredLocked :: "string \<Rightarrow> int \<Rightarrow> time \<Rightarrow> PortManager \<Rightarrow> PortManager" where
  "markPortAcquiredLocked name port now pm =
     (let a = pmNext pm in
      pm\<lparr>pmCtxs := mput a \<lparr>pcName = name, pcPort = port, pcClosed = False, pcUpdateTime = now\<rparr> (pmCtxs pm), pmNext := a + 1,
         pmUsed := mput port a (pmUsed pm), pmReserved := mput name a (pmReserved pm), pmFree := mdel port (pmFree pm)\<rparr>)"

text \<open>The random port: at most five allowed candidates are tried.\<close>

fun try_random :: "(int \<Rightarrow> bool) \<Rightarrow> FrpRange list \<Rightarrow> nat \<Rightarrow> int list \<Rightarrow> int option" where
  "try_random avail allowPorts count [] = None"
| "try_random avail allowPorts count (k # ks) =
     (if allowPorts \<noteq> [] \<and> \<not> frp_portInRanges k allowPorts then try_random avail allowPorts count ks
      else if 5 < count + 1 then None
      else if avail k then Some k
      else try_random avail allowPorts (count + 1) ks)"

definition reserved_port :: "PortManager \<Rightarrow> string \<Rightarrow> int option" where
  "reserved_port pm name = (case mget (pmReserved pm) name of None \<Rightarrow> None
     | Some a \<Rightarrow> map_option pcPort (mget (pmCtxs pm) a))"

definition acquire :: "PortEnv \<Rightarrow> string \<Rightarrow> int \<Rightarrow> FrpRange list \<Rightarrow> PortManager \<Rightarrow> PortManager \<times> (port_error + int)" where
  "acquire env name port allowPorts pm =
     (let mark = \<lambda>p. markPortAcquiredLocked name p (paNow env) pm;
          kept = (if port = 0 then Option.bind (reserved_port pm name) (\<lambda>p. if paAvail env p then Some p else None) else None)
      in case kept of
        Some p \<Rightarrow> (mark p, Inr p)
      | None \<Rightarrow>
          if port = 0 then
            (case try_random (paAvail env) allowPorts 0 (sort_key (paRank env) (map fst (pmFree pm))) of
               None \<Rightarrow> (pm, Inl ErrNoAvailablePort)
             | Some k \<Rightarrow> (mark k, if k = 0 then Inl ErrNoAvailablePort else Inr k))
          else if allowPorts \<noteq> [] \<and> \<not> frp_portInRanges port allowPorts then (pm, Inl ErrPortNotAllowed)
          else if mget (pmFree pm) port \<noteq> None then
            (if paAvail env port then (mark port, Inr port) else (pm, Inl ErrPortUnAvailable))
          else if mget (pmUsed pm) port \<noteq> None then (pm, Inl ErrPortAlreadyUsed)
          else (pm, Inl ErrPortNotAllowed))"

definition Acquire :: "PortEnv \<Rightarrow> string \<Rightarrow> int \<Rightarrow> PortManager \<Rightarrow> PortManager \<times> (port_error + int)" where
  "Acquire env name port pm = acquire env name port [] pm"

definition AcquireFromRanges :: "PortEnv \<Rightarrow> string \<Rightarrow> int \<Rightarrow> FrpRange list \<Rightarrow> PortManager \<Rightarrow> PortManager \<times> (port_error + int)" where
  "AcquireFromRanges env name port allowPorts pm = acquire env name port allowPorts pm"

definition Release :: "time \<Rightarrow> int \<Rightarrow> PortManager \<Rightarrow> PortManager" where
  "Release now port pm = (case mget (pmUsed pm) port of None \<Rightarrow> pm
     | Some a \<Rightarrow> pm\<lparr>pmFree := mput port () (pmFree pm), pmUsed := mdel port (pmUsed pm),
         pmCtxs := (case mget (pmCtxs pm) a of None \<Rightarrow> pmCtxs pm
           | Some ctx \<Rightarrow> mput a (ctx\<lparr>pcClosed := True, pcUpdateTime := now\<rparr>) (pmCtxs pm))\<rparr>)"

definition cleanReservedPortsOnce :: "time \<Rightarrow> PortManager \<Rightarrow> PortManager" where
  "cleanReservedPortsOnce now pm = pm\<lparr>pmReserved := mfilter (\<lambda>_ a. case mget (pmCtxs pm) a of None \<Rightarrow> True
     | Some ctx \<Rightarrow> \<not> (pcClosed ctx \<and> MaxPortReservedDuration < now - pcUpdateTime ctx)) (pmReserved pm)\<rparr>"

section \<open>The steps\<close>

text \<open>
  The mutex of the manager makes each operation one step; nothing is assumed of the trial listens. Between
  \<^verbatim>\<open>Acquire\<close> and the listen of the proxy a port is in use and not bound. \<open>honest\<close> says that at the moment of an
  acquisition every port in use is bound, so that a trial listen on it fails; the steps below do not ask for it.
\<close>

definition honest :: "PortEnv \<Rightarrow> PortManager \<Rightarrow> bool" where
  "honest env pm \<longleftrightarrow> (\<forall>p. mget (pmUsed pm) p \<noteq> None \<longrightarrow> \<not> paAvail env p)"

inductive port_step :: "PortManager \<Rightarrow> PortManager \<Rightarrow> bool" where
  acquired: "port_step pm (fst (acquire env name port allowPorts pm))"
| released: "port_step pm (Release now port pm)"
| cleaned: "port_step pm (cleanReservedPortsOnce now pm)"

inductive ports_reachable :: "FrpRange list \<Rightarrow> PortManager \<Rightarrow> bool" for ranges where
  new: "ports_reachable ranges (newManager ranges)"
| step: "ports_reachable ranges pm \<Longrightarrow> port_step pm pm' \<Longrightarrow> ports_reachable ranges pm'"

inductive_cases port_stepE: "port_step pm pm'"

end
