(* ===== verification/FrpVhost.thy ===== *)
theory FrpVhost
  imports CoreTypes
begin

text \<open>
  The routing table of the frp server's virtual hosts (\<^verbatim>\<open>upstream/frp/pkg/util/vhost/router.go\<close>):
  routers by domain and HTTP user, in descending order of their locations, and the search of the
  router for a request. The payload is any object. The order of strings is that of their bytes.
\<close>

section \<open>The table\<close>

record 'p Router =
  rtDomain :: string
  rtLocation :: string
  rtHTTPUser :: string
  rtPayload :: 'p

type_synonym 'p Routers = "(string, (string, 'p Router list) gomap) gomap"

definition router_list :: "'p Routers \<Rightarrow> string \<Rightarrow> string \<Rightarrow> 'p Router list" where
  "router_list rs host httpUser = (case mget rs host of None \<Rightarrow> []
     | Some m \<Rightarrow> (case mget m httpUser of None \<Rightarrow> [] | Some vrs \<Rightarrow> vrs))"

definition router_exist :: "'p Routers \<Rightarrow> string \<Rightarrow> string \<Rightarrow> string \<Rightarrow> 'p Router option" where
  "router_exist rs host path httpUser = find (\<lambda>vr. path = rtLocation vr) (router_list rs host httpUser)"

text \<open>\<open>None\<close> is \<^verbatim>\<open>ErrRouterConfigConflict\<close>. The locations in one list differ, so the sort has one result.\<close>

definition routers_Add :: "string \<Rightarrow> string \<Rightarrow> string \<Rightarrow> 'p \<Rightarrow> 'p Routers \<Rightarrow> 'p Routers option" where
  "routers_Add domain0 location httpUser payload rs =
     (let domain = to_lower domain0 in
      if router_exist rs domain location httpUser \<noteq> None then None
      else let m = (case mget rs domain of None \<Rightarrow> [] | Some m \<Rightarrow> m);
               vrs = (case mget m httpUser of None \<Rightarrow> [] | Some vrs \<Rightarrow> vrs);
               vr = \<lparr>rtDomain = domain, rtLocation = location, rtHTTPUser = httpUser, rtPayload = payload\<rparr>
           in Some (mput domain (mput httpUser (rev (sort_key rtLocation (vrs @ [vr]))) m) rs))"

definition routers_Del :: "string \<Rightarrow> string \<Rightarrow> string \<Rightarrow> 'p Routers \<Rightarrow> 'p Routers" where
  "routers_Del domain0 location httpUser rs =
     (let domain = to_lower domain0 in
      (case mget rs domain of
         None \<Rightarrow> rs
       | Some m \<Rightarrow> (case mget m httpUser of
             None \<Rightarrow> rs
           | Some vrs \<Rightarrow> mput domain (mput httpUser (filter (\<lambda>vr. rtLocation vr \<noteq> location) vrs) m) rs)))"

definition getLocked :: "'p Routers \<Rightarrow> string \<Rightarrow> string \<Rightarrow> string \<Rightarrow> 'p Router option" where
  "getLocked rs host path httpUser = find (\<lambda>vr. has_prefix path (rtLocation vr)) (router_list rs host httpUser)"

definition routers_Get :: "'p Routers \<Rightarrow> string \<Rightarrow> string \<Rightarrow> string \<Rightarrow> 'p Router option" where
  "routers_Get rs host path httpUser = getLocked rs (to_lower host) path httpUser"

definition getExactOrAllUsersLocked :: "'p Routers \<Rightarrow> string \<Rightarrow> string \<Rightarrow> string \<Rightarrow> 'p Router option" where
  "getExactOrAllUsersLocked rs host path httpUser =
     (case getLocked rs host path httpUser of
        Some vr \<Rightarrow> Some vr
      | None \<Rightarrow> getLocked rs host path [])"

text \<open>The loop over the labels of the host, the leftmost of which becomes the wildcard.\<close>

function wildcard_walk :: "'p Routers \<Rightarrow> string list \<Rightarrow> string \<Rightarrow> string \<Rightarrow> 'p Router option" where
  "wildcard_walk rs hostSplit path httpUser =
     (if 3 \<le> length hostSplit then
        (case getExactOrAllUsersLocked rs (join ''.'' (''*'' # tl hostSplit)) path httpUser of
           Some vr \<Rightarrow> Some vr
         | None \<Rightarrow> wildcard_walk rs (tl hostSplit) path httpUser)
      else None)"
  by pat_completeness auto

termination by (relation "measure (\<lambda>(_, hostSplit, _, _). length hostSplit)") auto

declare wildcard_walk.simps [simp del]

definition getByRoute :: "'p Routers \<Rightarrow> string \<Rightarrow> string \<Rightarrow> string \<Rightarrow> 'p Router option" where
  "getByRoute rs host0 path httpUser =
     (let host = to_lower host0 in
      (case getExactOrAllUsersLocked rs host path httpUser of
         Some vr \<Rightarrow> Some vr
       | None \<Rightarrow> (case wildcard_walk rs (split_on CHR ''.'' host) path httpUser of
             Some vr \<Rightarrow> Some vr
           | None \<Rightarrow> getExactOrAllUsersLocked rs ''*'' path httpUser)))"

section \<open>The abstract table\<close>

text \<open>A route is a lower-case domain, a location and an HTTP user; the table maps routes to payloads.\<close>

definition routes_of :: "'p Routers \<Rightarrow> string \<times> string \<times> string \<Rightarrow> 'p option" where
  "routes_of rs = (\<lambda>(d, l, u). map_option rtPayload (router_exist rs d l u))"

definition list_ok :: "string \<Rightarrow> string \<Rightarrow> 'p Router list \<Rightarrow> bool" where
  "list_ok d u vrs \<longleftrightarrow> sorted (rev (map rtLocation vrs)) \<and> distinct (map rtLocation vrs) \<and>
     (\<forall>vr \<in> set vrs. rtDomain vr = d \<and> rtHTTPUser vr = u)"

definition routers_ok :: "'p Routers \<Rightarrow> bool" where
  "routers_ok rs \<longleftrightarrow> (\<forall>d u. list_ok d u (router_list rs d u))"

lemma routers_ok_empty: "routers_ok []"
  by (simp add: routers_ok_def router_list_def list_ok_def)

lemma router_exist_None: "router_exist rs d l u = None \<longleftrightarrow> l \<notin> rtLocation ` set (router_list rs d u)"
  by (auto simp: router_exist_def find_None_iff)

lemma router_exist_Some:
  "routers_ok rs \<Longrightarrow> router_exist rs d l u = Some vr \<longleftrightarrow> vr \<in> set (router_list rs d u) \<and> rtLocation vr = l"
proof -
  assume "routers_ok rs"
  then have "distinct (map rtLocation (router_list rs d u))" by (simp add: routers_ok_def list_ok_def)
  then show ?thesis unfolding router_exist_def
    by (induction "router_list rs d u" rule: rev_induct) (auto simp: find_Some_iff in_set_conv_nth distinct_conv_nth)
qed


lemma router_list_put:
  "router_list (mput d (mput u vrs (case mget rs d of None \<Rightarrow> [] | Some m \<Rightarrow> m)) rs) d' u' =
     (if d' = d \<and> u' = u then vrs else router_list rs d' u')"
  by (auto simp: router_list_def gomap_simps split: option.split)

lemma routers_Add_Some:
  "routers_Add d l u p rs = Some rs' \<longleftrightarrow> router_exist rs (to_lower d) l u = None \<and>
     rs' = (let vrs = rev (sort_key rtLocation (router_list rs (to_lower d) u @
               [\<lparr>rtDomain = to_lower d, rtLocation = l, rtHTTPUser = u, rtPayload = p\<rparr>]))
            in mput (to_lower d) (mput u vrs (case mget rs (to_lower d) of None \<Rightarrow> [] | Some m \<Rightarrow> m)) rs)"
proof -
  have "(case mget (case mget rs x of None \<Rightarrow> [] | Some m \<Rightarrow> m) u of None \<Rightarrow> [] | Some vrs \<Rightarrow> vrs) = router_list rs x u" for x
    by (simp add: router_list_def split: option.split)
  then show ?thesis by (auto simp: routers_Add_def Let_def)
qed

lemma routers_Add_list:
  assumes "routers_Add d l u p rs = Some rs'"
  shows "router_list rs' d' u' = (if d' = to_lower d \<and> u' = u
    then rev (sort_key rtLocation (router_list rs (to_lower d) u @ [\<lparr>rtDomain = to_lower d, rtLocation = l, rtHTTPUser = u, rtPayload = p\<rparr>]))
    else router_list rs d' u')"
  using assms unfolding routers_Add_Some Let_def by (simp add: router_list_put)

lemma routers_Del_list:
  "router_list (routers_Del d l u rs) d' u' = (if d' = to_lower d \<and> u' = u
     then filter (\<lambda>vr. rtLocation vr \<noteq> l) (router_list rs d' u') else router_list rs d' u')"
  by (auto simp: routers_Del_def router_list_def gomap_simps split: option.split)

lemma routers_Add_ok:
  assumes ok: "routers_ok rs" and add: "routers_Add d l u p rs = Some rs'" shows "routers_ok rs'"
proof -
  have new: "l \<notin> rtLocation ` set (router_list rs (to_lower d) u)" using add by (simp add: routers_Add_Some router_exist_None)
  then have "\<lparr>rtDomain = to_lower d, rtLocation = l, rtHTTPUser = u, rtPayload = p\<rparr> \<notin> set (router_list rs (to_lower d) u)" by force
  with ok new show ?thesis
    unfolding routers_ok_def routers_Add_list [OF add] list_ok_def
    by (auto simp: rev_map [symmetric] distinct_map inj_on_def)
qed

lemma sorted_rev_filter: "sorted (rev (map f xs)) \<Longrightarrow> sorted (rev (map f (filter P xs)))"
  by (simp only: rev_map rev_filter) (rule sorted_filter)

lemma routers_Del_ok: "routers_ok rs \<Longrightarrow> routers_ok (routers_Del d l u rs)"
  unfolding routers_ok_def routers_Del_list list_ok_def by (auto simp: sorted_rev_filter distinct_map_filter)

section \<open>Adding and removing routes\<close>

lemma routes_of_Some:
  "routers_ok rs \<Longrightarrow> routes_of rs (d, l, u) = Some p \<longleftrightarrow>
     (\<exists>vr \<in> set (router_list rs d u). rtLocation vr = l \<and> rtPayload vr = p)"
  by (auto simp: routes_of_def router_exist_Some)

lemma routes_of_add:
  assumes ok: "routers_ok rs" and add: "routers_Add d l u p rs = Some rs'"
  shows "routes_of rs' = (routes_of rs)((to_lower d, l, u) \<mapsto> p)"
proof
  fix r :: "string \<times> string \<times> string"
  obtain d' l' u' where r: "r = (d', l', u')" by (cases r)
  have new: "l \<notin> rtLocation ` set (router_list rs (to_lower d) u)" using add by (simp add: routers_Add_Some router_exist_None)
  have "routes_of rs' (d', l', u') = Some q \<longleftrightarrow> ((routes_of rs)((to_lower d, l, u) \<mapsto> p)) (d', l', u') = Some q" for q
    using new by (auto simp: routes_of_Some [OF routers_Add_ok [OF ok add]] routes_of_Some [OF ok] routers_Add_list [OF add])
  then show "routes_of rs' r = ((routes_of rs)((to_lower d, l, u) \<mapsto> p)) r" unfolding r by (metis option.exhaust)
qed

lemma routes_of_del:
  assumes ok: "routers_ok rs"
  shows "routes_of (routers_Del d l u rs) = (routes_of rs)((to_lower d, l, u) := None)"
proof
  fix r :: "string \<times> string \<times> string"
  obtain d' l' u' where r: "r = (d', l', u')" by (cases r)
  have "routes_of (routers_Del d l u rs) (d', l', u') = Some q \<longleftrightarrow> ((routes_of rs)((to_lower d, l, u) := None)) (d', l', u') = Some q" for q
    by (auto simp: routes_of_Some [OF routers_Del_ok [OF ok]] routes_of_Some [OF ok] routers_Del_list)
  then show "routes_of (routers_Del d l u rs) r = ((routes_of rs)((to_lower d, l, u) := None)) r" unfolding r by (metis option.exhaust)
qed

lemma routes_of_free: "routes_of rs (to_lower d, l, u) = None \<longleftrightarrow> routers_Add d l u p rs \<noteq> None"
  by (simp add: routes_of_def routers_Add_def Let_def)

inductive routers_reachable :: "'p Routers \<Rightarrow> bool" where
  new: "routers_reachable []"
| added: "routers_reachable rs \<Longrightarrow> routers_Add d l u p rs = Some rs' \<Longrightarrow> routers_reachable rs'"
| removed: "routers_reachable rs \<Longrightarrow> routers_reachable (routers_Del d l u rs)"

lemma routers_reachable_ok: "routers_reachable rs \<Longrightarrow> routers_ok rs"
  by (induction rule: routers_reachable.induct) (auto intro: routers_ok_empty routers_Add_ok routers_Del_ok)

text \<open>The table of routers is a map from routes to payloads: adding a route conflicts exactly when the route is in the
  map, and otherwise puts it there and changes no other; removing a route removes that one alone.\<close>

theorem routers_refine_map:
  assumes "routers_reachable rs"
  shows "(case routers_Add d l u p rs of
      None \<Rightarrow> routes_of rs (to_lower d, l, u) \<noteq> None
    | Some rs' \<Rightarrow> routes_of rs (to_lower d, l, u) = None \<and> routes_of rs' = (routes_of rs)((to_lower d, l, u) \<mapsto> p)) \<and>
    routes_of (routers_Del d l u rs) = (routes_of rs)((to_lower d, l, u) := None)"
proof -
  note ok = routers_reachable_ok [OF assms]
  show ?thesis
    using routes_of_free [of rs d l u p] routes_of_add [OF ok, of d l u p] routes_of_del [OF ok, of d l u]
    by (cases "routers_Add d l u p rs") auto
qed

section \<open>The route of a request\<close>

lemma prefix_le: "take (length a) b = a \<Longrightarrow> a \<le> (b :: string)"
proof (induction a arbitrary: b)
  case (Cons x a)
  then show ?case by (cases b) auto
qed simp

lemma longer_prefix:
  assumes "has_prefix path a" "has_prefix path b" "b \<le> a" shows "length b \<le> length a"
proof (rule ccontr)
  assume "\<not> length b \<le> length a"
  with assms(1,2) have "take (length a) b = a"
    unfolding has_prefix_def by (metis min.absorb1 nat_le_linear take_take)
  then have "a \<le> b" by (rule prefix_le)
  with assms(3) have "a = b" by simp
  with \<open>\<not> length b \<le> length a\<close> show False by simp
qed

text \<open>\<open>best_at\<close>: the routes of one domain and user that match a path, longest location first.\<close>

definition best_at :: "(string \<times> string \<times> string \<Rightarrow> 'p option) \<Rightarrow> string \<Rightarrow> string \<Rightarrow> string \<Rightarrow> 'p Router \<Rightarrow> bool" where
  "best_at routes d path u vr \<longleftrightarrow> routes (d, rtLocation vr, u) = Some (rtPayload vr) \<and> has_prefix path (rtLocation vr) \<and>
     (\<forall>l. routes (d, l, u) \<noteq> None \<longrightarrow> has_prefix path l \<longrightarrow> length l \<le> length (rtLocation vr))"

definition no_route :: "(string \<times> string \<times> string \<Rightarrow> 'p option) \<Rightarrow> string \<Rightarrow> string \<Rightarrow> string \<Rightarrow> bool" where
  "no_route routes d path u \<longleftrightarrow> (\<forall>l. has_prefix path l \<longrightarrow> routes (d, l, u) = None)"

lemma getLocked_best:
  assumes ok: "routers_ok rs"
  shows "(case getLocked rs d path u of None \<Rightarrow> no_route (routes_of rs) d path u | Some vr \<Rightarrow> best_at (routes_of rs) d path u vr)"
proof (cases "getLocked rs d path u")
  case None
  have "routes_of rs (d, l, u) = None" if "has_prefix path l" for l
    using None that routes_of_Some [OF ok, of d l u] unfolding getLocked_def find_None_iff by (metis option.exhaust)
  with None show ?thesis by (simp add: no_route_def)
next
  case (Some vr)
  let ?vrs = "router_list rs d u"
  from Some obtain i where i: "i < length ?vrs" "vr = ?vrs ! i" "has_prefix path (rtLocation vr)"
    "\<And>j. j < i \<Longrightarrow> \<not> has_prefix path (rtLocation (?vrs ! j))"
    unfolding getLocked_def find_Some_iff by auto
  have sorted: "sorted (rev (map rtLocation ?vrs))" using ok by (simp add: routers_ok_def list_ok_def)
  have "length l \<le> length (rtLocation vr)" if r: "routes_of rs (d, l, u) \<noteq> None" "has_prefix path l" for l
  proof -
    from r(1) routes_of_Some [OF ok, of d l u] obtain w where "w \<in> set ?vrs" "rtLocation w = l" by auto
    then obtain j where j: "j < length ?vrs" "?vrs ! j = w" by (auto simp: in_set_conv_nth)
    with i(4) r(2) \<open>rtLocation w = l\<close> have "i \<le> j" by (meson not_le_imp_less)
    with sorted j(1) have "rtLocation (?vrs ! j) \<le> rtLocation (?vrs ! i)"
      by (simp add: sorted_rev_iff_nth_mono)
    with j(2) \<open>rtLocation w = l\<close> i(2) have "l \<le> rtLocation vr" by simp
    with longer_prefix [OF i(3) r(2)] show ?thesis by simp
  qed
  moreover have "routes_of rs (d, rtLocation vr, u) = Some (rtPayload vr)"
    using routes_of_Some [OF ok] i(1,2) by (auto intro: nth_mem)
  ultimately show ?thesis using Some i(3) by (simp add: best_at_def)
qed


text \<open>The domains a host is looked up under, each with the user of the request and then with none.\<close>

definition search_domains :: "string \<Rightarrow> string list" where
  "search_domains host =
     (let labels = split_on CHR ''.'' host
      in host # map (\<lambda>i. join ''.'' (''*'' # drop (Suc i) labels)) [0..<length labels - 2] @ [''*''])"

definition search_order :: "string \<Rightarrow> string \<Rightarrow> (string \<times> string) list" where
  "search_order host httpUser = concat (map (\<lambda>d. [(d, httpUser), (d, [])]) (search_domains (to_lower host)))"

fun first_route :: "'p Routers \<Rightarrow> string \<Rightarrow> (string \<times> string) list \<Rightarrow> 'p Router option" where
  "first_route rs path [] = None"
| "first_route rs path ((d, u) # keys) = (case getLocked rs d path u of Some vr \<Rightarrow> Some vr | None \<Rightarrow> first_route rs path keys)"

lemma first_route_append: "first_route rs path (xs @ ys) = (case first_route rs path xs of Some vr \<Rightarrow> Some vr | None \<Rightarrow> first_route rs path ys)"
  by (induction xs) (auto split: option.split)

lemma first_route_pair: "first_route rs path [(d, u), (d, [])] = getExactOrAllUsersLocked rs d path u"
  by (simp add: getExactOrAllUsersLocked_def split: option.split)

lemma wildcard_walk_first:
  "wildcard_walk rs labels path u = first_route rs path (concat (map (\<lambda>d. [(d, u), (d, [])])
     (map (\<lambda>i. join ''.'' (''*'' # drop (Suc i) labels)) [0..<length labels - 2])))"
proof (induction rs labels path u rule: wildcard_walk.induct)
  case (1 rs labels path u)
  show ?case
  proof (cases "3 \<le> length labels")
    case False
    then have "length labels - 2 = 0" by simp
    with False show ?thesis by (simp add: wildcard_walk.simps [of rs labels])
  next
    case True
    then obtain m where m: "length labels - 2 = Suc m" "length (tl labels) - 2 = m"
      using that [of "length labels - 3"] by simp
    have "[0..<length labels - 2] = 0 # map Suc [0..<length (tl labels) - 2]"
      unfolding m map_Suc_upt by (rule upt_conv_Cons) simp
    then have doms: "map (\<lambda>i. join ''.'' (''*'' # drop (Suc i) labels)) [0..<length labels - 2] =
      join ''.'' (''*'' # tl labels) # map (\<lambda>i. join ''.'' (''*'' # drop (Suc i) (tl labels))) [0..<length (tl labels) - 2]"
      by (simp only: list.map map_map comp_def drop_Suc drop_0)
    show ?thesis
    proof (cases "getExactOrAllUsersLocked rs (join ''.'' (''*'' # tl labels)) path u")
      case None
      with 1 [OF True None] show ?thesis
        unfolding doms list.map concat.simps first_route_append first_route_pair wildcard_walk.simps [of rs labels] if_P [OF True]
        by (simp only: option.case)
    next
      case (Some vr)
      then show ?thesis
        unfolding doms list.map concat.simps first_route_append first_route_pair wildcard_walk.simps [of rs labels] if_P [OF True]
        by (simp only: option.case)
    qed
  qed
qed

lemma getByRoute_first: "getByRoute rs host path u = first_route rs path (search_order host u)"
  by (simp add: getByRoute_def search_order_def search_domains_def Let_def wildcard_walk_first first_route_append
    getExactOrAllUsersLocked_def comp_def split: option.split)

lemma first_route_spec:
  assumes "routers_ok rs"
  shows "(case first_route rs path keys of
      None \<Rightarrow> \<forall>(d, u) \<in> set keys. no_route (routes_of rs) d path u
    | Some vr \<Rightarrow> \<exists>before d u after. keys = before @ (d, u) # after \<and> best_at (routes_of rs) d path u vr \<and>
        (\<forall>(d', u') \<in> set before. no_route (routes_of rs) d' path u'))"
proof (induction keys)
  case (Cons k keys)
  obtain d u where k: "k = (d, u)" by (cases k)
  note b = getLocked_best [OF assms, of d path u]
  show ?case
  proof (cases "getLocked rs d path u")
    case (Some vr)
    then have "first_route rs path (k # keys) = Some vr" by (simp add: k)
    moreover have "k # keys = [] @ (d, u) # keys" by (simp add: k)
    ultimately show ?thesis using b Some by (simp only: option.case) (metis empty_iff empty_set)
  next
    case None
    show ?thesis
    proof (cases "first_route rs path keys")
      case (Some vr)
      with Cons.IH obtain before d' u' after where "keys = before @ (d', u') # after" "best_at (routes_of rs) d' path u' vr"
        "\<forall>(d', u') \<in> set before. no_route (routes_of rs) d' path u'" by auto
      moreover from this have "k # keys = ((d, u) # before) @ (d', u') # after" by (simp add: k)
      moreover have "first_route rs path (k # keys) = Some vr" using None Some by (simp add: k)
      moreover have "\<forall>(d', u') \<in> set ((d, u) # before). no_route (routes_of rs) d' path u'" using calculation(3) None b by simp
      ultimately show ?thesis by (simp only: option.case) blast
    qed (use None b k Cons.IH in simp)
  qed
qed simp

text \<open>C15. The route of a request: the host is looked up as it is, then under its wildcard domains from the most to the least
  specific, then under the catch-all domain, each time for the user of the request and then for all users; the first of
  these with a location that is a prefix of the path gives the route, and the location is the longest such one.\<close>

theorem getByRoute_longest_prefix:
  assumes "routers_reachable rs"
  shows "(case getByRoute rs host path httpUser of
      None \<Rightarrow> \<forall>(d, u) \<in> set (search_order host httpUser). no_route (routes_of rs) d path u
    | Some vr \<Rightarrow> \<exists>before d u after. search_order host httpUser = before @ (d, u) # after \<and> best_at (routes_of rs) d path u vr \<and>
        (\<forall>(d', u') \<in> set before. no_route (routes_of rs) d' path u'))"
  unfolding getByRoute_first by (rule first_route_spec [OF routers_reachable_ok [OF assms]])

section \<open>Witnesses\<close>

definition demo_routes :: "nat Routers" where
  "demo_routes = the (routers_Add ''*.Example.com'' ''/api'' [] 2 (the (routers_Add ''*.example.com'' ''/'' [] 1 [])))"

lemma demo_routes_reachable: "routers_reachable demo_routes"
proof -
  have "routers_Add ''*.example.com'' ''/'' [] (1 :: nat) [] = Some (the (routers_Add ''*.example.com'' ''/'' [] 1 []))" by code_simp
  moreover have "routers_Add ''*.Example.com'' ''/api'' [] 2 (the (routers_Add ''*.example.com'' ''/'' [] (1 :: nat) [])) = Some demo_routes"
    by code_simp
  ultimately show ?thesis by (blast intro: routers_reachable.intros)
qed

theorem routers_refine_map_witness:
  "routes_of (routers_Del ''*.EXAMPLE.com'' ''/api'' [] demo_routes) (''*.example.com'', ''/api'', []) = None"
proof -
  have "to_lower ''*.EXAMPLE.com'' = ''*.example.com''" by code_simp
  with routers_refine_map [OF demo_routes_reachable, of "''*.EXAMPLE.com''" "''/api''" "[]" 3, THEN conjunct2] show ?thesis by simp
qed

theorem getByRoute_longest_prefix_witness:
  "\<exists>vr before d u after. getByRoute demo_routes ''www.Example.com'' ''/api/v1'' ''bob'' = Some vr \<and> rtPayload vr = 2 \<and>
     search_order ''www.Example.com'' ''bob'' = before @ (d, u) # after \<and> best_at (routes_of demo_routes) d ''/api/v1'' u vr"
proof -
  have "map_option rtPayload (getByRoute demo_routes ''www.Example.com'' ''/api/v1'' ''bob'') = Some 2" by code_simp
  then obtain vr where vr: "getByRoute demo_routes ''www.Example.com'' ''/api/v1'' ''bob'' = Some vr" "rtPayload vr = 2" by auto
  from getByRoute_longest_prefix [where rs = demo_routes and host = "''www.Example.com''" and path = "''/api/v1''" and httpUser = "''bob''", OF demo_routes_reachable] vr
  show ?thesis unfolding vr(1) option.case by blast
qed

end
