(* ===== verification/FrpProxies.thy ===== *)
theory FrpProxies
  imports FrpPorts FrpVhost
begin

text \<open>
  The proxies of the frp server (\<^verbatim>\<open>upstream/frp/server/proxy\<close>: tcp, udp, http and https) with the
  resources they take: ports, listening sockets, routes and the groups of
  \<^verbatim>\<open>upstream/frp/server/group\<close>. A proxy object and a listener are known by a serial number, as the
  code knows them by their pointers. A handler runs as one step; a group object is then never
  stale. Moving bytes is not modelled.
\<close>

section \<open>State\<close>

datatype proxy_type = TCPProxyType | UDPProxyType | HTTPProxyType | HTTPSProxyType

record ProxyConf =
  pfName :: string
  pfType :: proxy_type
  pfGroup :: string
  pfGroupKey :: string
  pfRemotePort :: int
  pfCustomDomains :: "string list"
  pfSubDomain :: string
  pfLocations :: "string list"
  pfRouteByHTTPUser :: string

text \<open>What a proxy has to undo: its listeners and its close functions.\<close>

datatype listener =
    PortListener int
  | TcpGroupListener string nat
  | MuxListener string
  | HttpsGroupListener string nat

datatype closer = HttpRoute string string string | HttpGroupMember string

record FrpProxy =
  pxID :: nat
  pxConf :: ProxyConf
  pxUser :: string
  pxRealPort :: int
  pxListeners :: "listener list"
  pxClosers :: "closer list"

text \<open>Where a route leads: to a proxy, or to a group.\<close>

datatype target = ToProxy nat | ToGroup string

record TcpGroup =
  tgGroup :: string
  tgKey :: string
  tgAddr :: string
  tgPort :: int
  tgRealPort :: int
  tgLns :: "nat list"

record HttpGroup =
  hgGroup :: string
  hgKey :: string
  hgDomain :: string
  hgLocation :: string
  hgUser :: string
  hgMembers :: "(string, nat) gomap"
  hgNames :: "string list"

record HttpsGroup =
  sgGroup :: string
  sgKey :: string
  sgDomain :: string
  sgLns :: "nat list"

record FrpServer =
  fvUsers :: "FrpStore option"
  fvMaxPortsPerClient :: int
  fvSubDomainHost :: string
  fvBindAddr :: string
  fvTCP :: PortManager
  fvUDP :: PortManager
  fvTcpBound :: "int list"
  fvUdpBound :: "int list"
  fvUdpLate :: "int list"
  fvTcpGroups :: "(string, TcpGroup) gomap"
  fvHttp :: "target Routers"
  fvHttpGroups :: "(string, HttpGroup) gomap"
  fvHttps :: "target Routers"
  fvHttpsGroups :: "(string, HttpsGroup) gomap"
  fvPxys :: "(string, FrpProxy) gomap"
  fvNext :: nat

text \<open>
  \<open>fvUdpLate\<close> are the ports of closed udp proxies whose goroutine that forwards packets has
  not ended yet. What the operating system answers: \<open>reBusy\<close> are the ports other programs hold,
  \<open>reListens\<close> says whether the real listen after the trial succeeds.
\<close>

record RunEnv =
  reNow :: time
  reBusy :: "int \<Rightarrow> bool"
  reListens :: "int \<Rightarrow> bool"
  reRank :: "int \<Rightarrow> nat"

datatype run_error =
    PortError port_error
  | NoPortPool string
  | AcquireError int port_error
  | ListenError
  | RouterConflict
  | DomainOutsidePool string
  | GroupParamsInvalid
  | GroupDifferentPort
  | GroupAuthFailed
  | ProxyRepeated

definition port_env :: "RunEnv \<Rightarrow> int list \<Rightarrow> PortEnv" where
  "port_env env bound = \<lparr>paNow = reNow env, paAvail = (\<lambda>p. \<not> reBusy env p \<and> p \<notin> set bound), paRank = reRank env\<rparr>"

section \<open>The user's pools\<close>

definition sessionUserStoreEnabled :: "FrpServer \<Rightarrow> bool" where
  "sessionUserStoreEnabled s \<longleftrightarrow> fvUsers s \<noteq> None"

definition sessionUserPorts :: "FrpServer \<Rightarrow> string \<Rightarrow> FrpRange list" where
  "sessionUserPorts s user = (case fvUsers s of None \<Rightarrow> [] | Some st \<Rightarrow> UserPorts st user)"

definition sessionUserDomains :: "FrpServer \<Rightarrow> string \<Rightarrow> string list" where
  "sessionUserDomains s user = (case fvUsers s of None \<Rightarrow> [] | Some st \<Rightarrow> UserDomains st user)"

definition buildDomains :: "FrpServer \<Rightarrow> string list \<Rightarrow> string \<Rightarrow> string list" where
  "buildDomains s customDomains subDomain =
     filter (\<lambda>d. d \<noteq> []) customDomains @ (if subDomain \<noteq> [] then [subDomain @ ''.'' @ fvSubDomainHost s] else [])"

definition frp_clean_domain :: "string \<Rightarrow> string" where
  "frp_clean_domain d = trim_suffix (to_lower (trim_space d)) ''.''"

fun frp_domain_loop :: "string \<Rightarrow> string list \<Rightarrow> bool" where
  "frp_domain_loop domain [] = False"
| "frp_domain_loop domain (pool0 # pools) =
     (let pool = frp_clean_domain pool0 in
      if pool = ''*'' \<or> pool = domain then True
      else if has_prefix pool ''*.'' \<and> domain \<noteq> trim_prefix pool ''*.'' \<and> has_suffix domain (''.'' @ trim_prefix pool ''*.'') then True
      else frp_domain_loop domain pools)"

definition domainAllowed :: "string \<Rightarrow> string list \<Rightarrow> bool" where
  "domainAllowed domain pools = frp_domain_loop (frp_clean_domain domain) pools"

definition validateUserDomains :: "FrpServer \<Rightarrow> string \<Rightarrow> string list \<Rightarrow> run_error option" where
  "validateUserDomains s user domains =
     (if \<not> sessionUserStoreEnabled s then None
      else map_option DomainOutsidePool (find (\<lambda>d. \<not> domainAllowed d (sessionUserDomains s user)) domains))"

section \<open>Groups\<close>

definition new_TcpGroup :: TcpGroup where
  "new_TcpGroup = \<lparr>tgGroup = [], tgKey = [], tgAddr = [], tgPort = 0, tgRealPort = 0, tgLns = []\<rparr>"

definition tcp_group_listen :: "RunEnv \<Rightarrow> string \<Rightarrow> string \<Rightarrow> string \<Rightarrow> string \<Rightarrow> int \<Rightarrow> FrpServer \<Rightarrow> FrpServer \<times> (run_error + nat \<times> int)" where
  "tcp_group_listen env proxyName grp groupKey addr port s =
     (let tg = (case mget (fvTcpGroups s) grp of None \<Rightarrow> new_TcpGroup | Some g \<Rightarrow> g);
          s0 = s\<lparr>fvTcpGroups := mput grp tg (fvTcpGroups s)\<rparr>;
          ln = fvNext s
      in if tgLns tg = [] then
           (case Acquire (port_env env (fvTcpBound s)) proxyName port (fvTCP s) of
              (pm, Inl e) \<Rightarrow> (s0\<lparr>fvTCP := pm\<rparr>, Inl (PortError e))
            | (pm, Inr realPort) \<Rightarrow>
                if \<not> reListens env realPort then (s0\<lparr>fvTCP := Release (reNow env) realPort pm\<rparr>, Inl ListenError)
                else (s0\<lparr>fvTCP := pm, fvTcpBound := realPort # fvTcpBound s, fvNext := ln + 1,
                       fvTcpGroups := mput grp \<lparr>tgGroup = grp, tgKey = groupKey, tgAddr = addr, tgPort = port,
                         tgRealPort = realPort, tgLns = [ln]\<rparr> (fvTcpGroups s)\<rparr>, Inr (ln, realPort)))
         else if tgGroup tg \<noteq> grp \<or> tgAddr tg \<noteq> addr then (s0, Inl GroupParamsInvalid)
         else if tgPort tg \<noteq> port then (s0, Inl GroupDifferentPort)
         else if tgKey tg \<noteq> groupKey then (s0, Inl GroupAuthFailed)
         else (s0\<lparr>fvNext := ln + 1, fvTcpGroups := mput grp (tg\<lparr>tgLns := tgLns tg @ [ln]\<rparr>) (fvTcpGroups s)\<rparr>,
               Inr (ln, tgRealPort tg)))"

definition tcp_group_close :: "time \<Rightarrow> string \<Rightarrow> nat \<Rightarrow> FrpServer \<Rightarrow> FrpServer" where
  "tcp_group_close now grp ln s = (case mget (fvTcpGroups s) grp of None \<Rightarrow> s
     | Some tg \<Rightarrow>
         let lns = remove1 ln (tgLns tg)
         in if lns = [] then s\<lparr>fvTcpBound := remove1 (tgRealPort tg) (fvTcpBound s), fvTCP := Release now (tgRealPort tg) (fvTCP s),
              fvTcpGroups := mdel grp (fvTcpGroups s)\<rparr>
            else s\<lparr>fvTcpGroups := mput grp (tg\<lparr>tgLns := lns\<rparr>) (fvTcpGroups s)\<rparr>)"

definition new_HttpGroup :: HttpGroup where
  "new_HttpGroup = \<lparr>hgGroup = [], hgKey = [], hgDomain = [], hgLocation = [], hgUser = [], hgMembers = [], hgNames = []\<rparr>"

definition http_group_register :: "string \<Rightarrow> nat \<Rightarrow> string \<Rightarrow> string \<Rightarrow> string \<Rightarrow> string \<Rightarrow> string \<Rightarrow> FrpServer \<Rightarrow> FrpServer \<times> run_error option" where
  "http_group_register proxyName px grp groupKey domain location user s =
     (let g = (case mget (fvHttpGroups s) grp of None \<Rightarrow> new_HttpGroup | Some g \<Rightarrow> g);
          s0 = s\<lparr>fvHttpGroups := mput grp g (fvHttpGroups s)\<rparr>;
          enter = \<lambda>g. if mget (hgMembers g) proxyName \<noteq> None then (\<lambda>s1. (s1\<lparr>fvHttpGroups := mput grp g (fvHttpGroups s)\<rparr>, Some ProxyRepeated))
            else (\<lambda>s1. (s1\<lparr>fvHttpGroups := mput grp (g\<lparr>hgMembers := mput proxyName px (hgMembers g), hgNames := hgNames g @ [proxyName]\<rparr>) (fvHttpGroups s)\<rparr>, None))
      in if hgMembers g = [] then
           (case routers_Add domain location user (ToGroup grp) (fvHttp s) of
              None \<Rightarrow> (s0, Some RouterConflict)
            | Some rs \<Rightarrow> enter (g\<lparr>hgGroup := grp, hgKey := groupKey, hgDomain := domain, hgLocation := location, hgUser := user\<rparr>) (s0\<lparr>fvHttp := rs\<rparr>))
         else if hgGroup g \<noteq> grp \<or> hgDomain g \<noteq> domain \<or> hgLocation g \<noteq> location \<or> hgUser g \<noteq> user then (s0, Some GroupParamsInvalid)
         else if hgKey g \<noteq> groupKey then (s0, Some GroupAuthFailed)
         else enter g s0)"

definition http_group_unregister :: "string \<Rightarrow> string \<Rightarrow> FrpServer \<Rightarrow> FrpServer" where
  "http_group_unregister proxyName grp s = (case mget (fvHttpGroups s) grp of None \<Rightarrow> s
     | Some g \<Rightarrow>
         let g' = g\<lparr>hgMembers := mdel proxyName (hgMembers g), hgNames := remove1 proxyName (hgNames g)\<rparr>;
             s' = s\<lparr>fvHttpGroups := mput grp g' (fvHttpGroups s)\<rparr>
         in if hgMembers g' = [] then
              s'\<lparr>fvHttp := routers_Del (hgDomain g) (hgLocation g) (hgUser g) (fvHttp s),
                 fvHttpGroups := (if hgGroup g = grp then mdel grp (fvHttpGroups s') else fvHttpGroups s')\<rparr>
            else s')"

definition new_HttpsGroup :: HttpsGroup where
  "new_HttpsGroup = \<lparr>sgGroup = [], sgKey = [], sgDomain = [], sgLns = []\<rparr>"

text \<open>A listener of the https multiplexer is a route without location and user.\<close>

definition https_listen :: "string \<Rightarrow> target \<Rightarrow> FrpServer \<Rightarrow> FrpServer option" where
  "https_listen domain payload s = map_option (\<lambda>rs. s\<lparr>fvHttps := rs\<rparr>) (routers_Add domain [] [] payload (fvHttps s))"

definition https_close :: "string \<Rightarrow> FrpServer \<Rightarrow> FrpServer" where
  "https_close domain s = s\<lparr>fvHttps := routers_Del domain [] [] (fvHttps s)\<rparr>"

definition https_group_listen :: "string \<Rightarrow> string \<Rightarrow> string \<Rightarrow> FrpServer \<Rightarrow> FrpServer \<times> (run_error + nat)" where
  "https_group_listen grp groupKey domain s =
     (let g = (case mget (fvHttpsGroups s) grp of None \<Rightarrow> new_HttpsGroup | Some g \<Rightarrow> g);
          s0 = s\<lparr>fvHttpsGroups := mput grp g (fvHttpsGroups s)\<rparr>;
          ln = fvNext s
      in if sgLns g = [] then
           (case https_listen domain (ToGroup grp) s0 of
              None \<Rightarrow> (s0, Inl RouterConflict)
            | Some s1 \<Rightarrow> (s1\<lparr>fvNext := ln + 1, fvHttpsGroups := mput grp \<lparr>sgGroup = grp, sgKey = groupKey, sgDomain = domain, sgLns = [ln]\<rparr>
                (fvHttpsGroups s)\<rparr>, Inr ln))
         else if sgGroup g \<noteq> grp \<or> sgDomain g \<noteq> domain then (s0, Inl GroupParamsInvalid)
         else if sgKey g \<noteq> groupKey then (s0, Inl GroupAuthFailed)
         else (s0\<lparr>fvNext := ln + 1, fvHttpsGroups := mput grp (g\<lparr>sgLns := sgLns g @ [ln]\<rparr>) (fvHttpsGroups s)\<rparr>, Inr ln))"

definition https_group_close :: "string \<Rightarrow> nat \<Rightarrow> FrpServer \<Rightarrow> FrpServer" where
  "https_group_close grp ln s = (case mget (fvHttpsGroups s) grp of None \<Rightarrow> s
     | Some g \<Rightarrow>
         let lns = remove1 ln (sgLns g)
         in if lns = [] then (https_close (sgDomain g) s)\<lparr>fvHttpsGroups := mdel grp (fvHttpsGroups s)\<rparr>
            else s\<lparr>fvHttpsGroups := mput grp (g\<lparr>sgLns := lns\<rparr>) (fvHttpsGroups s)\<rparr>)"

section \<open>Running and closing a proxy\<close>

fun listener_close :: "time \<Rightarrow> proxy_type \<Rightarrow> listener \<Rightarrow> FrpServer \<Rightarrow> FrpServer" where
  "listener_close now t (PortListener p) s =
     (if t = UDPProxyType then s\<lparr>fvUdpBound := remove1 p (fvUdpBound s)\<rparr> else s\<lparr>fvTcpBound := remove1 p (fvTcpBound s)\<rparr>)"
| "listener_close now t (TcpGroupListener grp ln) s = tcp_group_close now grp ln s"
| "listener_close now t (MuxListener domain) s = https_close domain s"
| "listener_close now t (HttpsGroupListener grp ln) s = https_group_close grp ln s"

definition base_Close :: "time \<Rightarrow> FrpProxy \<Rightarrow> FrpServer \<Rightarrow> FrpServer" where
  "base_Close now px s = fold (listener_close now (pfType (pxConf px))) (pxListeners px) s"

fun run_closer :: "string \<Rightarrow> closer \<Rightarrow> FrpServer \<Rightarrow> FrpServer" where
  "run_closer name (HttpRoute d l u) s = s\<lparr>fvHttp := routers_Del d l u (fvHttp s)\<rparr>"
| "run_closer name (HttpGroupMember grp) s = http_group_unregister name grp s"

definition tcp_Close :: "time \<Rightarrow> FrpProxy \<Rightarrow> FrpServer \<Rightarrow> FrpServer" where
  "tcp_Close now px s =
     (let s1 = base_Close now px s
      in if pfGroup (pxConf px) = [] then s1\<lparr>fvTCP := Release now (pxRealPort px) (fvTCP s1)\<rparr> else s1)"

text \<open>
  The udp socket is the proxy's listener here. Closing it ends the forwarding goroutine, which
  calls \<^verbatim>\<open>Close\<close> once more: \<^verbatim>\<open>isClosed\<close> guards what is closed once, but not the release.
\<close>

definition udp_Close :: "time \<Rightarrow> FrpProxy \<Rightarrow> FrpServer \<Rightarrow> FrpServer" where
  "udp_Close now px s = (let s1 = base_Close now px s in s1\<lparr>fvUDP := Release now (pxRealPort px) (fvUDP s1), fvUdpLate := fvUdpLate s1 @ [pxRealPort px]\<rparr>)"

definition udp_Close_again :: "time \<Rightarrow> int \<Rightarrow> FrpServer \<Rightarrow> FrpServer" where
  "udp_Close_again now port s = s\<lparr>fvUDP := Release now port (fvUDP s), fvUdpLate := remove1 port (fvUdpLate s)\<rparr>"

definition http_Close :: "time \<Rightarrow> FrpProxy \<Rightarrow> FrpServer \<Rightarrow> FrpServer" where
  "http_Close now px s = fold (run_closer (pfName (pxConf px))) (pxClosers px) (base_Close now px s)"

definition https_Close :: "time \<Rightarrow> FrpProxy \<Rightarrow> FrpServer \<Rightarrow> FrpServer" where
  "https_Close now px s = base_Close now px s"

definition proxy_Close :: "time \<Rightarrow> FrpProxy \<Rightarrow> FrpServer \<Rightarrow> FrpServer" where
  "proxy_Close now px s = (case pfType (pxConf px) of
       TCPProxyType \<Rightarrow> tcp_Close now px s
     | UDPProxyType \<Rightarrow> udp_Close now px s
     | HTTPProxyType \<Rightarrow> http_Close now px s
     | HTTPSProxyType \<Rightarrow> https_Close now px s)"

definition tcp_Run :: "RunEnv \<Rightarrow> FrpProxy \<Rightarrow> FrpServer \<Rightarrow> FrpServer \<times> (run_error + FrpProxy)" where
  "tcp_Run env px s =
     (let cf = pxConf px in
      if pfGroup cf \<noteq> [] then
        (case tcp_group_listen env (pfName cf) (pfGroup cf) (pfGroupKey cf) (fvBindAddr s) (pfRemotePort cf) s of
           (s1, Inl e) \<Rightarrow> (s1, Inl e)
         | (s1, Inr (ln, realPort)) \<Rightarrow> (s1, Inr (px\<lparr>pxRealPort := realPort, pxListeners := pxListeners px @ [TcpGroupListener (pfGroup cf) ln],
               pxConf := cf\<lparr>pfRemotePort := realPort\<rparr>\<rparr>)))
      else
        (let ports = sessionUserPorts s (pxUser px);
             penv = port_env env (fvTcpBound s)
         in if sessionUserStoreEnabled s \<and> ports = [] then (s, Inl (NoPortPool (pxUser px)))
            else (case (if sessionUserStoreEnabled s then AcquireFromRanges penv (pfName cf) (pfRemotePort cf) ports (fvTCP s)
                        else Acquire penv (pfName cf) (pfRemotePort cf) (fvTCP s)) of
               (pm, Inl e) \<Rightarrow> (s\<lparr>fvTCP := pm\<rparr>, Inl (PortError e))
             | (pm, Inr realPort) \<Rightarrow>
                 if \<not> reListens env realPort then (s\<lparr>fvTCP := Release (reNow env) realPort pm\<rparr>, Inl ListenError)
                 else (s\<lparr>fvTCP := pm, fvTcpBound := realPort # fvTcpBound s\<rparr>,
                       Inr (px\<lparr>pxRealPort := realPort, pxListeners := pxListeners px @ [PortListener realPort],
                               pxConf := cf\<lparr>pfRemotePort := realPort\<rparr>\<rparr>)))))"

definition udp_Run :: "RunEnv \<Rightarrow> FrpProxy \<Rightarrow> FrpServer \<Rightarrow> FrpServer \<times> (run_error + FrpProxy)" where
  "udp_Run env px s =
     (let cf = pxConf px;
          ports = sessionUserPorts s (pxUser px);
          penv = port_env env (fvUdpBound s)
      in if sessionUserStoreEnabled s \<and> ports = [] then (s, Inl (NoPortPool (pxUser px)))
         else (case (if sessionUserStoreEnabled s then AcquireFromRanges penv (pfName cf) (pfRemotePort cf) ports (fvUDP s)
                     else Acquire penv (pfName cf) (pfRemotePort cf) (fvUDP s)) of
            (pm, Inl e) \<Rightarrow> (s\<lparr>fvUDP := pm\<rparr>, Inl (AcquireError (pfRemotePort cf) e))
          | (pm, Inr realPort) \<Rightarrow>
              if \<not> reListens env realPort then (s\<lparr>fvUDP := Release (reNow env) realPort pm\<rparr>, Inl ListenError)
              else (s\<lparr>fvUDP := pm, fvUdpBound := realPort # fvUdpBound s\<rparr>,
                    Inr (px\<lparr>pxRealPort := realPort, pxListeners := pxListeners px @ [PortListener realPort],
                            pxConf := cf\<lparr>pfRemotePort := realPort\<rparr>\<rparr>))))"

fun http_register :: "(string \<times> string) list \<Rightarrow> FrpProxy \<Rightarrow> FrpServer \<Rightarrow> FrpServer \<times> FrpProxy \<times> run_error option" where
  "http_register [] px s = (s, px, None)"
| "http_register ((domain, location) # rest) px s =
     (let cf = pxConf px in
      if pfGroup cf \<noteq> [] then
        (case http_group_register (pfName cf) (pxID px) (pfGroup cf) (pfGroupKey cf) domain location (pfRouteByHTTPUser cf) s of
           (s1, Some e) \<Rightarrow> (s1, px, Some e)
         | (s1, None) \<Rightarrow> http_register rest (px\<lparr>pxClosers := pxClosers px @ [HttpGroupMember (pfGroup cf)]\<rparr>) s1)
      else
        (case routers_Add domain location (pfRouteByHTTPUser cf) (ToProxy (pxID px)) (fvHttp s) of
           None \<Rightarrow> (s, px, Some RouterConflict)
         | Some rs \<Rightarrow> http_register rest (px\<lparr>pxClosers := pxClosers px @ [HttpRoute domain location (pfRouteByHTTPUser cf)]\<rparr>) (s\<lparr>fvHttp := rs\<rparr>)))"

definition http_Run :: "RunEnv \<Rightarrow> FrpProxy \<Rightarrow> FrpServer \<Rightarrow> FrpServer \<times> (run_error + FrpProxy)" where
  "http_Run env px s =
     (let cf = pxConf px;
          locations = (if pfLocations cf = [] then [[]] else pfLocations cf);
          domains = buildDomains s (pfCustomDomains cf) (pfSubDomain cf)
      in (case validateUserDomains s (pxUser px) domains of
            Some e \<Rightarrow> (http_Close (reNow env) px s, Inl e)
          | None \<Rightarrow>
              (case http_register (concat (map (\<lambda>d. map (Pair d) locations) domains)) px s of
                 (s1, px1, Some e) \<Rightarrow> (http_Close (reNow env) px1 s1, Inl e)
               | (s1, px1, None) \<Rightarrow> (s1, Inr px1))))"

fun https_register :: "string list \<Rightarrow> FrpProxy \<Rightarrow> FrpServer \<Rightarrow> FrpServer \<times> FrpProxy \<times> run_error option" where
  "https_register [] px s = (s, px, None)"
| "https_register (domain # rest) px s =
     (let cf = pxConf px in
      if pfGroup cf \<noteq> [] then
        (case https_group_listen (pfGroup cf) (pfGroupKey cf) domain s of
           (s1, Inl e) \<Rightarrow> (s1, px, Some e)
         | (s1, Inr ln) \<Rightarrow> https_register rest (px\<lparr>pxListeners := pxListeners px @ [HttpsGroupListener (pfGroup cf) ln]\<rparr>) s1)
      else
        (case https_listen domain (ToProxy (pxID px)) s of
           None \<Rightarrow> (s, px, Some RouterConflict)
         | Some s1 \<Rightarrow> https_register rest (px\<lparr>pxListeners := pxListeners px @ [MuxListener domain]\<rparr>) s1))"

definition https_Run :: "RunEnv \<Rightarrow> FrpProxy \<Rightarrow> FrpServer \<Rightarrow> FrpServer \<times> (run_error + FrpProxy)" where
  "https_Run env px s =
     (let cf = pxConf px;
          domains = buildDomains s (pfCustomDomains cf) (pfSubDomain cf)
      in (case validateUserDomains s (pxUser px) domains of
            Some e \<Rightarrow> (https_Close (reNow env) px s, Inl e)
          | None \<Rightarrow>
              (case https_register domains px s of
                 (s1, px1, Some e) \<Rightarrow> (https_Close (reNow env) px1 s1, Inl e)
               | (s1, px1, None) \<Rightarrow> (s1, Inr px1))))"

definition proxy_Run :: "RunEnv \<Rightarrow> FrpProxy \<Rightarrow> FrpServer \<Rightarrow> FrpServer \<times> (run_error + FrpProxy)" where
  "proxy_Run env px s = (case pfType (pxConf px) of
       TCPProxyType \<Rightarrow> tcp_Run env px s
     | UDPProxyType \<Rightarrow> udp_Run env px s
     | HTTPProxyType \<Rightarrow> http_Run env px s
     | HTTPSProxyType \<Rightarrow> https_Run env px s)"

text \<open>\<^verbatim>\<open>usedPortsNum\<close> of the constructors.\<close>

definition GetUsedPortsNum :: "ProxyConf \<Rightarrow> int" where
  "GetUsedPortsNum cf = (case pfType cf of TCPProxyType \<Rightarrow> 1 | UDPProxyType \<Rightarrow> 1 | _ \<Rightarrow> 0)"

definition NewProxy :: "ProxyConf \<Rightarrow> string \<Rightarrow> FrpServer \<Rightarrow> FrpServer \<times> FrpProxy" where
  "NewProxy cf user s = (s\<lparr>fvNext := fvNext s + 1\<rparr>,
     \<lparr>pxID = fvNext s, pxConf = cf, pxUser = user, pxRealPort = 0, pxListeners = [], pxClosers = []\<rparr>)"

section \<open>The proxy manager\<close>

definition pxy_Add :: "string \<Rightarrow> FrpProxy \<Rightarrow> FrpServer \<Rightarrow> FrpServer option" where
  "pxy_Add name px s = (if mget (fvPxys s) name \<noteq> None then None else Some (s\<lparr>fvPxys := mput name px (fvPxys s)\<rparr>))"

definition pxy_Exist :: "string \<Rightarrow> FrpServer \<Rightarrow> bool" where
  "pxy_Exist name s \<longleftrightarrow> mget (fvPxys s) name \<noteq> None"

definition pxy_Del :: "string \<Rightarrow> FrpServer \<Rightarrow> FrpServer" where
  "pxy_Del name s = s\<lparr>fvPxys := mdel name (fvPxys s)\<rparr>"

end
