(* ===== verification/FrpRegistry.thy ===== *)
theory FrpRegistry
  imports CoreTypes
begin

text \<open>
  The registry of connected clients of the frp server
  (\<^verbatim>\<open>upstream/frp/server/registry/registry.go\<close>): clients by user and client id, with an
  index by run id. A client without an id of its own is known by its run id.
\<close>

section \<open>The registry\<close>

record ClientInfo =
  ciKey :: string
  ciUser :: string
  ciRawClientID :: string
  ciRunID :: string
  ciHostname :: string
  ciIP :: string
  ciVersion :: string
  ciWireProtocol :: string
  ciFirstConnectedAt :: time
  ciLastConnectedAt :: time
  ciDisconnectedAt :: time
  ciOnline :: bool

record ClientRegistry =
  rgClients :: "(string, ClientInfo) gomap"
  rgRunIndex :: "(string, string) gomap"

definition NewClientRegistry :: ClientRegistry where
  "NewClientRegistry = \<lparr>rgClients = [], rgRunIndex = []\<rparr>"

text \<open>What a login says of its client.\<close>

record ClientMeta =
  cmHostname :: string
  cmVersion :: string
  cmRemoteAddr :: string
  cmWireProtocol :: string

definition composeClientKey :: "string \<Rightarrow> string \<Rightarrow> string" where
  "composeClientKey user cid = (if user = [] then cid else if cid = [] then user else user @ ''.'' @ cid)"

definition new_client :: "string \<Rightarrow> string \<Rightarrow> time \<Rightarrow> ClientInfo" where
  "new_client key user now = \<lparr>ciKey = key, ciUser = user, ciRawClientID = [], ciRunID = [], ciHostname = [], ciIP = [],
     ciVersion = [], ciWireProtocol = [], ciFirstConnectedAt = now, ciLastConnectedAt = 0, ciDisconnectedAt = 0, ciOnline = False\<rparr>"

definition registry_Register :: "time \<Rightarrow> string \<Rightarrow> string \<Rightarrow> string \<Rightarrow> ClientMeta \<Rightarrow> ClientRegistry \<Rightarrow> ClientRegistry \<times> string \<times> bool" where
  "registry_Register now user rawClientID runID meta cr =
     (if runID = [] then (cr, [], False)
      else let effectiveID = (if rawClientID = [] then runID else rawClientID);
               key = composeClientKey user effectiveID;
               enforceUnique = rawClientID \<noteq> [];
               found = mget (rgClients cr) key
           in if enforceUnique \<and> (case found of None \<Rightarrow> False | Some info \<Rightarrow> ciOnline info \<and> ciRunID info \<noteq> [] \<and> ciRunID info \<noteq> runID)
              then (cr, key, True)
              else let info0 = (case found of None \<Rightarrow> new_client key user now | Some info \<Rightarrow> info);
                       index0 = (case found of None \<Rightarrow> rgRunIndex cr
                         | Some info \<Rightarrow> if ciRunID info \<noteq> [] then mdel (ciRunID info) (rgRunIndex cr) else rgRunIndex cr);
                       info = info0\<lparr>ciRawClientID := rawClientID, ciRunID := runID, ciHostname := cmHostname meta, ciIP := cmRemoteAddr meta,
                         ciVersion := cmVersion meta, ciWireProtocol := cmWireProtocol meta,
                         ciFirstConnectedAt := (if IsZero (ciFirstConnectedAt info0) then now else ciFirstConnectedAt info0),
                         ciLastConnectedAt := now, ciDisconnectedAt := 0, ciOnline := True\<rparr>
                   in (\<lparr>rgClients = mput key info (rgClients cr), rgRunIndex = mput runID key index0\<rparr>, key, False))"

definition MarkOfflineByRunID :: "time \<Rightarrow> string \<Rightarrow> ClientRegistry \<Rightarrow> ClientRegistry" where
  "MarkOfflineByRunID now runID cr =
     (case mget (rgRunIndex cr) runID of
        None \<Rightarrow> cr
      | Some key \<Rightarrow>
          let clients = (case mget (rgClients cr) key of
                None \<Rightarrow> rgClients cr
              | Some info \<Rightarrow>
                  if ciRunID info = runID then
                    (if ciRawClientID info = [] then mdel key (rgClients cr)
                     else mput key (info\<lparr>ciRunID := [], ciOnline := False, ciDisconnectedAt := now\<rparr>) (rgClients cr))
                  else rgClients cr)
          in \<lparr>rgClients = clients, rgRunIndex = mdel runID (rgRunIndex cr)\<rparr>)"

definition registry_List :: "ClientRegistry \<Rightarrow> ClientInfo list" where
  "registry_List cr = map snd (rgClients cr)"

definition GetByKey :: "ClientRegistry \<Rightarrow> string \<Rightarrow> ClientInfo option" where
  "GetByKey cr key = mget (rgClients cr) key"

definition info_ClientID :: "ClientInfo \<Rightarrow> string" where
  "info_ClientID info = (if ciRawClientID info \<noteq> [] then ciRawClientID info else ciRunID info)"

section \<open>The sessions of a registry\<close>

inductive registry_reachable :: "ClientRegistry \<Rightarrow> bool" where
  new: "registry_reachable NewClientRegistry"
| registered: "registry_reachable cr \<Longrightarrow> registry_reachable (fst (registry_Register now user raw run meta cr))"
| offline: "registry_reachable cr \<Longrightarrow> registry_reachable (MarkOfflineByRunID now run cr)"

definition registry_ok :: "ClientRegistry \<Rightarrow> bool" where
  "registry_ok cr \<longleftrightarrow> keyed ciKey (rgClients cr) \<and>
     (\<forall>k c. mget (rgClients cr) k = Some c \<longrightarrow> ciOnline c = (ciRunID c \<noteq> []) \<and> (ciRawClientID c = [] \<longrightarrow> ciOnline c)) \<and>
     (\<forall>r k. mget (rgRunIndex cr) r = Some k \<longrightarrow> r \<noteq> [] \<and> (\<exists>c. mget (rgClients cr) k = Some c \<and> ciRunID c = r))"

lemma registry_okD:
  assumes "registry_ok cr"
  shows "keyed ciKey (rgClients cr)"
    and "mget (rgClients cr) k = Some c \<Longrightarrow> ciOnline c = (ciRunID c \<noteq> []) \<and> (ciRawClientID c = [] \<longrightarrow> ciOnline c)"
    and "mget (rgRunIndex cr) r = Some k \<Longrightarrow> r \<noteq> [] \<and> (\<exists>c. mget (rgClients cr) k = Some c \<and> ciRunID c = r)"
  using assms unfolding registry_ok_def by blast+

text \<open>A registration either conflicts and changes nothing, or the client is online under its key.\<close>

lemma registry_Register_cases:
  obtains (no_run) "run = []" "registry_Register now user raw run meta cr = (cr, [], False)"
  | (conflict) info where "run \<noteq> []" "raw \<noteq> []" "mget (rgClients cr) (composeClientKey user raw) = Some info" "ciOnline info"
      "ciRunID info \<noteq> []" "ciRunID info \<noteq> run" "registry_Register now user raw run meta cr = (cr, composeClientKey user raw, True)"
  | (registered) key info index where "run \<noteq> []" "key = composeClientKey user (if raw = [] then run else raw)"
      "registry_Register now user raw run meta cr = (\<lparr>rgClients = mput key info (rgClients cr), rgRunIndex = mput run key index\<rparr>, key, False)"
      "ciRunID info = run" "ciOnline info" "ciRawClientID info = raw"
      "case mget (rgClients cr) key of None \<Rightarrow> ciKey info = key \<and> index = rgRunIndex cr
       | Some old \<Rightarrow> ciKey info = ciKey old \<and> index = (if ciRunID old \<noteq> [] then mdel (ciRunID old) (rgRunIndex cr) else rgRunIndex cr)"
proof (cases "run = []")
  case True
  with no_run show thesis by (simp add: registry_Register_def)
next
  case run: False
  let ?key = "composeClientKey user (if raw = [] then run else raw)"
  show thesis
  proof (cases "raw \<noteq> [] \<and> (case mget (rgClients cr) ?key of None \<Rightarrow> False
      | Some info \<Rightarrow> ciOnline info \<and> ciRunID info \<noteq> [] \<and> ciRunID info \<noteq> run)")
    case True
    then obtain info where "mget (rgClients cr) ?key = Some info" "ciOnline info" "ciRunID info \<noteq> []" "ciRunID info \<noteq> run"
      by (auto split: option.splits)
    with True run conflict show thesis by (auto simp: registry_Register_def Let_def)
  next
    case False
    define info0 where "info0 = (case mget (rgClients cr) ?key of None \<Rightarrow> new_client ?key user now | Some info \<Rightarrow> info)"
    show thesis
      by (rule registered [OF run refl, of "info0\<lparr>ciRawClientID := raw, ciRunID := run, ciHostname := cmHostname meta, ciIP := cmRemoteAddr meta,
            ciVersion := cmVersion meta, ciWireProtocol := cmWireProtocol meta,
            ciFirstConnectedAt := (if IsZero (ciFirstConnectedAt info0) then now else ciFirstConnectedAt info0),
            ciLastConnectedAt := now, ciDisconnectedAt := 0, ciOnline := True\<rparr>"])
        (use run False in \<open>simp_all only: registry_Register_def Let_def if_False info0_def\<close>,
         simp_all add: info0_def new_client_def split: option.split)
  qed
qed

lemma registry_Register_ok:
  assumes ok: "registry_ok cr" shows "registry_ok (fst (registry_Register now user raw run meta cr))"
proof (cases rule: registry_Register_cases [of run now user raw meta cr])
  case (registered key info index)
  note d = registry_okD [OF ok]
  have key: "ciKey info = key"
    using registered(7) keyed_mget [OF d(1), of key] by (auto split: option.splits)
  have idx: "mget index r = Some k \<Longrightarrow> mget (rgRunIndex cr) r = Some k \<and> k \<noteq> key" for r k
  proof -
    assume a: "mget index r = Some k"
    then have i: "mget (rgRunIndex cr) r = Some k" using registered(7) by (auto simp: gomap_simps split: option.splits if_splits)
    moreover from d(3)[OF i] obtain c where c: "mget (rgClients cr) k = Some c" "ciRunID c = r" "r \<noteq> []" by blast
    ultimately show "mget (rgRunIndex cr) r = Some k \<and> k \<noteq> key"
      using a registered(7) by (auto simp: gomap_simps split: if_splits)
  qed
  show ?thesis
    unfolding registered(3) fst_conv registry_ok_def
  proof (intro conjI allI impI, goal_cases)
    case 1
    show ?case using keyed_mput [OF d(1) key] by simp
  next
    case (4 r k)
    then show ?case using registered(1) by (auto simp: gomap_simps split: if_splits dest: idx d(3))
  next
    case (5 r k)
    then show ?case using registered(4) idx [of r k] d(3)[of r k] by (auto simp: gomap_simps split: if_splits)
  qed (use d(2) registered(1,4,5) in \<open>auto simp: gomap_simps split: if_splits\<close>)
qed (use ok in simp_all)

lemma MarkOfflineByRunID_ok:
  assumes ok: "registry_ok cr" shows "registry_ok (MarkOfflineByRunID now run cr)"
proof (cases "mget (rgRunIndex cr) run")
  case None
  with ok show ?thesis by (simp add: MarkOfflineByRunID_def)
next
  case (Some key)
  note d = registry_okD [OF ok]
  from d(3)[OF Some] obtain info where info: "mget (rgClients cr) key = Some info" "ciRunID info = run" "run \<noteq> []" by blast
  have key: "ciKey info = key" by (rule keyed_mget [OF d(1) info(1)])
  have other: "k \<noteq> key" if "mget (rgRunIndex cr) r = Some k" "r \<noteq> run" for r k using d(3)[OF that(1)] that(2) info by auto
  show ?thesis
    unfolding registry_ok_def MarkOfflineByRunID_def Some info(1) option.case Let_def
  proof (intro conjI allI impI, goal_cases)
    case 1
    show ?case using keyed_mput [OF d(1), of "info\<lparr>ciRunID := [], ciOnline := False, ciDisconnectedAt := now\<rparr>" key] keyed_mdel [OF d(1)] key info(2)
      by simp
  next
    case (5 r k)
    then have "mget (rgRunIndex cr) r = Some k" "r \<noteq> run" by (auto simp: gomap_simps split: if_splits)
    with other [OF this] d(3)[OF this(1)] info(2) show ?case by (auto simp: gomap_simps)
  qed (use d(2,3) info in \<open>auto simp: gomap_simps split: if_splits\<close>)
qed

lemma registry_reachable_ok: "registry_reachable cr \<Longrightarrow> registry_ok cr"
  by (induction rule: registry_reachable.induct)
    (simp_all add: registry_Register_ok MarkOfflineByRunID_ok, simp add: registry_ok_def NewClientRegistry_def)


lemma offline_other:
  assumes ok: "registry_ok cr" and c: "mget (rgClients cr) key = Some c" "ciRunID c \<noteq> run"
  shows "mget (rgClients (MarkOfflineByRunID now run cr)) key = Some c"
proof (cases "mget (rgRunIndex cr) run")
  case None
  with c show ?thesis by (simp add: MarkOfflineByRunID_def)
next
  case (Some k)
  from registry_okD(3)[OF ok Some] c have "k \<noteq> key" by auto
  with Some c show ?thesis by (auto simp: MarkOfflineByRunID_def Let_def gomap_simps split: option.split)
qed

lemma offline_own:
  assumes c: "mget (rgClients cr) key = Some c" "ciRunID c = run" "mget (rgRunIndex cr) run = Some key"
  shows "mget (rgClients (MarkOfflineByRunID now run cr)) key =
    (if ciRawClientID c = [] then None else Some (c\<lparr>ciRunID := [], ciOnline := False, ciDisconnectedAt := now\<rparr>))"
  using c by (simp add: MarkOfflineByRunID_def Let_def gomap_simps)

lemma registry_entries:
  assumes ok: "registry_ok cr"
  shows "(\<forall>k c. GetByKey cr k = Some c \<longrightarrow> ciKey c = k \<and> ciOnline c = (ciRunID c \<noteq> [])) \<and>
    (\<forall>r k. mget (rgRunIndex cr) r = Some k \<longrightarrow> (\<exists>c. GetByKey cr k = Some c \<and> ciOnline c \<and> ciRunID c = r))"
proof -
  note d = registry_okD [OF ok]
  have key_of: "ciKey c = k \<and> ciOnline c = (ciRunID c \<noteq> [])" if "mget (rgClients cr) k = Some c" for k c
    using d(2)[OF that] keyed_mget [OF d(1) that] by (intro conjI) (assumption, blast)
  have index_of: "\<exists>c. mget (rgClients cr) k = Some c \<and> ciOnline c \<and> ciRunID c = r" if "mget (rgRunIndex cr) r = Some k" for r k
  proof -
    from d(3)[OF that] obtain c where c: "r \<noteq> []" "mget (rgClients cr) k = Some c" "ciRunID c = r" by blast
    with key_of [OF c(2)] show ?thesis by (intro exI [of _ c]) simp
  qed
  show ?thesis
    unfolding GetByKey_def using key_of index_of by (intro conjI allI impI) (erule key_of [THEN conjunct1] key_of [THEN conjunct2] index_of)+
qed

section \<open>The property\<close>

text \<open>C16. A client id has one session at a time: an entry is online exactly while it has a run id and the index of run ids points to
  online entries; a client id that is online under another run is refused and nothing changes; otherwise the client
  is online under its key, only its own run takes it offline, and then it is forgotten unless it has an id of its own.\<close>

theorem one_session_per_client:
  assumes "registry_reachable cr" "run \<noteq> []" "registry_Register now user raw run meta cr = (cr', key, conflict)"
  shows "(\<forall>k c. GetByKey cr k = Some c \<longrightarrow> ciKey c = k \<and> ciOnline c = (ciRunID c \<noteq> [])) \<and>
    (\<forall>r k. mget (rgRunIndex cr) r = Some k \<longrightarrow> (\<exists>c. GetByKey cr k = Some c \<and> ciOnline c \<and> ciRunID c = r)) \<and>
    key = composeClientKey user (if raw = [] then run else raw) \<and>
    conflict = (raw \<noteq> [] \<and> (\<exists>c. GetByKey cr key = Some c \<and> ciOnline c \<and> ciRunID c \<noteq> run)) \<and>
    (if conflict then cr' = cr
     else \<exists>c. GetByKey cr' key = Some c \<and> ciOnline c \<and> ciRunID c = run \<and> ciRawClientID c = raw \<and> mget (rgRunIndex cr') run = Some key \<and>
       (\<forall>now r. r \<noteq> run \<longrightarrow> GetByKey (MarkOfflineByRunID now r cr') key = Some c) \<and>
       (\<forall>now. map_option ciOnline (GetByKey (MarkOfflineByRunID now run cr') key) = (if raw = [] then None else Some False)))"
proof -
  note ok = registry_reachable_ok [OF assms(1)]
  note d = registry_okD [OF ok]
  have ok': "registry_ok cr'" using registry_Register_ok [OF ok, of now user raw run meta] assms(3) by simp
  note entries = registry_entries [OF ok]
  show ?thesis
  proof (cases rule: registry_Register_cases [of run now user raw meta cr])
    case no_run
    with assms(2) show ?thesis by simp
  next
    case (conflict info)
    with assms(3) entries show ?thesis by (auto simp: GetByKey_def)
  next
    case (registered k info index)
    with assms(3) have r: "key = k" "conflict = False" "mget (rgClients cr') k = Some info" "mget (rgRunIndex cr') run = Some k"
      by (auto simp: gomap_simps)
    have free: "\<not> (raw \<noteq> [] \<and> (\<exists>c. GetByKey cr k = Some c \<and> ciOnline c \<and> ciRunID c \<noteq> run))"
    proof
      assume a: "raw \<noteq> [] \<and> (\<exists>c. GetByKey cr k = Some c \<and> ciOnline c \<and> ciRunID c \<noteq> run)"
      then obtain c where c: "mget (rgClients cr) k = Some c" "ciOnline c" "ciRunID c \<noteq> run" by (auto simp: GetByKey_def)
      with d(2)[OF c(1)] a registered(1,2) have "snd (snd (registry_Register now user raw run meta cr))"
        by (simp add: registry_Register_def Let_def)
      with registered(3) show False by simp
    qed
    have "GetByKey (MarkOfflineByRunID n q cr') k = Some info" if q: "q \<noteq> run" for n q
    proof -
      have "ciRunID info \<noteq> q" unfolding registered(4) using q by (rule not_sym)
      from offline_other [OF ok' r(3) this] show ?thesis unfolding GetByKey_def .
    qed
    moreover have "map_option ciOnline (GetByKey (MarkOfflineByRunID n run cr') k) = (if raw = [] then None else Some False)" for n
      unfolding GetByKey_def offline_own [OF r(3) registered(4) r(4)] registered(6) by simp
    moreover have "GetByKey cr' k = Some info" using r(3) by (simp only: GetByKey_def)
    ultimately have "\<exists>c. GetByKey cr' k = Some c \<and> ciOnline c \<and> ciRunID c = run \<and> ciRawClientID c = raw \<and> mget (rgRunIndex cr') run = Some k \<and>
       (\<forall>now r. r \<noteq> run \<longrightarrow> GetByKey (MarkOfflineByRunID now r cr') k = Some c) \<and>
       (\<forall>now. map_option ciOnline (GetByKey (MarkOfflineByRunID now run cr') k) = (if raw = [] then None else Some False))"
      using registered(4-6) r(4) by blast
    with entries free registered(2) show ?thesis unfolding r(1,2) by (simp only: simp_thms if_False)
  qed
qed

text \<open>A run id that logs in again with another client id leaves the first one online for ever: nothing but a login of the
  same run changes it, and any other run is refused.\<close>

definition stale_registry :: ClientRegistry where
  "stale_registry = (let m = \<lparr>cmHostname = [], cmVersion = [], cmRemoteAddr = [], cmWireProtocol = []\<rparr>
     in MarkOfflineByRunID 3 ''r'' (fst (registry_Register 2 ''u'' ''c2'' ''r'' m (fst (registry_Register 1 ''u'' ''c1'' ''r'' m NewClientRegistry)))))"

lemma stale_client_blocks:
  "registry_reachable stale_registry \<and> rgRunIndex stale_registry = [] \<and>
   (\<forall>now run meta. run \<noteq> [] \<and> run \<noteq> ''r'' \<longrightarrow> registry_Register now ''u'' ''c1'' run meta stale_registry = (stale_registry, ''u.c1'', True))"
proof -
  have c: "map_option (\<lambda>i. (ciOnline i, ciRunID i)) (mget (rgClients stale_registry) ''u.c1'') = Some (True, ''r'')" by code_simp
  have "registry_reachable stale_registry"
    unfolding stale_registry_def Let_def by (intro registry_reachable.intros)
  moreover have "rgRunIndex stale_registry = []" by code_simp
  moreover have "registry_Register now ''u'' ''c1'' run meta stale_registry = (stale_registry, ''u.c1'', True)"
    if "run \<noteq> []" "run \<noteq> ''r''" for now run meta
    using c that by (auto simp: registry_Register_def composeClientKey_def Let_def)
  ultimately show ?thesis by blast
qed

text \<open>Keys of different users can coincide.\<close>

lemma client_keys_collide: "composeClientKey ''a'' ''b.c'' = composeClientKey ''a.b'' ''c''"
  by (simp add: composeClientKey_def)

definition demo_meta :: ClientMeta where
  "demo_meta = \<lparr>cmHostname = ''host'', cmVersion = ''0.63'', cmRemoteAddr = ''10.0.0.9'', cmWireProtocol = ''v1''\<rparr>"

definition demo_registry :: ClientRegistry where
  "demo_registry = fst (registry_Register 1 ''alice'' ''pc'' ''run1'' demo_meta NewClientRegistry)"

theorem one_session_per_client_witness:
  "fst (registry_Register 2 ''alice'' ''pc'' ''run2'' demo_meta demo_registry) = demo_registry \<and>
   snd (registry_Register 2 ''alice'' ''pc'' ''run2'' demo_meta demo_registry) = (''alice.pc'', True)"
proof -
  let ?r = "registry_Register 2 ''alice'' ''pc'' ''run2'' demo_meta demo_registry"
  have reach: "registry_reachable demo_registry" unfolding demo_registry_def by (intro registry_reachable.intros)
  have "snd ?r = (''alice.pc'', True)" by code_simp
  then have r: "?r = (fst ?r, ''alice.pc'', True)" by (metis prod.collapse)
  from one_session_per_client [OF reach _ r] \<open>snd ?r = _\<close> show ?thesis by simp
qed

end
