(* ===== verification/FrpControl.thy ===== *)
theory FrpControl
  imports FrpProxies FrpRegistry
begin

text \<open>
  The sessions of the frp server: \<^verbatim>\<open>upstream/frp/server/control.go\<close> and the login of
  \<^verbatim>\<open>server/service.go\<close>. A control object is known by a serial number. The handlers of one
  control run one after the other. Each is one step here, against those of other sessions too, which the source does not lock
  out: the theory \<^verbatim>\<open>FrpRace\<close> has the registration and the end of a tcp proxy in the steps the locks make. A login takes
  two steps, before and after the wait for the control it replaces. No server plugin is configured, and the parsing of a
  proxy's configuration is a parameter.
\<close>

section \<open>State\<close>

text \<open>
  The phases of a control object: added to the manager, waiting for the one it replaced, running,
  ended (its channel \<^verbatim>\<open>doneCh\<close> is closed), or given up by its login before it ran (the channel
  is never closed).
\<close>

datatype phase = Added | Waiting nat | Registered | Running | Done | Abandoned

record Login =
  lgRunID :: string
  lgUser :: string
  lgClientID :: string
  lgMeta :: ClientMeta

text \<open>\<open>ctRunID\<close> is the field \<^verbatim>\<open>runID\<close>, which \<^verbatim>\<open>Replaced\<close> empties; the login keeps its own.\<close>

record Control =
  ctLogin :: Login
  ctRunID :: string
  ctProxies :: "(string, FrpProxy) gomap"
  ctPortsUsedNum :: int
  ctPhase :: phase

record FrpService =
  sxServer :: FrpServer
  sxControls :: "(nat, Control) gomap"
  sxByRunID :: "(string, nat) gomap"
  sxRegistry :: ClientRegistry
  sxNext :: nat

datatype control_error =
    BadConf string
  | ExceedMaxPorts
  | AlreadyExists string
  | RunError run_error
  | NameInUse string

section \<open>Proxies of a session\<close>

definition max_ports :: "FrpServer \<Rightarrow> string \<Rightarrow> int" where
  "max_ports s user = (case fvUsers s of None \<Rightarrow> fvMaxPortsPerClient s | Some st \<Rightarrow> UserMaxPorts st user)"

text \<open>\<open>conf\<close> is what \<^verbatim>\<open>NewProxyConfigurerFromMsg\<close> makes of the message; it keeps the proxy's name.\<close>

definition RegisterProxy :: "RunEnv \<Rightarrow> string + ProxyConf \<Rightarrow> Control \<Rightarrow> FrpServer \<Rightarrow> FrpServer \<times> Control \<times> (control_error + FrpProxy)" where
  "RegisterProxy env conf c s =
     (case conf of
        Inl e \<Rightarrow> (s, c, Inl (BadConf e))
      | Inr cf \<Rightarrow>
          let (s0, px) = NewProxy cf (lgUser (ctLogin c)) s;
              maxPorts = max_ports s (lgUser (ctLogin c));
              n = GetUsedPortsNum cf;
              undo = (\<lambda>c. if 0 < maxPorts then c\<lparr>ctPortsUsedNum := ctPortsUsedNum c - n\<rparr> else c)
          in if 0 < maxPorts \<and> maxPorts < ctPortsUsedNum c + n then (s0, c, Inl ExceedMaxPorts)
             else let c1 = (if 0 < maxPorts then c\<lparr>ctPortsUsedNum := ctPortsUsedNum c + n\<rparr> else c)
               in if pxy_Exist (pfName cf) s0 then (s0, undo c1, Inl (AlreadyExists (pfName cf)))
                  else (case proxy_Run env px s0 of
                      (s1, Inl e) \<Rightarrow> (s1, undo c1, Inl (RunError e))
                    | (s1, Inr px1) \<Rightarrow>
                        (case pxy_Add (pfName cf) px1 s1 of
                           None \<Rightarrow> (proxy_Close (reNow env) px1 s1, undo c1, Inl (NameInUse (pfName cf)))
                         | Some s2 \<Rightarrow> (s2, c1\<lparr>ctProxies := mput (pfName (pxConf px1)) px1 (ctProxies c1)\<rparr>, Inr px1))))"

definition closeProxy :: "time \<Rightarrow> FrpProxy \<Rightarrow> FrpServer \<Rightarrow> FrpServer" where
  "closeProxy now px s = pxy_Del (pfName (pxConf px)) (proxy_Close now px s)"

definition CloseProxy :: "time \<Rightarrow> string \<Rightarrow> Control \<Rightarrow> FrpServer \<Rightarrow> FrpServer \<times> Control" where
  "CloseProxy now name c s = (case mget (ctProxies c) name of
       None \<Rightarrow> (s, c)
     | Some px \<Rightarrow>
         let c1 = (if 0 < fvMaxPortsPerClient s \<or> fvUsers s \<noteq> None
               then c\<lparr>ctPortsUsedNum := ctPortsUsedNum c - GetUsedPortsNum (pxConf px)\<rparr> else c)
         in (closeProxy now px s, c1\<lparr>ctProxies := mdel name (ctProxies c1)\<rparr>))"

text \<open>The end of \<^verbatim>\<open>worker\<close>: every proxy of the session is closed.\<close>

definition close_all :: "time \<Rightarrow> Control \<Rightarrow> FrpServer \<Rightarrow> FrpServer" where
  "close_all now c s = fold (\<lambda>(_, px). closeProxy now px) (ctProxies c) s"

section \<open>Sessions\<close>

definition set_control :: "nat \<Rightarrow> Control \<Rightarrow> FrpService \<Rightarrow> FrpService" where
  "set_control i c svr = svr\<lparr>sxControls := mput i c (sxControls svr)\<rparr>"

definition NewControl :: "Login \<Rightarrow> Control" where
  "NewControl lg = \<lparr>ctLogin = lg, ctRunID = lgRunID lg, ctProxies = [], ctPortsUsedNum = 0, ctPhase = Added\<rparr>"

text \<open>\<^verbatim>\<open>Replaced\<close> also closes the connection, after which the control's worker ends by itself.\<close>

definition Replaced :: "Control \<Rightarrow> Control" where
  "Replaced c = c\<lparr>ctRunID := []\<rparr>"

definition manager_Add :: "string \<Rightarrow> nat \<Rightarrow> FrpService \<Rightarrow> FrpService \<times> nat option" where
  "manager_Add runID i svr = (case mget (sxByRunID svr) runID of
       None \<Rightarrow> (svr\<lparr>sxByRunID := mput runID i (sxByRunID svr)\<rparr>, None)
     | Some old \<Rightarrow>
         ((case mget (sxControls svr) old of None \<Rightarrow> svr | Some c \<Rightarrow> set_control old (Replaced c) svr)
            \<lparr>sxByRunID := mput runID i (sxByRunID svr)\<rparr>, Some old))"

definition manager_Del :: "string \<Rightarrow> nat \<Rightarrow> FrpService \<Rightarrow> FrpService" where
  "manager_Del runID i svr = (if mget (sxByRunID svr) runID = Some i then svr\<lparr>sxByRunID := mdel runID (sxByRunID svr)\<rparr> else svr)"

text \<open>
  \<^verbatim>\<open>RegisterControl\<close> up to the wait for the replaced control, and from there on. \<open>fresh\<close> is
  the run id made for a login that has none.
\<close>

definition RegisterControl_begin :: "string \<Rightarrow> Login \<Rightarrow> FrpService \<Rightarrow> FrpService" where
  "RegisterControl_begin fresh lg0 svr =
     (let lg = (if lgRunID lg0 = [] then lg0\<lparr>lgRunID := fresh\<rparr> else lg0);
          i = sxNext svr;
          svr1 = (set_control i (NewControl lg) svr)\<lparr>sxNext := i + 1\<rparr>
      in (case manager_Add (lgRunID lg) i svr1 of
            (svr2, None) \<Rightarrow> svr2
          | (svr2, Some old) \<Rightarrow> set_control i ((NewControl lg)\<lparr>ctPhase := Waiting old\<rparr>) svr2))"

definition RegisterControl_finish :: "time \<Rightarrow> nat \<Rightarrow> Control \<Rightarrow> FrpService \<Rightarrow> FrpService \<times> bool" where
  "RegisterControl_finish now i c svr =
     (let lg = ctLogin c in
      (case registry_Register now (lgUser lg) (lgClientID lg) (lgRunID lg) (lgMeta lg) (sxRegistry svr) of
         (cr, _, conflict) \<Rightarrow>
           if conflict then ((set_control i (c\<lparr>ctPhase := Abandoned\<rparr>) (manager_Del (lgRunID lg) i svr))\<lparr>sxRegistry := cr\<rparr>, False)
           else ((set_control i (c\<lparr>ctPhase := Registered\<rparr>) svr)\<lparr>sxRegistry := cr\<rparr>, True)))"

text \<open>The rest of the login in \<^verbatim>\<open>handleConnection\<close>: the response is sent and the control starts, or it cannot be sent.\<close>

definition login_done :: "time \<Rightarrow> bool \<Rightarrow> nat \<Rightarrow> Control \<Rightarrow> FrpService \<Rightarrow> FrpService" where
  "login_done now sent i c svr =
     (if sent then set_control i (c\<lparr>ctPhase := Running\<rparr>) svr
      else (set_control i (c\<lparr>ctPhase := Abandoned\<rparr>) (manager_Del (lgRunID (ctLogin c)) i svr))
        \<lparr>sxRegistry := MarkOfflineByRunID now (lgRunID (ctLogin c)) (sxRegistry svr)\<rparr>)"

definition worker_end :: "time \<Rightarrow> nat \<Rightarrow> Control \<Rightarrow> FrpService \<Rightarrow> FrpService" where
  "worker_end now i c svr =
     (set_control i (c\<lparr>ctProxies := [], ctPhase := Done\<rparr>) (svr\<lparr>sxServer := close_all now c (sxServer svr)\<rparr>))
       \<lparr>sxRegistry := MarkOfflineByRunID now (ctRunID c) (sxRegistry svr)\<rparr>"

definition handleNewProxy :: "RunEnv \<Rightarrow> string + ProxyConf \<Rightarrow> nat \<Rightarrow> Control \<Rightarrow> FrpService \<Rightarrow> FrpService" where
  "handleNewProxy env conf i c svr = (case RegisterProxy env conf c (sxServer svr) of
       (s, c1, _) \<Rightarrow> (set_control i c1 svr)\<lparr>sxServer := s\<rparr>)"

definition handleCloseProxy :: "time \<Rightarrow> string \<Rightarrow> nat \<Rightarrow> Control \<Rightarrow> FrpService \<Rightarrow> FrpService" where
  "handleCloseProxy now name i c svr = (case CloseProxy now name c (sxServer svr) of
       (s, c1) \<Rightarrow> (set_control i c1 svr)\<lparr>sxServer := s\<rparr>)"

definition new_server :: "FrpStore option \<Rightarrow> int \<Rightarrow> string \<Rightarrow> string \<Rightarrow> FrpRange list \<Rightarrow> FrpServer" where
  "new_server users maxPorts subDomainHost bindAddr allowPorts =
     \<lparr>fvUsers = users, fvMaxPortsPerClient = maxPorts, fvSubDomainHost = subDomainHost, fvBindAddr = bindAddr,
      fvTCP = newManager allowPorts, fvUDP = newManager allowPorts, fvTcpBound = [], fvUdpBound = [], fvUdpLate = [], fvTcpGroups = [],
      fvHttp = [], fvHttpGroups = [], fvHttps = [], fvHttpsGroups = [], fvPxys = [], fvNext = 0\<rparr>"

definition new_service :: "FrpServer \<Rightarrow> FrpService" where
  "new_service s = \<lparr>sxServer = s, sxControls = [], sxByRunID = [], sxRegistry = NewClientRegistry, sxNext = 0\<rparr>"

section \<open>The steps\<close>

text \<open>
  \<open>users\<close>: the control program changes the user store. \<open>late\<close>: the goroutine that
  forwards the packets of a closed udp proxy ends, and closes the proxy once more, which releases its
  port again.
\<close>

inductive service_step :: "FrpService \<Rightarrow> FrpService \<Rightarrow> bool" where
  users: "fvUsers (sxServer svr) \<noteq> None \<Longrightarrow> service_step svr (svr\<lparr>sxServer := (sxServer svr)\<lparr>fvUsers := Some st\<rparr>\<rparr>)"
| login: "service_step svr (RegisterControl_begin fresh lg svr)"
| registered: "mget (sxControls svr) i = Some c \<Longrightarrow>
    ctPhase c = Added \<or> (\<exists>old oc. ctPhase c = Waiting old \<and> mget (sxControls svr) old = Some oc \<and> ctPhase oc = Done) \<Longrightarrow>
    service_step svr (fst (RegisterControl_finish now i c svr))"
| started: "mget (sxControls svr) i = Some c \<Longrightarrow> ctPhase c = Registered \<Longrightarrow> service_step svr (login_done now sent i c svr)"
| new_proxy: "mget (sxControls svr) i = Some c \<Longrightarrow> ctPhase c = Running \<Longrightarrow> service_step svr (handleNewProxy env conf i c svr)"
| close_proxy: "mget (sxControls svr) i = Some c \<Longrightarrow> ctPhase c = Running \<Longrightarrow> service_step svr (handleCloseProxy now name i c svr)"
| ended: "mget (sxControls svr) i = Some c \<Longrightarrow> ctPhase c = Running \<Longrightarrow> service_step svr (worker_end now i c svr)"
| reaped: "mget (sxControls svr) i = Some c \<Longrightarrow> ctPhase c = Done \<Longrightarrow>
    service_step svr (manager_Del (lgRunID (ctLogin c)) i svr)"
| cleaned: "service_step svr (svr\<lparr>sxServer := (sxServer svr)\<lparr>fvTCP := cleanReservedPortsOnce now (fvTCP (sxServer svr)),
    fvUDP := cleanReservedPortsOnce now (fvUDP (sxServer svr))\<rparr>\<rparr>)"
| late: "port \<in> set (fvUdpLate (sxServer svr)) \<Longrightarrow> service_step svr (svr\<lparr>sxServer := udp_Close_again now port (sxServer svr)\<rparr>)"

inductive service_reachable :: "FrpRange list \<Rightarrow> FrpService \<Rightarrow> bool" for ranges where
  new: "service_reachable ranges (new_service (new_server users maxPorts subDomainHost bindAddr ranges))"
| step: "service_reachable ranges svr \<Longrightarrow> service_step svr svr' \<Longrightarrow> service_reachable ranges svr'"

inductive_cases service_stepE: "service_step svr svr'"

end
