(* ===== verification/FrpPortsInv.thy ===== *)
theory FrpPortsInv
  imports FrpPorts
begin

text \<open>
  The port manager keeps its books: every port of the allowed ranges is either free or used by
  exactly one open context, and the result of an acquisition says which of its branches was taken.
\<close>

section \<open>The ranges\<close>

lemma frp_portInRanges_iff: "frp_portInRanges p rs \<longleftrightarrow> p \<in> set (concat (map range_ports rs))"
  by (induction rs) (auto simp: range_ports_def)

definition allowed_ports :: "FrpRange list \<Rightarrow> int set" where
  "allowed_ports rs = (if rs = [] then {MinPort..MaxPort} else {p. frp_portInRanges p rs})"

lemma fold_free:
  "mwf m \<Longrightarrow> mwf (fold (\<lambda>i m. mput i () m) ps m) \<and>
     (mget (fold (\<lambda>i m. mput i () m) ps m) p \<noteq> None \<longleftrightarrow> p \<in> set ps \<or> mget m p \<noteq> None)"
  by (induction ps arbitrary: m) (auto simp: gomap_simps)

lemma free_ports: "mwf (free_ports rs)" "mget (free_ports rs) p \<noteq> None \<longleftrightarrow> p \<in> allowed_ports rs"
proof -
  note f = fold_free [of "[]", OF mwf_empty]
  show "mwf (free_ports rs)" unfolding free_ports_def by (rule f [THEN conjunct1])
  have "mget (free_ports rs) p \<noteq> None \<longleftrightarrow> p \<in> set (if rs \<noteq> [] then concat (map range_ports rs) else [MinPort..MaxPort])"
    unfolding free_ports_def using f [THEN conjunct2] by (simp only: mget_empty not_not simp_thms)
  then show "mget (free_ports rs) p \<noteq> None \<longleftrightarrow> p \<in> allowed_ports rs"
    by (simp add: allowed_ports_def frp_portInRanges_iff)
qed

section \<open>The books\<close>

definition pm_ok :: "int set \<Rightarrow> PortManager \<Rightarrow> bool" where
  "pm_ok allowed pm \<longleftrightarrow> mwf (pmFree pm) \<and> mwf (pmUsed pm) \<and> mwf (pmReserved pm) \<and>
     (\<forall>p. (mget (pmFree pm) p \<noteq> None) = (p \<in> allowed \<and> mget (pmUsed pm) p = None)) \<and>
     (\<forall>p a. mget (pmUsed pm) p = Some a \<longrightarrow> p \<in> allowed \<and>
        (\<exists>c. mget (pmCtxs pm) a = Some c \<and> pcPort c = p \<and> \<not> pcClosed c)) \<and>
     (\<forall>n a. mget (pmReserved pm) n = Some a \<longrightarrow>
        (\<exists>c. mget (pmCtxs pm) a = Some c \<and> pcName c = n \<and> pcPort c \<in> allowed)) \<and>
     (\<forall>a c. mget (pmCtxs pm) a = Some c \<longrightarrow> a < pmNext pm)"

lemma pm_okD:
  assumes "pm_ok allowed pm"
  shows "mwf (pmFree pm)" "mwf (pmUsed pm)" "mwf (pmReserved pm)"
    and "mget (pmFree pm) p \<noteq> None \<longleftrightarrow> p \<in> allowed \<and> mget (pmUsed pm) p = None"
    and "mget (pmUsed pm) p = Some a \<Longrightarrow> p \<in> allowed \<and> (\<exists>c. mget (pmCtxs pm) a = Some c \<and> pcPort c = p \<and> \<not> pcClosed c)"
    and "mget (pmReserved pm) n = Some a \<Longrightarrow> \<exists>c. mget (pmCtxs pm) a = Some c \<and> pcName c = n \<and> pcPort c \<in> allowed"
    and "mget (pmCtxs pm) a = Some c \<Longrightarrow> a < pmNext pm"
  using assms unfolding pm_ok_def by blast+

lemma newManager_ok: "pm_ok (allowed_ports rs) (newManager rs)"
  using free_ports [of rs] by (simp add: pm_ok_def newManager_def)

lemma mark_ok:
  assumes ok: "pm_ok allowed pm" and p: "p \<in> allowed"
  shows "pm_ok allowed (markPortAcquiredLocked name p now pm)"
proof -
  note d = pm_okD [OF ok]
  let ?a = "pmNext pm"
  have fresh: "mget (pmUsed pm) q \<noteq> Some ?a" "mget (pmReserved pm) n \<noteq> Some ?a" for q n
    using d(5)[of q ?a] d(6)[of n ?a] d(7)[of ?a] by blast+
  show ?thesis
    unfolding pm_ok_def markPortAcquiredLocked_def Let_def
  proof (intro conjI allI impI, goal_cases)
    case (4 q)
    then show ?case using d(4)[of q] p d(1) by (auto simp: gomap_simps)
  next
    case (5 q a)
    then show ?case using p d(5)[of q a] by (auto simp: gomap_simps split: if_splits)
  next
    case (6 q a)
    then show ?case using d(5)[of q a] fresh(1)[of q] by (auto simp: gomap_simps split: if_splits)
  next
    case (7 n a)
    show ?case
    proof (cases "n = name")
      case True
      with 7 p show ?thesis by (simp add: gomap_simps)
    next
      case False
      with 7 have r: "mget (pmReserved pm) n = Some a" by (simp add: gomap_simps)
      from d(6)[OF this] obtain c where c: "mget (pmCtxs pm) a = Some c" "pcName c = n" "pcPort c \<in> allowed" by blast
      have "a \<noteq> ?a" using r fresh(2)[of n] by auto
      then show ?thesis using c by (auto simp: gomap_simps)
    qed
  next
    case (8 a c)
    then show ?case using d(7)[of a c] by (auto simp: gomap_simps split: if_splits)
  qed (simp_all add: d(1-3) gomap_simps)
qed

lemma Release_ok:
  assumes ok: "pm_ok allowed pm" shows "pm_ok allowed (Release now port pm)"
proof (cases "mget (pmUsed pm) port")
  case None
  with ok show ?thesis by (simp add: Release_def)
next
  case (Some a)
  note d = pm_okD [OF ok]
  from d(5)[OF Some] obtain c where c: "port \<in> allowed" "mget (pmCtxs pm) a = Some c" "pcPort c = port" "\<not> pcClosed c" by blast
  have other: "b \<noteq> a" if "mget (pmUsed pm) q = Some b" "q \<noteq> port" for q b
    using d(5)[OF that(1)] c that(2) by auto
  show ?thesis
    unfolding pm_ok_def Release_def Some option.case c(2)
  proof (intro conjI allI impI, goal_cases)
    case (4 q)
    then show ?case using d(4)[of q] c(1) d(2) by (auto simp: gomap_simps)
  next
    case (5 q b)
    then show ?case using d(5)[of q b] d(2) by (auto simp: gomap_simps split: if_splits)
  next
    case (6 q b)
    then have q: "mget (pmUsed pm) q = Some b" "q \<noteq> port" using d(2) by (auto simp: gomap_simps split: if_splits)
    from d(5)[OF q(1)] other [OF q] show ?case by (auto simp: gomap_simps)
  next
    case (7 n b)
    then have "mget (pmReserved pm) n = Some b" by simp
    from d(6)[OF this] obtain x where x: "mget (pmCtxs pm) b = Some x" "pcName x = n" "pcPort x \<in> allowed" by blast
    show ?case
    proof (cases "b = a")
      case True
      with x c show ?thesis by (auto simp: gomap_simps)
    next
      case False
      with x Some d(2) show ?thesis by (auto simp: gomap_simps)
    qed
  next
    case (8 b x)
    then show ?case using d(7)[of b] c(2) by (auto simp: gomap_simps split: if_splits)
  qed (simp_all add: d(1-3) gomap_simps)
qed

lemma cleanReservedPortsOnce_ok: "pm_ok allowed pm \<Longrightarrow> pm_ok allowed (cleanReservedPortsOnce now pm)"
  unfolding pm_ok_def cleanReservedPortsOnce_def by (auto simp: gomap_simps split: option.splits if_splits)

section \<open>Acquiring\<close>

text \<open>The random choice is the first available one among the first five allowed candidates.\<close>

lemma try_random_find:
  "count \<le> 5 \<Longrightarrow> try_random avail rs count ks = find avail (take (5 - count) (filter (\<lambda>k. rs = [] \<or> frp_portInRanges k rs) ks))"
proof (induction ks arbitrary: count)
  case (Cons k ks)
  show ?case
  proof (cases "rs \<noteq> [] \<and> \<not> frp_portInRanges k rs \<or> count = 5")
    case True
    with Cons show ?thesis by auto
  next
    case False
    with Cons.prems have "count + 1 \<le> 5" by simp
    moreover have "count < 5" using False Cons.prems by auto
    then have "5 - count = Suc (5 - (count + 1))" by simp
    ultimately show ?thesis using Cons.IH [of "count + 1"] False by auto
  qed
qed simp

definition candidates :: "PortEnv \<Rightarrow> FrpRange list \<Rightarrow> PortManager \<Rightarrow> int list" where
  "candidates env rs pm =
     take 5 (filter (\<lambda>k. rs = [] \<or> frp_portInRanges k rs) (sort_key (paRank env) (map fst (pmFree pm))))"

lemma candidates_free: "mwf (pmFree pm) \<Longrightarrow> k \<in> set (candidates env rs pm) \<Longrightarrow> mget (pmFree pm) k \<noteq> None \<and> (rs = [] \<or> frp_portInRanges k rs)"
  by (auto simp: candidates_def mget_None_iff dest!: in_set_takeD)

lemma acquire_cases:
  assumes "acquire env name port rs pm = (pm', r)"
  obtains
    (kept) p where "port = 0" "reserved_port pm name = Some p" "paAvail env p"
      "pm' = markPortAcquiredLocked name p (paNow env) pm" "r = Inr p"
  | (random) p where "port = 0" "find (paAvail env) (candidates env rs pm) = Some p"
      "pm' = markPortAcquiredLocked name p (paNow env) pm" "r = (if p = 0 then Inl ErrNoAvailablePort else Inr p)"
  | (exhausted) "port = 0" "find (paAvail env) (candidates env rs pm) = None" "pm' = pm" "r = Inl ErrNoAvailablePort"
  | (chosen) "port \<noteq> 0" "rs = [] \<or> frp_portInRanges port rs" "mget (pmFree pm) port \<noteq> None" "paAvail env port"
      "pm' = markPortAcquiredLocked name port (paNow env) pm" "r = Inr port"
  | (forbidden) "port \<noteq> 0" "rs \<noteq> []" "\<not> frp_portInRanges port rs" "pm' = pm" "r = Inl ErrPortNotAllowed"
  | (occupied) "port \<noteq> 0" "mget (pmFree pm) port \<noteq> None" "\<not> paAvail env port" "pm' = pm" "r = Inl ErrPortUnAvailable"
  | (in_use) "port \<noteq> 0" "mget (pmUsed pm) port \<noteq> None" "mget (pmFree pm) port = None" "pm' = pm" "r = Inl ErrPortAlreadyUsed"
  | (unknown) "port \<noteq> 0" "mget (pmUsed pm) port = None" "mget (pmFree pm) port = None" "pm' = pm" "r = Inl ErrPortNotAllowed"
proof -
  have t: "try_random (paAvail env) rs 0 (sort_key (paRank env) (map fst (pmFree pm))) = find (paAvail env) (candidates env rs pm)"
    by (simp add: try_random_find candidates_def)
  show thesis
  proof (cases "port = 0")
    case True
    show thesis
    proof (cases "Option.bind (reserved_port pm name) (\<lambda>p. if paAvail env p then Some p else None)")
      case None
      have acq: "(case find (paAvail env) (candidates env rs pm) of None \<Rightarrow> (pm, Inl ErrNoAvailablePort)
        | Some k \<Rightarrow> (markPortAcquiredLocked name k (paNow env) pm, if k = 0 then Inl ErrNoAvailablePort else Inr k)) = (pm', r)"
        using assms unfolding acquire_def Let_def True t by (simp only: None if_True option.case simp_thms)
      show thesis
      proof (cases "find (paAvail env) (candidates env rs pm)")
        case None
        with acq show thesis by (intro exhausted [OF True]) simp_all
      next
        case (Some p)
        with acq show thesis by (intro random [OF True Some]) simp_all
      qed
    next
      case (Some p)
      then have "reserved_port pm name = Some p" "paAvail env p" by (auto simp: bind_eq_Some_conv split: if_splits)
      moreover have "(markPortAcquiredLocked name p (paNow env) pm, Inr p) = (pm', r)"
        using assms unfolding acquire_def Let_def True by (simp only: Some if_True option.case simp_thms)
      ultimately show thesis by (intro kept [OF True]) auto
    qed
  next
    case False
    have acq: "(if rs \<noteq> [] \<and> \<not> frp_portInRanges port rs then (pm, Inl ErrPortNotAllowed)
      else if mget (pmFree pm) port \<noteq> None then
        (if paAvail env port then (markPortAcquiredLocked name port (paNow env) pm, Inr port) else (pm, Inl ErrPortUnAvailable))
      else if mget (pmUsed pm) port \<noteq> None then (pm, Inl ErrPortAlreadyUsed) else (pm, Inl ErrPortNotAllowed)) = (pm', r)"
      using assms unfolding acquire_def Let_def by (simp only: False if_False option.case)
    show thesis
    proof (cases "rs \<noteq> [] \<and> \<not> frp_portInRanges port rs")
      case True
      with acq show thesis by (intro forbidden [OF False]) auto
    next
      case in_range: False
      show thesis
      proof (cases "mget (pmFree pm) port = None")
        case True
        with acq in_range show thesis
          by (cases "mget (pmUsed pm) port = None") (intro unknown [OF False] in_use [OF False]; simp)+
      next
        case free: False
        with acq in_range show thesis
          by (cases "paAvail env port") (intro chosen [OF False] occupied [OF False]; auto)+
      qed
    qed
  qed
qed

lemma reserved_allowed:
  assumes "pm_ok allowed pm" "reserved_port pm name = Some p" shows "p \<in> allowed"
  using pm_okD(6)[OF assms(1), of name] assms(2) by (auto simp: reserved_port_def split: option.splits)

text \<open>What an acquisition hands out is allowed, and free unless it is the port reserved under the name.\<close>

lemma acquire_takes:
  assumes ok: "pm_ok allowed pm" and acq: "acquire env name port rs pm = (pm', r)"
  shows "pm' = pm \<and> \<not> is_ok r \<or>
    (\<exists>p. pm' = markPortAcquiredLocked name p (paNow env) pm \<and> p \<in> allowed \<and> paAvail env p \<and>
       (mget (pmFree pm) p \<noteq> None \<or> port = 0 \<and> reserved_port pm name = Some p) \<and> (r = Inr p \<or> p = 0 \<and> \<not> is_ok r))"
  using acq
proof (cases rule: acquire_cases)
  case (kept p)
  with reserved_allowed [OF ok kept(2)] show ?thesis by (intro disjI2 exI [of _ p]) simp
next
  case (random p)
  then have p: "p \<in> set (candidates env rs pm)" "paAvail env p" by (auto simp: find_Some_iff)
  with candidates_free [OF pm_okD(1)[OF ok] p(1)] pm_okD(4)[OF ok, of p] random show ?thesis
    by (intro disjI2 exI [of _ p]) auto
next
  case chosen
  with pm_okD(4)[OF ok, of port] show ?thesis by (intro disjI2 exI [of _ port]) simp
qed simp_all

text \<open>What an acquisition marks is allowed and was not in use, when every port in use is bound.\<close>

lemma acquire_marks:
  assumes ok: "pm_ok allowed pm" and hon: "honest env pm" and acq: "acquire env name port rs pm = (pm', r)"
  shows "pm' = pm \<and> \<not> is_ok r \<or>
    (\<exists>p. pm' = markPortAcquiredLocked name p (paNow env) pm \<and> p \<in> allowed \<and> mget (pmUsed pm) p = None \<and> paAvail env p \<and>
       (port \<noteq> 0 \<longrightarrow> p = port) \<and> (rs = [] \<or> frp_portInRanges p rs \<or> port = 0 \<and> reserved_port pm name = Some p) \<and>
       (p \<noteq> 0 \<longrightarrow> r = Inr p))"
  using acq
proof (cases rule: acquire_cases)
  case (kept p)
  have "p \<in> allowed" by (rule reserved_allowed [OF ok kept(2)])
  moreover have "mget (pmUsed pm) p = None" using hon kept(3) unfolding honest_def by blast
  ultimately show ?thesis using kept by (intro disjI2 exI [of _ p]) simp
next
  case (random p)
  then have p: "p \<in> set (candidates env rs pm)" "paAvail env p" by (auto simp: find_Some_iff)
  note f = candidates_free [OF pm_okD(1)[OF ok] p(1)]
  with pm_okD(4)[OF ok, of p] random p(2) show ?thesis by (intro disjI2 exI [of _ p]) auto
next
  case chosen
  with pm_okD(4)[OF ok, of port] show ?thesis by (intro disjI2 exI [of _ port]) simp
qed simp_all


lemma acquire_ok: "pm_ok allowed pm \<Longrightarrow> pm_ok allowed (fst (acquire env name port rs pm))"
  using acquire_takes [of allowed pm env name port rs] mark_ok [of allowed pm]
  by (cases "acquire env name port rs pm") auto

lemma ports_reachable_ok: "ports_reachable ranges pm \<Longrightarrow> pm_ok (allowed_ports ranges) pm"
proof (induction rule: ports_reachable.induct)
  case new
  show ?case by (rule newManager_ok)
next
  case (step pm pm')
  from step(2,3) show ?case
    by (induction rule: port_step.induct) (simp_all add: acquire_ok Release_ok cleanReservedPortsOnce_ok)
qed

section \<open>The properties\<close>

lemma mark_used [simp]: "mget (pmUsed (markPortAcquiredLocked name p now pm)) q = (if q = p then Some (pmNext pm) else mget (pmUsed pm) q)"
  by (simp add: markPortAcquiredLocked_def Let_def gomap_simps)

lemma mark_reserved: "reserved_port (markPortAcquiredLocked name p now pm) name = Some p"
  by (simp add: reserved_port_def markPortAcquiredLocked_def Let_def gomap_simps)

lemma Release_used: "mwf (pmUsed pm) \<Longrightarrow> mget (pmUsed (Release now p pm)) q = (if q = p then None else mget (pmUsed pm) q)"
  by (auto simp: Release_def gomap_simps split: option.split)

text \<open>C14. A port manager keeps its books, whatever the order of acquisitions, releases and cleanings and whatever the trial
  listens find: each allowed port is free or in use, never both, and no other port is either; a port in use has a
  context of its own that names it and is open; releasing a port in use makes it free and leaves the others in use. An
  acquisition hands out a port that is free and now in use, or else, to a proxy that asks for none, the port reserved under
  its name, which is not looked for among the free ones and may be in use already; no other port changes hands.\<close>

theorem ports_accounted:
  assumes "ports_reachable ranges pm"
  shows "(\<forall>p. p \<in> allowed_ports ranges \<longleftrightarrow> (mget (pmFree pm) p \<noteq> None) \<noteq> (mget (pmUsed pm) p \<noteq> None)) \<and>
    (\<forall>p. \<not> (mget (pmFree pm) p \<noteq> None \<and> mget (pmUsed pm) p \<noteq> None)) \<and>
    (\<forall>p a. mget (pmUsed pm) p = Some a \<longrightarrow> (\<exists>c. mget (pmCtxs pm) a = Some c \<and> pcPort c = p \<and> \<not> pcClosed c) \<and>
       (\<forall>q. mget (pmUsed pm) q = Some a \<longrightarrow> p = q)) \<and>
    (\<forall>p now. mget (pmUsed pm) p \<noteq> None \<longrightarrow> mget (pmFree (Release now p pm)) p \<noteq> None \<and>
       (\<forall>q. mget (pmUsed (Release now p pm)) q = (if q = p then None else mget (pmUsed pm) q))) \<and>
    (\<forall>env name port rs pm' p. acquire env name port rs pm = (pm', Inr p) \<longrightarrow>
       (mget (pmFree pm) p \<noteq> None \<or> port = 0 \<and> reserved_port pm name = Some p) \<and> paAvail env p \<and>
       (\<forall>q. (mget (pmUsed pm') q \<noteq> None) = (q = p \<or> mget (pmUsed pm) q \<noteq> None)))"
proof -
  note ok = ports_reachable_ok [OF assms]
  note d = pm_okD [OF ok]
  have "p \<in> allowed_ports ranges \<longleftrightarrow> (mget (pmFree pm) p \<noteq> None) \<noteq> (mget (pmUsed pm) p \<noteq> None)" for p
    using d(4)[of p] d(5)[of p] by (cases "mget (pmUsed pm) p") auto
  moreover have "\<not> (mget (pmFree pm) p \<noteq> None \<and> mget (pmUsed pm) p \<noteq> None)" for p using d(4)[of p] by argo
  moreover have "(\<exists>c. mget (pmCtxs pm) a = Some c \<and> pcPort c = p \<and> \<not> pcClosed c) \<and> (\<forall>q. mget (pmUsed pm) q = Some a \<longrightarrow> p = q)"
    if "mget (pmUsed pm) p = Some a" for p a
    using d(5)[OF that] d(5)[of _ a] by auto
  moreover have "mget (pmFree (Release now p pm)) p \<noteq> None" if "mget (pmUsed pm) p \<noteq> None" for p now
    using that by (auto simp: Release_def gomap_simps)
  moreover have "(mget (pmFree pm) p \<noteq> None \<or> port = 0 \<and> reserved_port pm name = Some p) \<and> paAvail env p \<and>
      (\<forall>q. (mget (pmUsed pm') q \<noteq> None) = (q = p \<or> mget (pmUsed pm) q \<noteq> None))"
    if "acquire env name port rs pm = (pm', Inr p)" for env name port rs pm' p
    using acquire_takes [OF ok that] by auto
  ultimately show ?thesis using Release_used [OF d(2)] by blast
qed

text \<open>A port that is acquired and not yet bound is handed out once more, to the proxy it is reserved for.\<close>

lemma reserved_port_handed_out_twice:
  "reserved_port pm name = Some p \<Longrightarrow> mget (pmUsed pm) p \<noteq> None \<Longrightarrow> paAvail env p \<Longrightarrow>
   acquire env name 0 rs pm = (markPortAcquiredLocked name p (paNow env) pm, Inr p)"
  by (simp add: acquire_def)

text \<open>An acquisition either hands out a port that is allowed, was not in use and is now, answers the port that was asked for,
  and keeps to the given ranges unless the port was reserved under the proxy's name; or it changes nothing and its
  error says why. A free available port that is asked for is always given.\<close>

theorem acquire_outcome:
  assumes "ports_reachable ranges pm" "honest env pm" "0 \<notin> allowed_ports ranges" "acquire env name port rs pm = (pm', r)"
  shows "(case r of
      Inr p \<Rightarrow> p \<in> allowed_ports ranges \<and> mget (pmUsed pm) p = None \<and> paAvail env p \<and> (port \<noteq> 0 \<longrightarrow> p = port) \<and>
        (rs = [] \<or> frp_portInRanges p rs \<or> port = 0 \<and> reserved_port pm name = Some p) \<and>
        reserved_port pm' name = Some p \<and> (\<forall>q. (mget (pmUsed pm') q \<noteq> None) = (q = p \<or> mget (pmUsed pm) q \<noteq> None))
    | Inl e \<Rightarrow> pm' = pm \<and> (case e of
          ErrNoAvailablePort \<Rightarrow> port = 0 \<and> (\<forall>k \<in> set (candidates env rs pm). \<not> paAvail env k)
        | ErrPortNotAllowed \<Rightarrow> port \<notin> allowed_ports ranges \<or> rs \<noteq> [] \<and> \<not> frp_portInRanges port rs
        | ErrPortUnAvailable \<Rightarrow> port \<in> allowed_ports ranges \<and> mget (pmUsed pm) port = None \<and> \<not> paAvail env port
        | ErrPortAlreadyUsed \<Rightarrow> mget (pmUsed pm) port \<noteq> None))"
proof -
  note ok = ports_reachable_ok [OF assms(1)]
  note d4 = pm_okD(4)[OF ok]
  from acquire_marks [OF ok assms(2,4)] consider (err) "pm' = pm" "\<not> is_ok r"
    | (mark) p where "pm' = markPortAcquiredLocked name p (paNow env) pm" "p \<in> allowed_ports ranges" "mget (pmUsed pm) p = None"
      "paAvail env p" "port \<noteq> 0 \<longrightarrow> p = port" "rs = [] \<or> frp_portInRanges p rs \<or> port = 0 \<and> reserved_port pm name = Some p"
      "p \<noteq> 0 \<longrightarrow> r = Inr p" by blast
  then show ?thesis
  proof cases
    case mark
    with assms(3) have "r = Inr p" by blast
    with mark show ?thesis by (auto simp: mark_reserved)
  next
    case err
    from assms(4) err(2) show ?thesis
    proof (cases rule: acquire_cases)
      case (random p)
      then have "p \<in> set (candidates env rs pm)" by (auto simp: find_Some_iff)
      from candidates_free [OF pm_okD(1)[OF ok] this] d4 [of p] assms(3) have "p \<noteq> 0" by auto
      with random err show ?thesis by simp
    qed (use d4 [of port] in \<open>auto simp: find_None_iff\<close>)
  qed
qed

text \<open>The port reserved for a name is handed out without a look at the ranges of the user who asks.\<close>

lemma reserved_port_ignores_ranges:
  "reserved_port pm name = Some p \<Longrightarrow> paAvail env p \<Longrightarrow> snd (acquire env name 0 rs pm) = Inr p"
  by (simp add: acquire_def)

section \<open>Witnesses\<close>

definition demo_port_env :: PortEnv where
  "demo_port_env = \<lparr>paNow = 5, paAvail = (\<lambda>p. p \<noteq> 7000), paRank = (\<lambda>p. nat p)\<rparr>"

definition demo_ranges :: "FrpRange list" where
  "demo_ranges = [\<lparr>frStart = 7000, frEnd = 7003, frSingle = 0\<rparr>, \<lparr>frStart = 0, frEnd = 0, frSingle = 9000\<rparr>]"

definition demo_pm :: PortManager where
  "demo_pm = fst (acquire demo_port_env ''web'' 7001 [] (newManager demo_ranges))"

lemma demo_pm_reachable: "ports_reachable demo_ranges demo_pm"
  unfolding demo_pm_def
  by (rule ports_reachable.step [OF ports_reachable.new port_step.acquired])

theorem ports_accounted_witness:
  "mget (pmUsed demo_pm) 7001 = Some 0 \<and> mget (pmFree (Release 9 7001 demo_pm)) 7001 \<noteq> None"
proof -
  have u: "mget (pmUsed demo_pm) 7001 = Some 0" by code_simp
  with ports_accounted [OF demo_pm_reachable] show ?thesis by auto
qed

theorem acquire_outcome_witness:
  "snd (acquire (demo_port_env\<lparr>paAvail := (\<lambda>p. p = 9000)\<rparr>) ''db'' 9000 demo_ranges demo_pm) = Inr 9000 \<and> mget (pmUsed demo_pm) 9000 = None"
proof -
  let ?env = "demo_port_env\<lparr>paAvail := (\<lambda>p. p = 9000)\<rparr>"
  let ?r = "acquire ?env ''db'' 9000 demo_ranges demo_pm"
  have s: "snd ?r = Inr 9000" by code_simp
  then have r: "?r = (fst ?r, Inr 9000)" by (simp add: prod_eq_iff)
  have "list_all (\<lambda>(p, _). p \<noteq> 9000) (pmUsed demo_pm)" by code_simp
  then have h: "honest ?env demo_pm" by (auto simp: honest_def list_all_iff dest!: mget_Some_mem)
  have z: "0 \<notin> allowed_ports demo_ranges" by (simp add: allowed_ports_def demo_ranges_def)
  from acquire_outcome [OF demo_pm_reachable h z r] have "mget (pmUsed demo_pm) 9000 = None" by simp
  with s show ?thesis by blast
qed

end
