(* ===== verification/FrpServerInv.thy ===== *)
theory FrpServerInv
  imports FrpControl FrpPortsInv
begin

text \<open>
  The frp server keeps track of its ports: every tcp port in use belongs to exactly one live proxy or to
  one group with listeners, and running and closing a proxy keep it so.
\<close>

section \<open>The invariant\<close>

definition ports_ok :: "int set \<Rightarrow> FrpServer \<Rightarrow> bool" where
  "ports_ok R s \<longleftrightarrow> pm_ok R (fvTCP s) \<and> pm_ok R (fvUDP s) \<and> distinct (fvTcpBound s) \<and> distinct (fvUdpBound s) \<and>
     (\<forall>p. mget (pmUsed (fvTCP s)) p \<noteq> None \<longleftrightarrow> p \<in> set (fvTcpBound s)) \<and>
     (\<forall>p. mget (pmUsed (fvUDP s)) p \<noteq> None \<longrightarrow> p \<in> set (fvUdpBound s))"

abbreviation is_tcp :: "FrpProxy \<Rightarrow> bool" where "is_tcp px \<equiv> pfType (pxConf px) = TCPProxyType"
abbreviation is_udp :: "FrpProxy \<Rightarrow> bool" where "is_udp px \<equiv> pfType (pxConf px) = UDPProxyType"
abbreviation grouped :: "FrpProxy \<Rightarrow> bool" where "grouped px \<equiv> pfGroup (pxConf px) \<noteq> []"

text \<open>The owner of a tcp port: a proxy without a group, or a group.\<close>

fun owns :: "FrpServer \<Rightarrow> int \<Rightarrow> string + string \<Rightarrow> bool" where
  "owns s p (Inl n) = (\<exists>px. mget (fvPxys s) n = Some px \<and> is_tcp px \<and> \<not> grouped px \<and> pxRealPort px = p)"
| "owns s p (Inr g) = (\<exists>tg. mget (fvTcpGroups s) g = Some tg \<and> tgLns tg \<noteq> [] \<and> tgRealPort tg = p)"

definition owners_ok :: "FrpServer \<Rightarrow> bool" where
  "owners_ok s \<longleftrightarrow> (\<forall>p. p \<in> set (fvTcpBound s) \<longleftrightarrow> (\<exists>own. owns s p own)) \<and>
     (\<forall>p own own'. owns s p own \<longrightarrow> owns s p own' \<longrightarrow> own = own')"

definition member_of :: "FrpProxy \<Rightarrow> string \<Rightarrow> nat \<Rightarrow> bool" where
  "member_of px g ln \<longleftrightarrow> is_tcp px \<and> pfGroup (pxConf px) = g \<and> g \<noteq> [] \<and> pxListeners px = [TcpGroupListener g ln]"

definition shape_ok :: "FrpServer \<Rightarrow> string \<Rightarrow> FrpProxy \<Rightarrow> bool" where
  "shape_ok s n px \<longleftrightarrow> pfName (pxConf px) = n \<and>
     (case pfType (pxConf px) of
        TCPProxyType \<Rightarrow> if grouped px then \<exists>ln tg. member_of px (pfGroup (pxConf px)) ln \<and>
            mget (fvTcpGroups s) (pfGroup (pxConf px)) = Some tg \<and> ln \<in> set (tgLns tg)
          else pxListeners px = [PortListener (pxRealPort px)]
      | UDPProxyType \<Rightarrow> pxListeners px = [PortListener (pxRealPort px)] \<and> pxRealPort px \<in> set (fvUdpBound s)
      | HTTPProxyType \<Rightarrow> pxListeners px = []
      | HTTPSProxyType \<Rightarrow> (\<forall>l \<in> set (pxListeners px). case l of MuxListener _ \<Rightarrow> True | HttpsGroupListener _ _ \<Rightarrow> True | _ \<Rightarrow> False))"

definition groups_ok :: "FrpServer \<Rightarrow> bool" where
  "groups_ok s \<longleftrightarrow> (\<forall>g tg. mget (fvTcpGroups s) g = Some tg \<longrightarrow> distinct (tgLns tg) \<and>
     (\<forall>ln \<in> set (tgLns tg). ln < fvNext s \<and> (\<exists>n px. mget (fvPxys s) n = Some px \<and> member_of px g ln)))"

definition apart_ok :: "FrpServer \<Rightarrow> bool" where
  "apart_ok s \<longleftrightarrow> (\<forall>n n' px px'. mget (fvPxys s) n = Some px \<longrightarrow> mget (fvPxys s) n' = Some px' \<longrightarrow> n \<noteq> n' \<longrightarrow>
     (is_udp px \<longrightarrow> is_udp px' \<longrightarrow> pxRealPort px \<noteq> pxRealPort px') \<and>
     (\<forall>g g' ln. member_of px g ln \<longrightarrow> \<not> member_of px' g' ln))"

definition server_ok :: "int set \<Rightarrow> FrpServer \<Rightarrow> bool" where
  "server_ok R s \<longleftrightarrow> ports_ok R s \<and> owners_ok s \<and> groups_ok s \<and> apart_ok s \<and>
     (\<forall>n px. mget (fvPxys s) n = Some px \<longrightarrow> shape_ok s n px)"

lemma server_okD:
  assumes "server_ok R s"
  shows "ports_ok R s" "owners_ok s" "groups_ok s" "apart_ok s" "mget (fvPxys s) n = Some px \<Longrightarrow> shape_ok s n px"
  using assms unfolding server_ok_def by blast+

text \<open>The invariant looks at these fields only.\<close>

definition same_ports :: "FrpServer \<Rightarrow> FrpServer \<Rightarrow> bool" where
  "same_ports s s' \<longleftrightarrow> fvTCP s' = fvTCP s \<and> fvUDP s' = fvUDP s \<and> fvTcpBound s' = fvTcpBound s \<and> fvUdpBound s' = fvUdpBound s \<and>
     fvTcpGroups s' = fvTcpGroups s \<and> fvPxys s' = fvPxys s \<and> fvNext s \<le> fvNext s'"

lemma same_ports_refl [simp]: "same_ports s s" by (simp add: same_ports_def)

lemma same_ports_trans: "same_ports s s' \<Longrightarrow> same_ports s' s'' \<Longrightarrow> same_ports s s''"
  by (simp add: same_ports_def)

lemma server_ok_frame:
  assumes ok: "server_ok R s" and same: "same_ports s s'" shows "server_ok R s'"
proof -
  note e = same [unfolded same_ports_def]
  have "owns s' p own = owns s p own" for p own using e by (cases own) simp_all
  moreover have "shape_ok s' n px = shape_ok s n px" for n px using e by (simp only: shape_ok_def)
  moreover have "groups_ok s'"
    unfolding groups_ok_def
  proof (intro allI impI conjI ballI)
    fix g tg assume "mget (fvTcpGroups s') g = Some tg"
    then have "mget (fvTcpGroups s) g = Some tg" using e by simp
    with server_okD(3)[OF ok] have t: "distinct (tgLns tg)"
      "\<And>ln. ln \<in> set (tgLns tg) \<Longrightarrow> ln < fvNext s \<and> (\<exists>n px. mget (fvPxys s) n = Some px \<and> member_of px g ln)"
      unfolding groups_ok_def by blast+
    show "distinct (tgLns tg)" by (rule t(1))
    fix ln assume "ln \<in> set (tgLns tg)"
    from t(2)[OF this] e show "ln < fvNext s'" "\<exists>n px. mget (fvPxys s') n = Some px \<and> member_of px g ln" by auto
  qed
  ultimately show ?thesis using ok e by (simp add: server_ok_def ports_ok_def owners_ok_def apart_ok_def)
qed

section \<open>Acquiring a port\<close>

lemma tcp_acquire:
  assumes ok: "ports_ok R s" and z: "0 \<notin> R" and acq: "acquire (port_env env (fvTcpBound s)) name port rs (fvTCP s) = (pm, r)"
  shows "(case r of Inl e \<Rightarrow> pm = fvTCP s
     | Inr p \<Rightarrow> p \<notin> set (fvTcpBound s) \<and> ports_ok R (s\<lparr>fvTCP := pm, fvTcpBound := p # fvTcpBound s\<rparr>) \<and>
         ports_ok R (s\<lparr>fvTCP := Release now p pm\<rparr>))"
proof -
  have "honest (port_env env (fvTcpBound s)) (fvTCP s)" using ok by (simp add: honest_def port_env_def ports_ok_def)
  moreover have pm: "pm_ok R (fvTCP s)" using ok by (simp add: ports_ok_def)
  ultimately consider "pm = fvTCP s" "\<not> is_ok r"
    | (mark) p where "pm = markPortAcquiredLocked name p (reNow env) (fvTCP s)" "p \<in> R" "mget (pmUsed (fvTCP s)) p = None"
      "p \<notin> set (fvTcpBound s)" "p \<noteq> 0 \<longrightarrow> r = Inr p"
    using acquire_marks [OF _ _ acq] unfolding port_env_def by auto
  then show ?thesis
  proof cases
    case mark
    with z have r: "r = Inr p" by blast
    have m: "pm_ok R pm" unfolding mark(1) by (rule mark_ok [OF pm mark(2)])
    have u: "(mget (pmUsed pm) q \<noteq> None) = (q = p \<or> mget (pmUsed (fvTCP s)) q \<noteq> None)" for q
      unfolding mark(1) by simp
    have v: "mget (pmUsed (Release now p pm)) q = mget (pmUsed (fvTCP s)) q" for q
      using mark(3) unfolding Release_used [OF pm_okD(2)[OF m]] by (simp add: mark(1))
    show ?thesis using m ok mark(4) Release_ok [OF m] unfolding ports_ok_def r sum.case by (simp add: u v del: not_None_eq)
  qed (cases r, auto)
qed

lemma udp_acquire:
  assumes ok: "ports_ok R s" and z: "0 \<notin> R" and acq: "acquire (port_env env (fvUdpBound s)) name port rs (fvUDP s) = (pm, r)"
  shows "(case r of Inl e \<Rightarrow> pm = fvUDP s
     | Inr p \<Rightarrow> p \<notin> set (fvUdpBound s) \<and> ports_ok R (s\<lparr>fvUDP := pm, fvUdpBound := p # fvUdpBound s\<rparr>) \<and>
         ports_ok R (s\<lparr>fvUDP := Release now p pm\<rparr>))"
proof -
  have "honest (port_env env (fvUdpBound s)) (fvUDP s)" using ok by (auto simp: honest_def port_env_def ports_ok_def)
  moreover have pm: "pm_ok R (fvUDP s)" using ok by (simp add: ports_ok_def)
  ultimately consider "pm = fvUDP s" "\<not> is_ok r"
    | (mark) p where "pm = markPortAcquiredLocked name p (reNow env) (fvUDP s)" "p \<in> R" "mget (pmUsed (fvUDP s)) p = None"
      "p \<notin> set (fvUdpBound s)" "p \<noteq> 0 \<longrightarrow> r = Inr p"
    using acquire_marks [OF _ _ acq] unfolding port_env_def by auto
  then show ?thesis
  proof cases
    case mark
    with z have r: "r = Inr p" by blast
    have m: "pm_ok R pm" unfolding mark(1) by (rule mark_ok [OF pm mark(2)])
    have u: "(mget (pmUsed pm) q \<noteq> None) = (q = p \<or> mget (pmUsed (fvUDP s)) q \<noteq> None)" for q
      unfolding mark(1) by simp
    have v: "mget (pmUsed (Release now p pm)) q = mget (pmUsed (fvUDP s)) q" for q
      using mark(3) unfolding Release_used [OF pm_okD(2)[OF m]] by (simp add: mark(1))
    show ?thesis using m ok mark(4) Release_ok [OF m] unfolding ports_ok_def r sum.case by (simp add: u v del: not_None_eq)
  qed (cases r, auto)
qed

text \<open>Releasing and unbinding a tcp port.\<close>

lemma tcp_release:
  assumes ok: "ports_ok R s" shows "ports_ok R (s\<lparr>fvTcpBound := remove1 p (fvTcpBound s), fvTCP := Release now p (fvTCP s)\<rparr>)"
proof -
  have pm: "pm_ok R (fvTCP s)" using ok by (simp add: ports_ok_def)
  show ?thesis using ok Release_ok [OF pm] unfolding ports_ok_def by (simp add: Release_used [OF pm_okD(2)[OF pm]] del: not_None_eq)
qed

lemma udp_release:
  assumes ok: "ports_ok R s" shows "ports_ok R (s\<lparr>fvUdpBound := remove1 p (fvUdpBound s), fvUDP := Release now p (fvUDP s)\<rparr>)"
    "ports_ok R (s\<lparr>fvUDP := Release now p (fvUDP s)\<rparr>)"
proof -
  have pm: "pm_ok R (fvUDP s)" using ok by (simp add: ports_ok_def)
  note u = Release_used [OF pm_okD(2)[OF pm]]
  show "ports_ok R (s\<lparr>fvUdpBound := remove1 p (fvUdpBound s), fvUDP := Release now p (fvUDP s)\<rparr>)"
    "ports_ok R (s\<lparr>fvUDP := Release now p (fvUDP s)\<rparr>)"
    using ok Release_ok [OF pm] unfolding ports_ok_def by (simp_all add: u del: not_None_eq)
qed


section \<open>A new proxy\<close>

abbreviation with_pxy :: "string \<Rightarrow> FrpProxy \<Rightarrow> FrpServer \<Rightarrow> FrpServer" where
  "with_pxy n px s \<equiv> s\<lparr>fvPxys := mput n px (fvPxys s)\<rparr>"

lemma owners_okD:
  assumes "owners_ok s"
  shows "p \<in> set (fvTcpBound s) \<longleftrightarrow> (\<exists>own. owns s p own)" "owns s p own \<Longrightarrow> owns s p own' \<Longrightarrow> own = own'"
  using assms unfolding owners_ok_def by blast+

lemma apart_okD:
  assumes "apart_ok s" "mget (fvPxys s) n = Some px" "mget (fvPxys s) n' = Some px'" "n \<noteq> n'"
  shows "is_udp px \<Longrightarrow> is_udp px' \<Longrightarrow> pxRealPort px \<noteq> pxRealPort px'" "member_of px g ln \<Longrightarrow> \<not> member_of px' g' ln"
  using assms unfolding apart_ok_def by blast+

lemma groups_okD:
  assumes "groups_ok s" "mget (fvTcpGroups s) g = Some tg"
  shows "distinct (tgLns tg)" "ln \<in> set (tgLns tg) \<Longrightarrow> ln < fvNext s \<and> (\<exists>n px. mget (fvPxys s) n = Some px \<and> member_of px g ln)"
  using assms unfolding groups_ok_def by blast+

text \<open>Owners after the port \<open>p\<close>, which had none, gets the owner \<open>o1\<close>.\<close>

lemma owners_add:
  assumes ok: "owners_ok s" and p: "p \<notin> set (fvTcpBound s)" and b: "fvTcpBound s' = p # fvTcpBound s"
    and o: "\<And>q own. owns s' q own \<longleftrightarrow> owns s q own \<or> q = p \<and> own = o1"
  shows "owners_ok s'"
proof -
  have none: "\<not> owns s p own" for own using owners_okD(1)[OF ok, of p] p by blast
  show ?thesis
    unfolding owners_ok_def b o
    using owners_okD(1)[OF ok] owners_okD(2)[OF ok] none by (auto split: if_splits)
qed

lemma fresh_pxy [simp]: "mget (fvPxys s) n = None \<Longrightarrow> mget (fvPxys (with_pxy n px s)) m = (if m = n then Some px else mget (fvPxys s) m)"
  by (simp add: gomap_simps)

lemma apart_add:
  assumes ok: "apart_ok s" and pxys: "fvPxys s' = mput n px (fvPxys s)"
    and new: "\<And>m px'. m \<noteq> n \<Longrightarrow> mget (fvPxys s) m = Some px' \<Longrightarrow> (is_udp px \<longrightarrow> is_udp px' \<longrightarrow> pxRealPort px' \<noteq> pxRealPort px) \<and>
      (\<forall>g g' ln. member_of px g ln \<longrightarrow> \<not> member_of px' g' ln)"
  shows "apart_ok s'"
  unfolding apart_ok_def pxys
proof (intro allI impI)
  fix m m' x x' assume a: "mget (mput n px (fvPxys s)) m = Some x" "mget (mput n px (fvPxys s)) m' = Some x'" "m \<noteq> m'"
  consider "m = n" "m' \<noteq> n" | "m \<noteq> n" "m' = n" | "m \<noteq> n" "m' \<noteq> n" using a(3) by blast
  then show "(is_udp x \<longrightarrow> is_udp x' \<longrightarrow> pxRealPort x \<noteq> pxRealPort x') \<and> (\<forall>g g' ln. member_of x g ln \<longrightarrow> \<not> member_of x' g' ln)"
  proof cases
    case 1
    with a new [of m' x'] show ?thesis by (auto simp: gomap_simps)
  next
    case 2
    with a new [of m x] show ?thesis by (auto simp: gomap_simps)
  next
    case 3
    with a have m: "mget (fvPxys s) m = Some x" "mget (fvPxys s) m' = Some x'" by (auto simp: gomap_simps)
    show ?thesis using apart_okD [OF ok m a(3)] by blast
  qed
qed

lemma member_of_unique: "member_of px g ln \<Longrightarrow> member_of px g' ln' \<Longrightarrow> g' = g \<and> ln' = ln"
  by (simp add: member_of_def)

lemma shape_cong:
  "fvTcpGroups s' = fvTcpGroups s \<Longrightarrow> fvUdpBound s' = fvUdpBound s \<Longrightarrow> shape_ok s' n px = shape_ok s n px"
  by (simp only: shape_ok_def)

lemma groups_add:
  assumes ok: "groups_ok s" and g: "fvTcpGroups s' = fvTcpGroups s" "fvNext s' = fvNext s" and n: "mget (fvPxys s) n = None"
    and p: "fvPxys s' = mput n px (fvPxys s)"
  shows "groups_ok s'"
  unfolding groups_ok_def
proof (intro allI impI conjI ballI)
  fix h tg assume "mget (fvTcpGroups s') h = Some tg"
  then have t: "mget (fvTcpGroups s) h = Some tg" by (simp add: g)
  show "distinct (tgLns tg)" by (rule groups_okD(1)[OF ok t])
  fix ln assume "ln \<in> set (tgLns tg)"
  from groups_okD(2)[OF ok t this] obtain m y where m: "ln < fvNext s" "mget (fvPxys s) m = Some y" "member_of y h ln" by blast
  moreover have "m \<noteq> n" using m(2) n by auto
  ultimately show "ln < fvNext s'" "\<exists>m y. mget (fvPxys s') m = Some y \<and> member_of y h ln" by (auto simp: g p gomap_simps)
qed

lemma shape_add:
  assumes old: "\<And>m y. mget (fvPxys s) m = Some y \<Longrightarrow> shape_ok s m y" and p: "fvPxys s' = mput n px (fvPxys s)" and new: "shape_ok s' n px"
    and same: "fvTcpGroups s' = fvTcpGroups s" "set (fvUdpBound s) \<subseteq> set (fvUdpBound s')"
    and m: "mget (fvPxys s') m = Some y"
  shows "shape_ok s' m y"
proof (cases "m = n")
  case True
  with m p new show ?thesis by (simp add: gomap_simps)
next
  case False
  with m p old [of m y] have "shape_ok s m y" by (simp add: gomap_simps)
  with same show ?thesis unfolding shape_ok_def by (auto split: proxy_type.splits if_splits)
qed

lemma add_tcp:
  assumes ok: "server_ok R s" and n: "mget (fvPxys s) n = None" and p: "p \<notin> set (fvTcpBound s)"
    and ports: "ports_ok R (s\<lparr>fvTCP := pm, fvTcpBound := p # fvTcpBound s\<rparr>)"
    and px: "pfName (pxConf px) = n" "is_tcp px" "\<not> grouped px" "pxRealPort px = p" "pxListeners px = [PortListener p]"
  shows "server_ok R (with_pxy n px (s\<lparr>fvTCP := pm, fvTcpBound := p # fvTcpBound s\<rparr>))" (is "server_ok R ?s")
proof -
  note d = server_okD [OF ok]
  have "owns ?s q own \<longleftrightarrow> owns s q own \<or> q = p \<and> own = Inl n" for q own
    using n px by (cases own) (auto simp: gomap_simps)
  from owners_add [OF d(2) p _ this] have "owners_ok ?s" by simp
  moreover have "apart_ok ?s"
    by (rule apart_add [OF d(4), of _ n px]) (use px in \<open>auto simp: member_of_def\<close>)
  moreover have "groups_ok ?s" by (rule groups_add [OF d(3) _ _ n, of _ px]) simp_all
  moreover have shape: "shape_ok ?s n px" using px by (simp add: shape_ok_def)
  have "shape_ok ?s m y" if "mget (fvPxys ?s) m = Some y" for m y
    by (rule shape_add [OF d(5) _ shape _ _ that]) auto
  moreover have "ports_ok R ?s" using ports by (simp add: ports_ok_def)
  ultimately show ?thesis unfolding server_ok_def by blast
qed

lemma add_udp:
  assumes ok: "server_ok R s" and n: "mget (fvPxys s) n = None" and p: "p \<notin> set (fvUdpBound s)"
    and ports: "ports_ok R (s\<lparr>fvUDP := pm, fvUdpBound := p # fvUdpBound s\<rparr>)"
    and px: "pfName (pxConf px) = n" "is_udp px" "pxRealPort px = p" "pxListeners px = [PortListener p]"
  shows "server_ok R (with_pxy n px (s\<lparr>fvUDP := pm, fvUdpBound := p # fvUdpBound s\<rparr>))" (is "server_ok R ?s")
proof -
  note d = server_okD [OF ok]
  have "owns ?s q own = owns s q own" for q own
    using n px by (cases own) (auto simp: gomap_simps)
  with d(2) have "owners_ok ?s" by (simp add: owners_ok_def)
  moreover have "apart_ok ?s"
  proof (rule apart_add [OF d(4), of _ n px])
    fix m y assume "mget (fvPxys s) m = Some y"
    from d(5)[OF this] p px show "(is_udp px \<longrightarrow> is_udp y \<longrightarrow> pxRealPort y \<noteq> pxRealPort px) \<and>
      (\<forall>g g' ln. member_of px g ln \<longrightarrow> \<not> member_of y g' ln)"
      by (auto simp: shape_ok_def member_of_def)
  qed simp
  moreover have "groups_ok ?s" by (rule groups_add [OF d(3) _ _ n, of _ px]) simp_all
  moreover have shape: "shape_ok ?s n px" using px by (simp add: shape_ok_def)
  have "shape_ok ?s m y" if "mget (fvPxys ?s) m = Some y" for m y
    by (rule shape_add [OF d(5) _ shape _ _ that]) auto
  moreover have "ports_ok R ?s" using ports by (simp add: ports_ok_def)
  ultimately show ?thesis unfolding server_ok_def by blast
qed

lemma add_web:
  assumes ok: "server_ok R s" and n: "mget (fvPxys s) n = None"
    and px: "pfName (pxConf px) = n" "\<not> is_tcp px" "\<not> is_udp px" "shape_ok s n px"
  shows "server_ok R (with_pxy n px s)" (is "server_ok R ?s")
proof -
  note d = server_okD [OF ok]
  have "owns ?s q own = owns s q own" for q own
    using n px by (cases own) (auto simp: gomap_simps)
  with d(2) have "owners_ok ?s" by (simp add: owners_ok_def)
  moreover have "apart_ok ?s"
    by (rule apart_add [OF d(4), of _ n px]) (use px in \<open>auto simp: member_of_def\<close>)
  moreover have "groups_ok ?s" by (rule groups_add [OF d(3) _ _ n, of _ px]) simp_all
  moreover have shape: "shape_ok ?s n px" using px(4) shape_cong [of ?s s n px] by simp
  have "shape_ok ?s m y" if "mget (fvPxys ?s) m = Some y" for m y
    by (rule shape_add [OF d(5) _ shape _ _ that]) auto
  moreover have "ports_ok R ?s" using d(1) by (simp add: ports_ok_def)
  ultimately show ?thesis unfolding server_ok_def by blast
qed


section \<open>Groups\<close>

text \<open>A group without listeners counts for nothing.\<close>

lemma groups_frame:
  assumes ok: "server_ok R s"
    and g: "\<And>h tg. tgLns tg \<noteq> [] \<Longrightarrow> mget gs h = Some tg \<longleftrightarrow> mget (fvTcpGroups s) h = Some tg"
  shows "server_ok R (s\<lparr>fvTcpGroups := gs\<rparr>)" (is "server_ok R ?s")
proof -
  note d = server_okD [OF ok]
  have "owns ?s p own = owns s p own" for p own using g by (cases own) auto
  with d(2) have "owners_ok ?s" by (simp add: owners_ok_def)
  moreover have "groups_ok ?s"
    unfolding groups_ok_def
  proof (intro allI impI)
    fix h tg assume "mget (fvTcpGroups ?s) h = Some tg"
    then show "distinct (tgLns tg) \<and> (\<forall>ln \<in> set (tgLns tg). ln < fvNext ?s \<and> (\<exists>n px. mget (fvPxys ?s) n = Some px \<and> member_of px h ln))"
      using g [of tg h] groups_okD [OF d(3), of h tg] by (cases "tgLns tg = []") auto
  qed
  moreover have "shape_ok ?s n px" if "mget (fvPxys ?s) n = Some px" for n px
  proof -
    from that d(5) have "shape_ok s n px" by simp
    then show ?thesis unfolding shape_ok_def using g by (auto split: proxy_type.splits if_splits) (metis empty_iff empty_set)
  qed
  ultimately show ?thesis using d(1,4) by (simp add: server_ok_def ports_ok_def apart_ok_def)
qed

lemma ensure_group:
  assumes "server_ok R s"
  shows "server_ok R (s\<lparr>fvTcpGroups := mput g (case mget (fvTcpGroups s) g of None \<Rightarrow> new_TcpGroup | Some tg \<Rightarrow> tg) (fvTcpGroups s)\<rparr>)"
  by (rule groups_frame [OF assms]) (auto simp: gomap_simps new_TcpGroup_def split: option.split)

lemma member_listener:
  assumes "server_ok R s" "mget (fvPxys s) n = Some px" "member_of px g ln"
  obtains tg where "mget (fvTcpGroups s) g = Some tg" "ln \<in> set (tgLns tg)" "ln < fvNext s"
proof -
  from server_okD(5)[OF assms(1,2)] assms(3) obtain tg where "mget (fvTcpGroups s) g = Some tg" "ln \<in> set (tgLns tg)"
    by (auto simp: shape_ok_def member_of_def)
  with groups_okD(2)[OF server_okD(3)[OF assms(1)]] that show thesis by blast
qed

text \<open>A new member of a group, whose listener has the next serial number.\<close>

lemma apart_member:
  assumes ok: "server_ok R s" and p: "fvPxys s' = mput n px (fvPxys s)" and px: "member_of px g (fvNext s)"
  shows "apart_ok s'"
proof (rule apart_add [OF server_okD(4)[OF ok] p])
  fix m y assume y: "m \<noteq> n" "mget (fvPxys s) m = Some y"
  have "\<not> member_of y g' (fvNext s)" for g'
    using member_listener [OF ok y(2)] by blast
  with px show "(is_udp px \<longrightarrow> is_udp y \<longrightarrow> pxRealPort y \<noteq> pxRealPort px) \<and> (\<forall>g g' ln. member_of px g ln \<longrightarrow> \<not> member_of y g' ln)"
    by (auto simp: member_of_def)
qed

lemma member_groups:
  assumes ok: "server_ok R s" and n: "mget (fvPxys s) n = None" and px: "member_of px g (fvNext s)"
    and p: "fvPxys s' = mput n px (fvPxys s)" and k: "fvNext s' = fvNext s + 1"
    and gs: "fvTcpGroups s' = mput g tg (fvTcpGroups s)"
    and old: "tgLns tg = (case mget (fvTcpGroups s) g of None \<Rightarrow> [] | Some t \<Rightarrow> tgLns t) @ [fvNext s]"
  shows "groups_ok s'"
  unfolding groups_ok_def
proof (intro allI impI)
  fix h t assume h: "mget (fvTcpGroups s') h = Some t"
  note groups = groups_okD [OF server_okD(3)[OF ok]]
  have known: "ln < fvNext s' \<and> (\<exists>m y. mget (fvPxys s') m = Some y \<and> member_of y h' ln)"
    if "mget (fvTcpGroups s) h' = Some t'" "ln \<in> set (tgLns t')" for h' t' ln
  proof -
    from groups(2)[OF that] obtain m y where "ln < fvNext s" "mget (fvPxys s) m = Some y" "member_of y h' ln" by blast
    moreover from this n have "m \<noteq> n" by auto
    ultimately show ?thesis by (auto simp: p k gomap_simps)
  qed
  show "distinct (tgLns t) \<and> (\<forall>ln \<in> set (tgLns t). ln < fvNext s' \<and> (\<exists>m y. mget (fvPxys s') m = Some y \<and> member_of y h ln))"
  proof (cases "h = g")
    case False
    with h have "mget (fvTcpGroups s) h = Some t" by (simp add: gs gomap_simps)
    with known groups(1) show ?thesis by blast
  next
    case True
    with h have t: "t = tg" by (simp add: gs gomap_simps)
    have new: "fvNext s < fvNext s' \<and> (\<exists>m y. mget (fvPxys s') m = Some y \<and> member_of y g (fvNext s))"
      using px by (auto simp: p k gomap_simps)
    show ?thesis
    proof (cases "mget (fvTcpGroups s) g")
      case None
      with new old t True show ?thesis by simp
    next
      case (Some t0)
      have "distinct (tgLns t0)" "fvNext s \<notin> set (tgLns t0)" using groups [OF Some] by auto
      with new old t True Some known [OF Some] show ?thesis by auto
    qed
  qed
qed

lemma member_shape:
  assumes ok: "server_ok R s" and m: "mget (fvPxys s') m = Some y"
    and px: "member_of px g ln" "pfName (pxConf px) = n" "ln \<in> set (tgLns tg)"
    and p: "fvPxys s' = mput n px (fvPxys s)" and u: "fvUdpBound s' = fvUdpBound s"
    and gs: "fvTcpGroups s' = mput g tg (fvTcpGroups s)"
    and old: "\<And>t. mget (fvTcpGroups s) g = Some t \<Longrightarrow> set (tgLns t) \<subseteq> set (tgLns tg)"
  shows "shape_ok s' m y"
proof (cases "m = n")
  case True
  with m p have "y = px" by (simp add: gomap_simps)
  with px True show ?thesis by (auto simp: shape_ok_def member_of_def gs gomap_simps)
next
  case False
  with m p server_okD(5)[OF ok] have "shape_ok s m y" by (simp add: gomap_simps)
  then show ?thesis unfolding shape_ok_def u gs using old
    by (auto simp: gomap_simps split: proxy_type.splits if_splits)
qed

lemma add_group_first:
  assumes ok: "server_ok R s" and n: "mget (fvPxys s) n = None" and p: "p \<notin> set (fvTcpBound s)"
    and ports: "ports_ok R (s\<lparr>fvTCP := pm, fvTcpBound := p # fvTcpBound s\<rparr>)"
    and g: "\<And>t. mget (fvTcpGroups s) g = Some t \<Longrightarrow> tgLns t = []"
    and tg: "tgLns tg = [fvNext s]" "tgRealPort tg = p"
    and px: "pfName (pxConf px) = n" "member_of px g (fvNext s)"
  shows "server_ok R (with_pxy n px (s\<lparr>fvTCP := pm, fvTcpBound := p # fvTcpBound s, fvNext := fvNext s + 1,
    fvTcpGroups := mput g tg (fvTcpGroups s)\<rparr>))" (is "server_ok R ?s")
proof -
  note d = server_okD [OF ok]
  have "owns ?s q own \<longleftrightarrow> owns s q own \<or> q = p \<and> own = Inr g" for q own
    using n px g tg by (cases own) (auto simp: gomap_simps member_of_def)
  from owners_add [OF d(2) p _ this] have "owners_ok ?s" by simp
  moreover have "apart_ok ?s" by (rule apart_member [OF ok _ px(2)]) simp
  moreover have "groups_ok ?s"
    by (rule member_groups [OF ok n px(2), of _ tg]) (use tg g in \<open>auto split: option.split\<close>)
  moreover have "shape_ok ?s m y" if "mget (fvPxys ?s) m = Some y" for m y
    by (rule member_shape [OF ok that px(2,1), of tg]) (use tg g in auto)
  moreover have "ports_ok R ?s" using ports by (simp add: ports_ok_def)
  ultimately show ?thesis unfolding server_ok_def by blast
qed

lemma add_group_member:
  assumes ok: "server_ok R s" and n: "mget (fvPxys s) n = None"
    and g: "mget (fvTcpGroups s) g = Some tg" "tgLns tg \<noteq> []"
    and px: "pfName (pxConf px) = n" "member_of px g (fvNext s)"
  shows "server_ok R (with_pxy n px (s\<lparr>fvNext := fvNext s + 1,
    fvTcpGroups := mput g (tg\<lparr>tgLns := tgLns tg @ [fvNext s]\<rparr>) (fvTcpGroups s)\<rparr>))" (is "server_ok R ?s")
proof -
  note d = server_okD [OF ok]
  have "owns ?s q own = owns s q own" for q own
    using n px g by (cases own) (auto simp: gomap_simps member_of_def)
  with d(2) have "owners_ok ?s" by (simp add: owners_ok_def)
  moreover have "apart_ok ?s" by (rule apart_member [OF ok _ px(2)]) simp
  moreover have "groups_ok ?s"
    by (rule member_groups [OF ok n px(2), of _ "tg\<lparr>tgLns := tgLns tg @ [fvNext s]\<rparr>"]) (use g in auto)
  moreover have "shape_ok ?s m y" if "mget (fvPxys ?s) m = Some y" for m y
    by (rule member_shape [OF ok that px(2,1), of "tg\<lparr>tgLns := tgLns tg @ [fvNext s]\<rparr>"]) (use g in auto)
  moreover have "ports_ok R ?s" using d(1) by (simp add: ports_ok_def)
  ultimately show ?thesis unfolding server_ok_def by blast
qed


section \<open>A proxy goes\<close>

abbreviation without_pxy :: "string \<Rightarrow> FrpServer \<Rightarrow> FrpServer" where
  "without_pxy n s \<equiv> s\<lparr>fvPxys := mdel n (fvPxys s)\<rparr>"

lemma owners_del:
  assumes ok: "owners_ok s" "distinct (fvTcpBound s)" and p: "owns s p o1" and b: "fvTcpBound s' = remove1 p (fvTcpBound s)"
    and o: "\<And>q own. owns s' q own \<longleftrightarrow> owns s q own \<and> q \<noteq> p"
  shows "owners_ok s'"
  unfolding owners_ok_def b o using owners_okD(1)[OF ok(1)] owners_okD(2)[OF ok(1)] ok(2) by auto

lemma apart_del: "apart_ok s \<Longrightarrow> fvPxys s' = mdel n (fvPxys s) \<Longrightarrow> apart_ok s'"
  unfolding apart_ok_def by (simp add: gomap_simps)

text \<open>Nothing but a member of the group \<open>g\<close> with the listener \<open>ln0\<close> goes.\<close>

lemma groups_del:
  assumes ok: "groups_ok s" and n: "mget (fvPxys s) n = Some px" and p: "fvPxys s' = mdel n (fvPxys s)" and k: "fvNext s' = fvNext s"
    and gs: "\<And>h t. mget (fvTcpGroups s') h = Some t \<Longrightarrow> \<exists>t0. mget (fvTcpGroups s) h = Some t0 \<and>
      tgLns t = (case lns of None \<Rightarrow> tgLns t0 | Some (g, ln0) \<Rightarrow> if h = g then remove1 ln0 (tgLns t0) else tgLns t0)"
    and px: "\<And>h ln. member_of px h ln \<Longrightarrow> lns = Some (h, ln)"
  shows "groups_ok s'"
  unfolding groups_ok_def
proof (intro allI impI)
  fix h t assume "mget (fvTcpGroups s') h = Some t"
  from gs [OF this] obtain t0 where t0: "mget (fvTcpGroups s) h = Some t0"
    "tgLns t = (case lns of None \<Rightarrow> tgLns t0 | Some (g, ln0) \<Rightarrow> if h = g then remove1 ln0 (tgLns t0) else tgLns t0)" by blast
  note old = groups_okD [OF ok t0(1)]
  have "ln < fvNext s' \<and> (\<exists>m y. mget (fvPxys s') m = Some y \<and> member_of y h ln)" if "ln \<in> set (tgLns t)" for ln
  proof -
    have "ln \<in> set (tgLns t0)" using that t0(2) by (auto split: option.splits prod.splits if_splits dest: notin_set_remove1 set_remove1_subset [THEN subsetD])
    from old(2)[OF this] obtain m y where m: "ln < fvNext s" "mget (fvPxys s) m = Some y" "member_of y h ln" by blast
    have "m \<noteq> n"
    proof
      assume "m = n"
      with m(2) n have "y = px" by simp
      with px m(3) have "lns = Some (h, ln)" by simp
      with that t0(2) old(1) show False by simp
    qed
    with m show ?thesis by (auto simp: p k gomap_simps)
  qed
  moreover have "distinct (tgLns t)" using old(1) t0(2) by (auto split: option.splits prod.splits)
  ultimately show "distinct (tgLns t) \<and> (\<forall>ln \<in> set (tgLns t). ln < fvNext s' \<and> (\<exists>n px. mget (fvPxys s') n = Some px \<and> member_of px h ln))" by blast
qed

lemma del_tcp:
  assumes ok: "server_ok R s" and n: "mget (fvPxys s) n = Some px" and px: "is_tcp px" "\<not> grouped px"
  shows "server_ok R (without_pxy n (s\<lparr>fvTcpBound := remove1 (pxRealPort px) (fvTcpBound s),
    fvTCP := Release now (pxRealPort px) (fvTCP s)\<rparr>))" (is "server_ok R ?s")
proof -
  note d = server_okD [OF ok]
  let ?p = "pxRealPort px"
  have own: "owns s ?p (Inl n)" using n px by simp
  have uniq: "own = Inl n" if "owns s ?p own" for own by (rule owners_okD(2)[OF d(2) that own])
  have "owns ?s q own \<longleftrightarrow> owns s q own \<and> q \<noteq> ?p" for q own
  proof (cases own)
    case (Inl m)
    show ?thesis
    proof (cases "m = n")
      case True
      with Inl n show ?thesis by (auto simp: gomap_simps)
    next
      case False
      with Inl uniq [of own] show ?thesis by (auto simp: gomap_simps)
    qed
  next
    case (Inr g)
    with uniq [of own] show ?thesis by auto
  qed
  from owners_del [OF d(2) _ own _ this] d(1) have "owners_ok ?s" by (simp add: ports_ok_def)
  moreover have "apart_ok ?s" by (rule apart_del [OF d(4)]) simp
  moreover have "groups_ok ?s"
    by (rule groups_del [OF d(3) n, of _ None]) (use px in \<open>auto simp: member_of_def\<close>)
  moreover have "shape_ok ?s m y" if "mget (fvPxys ?s) m = Some y" for m y
  proof -
    from that d(5) have "shape_ok s m y" by (simp add: gomap_simps split: if_splits)
    with shape_cong [of ?s s] show ?thesis by simp
  qed
  moreover have "ports_ok R ?s" using tcp_release [OF d(1), of now ?p] by (simp add: ports_ok_def)
  ultimately show ?thesis unfolding server_ok_def by blast
qed

lemma del_web:
  assumes ok: "server_ok R s" and n: "mget (fvPxys s) n = Some px" and px: "\<not> is_tcp px" "\<not> is_udp px"
  shows "server_ok R (without_pxy n s)" (is "server_ok R ?s")
proof -
  note d = server_okD [OF ok]
  have "owns ?s q own = owns s q own" for q own
    using n px by (cases own) (auto simp: gomap_simps)
  with d(2) have "owners_ok ?s" by (simp add: owners_ok_def)
  moreover have "apart_ok ?s" by (rule apart_del [OF d(4)]) simp
  moreover have "groups_ok ?s"
    by (rule groups_del [OF d(3) n, of _ None]) (use px in \<open>auto simp: member_of_def\<close>)
  moreover have "shape_ok ?s m y" if "mget (fvPxys ?s) m = Some y" for m y
  proof -
    from that d(5) have "shape_ok s m y" by (simp add: gomap_simps split: if_splits)
    with shape_cong [of ?s s] show ?thesis by simp
  qed
  moreover have "ports_ok R ?s" using d(1) by (simp add: ports_ok_def)
  ultimately show ?thesis unfolding server_ok_def by blast
qed

lemma del_udp:
  assumes ok: "server_ok R s" and n: "mget (fvPxys s) n = Some px" and px: "is_udp px"
  shows "server_ok R (without_pxy n (s\<lparr>fvUdpBound := remove1 (pxRealPort px) (fvUdpBound s),
    fvUDP := Release now (pxRealPort px) (fvUDP s)\<rparr>))" (is "server_ok R ?s")
proof -
  note d = server_okD [OF ok]
  have "owns ?s q own = owns s q own" for q own
    using n px by (cases own) (auto simp: gomap_simps)
  with d(2) have "owners_ok ?s" by (simp add: owners_ok_def)
  moreover have "apart_ok ?s" by (rule apart_del [OF d(4)]) simp
  moreover have "groups_ok ?s"
    by (rule groups_del [OF d(3) n, of _ None]) (use px in \<open>auto simp: member_of_def\<close>)
  moreover have "shape_ok ?s m y" if "mget (fvPxys ?s) m = Some y" for m y
  proof -
    from that have m: "m \<noteq> n" "mget (fvPxys s) m = Some y" by (auto simp: gomap_simps split: if_splits)
    from apart_okD(1)[OF d(4) n m(2)] m(1) px have "is_udp y \<Longrightarrow> pxRealPort y \<noteq> pxRealPort px" by auto
    with d(5)[OF m(2)] show ?thesis unfolding shape_ok_def by (auto split: proxy_type.splits if_splits)
  qed
  moreover have "ports_ok R ?s" using udp_release(1)[OF d(1), of now "pxRealPort px"] by (simp add: ports_ok_def)
  ultimately show ?thesis unfolding server_ok_def by blast
qed

lemma del_member:
  assumes ok: "server_ok R s" and n: "mget (fvPxys s) n = Some px" and px: "member_of px g ln"
    and tg: "mget (fvTcpGroups s) g = Some tg" "remove1 ln (tgLns tg) \<noteq> []"
  shows "server_ok R (without_pxy n (s\<lparr>fvTcpGroups := mput g (tg\<lparr>tgLns := remove1 ln (tgLns tg)\<rparr>) (fvTcpGroups s)\<rparr>))" (is "server_ok R ?s")
proof -
  note d = server_okD [OF ok]
  have "tgLns tg \<noteq> []" using tg(2) by auto
  then have "owns ?s q own = owns s q own" for q own
    using n px tg by (cases own) (auto simp: gomap_simps member_of_def)
  with d(2) have "owners_ok ?s" by (simp add: owners_ok_def)
  moreover have "apart_ok ?s" by (rule apart_del [OF d(4)]) simp
  moreover have "groups_ok ?s"
    by (rule groups_del [OF d(3) n, of _ "Some (g, ln)"]) (use px tg in \<open>auto simp: gomap_simps split: if_splits dest: member_of_unique\<close>)
  moreover have "shape_ok ?s m y" if "mget (fvPxys ?s) m = Some y" for m y
  proof -
    from that have m: "m \<noteq> n" "mget (fvPxys s) m = Some y" by (auto simp: gomap_simps split: if_splits)
    have "\<not> member_of y h ln" for h using apart_okD(2)[OF d(4) n m(2)] m(1) px by auto
    with d(5)[OF m(2)] tg show ?thesis unfolding shape_ok_def
      by (auto simp: gomap_simps split: proxy_type.splits if_splits) (metis in_set_remove1)
  qed
  moreover have "ports_ok R ?s" using d(1) by (simp add: ports_ok_def)
  ultimately show ?thesis unfolding server_ok_def by blast
qed

lemma del_last_member:
  assumes ok: "server_ok R s" and n: "mget (fvPxys s) n = Some px" and px: "member_of px g ln"
    and tg: "mget (fvTcpGroups s) g = Some tg" "ln \<in> set (tgLns tg)" "remove1 ln (tgLns tg) = []"
  shows "server_ok R (without_pxy n (s\<lparr>fvTcpBound := remove1 (tgRealPort tg) (fvTcpBound s),
    fvTCP := Release now (tgRealPort tg) (fvTCP s), fvTcpGroups := mdel g (fvTcpGroups s)\<rparr>))" (is "server_ok R ?s")
proof -
  note d = server_okD [OF ok]
  let ?p = "tgRealPort tg"
  have own: "owns s ?p (Inr g)" using tg by auto
  have uniq: "own = Inr g" if "owns s ?p own" for own by (rule owners_okD(2)[OF d(2) that own])
  have "owns ?s q own \<longleftrightarrow> owns s q own \<and> q \<noteq> ?p" for q own
  proof (cases own)
    case (Inl m)
    with uniq [of own] n px show ?thesis by (auto simp: gomap_simps member_of_def)
  next
    case (Inr h)
    with uniq [of own] tg show ?thesis by (cases "h = g") (auto simp: gomap_simps)
  qed
  from owners_del [OF d(2) _ own _ this] d(1) have "owners_ok ?s" by (simp add: ports_ok_def)
  moreover have "apart_ok ?s" by (rule apart_del [OF d(4)]) simp
  moreover have "groups_ok ?s"
    by (rule groups_del [OF d(3) n, of _ "Some (g, ln)"]) (use px tg in \<open>auto simp: gomap_simps split: if_splits dest: member_of_unique\<close>)
  moreover have "shape_ok ?s m y" if "mget (fvPxys ?s) m = Some y" for m y
  proof -
    from that have m: "m \<noteq> n" "mget (fvPxys s) m = Some y" by (auto simp: gomap_simps split: if_splits)
    have no: "\<not> member_of y h ln" for h using apart_okD(2)[OF d(4) n m(2)] m(1) px by auto
    have "set (tgLns tg) = {ln}" using tg(2,3) groups_okD(1)[OF d(3) tg(1)] by (cases "tgLns tg") (auto split: if_splits)
    with no d(5)[OF m(2)] tg show ?thesis unfolding shape_ok_def
      by (auto simp: gomap_simps split: proxy_type.splits if_splits)
  qed
  moreover have "ports_ok R ?s" using tcp_release [OF d(1), of now ?p] by (simp add: ports_ok_def)
  ultimately show ?thesis unfolding server_ok_def by blast
qed


section \<open>The operations\<close>

text \<open>The routes of http and https take no ports.\<close>

lemma same_ports_update [simp]:
  "same_ports s (s\<lparr>fvHttp := a\<rparr>)" "same_ports s (s\<lparr>fvHttps := a\<rparr>)" "same_ports s (s\<lparr>fvHttpGroups := b\<rparr>)"
  "same_ports s (s\<lparr>fvHttpsGroups := c\<rparr>)" "same_ports s (s\<lparr>fvHttpGroups := b, fvHttp := a\<rparr>)"
  "same_ports s (s\<lparr>fvUsers := u\<rparr>)"
  by (simp_all add: same_ports_def)

lemma http_group_same: "same_ports s (fst (http_group_register name px g key d l u s))" "same_ports s (http_group_unregister name g s)"
  by (auto simp: http_group_register_def http_group_unregister_def same_ports_def Let_def split: option.split)

lemma run_closer_same: "same_ports s (run_closer name c s)"
  by (cases c) (simp_all add: http_group_same)

lemma run_closers_same: "same_ports s (fold (run_closer name) cs s)"
  by (induction cs arbitrary: s) (auto intro: same_ports_trans [OF run_closer_same])

lemma http_register_same: "same_ports s (fst (http_register rs px s))"
proof (induction rs px s rule: http_register.induct)
  case (2 d l rest px s)
  show ?case
  proof (cases "pfGroup (pxConf px) = []")
    case True
    show ?thesis
    proof (cases "routers_Add d l (pfRouteByHTTPUser (pxConf px)) (ToProxy (pxID px)) (fvHttp s)")
      case (Some rs)
      from same_ports_trans [OF same_ports_update(1) 2(2)[OF refl _ Some]] True Some show ?thesis by simp
    qed (simp add: True)
  next
    case False
    obtain s1 e where r: "http_group_register (pfName (pxConf px)) (pxID px) (pfGroup (pxConf px)) (pfGroupKey (pxConf px)) d l
      (pfRouteByHTTPUser (pxConf px)) s = (s1, e)" by fastforce
    then have s1: "same_ports s s1" using http_group_same(1) by (metis fst_conv)
    show ?thesis
    proof (cases e)
      case None
      from same_ports_trans [OF s1 2(1)[OF refl False r [symmetric]]] None r False show ?thesis by simp
    qed (use False r s1 in simp)
  qed
qed simp

lemma https_listen_same: "https_listen d t s = Some s1 \<Longrightarrow> same_ports s s1" "same_ports s (https_close d s)"
  by (auto simp: https_listen_def https_close_def)

lemma https_group_same: "same_ports s (fst (https_group_listen g key d s))" "same_ports s (https_group_close g ln s)"
  by (auto simp: https_group_listen_def https_group_close_def https_listen_def https_close_def same_ports_def Let_def split: option.split)

lemma https_register_same:
  "https_register ds px s = (s1, px1, e) \<Longrightarrow> same_ports s s1 \<and> pxConf px1 = pxConf px \<and>
     (\<forall>l \<in> set (pxListeners px1). l \<in> set (pxListeners px) \<or> (case l of MuxListener _ \<Rightarrow> True | HttpsGroupListener _ _ \<Rightarrow> True | _ \<Rightarrow> False))"
proof (induction ds px s rule: https_register.induct)
  case (2 d rest px s)
  show ?case
  proof (cases "pfGroup (pxConf px) = []")
    case True
    show ?thesis
    proof (cases "https_listen d (ToProxy (pxID px)) s")
      case (Some s0)
      have "https_register rest (px\<lparr>pxListeners := pxListeners px @ [MuxListener d]\<rparr>) s0 = (s1, px1, e)"
        using 2(3) True Some by simp
      from 2(2)[OF refl _ Some this] True same_ports_trans [OF https_listen_same(1)[OF Some]] show ?thesis by auto
    qed (use 2(3) True in auto)
  next
    case False
    obtain s0 r where r: "https_group_listen (pfGroup (pxConf px)) (pfGroupKey (pxConf px)) d s = (s0, r)" by fastforce
    then have s0: "same_ports s s0" using https_group_same(1) by (metis fst_conv)
    show ?thesis
    proof (cases r)
      case (Inr ln)
      have "https_register rest (px\<lparr>pxListeners := pxListeners px @ [HttpsGroupListener (pfGroup (pxConf px)) ln]\<rparr>) s0 = (s1, px1, e)"
        using 2(3) False r Inr by simp
      from 2(1)[OF refl False r [symmetric] Inr this] same_ports_trans [OF s0] show ?thesis by auto
    qed (use 2(3) False r s0 in auto)
  qed
qed auto

definition web_listeners :: "listener list \<Rightarrow> bool" where
  "web_listeners ls \<longleftrightarrow> (\<forall>l \<in> set ls. case l of MuxListener _ \<Rightarrow> True | HttpsGroupListener _ _ \<Rightarrow> True | _ \<Rightarrow> False)"

lemma close_web_listeners: "web_listeners ls \<Longrightarrow> same_ports s (fold (listener_close now t) ls s)"
proof (induction ls arbitrary: s)
  case (Cons l ls)
  then have "same_ports s (listener_close now t l s)"
    by (cases l) (auto simp: web_listeners_def https_listen_same https_group_same)
  moreover have "web_listeners ls" using Cons.prems by (simp add: web_listeners_def)
  ultimately show ?case using Cons.IH same_ports_trans by fastforce
qed simp


lemma http_register_px:
  "http_register rs px s = (s1, px1, e) \<Longrightarrow> pxConf px1 = pxConf px \<and> pxListeners px1 = pxListeners px"
proof (induction rs px s rule: http_register.induct)
  case (2 d l rest px s)
  show ?case
  proof (cases "pfGroup (pxConf px) = []")
    case True
    then show ?thesis using 2(2)[OF refl] 2(3)
      by (cases "routers_Add d l (pfRouteByHTTPUser (pxConf px)) (ToProxy (pxID px)) (fvHttp s)") auto
  next
    case False
    obtain s0 r where r: "http_group_register (pfName (pxConf px)) (pxID px) (pfGroup (pxConf px)) (pfGroupKey (pxConf px)) d l
      (pfRouteByHTTPUser (pxConf px)) s = (s0, r)" by fastforce
    then show ?thesis using 2(1)[OF refl False r [symmetric]] 2(3) False by (cases r) auto
  qed
qed auto

definition runs_ok :: "int set \<Rightarrow> string \<Rightarrow> FrpServer \<Rightarrow> FrpServer \<times> (run_error + FrpProxy) \<Rightarrow> bool" where
  "runs_ok R n s res \<longleftrightarrow> (case res of
       (s1, Inl _) \<Rightarrow> server_ok R s1 \<and> fvPxys s1 = fvPxys s
     | (s1, Inr px) \<Rightarrow> server_ok R (with_pxy n px s1) \<and> fvPxys s1 = fvPxys s \<and> pfName (pxConf px) = n)"

lemma http_Run_ok:
  assumes ok: "server_ok R s" and n: "mget (fvPxys s) n = None"
    and px: "pfType (pxConf px) = HTTPProxyType" "pfName (pxConf px) = n" "pxListeners px = []"
  shows "runs_ok R n s (http_Run env px s)"
proof -
  have close: "same_ports s (http_Close now y x)" if "same_ports s x" "pxListeners y = []" for now y x
    using same_ports_trans [OF that(1) run_closers_same] that(2) by (simp add: http_Close_def base_Close_def)
  let ?ds = "buildDomains s (pfCustomDomains (pxConf px)) (pfSubDomain (pxConf px))"
  let ?rs = "concat (map (\<lambda>d. map (Pair d) (if pfLocations (pxConf px) = [] then [[]] else pfLocations (pxConf px))) ?ds)"
  show ?thesis
  proof (cases "validateUserDomains s (pxUser px) ?ds")
    case (Some e)
    with server_ok_frame [OF ok close [OF same_ports_refl px(3)]] close [OF same_ports_refl px(3)]
    show ?thesis by (simp add: http_Run_def runs_ok_def Let_def same_ports_def)
  next
    case None
    obtain s1 px1 e where r: "http_register ?rs px s = (s1, px1, e)" by (metis prod.exhaust)
    have s1: "same_ports s s1" using http_register_same [of s ?rs px] r by simp
    note p1 = http_register_px [OF r]
    show ?thesis
    proof (cases e)
      case (Some err)
      have c: "same_ports s (http_Close (reNow env) px1 s1)" by (rule close [OF s1]) (simp add: p1 px)
      from server_ok_frame [OF ok c] c Some None r show ?thesis by (simp add: http_Run_def runs_ok_def Let_def same_ports_def)
    next
      case None': None
      have ok1: "server_ok R s1" by (rule server_ok_frame [OF ok s1])
      have "server_ok R (with_pxy n px1 s1)"
        by (rule add_web [OF ok1]) (use p1 px n s1 in \<open>auto simp: shape_ok_def same_ports_def\<close>)
      with None None' r p1 px s1 show ?thesis by (simp add: http_Run_def runs_ok_def Let_def same_ports_def)
    qed
  qed
qed

lemma https_Run_ok:
  assumes ok: "server_ok R s" and n: "mget (fvPxys s) n = None"
    and px: "pfType (pxConf px) = HTTPSProxyType" "pfName (pxConf px) = n" "pxListeners px = []"
  shows "runs_ok R n s (https_Run env px s)"
proof -
  have close: "same_ports s (https_Close now y x)" if "same_ports s x" "web_listeners (pxListeners y)" for now y x
    using same_ports_trans [OF that(1) close_web_listeners [OF that(2)]] by (simp add: https_Close_def base_Close_def)
  let ?ds = "buildDomains s (pfCustomDomains (pxConf px)) (pfSubDomain (pxConf px))"
  show ?thesis
  proof (cases "validateUserDomains s (pxUser px) ?ds")
    case (Some e)
    have c: "same_ports s (https_Close (reNow env) px s)" by (rule close) (simp_all add: px web_listeners_def)
    from server_ok_frame [OF ok c] c Some show ?thesis by (simp add: https_Run_def runs_ok_def Let_def same_ports_def)
  next
    case None
    obtain s1 px1 e where r: "https_register ?ds px s = (s1, px1, e)" by (metis prod.exhaust)
    note p1 = https_register_same [OF r]
    have s1: "same_ports s s1" and w: "web_listeners (pxListeners px1)" using p1 px by (auto simp: web_listeners_def)
    show ?thesis
    proof (cases e)
      case (Some err)
      have c: "same_ports s (https_Close (reNow env) px1 s1)" by (rule close [OF s1 w])
      from server_ok_frame [OF ok c] c Some None r show ?thesis by (simp add: https_Run_def runs_ok_def Let_def same_ports_def)
    next
      case None': None
      have ok1: "server_ok R s1" by (rule server_ok_frame [OF ok s1])
      have "server_ok R (with_pxy n px1 s1)"
        by (rule add_web [OF ok1]) (use p1 px n s1 w in \<open>auto simp: shape_ok_def same_ports_def web_listeners_def\<close>)
      with None None' r p1 px s1 show ?thesis by (simp add: https_Run_def runs_ok_def Let_def same_ports_def)
    qed
  qed
qed

text \<open>The port a proxy asks for, with or without a user store.\<close>

lemma acquire_choice:
  "(if b then AcquireFromRanges penv name port rs pm else Acquire penv name port pm) = acquire penv name port (if b then rs else []) pm"
  by (simp add: AcquireFromRanges_def Acquire_def)

lemma server_ok_ports:
  "server_ok R s \<Longrightarrow> ports_ok R (s\<lparr>fvTCP := pm\<rparr>) \<Longrightarrow> server_ok R (s\<lparr>fvTCP := pm\<rparr>)"
  "server_ok R s \<Longrightarrow> ports_ok R (s\<lparr>fvUDP := pm\<rparr>) \<Longrightarrow> server_ok R (s\<lparr>fvUDP := pm\<rparr>)"
proof -
  have o: "owns (s\<lparr>fvTCP := pm\<rparr>) p own = owns s p own" "owns (s\<lparr>fvUDP := pm\<rparr>) p own = owns s p own" for p own
    by (cases own; simp)+
  have sh: "shape_ok (s\<lparr>fvTCP := pm\<rparr>) n px = shape_ok s n px" "shape_ok (s\<lparr>fvUDP := pm\<rparr>) n px = shape_ok s n px" for n px
    by (rule shape_cong; simp)+
  show "server_ok R s \<Longrightarrow> ports_ok R (s\<lparr>fvTCP := pm\<rparr>) \<Longrightarrow> server_ok R (s\<lparr>fvTCP := pm\<rparr>)"
    "server_ok R s \<Longrightarrow> ports_ok R (s\<lparr>fvUDP := pm\<rparr>) \<Longrightarrow> server_ok R (s\<lparr>fvUDP := pm\<rparr>)"
    by (simp_all add: server_ok_def owners_ok_def o sh groups_ok_def apart_ok_def)
qed

lemma udp_Run_ok:
  assumes ok: "server_ok R s" and z: "0 \<notin> R" and n: "mget (fvPxys s) n = None"
    and px: "is_udp px" "pfName (pxConf px) = n" "pxListeners px = []"
  shows "runs_ok R n s (udp_Run env px s)"
proof (cases "sessionUserStoreEnabled s \<and> sessionUserPorts s (pxUser px) = []")
  case True
  with ok show ?thesis by (simp add: udp_Run_def runs_ok_def Let_def)
next
  case False
  let ?rs = "if sessionUserStoreEnabled s then sessionUserPorts s (pxUser px) else []"
  obtain pm r where acq: "acquire (port_env env (fvUdpBound s)) n (pfRemotePort (pxConf px)) ?rs (fvUDP s) = (pm, r)" by fastforce
  note a = udp_acquire [OF server_okD(1)[OF ok] z acq, of "reNow env"]
  show ?thesis
  proof (cases r)
    case (Inl e)
    with a have "pm = fvUDP s" by simp
    with False acq Inl ok px(2) show ?thesis by (simp add: udp_Run_def runs_ok_def Let_def acquire_choice)
  next
    case (Inr p)
    with a have a': "p \<notin> set (fvUdpBound s)" "ports_ok R (s\<lparr>fvUDP := pm, fvUdpBound := p # fvUdpBound s\<rparr>)"
      "ports_ok R (s\<lparr>fvUDP := Release (reNow env) p pm\<rparr>)" by simp_all
    show ?thesis
    proof (cases "reListens env p")
      case True
      let ?px = "px\<lparr>pxRealPort := p, pxListeners := [PortListener p], pxConf := (pxConf px)\<lparr>pfRemotePort := p\<rparr>\<rparr>"
      from add_udp [OF ok n a'(1,2), of ?px] px ok False acq Inr True show ?thesis
        by (simp add: udp_Run_def runs_ok_def Let_def acquire_choice)
    next
      case no: False
      from server_ok_ports(2)[OF ok a'(3)] ok False no acq Inr px(2) show ?thesis
        by (simp add: udp_Run_def runs_ok_def Let_def acquire_choice)
    qed
  qed
qed


lemma tcp_group_listen_ok:
  assumes ok: "server_ok R s" and z: "0 \<notin> R" and n: "mget (fvPxys s) n = None"
    and l: "tcp_group_listen env name g key addr port s = (s1, r)"
  shows "(case r of
      Inl _ \<Rightarrow> server_ok R s1 \<and> fvPxys s1 = fvPxys s
    | Inr (ln, p) \<Rightarrow> fvPxys s1 = fvPxys s \<and> (\<forall>px. pfName (pxConf px) = n \<longrightarrow> member_of px g ln \<longrightarrow> server_ok R (with_pxy n px s1)))"
proof -
  define tg where "tg = (case mget (fvTcpGroups s) g of None \<Rightarrow> new_TcpGroup | Some tg \<Rightarrow> tg)"
  let ?s0 = "s\<lparr>fvTcpGroups := mput g tg (fvTcpGroups s)\<rparr>"
  have ok0: "server_ok R ?s0" unfolding tg_def by (rule ensure_group [OF ok])
  show ?thesis
  proof (cases "tgLns tg = []")
    case True
    then have empty: "tgLns t = []" if "mget (fvTcpGroups s) g = Some t" for t using that by (simp add: tg_def)
    obtain pm ar where acq: "acquire (port_env env (fvTcpBound s)) name port [] (fvTCP s) = (pm, ar)" by fastforce
    note a = tcp_acquire [OF server_okD(1)[OF ok] z acq, of "reNow env"]
    show ?thesis
    proof (cases ar)
      case (Inl e)
      with a have "pm = fvTCP s" by simp
      with l True acq Inl ok0 show ?thesis by (simp add: tcp_group_listen_def Let_def tg_def [symmetric] Acquire_def) (auto simp: tg_def)
    next
      case (Inr p)
      with a have a': "p \<notin> set (fvTcpBound s)" "ports_ok R (s\<lparr>fvTCP := pm, fvTcpBound := p # fvTcpBound s\<rparr>)"
        "ports_ok R (s\<lparr>fvTCP := Release (reNow env) p pm\<rparr>)" by simp_all
      show ?thesis
      proof (cases "reListens env p")
        case listens: True
        have "r = Inr (fvNext s, p)" and s1: "s1 = s\<lparr>fvTCP := pm, fvTcpBound := p # fvTcpBound s, fvNext := fvNext s + 1,
          fvTcpGroups := mput g \<lparr>tgGroup = g, tgKey = key, tgAddr = addr, tgPort = port, tgRealPort = p, tgLns = [fvNext s]\<rparr> (fvTcpGroups s)\<rparr>"
          using l True acq Inr listens by (auto simp: tcp_group_listen_def Let_def tg_def [symmetric] Acquire_def)
        moreover have "server_ok R (with_pxy n px s1)" if "pfName (pxConf px) = n" "member_of px g (fvNext s)" for px
          unfolding s1 using add_group_first [OF ok n a'(1,2) empty _ _ that] by simp
        ultimately show ?thesis by simp
      next
        case False
        from server_ok_ports(1)[OF ok0] a'(3) have "server_ok R (?s0\<lparr>fvTCP := Release (reNow env) p pm\<rparr>)" by (simp add: ports_ok_def)
        with l True acq Inr False show ?thesis by (simp add: tcp_group_listen_def Let_def tg_def [symmetric] Acquire_def) (auto simp: tg_def)
      qed
    qed
  next
    case False
    then have some: "mget (fvTcpGroups s) g = Some tg" by (auto simp: tg_def new_TcpGroup_def split: option.splits)
    show ?thesis
    proof (cases r)
      case (Inl e)
      with l False ok0 show ?thesis by (auto simp: tcp_group_listen_def Let_def tg_def [symmetric] split: if_splits)
    next
      case (Inr q)
      with l False have "q = (fvNext s, tgRealPort tg)" and s1: "s1 = s\<lparr>fvNext := fvNext s + 1,
        fvTcpGroups := mput g (tg\<lparr>tgLns := tgLns tg @ [fvNext s]\<rparr>) (fvTcpGroups s)\<rparr>"
        by (auto simp: tcp_group_listen_def Let_def tg_def [symmetric] split: if_splits)
      moreover have "server_ok R (with_pxy n px s1)" if "pfName (pxConf px) = n" "member_of px g (fvNext s)" for px
        unfolding s1 using add_group_member [OF ok n some False that] by simp
      ultimately show ?thesis using Inr by simp
    qed
  qed
qed

lemma tcp_Run_ok:
  assumes ok: "server_ok R s" and z: "0 \<notin> R" and n: "mget (fvPxys s) n = None"
    and px: "is_tcp px" "pfName (pxConf px) = n" "pxListeners px = []"
  shows "runs_ok R n s (tcp_Run env px s)"
proof (cases "grouped px")
  case True
  obtain s1 r where l: "tcp_group_listen env n (pfGroup (pxConf px)) (pfGroupKey (pxConf px)) (fvBindAddr s) (pfRemotePort (pxConf px)) s = (s1, r)"
    by fastforce
  note t = tcp_group_listen_ok [OF ok z n l]
  show ?thesis
  proof (cases r)
    case (Inl e)
    with t l True px(2) show ?thesis by (simp add: tcp_Run_def runs_ok_def Let_def)
  next
    case (Inr q)
    obtain ln p where q: "q = (ln, p)" by (cases q)
    let ?px = "px\<lparr>pxRealPort := p, pxListeners := [TcpGroupListener (pfGroup (pxConf px)) ln], pxConf := (pxConf px)\<lparr>pfRemotePort := p\<rparr>\<rparr>"
    have "member_of ?px (pfGroup (pxConf px)) ln" "pfName (pxConf ?px) = n" using px True by (simp_all add: member_of_def)
    with t Inr q have "server_ok R (with_pxy n ?px s1)" "fvPxys s1 = fvPxys s" by auto
    with l Inr q True px show ?thesis by (simp add: tcp_Run_def runs_ok_def Let_def)
  qed
next
  case ungrouped: False
  show ?thesis
  proof (cases "sessionUserStoreEnabled s \<and> sessionUserPorts s (pxUser px) = []")
    case True
    with ok ungrouped show ?thesis by (simp add: tcp_Run_def runs_ok_def Let_def)
  next
    case False
    let ?rs = "if sessionUserStoreEnabled s then sessionUserPorts s (pxUser px) else []"
    obtain pm r where acq: "acquire (port_env env (fvTcpBound s)) n (pfRemotePort (pxConf px)) ?rs (fvTCP s) = (pm, r)" by fastforce
    note a = tcp_acquire [OF server_okD(1)[OF ok] z acq, of "reNow env"]
    show ?thesis
    proof (cases r)
      case (Inl e)
      with a have "pm = fvTCP s" by simp
      with False ungrouped acq Inl ok px(2) show ?thesis by (simp add: tcp_Run_def runs_ok_def Let_def acquire_choice)
    next
      case (Inr p)
      with a have a': "p \<notin> set (fvTcpBound s)" "ports_ok R (s\<lparr>fvTCP := pm, fvTcpBound := p # fvTcpBound s\<rparr>)"
        "ports_ok R (s\<lparr>fvTCP := Release (reNow env) p pm\<rparr>)" by simp_all
      show ?thesis
      proof (cases "reListens env p")
        case True
        let ?px = "px\<lparr>pxRealPort := p, pxListeners := [PortListener p], pxConf := (pxConf px)\<lparr>pfRemotePort := p\<rparr>\<rparr>"
        from add_tcp [OF ok n a'(1,2), of ?px] px ok ungrouped False acq Inr True show ?thesis
          by (simp add: tcp_Run_def runs_ok_def Let_def acquire_choice)
      next
        case no: False
        from server_ok_ports(1)[OF ok a'(3)] ok ungrouped False no acq Inr px(2) show ?thesis
          by (simp add: tcp_Run_def runs_ok_def Let_def acquire_choice)
      qed
    qed
  qed
qed

lemma proxy_Run_ok:
  assumes "server_ok R s" "0 \<notin> R" "mget (fvPxys s) (pfName (pxConf px)) = None" "pxListeners px = []"
  shows "runs_ok R (pfName (pxConf px)) s (proxy_Run env px s)"
  using assms tcp_Run_ok [of R s "pfName (pxConf px)" px env] udp_Run_ok [of R s "pfName (pxConf px)" px env]
    http_Run_ok [of R s "pfName (pxConf px)" px env] https_Run_ok [of R s "pfName (pxConf px)" px env]
  by (simp add: proxy_Run_def split: proxy_type.split)

section \<open>Closing\<close>

lemma closeProxy_ok:
  assumes ok: "server_ok R s" and n: "mget (fvPxys s) n = Some px"
  shows "server_ok R (closeProxy now px s)" "fvPxys (closeProxy now px s) = mdel n (fvPxys s)"
proof -
  note shape = server_okD(5)[OF ok n]
  then have name: "pfName (pxConf px) = n" by (simp add: shape_ok_def)
  have "server_ok R (closeProxy now px s) \<and> fvPxys (closeProxy now px s) = mdel n (fvPxys s)"
  proof (cases "pfType (pxConf px)")
    case TCPProxyType
    show ?thesis
    proof (cases "grouped px")
      case False
      with shape TCPProxyType have "pxListeners px = [PortListener (pxRealPort px)]" by (simp add: shape_ok_def)
      with del_tcp [OF ok n TCPProxyType False, of now] False TCPProxyType name show ?thesis
        by (simp add: closeProxy_def pxy_Del_def proxy_Close_def tcp_Close_def base_Close_def Let_def)
    next
      case True
      with shape TCPProxyType obtain ln tg where m: "member_of px (pfGroup (pxConf px)) ln"
        "mget (fvTcpGroups s) (pfGroup (pxConf px)) = Some tg" "ln \<in> set (tgLns tg)" by (auto simp: shape_ok_def)
      then have c: "closeProxy now px s = without_pxy n (tcp_group_close now (pfGroup (pxConf px)) ln s)"
        using True TCPProxyType name
        by (simp add: closeProxy_def pxy_Del_def proxy_Close_def tcp_Close_def base_Close_def Let_def member_of_def)
      show ?thesis
      proof (cases "remove1 ln (tgLns tg) = []")
        case last: True
        from del_last_member [OF ok n m(1,2,3) last, of now] show ?thesis
          unfolding c by (simp add: tcp_group_close_def m(2) last Let_def)
      next
        case more: False
        from del_member [OF ok n m(1,2) more] show ?thesis
          unfolding c by (simp add: tcp_group_close_def m(2) more Let_def)
      qed
    qed
  next
    case UDPProxyType
    with shape have l: "pxListeners px = [PortListener (pxRealPort px)]" by (simp add: shape_ok_def)
    let ?s = "without_pxy n (s\<lparr>fvUdpBound := remove1 (pxRealPort px) (fvUdpBound s), fvUDP := Release now (pxRealPort px) (fvUDP s)\<rparr>)"
    have "same_ports ?s (closeProxy now px s)"
      using l UDPProxyType name by (simp add: closeProxy_def pxy_Del_def proxy_Close_def udp_Close_def base_Close_def Let_def same_ports_def)
    from server_ok_frame [OF del_udp [OF ok n UDPProxyType, of now] this] this show ?thesis by (simp add: same_ports_def)
  next
    case HTTPProxyType
    with shape have l: "pxListeners px = []" by (simp add: shape_ok_def)
    let ?s = "fold (run_closer n) (pxClosers px) s"
    have c: "closeProxy now px s = without_pxy n ?s"
      using l HTTPProxyType name by (simp add: closeProxy_def pxy_Del_def proxy_Close_def http_Close_def base_Close_def)
    have sp: "same_ports s ?s" by (rule run_closers_same)
    then have "mget (fvPxys ?s) n = Some px" using n by (simp add: same_ports_def)
    from del_web [OF server_ok_frame [OF ok sp] this] HTTPProxyType sp show ?thesis unfolding c by (simp add: same_ports_def)
  next
    case HTTPSProxyType
    with shape have w: "web_listeners (pxListeners px)" by (simp add: shape_ok_def web_listeners_def)
    let ?s = "fold (listener_close now HTTPSProxyType) (pxListeners px) s"
    have c: "closeProxy now px s = without_pxy n ?s"
      using HTTPSProxyType name by (simp add: closeProxy_def pxy_Del_def proxy_Close_def https_Close_def base_Close_def)
    have sp: "same_ports s ?s" by (rule close_web_listeners [OF w])
    then have "mget (fvPxys ?s) n = Some px" using n by (simp add: same_ports_def)
    from del_web [OF server_ok_frame [OF ok sp] this] HTTPSProxyType sp show ?thesis unfolding c by (simp add: same_ports_def)
  qed
  then show "server_ok R (closeProxy now px s)" "fvPxys (closeProxy now px s) = mdel n (fvPxys s)" by blast+
qed

end
