(* ===== verification/FrpService.thy ===== *)
theory FrpService
  imports FrpServerInv
begin

text \<open>
  The sessions of the frp server: which session a proxy belongs to, what the end of a session
  gives back, and which ports and domains a user's proxies can get.
\<close>

section \<open>Registering and closing a proxy\<close>

lemma RegisterProxy_result:
  assumes ok: "server_ok R s" and z: "0 \<notin> R" and reg: "RegisterProxy env conf c s = (s', c', r)"
  shows "ctPhase c' = ctPhase c \<and> ctLogin c' = ctLogin c \<and> (case r of
      Inl _ \<Rightarrow> server_ok R s' \<and> fvPxys s' = fvPxys s \<and> ctProxies c' = ctProxies c
    | Inr px \<Rightarrow> server_ok R s' \<and> mget (fvPxys s) (pfName (pxConf px)) = None \<and>
        fvPxys s' = mput (pfName (pxConf px)) px (fvPxys s) \<and> ctProxies c' = mput (pfName (pxConf px)) px (ctProxies c))"
proof (cases conf)
  case (Inl e)
  with reg ok show ?thesis by (auto simp: RegisterProxy_def)
next
  case (Inr cf)
  define s0 where "s0 = s\<lparr>fvNext := fvNext s + 1\<rparr>"
  define px where "px = \<lparr>pxID = fvNext s, pxConf = cf, pxUser = lgUser (ctLogin c), pxRealPort = 0, pxListeners = [], pxClosers = []\<rparr>"
  have new: "NewProxy cf (lgUser (ctLogin c)) s = (s0, px)" by (simp add: NewProxy_def s0_def px_def)
  have ok0: "server_ok R s0" by (rule server_ok_frame [OF ok]) (simp add: same_ports_def s0_def)
  have p0: "fvPxys s0 = fvPxys s" by (simp add: s0_def)
  define m where "m = max_ports s (lgUser (ctLogin c))"
  show ?thesis
  proof (cases "0 < m \<and> m < ctPortsUsedNum c + GetUsedPortsNum cf \<or> pxy_Exist (pfName cf) s0")
    case True
    with reg ok0 p0 show ?thesis by (auto simp: RegisterProxy_def Inr new Let_def m_def [symmetric] split: if_splits)
  next
    case False
    then have n: "mget (fvPxys s0) (pfName (pxConf px)) = None" "pfName (pxConf px) = pfName cf" by (auto simp: pxy_Exist_def px_def)
    obtain s1 r1 where run: "proxy_Run env px s0 = (s1, r1)" by fastforce
    have "runs_ok R (pfName (pxConf px)) s0 (s1, r1)"
      using proxy_Run_ok [OF ok0 z n(1), of env] run by (simp add: px_def)
    note ro = this [unfolded n(2) runs_ok_def]
    show ?thesis
    proof (cases r1)
      case (Inl e)
      with ro reg False run p0 show ?thesis
        by (auto simp: RegisterProxy_def Inr new Let_def m_def [symmetric] split: if_splits)
    next
      case r1: (Inr px1)
      with ro have px1: "server_ok R (with_pxy (pfName cf) px1 s1)" "fvPxys s1 = fvPxys s0" "pfName (pxConf px1) = pfName cf" by auto
      then have "pxy_Add (pfName cf) px1 s1 = Some (with_pxy (pfName cf) px1 s1)" using n by (simp add: pxy_Add_def)
      with px1 reg False run r1 p0 n show ?thesis
        by (auto simp: RegisterProxy_def Inr new Let_def m_def [symmetric] split: if_splits)
    qed
  qed
qed

lemma CloseProxy_result:
  assumes ok: "server_ok R s" and own: "\<And>px. mget (ctProxies c) n = Some px \<Longrightarrow> mget (fvPxys s) n = Some px"
    and cl: "CloseProxy now n c s = (s', c')"
  shows "server_ok R s'" "ctPhase c' = ctPhase c" "ctLogin c' = ctLogin c"
    and "mget (ctProxies c') m = (if m = n then None else mget (ctProxies c) m)"
    and "mget (fvPxys s') m = (if m = n \<and> mget (ctProxies c) n \<noteq> None then None else mget (fvPxys s) m)"
    and "mwf (ctProxies c) \<Longrightarrow> mwf (ctProxies c')"
proof -
  have "server_ok R s' \<and> ctPhase c' = ctPhase c \<and> ctLogin c' = ctLogin c \<and>
    mget (ctProxies c') m = (if m = n then None else mget (ctProxies c) m) \<and>
    mget (fvPxys s') m = (if m = n \<and> mget (ctProxies c) n \<noteq> None then None else mget (fvPxys s) m) \<and>
    (mwf (ctProxies c) \<longrightarrow> mwf (ctProxies c'))"
  proof (cases "mget (ctProxies c) n")
    case None
    with cl ok show ?thesis by (simp add: CloseProxy_def)
  next
    case (Some px)
    from closeProxy_ok [OF ok own [OF Some], of now] cl Some show ?thesis
      by (auto simp: CloseProxy_def Let_def gomap_simps split: if_splits)
  qed
  then show "server_ok R s'" "ctPhase c' = ctPhase c" "ctLogin c' = ctLogin c"
    "mget (ctProxies c') m = (if m = n then None else mget (ctProxies c) m)"
    "mget (fvPxys s') m = (if m = n \<and> mget (ctProxies c) n \<noteq> None then None else mget (fvPxys s) m)"
    "mwf (ctProxies c) \<Longrightarrow> mwf (ctProxies c')" by blast+
qed

text \<open>Closing never starts a group.\<close>

definition groups_shrink :: "FrpServer \<Rightarrow> FrpServer \<Rightarrow> bool" where
  "groups_shrink s s' \<longleftrightarrow> (\<forall>g tg. mget (fvTcpGroups s') g = Some tg \<longrightarrow> tgLns tg \<noteq> [] \<longrightarrow>
     (\<exists>t. mget (fvTcpGroups s) g = Some t \<and> tgLns t \<noteq> [] \<and> tgRealPort t = tgRealPort tg))"

lemma groups_shrink_same: "same_ports s s' \<Longrightarrow> groups_shrink s s'"
  by (simp add: groups_shrink_def same_ports_def)

lemma groups_shrink_trans: "groups_shrink s s' \<Longrightarrow> groups_shrink s' s'' \<Longrightarrow> groups_shrink s s''"
  unfolding groups_shrink_def by metis

lemma listener_close_shrinks: "groups_shrink s (listener_close now t l s)"
proof (cases l)
  case (TcpGroupListener g ln)
  then show ?thesis
    by (auto simp: tcp_group_close_def groups_shrink_def Let_def gomap_simps split: option.split if_splits)
qed (simp_all add: groups_shrink_same https_listen_same https_group_same, simp add: groups_shrink_def)

lemma base_Close_shrinks: "groups_shrink s (base_Close now px s)"
proof -
  have "groups_shrink s (fold (listener_close now t) ls s)" for t ls
    by (induction ls arbitrary: s) (auto intro: groups_shrink_trans [OF listener_close_shrinks] simp: groups_shrink_same)
  then show ?thesis by (simp add: base_Close_def)
qed

lemma closeProxy_shrinks: "groups_shrink s (closeProxy now px s)"
proof -
  have h: "groups_shrink s (http_Close now px s)"
    unfolding http_Close_def by (rule groups_shrink_trans [OF base_Close_shrinks groups_shrink_same [OF run_closers_same]])
  have f: "groups_shrink s (x\<lparr>fvTCP := pm\<rparr>)" "groups_shrink s (x\<lparr>fvUDP := pm, fvUdpLate := u\<rparr>)" "groups_shrink s (x\<lparr>fvPxys := ps\<rparr>)"
    if "groups_shrink s x" for x pm u ps
    using that by (simp_all add: groups_shrink_def)
  show ?thesis unfolding closeProxy_def pxy_Del_def
    by (rule f(3)) (auto simp: proxy_Close_def tcp_Close_def udp_Close_def https_Close_def Let_def h intro!: f base_Close_shrinks split: proxy_type.split)
qed

lemma close_list_ok:
  assumes "server_ok R s" "distinct (map fst ps)" "\<And>n px. (n, px) \<in> set ps \<Longrightarrow> mget (fvPxys s) n = Some px"
  shows "server_ok R (fold (\<lambda>(_, px). closeProxy now px) ps s) \<and> groups_shrink s (fold (\<lambda>(_, px). closeProxy now px) ps s) \<and>
    (\<forall>m. mget (fvPxys (fold (\<lambda>(_, px). closeProxy now px) ps s)) m = (if m \<in> fst ` set ps then None else mget (fvPxys s) m))"
  using assms
proof (induction ps arbitrary: s)
  case Nil
  then show ?case by (simp add: groups_shrink_same)
next
  case (Cons q ps)
  obtain n px where q: "q = (n, px)" by (cases q)
  let ?s = "closeProxy now px s"
  have n: "mget (fvPxys s) n = Some px" using Cons.prems(3) q by simp
  note c = closeProxy_ok [OF Cons.prems(1) n, of now]
  have "mget (fvPxys ?s) m = Some y" if "(m, y) \<in> set ps" for m y
  proof -
    have "m \<noteq> n" using Cons.prems(2) q that by force
    with c(2) Cons.prems(3)[of m y] that show ?thesis by (simp add: gomap_simps)
  qed
  with Cons.IH [OF c(1)] Cons.prems(2) q groups_shrink_trans [OF closeProxy_shrinks [of s now px]] c(2)
  show ?case by (auto simp: gomap_simps)
qed

section \<open>The invariant of the service\<close>

definition sessions_ok :: "FrpService \<Rightarrow> bool" where
  "sessions_ok svr \<longleftrightarrow>
     (\<forall>i c. mget (sxControls svr) i = Some c \<longrightarrow> mwf (ctProxies c) \<and> (ctPhase c \<noteq> Running \<longrightarrow> ctProxies c = []) \<and>
        (\<forall>n px. mget (ctProxies c) n = Some px \<longrightarrow> mget (fvPxys (sxServer svr)) n = Some px)) \<and>
     (\<forall>i j c d n. mget (sxControls svr) i = Some c \<longrightarrow> mget (sxControls svr) j = Some d \<longrightarrow>
        mget (ctProxies c) n \<noteq> None \<longrightarrow> mget (ctProxies d) n \<noteq> None \<longrightarrow> i = j) \<and>
     (\<forall>n px. mget (fvPxys (sxServer svr)) n = Some px \<longrightarrow> (\<exists>i c. mget (sxControls svr) i = Some c \<and> mget (ctProxies c) n = Some px)) \<and>
     (\<forall>i c. mget (sxControls svr) i = Some c \<longrightarrow> i < sxNext svr)"

lemma sessions_okD:
  assumes "sessions_ok svr"
  shows "mget (sxControls svr) i = Some c \<Longrightarrow> mwf (ctProxies c)"
    and "mget (sxControls svr) i = Some c \<Longrightarrow> ctPhase c \<noteq> Running \<Longrightarrow> ctProxies c = []"
    and "mget (sxControls svr) i = Some c \<Longrightarrow> mget (ctProxies c) n = Some px \<Longrightarrow> mget (fvPxys (sxServer svr)) n = Some px"
    and "mget (sxControls svr) i = Some c \<Longrightarrow> mget (sxControls svr) j = Some d \<Longrightarrow> mget (ctProxies c) n \<noteq> None \<Longrightarrow>
      mget (ctProxies d) n \<noteq> None \<Longrightarrow> i = j"
    and "mget (fvPxys (sxServer svr)) n = Some px \<Longrightarrow> \<exists>i c. mget (sxControls svr) i = Some c \<and> mget (ctProxies c) n = Some px"
    and "mget (sxControls svr) i = Some c \<Longrightarrow> i < sxNext svr"
  using assms unfolding sessions_ok_def by blast+


lemma sessions_same:
  assumes ok: "sessions_ok svr" and p: "\<And>n. mget (fvPxys (sxServer svr')) n = mget (fvPxys (sxServer svr)) n"
    and bwd: "\<And>i c'. mget (sxControls svr') i = Some c' \<Longrightarrow> i < sxNext svr' \<and> (ctPhase c' \<noteq> Running \<longrightarrow> ctProxies c' = []) \<and>
      (ctProxies c' = [] \<or> (\<exists>c. mget (sxControls svr) i = Some c \<and> ctProxies c' = ctProxies c))"
    and forth: "\<And>i c. mget (sxControls svr) i = Some c \<Longrightarrow> \<exists>c'. mget (sxControls svr') i = Some c' \<and> ctProxies c' = ctProxies c"
  shows "sessions_ok svr'"
proof -
  note d = sessions_okD [OF ok]
  have src: "\<exists>c. mget (sxControls svr) i = Some c \<and> ctProxies c' = ctProxies c"
    if "mget (sxControls svr') i = Some c'" "mget (ctProxies c') n \<noteq> None" for i c' n
    using bwd [OF that(1)] that(2) by auto
  show ?thesis
    unfolding sessions_ok_def p
  proof (intro conjI allI impI)
    fix i c' assume c': "mget (sxControls svr') i = Some c'"
    from bwd [OF c'] d(1) show "mwf (ctProxies c')" by auto
    from bwd [OF c'] show "ctPhase c' \<noteq> Running \<Longrightarrow> ctProxies c' = []" "i < sxNext svr'" by blast+
    fix n px assume n: "mget (ctProxies c') n = Some px"
    with src [OF c', of n] d(3) show "mget (fvPxys (sxServer svr)) n = Some px" by auto
  next
    fix i j c' d' n
    assume a: "mget (sxControls svr') i = Some c'" "mget (sxControls svr') j = Some d'" "mget (ctProxies c') n \<noteq> None" "mget (ctProxies d') n \<noteq> None"
    from src [OF a(1,3)] src [OF a(2,4)] a(3,4) d(4) show "i = j" by metis
  next
    fix n px assume "mget (fvPxys (sxServer svr)) n = Some px"
    from d(5)[OF this] forth show "\<exists>i c. mget (sxControls svr') i = Some c \<and> mget (ctProxies c) n = Some px" by metis
  qed
qed

lemma sessions_frame:
  assumes "sessions_ok svr" "fvPxys (sxServer svr') = fvPxys (sxServer svr)" "sxControls svr' = sxControls svr" "sxNext svr' = sxNext svr"
  shows "sessions_ok svr'"
  using assms unfolding sessions_ok_def by simp

text \<open>One session's proxies change.\<close>

lemma sessions_one:
  assumes ok: "sessions_ok svr" and c: "mget (sxControls svr) i = Some c"
    and svr': "sxControls svr' = mput i c' (sxControls svr)" "sxNext svr' = sxNext svr"
    and c': "mwf (ctProxies c')" "ctPhase c' \<noteq> Running \<Longrightarrow> ctProxies c' = []"
    and p: "\<And>n. mget (ctProxies c') n = mget (ctProxies c) n \<and> mget (fvPxys (sxServer svr')) n = mget (fvPxys (sxServer svr)) n \<or>
      mget (ctProxies c') n = mget (fvPxys (sxServer svr')) n \<and>
      (mget (ctProxies c) n \<noteq> None \<or> mget (fvPxys (sxServer svr)) n = None)"
  shows "sessions_ok svr'"
proof -
  note d = sessions_okD [OF ok]
  have look: "mget (sxControls svr') j = (if j = i then Some c' else mget (sxControls svr) j)" for j
    by (simp add: svr'(1) gomap_simps)
  have mine: "mget (fvPxys (sxServer svr')) n = Some px" if "mget (ctProxies c') n = Some px" for n px
    using p [of n] that d(3)[OF c, of n px] by auto
  have other: "mget (fvPxys (sxServer svr')) n = mget (fvPxys (sxServer svr)) n \<and> mget (ctProxies c') n = None"
    if j: "j \<noteq> i" "mget (sxControls svr) j = Some b" "mget (ctProxies b) n = Some px" for j b n px
  proof -
    have "mget (ctProxies c) n = None"
    proof (rule ccontr)
      assume "mget (ctProxies c) n \<noteq> None"
      with d(4)[OF j(2) c _ this] j(1,3) show False by simp
    qed
    moreover have "mget (fvPxys (sxServer svr)) n \<noteq> None" using d(3)[OF j(2,3)] by simp
    ultimately show ?thesis using p [of n] by auto
  qed
  show ?thesis
    unfolding sessions_ok_def
  proof (intro conjI allI impI)
    fix j b assume b: "mget (sxControls svr') j = Some b"
    show "mwf (ctProxies b)" "ctPhase b \<noteq> Running \<Longrightarrow> ctProxies b = []" "j < sxNext svr'"
      using b c' d(1,2,6) c by (auto simp: look svr'(2) split: if_splits)
    fix n px assume n: "mget (ctProxies b) n = Some px"
    show "mget (fvPxys (sxServer svr')) n = Some px"
    proof (cases "j = i")
      case True
      with b n mine show ?thesis by (simp add: look)
    next
      case False
      with b have j: "mget (sxControls svr) j = Some b" by (simp add: look)
      from other [OF False j n] d(3)[OF j n] show ?thesis by simp
    qed
  next
    fix j k b e n
    assume a: "mget (sxControls svr') j = Some b" "mget (sxControls svr') k = Some e" "mget (ctProxies b) n \<noteq> None" "mget (ctProxies e) n \<noteq> None"
    show "j = k"
      using a d(4)[of j b k e n] other [of j b n] other [of k e n] by (auto simp: look split: if_splits)
  next
    fix n px assume n: "mget (fvPxys (sxServer svr')) n = Some px"
    show "\<exists>j b. mget (sxControls svr') j = Some b \<and> mget (ctProxies b) n = Some px"
    proof (cases "mget (ctProxies c') n")
      case (Some y)
      with mine [OF Some] n show ?thesis by (auto simp: look)
    next
      case None
      with p [of n] n have same: "mget (ctProxies c) n = None" "mget (fvPxys (sxServer svr)) n = Some px" by auto
      from d(5)[OF same(2)] obtain j b where j: "mget (sxControls svr) j = Some b" "mget (ctProxies b) n = Some px" by blast
      moreover from this same(1) c have "j \<noteq> i" by auto
      ultimately show ?thesis by (auto simp: look)
    qed
  qed
qed

definition service_ok :: "int set \<Rightarrow> FrpService \<Rightarrow> bool" where
  "service_ok R svr \<longleftrightarrow> server_ok R (sxServer svr) \<and> sessions_ok svr"

lemma handleNewProxy_ok:
  assumes ok: "service_ok R svr" and z: "0 \<notin> R" and c: "mget (sxControls svr) i = Some c" "ctPhase c = Running"
  shows "service_ok R (handleNewProxy env conf i c svr)"
proof -
  obtain s' c' r where reg: "RegisterProxy env conf c (sxServer svr) = (s', c', r)" by (metis prod.exhaust)
  have so: "server_ok R (sxServer svr)" "sessions_ok svr" using ok by (simp_all add: service_ok_def)
  note res = RegisterProxy_result [OF so(1) z reg]
  have h: "handleNewProxy env conf i c svr = (set_control i c' svr)\<lparr>sxServer := s'\<rparr>" by (simp add: handleNewProxy_def reg)
  have w: "mwf (ctProxies c)" by (rule sessions_okD(1)[OF so(2) c(1)])
  have "sessions_ok (handleNewProxy env conf i c svr)"
    unfolding h
    by (rule sessions_one [OF so(2) c(1), of _ c'])
      (use res w c(2) in \<open>auto simp: set_control_def gomap_simps split: sum.splits\<close>)
  moreover have "server_ok R s'" using res by (cases r) auto
  ultimately show ?thesis unfolding service_ok_def h by simp
qed

lemma handleCloseProxy_ok:
  assumes ok: "service_ok R svr" and c: "mget (sxControls svr) i = Some c" "ctPhase c = Running"
  shows "service_ok R (handleCloseProxy now n i c svr)"
proof -
  obtain s' c' where cl: "CloseProxy now n c (sxServer svr) = (s', c')" by (metis prod.exhaust)
  have so: "server_ok R (sxServer svr)" "sessions_ok svr" using ok by (simp_all add: service_ok_def)
  note res = CloseProxy_result [OF so(1) sessions_okD(3)[OF so(2) c(1)] cl]
  have h: "handleCloseProxy now n i c svr = (set_control i c' svr)\<lparr>sxServer := s'\<rparr>" by (simp add: handleCloseProxy_def cl)
  have "sessions_ok (handleCloseProxy now n i c svr)"
    unfolding h
    by (rule sessions_one [OF so(2) c(1), of _ c'])
      (use res sessions_okD(1)[OF so(2) c(1)] c(2) in \<open>auto simp: set_control_def split: if_splits\<close>)
  with res(1) show ?thesis unfolding service_ok_def h by simp
qed

lemma close_all_ok:
  assumes ok: "service_ok R svr" and c: "mget (sxControls svr) i = Some c"
  shows "server_ok R (close_all now c (sxServer svr))" "groups_shrink (sxServer svr) (close_all now c (sxServer svr))"
    and "mget (fvPxys (close_all now c (sxServer svr))) n = (if mget (ctProxies c) n \<noteq> None then None else mget (fvPxys (sxServer svr)) n)"
proof -
  have so: "server_ok R (sxServer svr)" "sessions_ok svr" using ok by (simp_all add: service_ok_def)
  have w: "mwf (ctProxies c)" by (rule sessions_okD(1)[OF so(2) c])
  have "mget (fvPxys (sxServer svr)) m = Some px" if "(m, px) \<in> set (ctProxies c)" for m px
    using sessions_okD(3)[OF so(2) c] that w by (simp add: mem_mget)
  note l = close_list_ok [OF so(1) w [unfolded mwf_def] this, of now]
  show "server_ok R (close_all now c (sxServer svr))" "groups_shrink (sxServer svr) (close_all now c (sxServer svr))"
    using l by (simp_all add: close_all_def)
  have "mget (ctProxies c) n \<noteq> None \<longleftrightarrow> n \<in> fst ` set (ctProxies c)" by (simp add: mget_None_iff)
  with l show "mget (fvPxys (close_all now c (sxServer svr))) n = (if mget (ctProxies c) n \<noteq> None then None else mget (fvPxys (sxServer svr)) n)"
    unfolding close_all_def by presburger
qed

lemma worker_end_ok:
  assumes ok: "service_ok R svr" and c: "mget (sxControls svr) i = Some c"
  shows "service_ok R (worker_end now i c svr)"
proof -
  note cl = close_all_ok [OF ok c]
  have so: "sessions_ok svr" using ok by (simp add: service_ok_def)
  have "sessions_ok (worker_end now i c svr)"
    by (rule sessions_one [OF so c, of _ "c\<lparr>ctProxies := [], ctPhase := Done\<rparr>"])
      (use cl(3)[where now = now] in \<open>auto simp: worker_end_def set_control_def\<close>)
  with cl(1) show ?thesis by (simp add: service_ok_def worker_end_def set_control_def)
qed

text \<open>Steps that change no proxy.\<close>

lemma login_begin_ok:
  assumes ok: "service_ok R svr" shows "service_ok R (RegisterControl_begin fresh lg svr)"
proof -
  define lg' where "lg' = (if lgRunID lg = [] then lg\<lparr>lgRunID := fresh\<rparr> else lg)"
  define n where "n = sxNext svr"
  define s1 where "s1 = (set_control n (NewControl lg') svr)\<lparr>sxNext := n + 1\<rparr>"
  have so: "server_ok R (sxServer svr)" "sessions_ok svr" using ok by (simp_all add: service_ok_def)
  note d = sessions_okD [OF so(2)]
  have fresh: "mget (sxControls svr) n = None" using d(6)[of n] by (cases "mget (sxControls svr) n") (auto simp: n_def)
  have below: "i < n" if "mget (sxControls svr) i = Some c" for i c using d(6)[OF that] by (simp add: n_def)
  have add: "service_ok R s1"
    unfolding service_ok_def
  proof
    show "server_ok R (sxServer s1)" using so(1) by (simp add: s1_def set_control_def)
    show "sessions_ok s1"
      by (rule sessions_same [OF so(2)])
        (use fresh d(2) below in \<open>auto simp: s1_def set_control_def NewControl_def gomap_simps less_SucI split: if_splits\<close>)
  qed
  have upd: "service_ok R svr'" if "service_ok R s" "sxServer svr' = sxServer s" "sxNext svr' = sxNext s" "sxControls svr' = mput i c' (sxControls s)"
    "mget (sxControls s) i = Some c" "ctProxies c' = ctProxies c" "ctPhase c' = Running \<or> ctProxies c' = []" for s svr' i c c'
  proof -
    have so: "sessions_ok s" using that(1) by (simp add: service_ok_def)
    note d = sessions_okD [OF so]
    have "sessions_ok svr'"
      by (rule sessions_same [OF so]) (use that d(2,6) in \<open>auto simp: gomap_simps split: if_splits\<close>)
    with that show ?thesis by (simp add: service_ok_def)
  qed
  have ctl: "sxControls s1 = mput n (NewControl lg') (sxControls svr)" "sxByRunID s1 = sxByRunID svr"
    by (simp_all add: s1_def set_control_def)
  show ?thesis
  proof (cases "mget (sxByRunID s1) (lgRunID lg')")
    case None
    then have "RegisterControl_begin fresh lg svr = s1\<lparr>sxByRunID := mput (lgRunID lg') n (sxByRunID s1)\<rparr>"
      unfolding RegisterControl_begin_def Let_def lg'_def [symmetric] n_def [symmetric] s1_def [symmetric] manager_Add_def by simp
    with add show ?thesis by (auto simp: service_ok_def elim: sessions_frame)
  next
    case (Some old)
    define s2 where "s2 = (case mget (sxControls s1) old of None \<Rightarrow> s1 | Some c \<Rightarrow> set_control old (Replaced c) s1)"
    have s2: "service_ok R s2"
    proof (cases "mget (sxControls s1) old")
      case None
      with add show ?thesis by (simp add: s2_def)
    next
      case (Some c)
      moreover have "ctPhase c = Running \<or> ctProxies c = []" using add Some by (auto simp: service_ok_def dest: sessions_okD)
      ultimately show ?thesis unfolding s2_def by (intro upd [OF add _ _ _ Some, of _ "Replaced c"]) (simp_all add: set_control_def Replaced_def)
    qed
    obtain c where c: "mget (sxControls s2) n = Some c" "ctProxies c = []"
      by (cases "mget (sxControls s1) old")
        (auto simp: s2_def ctl set_control_def gomap_simps Replaced_def NewControl_def split: if_splits)
    have "RegisterControl_begin fresh lg svr =
      set_control n ((NewControl lg')\<lparr>ctPhase := Waiting old\<rparr>) (s2\<lparr>sxByRunID := mput (lgRunID lg') n (sxByRunID s1)\<rparr>)"
      using Some unfolding RegisterControl_begin_def Let_def lg'_def [symmetric] n_def [symmetric] s1_def [symmetric] manager_Add_def s2_def
      by (cases "mget (sxControls s1) old") simp_all
    then show ?thesis
      by (intro upd [OF s2 _ _ _ c(1), of _ "(NewControl lg')\<lparr>ctPhase := Waiting old\<rparr>"]) (simp_all add: set_control_def NewControl_def c(2))
  qed
qed

lemma register_finish_ok:
  assumes ok: "service_ok R svr" and c: "mget (sxControls svr) i = Some c" "ctPhase c \<noteq> Running"
  shows "service_ok R (fst (RegisterControl_finish now i c svr))"
proof -
  have so: "server_ok R (sxServer svr)" "sessions_ok svr" using ok by (simp_all add: service_ok_def)
  note d = sessions_okD [OF so(2)]
  have e: "ctProxies c = []" "i < sxNext svr" using d(2)[OF c] d(6)[OF c(1)] by blast+
  obtain cr x b where r: "registry_Register now (lgUser (ctLogin c)) (lgClientID (ctLogin c)) (lgRunID (ctLogin c)) (lgMeta (ctLogin c)) (sxRegistry svr) = (cr, x, b)"
    by (metis prod.exhaust)
  have "sessions_ok (fst (RegisterControl_finish now i c svr))"
    by (rule sessions_same [OF so(2)])
      (use e c d(2,6) in \<open>auto simp: RegisterControl_finish_def r set_control_def manager_Del_def gomap_simps split: if_splits\<close>)
  with so(1) show ?thesis by (simp add: service_ok_def RegisterControl_finish_def r Let_def set_control_def manager_Del_def)
qed

lemma clean_ports_ok:
  assumes ok: "server_ok R s"
  shows "server_ok R (s\<lparr>fvTCP := cleanReservedPortsOnce now (fvTCP s), fvUDP := cleanReservedPortsOnce now (fvUDP s)\<rparr>)"
proof -
  have used: "pmUsed (cleanReservedPortsOnce now pm) = pmUsed pm" for pm by (simp add: cleanReservedPortsOnce_def)
  have "server_ok R (s\<lparr>fvTCP := cleanReservedPortsOnce now (fvTCP s)\<rparr>)" (is "server_ok R ?s")
    by (rule server_ok_ports(1)[OF ok]) (use server_okD(1)[OF ok] in \<open>simp add: ports_ok_def used cleanReservedPortsOnce_ok\<close>)
  from server_ok_ports(2)[OF this, of "cleanReservedPortsOnce now (fvUDP s)"] server_okD(1)[OF this]
  show ?thesis by (simp add: ports_ok_def used cleanReservedPortsOnce_ok)
qed

lemma udp_again_ok:
  assumes ok: "server_ok R s" shows "server_ok R (udp_Close_again now port s)"
proof -
  have "server_ok R (s\<lparr>fvUDP := Release now port (fvUDP s)\<rparr>)"
    by (rule server_ok_ports(2)[OF ok udp_release(2)[OF server_okD(1)[OF ok]]])
  from server_ok_frame [OF this, of "udp_Close_again now port s"] show ?thesis by (simp add: udp_Close_again_def same_ports_def)
qed

lemma service_step_ok:
  assumes "service_step svr svr'" "service_ok R svr" "0 \<notin> R" shows "service_ok R svr'"
  using assms
proof (induction rule: service_step.induct)
  case (users svr st)
  have "server_ok R ((sxServer svr)\<lparr>fvUsers := Some st\<rparr>)" "sessions_ok svr"
    using users(2) server_ok_frame [OF _ same_ports_update(6)] by (auto simp: service_ok_def)
  then show ?case unfolding service_ok_def by (auto elim: sessions_frame)
next
  case (login svr fresh lg)
  then show ?case by (intro login_begin_ok)
next
  case (registered svr i c now)
  then have "ctPhase c \<noteq> Running" by auto
  with registered show ?case by (intro register_finish_ok)
next
  case (started svr i c now sent)
  then have so: "server_ok R (sxServer svr)" "sessions_ok svr" by (simp_all add: service_ok_def)
  note d = sessions_okD [OF so(2)]
  have e: "ctProxies c = []" using d(2)[OF started(1)] started(2) by simp
  have "sessions_ok (login_done now sent i c svr)"
    by (rule sessions_same [OF so(2)])
      (use e started(1) d(2,6) in \<open>auto simp: login_done_def set_control_def manager_Del_def gomap_simps split: if_splits\<close>)
  with so(1) show ?case by (simp add: service_ok_def login_done_def set_control_def manager_Del_def)
next
  case (reaped svr i c)
  then have "service_ok R svr" by blast
  then show ?case by (auto simp: service_ok_def manager_Del_def elim: sessions_frame)
next
  case (cleaned svr now)
  then have so: "server_ok R (sxServer svr)" "sessions_ok svr" by (simp_all add: service_ok_def)
  have p: "ports_ok R (sxServer svr)" by (rule server_okD(1)[OF so(1)])
  have "server_ok R ((sxServer svr)\<lparr>fvTCP := cleanReservedPortsOnce now (fvTCP (sxServer svr)),
    fvUDP := cleanReservedPortsOnce now (fvUDP (sxServer svr))\<rparr>)"
    by (rule clean_ports_ok [OF so(1)])
  with so(2) show ?case unfolding service_ok_def by (auto elim: sessions_frame)
next
  case (late port svr now)
  then have so: "server_ok R (sxServer svr)" "sessions_ok svr" by (simp_all add: service_ok_def)
  have "server_ok R (udp_Close_again now port (sxServer svr))" by (rule udp_again_ok [OF so(1)])
  moreover have "fvPxys (udp_Close_again now port (sxServer svr)) = fvPxys (sxServer svr)" by (simp add: udp_Close_again_def)
  ultimately show ?case using so(2) unfolding service_ok_def by (auto elim: sessions_frame)
qed (simp_all add: handleNewProxy_ok handleCloseProxy_ok worker_end_ok)

end
