(* ===== verification/FrpSessions.thy ===== *)
theory FrpSessions
  imports FrpService
begin

text \<open>
  What the sessions of the frp server guarantee: who holds the ports, what the end of a session
  gives back, what a user's pools allow, and how many ports a session can hold.
\<close>

section \<open>Reachable services\<close>

lemma new_service_ok:
  assumes "R = allowed_ports ranges"
  shows "service_ok R (new_service (new_server users maxPorts subDomainHost bindAddr ranges))" (is "service_ok R (new_service ?s)")
proof -
  have "\<not> owns ?s p own" for p own by (cases own) (simp_all add: new_server_def)
  then have "server_ok R ?s"
    using newManager_ok [of ranges]
    by (simp add: server_ok_def ports_ok_def owners_ok_def groups_ok_def apart_ok_def new_server_def newManager_def assms)
  then show ?thesis by (simp add: service_ok_def sessions_ok_def new_service_def new_server_def)
qed

lemma service_reachable_ok:
  assumes "service_reachable ranges svr" "0 \<notin> allowed_ports ranges" shows "service_ok (allowed_ports ranges) svr"
  using assms by (induction rule: service_reachable.induct) (blast intro: new_service_ok service_step_ok)+

section \<open>The ports\<close>

text \<open>When the operations of the sessions do not overlap, so that each is one step (\<^verbatim>\<open>FrpRace\<close> has them overlap): in every state of the service, the proxies of the proxy manager are those of the running sessions, each in exactly
  one of them; a tcp port is in use exactly when a live proxy without a group or a group with listeners owns it, and then only
  one of them does; the listeners of a group belong to live proxies; and two live udp proxies have different ports.\<close>

theorem live_proxies_hold_ports:
  assumes "service_reachable ranges svr" "0 \<notin> allowed_ports ranges"
  shows "(\<forall>n px. mget (fvPxys (sxServer svr)) n = Some px \<longleftrightarrow>
      (\<exists>i c. mget (sxControls svr) i = Some c \<and> ctPhase c = Running \<and> mget (ctProxies c) n = Some px)) \<and>
    (\<forall>i j c d n. mget (sxControls svr) i = Some c \<and> mget (sxControls svr) j = Some d \<and>
      mget (ctProxies c) n \<noteq> None \<and> mget (ctProxies d) n \<noteq> None \<longrightarrow> i = j) \<and>
    (\<forall>p. mget (pmUsed (fvTCP (sxServer svr))) p \<noteq> None \<longleftrightarrow> (\<exists>own. owns (sxServer svr) p own)) \<and>
    (\<forall>p own own'. owns (sxServer svr) p own \<and> owns (sxServer svr) p own' \<longrightarrow> own = own' \<and> p \<in> allowed_ports ranges) \<and>
    (\<forall>g tg ln. mget (fvTcpGroups (sxServer svr)) g = Some tg \<and> ln \<in> set (tgLns tg) \<longrightarrow>
      (\<exists>n px. mget (fvPxys (sxServer svr)) n = Some px \<and> member_of px g ln)) \<and>
    (\<forall>n n' px px'. mget (fvPxys (sxServer svr)) n = Some px \<and> mget (fvPxys (sxServer svr)) n' = Some px' \<and>
      is_udp px \<and> is_udp px' \<and> pxRealPort px = pxRealPort px' \<longrightarrow> n = n')"
proof -
  have ok: "server_ok (allowed_ports ranges) (sxServer svr)" "sessions_ok svr"
    using service_reachable_ok [OF assms] by (simp_all add: service_ok_def)
  note d = server_okD [OF ok(1)] and e = sessions_okD [OF ok(2)]
  have used: "mget (pmUsed (fvTCP (sxServer svr))) p \<noteq> None \<longleftrightarrow> p \<in> set (fvTcpBound (sxServer svr))" for p
    using d(1) unfolding ports_ok_def by blast
  have allowed: "p \<in> allowed_ports ranges" if "mget (pmUsed (fvTCP (sxServer svr))) p \<noteq> None" for p
  proof -
    have "pm_ok (allowed_ports ranges) (fvTCP (sxServer svr))" using d(1) unfolding ports_ok_def by blast
    from pm_okD(5)[OF this] that show ?thesis by blast
  qed
  have own: "mget (pmUsed (fvTCP (sxServer svr))) p \<noteq> None \<longleftrightarrow> (\<exists>own. owns (sxServer svr) p own)" for p
    unfolding used by (rule owners_okD(1)[OF d(2)])
  have run: "ctPhase c = Running" if "mget (sxControls svr) i = Some c" "mget (ctProxies c) n = Some px" for i c n px
    using e(2)[OF that(1)] that(2) by (cases "ctPhase c = Running") auto
  show ?thesis
  proof (intro conjI)
    show "\<forall>n px. mget (fvPxys (sxServer svr)) n = Some px \<longleftrightarrow>
      (\<exists>i c. mget (sxControls svr) i = Some c \<and> ctPhase c = Running \<and> mget (ctProxies c) n = Some px)"
      using e(3,5) run by blast
    show "\<forall>i j c d n. mget (sxControls svr) i = Some c \<and> mget (sxControls svr) j = Some d \<and>
      mget (ctProxies c) n \<noteq> None \<and> mget (ctProxies d) n \<noteq> None \<longrightarrow> i = j" using e(4) by blast
    show "\<forall>p. mget (pmUsed (fvTCP (sxServer svr))) p \<noteq> None \<longleftrightarrow> (\<exists>own. owns (sxServer svr) p own)" using own by blast
    show "\<forall>p own own'. owns (sxServer svr) p own \<and> owns (sxServer svr) p own' \<longrightarrow> own = own' \<and> p \<in> allowed_ports ranges"
      using owners_okD(2)[OF d(2)] own allowed by blast
    show "\<forall>g tg ln. mget (fvTcpGroups (sxServer svr)) g = Some tg \<and> ln \<in> set (tgLns tg) \<longrightarrow>
      (\<exists>n px. mget (fvPxys (sxServer svr)) n = Some px \<and> member_of px g ln)" using groups_okD(2)[OF d(3)] by blast
    show "\<forall>n n' px px'. mget (fvPxys (sxServer svr)) n = Some px \<and> mget (fvPxys (sxServer svr)) n' = Some px' \<and>
      is_udp px \<and> is_udp px' \<and> pxRealPort px = pxRealPort px' \<longrightarrow> n = n'" using apart_okD(1)[OF d(4)] by blast
  qed
qed

section \<open>The end of a session\<close>

lemma worker_end_fields:
  "sxServer (worker_end now i c svr) = close_all now c (sxServer svr)"
  "sxControls (worker_end now i c svr) = mput i (c\<lparr>ctProxies := [], ctPhase := Done\<rparr>) (sxControls svr)"
  "sxRegistry (worker_end now i c svr) = MarkOfflineByRunID now (ctRunID c) (sxRegistry svr)"
  by (simp_all add: worker_end_def set_control_def)

text \<open>A port that a closed proxy owned has no owner, as nothing gets a new one.\<close>

lemma released_port_free:
  assumes ok: "server_ok R s" "server_ok R s'" and mine: "owns s p (Inl n)" and gone: "mget (fvPxys s') n = None"
    and names: "\<And>m px. mget (fvPxys s') m = Some px \<Longrightarrow> mget (fvPxys s) m = Some px" and shrink: "groups_shrink s s'"
  shows "mget (pmUsed (fvTCP s')) p = None \<and> mget (pmFree (fvTCP s')) p \<noteq> None"
proof -
  note d = server_okD [OF ok(1)] and d' = server_okD [OF ok(2)]
  have "p \<in> set (fvTcpBound s)" using mine owners_okD(1)[OF d(2)] by blast
  then have "mget (pmUsed (fvTCP s)) p \<noteq> None" using d(1) unfolding ports_ok_def by blast
  then have p: "p \<in> R" using pm_okD(5)[of _ "fvTCP s"] d(1) unfolding ports_ok_def by blast
  have "\<not> owns s' p own" for own
  proof
    assume o: "owns s' p own"
    have "owns s p own \<and> own \<noteq> Inl n"
    proof (cases own)
      case (Inl m)
      with o gone names show ?thesis by auto
    next
      case (Inr g)
      with o shrink show ?thesis by (auto simp: groups_shrink_def)
    qed
    with owners_okD(2)[OF d(2) mine] show False by blast
  qed
  then have "p \<notin> set (fvTcpBound s')" using owners_okD(1)[OF d'(2)] by blast
  then have "mget (pmUsed (fvTCP s')) p = None" using d'(1) unfolding ports_ok_def by blast
  moreover have "pm_ok R (fvTCP s')" using d'(1) unfolding ports_ok_def by blast
  ultimately show ?thesis using pm_okD(4)[of R "fvTCP s'" p] p by blast
qed

text \<open>A group that still listens after the end of a session has a member in another one.\<close>

lemma group_of_others:
  assumes ok: "service_ok R svr'" and ctl: "\<And>j. mget (sxControls svr') j = (if j = i then Some c' else mget (sxControls svr) j)" "ctProxies c' = []"
    and g: "mget (fvTcpGroups (sxServer svr')) g = Some tg" "tgLns tg \<noteq> []"
  shows "\<exists>j d n px ln. j \<noteq> i \<and> mget (sxControls svr) j = Some d \<and> mget (ctProxies d) n = Some px \<and> member_of px g ln"
proof -
  have so: "server_ok R (sxServer svr')" "sessions_ok svr'" using ok by (simp_all add: service_ok_def)
  obtain ln where "ln \<in> set (tgLns tg)" using g(2) by (cases "tgLns tg") auto
  from groups_okD(2)[OF server_okD(3)[OF so(1)] g(1) this] obtain n px where n: "mget (fvPxys (sxServer svr')) n = Some px" "member_of px g ln" by blast
  from sessions_okD(5)[OF so(2) n(1)] obtain j b where j: "mget (sxControls svr') j = Some b" "mget (ctProxies b) n = Some px" by blast
  have i: "j \<noteq> i"
  proof
    assume "j = i"
    with j(1) ctl(1)[of i] have "b = c'" by simp
    with j(2) ctl(2) show False by simp
  qed
  then have "mget (sxControls svr) j = Some b" using j(1) by (simp add: ctl)
  with i j(2) n(2) show ?thesis by blast
qed

text \<open>C18. When the worker of a session ends, none of its proxies is left in the proxy manager and every other proxy stays; the
  tcp ports of its proxies without a group are free again; a group keeps its port only while a proxy of another session
  listens in it, and no group starts; the other sessions do not change.\<close>

theorem session_end_releases:
  assumes reach: "service_reachable ranges svr" and z: "0 \<notin> allowed_ports ranges" and c: "mget (sxControls svr) i = Some c"
    and svr'_def: "svr' = worker_end now i c svr"
  shows "(\<forall>n. mget (fvPxys (sxServer svr')) n = (if mget (ctProxies c) n \<noteq> None then None else mget (fvPxys (sxServer svr)) n)) \<and>
    (\<forall>n px. mget (ctProxies c) n = Some px \<and> is_tcp px \<and> \<not> grouped px \<longrightarrow> mget (pmUsed (fvTCP (sxServer svr'))) (pxRealPort px) = None \<and>
      mget (pmFree (fvTCP (sxServer svr'))) (pxRealPort px) \<noteq> None) \<and>
    (\<forall>g tg. mget (fvTcpGroups (sxServer svr')) g = Some tg \<and> tgLns tg \<noteq> [] \<longrightarrow>
      (\<exists>t. mget (fvTcpGroups (sxServer svr)) g = Some t \<and> tgRealPort t = tgRealPort tg) \<and>
      (\<exists>j d n px ln. j \<noteq> i \<and> mget (sxControls svr) j = Some d \<and> mget (ctProxies d) n = Some px \<and> member_of px g ln)) \<and>
    (\<forall>j. j \<noteq> i \<longrightarrow> mget (sxControls svr') j = mget (sxControls svr) j)"
proof -
  have ok: "service_ok (allowed_ports ranges) svr" by (rule service_reachable_ok [OF reach z])
  have ok': "service_ok (allowed_ports ranges) svr'" unfolding svr'_def by (rule worker_end_ok [OF ok c])
  have srv: "sxServer svr' = close_all now c (sxServer svr)" unfolding svr'_def by (rule worker_end_fields(1))
  have ctl: "mget (sxControls svr') j = (if j = i then Some (c\<lparr>ctProxies := [], ctPhase := Done\<rparr>) else mget (sxControls svr) j)" for j
    unfolding svr'_def worker_end_fields by (simp add: gomap_simps)
  note names = close_all_ok(3)[OF ok c, of now, folded srv]
  note shrink = close_all_ok(2)[OF ok c, of now, folded srv]
  have so: "server_ok (allowed_ports ranges) (sxServer svr)" "server_ok (allowed_ports ranges) (sxServer svr')" "sessions_ok svr"
    using ok ok' by (simp_all add: service_ok_def)
  have free: "mget (pmUsed (fvTCP (sxServer svr'))) (pxRealPort px) = None \<and> mget (pmFree (fvTCP (sxServer svr'))) (pxRealPort px) \<noteq> None"
    if n: "mget (ctProxies c) n = Some px" "is_tcp px" "\<not> grouped px" for n px
    by (rule released_port_free [OF so(1,2) _ _ _ shrink, of _ n])
      (use n sessions_okD(3)[OF so(3) c n(1)] names in \<open>auto split: if_splits\<close>)
  have groups: "(\<exists>t. mget (fvTcpGroups (sxServer svr)) g = Some t \<and> tgRealPort t = tgRealPort tg) \<and>
      (\<exists>j d n px ln. j \<noteq> i \<and> mget (sxControls svr) j = Some d \<and> mget (ctProxies d) n = Some px \<and> member_of px g ln)"
    if g: "mget (fvTcpGroups (sxServer svr')) g = Some tg" "tgLns tg \<noteq> []" for g tg
    using shrink [unfolded groups_shrink_def] g group_of_others [OF ok' ctl _ g] by auto
  show ?thesis using names free groups by (intro conjI allI impI) (blast | simp add: ctl)+
qed

end
