(* ===== verification/FrpPools.thy ===== *)
theory FrpPools
  imports FrpSessions
begin

text \<open>
  What a user of the frp server can get: ports and domains of the own pools, and no more ports
  than the quota, as long as the quota stays positive. The lemmas after each property show where the
  server gives more.
\<close>

section \<open>The ports and domains of a proxy\<close>

text \<open>The port manager a proxy of this kind takes its port from, and which proxies take a port themselves: a tcp proxy in a group shares that of the group.\<close>

abbreviation port_manager :: "ProxyConf \<Rightarrow> FrpServer \<Rightarrow> PortManager" where
  "port_manager cf s \<equiv> (if pfType cf = UDPProxyType then fvUDP s else fvTCP s)"

abbreviation takes_port :: "ProxyConf \<Rightarrow> bool" where
  "takes_port cf \<equiv> pfType cf = UDPProxyType \<or> pfType cf = TCPProxyType \<and> pfGroup cf = []"

abbreviation takes_domains :: "ProxyConf \<Rightarrow> bool" where
  "takes_domains cf \<equiv> pfType cf = HTTPProxyType \<or> pfType cf = HTTPSProxyType"

lemma acquired_in_pool:
  assumes "acquire env name port rs pm = (pm', Inr p)" "rs \<noteq> []"
  shows "frp_portInRanges p rs \<or> port = 0 \<and> reserved_port pm name = Some p" "port \<noteq> 0 \<Longrightarrow> p = port"
proof -
  have "(frp_portInRanges p rs \<or> port = 0 \<and> reserved_port pm name = Some p) \<and> (port \<noteq> 0 \<longrightarrow> p = port)"
    using assms(1)
  proof (cases rule: acquire_cases)
    case (random q)
    then have q: "q = p" "q \<in> set (candidates env rs pm)" by (auto simp: find_Some_iff split: if_splits)
    then have "frp_portInRanges p rs" using assms(2) by (auto simp: candidates_def dest!: in_set_takeD)
    with random(1) show ?thesis by simp
  qed (use assms(2) in auto)
  then show "frp_portInRanges p rs \<or> port = 0 \<and> reserved_port pm name = Some p" "port \<noteq> 0 \<Longrightarrow> p = port" by blast+
qed

lemma tcp_group_listen_conf: "tcp_Run env px s = (s1, Inr px1) \<Longrightarrow> pfType (pxConf px1) = pfType (pxConf px) \<and> pfName (pxConf px1) = pfName (pxConf px)"
  by (auto simp: tcp_Run_def Let_def split: prod.splits sum.splits if_splits)

lemma udp_Run_conf: "udp_Run env px s = (s1, Inr px1) \<Longrightarrow> pfType (pxConf px1) = pfType (pxConf px)"
  by (auto simp: udp_Run_def Let_def split: prod.splits sum.splits if_splits)

lemma http_Run_conf: "http_Run env px s = (s1, Inr px1) \<Longrightarrow> pxConf px1 = pxConf px"
  by (auto simp: http_Run_def Let_def dest: http_register_px split: prod.splits option.splits)

lemma https_Run_conf: "https_Run env px s = (s1, Inr px1) \<Longrightarrow> pxConf px1 = pxConf px"
  by (auto simp: https_Run_def Let_def dest: https_register_same split: prod.splits option.splits)

lemma proxy_Run_type: "proxy_Run env px s = (s1, Inr px1) \<Longrightarrow> pfType (pxConf px1) = pfType (pxConf px)"
  by (auto simp: proxy_Run_def dest: tcp_group_listen_conf udp_Run_conf http_Run_conf https_Run_conf split: proxy_type.splits)

lemma port_Run_pool:
  assumes "proxy_Run env px s = (s1, Inr px1)" "takes_port (pxConf px)" "fvUsers s = Some st"
  shows "\<exists>penv pm. acquire penv (pfName (pxConf px)) (pfRemotePort (pxConf px)) (UserPorts st (pxUser px)) (port_manager (pxConf px) s) =
    (pm, Inr (pxRealPort px1)) \<and> UserPorts st (pxUser px) \<noteq> []"
  using assms(2)
proof
  assume "pfType (pxConf px) = UDPProxyType"
  with assms(1,3) show ?thesis
    by (fastforce simp: proxy_Run_def udp_Run_def sessionUserStoreEnabled_def sessionUserPorts_def AcquireFromRanges_def Let_def
      split: prod.splits sum.splits if_splits)
next
  assume "pfType (pxConf px) = TCPProxyType \<and> pfGroup (pxConf px) = []"
  with assms(1,3) show ?thesis
    by (fastforce simp: proxy_Run_def tcp_Run_def sessionUserStoreEnabled_def sessionUserPorts_def AcquireFromRanges_def Let_def
      split: prod.splits sum.splits if_splits)
qed

lemma domain_Run_pool:
  assumes "proxy_Run env px s = (s1, Inr px1)" "takes_domains (pxConf px)" "fvUsers s = Some st"
    and d: "d \<in> set (buildDomains s (pfCustomDomains (pxConf px)) (pfSubDomain (pxConf px)))"
  shows "domainAllowed d (UserDomains st (pxUser px))"
proof -
  have "validateUserDomains s (pxUser px) (buildDomains s (pfCustomDomains (pxConf px)) (pfSubDomain (pxConf px))) = None"
    using assms(1,2) by (auto simp: proxy_Run_def http_Run_def https_Run_def Let_def split: prod.splits option.splits)
  with d assms(3) show ?thesis
    by (auto simp: validateUserDomains_def sessionUserStoreEnabled_def sessionUserDomains_def find_None_iff)
qed

text \<open>A registration that succeeds has run the new proxy.\<close>

lemma RegisterProxy_run:
  assumes "RegisterProxy env (Inr cf) c s = (s', c', Inr px)"
  shows "\<exists>s1. proxy_Run env \<lparr>pxID = fvNext s, pxConf = cf, pxUser = lgUser (ctLogin c), pxRealPort = 0, pxListeners = [], pxClosers = []\<rparr>
       (s\<lparr>fvNext := fvNext s + 1\<rparr>) = (s1, Inr px)"
    and "mget (fvPxys s) (pfName cf) = None"
    and "max_ports s (lgUser (ctLogin c)) \<le> 0 \<or> ctPortsUsedNum c + GetUsedPortsNum cf \<le> max_ports s (lgUser (ctLogin c))"
    and "ctPortsUsedNum c' = ctPortsUsedNum c + (if 0 < max_ports s (lgUser (ctLogin c)) then GetUsedPortsNum cf else 0)"
    and "ctProxies c' = mput (pfName (pxConf px)) px (ctProxies c)"
  using assms unfolding RegisterProxy_def NewProxy_def pxy_Exist_def Let_def
  by (auto split: if_splits prod.splits sum.splits option.splits)


text \<open>A tcp proxy with a group takes its port without a look at the user's ranges.\<close>

lemma groups_bypass_pool:
  "pfGroup (pxConf px) \<noteq> [] \<Longrightarrow> snd (tcp_Run env px (s\<lparr>fvUsers := st\<rparr>)) = snd (tcp_Run env px s)"
  unfolding tcp_Run_def tcp_group_listen_def Let_def
  by (cases "Acquire (port_env env (fvTcpBound s)) (pfName (pxConf px)) (pfRemotePort (pxConf px)) (fvTCP s)")
    (auto split: sum.splits option.splits)

end
