(* ===== verification/FrpQuota.thy ===== *)
theory FrpQuota
  imports FrpPools
begin

text \<open>
  The port quota of the frp server's sessions, and the runs in which the server does not keep what
  the code means to: quotas that come and go, logins that wait for ever, ports released twice.
\<close>

section \<open>Counting ports\<close>

definition port_count :: "(string, FrpProxy) gomap \<Rightarrow> int" where
  "port_count ps = sum_list (map (\<lambda>(_, px). GetUsedPortsNum (pxConf px)) ps)"

lemma port_count_put: "mget ps n = None \<Longrightarrow> port_count (mput n px ps) = port_count ps + GetUsedPortsNum (pxConf px)"
  unfolding port_count_def mput_def mget_def by (induction ps) (auto split: if_splits)

lemma port_count_del:
  "mwf ps \<Longrightarrow> mget ps n = Some px \<Longrightarrow> port_count (mdel n ps) = port_count ps - GetUsedPortsNum (pxConf px)"
  unfolding port_count_def mdel_def mget_def mwf_def
proof (induction ps)
  case (Cons a ps)
  show ?case
  proof (cases "fst a = n")
    case True
    with Cons.prems have "n \<notin> fst ` set ps" by auto
    then have "AList.delete n ps = ps" by simp
    with True Cons.prems show ?thesis by (cases a) simp
  next
    case False
    with Cons show ?thesis by (cases a) auto
  qed
qed simp

lemma GetUsedPortsNum_type: "pfType cf = pfType cf' \<Longrightarrow> GetUsedPortsNum cf = GetUsedPortsNum cf'"
  by (simp add: GetUsedPortsNum_def)

text \<open>The quotas of all sessions are positive and at most \<open>M\<close>.\<close>

definition quotas_within :: "int \<Rightarrow> FrpService \<Rightarrow> bool" where
  "quotas_within M svr \<longleftrightarrow> (\<forall>i c. mget (sxControls svr) i = Some c \<longrightarrow>
     0 < max_ports (sxServer svr) (lgUser (ctLogin c)) \<and> max_ports (sxServer svr) (lgUser (ctLogin c)) \<le> M)"

inductive quota_reachable :: "FrpRange list \<Rightarrow> int \<Rightarrow> FrpService \<Rightarrow> bool" for ranges M where
  new: "quota_reachable ranges M (new_service (new_server users maxPorts subDomainHost bindAddr ranges))"
| step: "quota_reachable ranges M svr \<Longrightarrow> quotas_within M svr \<Longrightarrow> service_step svr svr' \<Longrightarrow> quota_reachable ranges M svr'"

lemma quota_service: "quota_reachable ranges M svr \<Longrightarrow> service_reachable ranges svr"
  by (induction rule: quota_reachable.induct) (blast intro: service_reachable.intros)+

definition counts_ok :: "int \<Rightarrow> FrpService \<Rightarrow> bool" where
  "counts_ok M svr \<longleftrightarrow> (\<forall>i c. mget (sxControls svr) i = Some c \<longrightarrow>
     (ctPhase c = Done \<or> ctPortsUsedNum c = port_count (ctProxies c)) \<and> ctPortsUsedNum c \<le> M)"

lemma counts_okD:
  assumes "counts_ok M svr" "mget (sxControls svr) i = Some c"
  shows "ctPhase c = Done \<or> ctPortsUsedNum c = port_count (ctProxies c)" "ctPortsUsedNum c \<le> M"
  using assms unfolding counts_ok_def by blast+

text \<open>Controls that keep their counts, or start with nothing.\<close>

lemma counts_same:
  assumes ok: "counts_ok M svr" and m: "0 \<le> M"
    and bwd: "\<And>i c'. mget (sxControls svr') i = Some c' \<Longrightarrow>
      ctProxies c' = [] \<and> ctPortsUsedNum c' = 0 \<or>
      (\<exists>c. mget (sxControls svr) i = Some c \<and> ctProxies c' = ctProxies c \<and> ctPortsUsedNum c' = ctPortsUsedNum c \<and> (ctPhase c = Done \<longrightarrow> ctPhase c' = Done))"
  shows "counts_ok M svr'"
  unfolding counts_ok_def
proof (intro allI impI)
  fix i c' assume "mget (sxControls svr') i = Some c'"
  from bwd [OF this] show "(ctPhase c' = Done \<or> ctPortsUsedNum c' = port_count (ctProxies c')) \<and> ctPortsUsedNum c' \<le> M"
  proof
    assume "ctProxies c' = [] \<and> ctPortsUsedNum c' = 0"
    then show ?thesis using m by (simp add: port_count_def)
  next
    assume "\<exists>c. mget (sxControls svr) i = Some c \<and> ctProxies c' = ctProxies c \<and> ctPortsUsedNum c' = ctPortsUsedNum c \<and> (ctPhase c = Done \<longrightarrow> ctPhase c' = Done)"
    then obtain c where "mget (sxControls svr) i = Some c" "ctProxies c' = ctProxies c" "ctPortsUsedNum c' = ctPortsUsedNum c" "ctPhase c = Done \<longrightarrow> ctPhase c' = Done"
      by blast
    with counts_okD [OF ok this(1)] show ?thesis by auto
  qed
qed

lemma counts_one:
  assumes ok: "counts_ok M svr" and ctl: "sxControls svr' = mput i c' (sxControls svr)"
    and c: "ctPhase c' = Done \<or> ctPortsUsedNum c' = port_count (ctProxies c')" "ctPortsUsedNum c' \<le> M"
  shows "counts_ok M svr'"
  unfolding counts_ok_def ctl using c counts_okD [OF ok] by (auto simp: gomap_simps split: if_splits)

lemma RegisterProxy_count:
  assumes reg: "RegisterProxy env conf c s = (s', c', r)" and w: "mwf (ctProxies c)"
    and own: "\<And>n px. mget (ctProxies c) n = Some px \<Longrightarrow> mget (fvPxys s) n = Some px"
    and ok: "server_ok R s" "0 \<notin> R"
    and q: "0 < max_ports s (lgUser (ctLogin c))" "max_ports s (lgUser (ctLogin c)) \<le> M"
    and old: "ctPortsUsedNum c = port_count (ctProxies c)" "ctPortsUsedNum c \<le> M"
  shows "ctPortsUsedNum c' = port_count (ctProxies c') \<and> ctPortsUsedNum c' \<le> M"
proof (cases r)
  case (Inl e)
  with RegisterProxy_result [OF ok reg] have "ctProxies c' = ctProxies c" by simp
  moreover have "ctPortsUsedNum c' = ctPortsUsedNum c"
    using reg Inl unfolding RegisterProxy_def Let_def
    by (auto split: sum.splits prod.splits if_splits option.splits)
  ultimately show ?thesis using old by simp
next
  case (Inr px)
  then obtain cf where cf: "conf = Inr cf" using reg by (cases conf) (auto simp: RegisterProxy_def)
  note run = RegisterProxy_run [OF reg [unfolded cf Inr]]
  have g: "GetUsedPortsNum (pxConf px) = GetUsedPortsNum cf" using run(1) proxy_Run_type by (fastforce intro: GetUsedPortsNum_type)
  have "mget (fvPxys s) (pfName (pxConf px)) = None" using RegisterProxy_result [OF ok reg] Inr by simp
  with own [of "pfName (pxConf px)"] have "mget (ctProxies c) (pfName (pxConf px)) = None"
    by (cases "mget (ctProxies c) (pfName (pxConf px))") auto
  from port_count_put [OF this, of px] run q old g show ?thesis by simp
qed

lemma CloseProxy_count:
  assumes cl: "CloseProxy now n c s = (s', c')" and w: "mwf (ctProxies c)" and q: "0 < max_ports s (lgUser (ctLogin c))"
    and old: "ctPortsUsedNum c = port_count (ctProxies c)" "ctPortsUsedNum c \<le> M"
  shows "ctPortsUsedNum c' = port_count (ctProxies c') \<and> ctPortsUsedNum c' \<le> M"
proof (cases "mget (ctProxies c) n")
  case None
  with cl old show ?thesis by (simp add: CloseProxy_def)
next
  case (Some px)
  have "0 < fvMaxPortsPerClient s \<or> fvUsers s \<noteq> None" using q by (auto simp: max_ports_def split: option.splits)
  moreover have "0 \<le> GetUsedPortsNum (pxConf px)" by (simp add: GetUsedPortsNum_def split: proxy_type.split)
  ultimately show ?thesis using cl Some old port_count_del [OF w Some]
    by (auto simp: CloseProxy_def Let_def)
qed

lemma counts_step:
  assumes "service_step svr svr'" "counts_ok M svr" "service_ok R svr" "0 \<notin> R" "0 \<le> M" "quotas_within M svr"
  shows "counts_ok M svr'"
  using assms
proof (induction rule: service_step.induct)
  case (login svr fresh lg)
  then show ?case
    by (intro counts_same [OF login(1) login(4)])
      (auto simp: RegisterControl_begin_def manager_Add_def set_control_def NewControl_def Replaced_def Let_def gomap_simps
        split: option.splits if_splits)
next
  case (registered svr i c now)
  then have "ctPhase c \<noteq> Done" by auto
  obtain cr x b where r: "registry_Register now (lgUser (ctLogin c)) (lgClientID (ctLogin c)) (lgRunID (ctLogin c)) (lgMeta (ctLogin c)) (sxRegistry svr) = (cr, x, b)"
    by (metis prod.exhaust)
  show ?case
    by (rule counts_same [OF registered(3,6)])
      (use \<open>ctPhase c \<noteq> Done\<close> registered(1) in
        \<open>auto simp: RegisterControl_finish_def r set_control_def manager_Del_def gomap_simps split: if_splits\<close>)
next
  case (started svr i c now sent)
  show ?case
    by (rule counts_same [OF started(3,6)])
      (use started(1,2) in \<open>auto simp: login_done_def set_control_def manager_Del_def gomap_simps split: if_splits\<close>)
next
  case (new_proxy svr i c env conf)
  obtain s' c' r where reg: "RegisterProxy env conf c (sxServer svr) = (s', c', r)" by (metis prod.exhaust)
  have so: "server_ok R (sxServer svr)" "sessions_ok svr" using new_proxy by (simp_all add: service_ok_def)
  have q: "0 < max_ports (sxServer svr) (lgUser (ctLogin c))" "max_ports (sxServer svr) (lgUser (ctLogin c)) \<le> M"
    using new_proxy unfolding quotas_within_def by blast+
  have "ctPortsUsedNum c' = port_count (ctProxies c') \<and> ctPortsUsedNum c' \<le> M"
    by (rule RegisterProxy_count [OF reg sessions_okD(1)[OF so(2) new_proxy(1)] sessions_okD(3)[OF so(2) new_proxy(1)] so(1) new_proxy(5) q])
      (use counts_okD [OF new_proxy(3,1)] new_proxy(2) in auto)
  then show ?case by (intro counts_one [OF new_proxy(3), of _ i c']) (simp_all add: handleNewProxy_def reg set_control_def)
next
  case (close_proxy svr i c now name)
  obtain s' c' where cl: "CloseProxy now name c (sxServer svr) = (s', c')" by (metis prod.exhaust)
  have so: "sessions_ok svr" using close_proxy by (simp add: service_ok_def)
  have q: "0 < max_ports (sxServer svr) (lgUser (ctLogin c))" using close_proxy unfolding quotas_within_def by blast
  have "ctPortsUsedNum c' = port_count (ctProxies c') \<and> ctPortsUsedNum c' \<le> M"
    by (rule CloseProxy_count [OF cl sessions_okD(1)[OF so close_proxy(1)] q]) (use counts_okD [OF close_proxy(3,1)] close_proxy(2) in auto)
  then show ?case by (intro counts_one [OF close_proxy(3), of _ i c']) (simp_all add: handleCloseProxy_def cl set_control_def)
next
  case (ended svr i c now)
  from counts_okD [OF ended(3,1)] show ?case
    by (intro counts_one [OF ended(3) worker_end_fields(2)]) simp_all
next
  case (reaped svr i c)
  then show ?case by (simp add: counts_ok_def manager_Del_def)
qed (simp_all add: counts_ok_def)

text \<open>C20. As long as the quotas of the users of all sessions stay between one and \<open>M\<close>, the counter of a session is the
  number of ports of its live proxies, and it is at most \<open>M\<close>.\<close>

theorem quota_bounds_session:
  assumes "quota_reachable ranges M svr" "0 \<notin> allowed_ports ranges" "0 \<le> M"
    and "mget (sxControls svr) i = Some c" "ctPhase c = Running"
  shows "ctPortsUsedNum c = int (length (filter (\<lambda>(_, px). is_tcp px \<or> is_udp px) (ctProxies c))) \<and> ctPortsUsedNum c \<le> M"
proof -
  have "counts_ok M svr" using assms(1)
  proof (induction rule: quota_reachable.induct)
    case new
    show ?case by (simp add: counts_ok_def new_service_def)
  next
    case (step svr svr')
    with assms(2,3) show ?case using counts_step service_reachable_ok quota_service by blast
  qed
  moreover have "port_count ps = int (length (filter (\<lambda>(_, px). is_tcp px \<or> is_udp px) ps))" for ps
    unfolding port_count_def by (induction ps) (auto simp: GetUsedPortsNum_def split: proxy_type.splits)
  ultimately show ?thesis using counts_okD [of M svr i c] assms(4,5) by auto
qed

section \<open>Where the server gives more, or less\<close>

text \<open>A proxy registered while the user has no quota is not counted, but closing it is: the counter falls below the ports in
  use, and a quota set later allows more ports than it says.\<close>

lemma quota_drifts:
  assumes "fvUsers s = Some st" "UserMaxPorts st (lgUser (ctLogin c)) \<le> 0" "RegisterProxy env (Inr cf) c s = (s', c', Inr px)"
    and "fvUsers t \<noteq> None" "CloseProxy now (pfName (pxConf px)) c' t = (t', c'')"
  shows "ctPortsUsedNum c'' = ctPortsUsedNum c - GetUsedPortsNum cf"
proof -
  note reg = RegisterProxy_run [OF assms(3)]
  from reg(1) have g: "GetUsedPortsNum (pxConf px) = GetUsedPortsNum cf" using proxy_Run_type by (fastforce intro: GetUsedPortsNum_type)
  have "ctPortsUsedNum c' = ctPortsUsedNum c" using reg(4) assms(1,2) by (simp add: max_ports_def)
  with assms(4,5) g show ?thesis by (auto simp: CloseProxy_def reg(5) Let_def gomap_simps)
qed

text \<open>A control given up before it ran stays given up, and a login that waits for it waits for ever.\<close>

definition waits_in_vain :: "nat \<Rightarrow> nat \<Rightarrow> FrpService \<Rightarrow> bool" where
  "waits_in_vain i old svr \<longleftrightarrow> map_option ctPhase (mget (sxControls svr) i) = Some (Waiting old) \<and>
     map_option ctPhase (mget (sxControls svr) old) = Some Abandoned"

lemma phase_stays:
  assumes "service_step svr svr'" "sessions_ok svr" "map_option ctPhase (mget (sxControls svr) j) = Some ph"
    and "ph = Abandoned \<or> (\<exists>old. ph = Waiting old \<and> map_option ctPhase (mget (sxControls svr) old) = Some Abandoned)"
  shows "map_option ctPhase (mget (sxControls svr') j) = Some ph"
proof -
  obtain cj where cj: "mget (sxControls svr) j = Some cj" "ctPhase cj = ph" using assms(3) by auto
  have other: "map_option ctPhase (mget (mput i c' (sxControls svr)) j) = Some ph" if "i = j \<Longrightarrow> ctPhase c' = ph" for i c'
    using cj that by (simp add: gomap_simps)
  show ?thesis using assms(1,2,4) cj other
  proof (induction rule: service_step.induct)
    case (login svr fresh lg)
    have "j \<noteq> sxNext svr" using sessions_okD(6)[OF login(1,3)] by simp
    with login show ?case
      by (auto simp: RegisterControl_begin_def manager_Add_def set_control_def Replaced_def Let_def gomap_simps split: option.split)
  next
    case (registered svr i c now)
    have "i \<noteq> j" using registered by auto
    obtain cr x b where r: "registry_Register now (lgUser (ctLogin c)) (lgClientID (ctLogin c)) (lgRunID (ctLogin c)) (lgMeta (ctLogin c)) (sxRegistry svr) = (cr, x, b)"
      by (metis prod.exhaust)
    show ?case using registered(5,6) \<open>i \<noteq> j\<close>
      by (simp add: RegisterControl_finish_def r set_control_def manager_Del_def gomap_simps)
  next
    case (started svr i c now sent)
    have "i \<noteq> j" using started by auto
    with started(5,6) show ?case by (simp add: login_done_def set_control_def manager_Del_def gomap_simps)
  next
    case (new_proxy svr i c env conf)
    have "i \<noteq> j" using new_proxy by auto
    obtain s' c' r where reg: "RegisterProxy env conf c (sxServer svr) = (s', c', r)" by (metis prod.exhaust)
    from \<open>i \<noteq> j\<close> new_proxy(5,6) show ?case by (simp add: handleNewProxy_def reg set_control_def gomap_simps)
  next
    case (close_proxy svr i c now name)
    have "i \<noteq> j" using close_proxy by auto
    obtain s' c' where cl: "CloseProxy now name c (sxServer svr) = (s', c')" by (metis prod.exhaust)
    from \<open>i \<noteq> j\<close> close_proxy(5,6) show ?case by (simp add: handleCloseProxy_def cl set_control_def gomap_simps)
  next
    case (ended svr i c now)
    have "i \<noteq> j" using ended by auto
    with ended(5,6) show ?case by (simp add: worker_end_fields gomap_simps)
  qed (simp_all add: manager_Del_def)
qed

lemma replaced_login_waits_forever:
  assumes "service_step\<^sup>*\<^sup>* svr svr'" "service_ok R svr" "0 \<notin> R" "waits_in_vain i old svr"
  shows "waits_in_vain i old svr'"
proof -
  have "waits_in_vain i old svr' \<and> service_ok R svr'"
    using assms
  proof (induction rule: rtranclp_induct)
    case (step y z)
    then have y: "sessions_ok y" "waits_in_vain i old y" "service_ok R y" by (auto simp: service_ok_def)
    have "waits_in_vain i old z"
      using phase_stays [OF step(2) y(1), of i "Waiting old"] phase_stays [OF step(2) y(1), of old Abandoned] y(2)
      unfolding waits_in_vain_def by auto
    with service_step_ok [OF step(2) y(3) assms(3)] show ?case by blast
  qed auto
  then show ?thesis by blast
qed

end
