(* ===== verification/FrpDemo.thy ===== *)
theory FrpDemo
  imports FrpQuota
begin

text \<open>
  One run of the frp server, step by step: a login, a tcp and a udp proxy, and the states the
  properties of the sessions are applied to.
\<close>

section \<open>A run\<close>

definition with_control :: "nat \<Rightarrow> (nat \<Rightarrow> Control \<Rightarrow> FrpService \<Rightarrow> FrpService) \<Rightarrow> FrpService \<Rightarrow> FrpService" where
  "with_control i f svr = (case mget (sxControls svr) i of None \<Rightarrow> svr | Some c \<Rightarrow> f i c svr)"

definition phase_of :: "FrpService \<Rightarrow> nat \<Rightarrow> phase option" where
  "phase_of svr i = map_option ctPhase (mget (sxControls svr) i)"

lemma running_steps:
  assumes "service_reachable R svr" "phase_of svr i = Some Running"
  shows "service_reachable R (with_control i (handleNewProxy env conf) svr)"
    and "service_reachable R (with_control i (handleCloseProxy now name) svr)"
  using assms(2) by (auto simp: phase_of_def with_control_def intro!: service_reachable.step [OF assms(1)] new_proxy close_proxy)

lemma login_steps:
  assumes "service_reachable R svr"
  shows "service_reachable R (RegisterControl_begin fresh lg svr)"
    and "phase_of svr i = Some Added \<Longrightarrow> service_reachable R (with_control i (\<lambda>i c svr. fst (RegisterControl_finish now i c svr)) svr)"
    and "phase_of svr i = Some Registered \<Longrightarrow> service_reachable R (with_control i (login_done now sent) svr)"
  by (rule service_reachable.step [OF assms login])
    (auto simp: phase_of_def with_control_def intro!: service_reachable.step [OF assms] registered started)

definition pool_users :: FrpStore where
  "pool_users = \<lparr>fsData = [(''alice'', zero_FrpUser\<lparr>fxName := ''alice'', fxRole := ''user'', fxEnabled := True,
     fxAllowPorts := [\<lparr>frStart = 7001, frEnd = 7002, frSingle = 0\<rparr>], fxDomains := [''*.alice.example''], fxMaxPorts := 2\<rparr>)], fsFile = FrpAbsent\<rparr>"

definition alice_login :: "string \<Rightarrow> string \<Rightarrow> Login" where
  "alice_login run client = \<lparr>lgRunID = run, lgUser = ''alice'', lgClientID = client, lgMeta = demo_meta\<rparr>"

definition run_env :: RunEnv where
  "run_env = \<lparr>reNow = 5, reBusy = (\<lambda>_. False), reListens = (\<lambda>_. True), reRank = nat\<rparr>"

definition port_proxy :: "string \<Rightarrow> proxy_type \<Rightarrow> ProxyConf" where
  "port_proxy name t = \<lparr>pfName = name, pfType = t, pfGroup = [], pfGroupKey = [], pfRemotePort = 7001, pfCustomDomains = [],
     pfSubDomain = [], pfLocations = [], pfRouteByHTTPUser = []\<rparr>"

definition svr_new :: FrpService where
  "svr_new = new_service (new_server (Some pool_users) 0 ''frp.example'' ''0.0.0.0'' demo_ranges)"

definition svr_added :: FrpService where
  "svr_added = RegisterControl_begin [] (alice_login ''r1'' ''pc'') svr_new"

definition svr_registered :: FrpService where
  "svr_registered = with_control 0 (\<lambda>i c svr. fst (RegisterControl_finish 1 i c svr)) svr_added"

definition svr_running :: FrpService where
  "svr_running = with_control 0 (login_done 2 True) svr_registered"

definition svr_tcp :: FrpService where
  "svr_tcp = with_control 0 (handleNewProxy run_env (Inr (port_proxy ''web'' TCPProxyType))) svr_running"

lemma svr_registered_reachable: "service_reachable demo_ranges svr_registered"
proof -
  have "phase_of svr_added 0 = Some Added" by code_simp
  then show ?thesis
    unfolding svr_registered_def
    by (intro login_steps(2)) (simp_all add: svr_added_def svr_new_def login_steps(1) service_reachable.new)
qed

lemma svr_running_reachable: "service_reachable demo_ranges svr_running"
proof -
  have "phase_of svr_registered 0 = Some Registered" by code_simp
  then show ?thesis unfolding svr_running_def by (intro login_steps(3) svr_registered_reachable)
qed

lemma svr_tcp_reachable: "service_reachable demo_ranges svr_tcp"
proof -
  have "phase_of svr_running 0 = Some Running" by code_simp
  then show ?thesis unfolding svr_tcp_def by (intro running_steps(1) svr_running_reachable)
qed

lemma demo_no_zero: "0 \<notin> allowed_ports demo_ranges"
  by (simp add: allowed_ports_def demo_ranges_def)

lemma some_ctl: "map_option f (mget m i) = Some v \<Longrightarrow> \<exists>c. mget m i = Some c \<and> f c = v"
  by auto

section \<open>The properties at this run\<close>

theorem live_proxies_hold_ports_witness:
  "(\<exists>own. owns (sxServer svr_tcp) 7001 own) \<and> (\<nexists>own. owns (sxServer svr_tcp) 7002 own)"
proof -
  have u: "mget (pmUsed (fvTCP (sxServer svr_tcp))) 7001 = Some 0" "mget (pmUsed (fvTCP (sxServer svr_tcp))) 7002 = None" by code_simp+
  note own = live_proxies_hold_ports [OF svr_tcp_reachable demo_no_zero, THEN conjunct2, THEN conjunct2, THEN conjunct1]
  from own [THEN spec, of 7001] own [THEN spec, of 7002] u show ?thesis by simp
qed

theorem session_end_releases_witness:
  "map_option (\<lambda>c. mget (pmUsed (fvTCP (sxServer (worker_end 9 0 c svr_tcp)))) 7001) (mget (sxControls svr_tcp) 0) = Some None \<and>
   mget (pmUsed (fvTCP (sxServer svr_tcp))) 7001 = Some 0"
proof -
  have "map_option (\<lambda>c. map_option (\<lambda>px. (pfType (pxConf px), pfGroup (pxConf px), pxRealPort px)) (mget (ctProxies c) ''web''))
    (mget (sxControls svr_tcp) 0) = Some (Some (TCPProxyType, [], 7001))" by code_simp
  then obtain c px where c: "mget (sxControls svr_tcp) 0 = Some c" "mget (ctProxies c) ''web'' = Some px"
    "is_tcp px" "\<not> grouped px" "pxRealPort px = 7001" by auto
  note free = session_end_releases [OF svr_tcp_reachable demo_no_zero c(1) refl, of 9, THEN conjunct2, THEN conjunct1]
  from free [THEN spec, THEN spec, THEN mp, of "''web''" px] c(2-)
  have "mget (pmUsed (fvTCP (sxServer (worker_end 9 0 c svr_tcp)))) 7001 = None" by simp
  moreover have "mget (pmUsed (fvTCP (sxServer svr_tcp))) 7001 = Some 0" by code_simp
  ultimately show ?thesis using c(1) by simp
qed


theorem quota_bounds_session_witness:
  "map_option ctPortsUsedNum (mget (sxControls svr_tcp) 0) = Some 1 \<and>
   map_option (\<lambda>c. length (filter (\<lambda>(_, px). is_tcp px \<or> is_udp px) (ctProxies c))) (mget (sxControls svr_tcp) 0) = Some 1"
proof -
  have "list_all (\<lambda>svr. list_all (\<lambda>(_, c). max_ports (sxServer svr) (lgUser (ctLogin c)) = 2) (sxControls svr))
    [svr_new, svr_added, svr_registered, svr_running]" by code_simp
  then have q: "quotas_within 2 svr" if "svr \<in> {svr_new, svr_added, svr_registered, svr_running}" for svr
    using that by (auto simp: quotas_within_def list_all_iff dest!: mget_Some_mem)
  have ph: "phase_of svr_added 0 = Some Added" "phase_of svr_registered 0 = Some Registered" "phase_of svr_running 0 = Some Running"
    by code_simp+
  have n: "quota_reachable demo_ranges 2 svr_new" unfolding svr_new_def by (rule quota_reachable.new)
  then have "quota_reachable demo_ranges 2 svr_added"
    unfolding svr_added_def by (rule quota_reachable.step [OF _ q]) (auto intro: service_step.intros)
  then have "quota_reachable demo_ranges 2 svr_registered"
    by (rule quota_reachable.step [OF _ q]) (use ph in \<open>auto simp: svr_registered_def with_control_def phase_of_def intro: service_step.intros\<close>)
  then have "quota_reachable demo_ranges 2 svr_running"
    by (rule quota_reachable.step [OF _ q]) (use ph in \<open>auto simp: svr_running_def with_control_def phase_of_def intro: service_step.intros\<close>)
  then have t: "quota_reachable demo_ranges 2 svr_tcp"
    by (rule quota_reachable.step [OF _ q]) (use ph in \<open>auto simp: svr_tcp_def with_control_def phase_of_def intro: service_step.intros\<close>)
  have "map_option (\<lambda>c. (ctPhase c, ctPortsUsedNum c)) (mget (sxControls svr_tcp) 0) = Some (Running, 1)" by code_simp
  then obtain c where c: "mget (sxControls svr_tcp) 0 = Some c" "ctPhase c = Running" "ctPortsUsedNum c = 1" by auto
  from quota_bounds_session [OF t demo_no_zero _ c(1,2)] c show ?thesis by simp
qed

end
