(* ===== verification/NpsServe.thy ===== *)
theory NpsServe
  imports NpsDb "HOL-Library.Multiset"
begin

text \<open>
  How the embedded nps server serves what its tables hold: which host a request goes to
  (\<^verbatim>\<open>GetInfoByHost\<close> in \<^verbatim>\<open>upstream/NPS/lib/file/db.go\<close>), what a client may use
  (\<^verbatim>\<open>server/proxy/base.go\<close>, \<^verbatim>\<open>lib/file/obj.go\<close>), how the copied bytes are counted
  (\<^verbatim>\<open>lib/goroutine/pool.go\<close>) and which target comes next. Moving bytes is not modelled, only their number.
\<close>

section \<open>Routing a request\<close>

text \<open>What \<^verbatim>\<open>GetInfoByHost\<close> reads of a request; the URI is \<open>*\<close> when only the name of a TLS handshake is known.\<close>

record HttpReq =
  hqHost :: string
  hqScheme :: string
  hqURI :: string

definition GetIpByAddr :: "string \<Rightarrow> string" where
  "GetIpByAddr addr =
     (if contains addr ''['' then hd (split_on CHR '']'' (split_on CHR ''['' addr ! 1)) else hd (split_on CHR '':'' addr))"

definition host_matches :: "string \<Rightarrow> string \<Rightarrow> NpsHost \<Rightarrow> bool" where
  "host_matches host scheme v \<longleftrightarrow> \<not> hoIsClose v \<and> (hoScheme v = ''all'' \<or> hoScheme v = scheme) \<and>
     (if contains (hoHost v) ''*'' then contains host (filter (\<lambda>c. c \<noteq> CHR ''*'') (hoHost v)) else hoHost v = host)"

definition with_location :: "NpsHost \<Rightarrow> NpsHost" where
  "with_location v = (if hoLocation v = [] then v\<lparr>hoLocation := ''/''\<rparr> else v)"

fun longest_location :: "string \<Rightarrow> NpsHost option \<Rightarrow> NpsHost list \<Rightarrow> NpsHost option" where
  "longest_location uri h [] = h"
| "longest_location uri h (v0 # vs) =
     (let v = with_location v0 in
      longest_location uri
        (if (uri = ''*'' \<or> has_prefix uri (hoLocation v)) \<and>
            (case h of None \<Rightarrow> True | Some b \<Rightarrow> length (hoLocation b) < length (hoLocation v))
         then Some v else h) vs)"

text \<open>The location of a host that has none is set in the table.\<close>

definition GetInfoByHost :: "HttpReq \<Rightarrow> NpsState \<Rightarrow> NpsState \<times> NpsHost option" where
  "GetInfoByHost rq db =
     (let hosts = filter (host_matches (GetIpByAddr (hqHost rq)) (hqScheme rq)) (map snd (ndHosts db))
      in (fold put_host (map with_location (filter (\<lambda>v. hoLocation v = []) hosts)) db, longest_location (hqURI rq) None hosts))"

section \<open>What a client may use\<close>

datatype serve_error = TrafficExceeded | TooManyConnections | NilFlow

definition Flow_Add :: "int \<Rightarrow> int \<Rightarrow> NpsFlow \<Rightarrow> NpsFlow" where
  "Flow_Add i e fl = fl\<lparr>flInletFlow := wrap64 (flInletFlow fl + i), flExportFlow := wrap64 (flExportFlow fl + e)\<rparr>"

definition flow_exceeded :: "NpsFlow \<Rightarrow> bool" where
  "flow_exceeded fl \<longleftrightarrow> 0 < flFlowLimit fl \<and> wrap64 (flFlowLimit fl * 2 ^ 20) < wrap64 (flExportFlow fl + flInletFlow fl)"

definition CutConn :: "NpsClient \<Rightarrow> NpsClient" where
  "CutConn c = c\<lparr>clNowConn := wrap32 (clNowConn c + 1)\<rparr>"

definition AddConn :: "NpsClient \<Rightarrow> NpsClient" where
  "AddConn c = c\<lparr>clNowConn := wrap32 (clNowConn c - 1)\<rparr>"

text \<open>The test of \<^verbatim>\<open>GetConn\<close> reads the count; the count goes up in a second access.\<close>

definition conn_free :: "NpsClient \<Rightarrow> bool" where
  "conn_free c \<longleftrightarrow> clMaxConn c = 0 \<or> clNowConn c < clMaxConn c"

definition GetConn :: "NpsClient \<Rightarrow> NpsClient \<times> bool" where
  "GetConn c = (if conn_free c then (CutConn c, True) else (c, False))"

text \<open>A client without a flow is a nil pointer, a panic in the source.\<close>

definition CheckFlowAndConnNum :: "NpsClient \<Rightarrow> NpsClient \<times> serve_error option" where
  "CheckFlowAndConnNum c = (case clFlow c of
       None \<Rightarrow> (c, Some NilFlow)
     | Some fl \<Rightarrow>
         if flow_exceeded fl then (c, Some TrafficExceeded)
         else (case GetConn c of (c', True) \<Rightarrow> (c', None) | (c', False) \<Rightarrow> (c', Some TooManyConnections)))"

text \<open>
  The loop of \<^verbatim>\<open>CopyBuffer\<close> over the sizes of the chunks that are read: the flow and the bytes
  forwarded. Every chunk counts as incoming and as outgoing.
\<close>

fun CopyBuffer :: "int list \<Rightarrow> NpsFlow \<Rightarrow> NpsFlow \<times> int" where
  "CopyBuffer [] fl = (fl, 0)"
| "CopyBuffer (n # ns) fl =
     (if n \<le> 0 then CopyBuffer ns fl
      else let fl' = Flow_Add n n fl in
        if flow_exceeded fl' then (fl', n)
        else (case CopyBuffer ns fl' of (fl'', m) \<Rightarrow> (fl'', n + m)))"

text \<open>An address on a list; the search sorts the list first, which changes no answer.\<close>

definition ip_in :: "string \<Rightarrow> string list \<Rightarrow> bool" where
  "ip_in target ips \<longleftrightarrow> target \<in> set ips"

definition IsBlackIp :: "string \<Rightarrow> string list \<Rightarrow> bool" where
  "IsBlackIp ipPort ips \<longleftrightarrow> ip_in (GetIpByAddr ipPort) ips"

section \<open>Connections\<close>

text \<open>
  The server of a tcp tunnel (\<^verbatim>\<open>TunnelModeServer.Start\<close>): a connection is checked, counted while
  it lasts, and moves bytes. Every connection has a goroutine of its own and no lock is held from the test
  to the count, so they are two steps with those of other connections in between: the second list holds the client of
  every connection that has passed the test and is not counted yet, the first that of every connection that is
  counted. The runs with at most \<open>k\<close> connections of one client on the second list at a time are the steps
  with the parameter \<open>k\<close>; every run is one of them for some \<open>k\<close>.
\<close>

inductive serve_step :: "nat \<Rightarrow> NpsState \<times> int list \<times> int list \<Rightarrow> NpsState \<times> int list \<times> int list \<Rightarrow> bool" for k where
  checked: "mget (ndClients db) cid = Some c \<Longrightarrow> snd (CheckFlowAndConnNum c) = None \<Longrightarrow> count_list checks cid < k \<Longrightarrow>
    serve_step k (db, opens, checks) (db, opens, cid # checks)"
| counted: "cid \<in> set checks \<Longrightarrow> mget (ndClients db) cid = Some c \<Longrightarrow>
    serve_step k (db, opens, checks) (put_client (CutConn c) db, cid # opens, remove1 cid checks)"
| refused: "mget (ndClients db) cid = Some c \<Longrightarrow> CheckFlowAndConnNum c = (c', Some e) \<Longrightarrow>
    serve_step k (db, opens, checks) (put_client c' db, opens, checks)"
| moved: "cid \<in> set opens \<Longrightarrow> mget (ndClients db) cid = Some c \<Longrightarrow> clFlow c = Some fl \<Longrightarrow>
    serve_step k (db, opens, checks) (put_client (c\<lparr>clFlow := Some (fst (CopyBuffer ns fl))\<rparr>) db, opens, checks)"
| closed: "cid \<in> set opens \<Longrightarrow> mget (ndClients db) cid = Some c \<Longrightarrow>
    serve_step k (db, opens, checks) (put_client (AddConn c) db, remove1 cid opens, checks)"

text \<open>
  \<^verbatim>\<open>handleHttp\<close> keeps its connection and looks the host up again for every request. When it
  is another host, the count of the new host's client is lowered before that client is checked and counted;
  what was deferred at the first request gives back the count of the first client. The list holds the
  clients of the hosts in turn.
\<close>

definition on_client :: "int \<Rightarrow> (NpsClient \<Rightarrow> NpsClient) \<Rightarrow> NpsState \<Rightarrow> NpsState" where
  "on_client cid f db = (case mget (ndClients db) cid of None \<Rightarrow> db | Some c \<Rightarrow> put_client (f c) db)"

definition check_client :: "int \<Rightarrow> NpsState \<Rightarrow> NpsState \<times> bool" where
  "check_client cid db = (case mget (ndClients db) cid of None \<Rightarrow> (db, False)
     | Some c \<Rightarrow> (case CheckFlowAndConnNum c of (c', e) \<Rightarrow> (put_client c' db, e = None)))"

fun http_resets :: "int list \<Rightarrow> NpsState \<Rightarrow> NpsState" where
  "http_resets [] db = db"
| "http_resets (cid # cids) db =
     (case check_client cid (on_client cid AddConn db) of
        (db', False) \<Rightarrow> db'
      | (db', True) \<Rightarrow> http_resets cids db')"

fun handleHttp :: "int list \<Rightarrow> NpsState \<Rightarrow> NpsState" where
  "handleHttp [] db = db"
| "handleHttp (cid # cids) db =
     (case check_client cid db of
        (db', False) \<Rightarrow> db'
      | (db', True) \<Rightarrow> on_client cid AddConn (http_resets cids db'))"

section \<open>Targets\<close>

text \<open>The targets of a tunnel: \<open>tgArr = None\<close> is the nil array, \<open>tgRemoved\<close> is \<^verbatim>\<open>HealthRemoveArr\<close>.\<close>

record Target =
  tgStr :: string
  tgArr :: "string list option"
  tgIndex :: int
  tgRemoved :: "string list"

abbreviation LF_char :: char where "LF_char \<equiv> CHR 0x0A"

definition GetRandomTarget :: "Target \<Rightarrow> Target \<times> string option" where
  "GetRandomTarget t0 =
     (let arr = (case tgArr t0 of None \<Rightarrow> split_on LF_char (tgStr t0) | Some a \<Rightarrow> a);
          t = t0\<lparr>tgArr := Some arr\<rparr>
      in if length arr = 1 then (t, Some (arr ! 0))
         else if arr = [] then (t, None)
         else let i = (if int (length arr) - 1 \<le> tgIndex t then -1 else tgIndex t) + 1
           in (t\<lparr>tgIndex := i\<rparr>, Some (arr ! nat i)))"

definition TrimArr :: "string list \<Rightarrow> string list" where
  "TrimArr arr = filter (\<lambda>v. v \<noteq> []) arr"

fun RemoveArrVal :: "string list \<Rightarrow> string \<Rightarrow> string list" where
  "RemoveArrVal [] val = []"
| "RemoveArrVal (v # vs) val = (if v = val then vs else v # RemoveArrVal vs val)"

text \<open>What a health report of a client does to the targets of one tunnel: the target fails, or it is back.\<close>

definition target_fails :: "string \<Rightarrow> Target \<Rightarrow> Target" where
  "target_fails info t =
     (if contains (tgStr t) info then
        (let arr = (case tgArr t of None \<Rightarrow> TrimArr (split_on LF_char (tgStr t))
               | Some a \<Rightarrow> if a = [] \<and> tgRemoved t = [] then TrimArr (split_on LF_char (tgStr t)) else a)
         in t\<lparr>tgArr := Some (RemoveArrVal arr info), tgRemoved := tgRemoved t @ [info]\<rparr>)
      else t)"

definition target_back :: "string \<Rightarrow> Target \<Rightarrow> Target" where
  "target_back info t =
     (let arr = (case tgArr t of None \<Rightarrow> [] | Some a \<Rightarrow> a) in
      if info \<in> set (tgRemoved t) \<and> info \<notin> set arr
      then t\<lparr>tgArr := Some (arr @ [info]), tgRemoved := RemoveArrVal (tgRemoved t) info\<rparr>
      else t)"

section \<open>Routing: the longest location\<close>

definition admits :: "string \<Rightarrow> NpsHost \<Rightarrow> bool" where
  "admits uri v \<longleftrightarrow> uri = ''*'' \<or> has_prefix uri (hoLocation v)"

lemma longest_location_spec:
  "case longest_location uri h vs of
     None \<Rightarrow> h = None \<and> (\<forall>v \<in> set vs. \<not> admits uri (with_location v))
   | Some b \<Rightarrow> (h = Some b \<or> (\<exists>v \<in> set vs. b = with_location v \<and> admits uri b)) \<and>
       (\<forall>v \<in> set vs. admits uri (with_location v) \<longrightarrow> length (hoLocation (with_location v)) \<le> length (hoLocation b)) \<and>
       (\<forall>a. h = Some a \<longrightarrow> length (hoLocation a) \<le> length (hoLocation b))"
proof (induction vs arbitrary: h)
  case Nil
  then show ?case by (auto split: option.split)
next
  case (Cons v0 vs)
  define v where "v = with_location v0"
  define h' where "h' = (if admits uri v \<and> (case h of None \<Rightarrow> True | Some b \<Rightarrow> length (hoLocation b) < length (hoLocation v)) then Some v else h)"
  have step: "longest_location uri h (v0 # vs) = longest_location uri h' vs"
    unfolding h'_def admits_def v_def by (simp add: Let_def)
  from Cons.IH [of h'] show ?case
    unfolding step by (cases "longest_location uri h' vs") (auto simp: h'_def v_def split: if_splits option.splits)
qed

lemma GetInfoByHost_spec:
  assumes "snd (GetInfoByHost rq db) = r"
  shows "case r of
     None \<Rightarrow> \<forall>v \<in> snd ` set (ndHosts db). host_matches (GetIpByAddr (hqHost rq)) (hqScheme rq) v \<longrightarrow> \<not> admits (hqURI rq) (with_location v)
   | Some h \<Rightarrow> (\<exists>v \<in> snd ` set (ndHosts db). host_matches (GetIpByAddr (hqHost rq)) (hqScheme rq) v \<and> h = with_location v) \<and> admits (hqURI rq) h \<and>
       (\<forall>v \<in> snd ` set (ndHosts db). host_matches (GetIpByAddr (hqHost rq)) (hqScheme rq) v \<longrightarrow> admits (hqURI rq) (with_location v) \<longrightarrow>
          length (hoLocation (with_location v)) \<le> length (hoLocation h))"
  using longest_location_spec [where uri = "hqURI rq" and h = None and vs = "filter (host_matches (GetIpByAddr (hqHost rq)) (hqScheme rq)) (map snd (ndHosts db))"] assms
  by (auto simp: GetInfoByHost_def Let_def split: option.splits)

text \<open>A wildcard matches anywhere in the name, and takes requests from a host with the name itself.\<close>

lemma wildcard_matches_inside:
  "host_matches ''x.a.io.evil.org'' ''http'' (zero_Host\<lparr>hoHost := ''*.a.io'', hoScheme := ''all''\<rparr>)"
  by code_simp

lemma wildcard_steals:
  "map_option hoId (snd (GetInfoByHost \<lparr>hqHost = ''x.a.io:80'', hqScheme = ''http'', hqURI = ''/''\<rparr>
     (db\<lparr>ndHosts := [(1, zero_Host\<lparr>hoId := 1, hoHost := ''*.a.io'', hoScheme := ''http'', hoLocation := ''/''\<rparr>),
       (2, zero_Host\<lparr>hoId := 2, hoHost := ''x.a.io'', hoScheme := ''http'', hoLocation := ''/''\<rparr>)]\<rparr>))) = Some 1"
  by (simp add: GetInfoByHost_def GetIpByAddr_def host_matches_def zero_Host_def has_prefix_def with_location_def)

section \<open>The number of connections\<close>

lemma wrap32_add: "wrap32 (wrap32 x + y) = wrap32 (x + y)"
  by (simp add: wrap32_def algebra_simps mod_simps)

lemma wrap32_id: "0 \<le> x \<Longrightarrow> x < 2 ^ 31 \<Longrightarrow> wrap32 x = x"
  by (simp add: wrap32_def)

inductive serve_reachable :: "nat \<Rightarrow> NpsState \<Rightarrow> NpsState \<times> int list \<times> int list \<Rightarrow> bool" for k db0 where
  new: "serve_reachable k db0 (db0, [], [])"
| step: "serve_reachable k db0 s \<Longrightarrow> serve_step k s s' \<Longrightarrow> serve_reachable k db0 s'"

text \<open>A row as it was but for its flow and its count.\<close>

definition same_client :: "NpsClient \<Rightarrow> NpsClient \<Rightarrow> bool" where
  "same_client c d \<longleftrightarrow> (\<exists>fl n. d = c\<lparr>clFlow := fl, clNowConn := n\<rparr>)"

lemma same_client_flow: "same_client c (c\<lparr>clFlow := fl\<rparr>)"
  unfolding same_client_def by (rule exI [of _ fl], rule exI [of _ "clNowConn c"], cases c) simp

lemma same_client_conn: "same_client c (c\<lparr>clNowConn := n\<rparr>)"
  unfolding same_client_def by (rule exI [of _ "clFlow c"], rule exI [of _ n], cases c) simp

lemma same_client_refl: "same_client c c"
  using same_client_conn [of c "clNowConn c"] by simp

lemma same_client_trans: "same_client c d \<Longrightarrow> same_client d e \<Longrightarrow> same_client c e"
  unfolding same_client_def by (elim exE) (rule exI, rule exI, simp)

definition conns_ok :: "nat \<Rightarrow> NpsState \<Rightarrow> NpsState \<times> int list \<times> int list \<Rightarrow> bool" where
  "conns_ok k db0 s \<longleftrightarrow> (case s of (db, opens, checks) \<Rightarrow>
     (\<forall>cid c. mget (ndClients db) cid = Some c \<longrightarrow> clId c = cid \<and>
       clNowConn c = wrap32 (int (count_list opens cid)) \<and>
       (0 < clMaxConn c \<and> clMaxConn c + int k \<le> 2 ^ 31 \<longrightarrow>
          int (count_list opens cid) + int (count_list checks cid) < clMaxConn c + int k) \<and>
       (\<exists>d. mget (ndClients db0) cid = Some d \<and> same_client d c)))"

lemma conns_row:
  assumes "conns_ok k db0 (db, opens, checks)" "mget (ndClients db) cid = Some c"
  shows "clId c = cid" "clNowConn c = wrap32 (int (count_list opens cid))"
    "0 < clMaxConn c \<Longrightarrow> clMaxConn c + int k \<le> 2 ^ 31 \<Longrightarrow>
       int (count_list opens cid) + int (count_list checks cid) < clMaxConn c + int k"
    "\<exists>d. mget (ndClients db0) cid = Some d \<and> same_client d c"
  using assms unfolding conns_ok_def by auto

lemma CheckFlowAndConnNum_cases:
  assumes "CheckFlowAndConnNum c = (c', e)"
  shows "(e \<noteq> None \<longrightarrow> c' = c) \<and> (e = None \<longrightarrow> c' = CutConn c \<and> (clMaxConn c = 0 \<or> clNowConn c < clMaxConn c) \<and>
    (\<exists>fl. clFlow c = Some fl \<and> \<not> flow_exceeded fl))"
  using assms by (auto simp: CheckFlowAndConnNum_def GetConn_def conn_free_def split: option.splits if_splits)

lemma conns_put:
  assumes ok: "conns_ok k db0 (db, opens, checks)" and c: "mget (ndClients db) cid = Some c"
    and c': "clId c' = cid" "same_client c c'" "clNowConn c' = wrap32 (int (count_list opens' cid))"
    and m: "count_list opens' cid + count_list checks' cid \<le> count_list opens cid + count_list checks cid"
    and others: "\<And>j. j \<noteq> cid \<Longrightarrow> count_list opens' j = count_list opens j"
      "\<And>j. j \<noteq> cid \<Longrightarrow> count_list checks' j = count_list checks j"
  shows "conns_ok k db0 (put_client c' db, opens', checks')"
proof -
  have mc: "clMaxConn c' = clMaxConn c" using c'(2) by (auto simp: same_client_def)
  have d: "\<exists>d. mget (ndClients db0) cid = Some d \<and> same_client d c'"
    using conns_row(4) [OF ok c] same_client_trans [OF _ c'(2)] by blast
  have le: "int (count_list opens' cid) + int (count_list checks' cid) < clMaxConn c' + int k"
    if "0 < clMaxConn c'" "clMaxConn c' + int k \<le> 2 ^ 31"
    using conns_row(3) [OF ok c] that m unfolding mc by linarith
  show ?thesis
    unfolding conns_ok_def prod.case
  proof (intro allI impI)
    fix j e assume e: "mget (ndClients (put_client c' db)) j = Some e"
    show "clId e = j \<and> clNowConn e = wrap32 (int (count_list opens' j)) \<and>
       (0 < clMaxConn e \<and> clMaxConn e + int k \<le> 2 ^ 31 \<longrightarrow>
          int (count_list opens' j) + int (count_list checks' j) < clMaxConn e + int k) \<and>
       (\<exists>d. mget (ndClients db0) j = Some d \<and> same_client d e)"
    proof (cases "j = cid")
      case True
      with e c' le d show ?thesis by (simp add: put_client_def gomap_simps)
    next
      case False
      with e have r: "mget (ndClients db) j = Some e" by (simp add: put_client_def gomap_simps c'(1))
      show ?thesis using conns_row [OF ok r] by (simp add: others [OF False])
    qed
  qed
qed

lemma count_remove1: "count_list (remove1 x xs) j = count_list xs j - (if j = x then 1 else 0)"
  by (induction xs) auto

lemma count_pos: "x \<in> set xs \<Longrightarrow> 0 < count_list xs x"
  by (induction xs) auto

lemma conns_step:
  assumes "serve_step k s s'" "conns_ok k db0 s" shows "conns_ok k db0 s'"
  using assms
proof (induction rule: serve_step.induct)
  case (checked db cid c checks opens)
  note row = conns_row [OF checked(4,1)]
  have free: "clMaxConn c = 0 \<or> clNowConn c < clMaxConn c"
    using CheckFlowAndConnNum_cases [of c] checked(2) by (metis prod.collapse)
  have le: "int (count_list opens cid) + int (count_list (cid # checks) cid) < clMaxConn c + int k"
    if m: "0 < clMaxConn c" "clMaxConn c + int k \<le> 2 ^ 31"
  proof -
    have "wrap32 (int (count_list opens cid)) = int (count_list opens cid)" using row(3) m by (intro wrap32_id) auto
    with row(2) free m(1) checked(3) show ?thesis by simp
  qed
  show ?case
    unfolding conns_ok_def prod.case
  proof (intro allI impI)
    fix j e assume e: "mget (ndClients db) j = Some e"
    show "clId e = j \<and> clNowConn e = wrap32 (int (count_list opens j)) \<and>
       (0 < clMaxConn e \<and> clMaxConn e + int k \<le> 2 ^ 31 \<longrightarrow>
          int (count_list opens j) + int (count_list (cid # checks) j) < clMaxConn e + int k) \<and>
       (\<exists>d. mget (ndClients db0) j = Some d \<and> same_client d e)"
      using conns_row [OF checked(4) e] e checked(1) le by (cases "j = cid") auto
  qed
next
  case (counted cid checks db c opens)
  note row = conns_row [OF counted(3,2)]
  show ?case
  proof (rule conns_put [OF counted(3,2)])
    show "clId (CutConn c) = cid" "same_client c (CutConn c)" by (simp_all add: row CutConn_def same_client_conn)
    show "clNowConn (CutConn c) = wrap32 (int (count_list (cid # opens) cid))"
      using wrap32_add [of "int (count_list opens cid)" 1] by (simp add: row CutConn_def add.commute)
    show "count_list (cid # opens) cid + count_list (remove1 cid checks) cid \<le> count_list opens cid + count_list checks cid"
      using count_pos [OF counted(1)] by (simp add: count_remove1)
  qed (simp_all add: count_remove1)
next
  case (refused db cid c c' e opens checks)
  have "c' = c" using CheckFlowAndConnNum_cases [OF refused(2)] by simp
  then show ?case
    using conns_row [OF refused(3,1)] by (intro conns_put [OF refused(3,1)]) (auto simp: same_client_refl)
next
  case (moved cid opens db c fl checks ns)
  show ?case
    using conns_row [OF moved(4,2)] by (intro conns_put [OF moved(4,2)]) (auto simp: same_client_flow)
next
  case (closed cid opens db c checks)
  note row = conns_row [OF closed(3,2)]
  show ?case
  proof (rule conns_put [OF closed(3,2)])
    show "clId (AddConn c) = cid" "same_client c (AddConn c)" by (simp_all add: row AddConn_def same_client_conn)
    have "wrap32 (int (count_list opens cid) - 1) = wrap32 (wrap32 (int (count_list opens cid)) - 1)"
      using wrap32_add [of "int (count_list opens cid)" "-1"] by simp
    then show "clNowConn (AddConn c) = wrap32 (int (count_list (remove1 cid opens) cid))"
      using count_pos [OF closed(1)] by (simp add: row count_remove1 AddConn_def of_nat_diff)
  qed (simp_all add: count_remove1)
qed

lemma serve_step_more: "serve_step k s s' \<Longrightarrow> k \<le> m \<Longrightarrow> serve_step m s s'"
  by (induction rule: serve_step.induct) (auto intro: serve_step.intros)

text \<open>C28. The tcp tunnels of nps count the connections of every client, in whatever order connections are tested, counted,
  refused, moved and closed. A client with a limit that lets at most k connections pass the test at the same time never has
  more than k - 1 connections above the limit, and no more than the limit itself when the tests of its connections
  do not overlap; and no connection is refused for the count while it is below the limit. Nothing else of a client changes but its flow.\<close>

theorem conn_limit_respected:
  assumes "serve_reachable k db0 (db, opens, checks)" "keyed clId (ndClients db0)" "list_all (\<lambda>(_, c). clNowConn c = 0) (ndClients db0)"
    and "mget (ndClients db) cid = Some c" "0 < k"
  shows "clNowConn c = wrap32 (int (count_list opens cid)) \<and>
    (0 < clMaxConn c \<and> clMaxConn c + int k \<le> 2 ^ 31 \<longrightarrow>
       int (count_list opens cid) + int (count_list checks cid) \<le> clMaxConn c + (int k - 1) \<and>
       clNowConn c = int (count_list opens cid) \<and>
       (snd (CheckFlowAndConnNum c) = Some TooManyConnections \<longrightarrow> clMaxConn c \<le> int (count_list opens cid))) \<and>
    (\<exists>d fl n. mget (ndClients db0) cid = Some d \<and> c = d\<lparr>clFlow := fl, clNowConn := n\<rparr>)"
proof -
  have "conns_ok k db0 (db0, [], [])"
    unfolding conns_ok_def prod.case
  proof (intro allI impI)
    fix i d assume m: "mget (ndClients db0) i = Some d"
    have "clNowConn d = 0" using assms(3) mget_Some_mem [OF m] by (auto simp: list_all_iff)
    then show "clId d = i \<and> clNowConn d = wrap32 (int (count_list [] i)) \<and>
      (0 < clMaxConn d \<and> clMaxConn d + int k \<le> 2 ^ 31 \<longrightarrow>
         int (count_list [] i) + int (count_list [] i) < clMaxConn d + int k) \<and>
      (\<exists>e. mget (ndClients db0) i = Some e \<and> same_client e d)"
      using keyed_mget [OF assms(2) m] m same_client_refl by (auto simp: wrap32_def)
  qed
  with assms(1) have ok: "conns_ok k db0 (db, opens, checks)"
    by (induction rule: serve_reachable.induct) (simp_all add: conns_step)
  note row = conns_row [OF ok assms(4)]
  have "clNowConn c = int (count_list opens cid)" if "0 < clMaxConn c" "clMaxConn c + int k \<le> 2 ^ 31"
    using row(3) [OF that] that assms(5) unfolding row(2) by (intro wrap32_id) auto
  moreover have "clMaxConn c \<le> clNowConn c" if "snd (CheckFlowAndConnNum c) = Some TooManyConnections"
    using that by (auto simp: CheckFlowAndConnNum_def GetConn_def conn_free_def split: option.splits if_splits)
  ultimately show ?thesis using row(2,3,4) by (auto simp: same_client_def)
qed

section \<open>The bytes\<close>

text \<open>A flow whose numbers are small enough for 64 bits.\<close>

definition flow_small :: "int \<Rightarrow> NpsFlow \<Rightarrow> bool" where
  "flow_small K fl \<longleftrightarrow> 0 \<le> flInletFlow fl \<and> 0 \<le> flExportFlow fl \<and> 0 < flFlowLimit fl \<and>
     flFlowLimit fl * 2 ^ 20 + 2 * K < 2 ^ 63 \<and> flInletFlow fl + flExportFlow fl \<le> flFlowLimit fl * 2 ^ 20"

lemma flow_add_small:
  assumes "flow_small K fl" "0 < n" "n \<le> K"
  shows "Flow_Add n n fl = fl\<lparr>flInletFlow := flInletFlow fl + n, flExportFlow := flExportFlow fl + n\<rparr>"
    "flow_exceeded (Flow_Add n n fl) \<longleftrightarrow> flFlowLimit fl * 2 ^ 20 < flInletFlow fl + flExportFlow fl + 2 * n"
proof -
  have b: "int64 (flInletFlow fl + n)" "int64 (flExportFlow fl + n)" "int64 (flFlowLimit fl * 2 ^ 20)" "int64 (flInletFlow fl + flExportFlow fl + 2 * n)"
    using assms by (auto simp: flow_small_def int64_def)
  show a: "Flow_Add n n fl = fl\<lparr>flInletFlow := flInletFlow fl + n, flExportFlow := flExportFlow fl + n\<rparr>"
    using b by (simp add: Flow_Add_def wrap64_id)
  have e: "flExportFlow fl + n + (flInletFlow fl + n) = flInletFlow fl + flExportFlow fl + 2 * n" by simp
  show "flow_exceeded (Flow_Add n n fl) \<longleftrightarrow> flFlowLimit fl * 2 ^ 20 < flInletFlow fl + flExportFlow fl + 2 * n"
  proof -
    have "flow_exceeded (Flow_Add n n fl) \<longleftrightarrow>
      0 < flFlowLimit fl \<and> wrap64 (flFlowLimit fl * 2 ^ 20) < wrap64 (flExportFlow fl + n + (flInletFlow fl + n))"
      by (simp add: a flow_exceeded_def)
    with assms(1) show ?thesis unfolding e wrap64_id [OF b(3)] wrap64_id [OF b(4)] flow_small_def by blast
  qed
qed

text \<open>Copying stops with the chunk that passes the limit, so what is counted is past it by at most that chunk, twice, as every
  byte counts as incoming and as outgoing; nothing but the two counters changes.\<close>

theorem copy_stops_at_limit:
  assumes "flow_small K fl" "list_all (\<lambda>n. n \<le> K) ns" "CopyBuffer ns fl = (fl', m)" "0 \<le> K"
  shows "fl' = fl\<lparr>flInletFlow := flInletFlow fl + m, flExportFlow := flExportFlow fl + m\<rparr> \<and> 0 \<le> m \<and>
    flInletFlow fl' + flExportFlow fl' \<le> flFlowLimit fl * 2 ^ 20 + 2 * K \<and>
    (flow_exceeded fl' \<longrightarrow> flFlowLimit fl * 2 ^ 20 < flInletFlow fl' + flExportFlow fl') \<and>
    (\<not> flow_exceeded fl' \<longrightarrow> m = sum_list (filter (\<lambda>n. 0 < n) ns))"
  using assms
proof (induction ns arbitrary: fl fl' m)
  case Nil
  then have "int64 (flInletFlow fl + flExportFlow fl)" "int64 (flFlowLimit fl * 2 ^ 20)" by (auto simp: flow_small_def int64_def)
  then have "\<not> flow_exceeded fl" using Nil(1) by (simp add: flow_exceeded_def flow_small_def wrap64_id add.commute)
  with Nil show ?case by (simp add: flow_small_def)
next
  case (Cons n ns)
  show ?case
  proof (cases "n \<le> 0")
    case True
    with Cons show ?thesis by simp
  next
    case False
    then have n: "0 < n" "n \<le> K" using Cons.prems(2) by simp_all
    note add = flow_add_small [OF Cons.prems(1) n]
    let ?fl = "fl\<lparr>flInletFlow := flInletFlow fl + n, flExportFlow := flExportFlow fl + n\<rparr>"
    show ?thesis
    proof (cases "flow_exceeded (Flow_Add n n fl)")
      case True
      then have "CopyBuffer (n # ns) fl = (?fl, n)" using n add(1) by simp
      with Cons.prems(3) have r: "fl' = ?fl" "m = n" by simp_all
      have "flow_exceeded ?fl" using True unfolding add(1) .
      with True add(2) n Cons.prems(1) show ?thesis unfolding r by (simp add: flow_small_def)
    next
      case more: False
      then have "flow_small K ?fl" using add(2) n Cons.prems(1) by (simp add: flow_small_def)
      moreover obtain fl'' k where k: "CopyBuffer ns ?fl = (fl'', k)" by fastforce
      moreover from k have r: "fl' = fl''" "m = n + k" using Cons.prems(3) n more add(1) by simp_all
      moreover have "list_all (\<lambda>n. n \<le> K) ns" using Cons.prems(2) by simp
      ultimately have ih: "fl'' = ?fl\<lparr>flInletFlow := flInletFlow ?fl + k, flExportFlow := flExportFlow ?fl + k\<rparr>" "0 \<le> k"
        "flInletFlow fl'' + flExportFlow fl'' \<le> flFlowLimit ?fl * 2 ^ 20 + 2 * K"
        "flow_exceeded fl'' \<longrightarrow> flFlowLimit ?fl * 2 ^ 20 < flInletFlow fl'' + flExportFlow fl''"
        "\<not> flow_exceeded fl'' \<longrightarrow> k = sum_list (filter (\<lambda>n. 0 < n) ns)"
        using Cons.IH [OF _ _ k Cons.prems(4)] by blast+
      have e: "fl'' = fl\<lparr>flInletFlow := flInletFlow fl + (n + k), flExportFlow := flExportFlow fl + (n + k)\<rparr>"
        using ih(1) by (simp add: add.assoc)
      show ?thesis
        unfolding r using ih(2-5) n by (intro conjI e) simp_all
    qed
  qed
qed

section \<open>The next target\<close>

text \<open>The targets of a number of calls.\<close>

fun next_targets :: "nat \<Rightarrow> Target \<Rightarrow> string option list" where
  "next_targets 0 t = []"
| "next_targets (Suc n) t = (case GetRandomTarget t of (t', a) \<Rightarrow> a # next_targets n t')"

lemma GetRandomTarget_step:
  assumes "tgArr t = Some arr" "2 \<le> length arr" "0 \<le> tgIndex t" "tgIndex t < int (length arr)"
  shows "GetRandomTarget t = (t\<lparr>tgIndex := (tgIndex t + 1) mod int (length arr)\<rparr>, Some (arr ! nat ((tgIndex t + 1) mod int (length arr))))"
proof (cases "tgIndex t = int (length arr) - 1")
  case True
  with assms show ?thesis by (cases t) (auto simp: GetRandomTarget_def)
next
  case False
  with assms have "(tgIndex t + 1) mod int (length arr) = tgIndex t + 1" by (intro mod_pos_pos_trivial) auto
  with assms False show ?thesis by (cases t) (auto simp: GetRandomTarget_def Let_def)
qed

lemma next_targets_cycle:
  assumes "tgArr t = Some arr" "2 \<le> length arr" "0 \<le> tgIndex t" "tgIndex t < int (length arr)"
  shows "next_targets n t = map (\<lambda>k. Some (arr ! nat ((tgIndex t + 1 + int k) mod int (length arr)))) [0..<n]"
  using assms
proof (induction n arbitrary: t)
  case (Suc n)
  let ?i = "(tgIndex t + 1) mod int (length arr)"
  have "0 < int (length arr)" using Suc.prems(2) by linarith
  then have i: "0 \<le> ?i" "?i < int (length arr)" by simp_all
  have "next_targets (Suc n) t = Some (arr ! nat ?i) # next_targets n (t\<lparr>tgIndex := ?i\<rparr>)"
    by (simp add: GetRandomTarget_step [OF Suc.prems])
  also have "next_targets n (t\<lparr>tgIndex := ?i\<rparr>) = map (\<lambda>k. Some (arr ! nat ((?i + 1 + int k) mod int (length arr)))) [0..<n]"
    using Suc.IH [of "t\<lparr>tgIndex := ?i\<rparr>"] Suc.prems i by simp
  also have "\<dots> = map (\<lambda>k. Some (arr ! nat ((tgIndex t + 1 + int (Suc k)) mod int (length arr)))) [0..<n]"
  proof -
    have "(?i + 1 + int k) mod int (length arr) = (tgIndex t + 1 + int (Suc k)) mod int (length arr)" for k
    proof -
      have "(?i + (1 + int k)) mod int (length arr) = (tgIndex t + 1 + (1 + int k)) mod int (length arr)" by (rule mod_add_left_eq)
      then show ?thesis by (simp only: add.assoc of_nat_Suc)
    qed
    then show ?thesis by simp
  qed
  finally show ?case by (simp add: upt_conv_Cons map_Suc_upt [symmetric] del: upt_Suc)
qed simp

lemma rotation_perm:
  assumes "0 < n" shows "mset (map (\<lambda>k. nat ((i + int k) mod int n)) [0..<n]) = mset [0..<n]"
proof -
  let ?f = "\<lambda>k. nat ((i + int k) mod int n)"
  have inj: "inj_on ?f {0..<n}"
  proof (rule inj_onI)
    fix a b assume ab: "a \<in> {0..<n}" "b \<in> {0..<n}" "?f a = ?f b"
    then have "(i + int a) mod int n = (i + int b) mod int n" using assms by (simp add: nat_eq_iff2)
    then have "(int a - int b) mod int n = 0" by (metis add_diff_cancel_left mod_diff_cong diff_self mod_0)
    then have "int n dvd int a - int b" by (simp add: dvd_eq_mod_eq_0)
    moreover have "\<bar>int a - int b\<bar> < int n" using ab by auto
    ultimately show "a = b" using zdvd_imp_le [of "int n" "\<bar>int a - int b\<bar>"] by (cases "a = b") auto
  qed
  have sub: "?f ` {0..<n} \<subseteq> {0..<n}" using assms by (auto simp: nat_less_iff)
  have "?f ` {0..<n} = {0..<n}" by (rule endo_inj_surj [OF _ sub inj]) simp
  then show ?thesis by (simp add: image_mset_mset_set [OF inj] del: upt_Suc)
qed

text \<open>As many calls as there are targets give every target once, whatever the start; each call leaves the targets alone and
  the position in range, so the next calls do the same.\<close>

theorem round_robin_fair:
  assumes "tgArr t = Some arr" "2 \<le> length arr" "0 \<le> tgIndex t" "tgIndex t < int (length arr)"
  shows "mset (next_targets (length arr) t) = mset (map Some arr) \<and>
    (case GetRandomTarget t of (t', a) \<Rightarrow> tgArr t' = Some arr \<and> 0 \<le> tgIndex t' \<and> tgIndex t' < int (length arr) \<and>
       (\<exists>x \<in> set arr. a = Some x) \<and> next_targets (Suc (length arr)) t = a # next_targets (length arr) t')"
proof -
  let ?n = "length arr"
  have n: "0 < ?n" using assms(2) by linarith
  have "mset (next_targets ?n t) = image_mset (\<lambda>i. Some (arr ! i)) (mset (map (\<lambda>k. nat ((tgIndex t + 1 + int k) mod int ?n)) [0..<?n]))"
    unfolding next_targets_cycle [OF assms] by (simp add: multiset.map_comp comp_def del: upt_Suc)
  also have "\<dots> = mset (map (\<lambda>i. Some (arr ! i)) [0..<?n])" unfolding rotation_perm [OF n] by simp
  also have "map (\<lambda>i. Some (arr ! i)) [0..<?n] = map Some arr" by (rule nth_equalityI) auto
  finally have perm: "mset (next_targets ?n t) = mset (map Some arr)" .
  have "0 \<le> (tgIndex t + 1) mod int ?n" "(tgIndex t + 1) mod int ?n < int ?n" using n by simp_all
  moreover from this have "arr ! nat ((tgIndex t + 1) mod int ?n) \<in> set arr" by (simp add: nat_less_iff)
  ultimately show ?thesis using perm assms(1) by (simp add: GetRandomTarget_step [OF assms])
qed

text \<open>A failing target is skipped until it is back; then all are there again.\<close>

lemma target_fails_and_returns:
  assumes "tgArr t = Some arr" "distinct arr" "a \<in> set arr" "contains (tgStr t) a" "a \<notin> set (tgRemoved t)"
  shows "\<exists>rest. tgArr (target_fails a t) = Some rest \<and> set rest = set arr - {a} \<and>
    (\<exists>b. tgArr (target_back a (target_fails a t)) = Some b \<and> set b = set arr \<and> tgRemoved (target_back a (target_fails a t)) = tgRemoved t)"
proof -
  have r: "RemoveArrVal xs a = remove1 a xs" for xs by (induction xs) auto
  have "set (remove1 a arr) = set arr - {a}" by (rule set_remove1_eq [OF assms(2)])
  moreover have "remove1 a (tgRemoved t @ [a]) = tgRemoved t" using assms(5) by (simp add: remove1_append)
  moreover have "arr \<noteq> []" using assms(3) by auto
  ultimately show ?thesis using assms by (auto simp: target_fails_def target_back_def r)
qed

text \<open>A report names a part of a target, and is taken for a target: when it is back, it is one.\<close>

lemma part_of_target_becomes_target:
  "tgArr (target_back ''10.0.0.1:80'' (target_fails ''10.0.0.1:80''
     \<lparr>tgStr = ''10.0.0.1:8080'', tgArr = None, tgIndex = 0, tgRemoved = []\<rparr>)) = Some [''10.0.0.1:8080'', ''10.0.0.1:80'']"
  by code_simp

section \<open>A request refused on a kept connection\<close>

text \<open>The count of a client is lowered although nothing of it was counted.\<close>

lemma refused_reset_lowers_count:
  assumes "mget (ndClients db) a = Some ca" "mget (ndClients db) b = Some cb" "a \<noteq> b" "clId ca = a" "clId cb = b"
    and "clFlow ca = Some fa" "\<not> flow_exceeded fa" "clMaxConn ca = 0" "clFlow cb = Some fb" "flow_exceeded fb"
  shows "map_option clNowConn (mget (ndClients (handleHttp [a, b] db)) b) = Some (wrap32 (clNowConn cb - 1))"
  using assms
  by (simp add: check_client_def on_client_def CheckFlowAndConnNum_def GetConn_def conn_free_def CutConn_def AddConn_def put_client_def gomap_simps)

section \<open>Concrete inputs\<close>

definition demo_limited :: NpsClient where
  "demo_limited = (make_NpsClient ''k'' False False)\<lparr>clId := 3, clMaxConn := 1\<rparr>"

definition demo_serving :: NpsState where
  "demo_serving = \<lparr>ndClients = [(3, demo_limited)], ndTasks = [], ndHosts = [], ndClientInc = 3, ndTaskInc = 0, ndHostInc = 0,
     ndRunning = [], ndBridge = Some []\<rparr>"

text \<open>Two connections of a client with a limit of one pass the test before either is counted: both are served.\<close>

lemma limit_exceeded_by_two:
  "serve_reachable 2 demo_serving (put_client (CutConn (CutConn demo_limited)) (put_client (CutConn demo_limited) demo_serving), [3, 3], [])"
proof -
  let ?c = "CutConn demo_limited"
  let ?db = "put_client ?c demo_serving"
  have c: "mget (ndClients demo_serving) 3 = Some demo_limited" by (simp add: demo_serving_def mget_def)
  have free: "snd (CheckFlowAndConnNum demo_limited) = None"
    by (simp add: CheckFlowAndConnNum_def GetConn_def conn_free_def flow_exceeded_def demo_limited_def make_NpsClient_def zero_Flow_def)
  have m: "mget (ndClients ?db) 3 = Some ?c"
    by (simp add: put_client_def gomap_simps CutConn_def demo_limited_def)
  have "serve_reachable 2 demo_serving (demo_serving, [], [3])"
    by (rule serve_reachable.step [OF serve_reachable.new serve_step.checked [OF c free]]) simp
  then have "serve_reachable 2 demo_serving (demo_serving, [], [3, 3])"
    by (rule serve_reachable.step [OF _ serve_step.checked [OF c free]]) simp
  then have "serve_reachable 2 demo_serving (?db, [3], [3])"
    by (rule serve_reachable.step)
      (use serve_step.counted [OF _ c, where opens = "[]" and checks = "[3, 3]" and k = 2] in simp)
  then show ?thesis
    by (rule serve_reachable.step)
      (use serve_step.counted [OF _ m, where opens = "[3]" and checks = "[3]" and k = 2] in simp)
qed

theorem conn_limit_respected_witness:
  "\<exists>c db. serve_reachable 2 demo_serving (db, [3, 3], []) \<and> mget (ndClients db) 3 = Some c \<and> clMaxConn c = 1 \<and> clNowConn c = 2"
proof -
  let ?c = "CutConn (CutConn demo_limited)"
  let ?db = "put_client ?c (put_client (CutConn demo_limited) demo_serving)"
  have k: "keyed clId (ndClients demo_serving)" "list_all (\<lambda>(_, c). clNowConn c = 0) (ndClients demo_serving)"
    by (simp_all add: keyed_iff mwf_def demo_serving_def demo_limited_def make_NpsClient_def)
  have m: "mget (ndClients ?db) 3 = Some ?c"
    by (simp add: put_client_def gomap_simps CutConn_def demo_limited_def)
  have mx: "clMaxConn ?c = 1" by (simp add: CutConn_def demo_limited_def)
  with conn_limit_respected [OF limit_exceeded_by_two k m] have "clNowConn ?c = 2" by simp
  with m mx limit_exceeded_by_two show ?thesis by blast
qed

theorem copy_stops_at_limit_witness:
  "snd (CopyBuffer [600000, 600000, 600000] \<lparr>flExportFlow = 0, flInletFlow = 0, flFlowLimit = 2\<rparr>) = 1200000 \<and>
   flInletFlow (fst (CopyBuffer [600000, 600000, 600000] \<lparr>flExportFlow = 0, flInletFlow = 0, flFlowLimit = 2\<rparr>)) = 1200000"
proof -
  let ?fl = "\<lparr>flExportFlow = 0, flInletFlow = 0, flFlowLimit = 2\<rparr>" and ?ns = "[600000, 600000, 600000 :: int]"
  have m: "snd (CopyBuffer ?ns ?fl) = 1200000" by code_simp
  then have r: "CopyBuffer ?ns ?fl = (fst (CopyBuffer ?ns ?fl), 1200000)" by (simp add: prod_eq_iff)
  have "flow_small 600000 ?fl" by (simp add: flow_small_def)
  from copy_stops_at_limit [OF this _ r] have "fst (CopyBuffer ?ns ?fl) = ?fl\<lparr>flInletFlow := 1200000, flExportFlow := 1200000\<rparr>" by simp
  with m show ?thesis by simp
qed

theorem round_robin_fair_witness:
  "mset (next_targets 3 \<lparr>tgStr = [], tgArr = Some [''a:1'', ''b:2'', ''c:3''], tgIndex = 1, tgRemoved = []\<rparr>) =
     {#Some ''a:1'', Some ''b:2'', Some ''c:3''#}"
proof -
  let ?t = "\<lparr>tgStr = [], tgArr = Some [''a:1'', ''b:2'', ''c:3''], tgIndex = 1, tgRemoved = []\<rparr>"
  from round_robin_fair [of ?t "[''a:1'', ''b:2'', ''c:3'']"] show ?thesis by (simp add: numeral_3_eq_3)
qed

end
