(* ===== verification/NpsBridge.thy ===== *)
theory NpsBridge
  imports NpsServe
begin

text \<open>
  The bridge of the embedded nps server (\<^verbatim>\<open>upstream/NPS/bridge/bridge.go\<close>): the connections of its
  clients, and the configuration connection over which a client adds hosts and tasks of its own. The
  digest of a key (\<^verbatim>\<open>crypt.Md5\<close>) is the parameter \<open>md5\<close>; the wire protocol, TLS, kcp and
  the multiplexer are not modelled. A handler is one step.
\<close>

section \<open>State\<close>

text \<open>A multiplexed connection; the signal connection is known by a serial number.\<close>

datatype mux = NoMux | MuxOpen | MuxClosed

record BridgeClient =
  bcSignal :: "nat option"
  bcTunnel :: mux
  bcFile :: mux
  bcVersion :: string
  bcRetry :: int

text \<open>
  \<open>nbWatch\<close> are the goroutines of \<^verbatim>\<open>GetHealthFromClient\<close>, each with its client and its signal
  connection; \<open>nbClosing\<close> are the ids sent to \<^verbatim>\<open>CloseClient\<close> that \<^verbatim>\<open>DealBridgeTask\<close> has not
  dealt with yet.
\<close>

record NpsBridge =
  nbDb :: NpsState
  nbClients :: "(int, BridgeClient) gomap"
  nbWatch :: "(int \<times> nat) list"
  nbRegister :: "(string, time) gomap"
  nbClosing :: "int list"
  nbNext :: nat

definition bridge_client :: "nat option \<Rightarrow> mux \<Rightarrow> mux \<Rightarrow> string \<Rightarrow> BridgeClient" where
  "bridge_client sg t f vs = \<lparr>bcSignal = sg, bcTunnel = t, bcFile = f, bcVersion = vs, bcRetry = 0\<rparr>"

text \<open>The table of the bridge, and the versions the database sees of it.\<close>

definition set_bridge :: "(int, BridgeClient) gomap \<Rightarrow> NpsBridge \<Rightarrow> NpsBridge" where
  "set_bridge m s = s\<lparr>nbClients := m, nbDb := (nbDb s)\<lparr>ndBridge := Some (map (\<lambda>(i, b). (i, bcVersion b)) m)\<rparr>\<rparr>"

definition put_bridge :: "int \<Rightarrow> BridgeClient \<Rightarrow> NpsBridge \<Rightarrow> NpsBridge" where
  "put_bridge cid b s = set_bridge (mput cid b (nbClients s)) s"

section \<open>Clients\<close>

definition IsPubClient :: "int \<Rightarrow> NpsState \<Rightarrow> bool" where
  "IsPubClient cid db = (case mget (ndClients db) cid of None \<Rightarrow> False | Some c \<Rightarrow> clNoDisplay c)"

definition GetIdByVerifyKey :: "(string \<Rightarrow> string) \<Rightarrow> string \<Rightarrow> string \<Rightarrow> NpsState \<Rightarrow> NpsState \<times> int option" where
  "GetIdByVerifyKey md5 vKey addr db =
     (case List.find (\<lambda>(_, v). md5 (clVerifyKey v) = vKey \<and> clStatus v) (ndClients db) of
        None \<Rightarrow> (db, None)
      | Some (_, v) \<Rightarrow> (put_client (v\<lparr>clAddr := GetIpByAddr addr\<rparr>) db, Some (clId v)))"

definition GetClientIdByVkey :: "(string \<Rightarrow> string) \<Rightarrow> string \<Rightarrow> NpsState \<Rightarrow> int option" where
  "GetClientIdByVkey md5 vkey db = map_option (\<lambda>(_, v). clId v) (List.find (\<lambda>(_, v). md5 (clVerifyKey v) = vkey) (ndClients db))"

definition bridge_DelClient :: "int \<Rightarrow> NpsBridge \<Rightarrow> NpsBridge" where
  "bridge_DelClient cid s = (case mget (nbClients s) cid of
       None \<Rightarrow> s
     | Some _ \<Rightarrow>
         let s1 = set_bridge (mdel cid (nbClients s)) s
         in if IsPubClient cid (nbDb s) \<or> mget (ndClients (nbDb s)) cid = None then s1
            else s1\<lparr>nbClosing := nbClosing s1 @ [cid]\<rparr>)"

text \<open>The goroutine of a signal connection ends when nothing can be read from it any more.\<close>

definition health_ends :: "int \<times> nat \<Rightarrow> NpsBridge \<Rightarrow> NpsBridge" where
  "health_ends w s = (if w \<in> set (nbWatch s) then bridge_DelClient (fst w) (s\<lparr>nbWatch := remove1 w (nbWatch s)\<rparr>) else s)"

text \<open>\<^verbatim>\<open>DealBridgeTask\<close> for a closed client: what it added for itself goes.\<close>

definition deal_close :: "NpsEnv \<Rightarrow> int \<Rightarrow> NpsBridge \<Rightarrow> NpsBridge" where
  "deal_close env cid s =
     (let db1 = DelTunnelAndHostByClientId env cid True (nbDb s);
          db2 = (case mget (ndClients db1) cid of None \<Rightarrow> db1 | Some c \<Rightarrow> if clNoStore c then DelClient cid db1 else db1)
      in s\<lparr>nbDb := db2, nbClosing := remove1 cid (nbClosing s)\<rparr>)"

text \<open>The loop of \<^verbatim>\<open>DealBridgeTask\<close> over what waits in the channel of closed clients.\<close>

definition deal_all :: "NpsEnv \<Rightarrow> NpsBridge \<Rightarrow> NpsBridge" where
  "deal_all env s = fold (deal_close env) (nbClosing s) s"

datatype work = WORK_MAIN | WORK_CHAN | WORK_FILE | WORK_CONFIG | WORK_REGISTER int

text \<open>The result says whether the connection becomes a configuration connection.\<close>

definition typeDeal :: "time \<Rightarrow> work \<Rightarrow> string \<Rightarrow> int \<Rightarrow> string \<Rightarrow> NpsBridge \<Rightarrow> NpsBridge \<times> bool" where
  "typeDeal now w addr cid vs s = (case w of
       WORK_MAIN \<Rightarrow>
         if IsPubClient cid (nbDb s) then (s, False)
         else let c = nbNext s;
                  b = (case mget (nbClients s) cid of
                      None \<Rightarrow> bridge_client (Some c) NoMux NoMux vs
                    | Some b \<Rightarrow> b\<lparr>bcSignal := Some c, bcVersion := vs\<rparr>)
              in ((put_bridge cid b s)\<lparr>nbNext := c + 1, nbWatch := nbWatch s @ [(cid, c)]\<rparr>, False)
     | WORK_CHAN \<Rightarrow>
         (put_bridge cid (case mget (nbClients s) cid of
            None \<Rightarrow> bridge_client None MuxOpen NoMux vs | Some b \<Rightarrow> b\<lparr>bcTunnel := MuxOpen\<rparr>) s, False)
     | WORK_FILE \<Rightarrow>
         (put_bridge cid (case mget (nbClients s) cid of
            None \<Rightarrow> bridge_client None NoMux MuxOpen vs | Some b \<Rightarrow> b\<lparr>bcFile := MuxOpen\<rparr>) s, False)
     | WORK_CONFIG \<Rightarrow>
         (s, case mget (ndClients (nbDb s)) cid of None \<Rightarrow> False | Some c \<Rightarrow> IsPubClient cid (nbDb s) \<or> clConfigConnAllow c)
     | WORK_REGISTER hour \<Rightarrow>
         (s\<lparr>nbRegister := mput (GetIpByAddr addr) (now + hour * 3600 * 1000000000) (nbRegister s)\<rparr>, False))"

text \<open>\<open>None\<close>: the key is not that of an enabled client.\<close>

definition cliProcess :: "(string \<Rightarrow> string) \<Rightarrow> time \<Rightarrow> string \<Rightarrow> string \<Rightarrow> string \<Rightarrow> work \<Rightarrow> NpsBridge \<Rightarrow> NpsBridge \<times> (int \<times> bool) option" where
  "cliProcess md5 now vKey addr vs w s =
     (case GetIdByVerifyKey md5 vKey addr (nbDb s) of
        (_, None) \<Rightarrow> (s, None)
      | (db, Some cid) \<Rightarrow> (case typeDeal now w addr cid vs (s\<lparr>nbDb := db\<rparr>) of (s', cfg) \<Rightarrow> (s', Some (cid, cfg))))"

text \<open>One round of \<^verbatim>\<open>ping\<close>.\<close>

definition half_open :: "BridgeClient \<Rightarrow> bool" where
  "half_open b \<longleftrightarrow> bcTunnel b = NoMux \<or> bcSignal b = None"

definition ping_dead :: "BridgeClient \<Rightarrow> bool" where
  "ping_dead b \<longleftrightarrow> (if half_open b then 3 \<le> bcRetry b + 1 else bcTunnel b = MuxClosed)"

definition ping :: "NpsBridge \<Rightarrow> NpsBridge" where
  "ping s =
     (let arr = map fst (filter (\<lambda>(_, b). ping_dead b) (nbClients s));
          s1 = set_bridge (mmap (\<lambda>_ b. if half_open b then b\<lparr>bcRetry := bcRetry b + 1\<rparr> else b) (nbClients s)) s
      in fold bridge_DelClient arr s1)"

section \<open>Sending a connection to a client\<close>

datatype link_error = IpNotListed string | IpExpired string | ClientConnectError | MuxRefused | ClientNotConnected int

text \<open>\<open>file_mode\<close>: the task's mode is file. A target on the server itself is dialled directly and is not modelled.\<close>

definition SendLinkInfo :: "bool \<Rightarrow> time \<Rightarrow> int \<Rightarrow> string \<Rightarrow> bool \<Rightarrow> NpsBridge \<Rightarrow> link_error option" where
  "SendLinkInfo ipVerify now clientId remote file_mode s = (case mget (nbClients s) clientId of
       None \<Rightarrow> Some (ClientNotConnected clientId)
     | Some b \<Rightarrow>
         let ip = GetIpByAddr remote;
             bad = (if ipVerify then (case mget (nbRegister s) ip of None \<Rightarrow> Some (IpNotListed ip)
                 | Some t \<Rightarrow> if t \<le> now then Some (IpExpired ip) else None) else None)
         in if bad \<noteq> None then bad
            else (case if file_mode then bcFile b else bcTunnel b of
                NoMux \<Rightarrow> Some ClientConnectError | MuxClosed \<Rightarrow> Some MuxRefused | MuxOpen \<Rightarrow> None))"

section \<open>The configuration connection\<close>

text \<open>
  A task as the client describes it: ports and targets are lists in text. A message may leave the
  target out, which is a nil pointer.
\<close>

record TaskInfo =
  tiMode :: string
  tiPorts :: string
  tiTargetStr :: "string option"
  tiTargetAddr :: string
  tiRemark :: string
  tiPassword :: string

datatype config_msg =
    WORK_STATUS string
  | NEW_CONF NpsClient
  | NEW_HOST NpsHost
  | NEW_TASK TaskInfo

text \<open>
  What becomes of the connection: it goes on with a client, it ends, it fails and the client is
  dropped, or it panics, which ends the whole process as nothing recovers in its goroutine.
\<close>

datatype config_end = Goes int | Ends | Fails int | Panics

datatype task_end = TaskDone | TaskFails | TaskPanics

definition HasTunnel :: "int \<Rightarrow> int \<Rightarrow> NpsState \<Rightarrow> bool" where
  "HasTunnel cid port db \<longleftrightarrow> list_ex (\<lambda>(_, v). tkClient v = cid \<and> tkPort v = port \<and> port \<noteq> 0) (ndTasks db)"

definition GetTunnelNum :: "int \<Rightarrow> NpsState \<Rightarrow> int" where
  "GetTunnelNum cid db = int (length (filter (\<lambda>(_, v). tkClient v = cid) (ndTasks db))) +
     int (length (filter (\<lambda>(_, v). hoClient v = cid) (ndHosts db)))"

definition HasHost :: "int \<Rightarrow> NpsHost \<Rightarrow> NpsState \<Rightarrow> bool" where
  "HasHost cid h db \<longleftrightarrow> list_ex (\<lambda>(_, v). hoClient v = cid \<and> hoHost v = hoHost h \<and> hoLocation h = hoLocation v) (ndHosts db)"

definition IsHostExist :: "NpsHost \<Rightarrow> NpsState \<Rightarrow> bool" where
  "IsHostExist h db \<longleftrightarrow> list_ex (\<lambda>(_, v). hoId v \<noteq> hoId h \<and> hoHost v = hoHost h \<and> hoLocation h = hoLocation v \<and>
     (hoScheme v = ''all'' \<or> hoScheme v = hoScheme h)) (ndHosts db)"

definition NewHost :: "NpsHost \<Rightarrow> NpsState \<Rightarrow> NpsState \<times> bool" where
  "NewHost h0 db = (let h = with_location h0 in if IsHostExist h db then (db, False) else (put_host (h\<lparr>hoFlow := Some zero_Flow\<rparr>) db, True))"

text \<open>Keys of secret tasks are unique.\<close>

definition NewTask :: "NpsTask \<Rightarrow> NpsState \<Rightarrow> NpsState \<times> bool" where
  "NewTask t db =
     (if list_ex (\<lambda>(_, v). (tkMode v = ''secret'' \<or> tkMode v = ''p2p'') \<and> tkPassword v = tkPassword t \<and> tkPassword t \<noteq> []) (ndTasks db)
      then (db, False) else (put_task (t\<lparr>tkFlow := Some zero_Flow\<rparr>) db, True))"

definition config_task :: "TaskInfo \<Rightarrow> int \<Rightarrow> int \<Rightarrow> int \<Rightarrow> string \<Rightarrow> string \<Rightarrow> NpsTask" where
  "config_task ti cid tid port target remark =
     zero_Task\<lparr>tkId := tid, tkPort := port, tkMode := tiMode ti, tkStatus := True, tkClient := cid, tkFlow := Some zero_Flow,
       tkPassword := tiPassword ti, tkNoStore := True, tkTarget := target, tkRemark := remark\<rparr>"

text \<open>
  The loop over the ports; with several ports each has the target at its place in the list of targets, and a place the list
  does not have is an index out of range. A task that is opened is started by \<^verbatim>\<open>DealBridgeTask\<close>, which drops the error;
  its \<^verbatim>\<open>select\<close> has the channel twice, and \<^verbatim>\<open>StartTask\<close> in the second case does the same to a task whose status is set.
\<close>

fun config_ports :: "NpsEnv \<Rightarrow> TaskInfo \<Rightarrow> NpsClient \<Rightarrow> (int \<times> (string \<times> string) option) list \<Rightarrow> NpsState \<Rightarrow> NpsState \<times> task_end" where
  "config_ports env ti c [] db = (db, TaskDone)"
| "config_ports env ti c ((port, None) # rest) db = (db, TaskPanics)"
| "config_ports env ti c ((port, Some (target, remark)) # rest) db =
     (let (db1, tid) = GetTaskId db;
          tl = config_task ti (clId c) tid port target remark
      in if HasTunnel (clId c) port db1 then config_ports env ti c rest db1
         else if clMaxTunnelNum c \<noteq> 0 \<and> clMaxTunnelNum c \<le> GetTunnelNum (clId c) db1 then (db1, TaskFails)
         else if \<not> TestServerPortInPool env port (tiMode ti) (GetPorts (clPortPool c)) \<and> tiMode ti \<noteq> ''secret'' \<and> tiMode ti \<noteq> ''p2p''
           then (db1, TaskFails)
         else (case NewTask tl db1 of
             (db2, False) \<Rightarrow> (db2, TaskFails)
           | (db2, True) \<Rightarrow> config_ports env ti c rest (fst (AddTask env tl db2))))"

definition config_targets :: "TaskInfo \<Rightarrow> string \<Rightarrow> int list \<Rightarrow> int list \<Rightarrow> (int \<times> (string \<times> string) option) list" where
  "config_targets ti targetStr ports targets =
     (if length ports = 1 then [(hd ports, Some (targetStr, tiRemark ti))]
      else map (\<lambda>i. (ports ! i,
          if i < length targets
          then Some ((if tiTargetAddr ti \<noteq> [] then tiTargetAddr ti @ '':'' else []) @ itoa (targets ! i), tiRemark ti @ ''_'' @ itoa (ports ! i))
          else None)) [0..<length ports])"

definition config_NEW_TASK :: "NpsEnv \<Rightarrow> TaskInfo \<Rightarrow> NpsClient \<Rightarrow> NpsState \<Rightarrow> NpsState \<times> task_end" where
  "config_NEW_TASK env ti c db =
     (let db1 = fst (GetTaskId db); ports0 = GetPorts (tiPorts ti) in
      (case tiTargetStr ti of
         None \<Rightarrow> (db1, TaskPanics)
       | Some targetStr \<Rightarrow>
           let targets = GetPorts targetStr;
               ports = (if tiMode ti = ''secret'' \<or> tiMode ti = ''p2p'' then ports0 @ [0] else ports0)
           in if 1 < length ports0 \<and> (tiMode ti = ''tcp'' \<or> tiMode ti = ''udp'') \<and> length ports0 \<noteq> length targets then (db1, TaskFails)
              else if ports = [] then (db1, TaskFails)
              else config_ports env ti c (config_targets ti targetStr ports targets) db1))"

definition config_NEW_HOST :: "NpsHost \<Rightarrow> int \<Rightarrow> NpsState \<Rightarrow> NpsState \<times> bool" where
  "config_NEW_HOST h0 cid db =
     (let (db1, hid) = GetHostId db;
          h = with_location (h0\<lparr>hoId := hid, hoFlow := Some zero_Flow, hoNoStore := True, hoClient := cid\<rparr>)
      in if HasHost cid h db1 then (db1, True)
         else if IsHostExist h db1 then (db1, False)
         else (fst (NewHost h db1), True))"

text \<open>The client of the message is an object of its own: when it is refused the table stays as it is.\<close>

definition config_NEW_CONF :: "NpsEnv \<Rightarrow> NpsClient \<Rightarrow> NpsBridge \<Rightarrow> NpsBridge \<times> config_end" where
  "config_NEW_CONF env c0 s =
     (let c = c0\<lparr>clNoStore := True, clStatus := True, clNoDisplay := False,
            clFlow := (case clFlow c0 of None \<Rightarrow> Some zero_Flow | Some f \<Rightarrow> Some f)\<rparr>
      in (case NewClient env c (nbDb s) of
            (_, Inl _) \<Rightarrow> (s, Fails (clId c))
          | (db, Inr c') \<Rightarrow> (put_bridge (clId c') (bridge_client None NoMux NoMux []) (s\<lparr>nbDb := db\<rparr>), Goes (clId c'))))"

text \<open>One message of \<^verbatim>\<open>getConfig\<close>. A connection whose client has been deleted from the table meanwhile is taken to end.\<close>

definition handle_config :: "NpsEnv \<Rightarrow> (string \<Rightarrow> string) \<Rightarrow> config_msg \<Rightarrow> int \<Rightarrow> NpsBridge \<Rightarrow> NpsBridge \<times> config_end" where
  "handle_config env md5 m cid s = (case mget (ndClients (nbDb s)) cid of
       None \<Rightarrow> (s, Ends)
     | Some c \<Rightarrow> (case m of
           WORK_STATUS key \<Rightarrow> (s, if GetClientIdByVkey md5 key (nbDb s) = None then Ends else Goes cid)
         | NEW_CONF c0 \<Rightarrow> config_NEW_CONF env c0 s
         | NEW_HOST h \<Rightarrow> (case config_NEW_HOST h cid (nbDb s) of (db, ok) \<Rightarrow> (s\<lparr>nbDb := db\<rparr>, if ok then Goes cid else Fails cid))
         | NEW_TASK ti \<Rightarrow> (case config_NEW_TASK env ti c (nbDb s) of (db, r) \<Rightarrow>
             (s\<lparr>nbDb := db\<rparr>, case r of TaskDone \<Rightarrow> Goes cid | TaskFails \<Rightarrow> Fails cid | TaskPanics \<Rightarrow> Panics))))"

text \<open>The messages of one connection, in turn; \<open>None\<close> is a panic.\<close>

fun getConfig :: "NpsEnv \<Rightarrow> (string \<Rightarrow> string) \<Rightarrow> config_msg list \<Rightarrow> int \<Rightarrow> NpsBridge \<Rightarrow> NpsBridge option" where
  "getConfig env md5 [] cid s = Some s"
| "getConfig env md5 (m # ms) cid s = (case handle_config env md5 m cid s of
       (s', Goes cid') \<Rightarrow> getConfig env md5 ms cid' s'
     | (s', Ends) \<Rightarrow> Some s'
     | (s', Fails cid') \<Rightarrow> Some (bridge_DelClient cid' s')
     | (s', Panics) \<Rightarrow> None)"

end
