(* ===== verification/NpsBridgeProps.thy ===== *)
theory NpsBridgeProps
  imports NpsBridge SyncSweep
begin

text \<open>
  What the bridge of nps guarantees: half-open and dead clients leave its table, and a configuration
  connection adds tunnels of its own client only, on ports of its pool. The lemmas at the end show
  where the configuration connection reaches further.
\<close>

section \<open>The ping loop\<close>

lemma set_bridge_simps [simp]:
  "nbClients (set_bridge m s) = m" "nbClosing (set_bridge m s) = nbClosing s"
  "ndClients (nbDb (set_bridge m s)) = ndClients (nbDb s)"
  "ndTasks (nbDb (set_bridge m s)) = ndTasks (nbDb s)" "ndHosts (nbDb (set_bridge m s)) = ndHosts (nbDb s)"
  "ndTaskInc (nbDb (set_bridge m s)) = ndTaskInc (nbDb s)" "ndHostInc (nbDb (set_bridge m s)) = ndHostInc (nbDb s)"
  "ndRunning (nbDb (set_bridge m s)) = ndRunning (nbDb s)"
  by (simp_all add: set_bridge_def)

lemma bridge_DelClient_clients [simp]:
  "mget (nbClients (bridge_DelClient cid s)) i = (if i = cid then None else mget (nbClients s) i)"
  by (auto simp: bridge_DelClient_def Let_def gomap_simps split: option.splits)

lemma bridge_DelClient_db [simp]:
  "ndClients (nbDb (bridge_DelClient cid s)) = ndClients (nbDb s)"
  "ndTasks (nbDb (bridge_DelClient cid s)) = ndTasks (nbDb s)" "ndHosts (nbDb (bridge_DelClient cid s)) = ndHosts (nbDb s)"
  "ndTaskInc (nbDb (bridge_DelClient cid s)) = ndTaskInc (nbDb s)" "ndHostInc (nbDb (bridge_DelClient cid s)) = ndHostInc (nbDb s)"
  "ndRunning (nbDb (bridge_DelClient cid s)) = ndRunning (nbDb s)"
  by (auto simp: bridge_DelClient_def Let_def split: option.splits)

text \<open>Closing a client of the table that is not a public one is reported to \<^verbatim>\<open>DealBridgeTask\<close>.\<close>

definition reports_close :: "int \<Rightarrow> NpsBridge \<Rightarrow> bool" where
  "reports_close cid s \<longleftrightarrow> (\<exists>c. mget (ndClients (nbDb s)) cid = Some c \<and> \<not> clNoDisplay c)"

lemma bridge_DelClient_closing:
  "set (nbClosing (bridge_DelClient cid s)) =
     set (nbClosing s) \<union> (if mget (nbClients s) cid \<noteq> None \<and> reports_close cid s then {cid} else {})"
  by (auto simp: bridge_DelClient_def Let_def reports_close_def IsPubClient_def split: option.splits)

lemma reports_close_cong [simp]: "reports_close i (bridge_DelClient cid s) = reports_close i s" "reports_close i (set_bridge m s) = reports_close i s"
  by (simp_all add: reports_close_def)

lemma fold_DelClient:
  "mget (nbClients (fold bridge_DelClient cids s)) i = (if i \<in> set cids then None else mget (nbClients s) i)"
  "ndClients (nbDb (fold bridge_DelClient cids s)) = ndClients (nbDb s)"
  "i \<in> set (nbClosing (fold bridge_DelClient cids s)) \<longleftrightarrow>
     i \<in> set (nbClosing s) \<or> i \<in> set cids \<and> mget (nbClients s) i \<noteq> None \<and> reports_close i s"
proof (induction cids arbitrary: s)
  case (Cons c cids)
  { case 1 show ?case using Cons(1) [of "bridge_DelClient c s"] by simp }
  { case 2 show ?case using Cons(2) [of "bridge_DelClient c s"] by simp }
  { case 3 show ?case using Cons(3) [of "bridge_DelClient c s"] by (auto simp: bridge_DelClient_closing) }
qed simp_all

lemma wf_mdel_fold: "mwf (nbClients s) \<Longrightarrow> mwf (nbClients (fold bridge_DelClient cids s))"
proof (induction cids arbitrary: s)
  case (Cons c cids)
  have "mwf (nbClients (bridge_DelClient c s))"
    using Cons.prems by (auto simp: bridge_DelClient_def Let_def gomap_simps split: option.splits)
  then show ?case using Cons.IH by simp
qed simp

text \<open>One more round without a tunnel or a signal.\<close>

definition retried :: "BridgeClient \<Rightarrow> BridgeClient" where
  "retried b = (if half_open b then b\<lparr>bcRetry := bcRetry b + 1\<rparr> else b)"

lemma retried_simps [simp]: "half_open (retried b) = half_open b" "bcTunnel (retried b) = bcTunnel b"
  "bcRetry (retried b) = (if half_open b then bcRetry b + 1 else bcRetry b)"
  by (simp_all add: retried_def half_open_def)

lemma dead_ids:
  assumes "mwf m" shows "i \<in> set (map fst (filter (\<lambda>(_, b). ping_dead b) m)) \<longleftrightarrow> (\<exists>b. mget m i = Some b \<and> ping_dead b)"
  using mem_mget [OF assms] by (force simp: image_iff)

lemma ping_step:
  assumes "mwf (nbClients s)"
  shows "mwf (nbClients (ping s))"
    "mget (nbClients (ping s)) i = (case mget (nbClients s) i of None \<Rightarrow> None | Some b \<Rightarrow> if ping_dead b then None else Some (retried b))"
    "ndClients (nbDb (ping s)) = ndClients (nbDb s)"
    "i \<in> set (nbClosing (ping s)) \<longleftrightarrow> i \<in> set (nbClosing s) \<or> (\<exists>b. mget (nbClients s) i = Some b \<and> ping_dead b) \<and> reports_close i s"
proof -
  let ?s1 = "set_bridge (mmap (\<lambda>_ b. retried b) (nbClients s)) s" and ?arr = "map fst (filter (\<lambda>(_, b). ping_dead b) (nbClients s))"
  have p: "ping s = fold bridge_DelClient ?arr ?s1" by (simp add: ping_def retried_def [abs_def] Let_def)
  have w: "mwf (nbClients ?s1)" using assms by simp
  show "mwf (nbClients (ping s))" unfolding p by (rule wf_mdel_fold [OF w])
  note arr = dead_ids [OF assms]
  show "mget (nbClients (ping s)) i = (case mget (nbClients s) i of None \<Rightarrow> None | Some b \<Rightarrow> if ping_dead b then None else Some (retried b))"
    unfolding p fold_DelClient(1) arr by (auto simp: gomap_simps split: option.splits)
  show "ndClients (nbDb (ping s)) = ndClients (nbDb s)" unfolding p fold_DelClient(2) by simp
  show "i \<in> set (nbClosing (ping s)) \<longleftrightarrow> i \<in> set (nbClosing s) \<or> (\<exists>b. mget (nbClients s) i = Some b \<and> ping_dead b) \<and> reports_close i s"
    unfolding p fold_DelClient(3) arr by (auto simp: gomap_simps)
qed

text \<open>C27. Three rounds of the ping loop clear the table of the bridge: a client that has no tunnel or no signal, or whose
  tunnel is closed, is gone and, when the database has it and it is not a public one, is reported for closing, and every other
  stays exactly as it was. The loop needs no
  more rounds, whatever the counts of earlier rounds, and it leaves the clients of the database alone.\<close>

theorem idle_client_reaped:
  assumes "mwf (nbClients s)" "\<And>i b. mget (nbClients s) i = Some b \<Longrightarrow> 0 \<le> bcRetry b"
  shows "mget (nbClients (ping (ping (ping s)))) cid =
      (case mget (nbClients s) cid of None \<Rightarrow> None
       | Some b \<Rightarrow> if bcTunnel b = NoMux \<or> bcSignal b = None \<or> bcTunnel b = MuxClosed then None else Some b) \<and>
    ndClients (nbDb (ping (ping (ping s)))) = ndClients (nbDb s) \<and>
    (\<forall>b c. mget (nbClients s) cid = Some b \<and> (bcTunnel b = NoMux \<or> bcSignal b = None \<or> bcTunnel b = MuxClosed) \<and>
       mget (ndClients (nbDb s)) cid = Some c \<and> \<not> clNoDisplay c \<longrightarrow> cid \<in> set (nbClosing (ping (ping (ping s)))))"
proof -
  note w1 = ping_step(1) [OF assms(1)]
  note w2 = ping_step(1) [OF w1]
  note look = ping_step(2) [OF assms(1), of cid] ping_step(2) [OF w1, of cid] ping_step(2) [OF w2, of cid]
  note shut = ping_step(4) [OF assms(1), of cid] ping_step(4) [OF w1, of cid] ping_step(4) [OF w2, of cid]
  note db = ping_step(3) [OF assms(1)] ping_step(3) [OF w1] ping_step(3) [OF w2]
  have rc: "reports_close cid (ping s) = reports_close cid s" "reports_close cid (ping (ping s)) = reports_close cid s"
    by (simp_all add: reports_close_def db)
  show ?thesis
  proof (cases "mget (nbClients s) cid")
    case None
    then show ?thesis by (simp add: look db)
  next
    case (Some b)
    show ?thesis
    proof (cases "half_open b")
      case True
      then have h: "bcTunnel b = NoMux \<or> bcSignal b = None" by (simp add: half_open_def)
      with Some assms(2) [OF Some] True show ?thesis
        by (simp add: look shut db rc ping_dead_def) (auto simp: reports_close_def)
    next
      case False
      then have "retried b = b" by (simp add: retried_def)
      with Some False show ?thesis
        by (auto simp: look shut db rc ping_dead_def reports_close_def half_open_def)
    qed
  qed
qed

section \<open>The configuration connection\<close>

text \<open>A task a client may add for itself.\<close>

definition own_task :: "NpsEnv \<Rightarrow> NpsClient \<Rightarrow> NpsTask \<Rightarrow> bool" where
  "own_task env c t \<longleftrightarrow> tkClient t = clId c \<and> tkNoStore t \<and>
     (tkMode t = ''secret'' \<or> tkMode t = ''p2p'' \<or> TestServerPortInPool env (tkPort t) (tkMode t) (GetPorts (clPortPool c)))"

definition own_host :: "NpsClient \<Rightarrow> NpsHost \<Rightarrow> bool" where
  "own_host c h \<longleftrightarrow> hoClient h = clId c \<and> hoNoStore h"

text \<open>A table grows by own rows under ids its counter had not reached; \<open>k\<close> bounds how far the counter goes.\<close>

definition grows :: "nat \<Rightarrow> ('v \<Rightarrow> bool) \<Rightarrow> (int, 'v) gomap \<times> int \<Rightarrow> (int, 'v) gomap \<times> int \<Rightarrow> bool" where
  "grows k own a b \<longleftrightarrow> snd a \<le> snd b \<and> snd b \<le> snd a + int k \<and>
     (\<forall>i. if i \<le> snd a then mget (fst b) i = mget (fst a) i
          else mget (fst b) i = mget (fst a) i \<or> (\<exists>v. mget (fst b) i = Some v \<and> own v))"

definition adds_only :: "NpsEnv \<Rightarrow> NpsClient \<Rightarrow> nat \<Rightarrow> nat \<Rightarrow> NpsState \<Rightarrow> NpsState \<Rightarrow> bool" where
  "adds_only env c k l db db' \<longleftrightarrow> ndClients db' = ndClients db \<and>
     grows k (own_task env c) (ndTasks db, ndTaskInc db) (ndTasks db', ndTaskInc db') \<and>
     grows l (own_host c) (ndHosts db, ndHostInc db) (ndHosts db', ndHostInc db') \<and>
     (\<forall>i \<le> ndTaskInc db. i \<in> set (ndRunning db') \<longleftrightarrow> i \<in> set (ndRunning db)) \<and>
     (keyed tkId (ndTasks db) \<longrightarrow> keyed tkId (ndTasks db')) \<and> (keyed hoId (ndHosts db) \<longrightarrow> keyed hoId (ndHosts db'))"

lemma grows_refl [simp]: "grows k own a a"
  by (simp add: grows_def)

lemma grows_trans:
  assumes "grows k own a b" "grows l own b c" shows "grows (k + l) own a c"
  unfolding grows_def
proof (intro conjI allI)
  note ab = assms(1) [unfolded grows_def] and bc = assms(2) [unfolded grows_def]
  show "snd a \<le> snd c" "snd c \<le> snd a + int (k + l)" using ab bc by linarith+
  fix i
  have "if i \<le> snd a then mget (fst b) i = mget (fst a) i else mget (fst b) i = mget (fst a) i \<or> (\<exists>v. mget (fst b) i = Some v \<and> own v)"
    "if i \<le> snd b then mget (fst c) i = mget (fst b) i else mget (fst c) i = mget (fst b) i \<or> (\<exists>v. mget (fst c) i = Some v \<and> own v)"
    "snd a \<le> snd b" using ab bc by blast+
  then show "if i \<le> snd a then mget (fst c) i = mget (fst a) i else mget (fst c) i = mget (fst a) i \<or> (\<exists>v. mget (fst c) i = Some v \<and> own v)"
    by (auto split: if_splits)
qed

lemma grows_row:
  assumes "grows k own (m, n) (m', n')" "mget m' i = Some v" shows "mget m i = Some v \<or> own v"
proof -
  have "if i \<le> n then mget m' i = mget m i else mget m' i = mget m i \<or> (\<exists>v. mget m' i = Some v \<and> own v)"
    using assms(1) unfolding grows_def fst_conv snd_conv by blast
  then show ?thesis using assms(2) by (auto split: if_splits)
qed

lemma grows_old: "grows k own (m, n) (m', n') \<Longrightarrow> i \<le> n \<Longrightarrow> mget m' i = mget m i"
  unfolding grows_def fst_conv snd_conv by metis

lemma grows_mono: "grows k own a b \<Longrightarrow> k \<le> l \<Longrightarrow> grows l own a b"
  unfolding grows_def by auto

lemma adds_only_refl [simp]: "adds_only env c k l db db"
  by (simp add: adds_only_def)

lemma adds_only_trans:
  assumes "adds_only env c k l a b" "adds_only env c k' l' b d" shows "adds_only env c (k + k') (l + l') a d"
proof -
  have "ndTaskInc a \<le> ndTaskInc b" using assms(1) by (simp add: adds_only_def grows_def)
  then have "\<forall>i \<le> ndTaskInc a. i \<in> set (ndRunning d) \<longleftrightarrow> i \<in> set (ndRunning a)"
    using assms by (simp add: adds_only_def)
  moreover have "grows (k + k') (own_task env c) (ndTasks a, ndTaskInc a) (ndTasks d, ndTaskInc d)"
    "grows (l + l') (own_host c) (ndHosts a, ndHostInc a) (ndHosts d, ndHostInc d)"
    using assms grows_trans unfolding adds_only_def by blast+
  ultimately show ?thesis using assms by (simp add: adds_only_def)
qed

lemma adds_only_mono: "adds_only env c k l a b \<Longrightarrow> k \<le> k' \<Longrightarrow> l \<le> l' \<Longrightarrow> adds_only env c k' l' a b"
  by (auto simp: adds_only_def intro: grows_mono)

lemma adds_only_task_id:
  assumes "0 \<le> ndTaskInc db" "ndTaskInc db < 2 ^ 31 - 1"
  shows "adds_only env c 1 0 db (fst (GetTaskId db))" "snd (GetTaskId db) = ndTaskInc db + 1" "ndTaskInc (fst (GetTaskId db)) = ndTaskInc db + 1"
  using wrap32_next [OF assms] by (simp_all add: GetTaskId_def Let_def adds_only_def grows_def)

lemma adds_only_host_id:
  assumes "0 \<le> ndHostInc db" "ndHostInc db < 2 ^ 31 - 1"
  shows "adds_only env c 0 1 db (fst (GetHostId db))" "snd (GetHostId db) = ndHostInc db + 1" "ndHostInc (fst (GetHostId db)) = ndHostInc db + 1"
  using wrap32_next [OF assms] by (simp_all add: GetHostId_def Let_def adds_only_def grows_def)

text \<open>The ids of one message: one for the message itself, and one for each port.\<close>

definition config_draws :: "config_msg \<Rightarrow> nat" where
  "config_draws m = (case m of NEW_TASK ti \<Rightarrow> length (GetPorts (tiPorts ti)) + 2 | _ \<Rightarrow> 0)"

definition host_draws :: "config_msg \<Rightarrow> nat" where
  "host_draws m = (case m of NEW_HOST _ \<Rightarrow> 1 | _ \<Rightarrow> 0)"

text \<open>A drawn id together with a row filed under it.\<close>

lemma adds_only_new_task:
  assumes "0 \<le> ndTaskInc db" "ndTaskInc db < 2 ^ 31 - 1" "own_task env c t" "tkId t = ndTaskInc db + 1"
  shows "adds_only env c 1 0 db (put_task t (fst (GetTaskId db)))"
    "adds_only env c 1 0 db (store_running (tkId t) (put_task t (fst (GetTaskId db))))"
proof -
  have g: "grows 1 (own_task env c) (ndTasks db, ndTaskInc db) (mput (tkId t) t (ndTasks db), ndTaskInc db + 1)"
    using assms(3,4) by (auto simp: grows_def gomap_simps)
  have f: "fst (GetTaskId db) = db\<lparr>ndTaskInc := ndTaskInc db + 1\<rparr>"
    using wrap32_next [OF assms(1,2)] by (simp add: GetTaskId_def Let_def)
  show "adds_only env c 1 0 db (put_task t (fst (GetTaskId db)))"
    "adds_only env c 1 0 db (store_running (tkId t) (put_task t (fst (GetTaskId db))))"
    using g assms(4) unfolding f adds_only_def put_task_def store_running_def by (simp_all add: keyed_mput)
qed

lemma config_ports_adds:
  assumes "0 \<le> ndTaskInc db" "ndTaskInc db + int (length ps) < 2 ^ 31 - 1"
  shows "adds_only env c (length ps) 0 db (fst (config_ports env ti c ps db))"
  using assms
proof (induction env ti c ps db rule: config_ports.induct)
  case (3 env ti c port target remark rest db)
  define db1 where "db1 = fst (GetTaskId db)"
  define tid where "tid = snd (GetTaskId db)"
  define tl where "tl = config_task ti (clId c) tid port target remark"
  have g: "GetTaskId db = (db1, tid)" by (simp add: db1_def tid_def)
  have lim: "ndTaskInc db < 2 ^ 31 - 1" using "3.prems" by simp
  note id = adds_only_task_id(1) [OF "3.prems"(1) lim, folded db1_def, of env c] adds_only_task_id(2,3) [OF "3.prems"(1) lim, folded db1_def tid_def]
  have tid: "tkId tl = ndTaskInc db + 1" by (simp add: tl_def config_task_def id)
  have addable: "NewTask tl db1 = (db1, False) \<or> NewTask tl db1 = (put_task tl db1, True)"
    by (simp add: NewTask_def tl_def config_task_def zero_Task_def)
  have more: "adds_only env c (Suc (length rest)) 0 db (fst (config_ports env ti c rest db2))"
    if IH: "0 \<le> ndTaskInc db2 \<Longrightarrow> ndTaskInc db2 + int (length rest) < 2 ^ 31 - 1 \<Longrightarrow> adds_only env c (length rest) 0 db2 (fst (config_ports env ti c rest db2))"
      and a: "adds_only env c 1 0 db db2" and inc: "ndTaskInc db2 = ndTaskInc db + 1" for db2
  proof -
    have "adds_only env c (length rest) 0 db2 (fst (config_ports env ti c rest db2))" using IH inc "3.prems" by simp
    with adds_only_trans [OF a this] show ?thesis by simp
  qed
  have stop: "adds_only env c (Suc (length rest)) 0 db db1" using adds_only_mono [OF id(1)] by simp
  note IH = "3.IH" [OF g [symmetric] refl, folded tl_def, OF refl]
  have eq: "config_ports env ti c ((port, Some (target, remark)) # rest) db =
      (if HasTunnel (clId c) port db1 then config_ports env ti c rest db1
       else if clMaxTunnelNum c \<noteq> 0 \<and> clMaxTunnelNum c \<le> GetTunnelNum (clId c) db1 then (db1, TaskFails)
       else if \<not> TestServerPortInPool env port (tiMode ti) (GetPorts (clPortPool c)) \<and> tiMode ti \<noteq> ''secret'' \<and> tiMode ti \<noteq> ''p2p''
         then (db1, TaskFails)
       else (case NewTask tl db1 of (db2, False) \<Rightarrow> (db2, TaskFails) | (db2, True) \<Rightarrow> config_ports env ti c rest (fst (AddTask env tl db2))))"
    by (simp add: g Let_def tl_def)
  show ?case
  proof (cases "HasTunnel (clId c) port db1")
    case True
    have "adds_only env c (Suc (length rest)) 0 db (fst (config_ports env ti c rest db1))"
      by (rule more [OF _ id(1,3)]) (use IH(1) [OF True] in blast)
    with True show ?thesis unfolding eq by simp
  next
    case ht: False
    consider (full) "clMaxTunnelNum c \<noteq> 0 \<and> clMaxTunnelNum c \<le> GetTunnelNum (clId c) db1"
      | (port) "\<not> (clMaxTunnelNum c \<noteq> 0 \<and> clMaxTunnelNum c \<le> GetTunnelNum (clId c) db1)"
          "\<not> TestServerPortInPool env port (tiMode ti) (GetPorts (clPortPool c)) \<and> tiMode ti \<noteq> ''secret'' \<and> tiMode ti \<noteq> ''p2p''"
      | (dup) "NewTask tl db1 = (db1, False)"
      | (new) "\<not> (clMaxTunnelNum c \<noteq> 0 \<and> clMaxTunnelNum c \<le> GetTunnelNum (clId c) db1)"
          "\<not> (\<not> TestServerPortInPool env port (tiMode ti) (GetPorts (clPortPool c)) \<and> tiMode ti \<noteq> ''secret'' \<and> tiMode ti \<noteq> ''p2p'')"
          "NewTask tl db1 = (put_task tl db1, True)"
      using addable by blast
    then show ?thesis
    proof cases
      case full then show ?thesis using ht stop unfolding eq by simp
    next
      case port then show ?thesis using ht stop unfolding eq by simp
    next
      case dup then show ?thesis using ht stop unfolding eq by simp
    next
      case new
      define db2 where "db2 = fst (AddTask env tl (put_task tl db1))"
      have own: "own_task env c tl" using new(2) by (auto simp: own_task_def tl_def config_task_def)
      have e: "db2 = put_task tl db1 \<or> db2 = store_running (tkId tl) (put_task tl db1)"
        by (auto simp: db2_def AddTask_def Let_def)
      then have "adds_only env c 1 0 db db2"
        using adds_only_new_task [OF "3.prems"(1) lim own tid, folded db1_def] by auto
      moreover have "ndTaskInc db2 = ndTaskInc db + 1" using e id(3) by (auto simp: put_task_def store_running_def)
      moreover have "0 \<le> ndTaskInc db2 \<Longrightarrow> ndTaskInc db2 + int (length rest) < 2 ^ 31 - 1 \<Longrightarrow>
        adds_only env c (length rest) 0 db2 (fst (config_ports env ti c rest db2))"
        using IH(2) [OF ht new(1,2) new(3) [symmetric] refl] by (simp add: db2_def)
      ultimately have "adds_only env c (Suc (length rest)) 0 db (fst (config_ports env ti c rest db2))" by (intro more)
      moreover have "config_ports env ti c ((port, Some (target, remark)) # rest) db = config_ports env ti c rest db2"
        using ht new unfolding eq by (auto simp: db2_def)
      ultimately show ?thesis by simp
    qed
  qed
qed simp_all


lemma config_targets_length: "ports \<noteq> [] \<Longrightarrow> length (config_targets ti s ports targets) = length ports"
  by (simp add: config_targets_def)

lemma config_NEW_TASK_adds:
  assumes "0 \<le> ndTaskInc db" "ndTaskInc db + int (config_draws (NEW_TASK ti)) < 2 ^ 31 - 1"
  shows "adds_only env c (config_draws (NEW_TASK ti)) 0 db (fst (config_NEW_TASK env ti c db))"
proof -
  define db1 where "db1 = fst (GetTaskId db)"
  have lim: "ndTaskInc db < 2 ^ 31 - 1" using assms by (simp add: config_draws_def)
  note id = adds_only_task_id(1) [OF assms(1) lim, of env c, folded db1_def] adds_only_task_id(3) [OF assms(1) lim, folded db1_def]
  have stop: "adds_only env c (config_draws (NEW_TASK ti)) 0 db db1"
    using adds_only_mono [OF id(1)] by (simp add: config_draws_def)
  have run: "adds_only env c (config_draws (NEW_TASK ti)) 0 db (fst (config_ports env ti c ps db1))"
    if "length ps \<le> length (GetPorts (tiPorts ti)) + 1" for ps
  proof -
    have "adds_only env c (length ps) 0 db1 (fst (config_ports env ti c ps db1))"
      using config_ports_adds assms that by (simp add: id config_draws_def)
    from adds_only_mono [OF adds_only_trans [OF id(1) this]] that show ?thesis by (simp add: config_draws_def)
  qed
  show ?thesis
    unfolding config_NEW_TASK_def db1_def [symmetric] Let_def
    by (cases "tiTargetStr ti") (simp_all add: stop run config_targets_length)
qed

lemma config_NEW_HOST_adds:
  assumes "0 \<le> ndHostInc db" "ndHostInc db < 2 ^ 31 - 1"
  shows "adds_only env c 0 1 db (fst (config_NEW_HOST h0 (clId c) db))"
proof -
  obtain db1 hid where g: "GetHostId db = (db1, hid)" by fastforce
  note id = adds_only_host_id(1) [OF assms, of env c] adds_only_host_id(2) [OF assms]
  have f: "db1 = db\<lparr>ndHostInc := ndHostInc db + 1\<rparr>" "hid = ndHostInc db + 1"
    using wrap32_next [OF assms] g by (auto simp: GetHostId_def Let_def)
  define h where "h = with_location (with_location (h0\<lparr>hoId := hid, hoFlow := Some zero_Flow, hoNoStore := True, hoClient := clId c\<rparr>))\<lparr>hoFlow := Some zero_Flow\<rparr>"
  have h: "own_host c h" "hoId h = ndHostInc db + 1" by (simp_all add: h_def own_host_def with_location_def f)
  have put: "adds_only env c 0 1 db (put_host h db1)"
    using h by (auto simp: f adds_only_def grows_def put_host_def gomap_simps keyed_mput)
  have "fst (config_NEW_HOST h0 (clId c) db) = db1 \<or> fst (config_NEW_HOST h0 (clId c) db) = put_host h db1"
    by (auto simp: config_NEW_HOST_def NewHost_def Let_def g h_def)
  with put id(1) g show ?thesis by auto
qed

text \<open>A message other than a new configuration.\<close>

definition keeps_client :: "config_msg \<Rightarrow> bool" where
  "keeps_client m \<longleftrightarrow> (case m of NEW_CONF _ \<Rightarrow> False | _ \<Rightarrow> True)"

lemma handle_config_adds:
  assumes "keeps_client m" "mget (ndClients (nbDb s)) cid = Some c" "clId c = cid" "0 \<le> ndTaskInc (nbDb s)" "0 \<le> ndHostInc (nbDb s)"
    and "ndTaskInc (nbDb s) + int (config_draws m) < 2 ^ 31 - 1" "ndHostInc (nbDb s) + int (host_draws m) < 2 ^ 31"
    and r: "handle_config env md5 m cid s = (s', e)"
  shows "adds_only env c (config_draws m) (host_draws m) (nbDb s) (nbDb s')" "nbClients s' = nbClients s"
    "e = Ends \<or> e = Goes cid \<or> e = Fails cid \<or> e = Panics"
proof -
  have "adds_only env c (config_draws m) (host_draws m) (nbDb s) (nbDb s') \<and> nbClients s' = nbClients s \<and>
    (e = Ends \<or> e = Goes cid \<or> e = Fails cid \<or> e = Panics)"
  proof (cases m)
    case (WORK_STATUS k)
    with assms(2) r show ?thesis by (auto simp: handle_config_def split: if_splits)
  next
    case (NEW_CONF c0)
    with assms(1) show ?thesis by (simp add: keeps_client_def)
  next
    case (NEW_HOST h)
    have "adds_only env c 0 1 (nbDb s) (fst (config_NEW_HOST h cid (nbDb s)))"
      using config_NEW_HOST_adds [OF assms(5), where c = c] assms(7) unfolding assms(3) by (simp add: NEW_HOST host_draws_def)
    with assms(2) r show ?thesis
      by (auto simp: NEW_HOST handle_config_def config_draws_def host_draws_def split: prod.splits if_splits)
  next
    case (NEW_TASK ti)
    have "adds_only env c (config_draws m) 0 (nbDb s) (fst (config_NEW_TASK env ti c (nbDb s)))"
      using config_NEW_TASK_adds [OF assms(4)] assms(6) by (simp add: NEW_TASK)
    with assms(2) r show ?thesis
      by (auto simp: NEW_TASK handle_config_def host_draws_def split: prod.splits task_end.splits)
  qed
  then show "adds_only env c (config_draws m) (host_draws m) (nbDb s) (nbDb s')" "nbClients s' = nbClients s"
    "e = Ends \<or> e = Goes cid \<or> e = Fails cid \<or> e = Panics" by blast+
qed

definition all_draws :: "(config_msg \<Rightarrow> nat) \<Rightarrow> config_msg list \<Rightarrow> nat" where
  "all_draws f ms = sum_list (map f ms)"

lemma getConfig_adds:
  assumes "list_all keeps_client ms" "mget (ndClients (nbDb s)) cid = Some c" "clId c = cid" "0 \<le> ndTaskInc (nbDb s)" "0 \<le> ndHostInc (nbDb s)"
    and "ndTaskInc (nbDb s) + int (all_draws config_draws ms) < 2 ^ 31 - 1" "ndHostInc (nbDb s) + int (all_draws host_draws ms) < 2 ^ 31"
    and "getConfig env md5 ms cid s = Some s'"
  shows "adds_only env c (all_draws config_draws ms) (all_draws host_draws ms) (nbDb s) (nbDb s') \<and>
    (\<forall>i. i \<noteq> cid \<longrightarrow> mget (nbClients s') i = mget (nbClients s) i)"
  using assms
proof (induction ms arbitrary: s)
  case (Cons m ms)
  obtain s1 e where h: "handle_config env md5 m cid s = (s1, e)" by fastforce
  have lim: "ndTaskInc (nbDb s) + int (config_draws m) < 2 ^ 31 - 1" "ndHostInc (nbDb s) + int (host_draws m) < 2 ^ 31"
    using Cons.prems(6,7) by (simp_all add: all_draws_def)
  have keep: "keeps_client m" using Cons.prems(1) by simp
  note one = handle_config_adds [OF keep Cons.prems(2-5) lim h]
  have mono: "adds_only env c (all_draws config_draws (m # ms)) (all_draws host_draws (m # ms)) (nbDb s) (nbDb s1)"
    using adds_only_mono [OF one(1)] by (simp add: all_draws_def)
  have del: "adds_only env c k l db (nbDb (bridge_DelClient cid s1)) = adds_only env c k l db (nbDb s1)" for k l db
    by (simp add: adds_only_def)
  consider "e = Ends" | "e = Fails cid" | "e = Panics" | (go) "e = Goes cid" using one(3) by blast
  then show ?case
  proof cases
    case go
    have inc: "ndTaskInc (nbDb s) \<le> ndTaskInc (nbDb s1)" "ndTaskInc (nbDb s1) \<le> ndTaskInc (nbDb s) + int (config_draws m)"
      "ndHostInc (nbDb s) \<le> ndHostInc (nbDb s1)" "ndHostInc (nbDb s1) \<le> ndHostInc (nbDb s) + int (host_draws m)"
      "ndClients (nbDb s1) = ndClients (nbDb s)"
      using one(1) by (simp_all add: adds_only_def grows_def)
    have "adds_only env c (all_draws config_draws ms) (all_draws host_draws ms) (nbDb s1) (nbDb s') \<and>
      (\<forall>i. i \<noteq> cid \<longrightarrow> mget (nbClients s') i = mget (nbClients s1) i)"
    proof (rule Cons.IH)
      show "getConfig env md5 ms cid s1 = Some s'" using Cons.prems(8) go h by simp
    qed (use Cons.prems inc in \<open>simp_all add: all_draws_def\<close>)
    with adds_only_trans [OF one(1)] one(2) show ?thesis by (simp add: all_draws_def)
  qed (use Cons.prems(8) h mono one(2) in \<open>auto simp: del\<close>)
qed simp

text \<open>
  After a message that fails the client is dropped, and \<^verbatim>\<open>DealBridgeTask\<close> takes away what is not kept
  in the files: \<open>trims\<close> says that rows of the client alone go, and only those.
\<close>

definition trims :: "int \<Rightarrow> NpsState \<Rightarrow> NpsState \<Rightarrow> bool" where
  "trims cid a b \<longleftrightarrow> ndClients b = ndClients a \<and> keyed tkId (ndTasks b) \<and> keyed hoId (ndHosts b) \<and>
     (\<forall>i. mget (ndTasks b) i = mget (ndTasks a) i \<and> (i \<in> set (ndRunning b) \<longleftrightarrow> i \<in> set (ndRunning a)) \<or>
        mget (ndTasks b) i = None \<and> (\<exists>t. mget (ndTasks a) i = Some t \<and> tkClient t = cid \<and> tkNoStore t)) \<and>
     (\<forall>i. mget (ndHosts b) i = mget (ndHosts a) i \<or>
        mget (ndHosts b) i = None \<and> (\<exists>h. mget (ndHosts a) i = Some h \<and> hoClient h = cid \<and> hoNoStore h))"

lemma trims_refl: "keyed tkId (ndTasks a) \<Longrightarrow> keyed hoId (ndHosts a) \<Longrightarrow> trims cid a a"
  by (simp add: trims_def)

lemma trims_task:
  "trims cid a b \<Longrightarrow> mget (ndTasks b) i = mget (ndTasks a) i \<and> (i \<in> set (ndRunning b) \<longleftrightarrow> i \<in> set (ndRunning a)) \<or>
     mget (ndTasks b) i = None \<and> (\<exists>t. mget (ndTasks a) i = Some t \<and> tkClient t = cid \<and> tkNoStore t)"
  unfolding trims_def by blast

lemma trims_host:
  "trims cid a b \<Longrightarrow> mget (ndHosts b) i = mget (ndHosts a) i \<or>
     mget (ndHosts b) i = None \<and> (\<exists>h. mget (ndHosts a) i = Some h \<and> hoClient h = cid \<and> hoNoStore h)"
  unfolding trims_def by blast

lemma trims_keyed: "trims cid a b \<Longrightarrow> keyed tkId (ndTasks b)" "trims cid a b \<Longrightarrow> keyed hoId (ndHosts b)"
  by (simp_all add: trims_def)

lemma gone_trans:
  "y = x \<and> (q \<longleftrightarrow> p) \<or> y = None \<and> (\<exists>t. x = Some t \<and> P t) \<Longrightarrow> z = y \<and> (r \<longleftrightarrow> q) \<or> z = None \<and> (\<exists>t. y = Some t \<and> P t) \<Longrightarrow>
   z = x \<and> (r \<longleftrightarrow> p) \<or> z = None \<and> (\<exists>t. x = Some t \<and> P t)"
  by auto

lemma trims_trans:
  assumes "trims cid a b" "trims cid b d" shows "trims cid a d"
proof -
  have "mget (ndTasks d) i = mget (ndTasks a) i \<and> (i \<in> set (ndRunning d) \<longleftrightarrow> i \<in> set (ndRunning a)) \<or>
      mget (ndTasks d) i = None \<and> (\<exists>t. mget (ndTasks a) i = Some t \<and> tkClient t = cid \<and> tkNoStore t)" for i
    by (rule gone_trans [OF trims_task [OF assms(1)] trims_task [OF assms(2)]])
  moreover have "mget (ndHosts d) i = mget (ndHosts a) i \<or>
      mget (ndHosts d) i = None \<and> (\<exists>h. mget (ndHosts a) i = Some h \<and> hoClient h = cid \<and> hoNoStore h)" for i
    using gone_trans [of "mget (ndHosts b) i" "mget (ndHosts a) i" True True "\<lambda>h. hoClient h = cid \<and> hoNoStore h" "mget (ndHosts d) i" True]
      trims_host [OF assms(1), of i] trims_host [OF assms(2), of i] by simp
  ultimately show ?thesis using assms unfolding trims_def by simp
qed

text \<open>A loop over ids whose rows, where there are any, may go.\<close>

lemma fold_trims:
  assumes "trims cid a db" "\<And>i d. i \<in> set is \<Longrightarrow> trims cid db d \<Longrightarrow> trims cid d (f i d)"
  shows "trims cid a (fold f is db)"
proof -
  have "trims cid db (fold f is d)" if "trims cid db d" "set js \<subseteq> set is" "js = is" for d js
    using assms(2) that(1)
  proof (induction "is" arbitrary: d)
    case (Cons i "is")
    have "trims cid db (f i d)" using trims_trans [OF Cons.prems(2) Cons.prems(1) [OF _ Cons.prems(2)]] by simp
    with Cons show ?case by simp
  qed simp
  moreover have "trims cid db db" using assms(1) by (simp add: trims_def)
  ultimately show ?thesis using trims_trans [OF assms(1)] by blast
qed

lemma mdel_absent: "mget m k = None \<Longrightarrow> mdel k m = m"
  by (induction m) (auto simp: mget_def mdel_def split: if_splits)

lemma mdel_mput: "mdel k (mput k v m) = mdel k m"
  by (induction m) (auto simp: mdel_def mput_def)

lemma server_DelTask_trims:
  assumes "keyed tkId (ndTasks d)" "keyed hoId (ndHosts d)"
    "\<And>t. mget (ndTasks d) i = Some t \<Longrightarrow> tkClient t = cid \<and> tkNoStore t"
  shows "trims cid d (server_DelTask env i d)"
proof (cases "mget (ndTasks d) i")
  case None
  then have n: "mdel i (ndTasks d) = ndTasks d" by (rule mdel_absent)
  have "server_DelTask env i d = d"
    by (auto simp: server_DelTask_def StopServer_def db_DelTask_def None n)
  with assms show ?thesis by (simp add: trims_refl)
next
  case (Some t)
  have id: "tkId t = i" by (rule keyed_mget [OF assms(1) Some])
  let ?gone = "(d\<lparr>ndRunning := removeAll i (ndRunning d)\<rparr>)\<lparr>ndTasks := mdel i (ndTasks d)\<rparr>"
  have e: "mdel i (mput i x (ndTasks d)) = mdel i (ndTasks d)" for x
    by (rule mdel_mput)
  have "server_DelTask env i d = d \<or> server_DelTask env i d = ?gone"
    by (auto simp: server_DelTask_def StopServer_def db_DelTask_def UpdateTask_def put_task_def Some id Let_def e removeAll_id)
  moreover have "trims cid d ?gone"
    using assms Some by (auto simp: trims_def gomap_simps keyed_mdel)
  ultimately show ?thesis using assms trims_refl by auto
qed

lemma DelHost_trims:
  assumes "keyed tkId (ndTasks d)" "keyed hoId (ndHosts d)"
    "\<And>h. mget (ndHosts d) i = Some h \<Longrightarrow> hoClient h = cid \<and> hoNoStore h"
  shows "trims cid d (DelHost i d)"
  using assms by (cases "mget (ndHosts d) i") (auto simp: trims_def DelHost_def gomap_simps keyed_mdel)

lemma DelTunnelAndHost_trims:
  assumes "keyed tkId (ndTasks d)" "keyed hoId (ndHosts d)"
  shows "trims cid d (DelTunnelAndHostByClientId env cid True d)"
proof -
  let ?tids = "map (\<lambda>(_, v). tkId v) (filter (\<lambda>(_, v). \<not> (True \<and> \<not> tkNoStore v) \<and> tkClient v = cid) (ndTasks d))"
  define d1 where "d1 = fold (server_DelTask env) ?tids d"
  let ?hids = "map (\<lambda>(_, v). hoId v) (filter (\<lambda>(_, v). \<not> (True \<and> \<not> hoNoStore v) \<and> hoClient v = cid) (ndHosts d1))"
  have rows: "tkClient t = cid \<and> tkNoStore t" if "i \<in> set ?tids" "mget (ndTasks d) i = Some t" for i t
  proof -
    from that(1) obtain j v where v: "(j, v) \<in> set (ndTasks d)" "tkId v = i" "tkNoStore v" "tkClient v = cid" by auto
    then have "mget (ndTasks d) j = Some v" using assms(1) by (simp add: mem_mget)
    moreover from this have "j = i" using keyed_mget [OF assms(1)] v(2) by blast
    ultimately show ?thesis using that(2) v by simp
  qed
  have t1: "trims cid d d1"
    unfolding d1_def
  proof (rule fold_trims [OF trims_refl [OF assms]])
    fix i e assume i: "i \<in> set ?tids" and e: "trims cid d e"
    have "tkClient t = cid \<and> tkNoStore t" if "mget (ndTasks e) i = Some t" for t
      using trims_task [OF e, of i] that by (intro rows [OF i]) auto
    then show "trims cid e (server_DelTask env i e)" by (rule server_DelTask_trims [OF trims_keyed [OF e]])
  qed
  then have k: "keyed hoId (ndHosts d1)" by (simp add: trims_def)
  have rows: "hoClient h = cid \<and> hoNoStore h" if "i \<in> set ?hids" "mget (ndHosts d1) i = Some h" for i h
  proof -
    from that(1) obtain j v where v: "(j, v) \<in> set (ndHosts d1)" "hoId v = i" "hoNoStore v" "hoClient v = cid" by auto
    then have "mget (ndHosts d1) j = Some v" using k by (simp add: mem_mget)
    moreover from this have "j = i" using keyed_mget [OF k] v(2) by blast
    ultimately show ?thesis using that(2) v by simp
  qed
  have "trims cid d (fold DelHost ?hids d1)"
  proof (rule fold_trims [OF t1])
    fix i e assume i: "i \<in> set ?hids" and e: "trims cid d1 e"
    have "hoClient h = cid \<and> hoNoStore h" if "mget (ndHosts e) i = Some h" for h
      using trims_host [OF e, of i] that by (intro rows [OF i]) auto
    then show "trims cid e (DelHost i e)" by (rule DelHost_trims [OF trims_keyed [OF e]])
  qed
  then show ?thesis by (simp add: DelTunnelAndHostByClientId_def Let_def d1_def)
qed

lemma deal_close_effect:
  assumes "keyed tkId (ndTasks (nbDb s))" "keyed hoId (ndHosts (nbDb s))"
  shows "\<exists>db. trims cid (nbDb s) db \<and> nbClients (deal_close env cid s) = nbClients s \<and>
    ndTasks (nbDb (deal_close env cid s)) = ndTasks db \<and> ndHosts (nbDb (deal_close env cid s)) = ndHosts db \<and>
    ndRunning (nbDb (deal_close env cid s)) = ndRunning db \<and>
    (\<forall>i. mget (ndClients (nbDb (deal_close env cid s))) i =
       (if i = cid \<and> (\<exists>c. mget (ndClients (nbDb s)) cid = Some c \<and> clNoStore c) then None else mget (ndClients (nbDb s)) i))"
  using DelTunnelAndHost_trims [OF assms, of cid env]
  by (intro exI [of _ "DelTunnelAndHostByClientId env cid True (nbDb s)"])
    (auto simp: deal_close_def Let_def DelClient_def gomap_simps split: option.split)

lemma getConfig_closing:
  assumes "nbClosing s = []" "list_all keeps_client ms" "getConfig env md5 ms cid s = Some s'"
  shows "nbClosing s' = [] \<or> nbClosing s' = [cid] \<and> mget (nbClients s') cid = None"
  using assms
proof (induction ms arbitrary: s)
  case (Cons m ms)
  obtain s1 e where h: "handle_config env md5 m cid s = (s1, e)" by fastforce
  have keep: "nbClosing s1 = [] \<and> (e = Ends \<or> e = Goes cid \<or> e = Fails cid \<or> e = Panics)"
    using h Cons.prems(1,2)
    by (cases m) (auto simp: handle_config_def keeps_client_def split: option.splits prod.splits task_end.splits if_splits)
  have "nbClosing (bridge_DelClient cid s1) = [] \<or> nbClosing (bridge_DelClient cid s1) = [cid]"
    using keep by (auto simp: bridge_DelClient_def Let_def split: option.split)
  with keep h Cons show ?case by auto
qed simp



section \<open>Where the configuration connection reaches further\<close>

definition demo_bridge_env :: NpsEnv where
  "demo_bridge_env = \<lparr>neAllowed = [], nePortFree = \<lambda>_ _. True, neCloses = \<lambda>_. True, neVkeys = []\<rparr>"

definition demo_client :: "int \<Rightarrow> string \<Rightarrow> string \<Rightarrow> NpsClient" where
  "demo_client i key pool = (make_NpsClient key False False)\<lparr>clId := i, clPortPool := pool, clConfigConnAllow := True, clMaxTunnelNum := 1\<rparr>"

definition demo_bridge :: NpsBridge where
  "demo_bridge =
     \<lparr>nbDb = \<lparr>ndClients = [(1, demo_client 1 ''k1'' ''7000''), (3, demo_client 3 ''k3'' ''9000-9001'')], ndTasks = [], ndHosts = [],
        ndClientInc = 3, ndTaskInc = 4, ndHostInc = 0, ndRunning = [], ndBridge = Some [(1, ''v''), (3, ''v'')]\<rparr>,
      nbClients = [(1, bridge_client (Some 0) MuxOpen NoMux ''v''), (3, bridge_client (Some 1) NoMux NoMux ''v'')],
      nbWatch = [(1, 0), (3, 1)], nbRegister = [], nbClosing = [], nbNext = 2\<rparr>"

definition demo_task :: "string \<Rightarrow> TaskInfo" where
  "demo_task ports = \<lparr>tiMode = ''tcp'', tiPorts = ports, tiTargetStr = Some ''80'', tiTargetAddr = [], tiRemark = ''r'', tiPassword = []\<rparr>"

text \<open>A configuration replaces the row of any client whose id it names, with a pool of its own choice.\<close>

lemma configuration_takes_over_client:
  "map_option (\<lambda>s. map (\<lambda>(i, c). (i, clVerifyKey c, clPortPool c)) (ndClients (nbDb s)))
     (getConfig demo_bridge_env md5 [NEW_CONF (make_NpsClient ''mine'' False False \<lparr>clId := 1\<rparr>), NEW_TASK (demo_task ''22'')] 3 demo_bridge) =
   Some [(1, ''mine'', []), (3, ''k3'', ''9000-9001'')]"
  "map_option (\<lambda>s. map (\<lambda>(_, t). (tkClient t, tkPort t)) (ndTasks (nbDb s)))
     (getConfig demo_bridge_env md5 [NEW_CONF (make_NpsClient ''mine'' False False \<lparr>clId := 1\<rparr>), NEW_TASK (demo_task ''22'')] 3 demo_bridge) =
   Some [(1, 22)]"
  by code_simp+

text \<open>The limit on tunnels holds for tasks but not for hosts.\<close>

lemma hosts_ignore_limit:
  "map_option (\<lambda>s. (length (ndTasks (nbDb s)), GetTunnelNum 3 (nbDb s)))
     (getConfig demo_bridge_env md5 [NEW_TASK (demo_task ''9000''), NEW_HOST (zero_Host\<lparr>hoHost := ''a.io''\<rparr>), NEW_TASK (demo_task ''9001''),
        NEW_HOST (zero_Host\<lparr>hoHost := ''b.io''\<rparr>)] 3 demo_bridge) = Some (1, 2)"
  by code_simp

text \<open>A message without a target ends the process.\<close>

lemma task_without_target_panics:
  "getConfig demo_bridge_env md5 [NEW_TASK ((demo_task ''9000'')\<lparr>tiTargetStr := None\<rparr>)] 3 demo_bridge = None"
  by code_simp

text \<open>The goroutine of an earlier signal connection removes the client that has connected again.\<close>

lemma earlier_watcher_removes_client:
  "mget (nbClients (health_ends (3, 1) (fst (typeDeal 0 WORK_MAIN [] 3 ''v'' demo_bridge)))) 3 = None"
  by code_simp

section \<open>Concrete inputs\<close>

theorem idle_client_reaped_witness:
  "mget (nbClients (ping (ping (ping demo_bridge)))) 1 \<noteq> None \<and> mget (nbClients (ping (ping (ping demo_bridge)))) 3 = None \<and>
   3 \<in> set (nbClosing (ping (ping (ping demo_bridge))))"
proof -
  have w: "mwf (nbClients demo_bridge)" by (simp add: demo_bridge_def mwf_def)
  have r: "0 \<le> bcRetry b" if "mget (nbClients demo_bridge) i = Some b" for i b
    using mget_Some_mem [OF that] by (auto simp: demo_bridge_def bridge_client_def)
  have b: "mget (nbClients demo_bridge) 1 = Some (bridge_client (Some 0) MuxOpen NoMux ''v'')"
    "mget (nbClients demo_bridge) 3 = Some (bridge_client (Some 1) NoMux NoMux ''v'')"
    "mget (ndClients (nbDb demo_bridge)) 3 = Some (demo_client 3 ''k3'' ''9000-9001'')"
    by (simp_all add: demo_bridge_def mget_def)
  have "\<not> clNoDisplay (demo_client 3 ''k3'' ''9000-9001'')" by (simp add: demo_client_def make_NpsClient_def)
  with idle_client_reaped [OF w r, where cid = 1] idle_client_reaped [OF w r, where cid = 3] show ?thesis
    by (simp add: b bridge_client_def)
qed



end
