(* ===== verification/NpsComposed.thy ===== *)
theory NpsComposed
  imports NpsLimits NpsServe ControlTraffic
begin

text \<open>
  The control program and the nps server together: what the routing and the limits of nps
  (\<^verbatim>\<open>GetInfoByHost\<close>, \<^verbatim>\<open>CheckFlowAndConnNum\<close>) make of the rows that a
  synchronisation (\<^verbatim>\<open>SyncNPSState\<close>) has written, and what the control program charges for
  the bytes that nps has counted.
\<close>

section \<open>A request for the domain of a tunnel\<close>

lemma GetIpByAddr_name:
  assumes "CHR '':'' \<notin> set d" "CHR ''['' \<notin> set d" "CHR ''['' \<notin> set p"
  shows "GetIpByAddr d = d" "GetIpByAddr (d @ CHR '':'' # p) = d"
  using assms by (simp_all add: GetIpByAddr_def contains_single split_on_single split_on_append)

lemma host_of_remark:
  assumes real: "tunnels_realised us ts db" and only: "nothing_else_managed us ts db"
    and v: "mget (ndHosts db) i = Some v" "managed (hoRemark v)"
  obtains t d cid where "t \<in> set ts" "nps_tunnel us t" "web_tunnel t" "d \<in> set (tDomains t)" "fronts t cid d v"
proof -
  obtain t where t: "t \<in> set ts" "nps_tunnel us t" "web_tunnel t" "hoRemark v \<in> set (host_remarks t)"
    using only v unfolding nothing_else_managed_def by blast
  then obtain d where d: "d \<in> set (tDomains t)" "hoRemark v = managedNPSHostRemark (tID t) d" by (auto simp: host_remarks_def)
  obtain cid j h where h: "mget (ndHosts db) j = Some h" "fronts t cid d h"
    using real t d(1) unfolding tunnels_realised_def by (metis (no_types, lifting))
  then have "hoRemark h = hoRemark v" using d(2) by (simp add: fronts_def)
  moreover have "remarks_ok hoRemark (ndHosts db)" using only by (simp add: nothing_else_managed_def)
  ultimately have "i = j" using v h(1) unfolding remarks_ok_def by metis
  then have "v = h" using v(1) h(1) by simp
  with t d(1) h(2) that show thesis by blast
qed

lemma fronts_match:
  assumes "fronts t cid d v" "web_tunnel t" "CHR ''*'' \<notin> set d" "scheme = ''http'' \<or> scheme = ''https''"
  shows "host_matches name scheme v \<longleftrightarrow> d = name \<and> tMode t = scheme" "with_location v = v" "admits (CHR ''/'' # uri) v"
  using assms by (auto simp: fronts_def host_matches_def web_tunnel_def contains_single with_location_def admits_def has_prefix_def)

text \<open>C29. After a synchronisation without error a request for a domain of an enabled web tunnel, with or without a port
  and for any path, reaches the host of that tunnel, with its target and the client of its user, whatever the order of
  the table. It takes that no two tunnels of one mode share a domain (which the control database guarantees), that no
  domain is a wildcard, and that no host added by hand answers for that name.\<close>

theorem synced_domain_routes:
  assumes "SyncNPSState env us ts (Some db) = (Some db', None)" "nps_ok db" "nps_room db us ts" "sync_inputs us ts"
    and t: "t \<in> set ts" "nps_tunnel us t" "web_tunnel t" "d \<in> set (tDomains t)" "CHR ''['' \<notin> set d"
    and alone: "\<And>t' d'. t' \<in> set ts \<Longrightarrow> tMode t' = tMode t \<Longrightarrow> d' \<in> set (tDomains t') \<Longrightarrow> d' = d \<Longrightarrow> t' = t"
    and plain: "\<And>t' d'. t' \<in> set ts \<Longrightarrow> d' \<in> set (tDomains t') \<Longrightarrow> CHR ''*'' \<notin> set d'"
    and foreign: "\<And>i h. mget (ndHosts db') i = Some h \<Longrightarrow> managed (hoRemark h) \<or> \<not> host_matches d (tMode t) h"
    and rq: "hqHost rq = d \<or> hqHost rq = d @ '':'' @ itoa port" "hqScheme rq = tMode t" "hqURI rq = CHR ''/'' # path" "port_ok port"
  shows "\<exists>cid c h. snd (GetInfoByHost rq db') = Some h \<and> fronts t cid d h \<and>
    mget (ndClients db') cid = Some c \<and> clWebUserName c = tUserName t"
proof -
  have real: "tunnels_realised us ts db'" and only: "nothing_else_managed us ts db'" using tunnels_of_a_run [OF assms(1-4)] by blast+
  obtain cid c i h where h: "mget (ndClients db') cid = Some c" "clWebUserName c = tUserName t" "mget (ndHosts db') i = Some h" "fronts t cid d h"
    using real t unfolding tunnels_realised_def by (metis (no_types, lifting))
  have mode: "tMode t = ''http'' \<or> tMode t = ''https''" using t(3) by (simp add: web_tunnel_def)
  have "CHR '':'' \<notin> set d" using assms(4) t by (auto simp: sync_inputs_def list_all_iff clean_domains_def)
  then have name: "GetIpByAddr (hqHost rq) = d"
    using rq(1) GetIpByAddr_name [OF _ t(5), of "itoa port"] bracket_notin_itoa [OF rq(4)] by auto
  note mine = fronts_match [OF h(4) t(3) plain [OF t(1,4)] mode]
  have here: "h \<in> snd ` set (ndHosts db')" using mget_Some_mem [OF h(3)] by (force simp: image_iff)
  have unique: "v = h" if v: "v \<in> snd ` set (ndHosts db')" "host_matches d (tMode t) v" for v
  proof -
    have wf: "mwf (ndHosts db')" using synced_hosts_wf [OF assms(1-4)] .
    from v(1) obtain j where j: "mget (ndHosts db') j = Some v" using mem_mget [OF wf] by auto
    have "managed (hoRemark v)" using foreign [OF j] v(2) by blast
    then obtain t' d' cid' where t': "t' \<in> set ts" "web_tunnel t'" "d' \<in> set (tDomains t')" "fronts t' cid' d' v"
      using host_of_remark [OF real only j] by metis
    from fronts_match(1) [OF t'(4,2) plain [OF t'(1,3)] mode] v(2) have "d' = d" "tMode t' = tMode t" by blast+
    with alone [OF t'(1)] t'(3) have "t' = t" by blast
    with t'(4) \<open>d' = d\<close> h(4) have "hoRemark v = hoRemark h" by (simp add: fronts_def)
    then have "j = i" using only j h(3) \<open>managed (hoRemark v)\<close> unfolding nothing_else_managed_def remarks_ok_def by metis
    with j h(3) show ?thesis by simp
  qed
  have "snd (GetInfoByHost rq db') = Some h"
  proof (cases "snd (GetInfoByHost rq db')")
    case None
    from GetInfoByHost_spec [OF this] here mine show ?thesis by (auto simp: name rq)
  next
    case (Some r)
    from GetInfoByHost_spec [OF this] obtain v where "v \<in> snd ` set (ndHosts db')" "host_matches d (tMode t) v" "r = with_location v"
      by (auto simp: name rq)
    with unique mine(2) Some show ?thesis by simp
  qed
  with h show ?thesis by blast
qed

section \<open>The flow limit of a user\<close>

text \<open>The synchronisation stores the limit in bytes, and nps reads it as a number of units of 2^20 bytes.\<close>

lemma flow_exceeded_limit:
  assumes "flFlowLimit fl = wrap64 (G * 1024 * 1024 * 1024)" "0 \<le> flInletFlow fl" "0 \<le> flExportFlow fl"
    "flInletFlow fl + flExportFlow fl < 2 ^ 63"
  shows "0 < G \<Longrightarrow> G < 2 ^ 13 \<Longrightarrow> flow_exceeded fl \<longleftrightarrow> G * 2 ^ 50 < flInletFlow fl + flExportFlow fl"
    "2 ^ 13 \<le> G \<Longrightarrow> G < 2 ^ 14 \<Longrightarrow> flow_exceeded fl"
proof -
  have s: "wrap64 (flExportFlow fl + flInletFlow fl) = flInletFlow fl + flExportFlow fl" using assms(2-4) by (simp add: int64_def add.commute)
  { assume g: "0 < G" "G < 2 ^ 14"
    then have "flFlowLimit fl = G * 2 ^ 30" using assms(1) by (simp add: int64_def)
    with g have l: "flFlowLimit fl * 2 ^ 20 = G * 2 ^ 50" "0 < flFlowLimit fl" by simp_all
    have "flow_exceeded fl \<longleftrightarrow> wrap64 (G * 2 ^ 50) < flInletFlow fl + flExportFlow fl"
      unfolding flow_exceeded_def s l(1) using l(2) by simp
  } note e = this
  show "flow_exceeded fl \<longleftrightarrow> G * 2 ^ 50 < flInletFlow fl + flExportFlow fl" if g: "0 < G" "G < 2 ^ 13"
  proof -
    have "wrap64 (G * 2 ^ 50) = G * 2 ^ 50" using g by (intro wrap64_id) (simp add: int64_def)
    with e g show ?thesis by simp
  qed
  show "flow_exceeded fl" if g: "2 ^ 13 \<le> G" "G < 2 ^ 14"
  proof -
    have "wrap64 (G * 2 ^ 50) = G * 2 ^ 50 - 2 ^ 64"
    proof -
      have "G * 2 ^ 50 + 2 ^ 63 = (G * 2 ^ 50 - 2 ^ 63) + 1 * 2 ^ 64" by simp
      moreover have "((G * 2 ^ 50 - 2 ^ 63) + 1 * 2 ^ 64) mod 2 ^ 64 = G * 2 ^ 50 - 2 ^ 63"
        unfolding mod_mult_self1 using g by (intro mod_pos_pos_trivial) simp_all
      ultimately show ?thesis unfolding wrap64_def by (simp add: add.commute)
    qed
    with e g assms(2,3) show ?thesis by simp
  qed
qed

text \<open>A flow limit of G gigabytes does not become a limit of G gigabytes in nps. After a synchronisation without error the
  client of the user is refused only when it has moved more than G * 2^50 bytes, 2^20 times the limit at which the
  control program disables the user; from 2^13 gigabytes on, up to 2^14, the product wraps around and nps
  refuses every connection, even when nothing has been moved.\<close>

theorem synced_flow_limit:
  assumes "SyncNPSState env us ts (Some db) = (Some db', None)" "nps_ok db" "nps_room db us ts" "sync_inputs us ts"
    and u: "u \<in> set us" "nps_user u" "0 < uFlowLimit u" "uFlowLimit u < 2 ^ 14" "0 \<le> i" "0 \<le> e" "i + e < 2 ^ 63"
  shows "\<exists>cid c fl. mget (ndClients db') cid = Some c \<and> serves u c \<and> clFlow c = Some fl \<and>
    (let used = c\<lparr>clFlow := Some (fl\<lparr>flInletFlow := i, flExportFlow := e\<rparr>)\<rparr> in
      (uFlowLimit u < 2 ^ 13 \<longrightarrow> (snd (CheckFlowAndConnNum used) = Some TrafficExceeded \<longleftrightarrow> uFlowLimit u * 2 ^ 50 < i + e)) \<and>
      (2 ^ 13 \<le> uFlowLimit u \<longrightarrow> snd (CheckFlowAndConnNum used) = Some TrafficExceeded)) \<and>
    (uEnabled (charge_user i e (u\<lparr>uFlowUsed := 0\<rparr>)) \<longleftrightarrow> i + e < uFlowLimit u * 2 ^ 30)"
proof -
  obtain cid c where c: "mget (ndClients db') cid = Some c" "serves u c" using clients_of_a_run [OF assms(1-4)] u(1,2) by blast
  then obtain fl where fl: "clFlow c = Some fl" "flFlowLimit fl = wrap64 (uFlowLimit u * 1024 * 1024 * 1024)"
    by (auto simp: serves_def)
  define f where "f = fl\<lparr>flInletFlow := i, flExportFlow := e\<rparr>"
  have f: "flFlowLimit f = wrap64 (uFlowLimit u * 1024 * 1024 * 1024)" "0 \<le> flInletFlow f" "0 \<le> flExportFlow f" "flInletFlow f + flExportFlow f < 2 ^ 63"
    using fl(2) u by (simp_all add: f_def)
  note lim = flow_exceeded_limit [OF f]
  have chk: "snd (CheckFlowAndConnNum (c\<lparr>clFlow := Some f\<rparr>)) = Some TrafficExceeded \<longleftrightarrow> flow_exceeded f"
    by (auto simp: CheckFlowAndConnNum_def split: prod.splits bool.splits)
  have "uEnabled u" using u(2) by (simp add: nps_user_def)
  moreover have "wrap64 (uFlowLimit u * 1024 * 1024 * 1024) = uFlowLimit u * 2 ^ 30" "wrap64 (i + e) = i + e" "wrap64 i = i"
    using u(3-7) by (simp_all add: int64_def)
  ultimately have "uEnabled (charge_user i e (u\<lparr>uFlowUsed := 0\<rparr>)) \<longleftrightarrow> i + e < uFlowLimit u * 2 ^ 30"
    using u(3) by (simp add: charge_user_def Let_def zero_User_def not_le)
  with c fl(1) chk lim u(3,4) show ?thesis unfolding Let_def f_def [symmetric]
    by (intro exI [of _ cid] exI [of _ c] exI [of _ fl]) (auto simp: f_def)
qed

text \<open>Every byte that nps copies counts as incoming and as outgoing, and the control program adds the two.\<close>

lemma bytes_charged_twice:
  assumes "0 < n" "n < 2 ^ 62"
  shows "uFlowUsed (charge_user (flInletFlow (fst (CopyBuffer [n] zero_Flow))) (flExportFlow (fst (CopyBuffer [n] zero_Flow))) (u\<lparr>uFlowUsed := 0\<rparr>)) = 2 * n"
  using assms by (simp add: charge_user_fields zero_Flow_def Flow_Add_def flow_exceeded_def int64_def Let_def)

section \<open>Concrete inputs\<close>

theorem synced_domain_routes_witness:
  "\<exists>h. snd (GetInfoByHost \<lparr>hqHost = ''b.io:443'', hqScheme = ''https'', hqURI = ''/x''\<rparr> demo_synced) = Some h \<and> hoTarget h = ''127.0.0.1:443''"
proof -
  let ?t = "demo_nps_tunnels ! 1" and ?rq = "\<lparr>hqHost = ''b.io:443'', hqScheme = ''https'', hqURI = ''/x''\<rparr>"
  have m: "managed (hoRemark h)" if "mget (ndHosts demo_synced) i = Some h" for i h
  proof -
    have "hoRemark h \<in> set (map (hoRemark \<circ> snd) (ndHosts demo_synced))" using mget_Some_mem [OF that] by force
    then show ?thesis unfolding demo_synced_rows by (auto simp: managed_def has_prefix_def)
  qed
  have dom: "t' = demo_nps_tunnels ! 1 \<and> (d' = ''a.io'' \<or> d' = ''b.io'')" if "t' \<in> set demo_nps_tunnels" "d' \<in> set (tDomains t')" for t' d'
    using that by (auto simp: demo_nps_tunnels_def zero_Tunnel_def)
  have t: "?t \<in> set demo_nps_tunnels" "''b.io'' \<in> set (tDomains ?t)" "tMode ?t = ''https''" by (simp_all add: demo_nps_tunnels_def)
  have w: "nps_tunnel demo_nps_users ?t" "web_tunnel ?t" "tunnel_target ?t = ''127.0.0.1:443''" by code_simp+
  have p: "itoa 443 = ''443''" "port_ok 443" by (code_simp, simp add: port_ok_def)
  have "\<exists>cid c h. snd (GetInfoByHost ?rq demo_synced) = Some h \<and> fronts ?t cid ''b.io'' h \<and>
      mget (ndClients demo_synced) cid = Some c \<and> clWebUserName c = tUserName ?t"
  proof (rule synced_domain_routes [OF demo_sync demo_sync_pre t(1) w(1,2) t(2), where rq = ?rq and port = 443 and path = "''x''"])
    show "t' = ?t" if "t' \<in> set demo_nps_tunnels" "d' \<in> set (tDomains t')" for t' d' using dom [OF that] by blast
    show "CHR ''*'' \<notin> set d'" if "t' \<in> set demo_nps_tunnels" "d' \<in> set (tDomains t')" for t' d' using dom [OF that] by auto
  qed (use m p t in \<open>simp_all\<close>)
  then show ?thesis using w(3) by (auto simp: fronts_def)
qed

theorem synced_flow_limit_witness:
  "\<exists>db' c. SyncNPSState demo_nps_env (map (\<lambda>u. u\<lparr>uFlowLimit := 5\<rparr>) demo_nps_users) demo_nps_tunnels (Some demo_nps) = (Some db', None) \<and>
     serves ((hd demo_nps_users)\<lparr>uFlowLimit := 5\<rparr>) c \<and> snd (CheckFlowAndConnNum (c\<lparr>clFlow := map_option (\<lambda>fl. fl\<lparr>flInletFlow := 6 * 2 ^ 30, flExportFlow := 0\<rparr>) (clFlow c)\<rparr>)) \<noteq> Some TrafficExceeded"
proof -
  let ?us = "map (\<lambda>u. u\<lparr>uFlowLimit := 5\<rparr>) demo_nps_users" and ?u = "(hd demo_nps_users)\<lparr>uFlowLimit := 5\<rparr>"
  have "snd (SyncNPSState demo_nps_env ?us demo_nps_tunnels (Some demo_nps)) = None" "fst (SyncNPSState demo_nps_env ?us demo_nps_tunnels (Some demo_nps)) \<noteq> None"
    by code_simp+
  then obtain db' where s: "SyncNPSState demo_nps_env ?us demo_nps_tunnels (Some demo_nps) = (Some db', None)" by (auto simp: prod_eq_iff)
  have p: "nps_room demo_nps ?us demo_nps_tunnels" "sync_inputs ?us demo_nps_tunnels" "nps_user ?u" by code_simp+
  have u: "?u \<in> set ?us" "uFlowLimit ?u = 5" by (simp_all add: demo_nps_users_def)
  from synced_flow_limit [OF s demo_sync_pre(1) p(1,2) u(1) p(3), of "6 * 2 ^ 30" 0] u(2) s show ?thesis
    by (auto simp: Let_def)
qed


end
