(* ===== verification/NpsQueue.thy ===== *)
theory NpsQueue
  imports Main "HOL-Library.Word"
begin

text \<open>
  The queues of the nps multiplexer (\<^verbatim>\<open>upstream/NPS/lib/nps_mux/queue.go\<close>): ring buffers with packed
  indexes, chains of them that grow, and the priority queue of the packets to be written. An operation is one
  step, so the retries of the atomic updates and the hints for the scheduler are left out. The chains are
  used through the interface \<open>fifo_queue\<close>.
\<close>

unbundle bit_operations_syntax

type_synonym u8 = "8 word"
type_synonym u16 = "16 word"
type_synonym u32 = "32 word"
type_synonym u64 = "64 word"

section \<open>The interface of a queue\<close>

text \<open>The result of taking: nothing there, a value, or a slot without a value, for which the source waits in a loop.\<close>

datatype 'a pop = Empty | Spin | Got 'a

datatype 'a queue_op = Push 'a | Pop

fun run_queue :: "('a \<Rightarrow> 'q \<Rightarrow> 'q) \<Rightarrow> ('q \<Rightarrow> 'q \<times> 'a pop) \<Rightarrow> 'a queue_op list \<Rightarrow> 'q \<Rightarrow> 'q \<times> 'a pop list" where
  "run_queue enq deq [] q = (q, [])"
| "run_queue enq deq (Push x # ops) q = run_queue enq deq ops (enq x q)"
| "run_queue enq deq (Pop # ops) q = (case deq q of (q', r) \<Rightarrow> (case run_queue enq deq ops q' of (q'', rs) \<Rightarrow> (q'', r # rs)))"

text \<open>The queue as a list.\<close>

definition list_enq :: "'a \<Rightarrow> 'a list \<Rightarrow> 'a list" where
  "list_enq x xs = xs @ [x]"

definition list_deq :: "'a list \<Rightarrow> 'a list \<times> 'a pop" where
  "list_deq xs = (case xs of [] \<Rightarrow> ([], Empty) | x # xs \<Rightarrow> (xs, Got x))"

locale fifo_queue =
  fixes enq :: "'a \<Rightarrow> 'q \<Rightarrow> 'q"
    and deq :: "'q \<Rightarrow> 'q \<times> 'a pop"
    and contents :: "'q \<Rightarrow> 'a list"
    and ok :: "'q \<Rightarrow> bool"
  assumes ok_enq: "ok q \<Longrightarrow> ok (enq x q)"
    and contents_enq: "ok q \<Longrightarrow> contents (enq x q) = contents q @ [x]"
    and ok_deq: "ok q \<Longrightarrow> ok (fst (deq q))"
    and contents_deq: "ok q \<Longrightarrow> (contents (fst (deq q)), snd (deq q)) = list_deq (contents q)"
begin

lemma deq_Empty: "ok q \<Longrightarrow> contents q = [] \<Longrightarrow> snd (deq q) = Empty \<and> contents (fst (deq q)) = []"
  using contents_deq [of q] by (simp add: list_deq_def)

lemma deq_Got: "ok q \<Longrightarrow> contents q = x # xs \<Longrightarrow> snd (deq q) = Got x \<and> contents (fst (deq q)) = xs"
  using contents_deq [of q] by (simp add: list_deq_def)

lemma deq_pair:
  "ok q \<Longrightarrow> deq q = (q', r) \<Longrightarrow> ok q' \<and>
    (case contents q of [] \<Rightarrow> r = Empty \<and> contents q' = [] | x # xs \<Rightarrow> r = Got x \<and> contents q' = xs)"
  using ok_deq [of q] contents_deq [of q] by (simp add: list_deq_def split: list.splits)

lemma run_refines:
  "ok q \<Longrightarrow> ok (fst (run_queue enq deq ops q)) \<and> contents (fst (run_queue enq deq ops q)) = fst (run_queue list_enq list_deq ops (contents q)) \<and>
    snd (run_queue enq deq ops q) = snd (run_queue list_enq list_deq ops (contents q))"
proof (induction ops arbitrary: q)
  case (Cons c ops)
  show ?case
  proof (cases c)
    case (Push x)
    with Cons.IH [of "enq x q"] Cons.prems show ?thesis by (simp add: ok_enq contents_enq list_enq_def)
  next
    case Pop
    obtain q' r where d: "deq q = (q', r)" by fastforce
    have "list_deq (contents q) = (contents q', r)" "ok q'" using contents_deq [OF Cons.prems] ok_deq [OF Cons.prems] d by simp_all
    with Cons.IH [of q'] show ?thesis by (auto simp: Pop d split: prod.splits)
  qed
qed simp

end

section \<open>Packed indexes\<close>

definition dq_unpack :: "u64 \<Rightarrow> u32 \<times> u32" where
  "dq_unpack ptrs = (ucast (drop_bit 32 ptrs AND mask 32), ucast (ptrs AND mask 32))"

definition dq_pack :: "u32 \<Rightarrow> u32 \<Rightarrow> u64" where
  "dq_pack head tail = push_bit 32 (ucast head) OR ucast (tail AND mask 32)"

section \<open>The ring buffer\<close>

record 'a bufDequeue =
  dqHeadTail :: u64
  dqVals :: "'a option list"

definition dq_slot :: "u32 \<Rightarrow> 'a bufDequeue \<Rightarrow> nat" where
  "dq_slot i d = unat (i AND of_nat (length (dqVals d) - 1))"

definition dq_pushHead :: "'a \<Rightarrow> 'a bufDequeue \<Rightarrow> 'a bufDequeue \<times> bool" where
  "dq_pushHead v d =
     (let (head, tail) = dq_unpack (dqHeadTail d) in
      if (tail + of_nat (length (dqVals d))) AND mask 32 = head then (d, False)
      else (d\<lparr>dqHeadTail := dq_pack (head + 1) tail, dqVals := (dqVals d)[dq_slot head d := Some v]\<rparr>, True))"

definition dq_popTail :: "'a bufDequeue \<Rightarrow> 'a bufDequeue \<times> 'a pop" where
  "dq_popTail d =
     (let (head, tail) = dq_unpack (dqHeadTail d) in
      if tail = head then (d, Empty)
      else (case dqVals d ! dq_slot tail d of
          None \<Rightarrow> (d, Spin)
        | Some v \<Rightarrow>
            (d\<lparr>dqVals := (dqVals d)[dq_slot tail d := None],
               dqHeadTail := (if tail < 0xFFFFFFFF then dqHeadTail d + 1 else dqHeadTail d + NOT (0xFFFFFFFF - 1))\<rparr>, Got v)))"

section \<open>The chain\<close>

text \<open>The dequeues from the oldest, which values are taken from, to the newest, which they are put in.\<close>

type_synonym 'a bufChain = "'a bufDequeue list"

definition dequeueLimit :: nat where
  "dequeueLimit = 2 ^ 32 div 4"

definition new_dequeue :: "nat \<Rightarrow> 'a bufDequeue" where
  "new_dequeue n = \<lparr>dqHeadTail = 0, dqVals = replicate n None\<rparr>"

definition new_chain :: "nat \<Rightarrow> 'a bufChain" where
  "new_chain initSize = [new_dequeue initSize]"

definition chain_pushHead :: "'a \<Rightarrow> 'a bufChain \<Rightarrow> 'a bufChain" where
  "chain_pushHead v c =
     (case dq_pushHead v (last c) of
        (d, True) \<Rightarrow> butlast c @ [d]
      | (d, False) \<Rightarrow>
          let n = length (dqVals d) * 2; newSize = (if dequeueLimit \<le> n then dequeueLimit else n)
          in c @ [fst (dq_pushHead v (new_dequeue newSize))])"

fun chain_popTail :: "'a bufChain \<Rightarrow> 'a bufChain \<times> 'a pop" where
  "chain_popTail [] = ([], Empty)"
| "chain_popTail (d # ds) =
     (case dq_popTail d of
        (d', Got v) \<Rightarrow> (d' # ds, Got v)
      | (d', Spin) \<Rightarrow> (d' # ds, Spin)
      | (d', Empty) \<Rightarrow> if ds = [] then ([d'], Empty) else chain_popTail ds)"

section \<open>The priority queue\<close>

type_synonym byte = u8

record muxPackager =
  mpFlag :: u8
  mpId :: u32
  mpWindow :: u64
  mpContent :: "byte list"

abbreviation muxPingFlag :: u8 where "muxPingFlag \<equiv> 0"
abbreviation muxNewConnOk :: u8 where "muxNewConnOk \<equiv> 1"
abbreviation muxNewConnFail :: u8 where "muxNewConnFail \<equiv> 2"
abbreviation muxNewMsg :: u8 where "muxNewMsg \<equiv> 3"
abbreviation muxNewMsgPart :: u8 where "muxNewMsgPart \<equiv> 4"
abbreviation muxMsgSendOk :: u8 where "muxMsgSendOk \<equiv> 5"
abbreviation muxNewConn :: u8 where "muxNewConn \<equiv> 6"
abbreviation muxConnClose :: u8 where "muxConnClose \<equiv> 7"
abbreviation muxPingReturn :: u8 where "muxPingReturn \<equiv> 8"

record priorityQueue =
  pqHighest :: "muxPackager bufChain"
  pqMiddle :: "muxPackager bufChain"
  pqLowest :: "muxPackager bufChain"
  pqStarving :: u8

definition new_priorityQueue :: priorityQueue where
  "new_priorityQueue = \<lparr>pqHighest = new_chain 4, pqMiddle = new_chain 32, pqLowest = new_chain 256, pqStarving = 0\<rparr>"

definition pq_push :: "muxPackager \<Rightarrow> priorityQueue \<Rightarrow> priorityQueue" where
  "pq_push p q =
     (if mpFlag p \<in> {muxPingFlag, muxPingReturn} then q\<lparr>pqHighest := chain_pushHead p (pqHighest q)\<rparr>
      else if mpFlag p \<in> {muxNewConn, muxNewConnOk, muxNewConnFail} then q\<lparr>pqMiddle := chain_pushHead p (pqMiddle q)\<rparr>
      else q\<lparr>pqLowest := chain_pushHead p (pqLowest q)\<rparr>)"

definition maxStarving :: u8 where
  "maxStarving = 8"

definition pq_take_middle :: "priorityQueue \<Rightarrow> priorityQueue \<times> muxPackager pop" where
  "pq_take_middle q = (case chain_popTail (pqMiddle q) of
       (c, Got p) \<Rightarrow> (q\<lparr>pqMiddle := c, pqStarving := pqStarving q + 1\<rparr>, Got p)
     | (c, r) \<Rightarrow> (q\<lparr>pqMiddle := c\<rparr>, r))"

definition pq_take_lowest :: "priorityQueue \<Rightarrow> priorityQueue \<times> muxPackager pop" where
  "pq_take_lowest q = (case chain_popTail (pqLowest q) of
       (c, Got p) \<Rightarrow> (q\<lparr>pqLowest := c, pqStarving := (if 0 < pqStarving q then pqStarving q div 2 else pqStarving q)\<rparr>, Got p)
     | (c, r) \<Rightarrow> (q\<lparr>pqLowest := c\<rparr>, r))"

text \<open>The queues are asked in turn until one has a packet.\<close>

definition or_else :: "('q \<times> 'a pop) \<Rightarrow> ('q \<Rightarrow> 'q \<times> 'a pop) \<Rightarrow> 'q \<times> 'a pop" where
  "or_else a f = (case a of (q, Empty) \<Rightarrow> f q | r \<Rightarrow> r)"

definition pq_TryPop :: "priorityQueue \<Rightarrow> priorityQueue \<times> muxPackager pop" where
  "pq_TryPop q =
     or_else (case chain_popTail (pqHighest q) of (c, r) \<Rightarrow> (q\<lparr>pqHighest := c\<rparr>, r)) (\<lambda>q.
     or_else (if pqStarving q < maxStarving then pq_take_middle q else (q, Empty)) (\<lambda>q.
     or_else (pq_take_lowest q) (\<lambda>q.
       if 0 < pqStarving q then pq_take_middle q else (q, Empty))))"

section \<open>Facts on packed indexes\<close>

lemma u32_bound: "unat (w :: u32) < 2 ^ 32"
  using unsigned_less [of w, where ?'a = nat] by simp

lemma u64_bound: "unat (w :: u64) < 2 ^ 64"
  using unsigned_less [of w, where ?'a = nat] by simp

lemma u32_mask: "(t :: u32) AND mask 32 = t"
  by (rule bit_word_eqI) (auto simp: bit_simps)

lemma unat_ucast_u64: "unat (ucast (t :: u32) :: u64) = unat t"
  using u32_bound [of t] by (simp add: unsigned_ucast_eq take_bit_nat_eq_self)

lemma unat_dq_pack: "unat (dq_pack h t) = unat h * 2 ^ 32 + unat t"
proof -
  have z: "push_bit 32 (ucast h :: u64) AND ucast t = 0"
    by (rule bit_word_eqI) (auto simp: bit_simps dest: bit_imp_le_length)
  have "dq_pack h t = push_bit 32 (ucast h) + (ucast t :: u64)"
    using word_plus_and_or [of "push_bit 32 (ucast h :: u64)" "ucast t"] z unfolding dq_pack_def u32_mask by simp
  moreover have "unat (push_bit 32 (ucast h :: u64)) = unat h * 2 ^ 32"
  proof -
    have "unat (push_bit 32 (ucast h :: u64)) = take_bit 64 (push_bit 32 (unat h))"
      using unsigned_push_bit_eq [of 32 "ucast h :: u64", where ?'a = nat] unfolding unat_ucast_u64 by simp
    then show ?thesis using u32_bound [of h] by (simp add: push_bit_eq_mult take_bit_nat_eq_self)
  qed
  ultimately show ?thesis using u32_bound [of h] u32_bound [of t] by (simp add: unat_word_ariths unat_ucast_u64)
qed

lemma dq_unpack_nat: "dq_unpack p = (of_nat (unat p div 2 ^ 32), of_nat (unat p mod 2 ^ 32))"
proof -
  have u: "ucast w = (of_nat (unat w) :: u32)" for w :: u64 by simp
  have "drop_bit 32 p AND mask 32 = drop_bit 32 p"
    by (rule bit_word_eqI) (auto simp: bit_simps dest: bit_imp_le_length)
  moreover have "unat (drop_bit 32 p) = unat p div 2 ^ 32" by (rule trans [OF unat_drop_bit_eq drop_bit_eq_div])
  moreover have "unat (p AND mask 32) = unat p mod 2 ^ 32"
    unfolding take_bit_eq_mask [symmetric] by (rule trans [OF unsigned_take_bit_eq take_bit_eq_mod])
  ultimately show ?thesis unfolding dq_unpack_def u by simp
qed

lemma dq_unpack_pack [simp]: "dq_unpack (dq_pack h t) = (h, t)"
  using u32_bound [of t] by (simp add: dq_unpack_nat unat_dq_pack)

lemma dq_advance:
  assumes "dq_unpack p = (h, t)"
  shows "dq_unpack (if t < 0xFFFFFFFF then p + 1 else p + NOT (0xFFFFFFFF - 1)) = (h, t + 1)"
proof -
  have H: "h = of_nat (unat p div 2 ^ 32)" and T: "t = of_nat (unat p mod 2 ^ 32)" using assms by (simp_all add: dq_unpack_nat)
  have t: "unat t = unat p mod 2 ^ 32" unfolding T by (simp add: unat_of_nat)
  have p: "unat p < 2 ^ 64" by (rule u64_bound)
  show ?thesis
  proof (cases "t < 0xFFFFFFFF")
    case True
    then have lt: "unat p mod 2 ^ 32 < 2 ^ 32 - 1" using t by (simp add: word_less_nat_alt)
    have le: "unat p + 1 < 2 ^ 64"
    proof (rule ccontr)
      assume "\<not> unat p + 1 < 2 ^ 64"
      with p have "unat p = 2 ^ 64 - 1" by simp
      with lt show False by simp
    qed
    then have u: "unat (p + 1) = unat p + 1" by (simp add: unat_word_ariths)
    have "(unat p + 1) div 2 ^ 32 = unat p div 2 ^ 32" "(unat p + 1) mod 2 ^ 32 = unat p mod 2 ^ 32 + 1"
      using lt by (simp_all add: div_Suc mod_Suc)
    then have "dq_unpack (p + 1) = (h, t + 1)" unfolding dq_unpack_nat u H T by simp
    with True show ?thesis by simp
  next
    case False
    then have top: "unat p mod 2 ^ 32 = 2 ^ 32 - 1"
      using t mod_less_divisor [of "2 ^ 32" "unat p"] by (simp add: word_less_nat_alt)
    then have ge: "2 ^ 32 - 1 \<le> unat p" by (metis mod_less_eq_dividend)
    have "p + NOT (0xFFFFFFFF - 1) = p - 0xFFFFFFFF" by simp
    moreover have "unat (p - 0xFFFFFFFF) = unat p - (2 ^ 32 - 1)"
      using ge by (subst unat_sub) (simp_all add: word_le_nat_alt)
    ultimately have u: "unat (p + NOT (0xFFFFFFFF - 1)) = unat p - (2 ^ 32 - 1)" by simp
    have d: "unat p = unat p div 2 ^ 32 * 2 ^ 32 + (2 ^ 32 - 1)" using top by (metis div_mult_mod_eq)
    then have "unat p - (2 ^ 32 - 1) = unat p div 2 ^ 32 * 2 ^ 32" by simp
    then have "(unat p - (2 ^ 32 - 1)) div 2 ^ 32 = unat p div 2 ^ 32" "(unat p - (2 ^ 32 - 1)) mod 2 ^ 32 = 0" by simp_all
    moreover have "t + 1 = 0" using t top by (simp add: word_unat_eq_iff unat_word_ariths)
    ultimately have "dq_unpack (p + NOT (0xFFFFFFFF - 1)) = (h, t + 1)" unfolding dq_unpack_nat u H by simp
    with False show ?thesis by simp
  qed
qed

section \<open>The ring buffer is a queue\<close>

definition dq_head :: "'a bufDequeue \<Rightarrow> u32" where "dq_head d = fst (dq_unpack (dqHeadTail d))"
definition dq_tail :: "'a bufDequeue \<Rightarrow> u32" where "dq_tail d = snd (dq_unpack (dqHeadTail d))"
definition dq_used :: "'a bufDequeue \<Rightarrow> nat" where "dq_used d = unat (dq_head d - dq_tail d)"

text \<open>The slot of the value at a place of the queue.\<close>

definition dq_at :: "'a bufDequeue \<Rightarrow> nat \<Rightarrow> nat" where
  "dq_at d i = (unat (dq_tail d) + i) mod length (dqVals d)"

definition dq_list :: "'a bufDequeue \<Rightarrow> 'a list" where
  "dq_list d = map (\<lambda>i. the (dqVals d ! dq_at d i)) [0..<dq_used d]"

definition dq_ok :: "'a bufDequeue \<Rightarrow> bool" where
  "dq_ok d \<longleftrightarrow> (\<exists>k \<le> 30. length (dqVals d) = 2 ^ k) \<and> dq_used d \<le> length (dqVals d) \<and>
     (\<forall>i < dq_used d. dqVals d ! dq_at d i \<noteq> None)"

lemma dq_unpack_eq: "dq_unpack (dqHeadTail d) = (dq_head d, dq_tail d)"
  by (simp add: dq_head_def dq_tail_def)

lemma dq_ok_length:
  assumes "dq_ok d" shows "0 < length (dqVals d)" "length (dqVals d) \<le> 2 ^ 30" "length (dqVals d) dvd 2 ^ 32"
proof -
  obtain k where k: "k \<le> 30" "length (dqVals d) = 2 ^ k" using assms unfolding dq_ok_def by blast
  then have "(2 :: nat) ^ k \<le> 2 ^ 30" "(2 :: nat) ^ k dvd 2 ^ 32" by (simp_all only: power_increasing le_imp_power_dvd)
  with k(2) show "0 < length (dqVals d)" "length (dqVals d) \<le> 2 ^ 30" "length (dqVals d) dvd 2 ^ 32" by simp_all
qed

lemma dq_slot_mod:
  assumes "dq_ok d" shows "dq_slot w d = unat w mod length (dqVals d)"
proof -
  obtain k where k: "k \<le> 30" "length (dqVals d) = 2 ^ k" using assms unfolding dq_ok_def by blast
  have "of_nat (2 ^ k - 1) = (mask k :: u32)" by (simp add: mask_eq_exp_minus_1)
  then have "dq_slot w d = unat (take_bit k w)" unfolding dq_slot_def k(2) take_bit_eq_mask by simp
  also have "\<dots> = unat w mod 2 ^ k" by (rule trans [OF unsigned_take_bit_eq take_bit_eq_mod])
  finally show ?thesis by (simp only: k(2))
qed

lemma dq_head_nat: "unat (dq_head d) = (unat (dq_tail d) + dq_used d) mod 2 ^ 32"
proof -
  have "unat (dq_tail d + (dq_head d - dq_tail d)) = (unat (dq_tail d) + unat (dq_head d - dq_tail d)) mod 2 ^ 32"
    by (subst unat_word_ariths) simp
  then show ?thesis unfolding dq_used_def by simp
qed

lemma dq_slot_head: "dq_ok d \<Longrightarrow> dq_slot (dq_head d) d = dq_at d (dq_used d)"
  unfolding dq_slot_mod dq_head_nat dq_at_def by (rule mod_mod_cancel [OF dq_ok_length(3)])

lemma dq_slot_tail: "dq_ok d \<Longrightarrow> dq_slot (dq_tail d) d = dq_at d 0"
  by (simp add: dq_slot_mod dq_at_def)

lemma dq_at_less: "dq_ok d \<Longrightarrow> dq_at d i < length (dqVals d)"
  unfolding dq_at_def by (rule mod_less_divisor [OF dq_ok_length(1)])

lemma dq_at_inj:
  assumes "i < j" "j - i < length (dqVals d)" shows "dq_at d i \<noteq> dq_at d j"
proof
  assume "dq_at d i = dq_at d j"
  then have "length (dqVals d) dvd j - i"
    using mod_eq_dvd_iff_nat [of "unat (dq_tail d) + i" "unat (dq_tail d) + j" "length (dqVals d)"] assms by (simp add: dq_at_def)
  then have "length (dqVals d) \<le> j - i" by (rule dvd_imp_le) (use assms in simp)
  with assms show False by simp
qed

lemma dq_pushHead_full:
  assumes "dq_ok d" shows "snd (dq_pushHead v d) \<longleftrightarrow> dq_used d < length (dqVals d)" "\<not> snd (dq_pushHead v d) \<Longrightarrow> fst (dq_pushHead v d) = d"
proof -
  note len = dq_ok_length [OF assms]
  have "dq_tail d + of_nat (length (dqVals d)) = dq_head d \<longleftrightarrow> of_nat (length (dqVals d)) = dq_head d - dq_tail d" by (auto simp: algebra_simps)
  also have "\<dots> \<longleftrightarrow> length (dqVals d) = dq_used d" using len(2) by (simp add: dq_used_def word_unat_eq_iff unat_of_nat)
  finally have "dq_tail d + of_nat (length (dqVals d)) = dq_head d \<longleftrightarrow> dq_used d = length (dqVals d)" by auto
  moreover have "dq_used d \<le> length (dqVals d)" using assms by (simp add: dq_ok_def)
  ultimately show "snd (dq_pushHead v d) \<longleftrightarrow> dq_used d < length (dqVals d)" "\<not> snd (dq_pushHead v d) \<Longrightarrow> fst (dq_pushHead v d) = d"
    by (auto simp: dq_pushHead_def dq_unpack_eq u32_mask split: if_splits)
qed

lemma dq_pushHead_list:
  assumes ok: "dq_ok d" and room: "dq_used d < length (dqVals d)"
  shows "dq_ok (fst (dq_pushHead v d))" "dq_list (fst (dq_pushHead v d)) = dq_list d @ [v]"
proof -
  define e where "e = fst (dq_pushHead v d)"
  have "snd (dq_pushHead v d)" using dq_pushHead_full(1) [OF ok] room by blast
  then have e: "e = d\<lparr>dqHeadTail := dq_pack (dq_head d + 1) (dq_tail d), dqVals := (dqVals d)[dq_at d (dq_used d) := Some v]\<rparr>"
    by (auto simp: e_def dq_pushHead_def dq_unpack_eq dq_slot_head [OF ok] Let_def split: if_splits)
  have t: "dq_tail e = dq_tail d" "dq_head e = dq_head d + 1" "length (dqVals e) = length (dqVals d)"
    by (simp_all add: e dq_head_def dq_tail_def)
  have "dq_head e - dq_tail e = (dq_head d - dq_tail d) + 1" by (simp add: t)
  then have used: "dq_used e = Suc (dq_used d)"
    using room dq_ok_length(2) [OF ok] unfolding dq_used_def by (simp add: unat_word_ariths)
  have at: "dq_at e i = dq_at d i" for i by (simp add: dq_at_def t)
  have vals: "dqVals e ! dq_at d i = (if i = dq_used d then Some v else dqVals d ! dq_at d i)" if "i \<le> dq_used d" for i
  proof (cases "i = dq_used d")
    case False
    with that have "dq_at d i \<noteq> dq_at d (dq_used d)" using room by (intro dq_at_inj) auto
    with False show ?thesis by (simp add: e)
  qed (simp add: e dq_at_less [OF ok])
  show "dq_ok (fst (dq_pushHead v d))" unfolding e_def [symmetric]
    using ok room vals by (auto simp: dq_ok_def t used at less_Suc_eq_le)
  show "dq_list (fst (dq_pushHead v d)) = dq_list d @ [v]" unfolding e_def [symmetric] dq_list_def used at
    using vals by simp
qed

lemma dq_popTail_list:
  assumes ok: "dq_ok d"
  shows "dq_ok (fst (dq_popTail d))" "(dq_list (fst (dq_popTail d)), snd (dq_popTail d)) = list_deq (dq_list d)"
proof -
  have "dq_ok (fst (dq_popTail d)) \<and> (dq_list (fst (dq_popTail d)), snd (dq_popTail d)) = list_deq (dq_list d)"
  proof (cases "dq_used d")
    case 0
    then have "dq_tail d = dq_head d" by (simp add: dq_used_def unat_eq_0)
    with ok 0 show ?thesis by (simp add: dq_popTail_def dq_unpack_eq dq_list_def list_deq_def)
  next
    case (Suc n)
    then have ne: "dq_tail d \<noteq> dq_head d" by (auto simp: dq_used_def)
    obtain v where v: "dqVals d ! dq_at d 0 = Some v" using ok Suc by (auto simp: dq_ok_def)
    define e where "e = fst (dq_popTail d)"
    define nx where "nx = (if dq_tail d < 0xFFFFFFFF then dqHeadTail d + 1 else dqHeadTail d + NOT (0xFFFFFFFF - 1))"
    have e: "e = d\<lparr>dqVals := (dqVals d)[dq_at d 0 := None], dqHeadTail := nx\<rparr>" and got: "snd (dq_popTail d) = Got v"
      using ne v by (simp_all add: e_def dq_popTail_def dq_unpack_eq dq_slot_tail [OF ok] nx_def)
    have "dq_unpack (dqHeadTail e) = (dq_head d, dq_tail d + 1)"
      using dq_advance [OF dq_unpack_eq [of d], folded nx_def] by (simp add: e)
    then have t: "dq_tail e = dq_tail d + 1" "dq_head e = dq_head d" "length (dqVals e) = length (dqVals d)"
      by (simp_all add: dq_head_def dq_tail_def e)
    have "dq_head e - dq_tail e = (dq_head d - dq_tail d) - 1" by (simp add: t)
    then have used: "dq_used e = n" using Suc unfolding dq_used_def by (metis diff_Suc_1 unat_minus_one unat_0 nat.distinct(1))
    have at: "dq_at e i = dq_at d (Suc i)" for i
    proof -
      have "unat (dq_tail d + 1) mod length (dqVals d) = (unat (dq_tail d) + 1) mod length (dqVals d)"
        using dq_ok_length(3) [OF ok] by (simp add: unat_word_ariths mod_mod_cancel)
      then have "(unat (dq_tail d + 1) + i) mod length (dqVals d) = (unat (dq_tail d) + 1 + i) mod length (dqVals d)"
        by (metis mod_add_left_eq)
      then show ?thesis by (simp add: dq_at_def t)
    qed
    have vals: "dqVals e ! dq_at d (Suc i) = dqVals d ! dq_at d (Suc i)" if "i < n" for i
      using that dq_at_inj [of 0 "Suc i" d] ok Suc by (auto simp: e dq_ok_def)
    have "dq_ok e" using ok vals Suc by (auto simp: dq_ok_def t used at)
    moreover have "dq_list d = v # dq_list e"
      using vals v by (simp add: dq_list_def Suc used at upt_conv_Cons map_Suc_upt [symmetric] comp_def del: upt_Suc)
    ultimately show ?thesis by (simp add: got list_deq_def e_def)
  qed
  then show "dq_ok (fst (dq_popTail d))" "(dq_list (fst (dq_popTail d)), snd (dq_popTail d)) = list_deq (dq_list d)" by blast+
qed


lemma dq_new:
  fixes d :: "'a bufDequeue"
  assumes "k \<le> 30" "d = new_dequeue (2 ^ k)" shows "dq_ok d" "dq_list d = []" "dq_used d = 0" "length (dqVals d) = 2 ^ k"
proof -
  show u: "dq_used d = 0" unfolding assms(2) by (simp add: dq_used_def dq_head_def dq_tail_def new_dequeue_def dq_unpack_def)
  show l: "length (dqVals d) = 2 ^ k" unfolding assms(2) by (simp add: new_dequeue_def)
  show "dq_ok d" "dq_list d = []"
    using assms(1) unfolding dq_ok_def dq_list_def u l by auto
qed

section \<open>The chain is a queue\<close>

definition chain_list :: "'a bufChain \<Rightarrow> 'a list" where
  "chain_list c = concat (map dq_list c)"

definition chain_ok :: "'a bufChain \<Rightarrow> bool" where
  "chain_ok c \<longleftrightarrow> c \<noteq> [] \<and> list_all dq_ok c"

lemma chain_snoc:
  assumes "chain_ok c" obtains ds d where "c = ds @ [d]" "dq_ok d" "list_all dq_ok ds"
  using assms by (cases c rule: rev_cases) (auto simp: chain_ok_def)

text \<open>A new dequeue is twice as long as the last, up to the limit, so its length stays a power of two.\<close>

lemma next_size:
  assumes "dq_ok d"
  obtains k where "k \<le> 30" "(if dequeueLimit \<le> length (dqVals d) * 2 then dequeueLimit else length (dqVals d) * 2) = 2 ^ k"
proof -
  obtain j where j: "j \<le> 30" "length (dqVals d) = 2 ^ j" using assms unfolding dq_ok_def by blast
  have lim: "dequeueLimit = 2 ^ 30" by (simp add: dequeueLimit_def)
  show thesis
  proof (cases "j \<le> 28")
    case True
    then have "(2 :: nat) ^ Suc j \<le> 2 ^ 29" by (intro power_increasing) simp_all
    with True j(2) that [of "Suc j"] show thesis by (simp add: lim)
  next
    case False
    then have "(2 :: nat) ^ 29 \<le> 2 ^ j" by (intro power_increasing) simp_all
    with j(2) that [of 30] show thesis by (simp add: lim)
  qed
qed

lemma chain_pushHead_spec:
  assumes "chain_ok c" shows "chain_ok (chain_pushHead v c)" "chain_list (chain_pushHead v c) = chain_list c @ [v]"
proof -
  obtain ds d where c: "c = ds @ [d]" "dq_ok d" "list_all dq_ok ds" using chain_snoc [OF assms] .
  have "chain_ok (chain_pushHead v c) \<and> chain_list (chain_pushHead v c) = chain_list c @ [v]"
  proof (cases "dq_used d < length (dqVals d)")
    case True
    then have "snd (dq_pushHead v d)" using dq_pushHead_full(1) [OF c(2), of v] by blast
    then have "chain_pushHead v c = ds @ [fst (dq_pushHead v d)]" by (auto simp: chain_pushHead_def c(1) split: prod.splits bool.splits)
    with dq_pushHead_list [OF c(2) True] c show ?thesis by (simp add: chain_ok_def chain_list_def)
  next
    case False
    then have "\<not> snd (dq_pushHead v d)" using dq_pushHead_full(1) [OF c(2), of v] by blast
    then have full: "dq_pushHead v d = (d, False)" using dq_pushHead_full(2) [OF c(2), of v] by (simp add: prod_eq_iff)
    obtain k where k: "k \<le> 30" "(if dequeueLimit \<le> length (dqVals d) * 2 then dequeueLimit else length (dqVals d) * 2) = 2 ^ k"
      using next_size [OF c(2)] .
    define e where "e = (new_dequeue (2 ^ k) :: 'a bufDequeue)"
    note new = dq_new [OF k(1) e_def]
    have room: "dq_used e < length (dqVals e)" by (simp add: new)
    have "chain_pushHead v c = c @ [fst (dq_pushHead v e)]"
      using full k(2) by (simp add: chain_pushHead_def c(1) Let_def e_def)
    with dq_pushHead_list [OF new(1) room, of v] new(2) c show ?thesis by (simp add: chain_ok_def chain_list_def)
  qed
  then show "chain_ok (chain_pushHead v c)" "chain_list (chain_pushHead v c) = chain_list c @ [v]" by blast+
qed

lemma chain_popTail_spec:
  assumes "chain_ok c"
  shows "chain_ok (fst (chain_popTail c)) \<and> (chain_list (fst (chain_popTail c)), snd (chain_popTail c)) = list_deq (chain_list c)"
  using assms
proof (induction c rule: chain_popTail.induct)
  case 1
  then show ?case by (simp add: chain_ok_def)
next
  case (2 d ds)
  then have d: "dq_ok d" "list_all dq_ok ds" by (simp_all add: chain_ok_def)
  obtain e r where e: "dq_popTail d = (e, r)" by fastforce
  have p: "dq_ok e" "list_deq (dq_list d) = (dq_list e, r)" using dq_popTail_list [OF d(1)] by (simp_all add: e)
  show ?case
  proof (cases "dq_list d")
    case Nil
    then have r: "r = Empty" "dq_list e = []" using p(2) by (simp_all add: list_deq_def)
    show ?thesis
    proof (cases "ds = []")
      case True
      with r p Nil show ?thesis by (simp add: e chain_ok_def chain_list_def list_deq_def)
    next
      case False
      then have "chain_ok ds" using d(2) by (simp add: chain_ok_def)
      with "2.IH" [OF e [symmetric] r(1) False] False show ?thesis by (simp add: e r Nil chain_list_def)
    qed
  next
    case (Cons x xs)
    then have "r = Got x" "dq_list e = xs" using p(2) by (simp_all add: list_deq_def)
    with Cons p(1) d(2) show ?thesis by (simp add: e chain_ok_def chain_list_def list_deq_def)
  qed
qed

interpretation chain: fifo_queue chain_pushHead chain_popTail chain_list chain_ok
proof
  show "chain_ok (chain_pushHead x q)" "chain_list (chain_pushHead x q) = chain_list q @ [x]" if "chain_ok q" for q :: "'a bufChain" and x
    using chain_pushHead_spec [OF that] .
  show "chain_ok (fst (chain_popTail q))" "(chain_list (fst (chain_popTail q)), snd (chain_popTail q)) = list_deq (chain_list q)"
    if "chain_ok q" for q :: "'a bufChain"
    using chain_popTail_spec [OF that] by blast+
qed

lemma new_chain_ok: "k \<le> 30 \<Longrightarrow> c = new_chain (2 ^ k) \<Longrightarrow> chain_ok c \<and> chain_list c = []"
  using dq_new [OF _ refl, of k] by (simp add: chain_ok_def chain_list_def new_chain_def)

text \<open>C24. Whatever is put in and taken out in whatever order, the chain of growing ring buffers answers like a list: nothing
  is lost, doubled or reordered, taking finds nothing exactly when the list is empty, and it never meets a slot
  without a value, through every wrap-around of the packed 32-bit indexes and of the rings.\<close>

theorem chain_is_fifo:
  assumes "k \<le> 30"
  shows "snd (run_queue chain_pushHead chain_popTail ops (new_chain (2 ^ k))) = snd (run_queue list_enq list_deq ops []) \<and>
    chain_list (fst (run_queue chain_pushHead chain_popTail ops (new_chain (2 ^ k)))) = fst (run_queue list_enq list_deq ops [])"
proof -
  have ok: "chain_ok (new_chain (2 ^ k) :: 'a bufChain)" and e: "chain_list (new_chain (2 ^ k) :: 'a bufChain) = []"
    using new_chain_ok [OF assms refl] by blast+
  from chain.run_refines [OF ok, of ops] show ?thesis unfolding e by blast
qed

theorem chain_is_fifo_witness:
  "snd (run_queue chain_pushHead chain_popTail [Push 1, Push 2, Push 3, Pop, Push (4 :: int), Pop, Pop, Pop, Pop] (new_chain (2 ^ 1))) =
     [Got 1, Got 2, Got 3, Got 4, Empty]"
  using chain_is_fifo [of 1 "[Push 1, Push 2, Push 3, Pop, Push (4 :: int), Pop, Pop, Pop, Pop]"]
  by (simp add: list_enq_def list_deq_def)

section \<open>The priority queue\<close>

definition pq_ok :: "priorityQueue \<Rightarrow> bool" where
  "pq_ok q \<longleftrightarrow> chain_ok (pqHighest q) \<and> chain_ok (pqMiddle q) \<and> chain_ok (pqLowest q)"

abbreviation "highs q \<equiv> chain_list (pqHighest q)"
abbreviation "mids q \<equiv> chain_list (pqMiddle q)"
abbreviation "lows q \<equiv> chain_list (pqLowest q)"

text \<open>What taking does to the three lists.\<close>

definition pq_choice :: "priorityQueue \<Rightarrow> priorityQueue \<Rightarrow> muxPackager pop \<Rightarrow> bool" where
  "pq_choice q q' r \<longleftrightarrow>
     (case highs q of
        p # ps \<Rightarrow> r = Got p \<and> highs q' = ps \<and> mids q' = mids q \<and> lows q' = lows q \<and> pqStarving q' = pqStarving q
      | [] \<Rightarrow> highs q' = [] \<and>
          (if mids q \<noteq> [] \<and> (pqStarving q < maxStarving \<or> lows q = []) then
             r = Got (hd (mids q)) \<and> mids q' = tl (mids q) \<and> lows q' = lows q \<and> pqStarving q' = pqStarving q + 1
           else if lows q \<noteq> [] then
             r = Got (hd (lows q)) \<and> lows q' = tl (lows q) \<and> mids q' = mids q \<and> pqStarving q' = pqStarving q div 2
           else r = Empty \<and> mids q' = [] \<and> lows q' = [] \<and> pqStarving q' = pqStarving q))"

lemma pq_take_middle_spec:
  assumes "pq_ok q" "pq_take_middle q = (q', r)"
  shows "pq_ok q' \<and> highs q' = highs q \<and> lows q' = lows q \<and>
    (case mids q of [] \<Rightarrow> r = Empty \<and> mids q' = [] \<and> pqStarving q' = pqStarving q
     | p # ps \<Rightarrow> r = Got p \<and> mids q' = ps \<and> pqStarving q' = pqStarving q + 1)"
proof -
  obtain c x where c: "chain_popTail (pqMiddle q) = (c, x)" by fastforce
  have "chain_ok (pqMiddle q)" using assms(1) by (simp add: pq_ok_def)
  from chain.deq_pair [OF this c] assms c show ?thesis
    by (auto simp: pq_take_middle_def pq_ok_def split: pop.splits list.splits)
qed

lemma pq_take_lowest_spec:
  assumes "pq_ok q" "pq_take_lowest q = (q', r)"
  shows "pq_ok q' \<and> highs q' = highs q \<and> mids q' = mids q \<and>
    (case lows q of [] \<Rightarrow> r = Empty \<and> lows q' = [] \<and> pqStarving q' = pqStarving q
     | p # ps \<Rightarrow> r = Got p \<and> lows q' = ps \<and> pqStarving q' = pqStarving q div 2)"
proof -
  obtain c x where c: "chain_popTail (pqLowest q) = (c, x)" by fastforce
  have "chain_ok (pqLowest q)" using assms(1) by (simp add: pq_ok_def)
  moreover have "(if 0 < s then s div 2 else s) = s div 2" for s :: u8 by (cases "s = 0") (simp_all add: word_gt_0)
  ultimately show ?thesis using chain.deq_pair [OF _ c] assms c
    by (auto simp: pq_take_lowest_def pq_ok_def split: pop.splits list.splits)
qed

lemma pq_TryPop_spec:
  assumes "pq_ok q" "pq_TryPop q = (q', r)" shows "pq_ok q'" "pq_choice q q' r"
proof -
  obtain c x where c: "chain_popTail (pqHighest q) = (c, x)" by fastforce
  define q1 where "q1 = q\<lparr>pqHighest := c\<rparr>"
  have hi: "chain_ok (pqHighest q)" using assms(1) by (simp add: pq_ok_def)
  have q1: "pq_ok q1" "mids q1 = mids q" "lows q1 = lows q" "pqStarving q1 = pqStarving q" "highs q1 = chain_list c"
    using chain.deq_pair [OF hi c] assms(1) by (simp_all add: q1_def pq_ok_def)
  have "pq_ok q' \<and> pq_choice q q' r"
  proof (cases "highs q")
    case (Cons p ps)
    then have "x = Got p" "chain_list c = ps" using chain.deq_pair [OF hi c] by simp_all
    then have "q' = q1" "r = Got p" using assms(2) c by (auto simp: pq_TryPop_def or_else_def q1_def)
    with q1 Cons \<open>chain_list c = ps\<close> show ?thesis by (simp add: pq_choice_def)
  next
    case Nil
    then have x: "x = Empty" "chain_list c = []" using chain.deq_pair [OF hi c] by simp_all
    define rest where "rest = (\<lambda>q. or_else (pq_take_lowest q) (\<lambda>q. if 0 < pqStarving q then pq_take_middle q else (q, Empty)))"
    have t: "pq_TryPop q = or_else (if pqStarving q1 < maxStarving then pq_take_middle q1 else (q1, Empty)) rest"
      by (simp add: pq_TryPop_def c x or_else_def q1_def rest_def)
    obtain q2 m where m: "pq_take_middle q1 = (q2, m)" by fastforce
    note M = pq_take_middle_spec [OF q1(1) m]
    have fin: "pq_ok q' \<and> pq_choice q q' r"
      if r: "rest q3 = (q', r)" and q3: "pq_ok q3" "highs q3 = []" "mids q3 = mids q" "lows q3 = lows q" "pqStarving q3 = pqStarving q"
        and none: "pqStarving q < maxStarving \<longrightarrow> mids q = []" for q3
    proof -
      obtain q4 l where l: "pq_take_lowest q3 = (q4, l)" by fastforce
      note L = pq_take_lowest_spec [OF q3(1) l]
      show ?thesis
      proof (cases "lows q")
        case (Cons p ps)
        with L q3 have "l = Got p" by simp
        with r l have "q' = q4" "r = Got p" by (simp_all add: rest_def or_else_def)
        with L q3 Cons none Nil show ?thesis by (auto simp: pq_choice_def)
      next
        case low: Nil
        with L q3 have e: "l = Empty" "pqStarving q4 = pqStarving q" "mids q4 = mids q" "lows q4 = []" "highs q4 = []" "pq_ok q4" by simp_all
        obtain q5 m' where m': "pq_take_middle q4 = (q5, m')" by fastforce
        note M' = pq_take_middle_spec [OF e(6) m']
        show ?thesis
        proof (cases "0 < pqStarving q")
          case True
          with r l e m' have "q' = q5" "r = m'" by (simp_all add: rest_def or_else_def)
          with M' e Nil low show ?thesis by (cases "mids q") (auto simp: pq_choice_def)
        next
          case False
          then have "mids q = []" using none by (simp add: maxStarving_def word_gt_0)
          with False r l e Nil low show ?thesis by (auto simp: pq_choice_def rest_def or_else_def)
        qed
      qed
    qed
    show ?thesis
    proof (cases "pqStarving q < maxStarving \<and> mids q \<noteq> []")
      case True
      then obtain p ps where ps: "mids q = p # ps" by (cases "mids q") auto
      with M q1 have "m = Got p" by simp
      with t True m q1(4) assms(2) have "q' = q2" "r = Got p" by (simp_all add: or_else_def)
      with M q1 ps Nil True x show ?thesis by (simp add: pq_choice_def)
    next
      case False
      show ?thesis
      proof (cases "pqStarving q < maxStarving")
        case lt: True
        with False have "mids q = []" by simp
        with M q1 x have "m = Empty" "pq_ok q2" "highs q2 = []" "mids q2 = mids q" "lows q2 = lows q" "pqStarving q2 = pqStarving q" by simp_all
        moreover from this t lt m q1(4) assms(2) have "rest q2 = (q', r)" by (simp add: or_else_def)
        ultimately show ?thesis using fin [of q2] \<open>mids q = []\<close> by blast
      next
        case ge: False
        with t q1(4) assms(2) have "rest q1 = (q', r)" by (simp add: or_else_def)
        with fin [of q1] q1 x ge show ?thesis by simp
      qed
    qed
  qed
  then show "pq_ok q'" "pq_choice q q' r" by blast+
qed


lemma pq_push_spec:
  assumes "pq_ok q"
  shows "pq_ok (pq_push p q)" "pqStarving (pq_push p q) = pqStarving q"
    "highs (pq_push p q) = highs q @ (if mpFlag p \<in> {muxPingFlag, muxPingReturn} then [p] else [])"
    "\<exists>xs. lows (pq_push p q) = lows q @ xs"
  using assms by (auto simp: pq_push_def pq_ok_def chain.ok_enq chain.contents_enq)

lemma new_priorityQueue_ok: "pq_ok new_priorityQueue" "highs new_priorityQueue = []" "mids new_priorityQueue = []" "lows new_priorityQueue = []"
  using new_chain_ok [of 2 "pqHighest new_priorityQueue"] new_chain_ok [of 5 "pqMiddle new_priorityQueue"]
    new_chain_ok [of 8 "pqLowest new_priorityQueue"] by (simp_all add: new_priorityQueue_def pq_ok_def)

lemma pq_run_ok: "pq_ok q \<Longrightarrow> pq_ok (fst (run_queue pq_push pq_TryPop ops q))"
proof (induction ops arbitrary: q)
  case (Cons c ops)
  show ?case
  proof (cases c)
    case (Push p)
    with Cons pq_push_spec(1) show ?thesis by simp
  next
    case Pop
    obtain q' r where "pq_TryPop q = (q', r)" by fastforce
    with Cons.IH pq_TryPop_spec(1) [OF Cons.prems] Pop show ?thesis by (simp split: prod.splits) (metis fst_conv)
  qed
qed simp

text \<open>How many takings it needs at most until one of the bulk is taken.\<close>

definition patience :: "u8 \<Rightarrow> nat" where
  "patience s = (if s < maxStarving then 9 - unat s else 1)"

lemma patience_le: "patience s \<le> 9" "0 < patience s" "s < maxStarving \<Longrightarrow> patience s = Suc (patience (s + 1))"
proof -
  show "patience s \<le> 9" "0 < patience s" by (simp_all add: patience_def maxStarving_def word_less_nat_alt)
  assume s: "s < maxStarving"
  then have n: "unat s < 8" by (simp add: maxStarving_def word_less_nat_alt)
  then have "unat (s + 1) = unat s + 1" by (simp add: unat_word_ariths)
  with n show "patience s = Suc (patience (s + 1))" by (simp add: patience_def maxStarving_def word_less_nat_alt) arith
qed

lemma bulk_taken:
  assumes "pq_ok q" "highs q = []" "lows q = p # ps"
    and "\<forall>x. Push x \<in> set ops \<longrightarrow> mpFlag x \<noteq> muxPingFlag \<and> mpFlag x \<noteq> muxPingReturn"
    and "patience (pqStarving q) \<le> length (filter (\<lambda>c. c = Pop) ops)"
  shows "Got p \<in> set (snd (run_queue pq_push pq_TryPop ops q))"
  using assms
proof (induction ops arbitrary: q ps)
  case Nil
  then show ?case using patience_le(2) [of "pqStarving q"] by simp
next
  case (Cons c ops)
  show ?case
  proof (cases c)
    case (Push x)
    note S = pq_push_spec [OF Cons.prems(1), of x]
    from S(4) obtain xs where xs: "lows (pq_push x q) = p # (ps @ xs)" using Cons.prems(3) by auto
    have "Got p \<in> set (snd (run_queue pq_push pq_TryPop ops (pq_push x q)))"
      by (rule Cons.IH [OF S(1) _ xs]) (use Cons.prems S(2,3) Push in auto)
    then show ?thesis by (simp add: Push)
  next
    case Pop
    obtain q' r where t: "pq_TryPop q = (q', r)" by fastforce
    note T = pq_TryPop_spec [OF Cons.prems(1) t]
    show ?thesis
    proof (cases "mids q \<noteq> [] \<and> pqStarving q < maxStarving")
      case True
      then have q': "highs q' = []" "lows q' = p # ps" "pqStarving q' = pqStarving q + 1"
        using T(2) Cons.prems(2,3) by (simp_all add: pq_choice_def)
      have "Got p \<in> set (snd (run_queue pq_push pq_TryPop ops q'))"
        by (rule Cons.IH [OF T(1) q'(1,2)]) (use Cons.prems(4,5) patience_le(3) True Pop q'(3) in auto)
      then show ?thesis by (simp add: Pop t split: prod.splits) (metis snd_conv)
    next
      case False
      then have "r = Got p" using T(2) Cons.prems(2,3) by (auto simp: pq_choice_def)
      then show ?thesis by (simp add: Pop t split: prod.splits)
    qed
  qed
qed

text \<open>C25. The writer of the multiplexer never idles while a packet waits, a ping or its answer goes first, and the bulk of the
  data is not starved by the packets that open connections: in every state of the queue, when no ping waits or
  comes in, the oldest data packet is written within the next nine packets, whatever is put in between.\<close>

theorem bulk_not_starved:
  assumes "run_queue pq_push pq_TryPop before new_priorityQueue = (q, rs)"
  shows "(snd (pq_TryPop q) = Empty \<longleftrightarrow> highs q = [] \<and> mids q = [] \<and> lows q = []) \<and>
    (\<forall>p ps. highs q = p # ps \<longrightarrow> snd (pq_TryPop q) = Got p) \<and>
    (\<forall>p ps ops. highs q = [] \<longrightarrow> lows q = p # ps \<longrightarrow>
       (\<forall>x. Push x \<in> set ops \<longrightarrow> mpFlag x \<noteq> muxPingFlag \<and> mpFlag x \<noteq> muxPingReturn) \<longrightarrow>
       9 \<le> length (filter (\<lambda>c. c = Pop) ops) \<longrightarrow> Got p \<in> set (snd (run_queue pq_push pq_TryPop ops q)))"
proof (intro conjI allI impI)
  have ok: "pq_ok q" using pq_run_ok [OF new_priorityQueue_ok(1), of before] assms by simp
  obtain q' r where t: "pq_TryPop q = (q', r)" by fastforce
  note T = pq_TryPop_spec(2) [OF ok t]
  show "snd (pq_TryPop q) = Empty \<longleftrightarrow> highs q = [] \<and> mids q = [] \<and> lows q = []"
    using T by (auto simp: t pq_choice_def split: list.splits if_splits)
  show "snd (pq_TryPop q) = Got p" if "highs q = p # ps" for p ps using T that by (simp add: t pq_choice_def)
  show "Got p \<in> set (snd (run_queue pq_push pq_TryPop ops q))"
    if "highs q = []" "lows q = p # ps" "\<forall>x. Push x \<in> set ops \<longrightarrow> mpFlag x \<noteq> muxPingFlag \<and> mpFlag x \<noteq> muxPingReturn"
      "9 \<le> length (filter (\<lambda>c. c = Pop) ops)" for p ps ops
    using bulk_taken [OF ok that(1-3)] that(4) patience_le(1) [of "pqStarving q"] by simp
qed

definition demo_packet :: "u8 \<Rightarrow> u32 \<Rightarrow> muxPackager" where
  "demo_packet f i = \<lparr>mpFlag = f, mpId = i, mpWindow = 0, mpContent = []\<rparr>"

theorem bulk_not_starved_witness:
  "Got (demo_packet muxNewMsg 7) \<in> set (snd (run_queue pq_push pq_TryPop (replicate 9 Pop)
     (fst (run_queue pq_push pq_TryPop (map (\<lambda>i. Push (demo_packet muxNewConn i)) [1, 2, 3, 4, 5, 6, 7, 8, 9, 10] @ [Push (demo_packet muxNewMsg 7)])
        new_priorityQueue))))"
proof -
  let ?ops = "map (\<lambda>i. Push (demo_packet muxNewConn i)) [1, 2, 3, 4, 5, 6, 7, 8, 9, 10] @ [Push (demo_packet muxNewMsg 7)]"
  let ?q = "fst (run_queue pq_push pq_TryPop ?ops new_priorityQueue)"
  have r: "run_queue pq_push pq_TryPop ?ops new_priorityQueue = (?q, snd (run_queue pq_push pq_TryPop ?ops new_priorityQueue))" by simp
  have "highs ?q = []" "lows ?q = [demo_packet muxNewMsg 7]"
    using new_priorityQueue_ok by (simp_all add: pq_push_def pq_ok_def demo_packet_def chain.contents_enq)
  with bulk_not_starved [OF r] show ?thesis by simp
qed


end
