(* ===== verification/NpsMux.thy ===== *)
theory NpsMux
  imports NpsQueue
begin

text \<open>
  A connection of the nps multiplexer (\<^verbatim>\<open>upstream/NPS/lib/nps_mux/conn.go\<close>) with its send and
  receive window, and the packets on the wire (\<^verbatim>\<open>netpackager.go\<close>). An operation is one step; the
  windows are packed words as in the source. The queue of received elements is a list, which is what the chain
  of \<open>NpsQueue\<close> implements. Bandwidths are measured with clocks and computed in floating point, so the
  window size they lead to is a parameter; timeouts are left out.
\<close>

section \<open>The packed window\<close>

definition win_unpack :: "u64 \<Rightarrow> u32 \<times> u32 \<times> bool" where
  "win_unpack ptrs = (ucast (drop_bit 32 ptrs AND mask 31), ucast (ptrs AND mask 31), drop_bit 63 ptrs AND 1 = 1)"

definition win_pack :: "u32 \<Rightarrow> u32 \<Rightarrow> bool \<Rightarrow> u64" where
  "win_pack maxSize dn wait =
     (push_bit 63 (if wait then 1 else 0) OR push_bit 32 (ucast (maxSize AND mask 31))) OR ucast (dn AND mask 31)"

definition maximumSegmentSize :: nat where
  "maximumSegmentSize = 4096 - 2 - 4 - 4 - 1"

section \<open>The receive window\<close>

record listElement =
  leBuf :: "byte list"
  leL :: u16
  lePart :: bool

record receiveWindow =
  rwSizes :: u64
  rwOff :: u32
  rwCloseOp :: bool
  rwLength :: u32
  rwQueue :: "listElement list"
  rwElement :: listElement
  rwCount :: int

datatype mux_error = WindowClosed | LengthMismatch | ShortRead | ContentTooLarge

definition newListElement :: "byte list \<Rightarrow> u16 \<Rightarrow> bool \<Rightarrow> mux_error + listElement" where
  "newListElement buf l part =
     (if of_nat (length buf) \<noteq> l then Inl LengthMismatch else Inr \<lparr>leBuf = buf, leL = l, lePart = part\<rparr>)"

definition new_receiveWindow :: receiveWindow where
  "new_receiveWindow = \<lparr>rwSizes = win_pack (of_nat (maximumSegmentSize * 30)) 0 False, rwOff = 0, rwCloseOp = False, rwLength = 0,
     rwQueue = [], rwElement = \<lparr>leBuf = [], leL = 0, lePart = False\<rparr>, rwCount = 0\<rparr>"

definition rw_remainingSize :: "u32 \<Rightarrow> u16 \<Rightarrow> receiveWindow \<Rightarrow> u32" where
  "rw_remainingSize maxSize delta w =
     (let l = uint maxSize - uint (rwLength w) - uint delta in if 0 < l then word_of_int l else 0)"

text \<open>\<open>newSize\<close> is the size that bandwidth and latency lead to, from the old size and what remains of it.\<close>

definition rw_calcSize :: "(u32 \<Rightarrow> u32 \<Rightarrow> u32) \<Rightarrow> receiveWindow \<Rightarrow> receiveWindow" where
  "rw_calcSize newSize w =
     (let w1 = (if rwCount w = 0 then
          (case win_unpack (rwSizes w) of (old, rd, wait) \<Rightarrow>
             w\<lparr>rwSizes := win_pack (newSize old (rw_remainingSize old 0 w)) rd wait, rwCount := -10\<rparr>)
        else w)
      in w1\<lparr>rwCount := rwCount w1 + 1\<rparr>)"

definition rw_Push :: "listElement \<Rightarrow> receiveWindow \<Rightarrow> receiveWindow" where
  "rw_Push e w = w\<lparr>rwLength := rwLength w + ucast (leL e), rwQueue := rwQueue w @ [e]\<rparr>"

text \<open>The result is an error, or the status to be sent to the other side, if any.\<close>

definition rw_Write :: "(u32 \<Rightarrow> u32 \<Rightarrow> u32) \<Rightarrow> byte list \<Rightarrow> u16 \<Rightarrow> bool \<Rightarrow> receiveWindow \<Rightarrow> receiveWindow \<times> (mux_error + u64 option)" where
  "rw_Write newSize buf l part w =
     (if rwCloseOp w then (w, Inl WindowClosed)
      else case newListElement buf l part of
        Inl e \<Rightarrow> (w, Inl e)
      | Inr element \<Rightarrow>
          let w1 = rw_calcSize newSize w;
              (maxSize, rd, wait0) = win_unpack (rwSizes w1);
              remain = rw_remainingSize maxSize l w1;
              (w2, wait) =
                (if remain = 0 \<and> \<not> wait0 then (w1\<lparr>rwSizes := win_pack maxSize rd True\<rparr>, True)
                 else if \<not> wait0 then (w1\<lparr>rwSizes := win_pack maxSize 0 False\<rparr>, False)
                 else (w1, True))
          in (rw_Push element w2, Inr (if \<not> wait then Some (win_pack maxSize rd False) else None)))"

definition rw_sendStatus :: "u16 \<Rightarrow> receiveWindow \<Rightarrow> receiveWindow \<times> u64 option" where
  "rw_sendStatus l w =
     (case win_unpack (rwSizes w) of (maxSize, rd, wait) \<Rightarrow>
        if rd \<le> (rd + ucast l) AND mask 31 then
          (let rd' = rd + ucast l; remain = rw_remainingSize maxSize 0 w in
           if wait \<and> 0 < remain \<or> maxSize div 2 \<le> rd' \<or> remain = maxSize
           then (w\<lparr>rwSizes := win_pack maxSize 0 False\<rparr>, Some (win_pack maxSize rd' False))
           else (w\<lparr>rwSizes := win_pack maxSize rd' wait\<rparr>, None))
        else (w\<lparr>rwSizes := win_pack maxSize (ucast l) wait\<rparr>, Some (win_pack maxSize rd False)))"

text \<open>\<^verbatim>\<open>TryPop\<close> of the queue of the window.\<close>

definition rw_Pop :: "receiveWindow \<Rightarrow> receiveWindow option" where
  "rw_Pop w = (if rwLength w = 0 then None
     else case rwQueue w of [] \<Rightarrow> None
       | e # es \<Rightarrow> Some (w\<lparr>rwQueue := es, rwLength := rwLength w - ucast (leL e), rwElement := e, rwOff := 0\<rparr>))"

text \<open>
  One pass of the loop at \<^verbatim>\<open>copyData\<close>, with room for \<open>k\<close> bytes: end of file, a wait for
  something to be pushed, or bytes, with the status to be sent.
\<close>

datatype read_result = ReadEOF | ReadWaits | ReadBytes "byte list" "u64 option"

definition rw_copyData :: "nat \<Rightarrow> receiveWindow \<Rightarrow> receiveWindow \<times> read_result" where
  "rw_copyData k w =
     (if rwCloseOp w then (w, ReadEOF)
      else case (if rwOff w = ucast (leL (rwElement w)) then rw_Pop w else Some w) of
        None \<Rightarrow> (w, ReadWaits)
      | Some w1 \<Rightarrow>
          let e = rwElement w1;
              bs = take k (drop (unat (rwOff w1)) (take (unat (leL e)) (leBuf e)));
              w2 = w1\<lparr>rwOff := rwOff w1 + of_nat (length bs)\<rparr>
          in if rwOff w2 = ucast (leL e)
             then (case rw_sendStatus (leL e) w2 of (w3, ack) \<Rightarrow> (w3, ReadBytes bs ack))
             else (w2, ReadBytes bs None))"

section \<open>The send window\<close>

record sendWindow =
  swSizes :: u64
  swBuf :: "byte list"
  swOff :: u32
  swCloseOp :: bool

definition new_sendWindow :: sendWindow where
  "new_sendWindow = \<lparr>swSizes = win_pack (of_nat (maximumSegmentSize * 30)) 0 False, swBuf = [], swOff = 0, swCloseOp = False\<rparr>"

definition sw_SetSendBuf :: "byte list \<Rightarrow> sendWindow \<Rightarrow> sendWindow" where
  "sw_SetSendBuf buf w = w\<lparr>swBuf := buf, swOff := 0\<rparr>"

definition sw_remainingSize :: "u32 \<Rightarrow> u32 \<Rightarrow> u32" where
  "sw_remainingSize maxSize snt =
     (let l = uint (maxSize AND mask 31) - uint (snt AND mask 31) in if 0 < l then word_of_int l else 0)"

text \<open>The second result says whether a waiting writer is let on.\<close>

definition sw_SetSize :: "u64 \<Rightarrow> sendWindow \<Rightarrow> sendWindow \<times> bool" where
  "sw_SetSize current w =
     (if swCloseOp w then (w, False)
      else case win_unpack current of (currentMaxSize, rd, _) \<Rightarrow>
        case win_unpack (swSizes w) of (maxSize, snt, wait) \<Rightarrow>
          if snt < rd then (w, False)
          else if rd = 0 \<and> currentMaxSize = maxSize then (w, False)
          else let snt' = snt - rd;
                   newWait = (sw_remainingSize currentMaxSize snt' = 0 \<and> wait)
               in (w\<lparr>swSizes := win_pack currentMaxSize snt' newWait\<rparr>, wait \<and> \<not> newWait))"

text \<open>\<open>None\<close>: the counter would pass its 31 bits, and the source tries again until it does not.\<close>

definition sw_sent :: "u32 \<Rightarrow> sendWindow \<Rightarrow> sendWindow option" where
  "sw_sent sentSize w =
     (case win_unpack (swSizes w) of (maxSize, snt, wait) \<Rightarrow>
        if (snt + sentSize) AND mask 31 < snt then None
        else Some (w\<lparr>swSizes := win_pack maxSize (snt + sentSize) wait\<rparr>))"

datatype write_result = WriteClosed | Drained | WriteWaits | Spins | Segment "byte list" bool

definition sw_WriteTo :: "sendWindow \<Rightarrow> sendWindow \<times> write_result" where
  "sw_WriteTo w =
     (if swCloseOp w then (w, WriteClosed)
      else if of_nat (length (swBuf w)) \<le> swOff w then (w, Drained)
      else case win_unpack (swSizes w) of (maxSize, snt, _) \<Rightarrow>
        let remain = sw_remainingSize maxSize snt in
        if remain = 0 then (w\<lparr>swSizes := win_pack maxSize snt True\<rparr>, WriteWaits)
        else let rest = drop (unat (swOff w)) (swBuf w);
                 size0 = (if maximumSegmentSize < length rest then of_nat maximumSegmentSize else of_nat (length rest));
                 sendSize = (if remain < size0 then remain else size0);
                 part = (sendSize < of_nat (length rest))
             in (case sw_sent sendSize (w\<lparr>swOff := swOff w + sendSize\<rparr>) of
                   None \<Rightarrow> (w\<lparr>swOff := swOff w + sendSize\<rparr>, Spins)
                 | Some w' \<Rightarrow> (w', Segment (take (unat sendSize) rest) part)))"

section \<open>A connection\<close>

text \<open>
  One direction of a connection: the writer with its window, the segments and the statuses under way, the reader
  with its window, and what has been written and read so far. A writer that waits does nothing until
  it is let on.
\<close>

record Link =
  lkSnd :: sendWindow
  lkData :: "(byte list \<times> bool) list"
  lkAcks :: "u64 list"
  lkRcv :: receiveWindow
  lkSent :: "byte list"
  lkGot :: "byte list"

definition new_link :: Link where
  "new_link = \<lparr>lkSnd = new_sendWindow, lkData = [], lkAcks = [], lkRcv = new_receiveWindow, lkSent = [], lkGot = []\<rparr>"

definition sw_waits :: "sendWindow \<Rightarrow> bool" where
  "sw_waits w = snd (snd (win_unpack (swSizes w)))"

definition ack_list :: "u64 option \<Rightarrow> u64 list" where
  "ack_list a = (case a of None \<Rightarrow> [] | Some x \<Rightarrow> [x])"

inductive link_move :: "(u32 \<Rightarrow> u32 \<Rightarrow> u32) \<Rightarrow> Link \<Rightarrow> Link \<Rightarrow> bool" for newSize where
  segment: "\<not> sw_waits (lkSnd l) \<Longrightarrow> sw_WriteTo (lkSnd l) = (s, Segment p part) \<Longrightarrow>
    link_move newSize l (l\<lparr>lkSnd := s, lkData := lkData l @ [(p, part)]\<rparr>)"
| waits: "\<not> sw_waits (lkSnd l) \<Longrightarrow> sw_WriteTo (lkSnd l) = (s, WriteWaits) \<Longrightarrow> link_move newSize l (l\<lparr>lkSnd := s\<rparr>)"
| deliver: "lkData l = (p, part) # rest \<Longrightarrow> rw_Write newSize p (of_nat (length p)) part (lkRcv l) = (r, Inr a) \<Longrightarrow>
    link_move newSize l (l\<lparr>lkData := rest, lkRcv := r, lkAcks := lkAcks l @ ack_list a\<rparr>)"
| acked: "lkAcks l = a # rest \<Longrightarrow> sw_SetSize a (lkSnd l) = (s, woken) \<Longrightarrow>
    link_move newSize l (l\<lparr>lkAcks := rest, lkSnd := s\<rparr>)"
| reads: "0 < k \<Longrightarrow> rw_copyData k (lkRcv l) = (r, ReadBytes bs a) \<Longrightarrow>
    link_move newSize l (l\<lparr>lkRcv := r, lkGot := lkGot l @ bs, lkAcks := lkAcks l @ ack_list a\<rparr>)"

inductive link_step :: "(u32 \<Rightarrow> u32 \<Rightarrow> u32) \<Rightarrow> Link \<Rightarrow> Link \<Rightarrow> bool" for newSize where
  move: "link_move newSize l l' \<Longrightarrow> link_step newSize l l'"
| writes: "sw_WriteTo (lkSnd l) = (lkSnd l, Drained) \<Longrightarrow> length buf < 2 ^ 32 \<Longrightarrow>
    link_step newSize l (l\<lparr>lkSnd := sw_SetSendBuf buf (lkSnd l), lkSent := lkSent l @ buf\<rparr>)"

inductive link_reachable :: "(u32 \<Rightarrow> u32 \<Rightarrow> u32) \<Rightarrow> Link \<Rightarrow> bool" for newSize where
  fresh: "link_reachable newSize new_link"
| further: "link_reachable newSize l \<Longrightarrow> link_step newSize l l' \<Longrightarrow> link_reachable newSize l'"

section \<open>Packets on the wire\<close>

definition le_bytes :: "nat \<Rightarrow> 'a::len word \<Rightarrow> byte list" where
  "le_bytes n w = map (\<lambda>i. ucast (drop_bit (8 * i) w)) [0..<n]"

definition le_word :: "byte list \<Rightarrow> 'a::len word" where
  "le_word bs = foldr (\<lambda>b w. ucast b OR push_bit 8 w) bs 0"

definition has_content :: "u8 \<Rightarrow> bool" where
  "has_content f \<longleftrightarrow> f \<in> {muxNewMsg, muxNewMsgPart, muxPingFlag, muxPingReturn}"

text \<open>\<^verbatim>\<open>Set\<close>: a content that is too long is dropped, without an error.\<close>

definition mp_Set :: "u8 \<Rightarrow> u32 \<Rightarrow> byte list \<Rightarrow> u64 \<Rightarrow> muxPackager" where
  "mp_Set flag i content win =
     \<lparr>mpFlag = flag, mpId = i, mpWindow = (if flag = muxMsgSendOk then win else 0),
      mpContent = (if has_content flag \<and> length content \<le> maximumSegmentSize then content else [])\<rparr>"

definition mp_Pack :: "muxPackager \<Rightarrow> byte list" where
  "mp_Pack p = mpFlag p # le_bytes 4 (mpId p) @
     (if has_content (mpFlag p) then
        (let l = of_nat (length (mpContent p)) :: u16 in le_bytes 2 l @ take (unat l) (mpContent p))
      else if mpFlag p = muxMsgSendOk then le_bytes 8 (mpWindow p)
      else [])"

definition readFull :: "nat \<Rightarrow> byte list \<Rightarrow> mux_error + (byte list \<times> byte list)" where
  "readFull n bs = (if length bs < n then Inl ShortRead else Inr (take n bs, drop n bs))"

definition mp_UnPack :: "byte list \<Rightarrow> mux_error + (muxPackager \<times> byte list)" where
  "mp_UnPack bs =
     (case readFull 5 bs of
        Inl e \<Rightarrow> Inl e
      | Inr (hd5, bs1) \<Rightarrow>
          let flag = hd5 ! 0; i = le_word (tl hd5) in
          if has_content flag then
            (case readFull 2 bs1 of
               Inl e \<Rightarrow> Inl e
             | Inr (len2, bs2) \<Rightarrow>
                 let l = unat (le_word len2 :: u16) in
                 if maximumSegmentSize < l then Inl ContentTooLarge
                 else (case readFull l bs2 of
                     Inl e \<Rightarrow> Inl e
                   | Inr (content, bs3) \<Rightarrow> Inr (\<lparr>mpFlag = flag, mpId = i, mpWindow = 0, mpContent = content\<rparr>, bs3)))
          else if flag = muxMsgSendOk then
            (case readFull 8 bs1 of
               Inl e \<Rightarrow> Inl e
             | Inr (win, bs2) \<Rightarrow> Inr (\<lparr>mpFlag = flag, mpId = i, mpWindow = le_word win, mpContent = []\<rparr>, bs2))
          else Inr (\<lparr>mpFlag = flag, mpId = i, mpWindow = 0, mpContent = []\<rparr>, bs1))"

lemma readFull_shorter: "readFull n bs = Inr (a, r) \<Longrightarrow> length r + n = length bs \<and> length a = n"
  by (auto simp: readFull_def split: if_splits)

lemma mp_UnPack_shorter: "mp_UnPack bs = Inr (p, r) \<Longrightarrow> length r < length bs"
  by (auto simp: mp_UnPack_def Let_def dest!: readFull_shorter split: sum.splits if_splits)

text \<open>The packets of the reading loop, up to the first that cannot be read.\<close>

function read_packets :: "byte list \<Rightarrow> muxPackager list" where
  "read_packets bs = (case mp_UnPack bs of Inl e \<Rightarrow> [] | Inr (p, rest) \<Rightarrow> p # read_packets rest)"
  by auto
termination by (relation "measure length") (auto dest: mp_UnPack_shorter)

declare read_packets.simps [simp del]

end
