(* ===== verification/NpsMuxProps.thy ===== *)
theory NpsMuxProps
  imports NpsMux
begin

text \<open>
  A connection of the multiplexer is a reliable stream under flow control: nothing is lost or reordered, what is
  under way never exceeds the largest window, and whatever was written can be read, as neither side can wait for
  the other for ever. The packets on the wire are read back as they were written.
\<close>

section \<open>Packing and unpacking the window\<close>

lemma mask31_id: "unat (m :: u32) < 2 ^ 31 \<Longrightarrow> m AND mask 31 = m"
proof -
  assume m: "unat m < 2 ^ 31"
  have "unat (take_bit 31 m) = take_bit 31 (unat m)" by (rule unsigned_take_bit_eq)
  also have "\<dots> = unat m" using m by (rule take_bit_nat_eq_self)
  finally have "take_bit 31 m = m" by (simp only: word_unat_eq_iff)
  then show ?thesis unfolding take_bit_eq_mask .
qed

lemma win_unpack_pack_mask: "win_unpack (win_pack m d w) = (m AND mask 31, d AND mask 31, w)"
proof -
  let ?p = "win_pack m d w"
  have 1: "ucast (drop_bit 32 ?p AND mask 31) = m AND mask 31"
    by (rule bit_word_eqI) (auto simp: win_pack_def bit_simps dest: bit_imp_le_length)
  have 2: "ucast (?p AND mask 31) = d AND mask 31"
    by (rule bit_word_eqI) (auto simp: win_pack_def bit_simps)
  have "bit (drop_bit 63 ?p) 0 = w" by (auto simp: win_pack_def bit_simps)
  then have "drop_bit 63 ?p AND 1 = 1 \<longleftrightarrow> w" by (simp add: bit_0 and_one_eq odd_iff_mod_2_eq_one)
  with 1 2 show ?thesis unfolding win_unpack_def by simp
qed

lemma win_unpack_pack: "unat m < 2 ^ 31 \<Longrightarrow> unat d < 2 ^ 31 \<Longrightarrow> win_unpack (win_pack m d w) = (m, d, w)"
  by (simp only: win_unpack_pack_mask mask31_id)

definition w_max :: "u64 \<Rightarrow> nat" where "w_max p = unat (fst (win_unpack p))"
definition w_done :: "u64 \<Rightarrow> nat" where "w_done p = unat (fst (snd (win_unpack p)))"
definition w_wait :: "u64 \<Rightarrow> bool" where "w_wait p = snd (snd (win_unpack p))"

lemma w_pack [simp]:
  "unat m < 2 ^ 31 \<Longrightarrow> unat d < 2 ^ 31 \<Longrightarrow> w_max (win_pack m d w) = unat m"
  "unat m < 2 ^ 31 \<Longrightarrow> unat d < 2 ^ 31 \<Longrightarrow> w_done (win_pack m d w) = unat d"
  "unat m < 2 ^ 31 \<Longrightarrow> unat d < 2 ^ 31 \<Longrightarrow> w_wait (win_pack m d w) = w"
  by (simp_all only: w_max_def w_done_def w_wait_def win_unpack_pack fst_conv snd_conv)

lemma w_unpack: "win_unpack p = (m, d, w) \<Longrightarrow> w_max p = unat m \<and> w_done p = unat d \<and> w_wait p = w"
  by (simp add: w_max_def w_done_def w_wait_def)

lemma unat_add32: "unat (a :: u32) + unat b < 2 ^ 32 \<Longrightarrow> unat (a + b) = unat a + unat b"
  by (subst unat_word_ariths) simp

lemma unat_sub32: "unat (b :: u32) \<le> unat a \<Longrightarrow> unat (a - b) = unat a - unat b"
  by (rule unat_sub) (simp add: word_le_nat_alt)

lemma unat_ucast_u32: "unat (ucast (l :: u16) :: u32) = unat l"
proof -
  have "unat l < 2 ^ 16" using unsigned_less [of l, where ?'a = nat] by simp
  then show ?thesis by (simp add: unsigned_ucast_eq take_bit_nat_eq_self)
qed

lemma sw_remaining:
  assumes "unat m < 2 ^ 31" "unat d < 2 ^ 31" shows "unat (sw_remainingSize m d) = unat m - unat d"
proof -
  have "sw_remainingSize m d = (if d < m then m - d else 0)"
    unfolding sw_remainingSize_def mask31_id [OF assms(1)] mask31_id [OF assms(2)] Let_def by (simp add: word_less_def)
  then show ?thesis by (simp add: unat_sub32 word_less_nat_alt)
qed

text \<open>The size that the measurement of the bandwidth leads to: never nothing, and at most \<open>M\<close>.\<close>

definition sizes_ok :: "nat \<Rightarrow> (u32 \<Rightarrow> u32 \<Rightarrow> u32) \<Rightarrow> bool" where
  "sizes_ok M newSize \<longleftrightarrow> maximumSegmentSize * 30 \<le> M \<and> M < 2 ^ 31 \<and> (\<forall>a b. 0 < unat (newSize a b) \<and> unat (newSize a b) \<le> M)"

section \<open>The sender\<close>

definition snd_ok :: "nat \<Rightarrow> sendWindow \<Rightarrow> bool" where
  "snd_ok M s \<longleftrightarrow> \<not> swCloseOp s \<and> length (swBuf s) < 2 ^ 32 \<and> unat (swOff s) \<le> length (swBuf s) \<and>
     0 < w_max (swSizes s) \<and> w_max (swSizes s) \<le> M \<and> w_done (swSizes s) \<le> M \<and>
     (w_wait (swSizes s) \<longrightarrow> w_max (swSizes s) \<le> w_done (swSizes s))"

definition unsent :: "sendWindow \<Rightarrow> byte list" where
  "unsent s = drop (unat (swOff s)) (swBuf s)"

lemma sw_waits_eq: "sw_waits s = w_wait (swSizes s)"
  by (simp add: sw_waits_def w_wait_def)

lemma sw_SetSize_spec:
  assumes ok: "snd_ok M s" "M < 2 ^ 31" and a: "0 < w_max a" "w_max a \<le> M" "w_done a \<le> w_done (swSizes s)"
    and r: "sw_SetSize a s = (s', woken)"
  shows "snd_ok M s'" "w_done (swSizes s') + w_done a = w_done (swSizes s)" "swBuf s' = swBuf s" "swOff s' = swOff s"
proof -
  obtain cm rd cw where c: "win_unpack a = (cm, rd, cw)" using prod_cases3 by blast
  obtain m d w where u: "win_unpack (swSizes s) = (m, d, w)" using prod_cases3 by blast
  note C = w_unpack [OF c] and U = w_unpack [OF u]
  have le: "\<not> d < rd" using a(3) C U by (simp add: word_less_nat_alt)
  have b: "unat cm < 2 ^ 31" "unat (d - rd) < 2 ^ 31" "unat (d - rd) = unat d - unat rd" "unat (d - rd) \<le> M"
    using ok a C U unat_sub32 [of rd d] by (auto simp: snd_ok_def)
  have closed: "\<not> swCloseOp s" using ok by (simp add: snd_ok_def)
  have "snd_ok M s' \<and> w_done (swSizes s') + w_done a = w_done (swSizes s) \<and> swBuf s' = swBuf s \<and> swOff s' = swOff s"
  proof (cases "rd = 0 \<and> cm = m")
    case True
    with r le closed have "s' = s" by (simp add: sw_SetSize_def c u)
    with True ok(1) C show ?thesis by simp
  next
    case False
    define nw where "nw = (sw_remainingSize cm (d - rd) = 0 \<and> w)"
    have s': "s' = s\<lparr>swSizes := win_pack cm (d - rd) nw\<rparr>"
      using r le closed False by (auto simp: sw_SetSize_def c u nw_def Let_def)
    have "unat cm \<le> unat (d - rd)" if nw
      using that sw_remaining [OF b(1,2)] by (simp add: nw_def)
    with ok a b C U show ?thesis unfolding s' snd_ok_def by auto
  qed
  then show "snd_ok M s'" "w_done (swSizes s') + w_done a = w_done (swSizes s)" "swBuf s' = swBuf s" "swOff s' = swOff s" by blast+
qed

text \<open>What the writer does next: it is through, it waits, or it sends a segment that fits the window.\<close>

lemma sw_WriteTo_spec:
  assumes ok: "snd_ok M s" "M < 2 ^ 31"
  shows "unsent s = [] \<Longrightarrow> sw_WriteTo s = (s, Drained)"
    "unsent s \<noteq> [] \<Longrightarrow> w_max (swSizes s) \<le> w_done (swSizes s) \<Longrightarrow> \<exists>s'. sw_WriteTo s = (s', WriteWaits) \<and> snd_ok M s' \<and> w_wait (swSizes s') \<and>
      unsent s' = unsent s \<and> w_done (swSizes s') = w_done (swSizes s)"
    "unsent s \<noteq> [] \<Longrightarrow> w_done (swSizes s) < w_max (swSizes s) \<Longrightarrow> \<exists>s' p part. sw_WriteTo s = (s', Segment p part) \<and> snd_ok M s' \<and> p \<noteq> [] \<and>
      length p \<le> maximumSegmentSize \<and> unsent s = p @ unsent s' \<and> w_done (swSizes s') = w_done (swSizes s) + length p \<and>
      w_wait (swSizes s') = w_wait (swSizes s) \<and> w_done (swSizes s') \<le> w_max (swSizes s')"
proof -
  obtain m d w where u: "win_unpack (swSizes s) = (m, d, w)" using prod_cases3 by blast
  note U = w_unpack [OF u]
  have len: "unat (of_nat (length (swBuf s)) :: u32) = length (swBuf s)" "\<not> swCloseOp s" "unat (swOff s) \<le> length (swBuf s)"
    using ok by (simp_all add: snd_ok_def unat_of_nat)
  have b: "unat m < 2 ^ 31" "unat d < 2 ^ 31" "0 < unat m" using ok U by (auto simp: snd_ok_def)
  have through: "of_nat (length (swBuf s)) \<le> swOff s \<longleftrightarrow> unsent s = []" using len by (auto simp: unsent_def word_le_nat_alt)
  show "sw_WriteTo s = (s, Drained)" if "unsent s = []" using that through len(2) by (simp add: sw_WriteTo_def)
  note rem = sw_remaining [OF b(1,2)]
  show "\<exists>s'. sw_WriteTo s = (s', WriteWaits) \<and> snd_ok M s' \<and> w_wait (swSizes s') \<and> unsent s' = unsent s \<and> w_done (swSizes s') = w_done (swSizes s)"
    if "unsent s \<noteq> []" "w_max (swSizes s) \<le> w_done (swSizes s)"
  proof -
    have "sw_remainingSize m d = 0" using rem that(2) U by (simp add: unat_eq_0)
    with that through len(2) have "sw_WriteTo s = (s\<lparr>swSizes := win_pack m d True\<rparr>, WriteWaits)" by (simp add: sw_WriteTo_def u)
    with ok b U that show ?thesis by (auto simp: snd_ok_def unsent_def)
  qed
  show "\<exists>s' p part. sw_WriteTo s = (s', Segment p part) \<and> snd_ok M s' \<and> p \<noteq> [] \<and>
      length p \<le> maximumSegmentSize \<and> unsent s = p @ unsent s' \<and> w_done (swSizes s') = w_done (swSizes s) + length p \<and>
      w_wait (swSizes s') = w_wait (swSizes s) \<and> w_done (swSizes s') \<le> w_max (swSizes s')"
    if more: "unsent s \<noteq> []" and lt: "w_done (swSizes s) < w_max (swSizes s)"
  proof -
    define remain where "remain = sw_remainingSize m d"
    have r: "unat remain = unat m - unat d" "remain \<noteq> 0" using rem lt U by (auto simp: remain_def unat_eq_0)
    define size0 :: u32 where "size0 = (if maximumSegmentSize < length (unsent s) then of_nat maximumSegmentSize else of_nat (length (unsent s)))"
    define sendSize where "sendSize = (if remain < size0 then remain else size0)"
    have "length (unsent s) \<le> length (swBuf s)" "length (swBuf s) < 2 ^ 32" using ok by (simp_all add: snd_ok_def unsent_def)
    then have "length (unsent s) < 2 ^ 32" by linarith
    then have s0: "unat size0 = min maximumSegmentSize (length (unsent s))" by (simp add: size0_def unat_of_nat maximumSegmentSize_def min_def)
    then have n: "unat sendSize = min (unat m - unat d) (min maximumSegmentSize (length (unsent s)))"
      using r by (auto simp: sendSize_def word_less_nat_alt min_def)
    moreover have "0 < length (unsent s)" "0 < unat m - unat d" using more lt U by simp_all
    ultimately have n': "0 < unat sendSize" "unat sendSize \<le> unat m - unat d" "unat sendSize \<le> maximumSegmentSize" "unat sendSize \<le> length (unsent s)"
      by (simp_all add: maximumSegmentSize_def)
    have d': "unat (d + sendSize) = unat d + unat sendSize" "unat (d + sendSize) \<le> unat m"
      using n'(2) b lt U by (simp_all add: unat_add32)
    have d'': "unat (d + sendSize) < 2 ^ 31" using d'(2) b(1) by linarith
    have "\<not> (d + sendSize) AND mask 31 < d" unfolding mask31_id [OF d''] using d'(1) by (simp add: word_less_nat_alt)
    then have snt: "sw_sent sendSize (s\<lparr>swOff := swOff s + sendSize\<rparr>) = Some (s\<lparr>swOff := swOff s + sendSize, swSizes := win_pack m (d + sendSize) w\<rparr>)"
      by (simp add: sw_sent_def u)
    define s' where "s' = s\<lparr>swOff := swOff s + sendSize, swSizes := win_pack m (d + sendSize) w\<rparr>"
    have w: "sw_WriteTo s = (s', Segment (take (unat sendSize) (unsent s)) (sendSize < of_nat (length (unsent s))))"
      unfolding sw_WriteTo_def u Let_def prod.case unsent_def [symmetric] remain_def [symmetric] size0_def [symmetric] sendSize_def [symmetric] snt s'_def
      using more through len(2) r(2) by simp
    have off: "unat (swOff s + sendSize) = unat (swOff s) + unat sendSize" "unat (swOff s) + unat sendSize \<le> length (swBuf s)"
      using n'(4) len ok more by (auto simp: unsent_def snd_ok_def intro!: unat_add32)
    have "unsent s' = drop (unat (swOff s + sendSize)) (swBuf s)" by (simp add: unsent_def s'_def)
    then have "unsent s' = drop (unat sendSize) (unsent s)" unfolding off(1) unsent_def drop_drop by (simp add: add.commute)
    moreover have "snd_ok M s'" using ok U b d' d'' off by (auto simp: snd_ok_def s'_def)
    ultimately show ?thesis using w n' d' d'' b U by (intro exI [of _ s'] exI conjI, simp_all) (auto simp: s'_def)
  qed
qed

section \<open>The receiver\<close>

definition elem_ok :: "listElement \<Rightarrow> bool" where
  "elem_ok e \<longleftrightarrow> unat (leL e) = length (leBuf e)"

definition queued :: "receiveWindow \<Rightarrow> nat" where
  "queued r = sum_list (map (length \<circ> leBuf) (rwQueue r))"

text \<open>The element that is being read counts in full until its last byte is taken.\<close>

definition pending :: "receiveWindow \<Rightarrow> nat" where
  "pending r = (if unat (rwOff r) = length (leBuf (rwElement r)) then 0 else length (leBuf (rwElement r)))"

definition unread :: "receiveWindow \<Rightarrow> byte list" where
  "unread r = drop (unat (rwOff r)) (leBuf (rwElement r)) @ concat (map leBuf (rwQueue r))"

text \<open>The bytes that the sender has not been told of.\<close>

definition credit :: "receiveWindow \<Rightarrow> nat" where
  "credit r = queued r + pending r + w_done (rwSizes r)"

definition rcv_ok :: "nat \<Rightarrow> receiveWindow \<Rightarrow> bool" where
  "rcv_ok M r \<longleftrightarrow> \<not> rwCloseOp r \<and> 0 < w_max (rwSizes r) \<and> w_max (rwSizes r) \<le> M \<and>
     (\<forall>e \<in> set (rwQueue r). elem_ok e \<and> leBuf e \<noteq> []) \<and> elem_ok (rwElement r) \<and> unat (rwOff r) \<le> length (leBuf (rwElement r)) \<and>
     unat (rwLength r) = queued r \<and> (unread r = [] \<longrightarrow> w_done (rwSizes r) = 0)"

definition ack_sum :: "u64 list \<Rightarrow> nat" where
  "ack_sum as = sum_list (map w_done as)"

definition acks_ok :: "nat \<Rightarrow> u64 list \<Rightarrow> bool" where
  "acks_ok M as \<longleftrightarrow> (\<forall>a \<in> set as. 0 < w_max a \<and> w_max a \<le> M)"

lemma elem_off: "elem_ok e \<Longrightarrow> off = ucast (leL e) \<longleftrightarrow> unat (off :: u32) = length (leBuf e)"
  unfolding word_unat_eq_iff unat_ucast_u32 elem_ok_def by simp

lemma calcSize_spec:
  assumes "sizes_ok M newSize" "0 < w_max (rwSizes r)" "w_max (rwSizes r) \<le> M" "w_done (rwSizes r) \<le> M"
  shows "\<exists>sz n. rw_calcSize newSize r = r\<lparr>rwSizes := sz, rwCount := n\<rparr> \<and> 0 < w_max sz \<and> w_max sz \<le> M \<and>
    w_done sz = w_done (rwSizes r) \<and> w_wait sz = w_wait (rwSizes r)"
proof (cases "rwCount r = 0")
  case True
  obtain m d w where u: "win_unpack (rwSizes r) = (m, d, w)" using prod_cases3 by blast
  note U = w_unpack [OF u]
  define nm where "nm = newSize m (rw_remainingSize m 0 r)"
  have n: "0 < unat nm" "unat nm \<le> M" "M < 2 ^ 31" using assms by (simp_all add: sizes_ok_def nm_def)
  then have n': "unat nm < 2 ^ 31" "unat d < 2 ^ 31" using assms(4) U by linarith+
  have "rw_calcSize newSize r = r\<lparr>rwSizes := win_pack nm d w, rwCount := -10 + 1\<rparr>" using True by (simp add: rw_calcSize_def u nm_def)
  then show ?thesis using n n' U by (intro exI conjI) auto
next
  case False
  then have "rw_calcSize newSize r = r\<lparr>rwSizes := rwSizes r, rwCount := rwCount r + 1\<rparr>" by (simp add: rw_calcSize_def)
  with assms show ?thesis by blast
qed

lemma rw_Write_spec:
  assumes env: "sizes_ok M newSize" and ok: "rcv_ok M r" and p: "p \<noteq> []" "length p \<le> maximumSegmentSize"
    and room: "credit r + length p \<le> M"
  shows "\<exists>r' a. rw_Write newSize p (of_nat (length p)) part r = (r', Inr a) \<and> rcv_ok M r' \<and> unread r' = unread r @ p \<and>
    credit r' + ack_sum (ack_list a) = credit r + length p \<and> acks_ok M (ack_list a) \<and> length (ack_list a) \<le> 1"
proof -
  have r: "0 < w_max (rwSizes r)" "w_max (rwSizes r) \<le> M" "w_done (rwSizes r) \<le> M" "\<not> rwCloseOp r" "M < 2 ^ 31"
    using ok env room by (simp_all add: rcv_ok_def sizes_ok_def credit_def)
  obtain sz n where c: "rw_calcSize newSize r = r\<lparr>rwSizes := sz, rwCount := n\<rparr>" "0 < w_max sz" "w_max sz \<le> M"
    "w_done sz = w_done (rwSizes r)" "w_wait sz = w_wait (rwSizes r)"
    using calcSize_spec [OF env r(1-3)] by blast
  obtain m d w where u: "win_unpack sz = (m, d, w)" using prod_cases3 by blast
  note U = w_unpack [OF u]
  have b: "unat m < 2 ^ 31" "unat d < 2 ^ 31" "0 < unat m" "unat m \<le> M" using U c r by auto
  define e where "e = \<lparr>leBuf = p, leL = of_nat (length p), lePart = part\<rparr>"
  have l16: "unat (of_nat (length p) :: u16) = length p" using p(2) by (simp add: unat_of_nat maximumSegmentSize_def)
  have el: "elem_ok e" by (simp add: elem_ok_def e_def l16)
  define full where "full = (rw_remainingSize m (of_nat (length p)) (r\<lparr>rwSizes := sz, rwCount := n\<rparr>) = 0)"
  define sz' where "sz' = (if w then sz else if full then win_pack m d True else win_pack m 0 False)"
  define a where "a = (if w \<or> full then None else Some (win_pack m d False))"
  define r' where "r' = rw_Push e (r\<lparr>rwSizes := sz', rwCount := n\<rparr>)"
  have upd: "x\<lparr>rwSizes := y, rwCount := z\<rparr> = x\<lparr>rwCount := z, rwSizes := y\<rparr>" for x :: receiveWindow and y z by (cases x) simp
  have W: "rw_Write newSize p (of_nat (length p)) part r = (r', Inr a)"
    using r(4) unfolding r'_def sz'_def a_def full_def rw_Write_def
    by (simp add: newListElement_def c(1) u Let_def e_def upd)
  have sz': "0 < w_max sz'" "w_max sz' \<le> M" "w_done sz' + ack_sum (ack_list a) = w_done (rwSizes r)"
    using U c b by (auto simp: sz'_def a_def ack_sum_def ack_list_def)
  have q: "queued r' = queued r + length p" "pending r' = pending r" "rwQueue r' = rwQueue r @ [e]" "rwElement r' = rwElement r"
    "rwOff r' = rwOff r" "rwSizes r' = sz'" "rwCloseOp r' = rwCloseOp r"
    by (simp_all add: r'_def rw_Push_def queued_def pending_def e_def)
  have "unat (rwLength r') = queued r + length p"
  proof -
    have "unat (ucast (leL e) :: u32) = length p" unfolding unat_ucast_u32 by (simp add: e_def l16)
    moreover have "queued r + length p < 2 ^ 32" using room r(5) by (simp add: credit_def)
    moreover have "unat (rwLength r) = queued r" using ok by (simp add: rcv_ok_def)
    ultimately show ?thesis by (simp add: r'_def rw_Push_def unat_add32)
  qed
  then have "rcv_ok M r'" using ok sz' el p by (auto simp: rcv_ok_def q e_def unread_def)
  moreover have "unread r' = unread r @ p" by (simp add: unread_def q e_def)
  moreover have "credit r' + ack_sum (ack_list a) = credit r + length p" using sz'(3) by (simp add: credit_def q)
  moreover have "acks_ok M (ack_list a)" "length (ack_list a) \<le> 1" using b by (auto simp: a_def ack_list_def acks_ok_def)
  ultimately show ?thesis using W by blast
qed

text \<open>When the last byte of an element is taken it is counted, or reported.\<close>

lemma rw_sendStatus_spec:
  assumes ok: "\<not> rwCloseOp r" "0 < w_max (rwSizes r)" "w_max (rwSizes r) \<le> M" "M < 2 ^ 31"
    and l: "w_done (rwSizes r) + unat l \<le> M" and s: "rw_sendStatus l r = (r', a)"
  shows "\<exists>sz. r' = r\<lparr>rwSizes := sz\<rparr> \<and> 0 < w_max sz \<and> w_max sz \<le> M \<and> w_done sz + ack_sum (ack_list a) = w_done (rwSizes r) + unat l \<and>
    (rwLength r = 0 \<longrightarrow> w_done sz = 0) \<and> acks_ok M (ack_list a) \<and> length (ack_list a) \<le> 1"
proof -
  obtain m d w where u: "win_unpack (rwSizes r) = (m, d, w)" using prod_cases3 by blast
  note U = w_unpack [OF u]
  have sum: "unat (d + ucast l) = unat d + unat l"
    using l U ok(4) unat_add32 [of d "ucast l"] unfolding unat_ucast_u32 by simp
  have b: "unat m < 2 ^ 31" "unat (d + ucast l) < 2 ^ 31" "0 < unat m" "unat m \<le> M" using ok l U sum by auto
  have no: "d \<le> (d + ucast l) AND mask 31" unfolding mask31_id [OF b(2)] by (simp add: word_le_nat_alt sum)
  have "uint m = int (unat m)" by simp
  then have "0 < uint m" using b(3) by linarith
  then have all: "rw_remainingSize m 0 r = m" if "rwLength r = 0" using that by (simp add: rw_remainingSize_def Let_def)
  define tell where "tell \<longleftrightarrow> w \<and> 0 < rw_remainingSize m 0 r \<or> m div 2 \<le> d + ucast l \<or> rw_remainingSize m 0 r = m"
  have "rw_sendStatus l r = (if tell then (r\<lparr>rwSizes := win_pack m 0 False\<rparr>, Some (win_pack m (d + ucast l) False))
      else (r\<lparr>rwSizes := win_pack m (d + ucast l) w\<rparr>, None))"
    using no by (simp add: rw_sendStatus_def u Let_def tell_def)
  moreover have "rwLength r = 0 \<Longrightarrow> tell" using all by (simp add: tell_def)
  ultimately show ?thesis using s b sum U by (cases tell) (auto simp: ack_sum_def ack_list_def acks_ok_def)
qed

lemma rw_copyData_spec:
  assumes ok: "rcv_ok M r" "M < 2 ^ 31" "credit r \<le> M" and k: "0 < k"
  shows "unread r = [] \<Longrightarrow> rw_copyData k r = (r, ReadWaits)"
    "unread r \<noteq> [] \<Longrightarrow> \<exists>r' bs a. rw_copyData k r = (r', ReadBytes bs a) \<and> rcv_ok M r' \<and> bs \<noteq> [] \<and> unread r = bs @ unread r' \<and>
      credit r' + ack_sum (ack_list a) = credit r \<and> acks_ok M (ack_list a) \<and> length (ack_list a) \<le> 1"
proof -
  note R = ok(1) [unfolded rcv_ok_def]
  have el: "elem_ok (rwElement r)" using R by blast
  note off = elem_off [OF el, of "rwOff r"]
  show "rw_copyData k r = (r, ReadWaits)" if none: "unread r = []"
  proof -
    have "rwQueue r = []" using none R by (cases "rwQueue r") (auto simp: unread_def)
    moreover have "unat (rwOff r) = length (leBuf (rwElement r))" using none R by (simp add: unread_def)
    ultimately show ?thesis using R off by (simp add: rw_copyData_def rw_Pop_def)
  qed
  show "\<exists>r' bs a. rw_copyData k r = (r', ReadBytes bs a) \<and> rcv_ok M r' \<and> bs \<noteq> [] \<and> unread r = bs @ unread r' \<and>
      credit r' + ack_sum (ack_list a) = credit r \<and> acks_ok M (ack_list a) \<and> length (ack_list a) \<le> 1"
    if some: "unread r \<noteq> []"
  proof -
    obtain r1 where r1: "(if rwOff r = ucast (leL (rwElement r)) then rw_Pop r else Some r) = Some r1"
      "elem_ok (rwElement r1)" "unat (rwOff r1) < length (leBuf (rwElement r1))" "unread r1 = unread r" "credit r1 = credit r"
      "rwSizes r1 = rwSizes r" "rwCloseOp r1 = rwCloseOp r" "unat (rwLength r1) = queued r1" "\<forall>e \<in> set (rwQueue r1). elem_ok e \<and> leBuf e \<noteq> []"
    proof (cases "rwOff r = ucast (leL (rwElement r))")
      case True
      then have o: "unat (rwOff r) = length (leBuf (rwElement r))" using off by blast
      with some obtain e es where q: "rwQueue r = e # es" by (cases "rwQueue r") (auto simp: unread_def)
      with R have e: "elem_ok e" "leBuf e \<noteq> []" "unat (leL e) = length (leBuf e)" by (simp_all add: elem_ok_def)
      have len: "unat (rwLength r) = length (leBuf e) + sum_list (map (length \<circ> leBuf) es)" using R q by (simp add: queued_def)
      then have "rwLength r \<noteq> 0" using e(2) by (auto simp: unat_eq_0 [symmetric])
      moreover have "unat (rwLength r - ucast (leL e)) = sum_list (map (length \<circ> leBuf) es)"
        using len e(3) unat_sub32 [of "ucast (leL e)" "rwLength r"] unfolding unat_ucast_u32 by simp
      ultimately show thesis
        using that [of "r\<lparr>rwQueue := es, rwLength := rwLength r - ucast (leL e), rwElement := e, rwOff := 0\<rparr>"] True q e R o
        by (simp add: rw_Pop_def unread_def credit_def queued_def pending_def)
    next
      case False
      then have "unat (rwOff r) < length (leBuf (rwElement r))" using off R by fastforce
      with that [of r] R False show thesis by simp
    qed
    define e where "e = rwElement r1"
    define bs where "bs = take k (drop (unat (rwOff r1)) (leBuf e))"
    define r2 where "r2 = r1\<lparr>rwOff := rwOff r1 + of_nat (length bs)\<rparr>"
    have eL: "unat (leL e) = length (leBuf e)" using r1(2) by (simp add: e_def elem_ok_def)
    have small: "length (leBuf e) < 2 ^ 16" using unsigned_less [of "leL e", where ?'a = nat] eL by simp
    have bs: "bs \<noteq> []" "unat (rwOff r1) + length bs \<le> length (leBuf e)" using r1(3) k by (auto simp: bs_def e_def)
    then have o2: "unat (rwOff r1 + of_nat (length bs)) = unat (rwOff r1) + length bs"
      using small by (subst unat_add32) (simp_all add: unat_of_nat)
    have R2: "rwElement r2 = e" "rwQueue r2 = rwQueue r1" "queued r2 = queued r1" "rwSizes r2 = rwSizes r" "rwCloseOp r2 = rwCloseOp r"
      "rwLength r2 = rwLength r1" "unat (rwOff r2) = unat (rwOff r1) + length bs"
      using o2 by (simp_all add: r2_def e_def queued_def r1)
    have "drop (unat (rwOff r1)) (leBuf e) = bs @ drop (unat (rwOff r1) + length bs) (leBuf e)"
      by (metis append_take_drop_id bs_def drop_drop length_take min.cobounded2 add.commute take_all_iff linear bs_def append_eq_conv_conj)
    then have "unread r1 = bs @ unread r2" unfolding unread_def R2 by (simp add: e_def)
    then have un: "unread r = bs @ unread r2" by (simp only: r1(4))
    have pend: "pending r1 = length (leBuf e)" "credit r1 = queued r1 + length (leBuf e) + w_done (rwSizes r)"
      using r1(3) by (simp_all add: pending_def credit_def e_def r1(6))
    have copy: "rw_copyData k r = (if rwOff r2 = ucast (leL e) then (case rw_sendStatus (leL e) r2 of (w3, ack) \<Rightarrow> (w3, ReadBytes bs ack))
        else (r2, ReadBytes bs None))"
    proof -
      have tk: "take (unat (leL e)) (leBuf e) = leBuf e" using eL by simp
      show ?thesis
        unfolding rw_copyData_def r1(1) option.case Let_def e_def [symmetric] tk bs_def [symmetric] r2_def [symmetric] using R by simp
    qed
    have fin: "rwOff r2 = ucast (leL e) \<longleftrightarrow> unat (rwOff r2) = length (leBuf e)" by (rule elem_off) (simp add: elem_ok_def eL)
    show ?thesis
    proof (cases "unat (rwOff r2) = length (leBuf e)")
      case True
      obtain r3 a where s: "rw_sendStatus (leL e) r2 = (r3, a)" by fastforce
      have "w_done (rwSizes r2) + unat (leL e) \<le> M" using ok(3) pend r1(5) eL by (simp add: R2)
      then obtain sz where sz: "r3 = r2\<lparr>rwSizes := sz\<rparr>" "0 < w_max sz" "w_max sz \<le> M"
        "w_done sz + ack_sum (ack_list a) = w_done (rwSizes r) + length (leBuf e)" "rwLength r2 = 0 \<longrightarrow> w_done sz = 0"
        "acks_ok M (ack_list a)" "length (ack_list a) \<le> 1"
        using rw_sendStatus_spec [OF _ _ _ ok(2) _ s] R eL by (auto simp: R2)
      have q3: "queued r3 = queued r1" "pending r3 = 0" "unread r3 = unread r2" "rwSizes r3 = sz"
        using True by (simp_all add: sz(1) queued_def pending_def unread_def R2)
      have "rcv_ok M r3"
      proof -
        have "w_done sz = 0" if "unread r3 = []"
        proof -
          have "rwQueue r1 = []" using that r1(9) unfolding q3 by (cases "rwQueue r1") (auto simp: unread_def R2)
          then have "unat (rwLength r2) = 0" using r1(8) by (simp add: R2 queued_def)
          with sz(5) show ?thesis by (simp add: unat_eq_0)
        qed
        with R r1 sz R2 bs eL show ?thesis by (auto simp: rcv_ok_def q3 elem_ok_def e_def) (simp_all add: sz(1) R2 q3 queued_def)
      qed
      moreover have "credit r3 + ack_sum (ack_list a) = credit r" using sz(4) pend r1(5) by (simp add: credit_def q3)
      moreover have "rw_copyData k r = (r3, ReadBytes bs a)" using copy fin True s by simp
      ultimately show ?thesis using un bs(1) sz(6,7) q3(3) by (metis)
    next
      case False
      have "rcv_ok M r2"
        using R r1 R2 bs eL False by (auto simp: rcv_ok_def elem_ok_def e_def unread_def)
      moreover have "credit r2 = credit r" using False pend r1(5) by (simp add: credit_def pending_def R2)
      moreover have "rw_copyData k r = (r2, ReadBytes bs None)" using copy fin False by simp
      ultimately show ?thesis using un bs(1) by (intro exI [of _ r2] exI [of _ bs] exI [of _ None]) (simp add: ack_sum_def ack_list_def acks_ok_def)
    qed
  qed
qed


section \<open>The connection\<close>

definition flight :: "Link \<Rightarrow> byte list" where
  "flight l = concat (map fst (lkData l))"

definition link_ok :: "nat \<Rightarrow> Link \<Rightarrow> bool" where
  "link_ok M l \<longleftrightarrow> snd_ok M (lkSnd l) \<and> rcv_ok M (lkRcv l) \<and> acks_ok M (lkAcks l) \<and>
     (\<forall>(p, _) \<in> set (lkData l). p \<noteq> [] \<and> length p \<le> maximumSegmentSize) \<and>
     w_done (swSizes (lkSnd l)) = length (flight l) + credit (lkRcv l) + ack_sum (lkAcks l) \<and>
     lkSent l = lkGot l @ unread (lkRcv l) @ flight l @ unsent (lkSnd l)"

lemma ack_append [simp]: "ack_sum (a @ b) = ack_sum a + ack_sum b" "acks_ok M (a @ b) \<longleftrightarrow> acks_ok M a \<and> acks_ok M b"
  by (auto simp: ack_sum_def acks_ok_def)

lemma new_link_ok:
  assumes "sizes_ok M newSize" shows "link_ok M new_link"
proof -
  have m: "unat (of_nat (maximumSegmentSize * 30) :: u32) = maximumSegmentSize * 30" by (simp add: maximumSegmentSize_def)
  have "maximumSegmentSize * 30 < 2 ^ 31" "0 < maximumSegmentSize * 30" "maximumSegmentSize * 30 \<le> M"
    using assms by (simp_all add: maximumSegmentSize_def sizes_ok_def)
  moreover define p0 where "p0 = win_pack (of_nat (maximumSegmentSize * 30)) 0 False"
  ultimately have w: "w_max p0 = maximumSegmentSize * 30" "w_done p0 = 0" "\<not> w_wait p0"
    unfolding p0_def by (subst w_pack; simp only: m; simp)+
  show ?thesis
    unfolding link_ok_def new_link_def new_sendWindow_def new_receiveWindow_def snd_ok_def rcv_ok_def p0_def [symmetric]
    using \<open>0 < maximumSegmentSize * 30\<close> \<open>maximumSegmentSize * 30 \<le> M\<close>
    by (simp add: w acks_ok_def flight_def unread_def unsent_def ack_sum_def credit_def queued_def pending_def elem_ok_def)
qed

text \<open>The work that is left: bytes to send, to deliver and to read, statuses to take in, and one for a writer that does not wait.\<close>

definition link_work :: "Link \<Rightarrow> nat" where
  "link_work l = 7 * length (unsent (lkSnd l)) + 6 * length (flight l) + 3 * length (unread (lkRcv l)) + 2 * length (lkAcks l) +
     (if sw_waits (lkSnd l) then 0 else 1)"

lemma link_move_ok:
  assumes env: "sizes_ok M newSize" and m: "link_move newSize l l'" and ok: "link_ok M l"
  shows "link_ok M l' \<and> link_work l' < link_work l \<and> lkSent l' = lkSent l"
  using m ok
proof (induction rule: link_move.induct)
  case (segment l s p part)
  note L = segment(3) [unfolded link_ok_def]
  have M: "snd_ok M (lkSnd l)" "M < 2 ^ 31" using L env by (simp_all add: sizes_ok_def)
  note W = sw_WriteTo_spec [OF M]
  have ne: "unsent (lkSnd l) \<noteq> []" "w_done (swSizes (lkSnd l)) < w_max (swSizes (lkSnd l))"
    using W(1,2) segment(2) by (cases "unsent (lkSnd l) = []"; cases "w_done (swSizes (lkSnd l)) < w_max (swSizes (lkSnd l))"; force)+
  from W(3) [OF this] segment(2) have s: "snd_ok M s" "p \<noteq> []" "length p \<le> maximumSegmentSize" "unsent (lkSnd l) = p @ unsent s"
    "w_done (swSizes s) = w_done (swSizes (lkSnd l)) + length p" "w_wait (swSizes s) = w_wait (swSizes (lkSnd l))" by auto
  with L show ?case by (simp add: link_ok_def flight_def link_work_def sw_waits_eq)
next
  case (waits l s)
  note L = waits(3) [unfolded link_ok_def]
  have M: "snd_ok M (lkSnd l)" "M < 2 ^ 31" using L env by (simp_all add: sizes_ok_def)
  note W = sw_WriteTo_spec [OF M]
  have ne: "unsent (lkSnd l) \<noteq> []" "w_max (swSizes (lkSnd l)) \<le> w_done (swSizes (lkSnd l))"
    using W(1,3) waits(2) by (cases "unsent (lkSnd l) = []"; cases "w_done (swSizes (lkSnd l)) < w_max (swSizes (lkSnd l))"; force)+
  from W(2) [OF this] waits(2) have "snd_ok M s" "w_wait (swSizes s)" "unsent s = unsent (lkSnd l)" "w_done (swSizes s) = w_done (swSizes (lkSnd l))"
    by auto
  with L waits(1) show ?case by (simp add: link_ok_def flight_def link_work_def sw_waits_eq)
next
  case (deliver l p part rest r a)
  note L = deliver(3) [unfolded link_ok_def]
  have p: "p \<noteq> []" "length p \<le> maximumSegmentSize" "rcv_ok M (lkRcv l)" using L deliver(1) by auto
  have "snd_ok M (lkSnd l)" using L by blast
  then have "w_done (swSizes (lkSnd l)) \<le> M" by (simp add: snd_ok_def)
  then have "credit (lkRcv l) + length p \<le> M" using L deliver(1) by (simp add: flight_def)
  from rw_Write_spec [OF env p(3,1,2) this, of part] deliver(2)
  have r: "rcv_ok M r" "unread r = unread (lkRcv l) @ p" "credit r + ack_sum (ack_list a) = credit (lkRcv l) + length p"
    "acks_ok M (ack_list a)" "length (ack_list a) \<le> 1" by auto
  have "0 < length p" using p(1) by simp
  with r(5) have "2 * length (ack_list a) < 3 * length p" by linarith
  then show ?case using L r deliver(1) by (simp add: link_ok_def flight_def link_work_def)
next
  case (acked l a rest s woken)
  note L = acked(3) [unfolded link_ok_def]
  have M: "snd_ok M (lkSnd l)" "M < 2 ^ 31" using L env by (simp_all add: sizes_ok_def)
  have a: "0 < w_max a" "w_max a \<le> M" "w_done a \<le> w_done (swSizes (lkSnd l))"
    using L acked(1) by (simp_all add: acks_ok_def ack_sum_def)
  note S = sw_SetSize_spec [OF M a acked(2)]
  then have "unsent s = unsent (lkSnd l)" by (simp add: unsent_def)
  with L S acked(1) show ?case by (simp add: link_ok_def flight_def link_work_def acks_ok_def ack_sum_def)
next
  case (reads k l r bs a)
  note L = reads(3) [unfolded link_ok_def]
  have "snd_ok M (lkSnd l)" using L by blast
  then have "w_done (swSizes (lkSnd l)) \<le> M" by (simp add: snd_ok_def)
  then have R: "rcv_ok M (lkRcv l)" "M < 2 ^ 31" "credit (lkRcv l) \<le> M" using L env by (simp_all add: sizes_ok_def)
  note C = rw_copyData_spec [OF R reads(1)]
  have "unread (lkRcv l) \<noteq> []" using C(1) reads(2) by auto
  from C(2) [OF this] reads(2) have r: "rcv_ok M r" "bs \<noteq> []" "unread (lkRcv l) = bs @ unread r"
    "credit r + ack_sum (ack_list a) = credit (lkRcv l)" "acks_ok M (ack_list a)" "length (ack_list a) \<le> 1" by auto
  have "0 < length bs" using r(2) by simp
  with r(6) have "2 * length (ack_list a) < 3 * length bs" by linarith
  with L r show ?case by (simp add: link_ok_def flight_def link_work_def)
qed

lemma link_step_ok:
  assumes "sizes_ok M newSize" "link_step newSize l l'" "link_ok M l" shows "link_ok M l'"
  using assms(2)
proof cases
  case move
  then show ?thesis using link_move_ok [OF assms(1) _ assms(3)] by blast
next
  case (writes buf)
  note L = assms(3) [unfolded link_ok_def]
  have "unsent (lkSnd l) = []"
  proof (rule ccontr)
    assume "unsent (lkSnd l) \<noteq> []"
    with sw_WriteTo_spec(2,3) [of M "lkSnd l"] L assms(1) writes(2) show False
      by (cases "w_done (swSizes (lkSnd l)) < w_max (swSizes (lkSnd l))") (force simp: sizes_ok_def)+
  qed
  moreover have "snd_ok M (sw_SetSendBuf buf (lkSnd l))" "unsent (sw_SetSendBuf buf (lkSnd l)) = buf"
    using L writes(3) by (auto simp: snd_ok_def sw_SetSendBuf_def unsent_def)
  moreover have "swSizes (sw_SetSendBuf buf (lkSnd l)) = swSizes (lkSnd l)" by (simp add: sw_SetSendBuf_def)
  ultimately show ?thesis using L by (simp add: link_ok_def writes(1) flight_def)
qed

lemma reachable_ok:
  assumes "sizes_ok M newSize" "link_reachable newSize l" shows "link_ok M l"
  using assms(2)
proof (induction rule: link_reachable.induct)
  case fresh
  then show ?case by (rule new_link_ok [OF assms(1)])
next
  case (further l l')
  then show ?case using link_step_ok [OF assms(1)] by blast
qed

text \<open>Nothing can be done only when everything has been read.\<close>

lemma stuck_done:
  assumes env: "sizes_ok M newSize" and ok: "link_ok M l" and stuck: "\<And>l'. \<not> link_move newSize l l'"
  shows "lkGot l = lkSent l"
proof -
  note L = ok [unfolded link_ok_def]
  have M: "snd_ok M (lkSnd l)" "M < 2 ^ 31" using L env by (simp_all add: sizes_ok_def)
  then have M3: "w_done (swSizes (lkSnd l)) \<le> M" by (simp add: snd_ok_def)
  have acks: "lkAcks l = []"
  proof (cases "lkAcks l")
    case (Cons a rest)
    obtain s w where "sw_SetSize a (lkSnd l) = (s, w)" by fastforce
    with Cons stuck link_move.acked show ?thesis by blast
  qed
  have data: "lkData l = []"
  proof (cases "lkData l")
    case (Cons d rest)
    obtain p part where d: "d = (p, part)" by fastforce
    have p: "p \<noteq> []" "length p \<le> maximumSegmentSize" "rcv_ok M (lkRcv l)" using L Cons d by auto
    have "credit (lkRcv l) + length p \<le> M" using L M3 Cons d by (simp add: flight_def)
    from rw_Write_spec [OF env p(3,1,2) this, of part] Cons d stuck link_move.deliver show ?thesis by blast
  qed
  have read: "unread (lkRcv l) = []"
  proof (rule ccontr)
    assume "unread (lkRcv l) \<noteq> []"
    moreover have "rcv_ok M (lkRcv l)" "credit (lkRcv l) \<le> M" using L M3 by simp_all
    ultimately obtain r bs a where rd: "rw_copyData 1 (lkRcv l) = (r, ReadBytes bs a)"
      using rw_copyData_spec(2) [OF _ M(2), of "lkRcv l" 1] by auto
    from link_move.reads [OF zero_less_one rd] stuck show False by blast
  qed
  have "credit (lkRcv l) = 0"
  proof -
    have R: "\<forall>e \<in> set (rwQueue (lkRcv l)). leBuf e \<noteq> []" "w_done (rwSizes (lkRcv l)) = 0" "unat (rwOff (lkRcv l)) \<le> length (leBuf (rwElement (lkRcv l)))"
      using L read by (simp_all add: rcv_ok_def)
    then have "rwQueue (lkRcv l) = []" using read by (cases "rwQueue (lkRcv l)") (auto simp: unread_def)
    with R read show ?thesis by (simp add: credit_def queued_def pending_def unread_def)
  qed
  then have zero: "w_done (swSizes (lkSnd l)) = 0" using L acks data by (simp add: flight_def ack_sum_def)
  then have lt: "w_done (swSizes (lkSnd l)) < w_max (swSizes (lkSnd l))" using M(1) by (simp add: snd_ok_def)
  then have go: "\<not> sw_waits (lkSnd l)" using M(1) by (auto simp: snd_ok_def sw_waits_eq)
  have "unsent (lkSnd l) = []"
    using sw_WriteTo_spec(3) [OF M(1,2) _ lt] link_move.segment [OF go] stuck by blast
  with L read data show ?thesis by (simp add: flight_def)
qed

text \<open>C21. In every state of a connection, whatever the order of writing, sending, delivering, reading and reporting back: the
  reader has a prefix of what the writer wrote, and the rest is in the receive window, under way and in the buffer of the
  writer, in this order; the sender counts exactly the bytes that are under way, in the receive window, or read and
  not yet reported, so what the receiver holds and what is under way together stay within the largest window; and
  the sender never finds a report of more than it sent, nor its counter past its 31 bits.\<close>

theorem window_accounts:
  assumes "link_reachable newSize l" "sizes_ok M newSize"
  shows "lkSent l = lkGot l @ unread (lkRcv l) @ flight l @ unsent (lkSnd l) \<and>
    length (flight l) + queued (lkRcv l) + pending (lkRcv l) + w_done (rwSizes (lkRcv l)) + ack_sum (lkAcks l) = w_done (swSizes (lkSnd l)) \<and>
    length (flight l) + queued (lkRcv l) + pending (lkRcv l) \<le> M \<and>
    (\<forall>a \<in> set (lkAcks l). w_done a \<le> w_done (swSizes (lkSnd l))) \<and> snd (sw_WriteTo (lkSnd l)) \<noteq> Spins"
proof -
  note L = reachable_ok [OF assms(2,1), unfolded link_ok_def]
  have M: "snd_ok M (lkSnd l)" "M < 2 ^ 31" using L assms(2) by (simp_all add: sizes_ok_def)
  have "w_done a \<le> ack_sum (lkAcks l)" if "a \<in> set (lkAcks l)" for a
    using member_le_sum_list [of "w_done a" "map w_done (lkAcks l)"] that by (simp add: ack_sum_def)
  then have acks: "\<forall>a \<in> set (lkAcks l). w_done a \<le> w_done (swSizes (lkSnd l))" using L by fastforce
  have "snd (sw_WriteTo (lkSnd l)) \<noteq> Spins"
    using sw_WriteTo_spec [OF M]
    by (cases "unsent (lkSnd l) = []"; cases "w_done (swSizes (lkSnd l)) < w_max (swSizes (lkSnd l))") (force simp: not_less)+
  with L acks show ?thesis by (auto simp: snd_ok_def credit_def)
qed

text \<open>C22. The two windows cannot block each other. From any state, without further writes, every order of the remaining steps
  ends, after at most \<open>link_work\<close> of them, and wherever it ends the reader has got everything that was written.\<close>

theorem mux_delivers:
  assumes "link_reachable newSize l" "sizes_ok M newSize"
  shows "(\<forall>n l'. (link_move newSize ^^ n) l l' \<longrightarrow> n \<le> link_work l) \<and>
    (\<forall>l'. (link_move newSize)\<^sup>*\<^sup>* l l' \<longrightarrow> (\<nexists>l''. link_move newSize l' l'') \<longrightarrow> lkGot l' = lkSent l) \<and>
    (\<exists>l'. (link_move newSize)\<^sup>*\<^sup>* l l' \<and> lkGot l' = lkSent l)"
proof -
  note ok = reachable_ok [OF assms(2,1)]
  note step = link_move_ok [OF assms(2)]
  have pow: "link_ok M l' \<and> n + link_work l' \<le> link_work l \<and> lkSent l' = lkSent l" if "(link_move newSize ^^ n) l l'" for n l'
    using that
  proof (induction n arbitrary: l')
    case 0
    with ok show ?case by simp
  next
    case (Suc n)
    then obtain k where "(link_move newSize ^^ n) l k" "link_move newSize k l'" by auto
    with Suc.IH step show ?case by fastforce
  qed
  have stop: "lkGot l' = lkSent l" if r: "(link_move newSize)\<^sup>*\<^sup>* l l'" "\<nexists>l''. link_move newSize l' l''" for l'
  proof -
    from r(1) obtain n where "(link_move newSize ^^ n) l l'" using rtranclp_imp_relpowp by metis
    with pow stuck_done [OF assms(2)] r(2) show ?thesis by metis
  qed
  have "\<exists>l'. (link_move newSize)\<^sup>*\<^sup>* k l' \<and> (\<nexists>l''. link_move newSize l' l'')" if "link_ok M k" for k
    using that
  proof (induction "link_work k" arbitrary: k rule: less_induct)
    case less
    show ?case
    proof (cases "\<exists>k'. link_move newSize k k'")
      case True
      then obtain k' where k': "link_move newSize k k'" by blast
      with step less.prems have "link_ok M k'" "link_work k' < link_work k" by blast+
      then obtain l' where "(link_move newSize)\<^sup>*\<^sup>* k' l'" "\<nexists>l''. link_move newSize l' l''" using less.hyps by blast
      with k' show ?thesis by (meson converse_rtranclp_into_rtranclp)
    qed blast
  qed
  with ok stop pow show ?thesis by (metis add_leD1)
qed


section \<open>Packets\<close>

lemma le_word_Nil [simp]: "le_word [] = 0"
  by (simp add: le_word_def)

lemma le_word_Cons [simp]: "le_word (b # bs) = ucast b OR push_bit 8 (le_word bs)"
  by (simp add: le_word_def)

lemma le_bytes_Suc: "le_bytes (Suc n) w = ucast w # le_bytes n (drop_bit 8 w)"
  by (simp add: le_bytes_def upt_conv_Cons map_Suc_upt [symmetric] comp_def add.commute del: upt_Suc)

lemma length_le_bytes [simp]: "length (le_bytes n w) = n"
  by (simp add: le_bytes_def)

lemma le_word_le_bytes: "le_word (le_bytes n w) = take_bit (8 * n) w"
proof (induction n arbitrary: w)
  case 0
  then show ?case by (simp add: le_bytes_def)
next
  case (Suc n)
  show ?case
    unfolding le_bytes_Suc le_word_Cons Suc.IH
    by (rule bit_word_eqI) (auto simp: bit_simps not_less dest: bit_imp_le_length)
qed

lemma le_roundtrip [simp]:
  "le_word (le_bytes 2 (w :: u16)) = w" "le_word (le_bytes 4 (x :: u32)) = x" "le_word (le_bytes 8 (y :: u64)) = y"
  unfolding le_word_le_bytes by (rule bit_word_eqI, auto simp: bit_simps dest: bit_imp_le_length)+

lemma readFull_append [simp]: "length a = n \<Longrightarrow> readFull n (a @ b) = Inr (a, b)"
  by (auto simp: readFull_def)

text \<open>The packets that \<^verbatim>\<open>Set\<close> makes.\<close>

definition packet_ok :: "muxPackager \<Rightarrow> bool" where
  "packet_ok p \<longleftrightarrow> (\<exists>f i c w. p = mp_Set f i c w)"

lemma mp_UnPack_Pack:
  assumes "packet_ok p" shows "mp_UnPack (mp_Pack p @ rest) = Inr (p, rest)"
proof -
  have len: "length (mpContent p) \<le> maximumSegmentSize" and c: "\<not> has_content (mpFlag p) \<Longrightarrow> mpContent p = []"
    and w: "mpFlag p \<noteq> muxMsgSendOk \<Longrightarrow> mpWindow p = 0"
    using assms by (auto simp: packet_ok_def mp_Set_def)
  have n: "has_content muxMsgSendOk = False" by (simp add: has_content_def)
  have u: "unat (of_nat (length (mpContent p)) :: u16) = length (mpContent p)" using len by (simp add: unat_of_nat maximumSegmentSize_def)
  have h: "readFull 5 (f # le_bytes 4 i @ more) = Inr (f # le_bytes 4 i, more)" for f more and i :: u32
    using readFull_append [of "f # le_bytes 4 i" 5 more] by simp
  show ?thesis
  proof (cases "has_content (mpFlag p)")
    case True
    then have "mpFlag p \<noteq> muxMsgSendOk" using n by auto
    then have "mpWindow p = 0" by (rule w)
    with True u len show ?thesis by (cases p) (simp add: mp_Pack_def mp_UnPack_def Let_def h)
  next
    case False
    then have "mpContent p = []" by (rule c)
    with False w show ?thesis
      by (cases p) (auto simp add: mp_Pack_def mp_UnPack_def Let_def h)
  qed
qed

text \<open>C23. What one side writes the other reads: any packets that are set up and packed one after another are unpacked to the
  same packets, in order, whatever their kind, and reading stops at the end of the stream.\<close>

theorem packets_roundtrip:
  assumes "list_all packet_ok ps" shows "read_packets (concat (map mp_Pack ps)) = ps"
  using assms
proof (induction ps)
  case Nil
  have "mp_UnPack [] = Inl ShortRead" by (simp add: mp_UnPack_def readFull_def)
  then show ?case by (subst read_packets.simps) simp
next
  case (Cons p ps)
  then have "mp_UnPack (mp_Pack p @ concat (map mp_Pack ps)) = Inr (p, concat (map mp_Pack ps))"
    using mp_UnPack_Pack by simp
  with Cons show ?case by (subst read_packets.simps) simp
qed

section \<open>Concrete inputs\<close>

theorem packets_roundtrip_witness:
  "read_packets (mp_Pack (mp_Set muxNewMsg 7 [1, 2, 3] 0) @ mp_Pack (mp_Set muxMsgSendOk 7 [] 99)) =
     [\<lparr>mpFlag = 3, mpId = 7, mpWindow = 0, mpContent = [1, 2, 3]\<rparr>, \<lparr>mpFlag = 5, mpId = 7, mpWindow = 99, mpContent = []\<rparr>]"
proof -
  have "list_all packet_ok [mp_Set muxNewMsg 7 [1, 2, 3] 0, mp_Set muxMsgSendOk 7 [] 99]" by (auto simp: packet_ok_def)
  from packets_roundtrip [OF this] show ?thesis by (simp add: mp_Set_def has_content_def maximumSegmentSize_def)
qed

definition demo_size :: "u32 \<Rightarrow> u32 \<Rightarrow> u32" where
  "demo_size a b = 122550"

definition demo_link :: Link where
  "demo_link = new_link\<lparr>lkSnd := sw_SetSendBuf [1, 2, 3] (lkSnd new_link), lkSent := [1, 2, 3]\<rparr>"

lemma demo_link_reachable: "link_reachable demo_size demo_link" "sizes_ok 122550 demo_size"
proof -
  have "link_step demo_size new_link (new_link\<lparr>lkSnd := sw_SetSendBuf [1, 2, 3] (lkSnd new_link), lkSent := lkSent new_link @ [1, 2, 3]\<rparr>)"
    by (rule writes) (simp_all add: new_link_def new_sendWindow_def sw_WriteTo_def)
  moreover have "lkSent new_link = []" by (simp add: new_link_def)
  ultimately show "link_reachable demo_size demo_link" using link_reachable.further [OF link_reachable.fresh] by (simp add: demo_link_def)
  show "sizes_ok 122550 demo_size" by (simp add: sizes_ok_def demo_size_def maximumSegmentSize_def)
qed

theorem window_accounts_witness:
  "lkSent demo_link = [1, 2, 3] \<and> unsent (lkSnd demo_link) = [1, 2, 3] \<and> length (flight demo_link) + queued (lkRcv demo_link) \<le> 122550"
  using window_accounts [OF demo_link_reachable]
  by (auto simp: demo_link_def unsent_def sw_SetSendBuf_def)

theorem mux_delivers_witness: "\<exists>l'. (link_move demo_size)\<^sup>*\<^sup>* demo_link l' \<and> lkGot l' = [1, 2, 3]"
  using mux_delivers [OF demo_link_reachable] by (simp add: demo_link_def)

end
