(* ===== verification/NpsFile.thy ===== *)
theory NpsFile
  imports SyncProps
begin

text \<open>
  The files of the nps tables (\<^verbatim>\<open>upstream/NPS/lib/file/file.go\<close>) and the start of the nps server from
  them (\<^verbatim>\<open>GetDb\<close>, \<^verbatim>\<open>InitFromCsv\<close>): what a restart keeps of what a synchronisation has set up.
  A file is the list of its pieces between separators, each a row or \<open>None\<close> where nothing can be
  decoded; a file that cannot be read is \<open>None\<close>. Every row names a client.
\<close>

section \<open>Loading and storing\<close>

record NpsFiles =
  nfClients :: "NpsClient option list option"
  nfTasks :: "NpsTask option list option"
  nfHosts :: "NpsHost option list option"

text \<open>The table and the counter of ids, given what becomes of a decoded row.\<close>

fun loadSyncMapFromFile :: "('v \<Rightarrow> int) \<Rightarrow> ('v \<Rightarrow> 'v option) \<Rightarrow> 'v option list \<Rightarrow> (int, 'v) gomap \<times> int \<Rightarrow> (int, 'v) gomap \<times> int" where
  "loadSyncMapFromFile key f [] s = s"
| "loadSyncMapFromFile key f (r # rs) (m, inc) =
     (case Option.bind r f of
        None \<Rightarrow> loadSyncMapFromFile key f rs (m, inc)
      | Some v \<Rightarrow> loadSyncMapFromFile key f rs (mput (key v) v m, if inc < key v then wrap32 (key v) else inc))"

definition loaded_client :: "NpsClient \<Rightarrow> NpsClient" where
  "loaded_client c = c\<lparr>clRate := Some (if 0 < clRateLimit c then wrap64 (clRateLimit c * 1024) else 16777216 * 1024), clNowConn := 0\<rparr>"

definition LoadClientFromJsonFile :: "NpsClient option list \<Rightarrow> NpsState \<Rightarrow> NpsState" where
  "LoadClientFromJsonFile rows db =
     (case loadSyncMapFromFile clId (\<lambda>c. Some (loaded_client c)) rows (ndClients db, ndClientInc db) of
        (m, inc) \<Rightarrow> db\<lparr>ndClients := m, ndClientInc := inc\<rparr>)"

definition LoadTaskFromJsonFile :: "NpsTask option list \<Rightarrow> NpsState \<Rightarrow> NpsState" where
  "LoadTaskFromJsonFile rows db =
     (case loadSyncMapFromFile tkId (\<lambda>t. if mget (ndClients db) (tkClient t) = None then None else Some t) rows (ndTasks db, ndTaskInc db) of
        (m, inc) \<Rightarrow> db\<lparr>ndTasks := m, ndTaskInc := inc\<rparr>)"

definition LoadHostFromJsonFile :: "NpsHost option list \<Rightarrow> NpsState \<Rightarrow> NpsState" where
  "LoadHostFromJsonFile rows db =
     (case loadSyncMapFromFile hoId (\<lambda>h. if mget (ndClients db) (hoClient h) = None then None else Some h) rows (ndHosts db, ndHostInc db) of
        (m, inc) \<Rightarrow> db\<lparr>ndHosts := m, ndHostInc := inc\<rparr>)"

definition empty_nps :: NpsState where
  "empty_nps = \<lparr>ndClients = [], ndTasks = [], ndHosts = [], ndClientInc = 0, ndTaskInc = 0, ndHostInc = 0,
     ndRunning = [], ndBridge = None\<rparr>"

text \<open>A file that cannot be read is a panic.\<close>

definition GetDb :: "NpsFiles \<Rightarrow> NpsState option" where
  "GetDb fs = (case (nfClients fs, nfTasks fs, nfHosts fs) of
       (Some cs, Some ts, Some hs) \<Rightarrow>
         Some (LoadHostFromJsonFile hs (LoadTaskFromJsonFile ts (LoadClientFromJsonFile cs empty_nps)))
     | _ \<Rightarrow> None)"

text \<open>Every row that is stored is followed by a separator, so the last piece is empty.\<close>

definition storeSyncMapToFile :: "('v \<Rightarrow> bool) \<Rightarrow> (int, 'v) gomap \<Rightarrow> 'v option list" where
  "storeSyncMapToFile noStore m = map (\<lambda>(_, v). Some v) (filter (\<lambda>(_, v). \<not> noStore v) m) @ [None]"

definition StoreClientsToJsonFile :: "NpsState \<Rightarrow> NpsFiles \<Rightarrow> NpsFiles" where
  "StoreClientsToJsonFile db fs = fs\<lparr>nfClients := Some (storeSyncMapToFile clNoStore (ndClients db))\<rparr>"

definition StoreTasksToJsonFile :: "NpsState \<Rightarrow> NpsFiles \<Rightarrow> NpsFiles" where
  "StoreTasksToJsonFile db fs = fs\<lparr>nfTasks := Some (storeSyncMapToFile tkNoStore (ndTasks db))\<rparr>"

definition StoreHostToJsonFile :: "NpsState \<Rightarrow> NpsFiles \<Rightarrow> NpsFiles" where
  "StoreHostToJsonFile db fs = fs\<lparr>nfHosts := Some (storeSyncMapToFile hoNoStore (ndHosts db))\<rparr>"

text \<open>What the minute-wise \<^verbatim>\<open>flowSession\<close> and the end of an operation leave in the files.\<close>

definition store_tables :: "NpsState \<Rightarrow> NpsFiles \<Rightarrow> NpsFiles" where
  "store_tables db fs = StoreClientsToJsonFile db (StoreTasksToJsonFile db (StoreHostToJsonFile db fs))"

section \<open>Starting the server\<close>

text \<open>The client of the public key shares the run list with the tasks; the error of its creation is dropped.\<close>

definition InitFromCsv :: "NpsEnv \<Rightarrow> string \<Rightarrow> NpsState \<Rightarrow> NpsState" where
  "InitFromCsv env public_vkey db =
     (let db1 = (if public_vkey = [] then db
          else (case NewClient env (make_NpsClient public_vkey True True) db of
              (db', Inl _) \<Rightarrow> store_running 0 db'
            | (db', Inr c) \<Rightarrow> store_running (clId c) db'))
      in fold (\<lambda>(_, t) d. if tkStatus t then fst (AddTask env t d) else d) (ndTasks db1) db1)"

text \<open>\<^verbatim>\<open>StartNewServer\<close> in the mode \<^verbatim>\<open>webServer\<close>; its last task is the one that serves the hosts.\<close>

definition StartNewServer :: "NpsEnv \<Rightarrow> string \<Rightarrow> NpsState \<Rightarrow> NpsState" where
  "StartNewServer env public_vkey db =
     fst (AddTask env (zero_Task\<lparr>tkMode := ''httpHostServer'', tkStatus := True\<rparr>) (InitFromCsv env public_vkey (db\<lparr>ndBridge := Some []\<rparr>)))"

section \<open>What is stored is loaded\<close>

lemma mget_Cons: "mget ((k, v) # m) i = (if i = k then Some v else mget m i)"
  by (simp add: mget_def)

lemma store_Nil: "storeSyncMapToFile noStore [] = [None]"
  by (simp add: storeSyncMapToFile_def)

lemma store_Cons:
  "storeSyncMapToFile noStore ((k, v) # m) = (if noStore v then storeSyncMapToFile noStore m else Some v # storeSyncMapToFile noStore m)"
  by (simp add: storeSyncMapToFile_def)

lemma keyed_Cons: "keyed key ((k, v) # m) \<Longrightarrow> keyed key m \<and> key v = k \<and> mget m k = None"
  by (auto simp: keyed_iff mwf_def mget_None_iff)

text \<open>Loading a file that was stored from a table: the rows that are stored and accepted, over what was there.\<close>

lemma load_rows:
  assumes "keyed key m" "\<And>v w. f v = Some w \<Longrightarrow> key w = key v" "keyed key m0"
    and "loadSyncMapFromFile key f (storeSyncMapToFile noStore m) (m0, inc) = (m', inc')"
  shows "keyed key m'" "mget m' i = (case mget m i of None \<Rightarrow> mget m0 i | Some v \<Rightarrow> if noStore v \<or> f v = None then mget m0 i else f v)"
  using assms(1,3,4)
proof (induction m arbitrary: m0 inc)
  case Nil
  { case 1 then show ?case by (simp add: store_Nil) next case 2 then show ?case by (simp add: store_Nil) }
next
  case (Cons kv m)
  obtain k v where kv: "kv = (k, v)" by fastforce
  { fix m0 inc assume p: "keyed key (kv # m)" "keyed key m0" "loadSyncMapFromFile key f (storeSyncMapToFile noStore (kv # m)) (m0, inc) = (m', inc')"
    note key = keyed_Cons [OF p(1) [unfolded kv]]
    have "keyed key m' \<and> mget m' i = (case mget (kv # m) i of None \<Rightarrow> mget m0 i | Some v \<Rightarrow> if noStore v \<or> f v = None then mget m0 i else f v)"
    proof (cases "noStore v \<or> f v = None")
      case True
      then have "loadSyncMapFromFile key f (storeSyncMapToFile noStore m) (m0, inc) = (m', inc')"
        using p(3) by (auto simp: kv store_Cons split: if_splits)
      from Cons.IH [OF _ p(2) this] key True show ?thesis by (auto simp: kv mget_Cons)
    next
      case False
      then obtain w where w: "f v = Some w" "\<not> noStore v" by auto
      then have wk: "key w = k" using assms(2) key by blast
      have "keyed key (mput k w m0)" using keyed_mput [OF p(2), of w] wk by simp
      from Cons.IH [OF _ this, of "if inc < k then wrap32 k else inc"] p(3) key w wk p(2)
      show ?thesis by (auto simp: kv store_Cons mget_Cons gomap_simps split: option.splits)
    qed
  } note step = this
  { case 1 then show ?case using step by blast next case 2 then show ?case using step by blast }
qed

text \<open>The counter is above every row that is loaded, and above no bound the rows respect.\<close>

lemma load_counter:
  assumes "keyed key m" "\<And>v w. f v = Some w \<Longrightarrow> key w = key v" "list_all (\<lambda>(k, _). 0 < k \<and> k \<le> hi) m" "hi < 2 ^ 31"
    and "loadSyncMapFromFile key f (storeSyncMapToFile noStore m) (m0, inc) = (m', inc')" "counted key m0 inc" "inc \<le> hi"
  shows "counted key m' inc' \<and> inc' \<le> hi"
  using assms(1,3,5,6,7)
proof (induction m arbitrary: m0 inc)
  case Nil
  then show ?case by (simp add: store_Nil)
next
  case (Cons kv m)
  obtain k v where kv: "kv = (k, v)" by fastforce
  note key = keyed_Cons [OF Cons.prems(1) [unfolded kv]]
  have k: "0 < k" "k \<le> hi" "list_all (\<lambda>(k, _). 0 < k \<and> k \<le> hi) m" using Cons.prems(2) by (simp_all add: kv)
  show ?case
  proof (cases "noStore v \<or> f v = None")
    case True
    then have "loadSyncMapFromFile key f (storeSyncMapToFile noStore m) (m0, inc) = (m', inc')"
      using Cons.prems(3) by (auto simp: kv store_Cons split: if_splits)
    from Cons.IH [OF _ k(3) this Cons.prems(4,5)] key show ?thesis by blast
  next
    case False
    then obtain w where w: "f v = Some w" "\<not> noStore v" by auto
    then have wk: "key w = k" using assms(2) key by blast
    have "wrap32 k = k" using k assms(4) by (simp add: wrap32_def)
    let ?inc = "if inc < k then k else inc"
    have m0: "keyed key m0" "mwf m0" "0 \<le> inc" "list_all (\<lambda>(j, _). 0 < j \<and> j \<le> inc) m0"
      using Cons.prems(4) by (auto simp: counted_def)
    have "0 < j \<and> j \<le> ?inc" if "(j, u) \<in> set (mput k w m0)" for j u
      using that m0(4) k(1) unfolding mem_mput [OF m0(2)] list_all_iff by (fastforce split: if_splits)
    then have "counted key (mput k w m0) ?inc"
      using keyed_mput [OF m0(1), of w] wk m0(3) k(1) by (auto simp: counted_def list_all_iff)
    moreover have "loadSyncMapFromFile key f (storeSyncMapToFile noStore m) (mput k w m0, ?inc) = (m', inc')"
      using Cons.prems(3) w wk \<open>wrap32 k = k\<close> by (simp add: kv store_Cons split: if_splits)
    ultimately show ?thesis using Cons.IH [OF _ k(3)] key k Cons.prems(5) by simp
  qed
qed

text \<open>What is loaded from the files of a well-formed state, row by row.\<close>

lemma load_stored:
  assumes "nps_ok db" "ndClientInc db < 2 ^ 31" "ndTaskInc db < 2 ^ 31" "ndHostInc db < 2 ^ 31"
  obtains d where "GetDb (store_tables db fs) = Some d" "nps_ok d" "ndRunning d = []"
    "ndClientInc d \<le> ndClientInc db" "ndTaskInc d \<le> ndTaskInc db" "ndHostInc d \<le> ndHostInc db"
    "\<And>i. mget (ndClients d) i = (case mget (ndClients db) i of None \<Rightarrow> None | Some c \<Rightarrow> if clNoStore c then None else Some (loaded_client c))"
    "\<And>i. mget (ndTasks d) i = (case mget (ndTasks db) i of None \<Rightarrow> None
       | Some t \<Rightarrow> if tkNoStore t \<or> mget (ndClients d) (tkClient t) = None then None else Some t)"
    "\<And>i. mget (ndHosts d) i = (case mget (ndHosts db) i of None \<Rightarrow> None
       | Some h \<Rightarrow> if hoNoStore h \<or> mget (ndClients d) (hoClient h) = None then None else Some h)"
proof -
  have ok: "counted clId (ndClients db) (ndClientInc db)" "counted tkId (ndTasks db) (ndTaskInc db)" "counted hoId (ndHosts db) (ndHostInc db)"
    and rem: "remarks_ok tkRemark (ndTasks db)" "remarks_ok hoRemark (ndHosts db)"
    using assms(1) by (simp_all add: nps_ok_def clients_ok_def tasks_ok_def hosts_ok_def)
  have k: "keyed clId (ndClients db)" "keyed tkId (ndTasks db)" "keyed hoId (ndHosts db)"
    "list_all (\<lambda>(k, _). 0 < k \<and> k \<le> ndClientInc db) (ndClients db)" "list_all (\<lambda>(k, _). 0 < k \<and> k \<le> ndTaskInc db) (ndTasks db)"
    "list_all (\<lambda>(k, _). 0 < k \<and> k \<le> ndHostInc db) (ndHosts db)" "0 \<le> ndClientInc db" "0 \<le> ndTaskInc db" "0 \<le> ndHostInc db"
    using ok by (simp_all add: counted_def)
  have e: "keyed key ([] :: (int, 'v) gomap)" "counted key ([] :: (int, 'v) gomap) 0" for key :: "'v \<Rightarrow> int" by (simp_all add: counted_def)
  define kt where "kt = (\<lambda>m (t :: NpsTask). if mget (m :: (int, NpsClient) gomap) (tkClient t) = None then None else Some t)"
  define kh where "kh = (\<lambda>m (h :: NpsHost). if mget (m :: (int, NpsClient) gomap) (hoClient h) = None then None else Some h)"
  obtain mc ic where c: "loadSyncMapFromFile clId (\<lambda>c. Some (loaded_client c)) (storeSyncMapToFile clNoStore (ndClients db)) ([], 0) = (mc, ic)" by fastforce
  obtain mt it where t: "loadSyncMapFromFile tkId (kt mc) (storeSyncMapToFile tkNoStore (ndTasks db)) ([], 0) = (mt, it)" by fastforce
  obtain mh ih where h: "loadSyncMapFromFile hoId (kh mc) (storeSyncMapToFile hoNoStore (ndHosts db)) ([], 0) = (mh, ih)" by fastforce
  have fc: "clId w = clId v" if "Some (loaded_client v) = Some w" for v w using that by (auto simp: loaded_client_def)
  have ft: "tkId w = tkId v" if "kt mc v = Some w" for v w using that by (auto simp: kt_def split: if_splits)
  have fh: "hoId w = hoId v" if "kh mc v = Some w" for v w using that by (auto simp: kh_def split: if_splits)
  note C = load_rows [OF k(1) fc e(1) c] load_counter [OF k(1) fc k(4) assms(2) c e(2) k(7)]
  note T = load_rows [OF k(2) ft e(1) t] load_counter [OF k(2) ft k(5) assms(3) t e(2) k(8)]
  note H = load_rows [OF k(3) fh e(1) h] load_counter [OF k(3) fh k(6) assms(4) h e(2) k(9)]
  let ?d = "\<lparr>ndClients = mc, ndTasks = mt, ndHosts = mh, ndClientInc = ic, ndTaskInc = it, ndHostInc = ih, ndRunning = [], ndBridge = None\<rparr>"
  have look: "mget mc i = (case mget (ndClients db) i of None \<Rightarrow> None | Some c \<Rightarrow> if clNoStore c then None else Some (loaded_client c))"
    "mget mt i = (case mget (ndTasks db) i of None \<Rightarrow> None | Some t \<Rightarrow> if tkNoStore t \<or> mget mc (tkClient t) = None then None else Some t)"
    "mget mh i = (case mget (ndHosts db) i of None \<Rightarrow> None | Some h \<Rightarrow> if hoNoStore h \<or> mget mc (hoClient h) = None then None else Some h)" for i
    using C(2) [of i] T(2) [of i] H(2) [of i] by (auto simp: kt_def kh_def split: option.splits)
  have sub: "mget (ndTasks db) j = Some v" if "mget mt j = Some v" for j v
    using that by (auto simp: look(2) split: option.splits if_splits)
  have sub': "mget (ndHosts db) j = Some v" if "mget mh j = Some v" for j v
    using that by (auto simp: look(3) split: option.splits if_splits)
  have g: "GetDb (store_tables db fs) = Some ?d"
    using c t h by (simp add: GetDb_def store_tables_def StoreClientsToJsonFile_def StoreTasksToJsonFile_def StoreHostToJsonFile_def
      LoadClientFromJsonFile_def LoadTaskFromJsonFile_def LoadHostFromJsonFile_def empty_nps_def kt_def kh_def)
  have n: "nps_ok ?d"
    using C(3) T(3) H(3) rem sub sub' unfolding nps_ok_def clients_ok_def tasks_ok_def hosts_ok_def remarks_ok_def by simp blast
  show thesis by (rule that [OF g n]) (simp_all only: NpsState.select_convs look C(3) T(3) H(3))
qed

section \<open>What the start runs\<close>

definition opens :: "NpsEnv \<Rightarrow> NpsState \<Rightarrow> NpsTask \<Rightarrow> bool" where
  "opens env db t \<longleftrightarrow> tkMode t = ''secret'' \<or> tkMode t = ''p2p'' \<or> NewMode (tkMode t) \<and> (\<exists>c. mget (ndClients db) (tkClient t) = Some c \<and>
     TestServerPortInPool env (tkPort t) (tkMode t) (GetPorts (clPortPool c)))"

lemma AddTask_runs:
  "\<exists>r. fst (AddTask env t db) = db\<lparr>ndRunning := r\<rparr> \<and> set (ndRunning db) \<subseteq> set r \<and> (opens env db t \<longrightarrow> tkId t \<in> set r)"
proof -
  have "fst (AddTask env t db) = store_running (tkId t) db \<or> \<not> opens env db t \<and> fst (AddTask env t db) = db\<lparr>ndRunning := ndRunning db\<rparr>"
    by (auto simp: AddTask_def opens_def Let_def)
  then show ?thesis by (fastforce simp: store_running_def)
qed

lemma start_tasks:
  "\<exists>r. fold (\<lambda>(_, t) d. if tkStatus t then fst (AddTask env t d) else d) m db = db\<lparr>ndRunning := r\<rparr> \<and> set (ndRunning db) \<subseteq> set r \<and>
     (\<forall>(_, t) \<in> set m. tkStatus t \<and> opens env db t \<longrightarrow> tkId t \<in> set r)"
proof (induction m arbitrary: db)
  case Nil
  then show ?case by (intro exI [of _ "ndRunning db"]) simp
next
  case (Cons it m)
  obtain i t where it: "it = (i, t)" by fastforce
  define d where "d = (if tkStatus t then fst (AddTask env t db) else db)"
  obtain r where r: "d = db\<lparr>ndRunning := r\<rparr>" "set (ndRunning db) \<subseteq> set r" "tkStatus t \<and> opens env db t \<longrightarrow> tkId t \<in> set r"
    using AddTask_runs [of env t db] that [of "ndRunning db"] by (cases "tkStatus t") (auto simp: d_def)
  have o: "opens env d u = opens env db u" for u by (simp add: opens_def r(1))
  obtain r' where "fold (\<lambda>(_, t) d. if tkStatus t then fst (AddTask env t d) else d) m d = d\<lparr>ndRunning := r'\<rparr>" "set (ndRunning d) \<subseteq> set r'"
    "\<forall>(_, t) \<in> set m. tkStatus t \<and> opens env db t \<longrightarrow> tkId t \<in> set r'" using Cons.IH [of d] o by auto
  with r show ?case by (intro exI [of _ r']) (auto simp: it d_def)
qed

lemma start_runs:
  "\<exists>r. StartNewServer env [] db = db\<lparr>ndBridge := Some [], ndRunning := r\<rparr> \<and>
     (\<forall>(_, t) \<in> set (ndTasks db). tkStatus t \<and> opens env db t \<longrightarrow> tkId t \<in> set r)"
proof -
  let ?db = "db\<lparr>ndBridge := Some []\<rparr>"
  obtain r where r: "InitFromCsv env [] ?db = ?db\<lparr>ndRunning := r\<rparr>" "\<forall>(_, t) \<in> set (ndTasks db). tkStatus t \<and> opens env ?db t \<longrightarrow> tkId t \<in> set r"
    using start_tasks [of env "ndTasks ?db" ?db] by (auto simp: InitFromCsv_def)
  obtain r' where "StartNewServer env [] db = (?db\<lparr>ndRunning := r\<rparr>)\<lparr>ndRunning := r'\<rparr>" "set r \<subseteq> set r'"
    using AddTask_runs [of env "zero_Task\<lparr>tkMode := ''httpHostServer'', tkStatus := True\<rparr>" "?db\<lparr>ndRunning := r\<rparr>"]
    by (auto simp: StartNewServer_def r(1))
  moreover have "opens env ?db t = opens env db t" for t by (simp add: opens_def)
  ultimately show ?thesis using r(2) by (intro exI [of _ r']) auto
qed

section \<open>A restart keeps the tunnels\<close>

lemma tunnels_realised_mono:
  assumes "tunnels_realised us ts db" "list_all (\<lambda>u. uName u \<noteq> []) us"
    and C: "\<And>i c. mget (ndClients db) i = Some c \<Longrightarrow> clWebUserName c \<noteq> [] \<Longrightarrow>
      \<exists>c'. mget (ndClients d) i = Some c' \<and> clWebUserName c' = clWebUserName c"
    and T: "\<And>i k. mget (ndTasks db) i = Some k \<Longrightarrow> managed (tkRemark k) \<Longrightarrow> mget (ndClients d) (tkClient k) \<noteq> None \<Longrightarrow> mget (ndTasks d) i = Some k"
    and H: "\<And>i h. mget (ndHosts db) i = Some h \<Longrightarrow> managed (hoRemark h) \<Longrightarrow> mget (ndClients d) (hoClient h) \<noteq> None \<Longrightarrow> mget (ndHosts d) i = Some h"
  shows "tunnels_realised us ts d"
  unfolding tunnels_realised_def
proof (intro ballI impI)
  fix t assume t: "t \<in> set ts" "nps_tunnel us t"
  then obtain cid c where c: "mget (ndClients db) cid = Some c" "clWebUserName c = tUserName t"
    and rows: "if web_tunnel t then \<forall>e \<in> set (tDomains t). \<exists>i h. mget (ndHosts db) i = Some h \<and> fronts t cid e h
      else \<exists>i k. mget (ndTasks db) i = Some k \<and> runs t cid k"
    using assms(1) unfolding tunnels_realised_def by blast
  have "tUserName t \<noteq> []" using t(2) assms(2) by (auto simp: nps_tunnel_def active_names_def list_all_iff)
  then obtain c' where c': "mget (ndClients d) cid = Some c'" "clWebUserName c' = tUserName t" using C [OF c(1)] c(2) by auto
  have "mget (ndHosts d) i = Some h" if "mget (ndHosts db) i = Some h" "fronts t cid e h" for i h e
    using H [OF that(1)] that(2) c'(1) by (simp add: fronts_def managed_def managedNPSHostRemark_def has_prefix_def)
  moreover have "mget (ndTasks d) i = Some k" if "mget (ndTasks db) i = Some k" "runs t cid k" for i k
    using T [OF that(1)] that(2) c'(1) by (simp add: runs_def managed_def managedNPSRemark_def has_prefix_def)
  ultimately show "\<exists>cid c. mget (ndClients d) cid = Some c \<and> clWebUserName c = tUserName t \<and>
      (if web_tunnel t then \<forall>e \<in> set (tDomains t). \<exists>i h. mget (ndHosts d) i = Some h \<and> fronts t cid e h
       else \<exists>i k. mget (ndTasks d) i = Some k \<and> runs t cid k)"
    using c' rows by (cases "web_tunnel t") (simp_all, meson+)
qed

lemma nothing_else_mono:
  assumes "nothing_else_managed us ts db" "\<And>i k. mget (ndTasks d) i = Some k \<Longrightarrow> mget (ndTasks db) i = Some k"
    and "\<And>i h. mget (ndHosts d) i = Some h \<Longrightarrow> mget (ndHosts db) i = Some h"
  shows "nothing_else_managed us ts d"
  using assms unfolding nothing_else_managed_def remarks_ok_def by meson

text \<open>C30. After a synchronisation without error the files are written, and nps is started from them: it has the clients of all
  enabled users and the tasks and hosts of all enabled tunnels again, under the ids they had, with nothing else under the
  prefix of the control program, and every task whose port the server may and can open runs. The state is again one
  that a synchronisation can start from. It takes that none of these rows is one that is kept out of the files.\<close>

theorem restart_keeps_tunnels:
  assumes "SyncNPSState env us ts (Some db) = (Some db', None)" "nps_ok db" "nps_room db us ts" "sync_inputs us ts"
    and kept: "\<And>i c. mget (ndClients db') i = Some c \<Longrightarrow> clWebUserName c \<noteq> [] \<Longrightarrow> \<not> clNoStore c"
      "\<And>i k. mget (ndTasks db') i = Some k \<Longrightarrow> managed (tkRemark k) \<Longrightarrow> \<not> tkNoStore k"
      "\<And>i h. mget (ndHosts db') i = Some h \<Longrightarrow> managed (hoRemark h) \<Longrightarrow> \<not> hoNoStore h"
    and "ndClientInc db' < 2 ^ 31" "ndTaskInc db' < 2 ^ 31" "ndHostInc db' < 2 ^ 31"
  shows "\<exists>d0 d. GetDb (store_tables db' fs) = Some d0 \<and> d = StartNewServer env' [] d0 \<and> nps_ok d \<and>
    tunnels_realised us ts d \<and> nothing_else_managed us ts d \<and>
    (\<forall>u \<in> set us. nps_user u \<longrightarrow> (\<exists>cid c. mget (ndClients d) cid = Some c \<and> serves u c \<and> clNowConn c = 0)) \<and>
    (\<forall>i k. mget (ndTasks d) i = Some k \<longrightarrow> mget (ndTasks db') i = Some k \<and> (tkStatus k \<and> opens env' d k \<longrightarrow> i \<in> set (ndRunning d)))"
proof -
  have ok: "nps_ok db'" using SyncNPSState_keeps_ok [OF assms(1-4)] .
  have t: "tunnels_realised us ts db'" "nothing_else_managed us ts db'" using tunnels_of_a_run [OF assms(1-4)] by blast+
  have u: "\<forall>u \<in> set us. nps_user u \<longrightarrow> (\<exists>cid c. mget (ndClients db') cid = Some c \<and> serves u c)" using clients_of_a_run [OF assms(1-4)] by blast
  have names: "list_all (\<lambda>u. uName u \<noteq> []) us" using assms(4) by (simp add: sync_inputs_def)
  obtain d0 where d0: "GetDb (store_tables db' fs) = Some d0" "nps_ok d0"
    and C: "\<And>i. mget (ndClients d0) i = (case mget (ndClients db') i of None \<Rightarrow> None | Some c \<Rightarrow> if clNoStore c then None else Some (loaded_client c))"
    and T: "\<And>i. mget (ndTasks d0) i = (case mget (ndTasks db') i of None \<Rightarrow> None
       | Some t \<Rightarrow> if tkNoStore t \<or> mget (ndClients d0) (tkClient t) = None then None else Some t)"
    and H: "\<And>i. mget (ndHosts d0) i = (case mget (ndHosts db') i of None \<Rightarrow> None
       | Some h \<Rightarrow> if hoNoStore h \<or> mget (ndClients d0) (hoClient h) = None then None else Some h)"
    by (rule load_stored [OF ok assms(8-10)]) (rule that; assumption)
  define d where "d = StartNewServer env' [] d0"
  obtain r where r: "d = d0\<lparr>ndBridge := Some [], ndRunning := r\<rparr>" "\<forall>(_, t) \<in> set (ndTasks d0). tkStatus t \<and> opens env' d0 t \<longrightarrow> tkId t \<in> set r"
    using start_runs [of env' d0] unfolding d_def by blast
  have same: "ndClients d = ndClients d0" "ndTasks d = ndTasks d0" "ndHosts d = ndHosts d0" "ndRunning d = r" by (simp_all add: r(1))
  have loaded: "mget (ndClients d) i = Some (loaded_client c)" if "mget (ndClients db') i = Some c" "clWebUserName c \<noteq> []" for i c
    using C [of i] kept(1) [OF that] that(1) by (simp add: same)
  have 1: "nps_ok d" using d0(2) by (simp add: nps_ok_def clients_ok_def tasks_ok_def hosts_ok_def r(1))
  have 2: "tunnels_realised us ts d"
    using t(1) names
  proof (rule tunnels_realised_mono)
    show "\<exists>c'. mget (ndClients d) i = Some c' \<and> clWebUserName c' = clWebUserName c"
      if "mget (ndClients db') i = Some c" "clWebUserName c \<noteq> []" for i c using loaded [OF that] by (simp add: loaded_client_def)
  qed (use T H kept(2,3) in \<open>simp_all add: same\<close>)
  have 3: "nothing_else_managed us ts d"
    using t(2) by (rule nothing_else_mono) (auto simp: same T H split: option.splits if_splits)
  have 4: "\<exists>cid c. mget (ndClients d) cid = Some c \<and> serves v c \<and> clNowConn c = 0" if v: "v \<in> set us" "nps_user v" for v
  proof -
    obtain cid c where c: "mget (ndClients db') cid = Some c" "serves v c" using u v by blast
    then have "clWebUserName c \<noteq> []" using names v(1) by (auto simp: serves_def list_all_iff)
    moreover have "serves v (loaded_client c)" "clNowConn (loaded_client c) = 0" using c(2) by (simp_all add: serves_def loaded_client_def)
    ultimately show ?thesis using loaded [OF c(1)] by blast
  qed
  have 5: "mget (ndTasks db') i = Some k \<and> (tkStatus k \<and> opens env' d k \<longrightarrow> i \<in> set (ndRunning d))" if k: "mget (ndTasks d) i = Some k" for i k
  proof -
    have "tkId k = i" using d0(2) k keyed_mget [of tkId "ndTasks d0" i k] by (simp add: same nps_ok_def tasks_ok_def counted_def)
    moreover have "(i, k) \<in> set (ndTasks d0)" using k by (simp add: same mget_Some_mem)
    moreover have "opens env' d k = opens env' d0 k" by (simp add: opens_def same)
    ultimately show ?thesis using r(2) k by (auto simp: same T split: option.splits if_splits)
  qed
  from d0(1) d_def 1 2 3 4 5 show ?thesis by blast
qed

theorem restart_keeps_tunnels_witness:
  "\<exists>d. GetDb (store_tables demo_synced \<lparr>nfClients = None, nfTasks = None, nfHosts = None\<rparr>) = Some d \<and>
     tunnels_realised demo_nps_users demo_nps_tunnels (StartNewServer demo_nps_env [] d)"
proof -
  have p: "list_all (\<lambda>(_, c). clWebUserName c = [] \<or> \<not> clNoStore c) (ndClients demo_synced)"
    "list_all (\<lambda>(_, k). \<not> managed (tkRemark k) \<or> \<not> tkNoStore k) (ndTasks demo_synced)"
    "list_all (\<lambda>(_, h). \<not> managed (hoRemark h) \<or> \<not> hoNoStore h) (ndHosts demo_synced)"
    "ndClientInc demo_synced < 2 ^ 31" "ndTaskInc demo_synced < 2 ^ 31" "ndHostInc demo_synced < 2 ^ 31" by code_simp+
  have "\<not> clNoStore c" if "mget (ndClients demo_synced) i = Some c" "clWebUserName c \<noteq> []" for i c
    using p(1) mget_Some_mem [OF that(1)] that(2) by (auto simp: list_all_iff)
  moreover have "\<not> tkNoStore k" if "mget (ndTasks demo_synced) i = Some k" "managed (tkRemark k)" for i k
    using p(2) mget_Some_mem [OF that(1)] that(2) by (auto simp: list_all_iff)
  moreover have "\<not> hoNoStore h" if "mget (ndHosts demo_synced) i = Some h" "managed (hoRemark h)" for i h
    using p(3) mget_Some_mem [OF that(1)] that(2) by (auto simp: list_all_iff)
  ultimately show ?thesis using restart_keeps_tunnels [OF demo_sync demo_sync_pre] p(4-6) by blast
qed

end
