(* ===== verification/FrpWork.thy ===== *)
theory FrpWork
  imports FrpControl "HOL-Library.Multiset"
begin

text \<open>
  The work connections of a session of the frp server (\<^verbatim>\<open>upstream/frp/server/control.go\<close>,
  \<^verbatim>\<open>server/proxy/proxy.go\<close>): the pool a client fills on request and users take from, and the
  heartbeat that ends a silent session. A connection is a number; a message to the client is the counter of
  requests. Each step is one operation on the channel.
\<close>

section \<open>The pool\<close>

datatype work_error = PoolFull | CtlClosed | AlreadyClosed | WaitTimeout | StartFailed

text \<open>
  \<open>wpConns\<close> is the channel, \<open>wpDead\<close> says that messages cannot be sent any more, \<open>wpClosed\<close> that the channel is
  closed. The other fields keep the history: what was registered and what became of it, how often a user had
  to wait, and how many connections were asked for.
\<close>

record WorkPool =
  wpConns :: "nat list"
  wpCap :: nat
  wpDead :: bool
  wpClosed :: bool
  wpWaiting :: nat
  wpRequested :: nat
  wpWaits :: nat
  wpSeen :: "nat list"
  wpHanded :: "nat list"
  wpShut :: "nat list"
  wpRefused :: "nat list"
  wpLost :: "nat list"

definition pool_count :: "int \<Rightarrow> int \<Rightarrow> int" where
  "pool_count asked maxPool = min asked maxPool"

text \<open>\<^verbatim>\<open>NewControl\<close> makes the channel and \<^verbatim>\<open>Start\<close> asks for the first connections; a negative size is a panic.\<close>

definition new_pool :: "int \<Rightarrow> WorkPool option" where
  "new_pool poolCount =
     (if poolCount + 10 < 0 then None
      else Some \<lparr>wpConns = [], wpCap = nat (poolCount + 10), wpDead = False, wpClosed = False, wpWaiting = 0, wpRequested = nat poolCount,
        wpWaits = 0, wpSeen = [], wpHanded = [], wpShut = [], wpRefused = [], wpLost = []\<rparr>)"

text \<open>
  Sending on the closed channel panics; the panic is recovered and the result is that of no error, so the caller
  keeps the connection open. On an error the caller closes it.
\<close>

definition RegisterWorkConn :: "nat \<Rightarrow> WorkPool \<Rightarrow> WorkPool \<times> work_error option" where
  "RegisterWorkConn c p0 =
     (let p = p0\<lparr>wpSeen := wpSeen p0 @ [c]\<rparr> in
      if wpClosed p then (p\<lparr>wpLost := wpLost p @ [c]\<rparr>, None)
      else if length (wpConns p) < wpCap p then (p\<lparr>wpConns := wpConns p @ [c]\<rparr>, None)
      else (p\<lparr>wpRefused := wpRefused p @ [c]\<rparr>, Some PoolFull))"

definition request :: "WorkPool \<Rightarrow> WorkPool" where
  "request p = (if wpDead p then p else p\<lparr>wpRequested := wpRequested p + 1\<rparr>)"

text \<open>A connection is received from the channel, and another one is asked for.\<close>

definition hand_out :: "WorkPool \<Rightarrow> WorkPool \<times> nat option" where
  "hand_out p = (case wpConns p of [] \<Rightarrow> (p, None)
     | c # cs \<Rightarrow> (request (p\<lparr>wpConns := cs, wpHanded := wpHanded p @ [c]\<rparr>), Some c))"

text \<open>The first \<^verbatim>\<open>select\<close> of \<^verbatim>\<open>GetWorkConn\<close>: a connection, an error, or a wait.\<close>

definition GetWorkConn_now :: "WorkPool \<Rightarrow> WorkPool \<times> (work_error + nat option)" where
  "GetWorkConn_now p = (case hand_out p of
       (p', Some c) \<Rightarrow> (p', Inr (Some c))
     | (_, None) \<Rightarrow>
         if wpClosed p then (p, Inl CtlClosed)
         else if wpDead p then (p, Inl AlreadyClosed)
         else ((request p)\<lparr>wpWaiting := wpWaiting p + 1, wpWaits := wpWaits p + 1\<rparr>, Inr None))"

text \<open>The second: a connection comes, the channel is closed, or the time is up.\<close>

definition GetWorkConn_later :: "bool \<Rightarrow> WorkPool \<Rightarrow> (WorkPool \<times> (work_error + nat)) option" where
  "GetWorkConn_later timeout p0 =
     (let p = p0\<lparr>wpWaiting := wpWaiting p0 - 1\<rparr> in
      if wpWaiting p0 = 0 then None
      else (case hand_out p of
          (p', Some c) \<Rightarrow> Some (p', Inr c)
        | (_, None) \<Rightarrow> if wpClosed p then Some (p, Inl CtlClosed) else if timeout then Some (p, Inl WaitTimeout) else None))"

text \<open>\<^verbatim>\<open>worker\<close> closes the channel and every connection that is still in it.\<close>

definition shut_one :: "WorkPool \<Rightarrow> WorkPool" where
  "shut_one p = (case wpConns p of [] \<Rightarrow> p | c # cs \<Rightarrow> p\<lparr>wpConns := cs, wpShut := wpShut p @ [c]\<rparr>)"

inductive pool_step :: "WorkPool \<Rightarrow> WorkPool \<Rightarrow> bool" where
  registers: "pool_step p (fst (RegisterWorkConn c p))"
| gets: "pool_step p (fst (GetWorkConn_now p))"
| waited: "GetWorkConn_later timeout p = Some (p', r) \<Longrightarrow> pool_step p p'"
| dies: "pool_step p (p\<lparr>wpDead := True\<rparr>)"
| closes: "wpDead p \<Longrightarrow> pool_step p (p\<lparr>wpClosed := True\<rparr>)"
| drains: "wpClosed p \<Longrightarrow> pool_step p (shut_one p)"

inductive pool_reachable :: "int \<Rightarrow> WorkPool \<Rightarrow> bool" for poolCount where
  fresh: "new_pool poolCount = Some p \<Longrightarrow> pool_reachable poolCount p"
| further: "pool_reachable poolCount p \<Longrightarrow> pool_step p p' \<Longrightarrow> pool_reachable poolCount p'"

text \<open>
  The loop of \<^verbatim>\<open>GetWorkConnFromPool\<close>: what \<^verbatim>\<open>GetWorkConn\<close> gives the i-th time, and whether the connection
  could be started. \<open>Inr None\<close> is a nil connection without an error.
\<close>

fun take_from_pool :: "nat \<Rightarrow> (nat \<Rightarrow> work_error + (nat \<times> bool)) \<Rightarrow> nat \<Rightarrow> work_error + nat option \<Rightarrow> work_error + nat option" where
  "take_from_pool 0 answer i r = r"
| "take_from_pool (Suc n) answer i r = (case answer i of
       Inl e \<Rightarrow> Inl e
     | Inr (c, True) \<Rightarrow> Inr (Some c)
     | Inr (c, False) \<Rightarrow> take_from_pool n answer (Suc i) (Inl StartFailed))"

definition GetWorkConnFromPool :: "int \<Rightarrow> (nat \<Rightarrow> work_error + (nat \<times> bool)) \<Rightarrow> work_error + nat option" where
  "GetWorkConnFromPool poolCount answer = take_from_pool (nat (poolCount + 1)) answer 0 (Inr None)"

text \<open>\<^verbatim>\<open>handleUserTCPConnection\<close> with the connection it got: a nil connection is a panic in a goroutine of its own.\<close>

datatype user_conn = Forwarded nat | Dropped work_error | ServerPanics

definition handleUserTCPConnection :: "int \<Rightarrow> (nat \<Rightarrow> work_error + (nat \<times> bool)) \<Rightarrow> user_conn" where
  "handleUserTCPConnection poolCount answer = (case GetWorkConnFromPool poolCount answer of
       Inl e \<Rightarrow> Dropped e | Inr None \<Rightarrow> ServerPanics | Inr (Some c) \<Rightarrow> Forwarded c)"

section \<open>The heartbeat\<close>

definition handlePing :: "time \<Rightarrow> bool \<Rightarrow> time \<Rightarrow> time" where
  "handlePing now valid lastPing = (if valid then now else lastPing)"

text \<open>One check; the timeout is in seconds, and none is set when it is not positive.\<close>

definition heartbeat_over :: "int \<Rightarrow> time \<Rightarrow> time \<Rightarrow> bool" where
  "heartbeat_over timeout now lastPing \<longleftrightarrow> 0 < timeout \<and> timeout * 1000000000 < now - lastPing"

text \<open>\<^verbatim>\<open>heartbeatWorker\<close> checks every second from its start; the time of the check that closes the session.\<close>

fun heartbeatWorker :: "nat \<Rightarrow> int \<Rightarrow> time \<Rightarrow> (time \<Rightarrow> time) \<Rightarrow> time option" where
  "heartbeatWorker 0 timeout now lastPing = None"
| "heartbeatWorker (Suc n) timeout now lastPing =
     (if heartbeat_over timeout now (lastPing now) then Some now
      else heartbeatWorker n timeout (now + 1000000000) lastPing)"

section \<open>Where every connection is\<close>

definition pool_ok :: "int \<Rightarrow> WorkPool \<Rightarrow> bool" where
  "pool_ok poolCount p \<longleftrightarrow> wpCap p = nat (poolCount + 10) \<and> length (wpConns p) \<le> wpCap p \<and>
     mset (wpSeen p) = mset (wpConns p) + mset (wpHanded p) + mset (wpShut p) + mset (wpRefused p) + mset (wpLost p) \<and>
     (wpLost p \<noteq> [] \<or> wpShut p \<noteq> [] \<longrightarrow> wpClosed p) \<and> wpWaiting p \<le> wpWaits p \<and>
     wpRequested p \<le> nat poolCount + length (wpHanded p) + wpWaits p"

lemma hand_out_ok:
  assumes "pool_ok n p" "hand_out p = (p', r)"
  shows "pool_ok n p'" "r = None \<Longrightarrow> p' = p \<and> wpConns p = []"
  using assms by (auto simp: hand_out_def request_def pool_ok_def split: list.splits)

lemma pool_step_ok: "pool_step p p' \<Longrightarrow> pool_ok n p \<Longrightarrow> pool_ok n p'"
proof (induction rule: pool_step.induct)
  case (registers p c)
  then show ?case by (auto simp: RegisterWorkConn_def pool_ok_def Let_def)
next
  case (gets p)
  obtain q r where h: "hand_out p = (q, r)" by fastforce
  note H = hand_out_ok [OF gets h]
  show ?case using H gets by (cases r) (auto simp: GetWorkConn_now_def h request_def pool_ok_def)
next
  case (waited timeout p p' r)
  let ?p = "p\<lparr>wpWaiting := wpWaiting p - 1\<rparr>"
  obtain q x where h: "hand_out ?p = (q, x)" by fastforce
  have "pool_ok n ?p" using waited(2) by (auto simp: pool_ok_def)
  note H = hand_out_ok [OF this h]
  show ?case using waited(1) [unfolded GetWorkConn_later_def Let_def h prod.case] H by (cases x) (auto split: if_splits)
next
  case (drains p)
  then show ?case by (cases "wpConns p") (auto simp: shut_one_def pool_ok_def)
qed (auto simp: pool_ok_def)

lemma pool_reachable_ok: "pool_reachable n p \<Longrightarrow> pool_ok n p"
proof (induction rule: pool_reachable.induct)
  case (fresh p)
  then show ?case by (auto simp: new_pool_def pool_ok_def split: if_splits)
next
  case (further p p')
  then show ?case by (blast intro: pool_step_ok)
qed

text \<open>C39. In every state of the pool of a session, whatever the order of registering, taking, waiting, timing out and closing: each
  connection that was registered is in exactly one place, in the pool, with a user, closed by the server, refused, or
  lost; none is lost before the channel is closed; the pool keeps to its size; and a connection the server asked for
  is refused only after more than ten users have had to wait.\<close>

theorem work_conns_accounted:
  assumes "pool_reachable poolCount p" "0 \<le> poolCount"
  shows "mset (wpSeen p) = mset (wpConns p) + mset (wpHanded p) + mset (wpShut p) + mset (wpRefused p) + mset (wpLost p) \<and>
    int (length (wpConns p)) \<le> poolCount + 10 \<and> (wpLost p \<noteq> [] \<longrightarrow> wpClosed p) \<and>
    (snd (RegisterWorkConn c p) = Some PoolFull \<and> length (wpSeen p) < wpRequested p \<longrightarrow> 10 < wpWaits p)"
proof -
  have ok: "pool_ok poolCount p" using pool_reachable_ok [OF assms(1)] .
  have "10 < wpWaits p" if full: "snd (RegisterWorkConn c p) = Some PoolFull" "length (wpSeen p) < wpRequested p"
  proof -
    have "length (wpSeen p) = size (mset (wpSeen p))" by simp
    also have "\<dots> = length (wpConns p) + length (wpHanded p) + length (wpShut p) + length (wpRefused p) + length (wpLost p)"
      using ok by (simp add: pool_ok_def)
    finally have "length (wpConns p) + length (wpHanded p) \<le> length (wpSeen p)" by simp
    moreover have "wpCap p \<le> length (wpConns p)" using full(1) by (auto simp: RegisterWorkConn_def Let_def split: if_splits)
    ultimately show ?thesis using ok full(2) assms(2) by (simp add: pool_ok_def nat_add_distrib)
  qed
  with ok assms(2) show ?thesis by (auto simp: pool_ok_def)
qed

section \<open>Taking a connection\<close>

lemma take_from_pool_spec:
  "take_from_pool n answer i r =
     (case List.find (\<lambda>j. \<not> (\<exists>d. answer (i + j) = Inr (d, False))) [0..<n] of
        None \<Rightarrow> if n = 0 then r else Inl StartFailed
      | Some j \<Rightarrow> (case answer (i + j) of Inl e \<Rightarrow> Inl e | Inr (c, _) \<Rightarrow> Inr (Some c)))"
proof (induction n arbitrary: i r)
  case (Suc n)
  have up: "[0..<Suc n] = 0 # map Suc [0..<n]" by (simp add: upt_conv_Cons map_Suc_upt del: upt_Suc)
  have "List.find P (map Suc xs) = map_option Suc (List.find (\<lambda>j. P (Suc j)) xs)" for P xs by (induction xs) auto
  with Suc.IH [of "Suc i" "Inl StartFailed"] show ?case
    unfolding up by (auto split: sum.split prod.split bool.split option.split)
qed simp

text \<open>A user connection is forwarded over the first work connection that can be started, after at most one more than the size
  of the pool was tried; it is dropped when getting one fails or none can be started; and the server panics
  exactly when the session has a negative pool count.\<close>

theorem user_connection_outcome:
  shows "case handleUserTCPConnection poolCount answer of
     Forwarded c \<Rightarrow> (\<exists>j. int j \<le> poolCount \<and> answer j = Inr (c, True) \<and> (\<forall>k < j. \<exists>d. answer k = Inr (d, False)))
   | Dropped e \<Rightarrow> 0 \<le> poolCount \<and> (\<exists>j. int j \<le> poolCount \<and> answer j = Inl e \<and> (\<forall>k < j. \<exists>d. answer k = Inr (d, False)) \<or>
       e = StartFailed \<and> (\<forall>k. int k \<le> poolCount \<longrightarrow> (\<exists>d. answer k = Inr (d, False))))
   | ServerPanics \<Rightarrow> poolCount < 0"
proof (cases "poolCount < 0")
  case True
  then show ?thesis by (simp add: handleUserTCPConnection_def GetWorkConnFromPool_def)
next
  case False
  let ?P = "\<lambda>j. \<not> (\<exists>d. answer j = Inr (d, False))" and ?n = "nat (poolCount + 1)"
  have n: "?n \<noteq> 0" "k < ?n \<longleftrightarrow> int k \<le> poolCount" for k using False by auto
  show ?thesis
  proof (cases "List.find ?P [0..<?n]")
    case None
    then have "\<forall>k. int k \<le> poolCount \<longrightarrow> (\<exists>d. answer k = Inr (d, False))" by (auto simp: find_None_iff n)
    with None n False show ?thesis
      by (simp add: handleUserTCPConnection_def GetWorkConnFromPool_def take_from_pool_spec)
  next
    case (Some j)
    then have j: "j < ?n" "?P j" "\<forall>k < j. \<exists>d. answer k = Inr (d, False)"
      by (auto simp: find_Some_iff)
    show ?thesis
    proof (cases "answer j")
      case (Inl e)
      with Some j n False show ?thesis
        by (auto simp: handleUserTCPConnection_def GetWorkConnFromPool_def take_from_pool_spec)
    next
      case (Inr cb)
      then obtain c where "answer j = Inr (c, True)" using j(2) by (cases cb; cases "snd cb") auto
      with Some j n show ?thesis
        by (auto simp: handleUserTCPConnection_def GetWorkConnFromPool_def take_from_pool_spec)
    qed
  qed
qed

section \<open>Where the session goes wrong\<close>

text \<open>The pool count is whatever the login says: below -10 the login itself panics.\<close>

lemma negative_pool_panics: "asked < - 10 \<Longrightarrow> new_pool (pool_count asked maxPool) = None"
  by (simp add: new_pool_def pool_count_def)

lemma negative_pool_panics_later:
  "- 10 \<le> asked \<Longrightarrow> asked < 0 \<Longrightarrow> 0 \<le> maxPool \<Longrightarrow> new_pool (pool_count asked maxPool) \<noteq> None \<and>
   handleUserTCPConnection (pool_count asked maxPool) answer = ServerPanics"
  by (simp add: new_pool_def pool_count_def handleUserTCPConnection_def GetWorkConnFromPool_def)

text \<open>A connection that is registered while the session ends stays open without an owner.\<close>

lemma late_connection_lost: "wpClosed p \<Longrightarrow> snd (RegisterWorkConn c p) = None \<and> c \<in> set (wpLost (fst (RegisterWorkConn c p)))"
  by (simp add: RegisterWorkConn_def)

section \<open>The end of a silent session\<close>

lemma heartbeat_silent:
  assumes "0 < timeout" "last0 \<le> now" "now \<le> last0 + timeout * 1000000000 + 1000000000" "nat timeout + 2 \<le> n"
  shows "\<exists>t. heartbeatWorker n timeout now (\<lambda>_. last0) = Some t \<and> last0 + timeout * 1000000000 < t \<and> t \<le> last0 + timeout * 1000000000 + 1000000000"
proof -
  have "\<exists>t. heartbeatWorker n timeout now (\<lambda>_. last0) = Some t \<and> last0 + timeout * 1000000000 < t \<and> t \<le> last0 + timeout * 1000000000 + 1000000000"
    if "now \<le> last0 + timeout * 1000000000 + 1000000000" "last0 + timeout * 1000000000 < now + (int n - 1) * 1000000000" for n now
    using that
  proof (induction n arbitrary: now)
    case 0
    with assms(1) show ?case by simp
  next
    case (Suc n)
    show ?case
    proof (cases "heartbeat_over timeout now last0")
      case True
      with Suc.prems show ?thesis by (simp add: heartbeat_over_def)
    next
      case False
      then have "now \<le> last0 + timeout * 1000000000" using assms(1) by (simp add: heartbeat_over_def)
      with Suc.IH [of "now + 1000000000"] Suc.prems False show ?thesis by (simp add: algebra_simps)
    qed
  qed
  from this [OF assms(3)] assms show ?thesis by simp
qed

section \<open>Concrete inputs\<close>

theorem work_conns_accounted_witness:
  "\<exists>p. pool_reachable 1 p \<and> wpHanded p = [7] \<and> wpRequested p = 2 \<and> mset (wpSeen p) = {#7#} \<and> length (wpConns p) \<le> 11"
proof -
  let ?p0 = "the (new_pool 1)"
  let ?p1 = "fst (RegisterWorkConn 7 ?p0)"
  let ?p2 = "fst (GetWorkConn_now ?p1)"
  have "pool_reachable 1 ?p0" by (rule fresh) (simp add: new_pool_def)
  then have "pool_reachable 1 ?p1" by (rule pool_reachable.further) (rule registers)
  then have r: "pool_reachable 1 ?p2" by (rule pool_reachable.further) (rule gets)
  have "wpHanded ?p2 = [7] \<and> wpRequested ?p2 = 2 \<and> wpConns ?p2 = [] \<and> wpShut ?p2 = [] \<and> wpRefused ?p2 = [] \<and> wpLost ?p2 = []"
    by code_simp
  with work_conns_accounted [OF r] r show ?thesis by (intro exI [of _ ?p2]) auto
qed

theorem user_connection_outcome_witness:
  "handleUserTCPConnection 1 (\<lambda>i. Inr (i, i = 1)) = Forwarded 1 \<and>
   (\<exists>j. int j \<le> 1 \<and> Inr (j, j = 1) = (Inr (1, True) :: work_error + nat \<times> bool))"
proof -
  have "handleUserTCPConnection 1 (\<lambda>i. Inr (i, i = 1)) = Forwarded 1" by code_simp
  with user_connection_outcome [of 1 "\<lambda>i. Inr (i, i = 1)"] show ?thesis by auto
qed

end
