(* ===== verification/FrpConfig.thy ===== *)
theory FrpConfig
  imports FrpProxies
begin

text \<open>
  The configuration of a proxy of frp (\<^verbatim>\<open>upstream/frp/pkg/config/v1/proxy.go\<close>, \<^verbatim>\<open>pkg/config/load.go\<close>), the
  message in which a client sends it to the server, what both sides check of it
  (\<^verbatim>\<open>pkg/config/v1/validation/proxy.go\<close>), and the texts of bandwidths and port ranges
  (\<^verbatim>\<open>pkg/config/types/types.go\<close>). Two functions are parameters: \<open>pf\<close>, the conversion of a decimal text times a unit
  to bytes, which the source computes in \<^verbatim>\<open>float64\<close>, and \<open>qualified\<close>, the check of a name by the Kubernetes library.
\<close>

section \<open>Bandwidths and port ranges\<close>

record BandwidthQuantity =
  bwS :: string
  bwI :: int

definition zero_bandwidth :: BandwidthQuantity where
  "zero_bandwidth = \<lparr>bwS = [], bwI = 0\<rparr>"

datatype config_error =
    UnitNotSupport | BadNumber | BadRange
  | EmptyName | EmptyPluginPath | BadAnnotations | AnnotationsTooLarge | BadProtocolVersion string | BadBandwidthMode | BadLocalPort
  | BadHealthCheck string | EmptyHealthPath | NoDomains | BadMultiplexer string
  | DomainOfSubDomainHost string | SubDomainNotEnabled | BadSubDomain | HttpNotEnabled | HttpsNotEnabled | TcpMuxNotEnabled
  | UnknownProxyType string

definition UnmarshalString :: "(string \<Rightarrow> int \<Rightarrow> int option) \<Rightarrow> string \<Rightarrow> BandwidthQuantity \<Rightarrow> BandwidthQuantity \<times> config_error option" where
  "UnmarshalString pf s0 q =
     (let s = trim_space s0;
          done = (\<lambda>base f. case pf f base of None \<Rightarrow> (q, Some BadNumber) | Some i \<Rightarrow> (q\<lparr>bwS := s, bwI := i\<rparr>, None))
      in if s = [] then (q, None)
         else if has_suffix s ''MB'' then done (1024 * 1024) (trim_suffix s ''MB'')
         else if has_suffix s ''KB'' then done 1024 (trim_suffix s ''KB'')
         else (q, Some UnitNotSupport))"

definition NewBandwidthQuantity :: "(string \<Rightarrow> int \<Rightarrow> int option) \<Rightarrow> string \<Rightarrow> BandwidthQuantity \<times> config_error option" where
  "NewBandwidthQuantity pf s = UnmarshalString pf s zero_bandwidth"

definition ports_range_String :: "FrpRange \<Rightarrow> string" where
  "ports_range_String v = (if 0 < frSingle v then itoa (frSingle v) else itoa (frStart v) @ ''-'' @ itoa (frEnd v))"

definition ports_slice_String :: "FrpRange list \<Rightarrow> string" where
  "ports_slice_String p = (if p = [] then [] else join '','' (map ports_range_String p))"

definition parse_ports_range :: "string \<Rightarrow> config_error + FrpRange" where
  "parse_ports_range s = (case split_on CHR ''-'' s of
       [a] \<Rightarrow> (case atoi (trim_space a) of None \<Rightarrow> Inl BadRange | Some n \<Rightarrow> Inr \<lparr>frStart = 0, frEnd = 0, frSingle = n\<rparr>)
     | [a, b] \<Rightarrow> (case (atoi (trim_space a), atoi (trim_space b)) of
           (Some m, Some n) \<Rightarrow> if n < m then Inl BadRange else Inr \<lparr>frStart = m, frEnd = n, frSingle = 0\<rparr>
         | _ \<Rightarrow> Inl BadRange)
     | _ \<Rightarrow> Inl BadRange)"

fun parse_ports_ranges :: "string list \<Rightarrow> config_error + FrpRange list" where
  "parse_ports_ranges [] = Inr []"
| "parse_ports_ranges (s # ss) = (case parse_ports_range s of
       Inl e \<Rightarrow> Inl e
     | Inr r \<Rightarrow> (case parse_ports_ranges ss of Inl e \<Rightarrow> Inl e | Inr rs \<Rightarrow> Inr (r # rs)))"

definition NewPortsRangeSliceFromString :: "string \<Rightarrow> config_error + FrpRange list" where
  "NewPortsRangeSliceFromString str = parse_ports_ranges (split_on CHR '','' (trim_space str))"

section \<open>Configurations and messages\<close>

text \<open>Health checks, plugins and the back end belong to the client. Of the options of a plugin the model keeps what
  \<open>Complete\<close> and the checks look at: the address or the path, and whether HTTP/2 is enabled; of the health check its type and path.
  The options of hole punching of an xtcp proxy are left out.\<close>

datatype ClientPluginOptions =
    HTTP2HTTPSPluginOptions string
  | HTTPProxyPluginOptions
  | HTTPS2HTTPPluginOptions string "bool option"
  | HTTPS2HTTPSPluginOptions string "bool option"
  | HTTP2HTTPPluginOptions string
  | Socks5PluginOptions
  | StaticFilePluginOptions string
  | UnixDomainSocketPluginOptions string
  | TLS2RawPluginOptions string
  | VirtualNetPluginOptions

record ProxyBaseConfig =
  pbName :: string
  pbType :: string
  pbEnabled :: "bool option"
  pbAnnotations :: "(string, string) gomap"
  pbUseEncryption :: bool
  pbUseCompression :: bool
  pbBandwidthLimit :: BandwidthQuantity
  pbBandwidthLimitMode :: string
  pbProxyProtocolVersion :: string
  pbMetadatas :: "(string, string) gomap"
  pbGroup :: string
  pbGroupKey :: string
  pbHealthType :: string
  pbHealthPath :: string
  pbLocalIP :: string
  pbLocalPort :: int
  pbPluginType :: string
  pbPluginOptions :: "ClientPluginOptions option"

record DomainConfig =
  dcCustomDomains :: "string list"
  dcSubDomain :: string

record HTTPOptions =
  htLocations :: "string list"
  htHTTPUser :: string
  htHTTPPassword :: string
  htHostHeaderRewrite :: string
  htRequestHeaders :: "(string, string) gomap"
  htResponseHeaders :: "(string, string) gomap"
  htRouteByHTTPUser :: string

record TCPMuxOptions =
  tmHTTPUser :: string
  tmHTTPPassword :: string
  tmRouteByHTTPUser :: string
  tmMultiplexer :: string

record SecretOptions =
  soSecretkey :: string
  soAllowUsers :: "string list"

datatype ProxyConfigurer =
    TCPProxyConfig ProxyBaseConfig int
  | UDPProxyConfig ProxyBaseConfig int
  | HTTPProxyConfig ProxyBaseConfig DomainConfig HTTPOptions
  | HTTPSProxyConfig ProxyBaseConfig DomainConfig
  | TCPMuxProxyConfig ProxyBaseConfig DomainConfig TCPMuxOptions
  | STCPProxyConfig ProxyBaseConfig SecretOptions
  | XTCPProxyConfig ProxyBaseConfig SecretOptions
  | SUDPProxyConfig ProxyBaseConfig SecretOptions

record NewProxyMsg =
  npProxyName :: string
  npProxyType :: string
  npUseEncryption :: bool
  npUseCompression :: bool
  npBandwidthLimit :: string
  npBandwidthLimitMode :: string
  npGroup :: string
  npGroupKey :: string
  npMetas :: "(string, string) gomap"
  npAnnotations :: "(string, string) gomap"
  npRemotePort :: int
  npCustomDomains :: "string list"
  npSubDomain :: string
  npLocations :: "string list"
  npHTTPUser :: string
  npHTTPPwd :: string
  npHostHeaderRewrite :: string
  npHeaders :: "(string, string) gomap"
  npResponseHeaders :: "(string, string) gomap"
  npRouteByHTTPUser :: string
  npSk :: string
  npAllowUsers :: "string list"
  npMultiplexer :: string

definition zero_NewProxy :: NewProxyMsg where
  "zero_NewProxy = \<lparr>npProxyName = [], npProxyType = [], npUseEncryption = False, npUseCompression = False, npBandwidthLimit = [],
     npBandwidthLimitMode = [], npGroup = [], npGroupKey = [], npMetas = [], npAnnotations = [], npRemotePort = 0, npCustomDomains = [],
     npSubDomain = [], npLocations = [], npHTTPUser = [], npHTTPPwd = [], npHostHeaderRewrite = [], npHeaders = [], npResponseHeaders = [],
     npRouteByHTTPUser = [], npSk = [], npAllowUsers = [], npMultiplexer = []\<rparr>"

definition zero_ProxyBase :: ProxyBaseConfig where
  "zero_ProxyBase = \<lparr>pbName = [], pbType = [], pbEnabled = None, pbAnnotations = [], pbUseEncryption = False, pbUseCompression = False,
     pbBandwidthLimit = zero_bandwidth, pbBandwidthLimitMode = [], pbProxyProtocolVersion = [], pbMetadatas = [], pbGroup = [],
     pbGroupKey = [], pbHealthType = [], pbHealthPath = [], pbLocalIP = [], pbLocalPort = 0, pbPluginType = [], pbPluginOptions = None\<rparr>"

definition zero_Domain :: DomainConfig where
  "zero_Domain = \<lparr>dcCustomDomains = [], dcSubDomain = []\<rparr>"

definition zero_HTTP :: HTTPOptions where
  "zero_HTTP = \<lparr>htLocations = [], htHTTPUser = [], htHTTPPassword = [], htHostHeaderRewrite = [], htRequestHeaders = [],
     htResponseHeaders = [], htRouteByHTTPUser = []\<rparr>"

definition zero_TCPMux :: TCPMuxOptions where
  "zero_TCPMux = \<lparr>tmHTTPUser = [], tmHTTPPassword = [], tmRouteByHTTPUser = [], tmMultiplexer = []\<rparr>"

definition zero_Secret :: SecretOptions where
  "zero_Secret = \<lparr>soSecretkey = [], soAllowUsers = []\<rparr>"

definition EmptyOr :: "string \<Rightarrow> string \<Rightarrow> string" where
  "EmptyOr v fallback = (if v = [] then fallback else v)"

definition PtrOr :: "bool option \<Rightarrow> bool \<Rightarrow> bool option" where
  "PtrOr v fallback = (case v of None \<Rightarrow> Some fallback | Some b \<Rightarrow> Some b)"

fun plugin_Complete :: "ClientPluginOptions \<Rightarrow> ClientPluginOptions" where
  "plugin_Complete (HTTPS2HTTPPluginOptions addr h2) = HTTPS2HTTPPluginOptions addr (PtrOr h2 True)"
| "plugin_Complete (HTTPS2HTTPSPluginOptions addr h2) = HTTPS2HTTPSPluginOptions addr (PtrOr h2 True)"
| "plugin_Complete p = p"

definition base_Complete :: "ProxyBaseConfig \<Rightarrow> ProxyBaseConfig" where
  "base_Complete c = c\<lparr>pbLocalIP := EmptyOr (pbLocalIP c) ''127.0.0.1'', pbBandwidthLimitMode := EmptyOr (pbBandwidthLimitMode c) ''client'',
     pbPluginOptions := map_option plugin_Complete (pbPluginOptions c)\<rparr>"

definition base_MarshalToMsg :: "ProxyBaseConfig \<Rightarrow> NewProxyMsg \<Rightarrow> NewProxyMsg" where
  "base_MarshalToMsg c m = m\<lparr>npProxyName := pbName c, npProxyType := pbType c, npUseEncryption := pbUseEncryption c,
     npUseCompression := pbUseCompression c, npBandwidthLimit := bwS (pbBandwidthLimit c),
     npBandwidthLimitMode := (if pbBandwidthLimitMode c \<noteq> ''client'' then pbBandwidthLimitMode c else npBandwidthLimitMode m),
     npGroup := pbGroup c, npGroupKey := pbGroupKey c, npMetas := pbMetadatas c, npAnnotations := pbAnnotations c\<rparr>"

definition base_UnmarshalFromMsg :: "(string \<Rightarrow> int \<Rightarrow> int option) \<Rightarrow> NewProxyMsg \<Rightarrow> ProxyBaseConfig \<Rightarrow> ProxyBaseConfig" where
  "base_UnmarshalFromMsg pf m c = c\<lparr>pbName := npProxyName m, pbType := npProxyType m, pbUseEncryption := npUseEncryption m,
     pbUseCompression := npUseCompression m,
     pbBandwidthLimit := (if npBandwidthLimit m \<noteq> [] then fst (NewBandwidthQuantity pf (npBandwidthLimit m)) else pbBandwidthLimit c),
     pbBandwidthLimitMode := (if npBandwidthLimitMode m \<noteq> [] then npBandwidthLimitMode m else pbBandwidthLimitMode c),
     pbGroup := npGroup m, pbGroupKey := npGroupKey m, pbMetadatas := npMetas m, pbAnnotations := npAnnotations m\<rparr>"

fun GetBaseConfig :: "ProxyConfigurer \<Rightarrow> ProxyBaseConfig" where
  "GetBaseConfig (TCPProxyConfig b _) = b"
| "GetBaseConfig (UDPProxyConfig b _) = b"
| "GetBaseConfig (HTTPProxyConfig b _ _) = b"
| "GetBaseConfig (HTTPSProxyConfig b _) = b"
| "GetBaseConfig (TCPMuxProxyConfig b _ _) = b"
| "GetBaseConfig (STCPProxyConfig b _) = b"
| "GetBaseConfig (XTCPProxyConfig b _) = b"
| "GetBaseConfig (SUDPProxyConfig b _) = b"

fun with_base :: "(ProxyBaseConfig \<Rightarrow> ProxyBaseConfig) \<Rightarrow> ProxyConfigurer \<Rightarrow> ProxyConfigurer" where
  "with_base f (TCPProxyConfig b x) = TCPProxyConfig (f b) x"
| "with_base f (UDPProxyConfig b x) = UDPProxyConfig (f b) x"
| "with_base f (HTTPProxyConfig b d x) = HTTPProxyConfig (f b) d x"
| "with_base f (HTTPSProxyConfig b d) = HTTPSProxyConfig (f b) d"
| "with_base f (TCPMuxProxyConfig b d x) = TCPMuxProxyConfig (f b) d x"
| "with_base f (STCPProxyConfig b x) = STCPProxyConfig (f b) x"
| "with_base f (XTCPProxyConfig b x) = XTCPProxyConfig (f b) x"
| "with_base f (SUDPProxyConfig b x) = SUDPProxyConfig (f b) x"

definition Complete :: "ProxyConfigurer \<Rightarrow> ProxyConfigurer" where
  "Complete c = with_base base_Complete c"

definition tcp_MarshalToMsg :: "ProxyBaseConfig \<Rightarrow> int \<Rightarrow> NewProxyMsg \<Rightarrow> NewProxyMsg" where
  "tcp_MarshalToMsg b port m = (base_MarshalToMsg b m)\<lparr>npRemotePort := port\<rparr>"

definition udp_MarshalToMsg :: "ProxyBaseConfig \<Rightarrow> int \<Rightarrow> NewProxyMsg \<Rightarrow> NewProxyMsg" where
  "udp_MarshalToMsg b port m = (base_MarshalToMsg b m)\<lparr>npRemotePort := port\<rparr>"

definition http_MarshalToMsg :: "ProxyBaseConfig \<Rightarrow> DomainConfig \<Rightarrow> HTTPOptions \<Rightarrow> NewProxyMsg \<Rightarrow> NewProxyMsg" where
  "http_MarshalToMsg b d h m = (base_MarshalToMsg b m)\<lparr>npCustomDomains := dcCustomDomains d, npSubDomain := dcSubDomain d,
     npLocations := htLocations h, npHostHeaderRewrite := htHostHeaderRewrite h, npHTTPUser := htHTTPUser h, npHTTPPwd := htHTTPPassword h,
     npHeaders := htRequestHeaders h, npResponseHeaders := htResponseHeaders h, npRouteByHTTPUser := htRouteByHTTPUser h\<rparr>"

definition https_MarshalToMsg :: "ProxyBaseConfig \<Rightarrow> DomainConfig \<Rightarrow> NewProxyMsg \<Rightarrow> NewProxyMsg" where
  "https_MarshalToMsg b d m = (base_MarshalToMsg b m)\<lparr>npCustomDomains := dcCustomDomains d, npSubDomain := dcSubDomain d\<rparr>"

definition tcpmux_MarshalToMsg :: "ProxyBaseConfig \<Rightarrow> DomainConfig \<Rightarrow> TCPMuxOptions \<Rightarrow> NewProxyMsg \<Rightarrow> NewProxyMsg" where
  "tcpmux_MarshalToMsg b d t m = (base_MarshalToMsg b m)\<lparr>npCustomDomains := dcCustomDomains d, npSubDomain := dcSubDomain d,
     npMultiplexer := tmMultiplexer t, npHTTPUser := tmHTTPUser t, npHTTPPwd := tmHTTPPassword t, npRouteByHTTPUser := tmRouteByHTTPUser t\<rparr>"

definition stcp_MarshalToMsg :: "ProxyBaseConfig \<Rightarrow> SecretOptions \<Rightarrow> NewProxyMsg \<Rightarrow> NewProxyMsg" where
  "stcp_MarshalToMsg b s m = (base_MarshalToMsg b m)\<lparr>npSk := soSecretkey s, npAllowUsers := soAllowUsers s\<rparr>"

definition xtcp_MarshalToMsg :: "ProxyBaseConfig \<Rightarrow> SecretOptions \<Rightarrow> NewProxyMsg \<Rightarrow> NewProxyMsg" where
  "xtcp_MarshalToMsg b s m = (base_MarshalToMsg b m)\<lparr>npSk := soSecretkey s, npAllowUsers := soAllowUsers s\<rparr>"

definition sudp_MarshalToMsg :: "ProxyBaseConfig \<Rightarrow> SecretOptions \<Rightarrow> NewProxyMsg \<Rightarrow> NewProxyMsg" where
  "sudp_MarshalToMsg b s m = (base_MarshalToMsg b m)\<lparr>npSk := soSecretkey s, npAllowUsers := soAllowUsers s\<rparr>"

fun MarshalToMsg :: "ProxyConfigurer \<Rightarrow> NewProxyMsg \<Rightarrow> NewProxyMsg" where
  "MarshalToMsg (TCPProxyConfig b port) m = tcp_MarshalToMsg b port m"
| "MarshalToMsg (UDPProxyConfig b port) m = udp_MarshalToMsg b port m"
| "MarshalToMsg (HTTPProxyConfig b d h) m = http_MarshalToMsg b d h m"
| "MarshalToMsg (HTTPSProxyConfig b d) m = https_MarshalToMsg b d m"
| "MarshalToMsg (TCPMuxProxyConfig b d t) m = tcpmux_MarshalToMsg b d t m"
| "MarshalToMsg (STCPProxyConfig b s) m = stcp_MarshalToMsg b s m"
| "MarshalToMsg (XTCPProxyConfig b s) m = xtcp_MarshalToMsg b s m"
| "MarshalToMsg (SUDPProxyConfig b s) m = sudp_MarshalToMsg b s m"

lemmas marshal_defs = base_MarshalToMsg_def tcp_MarshalToMsg_def udp_MarshalToMsg_def http_MarshalToMsg_def https_MarshalToMsg_def
  tcpmux_MarshalToMsg_def stcp_MarshalToMsg_def xtcp_MarshalToMsg_def sudp_MarshalToMsg_def

definition domain_of_msg :: "NewProxyMsg \<Rightarrow> DomainConfig \<Rightarrow> DomainConfig" where
  "domain_of_msg m d = d\<lparr>dcCustomDomains := npCustomDomains m, dcSubDomain := npSubDomain m\<rparr>"

definition secret_of_msg :: "NewProxyMsg \<Rightarrow> SecretOptions \<Rightarrow> SecretOptions" where
  "secret_of_msg m s = s\<lparr>soSecretkey := npSk m, soAllowUsers := npAllowUsers m\<rparr>"

definition tcp_UnmarshalFromMsg :: "(string \<Rightarrow> int \<Rightarrow> int option) \<Rightarrow> NewProxyMsg \<Rightarrow> ProxyBaseConfig \<Rightarrow> int \<Rightarrow> ProxyConfigurer" where
  "tcp_UnmarshalFromMsg pf m b port = TCPProxyConfig (base_UnmarshalFromMsg pf m b) (npRemotePort m)"

definition udp_UnmarshalFromMsg :: "(string \<Rightarrow> int \<Rightarrow> int option) \<Rightarrow> NewProxyMsg \<Rightarrow> ProxyBaseConfig \<Rightarrow> int \<Rightarrow> ProxyConfigurer" where
  "udp_UnmarshalFromMsg pf m b port = UDPProxyConfig (base_UnmarshalFromMsg pf m b) (npRemotePort m)"

definition http_UnmarshalFromMsg :: "(string \<Rightarrow> int \<Rightarrow> int option) \<Rightarrow> NewProxyMsg \<Rightarrow> ProxyBaseConfig \<Rightarrow> DomainConfig \<Rightarrow> HTTPOptions \<Rightarrow> ProxyConfigurer" where
  "http_UnmarshalFromMsg pf m b d h = HTTPProxyConfig (base_UnmarshalFromMsg pf m b) (domain_of_msg m d)
     (h\<lparr>htLocations := npLocations m, htHostHeaderRewrite := npHostHeaderRewrite m, htHTTPUser := npHTTPUser m, htHTTPPassword := npHTTPPwd m,
        htRequestHeaders := npHeaders m, htResponseHeaders := npResponseHeaders m, htRouteByHTTPUser := npRouteByHTTPUser m\<rparr>)"

definition https_UnmarshalFromMsg :: "(string \<Rightarrow> int \<Rightarrow> int option) \<Rightarrow> NewProxyMsg \<Rightarrow> ProxyBaseConfig \<Rightarrow> DomainConfig \<Rightarrow> ProxyConfigurer" where
  "https_UnmarshalFromMsg pf m b d = HTTPSProxyConfig (base_UnmarshalFromMsg pf m b) (domain_of_msg m d)"

definition tcpmux_UnmarshalFromMsg :: "(string \<Rightarrow> int \<Rightarrow> int option) \<Rightarrow> NewProxyMsg \<Rightarrow> ProxyBaseConfig \<Rightarrow> DomainConfig \<Rightarrow> TCPMuxOptions \<Rightarrow> ProxyConfigurer" where
  "tcpmux_UnmarshalFromMsg pf m b d t = TCPMuxProxyConfig (base_UnmarshalFromMsg pf m b) (domain_of_msg m d)
     (t\<lparr>tmMultiplexer := npMultiplexer m, tmHTTPUser := npHTTPUser m, tmHTTPPassword := npHTTPPwd m, tmRouteByHTTPUser := npRouteByHTTPUser m\<rparr>)"

definition stcp_UnmarshalFromMsg :: "(string \<Rightarrow> int \<Rightarrow> int option) \<Rightarrow> NewProxyMsg \<Rightarrow> ProxyBaseConfig \<Rightarrow> SecretOptions \<Rightarrow> ProxyConfigurer" where
  "stcp_UnmarshalFromMsg pf m b s = STCPProxyConfig (base_UnmarshalFromMsg pf m b) (secret_of_msg m s)"

definition xtcp_UnmarshalFromMsg :: "(string \<Rightarrow> int \<Rightarrow> int option) \<Rightarrow> NewProxyMsg \<Rightarrow> ProxyBaseConfig \<Rightarrow> SecretOptions \<Rightarrow> ProxyConfigurer" where
  "xtcp_UnmarshalFromMsg pf m b s = XTCPProxyConfig (base_UnmarshalFromMsg pf m b) (secret_of_msg m s)"

definition sudp_UnmarshalFromMsg :: "(string \<Rightarrow> int \<Rightarrow> int option) \<Rightarrow> NewProxyMsg \<Rightarrow> ProxyBaseConfig \<Rightarrow> SecretOptions \<Rightarrow> ProxyConfigurer" where
  "sudp_UnmarshalFromMsg pf m b s = SUDPProxyConfig (base_UnmarshalFromMsg pf m b) (secret_of_msg m s)"

fun UnmarshalFromMsg :: "(string \<Rightarrow> int \<Rightarrow> int option) \<Rightarrow> NewProxyMsg \<Rightarrow> ProxyConfigurer \<Rightarrow> ProxyConfigurer" where
  "UnmarshalFromMsg pf m (TCPProxyConfig b port) = tcp_UnmarshalFromMsg pf m b port"
| "UnmarshalFromMsg pf m (UDPProxyConfig b port) = udp_UnmarshalFromMsg pf m b port"
| "UnmarshalFromMsg pf m (HTTPProxyConfig b d h) = http_UnmarshalFromMsg pf m b d h"
| "UnmarshalFromMsg pf m (HTTPSProxyConfig b d) = https_UnmarshalFromMsg pf m b d"
| "UnmarshalFromMsg pf m (TCPMuxProxyConfig b d t) = tcpmux_UnmarshalFromMsg pf m b d t"
| "UnmarshalFromMsg pf m (STCPProxyConfig b s) = stcp_UnmarshalFromMsg pf m b s"
| "UnmarshalFromMsg pf m (XTCPProxyConfig b s) = xtcp_UnmarshalFromMsg pf m b s"
| "UnmarshalFromMsg pf m (SUDPProxyConfig b s) = sudp_UnmarshalFromMsg pf m b s"

lemmas unmarshal_defs = domain_of_msg_def secret_of_msg_def tcp_UnmarshalFromMsg_def udp_UnmarshalFromMsg_def http_UnmarshalFromMsg_def
  https_UnmarshalFromMsg_def tcpmux_UnmarshalFromMsg_def stcp_UnmarshalFromMsg_def xtcp_UnmarshalFromMsg_def sudp_UnmarshalFromMsg_def

definition NewProxyConfigurerByType :: "string \<Rightarrow> ProxyConfigurer option" where
  "NewProxyConfigurerByType ty =
     (let b = zero_ProxyBase\<lparr>pbType := ty\<rparr> in
      map_of [(''tcp'', TCPProxyConfig b 0), (''udp'', UDPProxyConfig b 0), (''http'', HTTPProxyConfig b zero_Domain zero_HTTP),
        (''https'', HTTPSProxyConfig b zero_Domain), (''tcpmux'', TCPMuxProxyConfig b zero_Domain zero_TCPMux),
        (''stcp'', STCPProxyConfig b zero_Secret), (''xtcp'', XTCPProxyConfig b zero_Secret), (''sudp'', SUDPProxyConfig b zero_Secret)] ty)"

section \<open>What is checked\<close>

record ProxyServerConfig =
  scSubDomainHost :: string
  scVhostHTTPPort :: int
  scVhostHTTPSPort :: int
  scTCPMuxHTTPConnectPort :: int

definition annotations_size :: "(string, string) gomap \<Rightarrow> int" where
  "annotations_size a = sum_list (map (\<lambda>(k, v). int (length k) + int (length v)) a)"

definition ValidateAnnotations :: "(string \<Rightarrow> bool) \<Rightarrow> (string, string) gomap \<Rightarrow> config_error option" where
  "ValidateAnnotations qualified a =
     (if list_ex (\<lambda>(k, _). \<not> qualified (to_lower k)) a then Some BadAnnotations
      else if 262144 < annotations_size a then Some AnnotationsTooLarge
      else None)"

definition ValidatePort :: "int \<Rightarrow> bool" where
  "ValidatePort port \<longleftrightarrow> 0 \<le> port \<and> port \<le> 65535"

fun ValidateClientPluginOptions :: "ClientPluginOptions \<Rightarrow> config_error option" where
  "ValidateClientPluginOptions (HTTP2HTTPSPluginOptions addr) = (if addr = [] then Some EmptyPluginPath else None)"
| "ValidateClientPluginOptions (HTTPS2HTTPPluginOptions addr _) = (if addr = [] then Some EmptyPluginPath else None)"
| "ValidateClientPluginOptions (HTTPS2HTTPSPluginOptions addr _) = (if addr = [] then Some EmptyPluginPath else None)"
| "ValidateClientPluginOptions (StaticFilePluginOptions path) = (if path = [] then Some EmptyPluginPath else None)"
| "ValidateClientPluginOptions (UnixDomainSocketPluginOptions path) = (if path = [] then Some EmptyPluginPath else None)"
| "ValidateClientPluginOptions (TLS2RawPluginOptions addr) = (if addr = [] then Some EmptyPluginPath else None)"
| "ValidateClientPluginOptions _ = None"

definition validateProxyBaseConfigForClient :: "(string \<Rightarrow> bool) \<Rightarrow> ProxyBaseConfig \<Rightarrow> config_error option" where
  "validateProxyBaseConfigForClient qualified c =
     (if pbName c = [] then Some EmptyName
      else if ValidateAnnotations qualified (pbAnnotations c) \<noteq> None then ValidateAnnotations qualified (pbAnnotations c)
      else if pbProxyProtocolVersion c \<notin> {[], ''v1'', ''v2''} then Some (BadProtocolVersion (pbProxyProtocolVersion c))
      else if pbBandwidthLimitMode c \<notin> {''client'', ''server''} then Some BadBandwidthMode
      else if pbPluginType c = [] \<and> \<not> ValidatePort (pbLocalPort c) then Some BadLocalPort
      else if pbHealthType c \<notin> {[], ''tcp'', ''http''} then Some (BadHealthCheck (pbHealthType c))
      else if pbHealthType c = ''http'' \<and> pbHealthPath c = [] then Some EmptyHealthPath
      else if pbPluginType c \<noteq> [] then Option.bind (pbPluginOptions c) ValidateClientPluginOptions
      else None)"

definition validateDomainConfigForClient :: "DomainConfig \<Rightarrow> config_error option" where
  "validateDomainConfigForClient d = (if dcSubDomain d = [] \<and> dcCustomDomains d = [] then Some NoDomains else None)"

definition ValidateProxyConfigurerForClient :: "(string \<Rightarrow> bool) \<Rightarrow> ProxyConfigurer \<Rightarrow> config_error option" where
  "ValidateProxyConfigurerForClient qualified c = (case validateProxyBaseConfigForClient qualified (GetBaseConfig c) of
       Some e \<Rightarrow> Some e
     | None \<Rightarrow> (case c of
           HTTPProxyConfig _ d _ \<Rightarrow> validateDomainConfigForClient d
         | HTTPSProxyConfig _ d \<Rightarrow> validateDomainConfigForClient d
         | TCPMuxProxyConfig _ d t \<Rightarrow> (case validateDomainConfigForClient d of
               Some e \<Rightarrow> Some e
             | None \<Rightarrow> if tmMultiplexer t \<noteq> ''httpconnect'' then Some (BadMultiplexer (tmMultiplexer t)) else None)
         | _ \<Rightarrow> None))"

definition labels :: "string \<Rightarrow> nat" where
  "labels d = length (split_on CHR ''.'' d)"

definition under_subdomain_host :: "string \<Rightarrow> string \<Rightarrow> bool" where
  "under_subdomain_host host domain \<longleftrightarrow> host \<noteq> [] \<and> labels host < labels domain \<and> has_suffix domain (''.'' @ host)"

definition validateDomainConfigForServer :: "DomainConfig \<Rightarrow> ProxyServerConfig \<Rightarrow> config_error option" where
  "validateDomainConfigForServer d s = (case List.find (under_subdomain_host (scSubDomainHost s)) (dcCustomDomains d) of
       Some domain \<Rightarrow> Some (DomainOfSubDomainHost domain)
     | None \<Rightarrow>
         if dcSubDomain d \<noteq> [] then
           (if scSubDomainHost s = [] then Some SubDomainNotEnabled
            else if contains (dcSubDomain d) ''.'' \<or> contains (dcSubDomain d) ''*'' then Some BadSubDomain
            else None)
         else None)"

definition ValidateProxyConfigurerForServer :: "(string \<Rightarrow> bool) \<Rightarrow> ProxyConfigurer \<Rightarrow> ProxyServerConfig \<Rightarrow> config_error option" where
  "ValidateProxyConfigurerForServer qualified c s = (case ValidateAnnotations qualified (pbAnnotations (GetBaseConfig c)) of
       Some e \<Rightarrow> Some e
     | None \<Rightarrow> (case c of
           HTTPProxyConfig _ d _ \<Rightarrow> if scVhostHTTPPort s = 0 then Some HttpNotEnabled else validateDomainConfigForServer d s
         | HTTPSProxyConfig _ d \<Rightarrow> if scVhostHTTPSPort s = 0 then Some HttpsNotEnabled else validateDomainConfigForServer d s
         | TCPMuxProxyConfig _ d t \<Rightarrow>
             if tmMultiplexer t = ''httpconnect'' \<and> scTCPMuxHTTPConnectPort s = 0 then Some TcpMuxNotEnabled else validateDomainConfigForServer d s
         | _ \<Rightarrow> None))"

definition NewProxyConfigurerFromMsg ::
  "(string \<Rightarrow> int \<Rightarrow> int option) \<Rightarrow> (string \<Rightarrow> bool) \<Rightarrow> NewProxyMsg \<Rightarrow> ProxyServerConfig \<Rightarrow> config_error + ProxyConfigurer" where
  "NewProxyConfigurerFromMsg pf qualified m0 s =
     (let m = m0\<lparr>npProxyType := EmptyOr (npProxyType m0) ''tcp''\<rparr> in
      (case NewProxyConfigurerByType (npProxyType m) of
         None \<Rightarrow> Inl (UnknownProxyType (npProxyType m))
       | Some c0 \<Rightarrow>
           let c = Complete (UnmarshalFromMsg pf m c0) in
           (case ValidateProxyConfigurerForServer qualified c s of Some e \<Rightarrow> Inl e | None \<Rightarrow> Inr c)))"

end
