(* ===== verification/FrpConfigProps.thy ===== *)
theory FrpConfigProps
  imports FrpConfig CoreTypesFacts
begin

text \<open>
  What survives the way of a proxy's configuration from the client to the server, what the checks of the server
  guarantee of the domains of proxies, and the texts of bandwidths and port ranges.
\<close>

section \<open>Texts\<close>

text \<open>A bandwidth that was parsed prints as a text that parses to it again.\<close>

lemma bandwidth_roundtrip:
  assumes "NewBandwidthQuantity pf s = (q, None)" shows "NewBandwidthQuantity pf (bwS q) = (q, None)"
proof (cases "trim_space s = []")
  case True
  with assms show ?thesis by (auto simp: NewBandwidthQuantity_def UnmarshalString_def zero_bandwidth_def)
next
  case False
  with assms have "bwS q = trim_space s"
    by (auto simp: NewBandwidthQuantity_def UnmarshalString_def Let_def split: if_splits option.splits)
  with assms show ?thesis by (simp add: NewBandwidthQuantity_def UnmarshalString_def)
qed

definition plain_range :: "FrpRange \<Rightarrow> bool" where
  "plain_range r \<longleftrightarrow> (if 0 < frSingle r then frStart r = 0 \<and> frEnd r = 0 \<and> frSingle r < 2 ^ 63
     else frSingle r = 0 \<and> 0 \<le> frStart r \<and> frStart r \<le> frEnd r \<and> frEnd r < 2 ^ 63)"

lemma ports_range_chars: "plain_range r \<Longrightarrow> c \<in> set (ports_range_String r) \<Longrightarrow> is_digit c \<or> c = CHR ''-''"
  by (auto simp: ports_range_String_def dest: itoa_chars split: if_splits)

lemma parse_ports_range_String: "plain_range r \<Longrightarrow> parse_ports_range (ports_range_String r) = Inr r"
proof -
  assume r: "plain_range r"
  have d: "CHR ''-'' \<notin> set (itoa n)" if "0 \<le> n" for n using itoa_nonneg_digits [OF that] digit_not(1) by blast
  show ?thesis
  proof (cases "0 < frSingle r")
    case True
    with r d [of "frSingle r"] show ?thesis
      by (cases r) (simp add: plain_range_def ports_range_String_def parse_ports_range_def split_on_single int64_def)
  next
    case False
    with r d [of "frStart r"] d [of "frEnd r"] show ?thesis
      by (cases r) (simp add: plain_range_def ports_range_String_def parse_ports_range_def split_on_single split_on_append int64_def)
  qed
qed

text \<open>Port ranges print as a text that parses to them again. The empty list has no such text.\<close>

theorem ports_slice_roundtrip:
  assumes "list_all plain_range rs" "rs \<noteq> []"
  shows "NewPortsRangeSliceFromString (ports_slice_String rs) = Inr rs"
proof -
  have c: "\<not> is_space x" "x \<noteq> CHR '',''" if "r \<in> set rs" "x \<in> set (ports_range_String r)" for r x
    using ports_range_chars [of r x] that assms(1) by (auto simp: list_all_iff is_space_def is_digit_def)
  have "trim_space (ports_slice_String rs) = ports_slice_String rs"
    using assms(2) c(1) unfolding ports_slice_String_def
    by (auto intro!: trim_space_id dest!: join_comma_no_space [rotated])
  moreover have "split_on CHR '','' (ports_slice_String rs) = map ports_range_String rs"
    using assms(2) c(2) unfolding ports_slice_String_def by (subst if_not_P, simp) (intro split_on_join; force)
  moreover have "parse_ports_ranges (map ports_range_String qs) = Inr qs" if "list_all plain_range qs" for qs
    using that by (induction qs) (simp_all add: parse_ports_range_String)
  ultimately show ?thesis using assms(1) by (simp add: NewPortsRangeSliceFromString_def)
qed

section \<open>From the client to the server\<close>

fun proxy_type_name :: "ProxyConfigurer \<Rightarrow> string" where
  "proxy_type_name (TCPProxyConfig _ _) = ''tcp''"
| "proxy_type_name (UDPProxyConfig _ _) = ''udp''"
| "proxy_type_name (HTTPProxyConfig _ _ _) = ''http''"
| "proxy_type_name (HTTPSProxyConfig _ _) = ''https''"
| "proxy_type_name (TCPMuxProxyConfig _ _ _) = ''tcpmux''"
| "proxy_type_name (STCPProxyConfig _ _) = ''stcp''"
| "proxy_type_name (XTCPProxyConfig _ _) = ''xtcp''"
| "proxy_type_name (SUDPProxyConfig _ _) = ''sudp''"

text \<open>The server has the same configuration but for what only the client uses.\<close>

definition without_client :: "ProxyBaseConfig \<Rightarrow> ProxyBaseConfig" where
  "without_client b = b\<lparr>pbEnabled := None, pbProxyProtocolVersion := [], pbHealthType := [], pbHealthPath := [],
     pbLocalIP := [], pbLocalPort := 0, pbPluginType := [], pbPluginOptions := None\<rparr>"

lemma base_roundtrip:
  assumes "NewBandwidthQuantity pf (bwS (pbBandwidthLimit b)) = (pbBandwidthLimit b, None)" "pbType b = ty" "ty \<noteq> []"
    and "npProxyName m = pbName b" "npProxyType m = ty" "npUseEncryption m = pbUseEncryption b" "npUseCompression m = pbUseCompression b"
      "npBandwidthLimit m = bwS (pbBandwidthLimit b)"
      "npBandwidthLimitMode m = (if pbBandwidthLimitMode b \<noteq> ''client'' then pbBandwidthLimitMode b else [])"
      "npGroup m = pbGroup b" "npGroupKey m = pbGroupKey b" "npMetas m = pbMetadatas b" "npAnnotations m = pbAnnotations b"
  shows "base_Complete (base_UnmarshalFromMsg pf m (zero_ProxyBase\<lparr>pbType := ty\<rparr>)) = base_Complete (without_client b)"
proof -
  have "zero_bandwidth = pbBandwidthLimit b" if "bwS (pbBandwidthLimit b) = []"
    using assms(1) by (simp add: that NewBandwidthQuantity_def UnmarshalString_def)
  with assms show ?thesis
    by (intro ProxyBaseConfig.equality) (auto simp: base_Complete_def base_UnmarshalFromMsg_def without_client_def zero_ProxyBase_def EmptyOr_def)
qed

lemma options_eta:
  "(zero_HTTP)\<lparr>htLocations := htLocations h, htHostHeaderRewrite := htHostHeaderRewrite h, htHTTPUser := htHTTPUser h,
     htHTTPPassword := htHTTPPassword h, htRequestHeaders := htRequestHeaders h, htResponseHeaders := htResponseHeaders h,
     htRouteByHTTPUser := htRouteByHTTPUser h\<rparr> = h"
  "(zero_TCPMux)\<lparr>tmMultiplexer := tmMultiplexer t, tmHTTPUser := tmHTTPUser t, tmHTTPPassword := tmHTTPPassword t,
     tmRouteByHTTPUser := tmRouteByHTTPUser t\<rparr> = t"
  "(zero_Domain)\<lparr>dcCustomDomains := dcCustomDomains d, dcSubDomain := dcSubDomain d\<rparr> = d"
  "(zero_Secret)\<lparr>soSecretkey := soSecretkey s, soAllowUsers := soAllowUsers s\<rparr> = s"
  by (simp_all add: zero_HTTP_def zero_TCPMux_def zero_Domain_def zero_Secret_def)

text \<open>C31. A client that sends the configuration of a proxy of any of the eight kinds gets at the server exactly that configuration,
  completed and without what only the client uses, or the error of the checks of the server on it; nothing a
  server looks at is lost or changed on the way, not even a bandwidth, which travels as a text.\<close>

theorem proxy_config_roundtrip:
  assumes "pbType (GetBaseConfig c) = proxy_type_name c"
    and "NewBandwidthQuantity pf (bwS (pbBandwidthLimit (GetBaseConfig c))) = (pbBandwidthLimit (GetBaseConfig c), None)"
  shows "NewProxyConfigurerFromMsg pf qualified (MarshalToMsg c zero_NewProxy) s =
    (let c' = Complete (with_base without_client c) in
     case ValidateProxyConfigurerForServer qualified c' s of Some e \<Rightarrow> Inl e | None \<Rightarrow> Inr c')"
proof -
  let ?m = "(MarshalToMsg c zero_NewProxy)\<lparr>npProxyType := EmptyOr (npProxyType (MarshalToMsg c zero_NewProxy)) ''tcp''\<rparr>"
  have base: "base_Complete (base_UnmarshalFromMsg pf ?m (zero_ProxyBase\<lparr>pbType := proxy_type_name c\<rparr>)) =
      base_Complete (without_client (GetBaseConfig c))"
    by (rule base_roundtrip [OF assms(2,1)]; use assms(1) in \<open>cases c; simp add: marshal_defs EmptyOr_def zero_NewProxy_def\<close>)
  obtain c0 where c0: "NewProxyConfigurerByType (npProxyType ?m) = Some c0"
      "Complete (UnmarshalFromMsg pf ?m c0) = Complete (with_base without_client c)"
    using base assms(1)
    by (cases c) (simp_all add: NewProxyConfigurerByType_def marshal_defs unmarshal_defs EmptyOr_def Complete_def Let_def options_eta)
  show ?thesis unfolding NewProxyConfigurerFromMsg_def Let_def c0(1) option.case c0(2) ..
qed

definition demo_pf :: "string \<Rightarrow> int \<Rightarrow> int option" where
  "demo_pf f base = map_option (\<lambda>n. n * base) (atoi f)"

definition demo_srv :: ProxyServerConfig where
  "demo_srv = \<lparr>scSubDomainHost = ''frp.io'', scVhostHTTPPort = 80, scVhostHTTPSPort = 443, scTCPMuxHTTPConnectPort = 0\<rparr>"

definition demo_http :: "string list \<Rightarrow> string \<Rightarrow> ProxyConfigurer" where
  "demo_http domains sub = HTTPProxyConfig (zero_ProxyBase\<lparr>pbName := ''web'', pbType := ''http'', pbLocalPort := 8080,
     pbBandwidthLimit := \<lparr>bwS = ''2MB'', bwI = 2097152\<rparr>\<rparr>) \<lparr>dcCustomDomains = domains, dcSubDomain = sub\<rparr> (zero_HTTP\<lparr>htHTTPUser := ''u''\<rparr>)"

definition demo_vhosts :: FrpServer where
  "demo_vhosts = \<lparr>fvUsers = None, fvMaxPortsPerClient = 0, fvSubDomainHost = ''frp.io'', fvBindAddr = [],
      fvTCP = newManager [], fvUDP = newManager [], fvTcpBound = [], fvUdpBound = [], fvUdpLate = [], fvTcpGroups = [],
      fvHttp = [], fvHttpGroups = [], fvHttps = [], fvHttpsGroups = [], fvPxys = [], fvNext = 0\<rparr>"

lemma demo_accepted:
  "NewProxyConfigurerFromMsg demo_pf (\<lambda>_. True) (MarshalToMsg (demo_http [''a.org''] []) zero_NewProxy) demo_srv =
     Inr (Complete (with_base without_client (demo_http [''a.org''] [])))"
  "NewProxyConfigurerFromMsg demo_pf (\<lambda>_. True) (MarshalToMsg (demo_http [] ''shop'') zero_NewProxy) demo_srv =
     Inr (Complete (with_base without_client (demo_http [] ''shop'')))"
  by code_simp+

theorem proxy_config_roundtrip_witness:
  "NewProxyConfigurerFromMsg demo_pf (\<lambda>_. True) (MarshalToMsg (demo_http [] ''shop'') zero_NewProxy) demo_srv =
     (let c' = Complete (with_base without_client (demo_http [] ''shop'')) in
      case ValidateProxyConfigurerForServer (\<lambda>_. True) c' demo_srv of Some e \<Rightarrow> Inl e | None \<Rightarrow> Inr c')"
  by (rule proxy_config_roundtrip) code_simp+

text \<open>What the proxies of the server (\<^verbatim>\<open>FrpProxies\<close>) use of a configuration; the four kinds it does not model have none. The
  proxy that the server runs has in all of it what the client wrote.\<close>

fun conf_of :: "ProxyConfigurer \<Rightarrow> ProxyConf option" where
  "conf_of (TCPProxyConfig b port) = Some \<lparr>pfName = pbName b, pfType = TCPProxyType, pfGroup = pbGroup b, pfGroupKey = pbGroupKey b,
     pfRemotePort = port, pfCustomDomains = [], pfSubDomain = [], pfLocations = [], pfRouteByHTTPUser = []\<rparr>"
| "conf_of (UDPProxyConfig b port) = Some \<lparr>pfName = pbName b, pfType = UDPProxyType, pfGroup = pbGroup b, pfGroupKey = pbGroupKey b,
     pfRemotePort = port, pfCustomDomains = [], pfSubDomain = [], pfLocations = [], pfRouteByHTTPUser = []\<rparr>"
| "conf_of (HTTPProxyConfig b d h) = Some \<lparr>pfName = pbName b, pfType = HTTPProxyType, pfGroup = pbGroup b, pfGroupKey = pbGroupKey b,
     pfRemotePort = 0, pfCustomDomains = dcCustomDomains d, pfSubDomain = dcSubDomain d, pfLocations = htLocations h,
     pfRouteByHTTPUser = htRouteByHTTPUser h\<rparr>"
| "conf_of (HTTPSProxyConfig b d) = Some \<lparr>pfName = pbName b, pfType = HTTPSProxyType, pfGroup = pbGroup b, pfGroupKey = pbGroupKey b,
     pfRemotePort = 0, pfCustomDomains = dcCustomDomains d, pfSubDomain = dcSubDomain d, pfLocations = [], pfRouteByHTTPUser = []\<rparr>"
| "conf_of _ = None"

lemma conf_of_completed: "conf_of (Complete (with_base without_client c)) = conf_of c"
  by (cases c) (simp_all add: Complete_def base_Complete_def without_client_def)

section \<open>Domains under the host of the subdomains\<close>

fun proxy_domains :: "ProxyConfigurer \<Rightarrow> DomainConfig option" where
  "proxy_domains (HTTPProxyConfig _ d _) = Some d"
| "proxy_domains (HTTPSProxyConfig _ d) = Some d"
| "proxy_domains (TCPMuxProxyConfig _ d _) = Some d"
| "proxy_domains _ = None"

lemma labels_append: "labels (x @ CHR ''.'' # y) = labels x + labels y"
proof -
  have l: "length (split_on c s) = Suc (count_list s c)" for c s
    by (induction s) (auto split: list.split)
  show ?thesis by (simp add: labels_def l)
qed

lemma accepted_domains:
  assumes "NewProxyConfigurerFromMsg pf qualified m s = Inr c" "proxy_domains c = Some d"
  shows "validateDomainConfigForServer d s = None"
  using assms by (cases c) (auto simp: NewProxyConfigurerFromMsg_def ValidateProxyConfigurerForServer_def Let_def split: option.splits if_splits)

lemma has_suffix_append: "has_suffix (x @ y) y"
  by (simp add: has_suffix_def)

text \<open>C32. The names under the host of the subdomains belong to the proxies that ask for a subdomain: of two proxies a server accepts,
  no custom domain of one is the domain that the subdomain of the other stands for, and that subdomain is a
  single label without a wildcard, so two subdomains stand for the same domain only when they are equal.\<close>

theorem subdomains_protected:
  assumes "NewProxyConfigurerFromMsg pf qualified m1 s = Inr c1" "NewProxyConfigurerFromMsg pf qualified m2 s = Inr c2"
    and "proxy_domains c1 = Some d1" "proxy_domains c2 = Some d2" "dcSubDomain d2 \<noteq> []" "fvSubDomainHost fv = scSubDomainHost s"
  shows "scSubDomainHost s \<noteq> [] \<and> CHR ''.'' \<notin> set (dcSubDomain d2) \<and> CHR ''*'' \<notin> set (dcSubDomain d2) \<and>
    (\<forall>x \<in> set (buildDomains fv (dcCustomDomains d1) (dcSubDomain d1)).
       x = dcSubDomain d2 @ ''.'' @ scSubDomainHost s \<longrightarrow> dcSubDomain d1 = dcSubDomain d2)"
proof -
  note v1 = accepted_domains [OF assms(1,3)] and v2 = accepted_domains [OF assms(2,4)]
  let ?sub = "dcSubDomain d2 @ ''.'' @ scSubDomainHost s"
  have s2: "scSubDomainHost s \<noteq> []" "CHR ''.'' \<notin> set (dcSubDomain d2)" "CHR ''*'' \<notin> set (dcSubDomain d2)"
    using v2 assms(5) by (auto simp: validateDomainConfigForServer_def contains_single split: option.splits if_splits)
  have "0 < labels (dcSubDomain d2)" using split_on_not_Nil [of "CHR ''.''" "dcSubDomain d2"] by (simp add: labels_def)
  then have "under_subdomain_host (scSubDomainHost s) ?sub"
    using s2(1) has_suffix_append [of "dcSubDomain d2" "''.'' @ scSubDomainHost s"] by (simp add: under_subdomain_host_def labels_append)
  moreover have "\<not> under_subdomain_host (scSubDomainHost s) x" if "x \<in> set (dcCustomDomains d1)" for x
    using v1 that by (auto simp: validateDomainConfigForServer_def find_None_iff split: option.splits)
  ultimately have "?sub \<notin> set (dcCustomDomains d1)" by blast
  with s2 assms(6) show ?thesis by (auto simp: buildDomains_def)
qed

theorem subdomains_protected_witness:
  "scSubDomainHost demo_srv \<noteq> [] \<and> CHR ''.'' \<notin> set ''shop'' \<and> CHR ''*'' \<notin> set ''shop'' \<and>
    ''shop'' @ ''.'' @ scSubDomainHost demo_srv \<notin> set (buildDomains demo_vhosts [''a.org''] [])"
proof -
  have e: "proxy_domains (Complete (with_base without_client (demo_http domains sub))) = Some \<lparr>dcCustomDomains = domains, dcSubDomain = sub\<rparr>"
    for domains sub by (simp add: demo_http_def Complete_def)
  show ?thesis
    using subdomains_protected [OF demo_accepted e e, of demo_vhosts] by (auto simp: demo_srv_def demo_vhosts_def)
qed

text \<open>The check compares bytes while the routes of the server are kept in lower case: a custom domain in upper case takes the
  route of a subdomain.\<close>

lemma upper_case_takes_subdomain:
  "validateDomainConfigForServer \<lparr>dcCustomDomains = [''shop.FRP.io''], dcSubDomain = []\<rparr> demo_srv = None \<and>
   to_lower ''shop.FRP.io'' = ''shop'' @ ''.'' @ ''frp.io''"
  by code_simp

end
