(* ===== verification/FrpRace.thy ===== *)
theory FrpRace
  imports FrpPortsInv
begin

text \<open>
  The port of a tcp proxy under concurrent registrations. Sessions have goroutines of their own, and the only
  locks are those of the port manager and of the proxy manager: between \<^verbatim>\<open>Exist\<close>, \<^verbatim>\<open>Acquire\<close>,
  \<^verbatim>\<open>net.Listen\<close> and \<^verbatim>\<open>Add\<close> of one registration, and between the closing of the listener, \<^verbatim>\<open>Release\<close> and
  \<^verbatim>\<open>Del\<close> at its end, other sessions take their steps (\<^verbatim>\<open>server/control.go\<close>, \<^verbatim>\<open>server/proxy/tcp.go\<close>).
  \<^verbatim>\<open>FrpControl\<close> has the same operations as one step each, with groups and the other kinds of proxies. Here each step is one
  critical section or one system call, for a tcp proxy without a load-balancing group.
\<close>

section \<open>State\<close>

text \<open>Where the goroutine of a proxy is. The flag of \<open>Unbound\<close> says whether the proxy is still in the manager.\<close>

datatype race_phase =
    Checked
  | Acquired int
  | Bound int
  | Doomed int
  | Live int
  | Unbound int bool
  | Released

record RaceTask =
  rkName :: string
  rkPort :: int
  rkRanges :: "FrpRange list"
  rkPhase :: race_phase

text \<open>\<open>raBound\<close> are the ports some listener of the process is bound to, \<open>raPxys\<close> the proxy manager.\<close>

record RaceState =
  raPm :: PortManager
  raBound :: "int list"
  raPxys :: "(string, nat) gomap"
  raTasks :: "(nat, RaceTask) gomap"

definition phase_of :: "RaceState \<Rightarrow> nat \<Rightarrow> race_phase option" where
  "phase_of s i = map_option rkPhase (mget (raTasks s) i)"

definition set_phase :: "nat \<Rightarrow> RaceTask \<Rightarrow> race_phase \<Rightarrow> RaceState \<Rightarrow> RaceState" where
  "set_phase i t ph s = s\<lparr>raTasks := mput i (t\<lparr>rkPhase := ph\<rparr>) (raTasks s)\<rparr>"

definition end_task :: "nat \<Rightarrow> RaceState \<Rightarrow> RaceState" where
  "end_task i s = s\<lparr>raTasks := mdel i (raTasks s)\<rparr>"

section \<open>The steps of one goroutine\<close>

text \<open>A registration goes on when its name is not in the manager.\<close>

definition race_check :: "nat \<Rightarrow> string \<Rightarrow> int \<Rightarrow> FrpRange list \<Rightarrow> RaceState \<Rightarrow> RaceState" where
  "race_check i name port rs s =
     (if mget (raTasks s) i \<noteq> None \<or> mget (raPxys s) name \<noteq> None then s
      else s\<lparr>raTasks := mput i \<lparr>rkName = name, rkPort = port, rkRanges = rs, rkPhase = Checked\<rparr> (raTasks s)\<rparr>)"

text \<open>The trial listen fails on a port that is bound, and may fail on any other.\<close>

definition race_env :: "PortEnv \<Rightarrow> RaceState \<Rightarrow> PortEnv" where
  "race_env env s = env\<lparr>paAvail := \<lambda>p. paAvail env p \<and> p \<notin> set (raBound s)\<rparr>"

definition race_acquire :: "PortEnv \<Rightarrow> nat \<Rightarrow> RaceState \<Rightarrow> RaceState" where
  "race_acquire env i s = (case mget (raTasks s) i of None \<Rightarrow> s
     | Some t \<Rightarrow> (case rkPhase t of
           Checked \<Rightarrow> (case acquire (race_env env s) (rkName t) (rkPort t) (rkRanges t) (raPm s) of
               (pm, Inl e) \<Rightarrow> end_task i (s\<lparr>raPm := pm\<rparr>)
             | (pm, Inr p) \<Rightarrow> set_phase i t (Acquired p) (s\<lparr>raPm := pm\<rparr>))
         | _ \<Rightarrow> s))"

definition race_listen :: "bool \<Rightarrow> nat \<Rightarrow> RaceState \<Rightarrow> RaceState" where
  "race_listen works i s = (case mget (raTasks s) i of None \<Rightarrow> s
     | Some t \<Rightarrow> (case rkPhase t of
           Acquired p \<Rightarrow>
             if works \<and> p \<notin> set (raBound s) then set_phase i t (Bound p) (s\<lparr>raBound := p # raBound s\<rparr>)
             else set_phase i t (Unbound p False) s
         | _ \<Rightarrow> s))"

definition race_add :: "nat \<Rightarrow> RaceState \<Rightarrow> RaceState" where
  "race_add i s = (case mget (raTasks s) i of None \<Rightarrow> s
     | Some t \<Rightarrow> (case rkPhase t of
           Bound p \<Rightarrow>
             if mget (raPxys s) (rkName t) \<noteq> None then set_phase i t (Doomed p) s
             else set_phase i t (Live p) (s\<lparr>raPxys := mput (rkName t) i (raPxys s)\<rparr>)
         | _ \<Rightarrow> s))"

definition race_close :: "nat \<Rightarrow> RaceState \<Rightarrow> RaceState" where
  "race_close i s = (case mget (raTasks s) i of None \<Rightarrow> s
     | Some t \<Rightarrow> (case rkPhase t of
           Live p \<Rightarrow> set_phase i t (Unbound p True) (s\<lparr>raBound := remove1 p (raBound s)\<rparr>)
         | Doomed p \<Rightarrow> set_phase i t (Unbound p False) (s\<lparr>raBound := remove1 p (raBound s)\<rparr>)
         | _ \<Rightarrow> s))"

definition race_release :: "time \<Rightarrow> nat \<Rightarrow> RaceState \<Rightarrow> RaceState" where
  "race_release now i s = (case mget (raTasks s) i of None \<Rightarrow> s
     | Some t \<Rightarrow> (case rkPhase t of
           Unbound p listed \<Rightarrow>
             (let s1 = s\<lparr>raPm := Release now p (raPm s)\<rparr>
              in if listed then set_phase i t Released s1 else end_task i s1)
         | _ \<Rightarrow> s))"

definition race_del :: "nat \<Rightarrow> RaceState \<Rightarrow> RaceState" where
  "race_del i s = (case mget (raTasks s) i of None \<Rightarrow> s
     | Some t \<Rightarrow> (case rkPhase t of
           Released \<Rightarrow> end_task i (s\<lparr>raPxys := mdel (rkName t) (raPxys s)\<rparr>)
         | _ \<Rightarrow> s))"

section \<open>Interleavings\<close>

fun held_port :: "race_phase \<Rightarrow> int option" where
  "held_port (Acquired p) = Some p"
| "held_port (Bound p) = Some p"
| "held_port (Doomed p) = Some p"
| "held_port (Live p) = Some p"
| "held_port (Unbound p _) = Some p"
| "held_port _ = None"

fun bound_port :: "race_phase \<Rightarrow> int option" where
  "bound_port (Bound p) = Some p"
| "bound_port (Doomed p) = Some p"
| "bound_port (Live p) = Some p"
| "bound_port _ = None"

fun listed :: "race_phase \<Rightarrow> bool" where
  "listed (Live p) = True"
| "listed (Unbound p l) = l"
| "listed Released = True"
| "listed _ = False"

text \<open>
  \<open>undisputed\<close>: no other goroutine holds, without listening on it, the port that is reserved under the name of the
  proxy that is about to acquire. A run is \<open>calm\<close> when that is so at every acquisition.
\<close>

definition undisputed :: "RaceState \<Rightarrow> nat \<Rightarrow> bool" where
  "undisputed s i = (case mget (raTasks s) i of None \<Rightarrow> True
     | Some t \<Rightarrow> (case reserved_port (raPm s) (rkName t) of None \<Rightarrow> True
         | Some p \<Rightarrow> list_all (\<lambda>(j, u). \<not> (held_port (rkPhase u) = Some p \<and> bound_port (rkPhase u) = None)) (raTasks s)))"

inductive race_step :: "bool \<Rightarrow> RaceState \<Rightarrow> RaceState \<Rightarrow> bool" for calm where
  check: "race_step calm s (race_check i name port rs s)"
| acquire: "calm \<longrightarrow> undisputed s i \<Longrightarrow> race_step calm s (race_acquire env i s)"
| listen: "race_step calm s (race_listen works i s)"
| add: "race_step calm s (race_add i s)"
| close: "race_step calm s (race_close i s)"
| release: "race_step calm s (race_release now i s)"
| del: "race_step calm s (race_del i s)"
| clean: "race_step calm s (s\<lparr>raPm := cleanReservedPortsOnce now (raPm s)\<rparr>)"

definition race_start :: "FrpRange list \<Rightarrow> RaceState" where
  "race_start ranges = \<lparr>raPm = newManager ranges, raBound = [], raPxys = [], raTasks = []\<rparr>"

inductive race_reachable :: "bool \<Rightarrow> FrpRange list \<Rightarrow> RaceState \<Rightarrow> bool" for calm ranges where
  start: "race_reachable calm ranges (race_start ranges)"
| step: "race_reachable calm ranges s \<Longrightarrow> race_step calm s s' \<Longrightarrow> race_reachable calm ranges s'"

definition holds_port :: "RaceState \<Rightarrow> nat \<Rightarrow> int \<Rightarrow> bool" where
  "holds_port s i p \<longleftrightarrow> Option.bind (phase_of s i) held_port = Some p"

definition listens_on :: "RaceState \<Rightarrow> nat \<Rightarrow> int \<Rightarrow> bool" where
  "listens_on s i p \<longleftrightarrow> Option.bind (phase_of s i) bound_port = Some p"

abbreviation port_in_use :: "RaceState \<Rightarrow> int \<Rightarrow> bool" where
  "port_in_use s p \<equiv> mget (pmUsed (raPm s)) p \<noteq> None"

end
