(* ===== verification/FrpRaceProps.thy ===== *)
theory FrpRaceProps
  imports FrpRace
begin

text \<open>
  What holds of ports whatever the interleaving: no port stays in use without a proxy or a registration that
  will release it, and no two proxies listen on one port. That a live proxy's port is in use needs more, as a
  registration that goes through the port reserved under its name can meet another goroutine that holds this port.
\<close>

section \<open>The invariant\<close>

definition race_ok :: "int set \<Rightarrow> RaceState \<Rightarrow> bool" where
  "race_ok R s \<longleftrightarrow> pm_ok R (raPm s) \<and> mwf (raTasks s) \<and> mwf (raPxys s) \<and> distinct (raBound s) \<and>
     (\<forall>p. port_in_use s p \<longrightarrow> (\<exists>i. holds_port s i p)) \<and>
     (\<forall>i p. holds_port s i p \<longrightarrow> p \<in> R) \<and>
     (\<forall>p. p \<in> set (raBound s) \<longleftrightarrow> (\<exists>i. listens_on s i p)) \<and>
     (\<forall>i j p. listens_on s i p \<and> listens_on s j p \<longrightarrow> i = j) \<and>
     (\<forall>n i. mget (raPxys s) n = Some i \<longleftrightarrow> (\<exists>t. mget (raTasks s) i = Some t \<and> rkName t = n \<and> listed (rkPhase t)))"

lemma race_okD:
  assumes "race_ok R s"
  shows "pm_ok R (raPm s)" "mwf (raTasks s)" "mwf (raPxys s)" "distinct (raBound s)"
    and "port_in_use s p \<Longrightarrow> \<exists>i. holds_port s i p"
    and "holds_port s i p \<Longrightarrow> p \<in> R"
    and "p \<in> set (raBound s) \<longleftrightarrow> (\<exists>i. listens_on s i p)"
    and "listens_on s i p \<Longrightarrow> listens_on s j p \<Longrightarrow> i = j"
    and "mget (raPxys s) n = Some i \<longleftrightarrow> (\<exists>t. mget (raTasks s) i = Some t \<and> rkName t = n \<and> listed (rkPhase t))"
  using assms unfolding race_ok_def by blast+

definition race_exact :: "RaceState \<Rightarrow> bool" where
  "race_exact s \<longleftrightarrow> (\<forall>i p. holds_port s i p \<longrightarrow> port_in_use s p) \<and> (\<forall>i j p. holds_port s i p \<and> holds_port s j p \<longrightarrow> i = j)"

lemma set_phase_fields [simp]:
  "raPm (set_phase i t ph s) = raPm s" "raBound (set_phase i t ph s) = raBound s" "raPxys (set_phase i t ph s) = raPxys s"
  "raPm (end_task i s) = raPm s" "raBound (end_task i s) = raBound s" "raPxys (end_task i s) = raPxys s"
  by (simp_all add: set_phase_def end_task_def)

lemma set_phase_tasks:
  "mget (raTasks (set_phase i t ph s)) j = (if j = i then Some (t\<lparr>rkPhase := ph\<rparr>) else mget (raTasks s) j)"
  "mget (raTasks (end_task i s)) j = (if j = i then None else mget (raTasks s) j)"
  "mwf (raTasks s) \<Longrightarrow> mwf (raTasks (set_phase i t ph s))" "mwf (raTasks s) \<Longrightarrow> mwf (raTasks (end_task i s))"
  by (simp_all add: set_phase_def end_task_def gomap_simps)

lemma holds_iff: "holds_port s i p \<longleftrightarrow> (\<exists>t. mget (raTasks s) i = Some t \<and> held_port (rkPhase t) = Some p)"
  by (auto simp: holds_port_def phase_of_def bind_eq_Some_conv)

lemma listens_iff: "listens_on s i p \<longleftrightarrow> (\<exists>t. mget (raTasks s) i = Some t \<and> bound_port (rkPhase t) = Some p)"
  by (auto simp: listens_on_def phase_of_def bind_eq_Some_conv)

lemma bound_held: "bound_port ph = Some p \<Longrightarrow> held_port ph = Some p"
  by (cases ph) auto

lemma listens_holds: "listens_on s i p \<Longrightarrow> holds_port s i p"
  by (auto simp: listens_iff holds_iff dest: bound_held)

section \<open>Every step keeps it\<close>

text \<open>
  A step leaves the state alone or moves one task, which can begin or end with it. \<open>held\<close>, \<open>bound\<close> and
  \<open>entry\<close> read a task that may be absent.
\<close>

definition held :: "RaceTask option \<Rightarrow> int option" where
  "held x = Option.bind x (\<lambda>t. held_port (rkPhase t))"

definition bound :: "RaceTask option \<Rightarrow> int option" where
  "bound x = Option.bind x (\<lambda>t. bound_port (rkPhase t))"

definition entry :: "RaceTask option \<Rightarrow> string option" where
  "entry x = Option.bind x (\<lambda>t. if listed (rkPhase t) then Some (rkName t) else None)"

lemma task_views [simp]:
  "held None = None" "held (Some t) = held_port (rkPhase t)" "bound None = None" "bound (Some t) = bound_port (rkPhase t)"
  "entry None = None" "entry (Some t) = (if listed (rkPhase t) then Some (rkName t) else None)"
  by (simp_all add: held_def bound_def entry_def)

lemma holds_held: "holds_port s i p \<longleftrightarrow> held (mget (raTasks s) i) = Some p"
  by (auto simp: holds_iff held_def bind_eq_Some_conv)

lemma listens_bound: "listens_on s i p \<longleftrightarrow> bound (mget (raTasks s) i) = Some p"
  by (auto simp: listens_iff bound_def bind_eq_Some_conv)

lemma listed_entry: "(\<exists>t. mget (raTasks s) i = Some t \<and> rkName t = n \<and> listed (rkPhase t)) \<longleftrightarrow> entry (mget (raTasks s) i) = Some n"
  by (auto simp: entry_def bind_eq_Some_conv)

text \<open>\<open>moves s s' i\<close>: from \<open>s\<close> to \<open>s'\<close> only task \<open>i\<close> moved, and the books, listeners and names follow it.\<close>

definition moves :: "int set \<Rightarrow> RaceState \<Rightarrow> RaceState \<Rightarrow> nat \<Rightarrow> bool" where
  "moves R s s' i \<longleftrightarrow> (let x = mget (raTasks s) i; y = mget (raTasks s') i in
     (\<forall>j. j \<noteq> i \<longrightarrow> mget (raTasks s') j = mget (raTasks s) j) \<and>
     pm_ok R (raPm s') \<and> mwf (raTasks s') \<and> mwf (raPxys s') \<and> distinct (raBound s') \<and>
     (\<forall>p. port_in_use s' p \<longrightarrow> held y = Some p \<or> port_in_use s p \<and> held x \<noteq> Some p) \<and>
     (\<forall>p. held y = Some p \<longrightarrow> p \<in> R) \<and>
     (\<forall>p. p \<in> set (raBound s') \<longleftrightarrow> bound y = Some p \<or> p \<in> set (raBound s) \<and> bound x \<noteq> Some p) \<and>
     (\<forall>p. bound y = Some p \<longrightarrow> bound x = Some p \<or> p \<notin> set (raBound s)) \<and>
     (\<forall>n k. mget (raPxys s') n = Some k \<longleftrightarrow> (if k = i then entry y = Some n else mget (raPxys s) n = Some k)))"

lemma moves_ok:
  assumes ok: "race_ok R s" and m: "moves R s s' i" shows "race_ok R s'"
proof -
  note d = race_okD [OF ok, unfolded holds_held listens_bound listed_entry]
  note m = m [unfolded moves_def Let_def]
  have same: "mget (raTasks s') j = mget (raTasks s) j" if "j \<noteq> i" for j using m that by blast
  have 5: "\<exists>j. held (mget (raTasks s') j) = Some p" if u: "port_in_use s' p" for p
  proof (cases "held (mget (raTasks s') i) = Some p")
    case False
    then have "port_in_use s p" "held (mget (raTasks s) i) \<noteq> Some p" using m u by blast+
    with d(5) obtain j where "held (mget (raTasks s) j) = Some p" "j \<noteq> i" by metis
    with same show ?thesis by metis
  qed blast
  have 6: "p \<in> R" if "held (mget (raTasks s') j) = Some p" for j p
    using that d(6) [of j p] m same [of j] by (cases "j = i") auto
  have bound_same: "bound (mget (raTasks s') j) = Some p \<longleftrightarrow> bound (mget (raTasks s) j) = Some p" if "j \<noteq> i" for j p
    using same [OF that] by simp
  have 7: "p \<in> set (raBound s') \<longleftrightarrow> (\<exists>j. bound (mget (raTasks s') j) = Some p)" for p
  proof -
    have "p \<in> set (raBound s') \<longleftrightarrow> bound (mget (raTasks s') i) = Some p \<or> (\<exists>j. j \<noteq> i \<and> bound (mget (raTasks s) j) = Some p)"
      using m d(7) [of p] d(8) [of i p] by metis
    also have "\<dots> \<longleftrightarrow> (\<exists>j. bound (mget (raTasks s') j) = Some p)" using bound_same by metis
    finally show ?thesis .
  qed
  have 8: "j = k" if "bound (mget (raTasks s') j) = Some p" "bound (mget (raTasks s') k) = Some p" for j k p
  proof -
    have new: "j' = i" if "bound (mget (raTasks s') i) = Some p" "bound (mget (raTasks s') j') = Some p" for j'
    proof (rule ccontr)
      assume n: "j' \<noteq> i"
      with that(2) bound_same have b: "bound (mget (raTasks s) j') = Some p" by blast
      then have "p \<in> set (raBound s)" using d(7) by blast
      with that(1) m have "bound (mget (raTasks s) i) = Some p" by blast
      with b n d(8) show False by blast
    qed
    show ?thesis
    proof (cases "j = i \<or> k = i")
      case True
      with that new show ?thesis by blast
    next
      case False
      with that bound_same d(8) show ?thesis by blast
    qed
  qed
  have 9: "mget (raPxys s') n = Some k \<longleftrightarrow> entry (mget (raTasks s') k) = Some n" for n k
    using m d(9) [of n k] same [of k] by (cases "k = i") simp_all
  show ?thesis unfolding race_ok_def holds_held listens_bound listed_entry
    using m 5 6 7 8 9 by blast
qed

lemma moved_ok: "s' = s \<or> moves R s s' i \<Longrightarrow> race_ok R s \<Longrightarrow> race_ok R s'"
  using moves_ok by blast

lemma names_in_manager:
  assumes "race_ok R s" shows "mget (raPxys s) n = Some k \<longleftrightarrow> entry (mget (raTasks s) k) = Some n"
  using race_okD(9) [OF assms] by (simp add: listed_entry)

lemma check_moves: "race_ok R s \<Longrightarrow> race_check i name port rs s = s \<or> moves R s (race_check i name port rs s) i"
  using race_okD(1-4) [of R s] names_in_manager [of R s _ i]
  by (auto simp: race_check_def moves_def Let_def gomap_simps)

lemma acquire_moves:
  assumes ok: "race_ok R s" and z: "0 \<notin> R" shows "race_acquire env i s = s \<or> moves R s (race_acquire env i s) i"
proof (cases "\<exists>t. mget (raTasks s) i = Some t \<and> rkPhase t = Checked")
  case False
  then show ?thesis by (auto simp: race_acquire_def split: option.split race_phase.split)
next
  case True
  then obtain t where t: "mget (raTasks s) i = Some t" "rkPhase t = Checked" by blast
  obtain pm r where a: "acquire (race_env env s) (rkName t) (rkPort t) (rkRanges t) (raPm s) = (pm, r)" by fastforce
  note d = race_okD(1-4) [OF ok] and n = names_in_manager [OF ok, of _ i]
  from acquire_takes [OF d(1) a] z consider (err) e where "pm = raPm s" "r = Inl e"
    | (got) p where "pm = markPortAcquiredLocked (rkName t) p (paNow (race_env env s)) (raPm s)" "p \<in> R" "r = Inr p"
    by (cases r) auto
  then show ?thesis
  proof cases
    case err
    with t a d n show ?thesis by (simp add: race_acquire_def moves_def set_phase_tasks)
  next
    case got
    have "pm_ok R pm" unfolding got(1) by (rule mark_ok [OF d(1) got(2)])
    with t a d n got show ?thesis by (simp add: race_acquire_def moves_def set_phase_tasks)
  qed
qed

lemma listen_moves:
  assumes ok: "race_ok R s" shows "race_listen works i s = s \<or> moves R s (race_listen works i s) i"
proof (cases "\<exists>t p. mget (raTasks s) i = Some t \<and> rkPhase t = Acquired p")
  case False
  then show ?thesis by (auto simp: race_listen_def split: option.split race_phase.split)
next
  case True
  then obtain t p where t: "mget (raTasks s) i = Some t" "rkPhase t = Acquired p" by blast
  moreover have "p \<in> R" using race_okD(6) [OF ok, of i p] t by (simp add: holds_held)
  ultimately show ?thesis using race_okD(1-4) [OF ok] names_in_manager [OF ok, of _ i]
    by (auto simp: race_listen_def moves_def set_phase_tasks)
qed

lemma add_moves:
  assumes ok: "race_ok R s" shows "race_add i s = s \<or> moves R s (race_add i s) i"
proof (cases "\<exists>t p. mget (raTasks s) i = Some t \<and> rkPhase t = Bound p")
  case False
  then show ?thesis by (auto simp: race_add_def split: option.split race_phase.split)
next
  case True
  then obtain t p where t: "mget (raTasks s) i = Some t" "rkPhase t = Bound p" by blast
  moreover have "p \<in> R" "p \<in> set (raBound s)" using race_okD(6) [OF ok, of i p] race_okD(7) [OF ok, of p] t by (auto simp: holds_held listens_bound intro!: exI [of _ i])
  ultimately show ?thesis using race_okD(1-4) [OF ok] names_in_manager [OF ok, of _ i]
    by (auto simp: race_add_def moves_def set_phase_tasks gomap_simps)
qed

lemma close_moves:
  assumes ok: "race_ok R s" shows "race_close i s = s \<or> moves R s (race_close i s) i"
proof (cases "\<exists>t p. mget (raTasks s) i = Some t \<and> (rkPhase t = Live p \<or> rkPhase t = Doomed p)")
  case False
  then show ?thesis by (auto simp: race_close_def split: option.split race_phase.split)
next
  case True
  then obtain t p where t: "mget (raTasks s) i = Some t" "rkPhase t = Live p \<or> rkPhase t = Doomed p" by blast
  moreover have "p \<in> R" using race_okD(6) [OF ok, of i p] t by (auto simp: holds_held)
  ultimately show ?thesis using race_okD(1-4) [OF ok] names_in_manager [OF ok, of _ i]
    by (auto simp: race_close_def moves_def set_phase_tasks set_remove1_eq)
qed

lemma release_moves:
  assumes ok: "race_ok R s" shows "race_release now i s = s \<or> moves R s (race_release now i s) i"
proof (cases "\<exists>t p l. mget (raTasks s) i = Some t \<and> rkPhase t = Unbound p l")
  case False
  then show ?thesis by (auto simp: race_release_def split: option.split race_phase.split)
next
  case True
  then obtain t p l where t: "mget (raTasks s) i = Some t" "rkPhase t = Unbound p l" by blast
  note d = race_okD(1-4) [OF ok]
  have "pm_ok R (Release now p (raPm s))" by (rule Release_ok [OF d(1)])
  with t d names_in_manager [OF ok, of _ i] Release_used [OF pm_okD(2) [OF d(1)], of now p] show ?thesis
    by (cases l) (auto simp: race_release_def moves_def set_phase_tasks Let_def)
qed

lemma del_moves:
  assumes ok: "race_ok R s" shows "race_del i s = s \<or> moves R s (race_del i s) i"
proof (cases "\<exists>t. mget (raTasks s) i = Some t \<and> rkPhase t = Released")
  case False
  then show ?thesis by (auto simp: race_del_def split: option.split race_phase.split)
next
  case True
  then obtain t where t: "mget (raTasks s) i = Some t" "rkPhase t = Released" by blast
  then have own: "mget (raPxys s) (rkName t) = Some i" by (simp add: names_in_manager [OF ok])
  have only: "mget (raPxys s) n \<noteq> Some i" if "n \<noteq> rkName t" for n using t that by (simp add: names_in_manager [OF ok])
  have x: "mget (mdel (rkName t) (raPxys s)) n = Some k \<longleftrightarrow> (if k = i then False else mget (raPxys s) n = Some k)" for n k
    using race_okD(3) [OF ok] own only [of n] by (cases "n = rkName t") (simp_all add: gomap_simps)
  have e: "race_del i s = end_task i (s\<lparr>raPxys := mdel (rkName t) (raPxys s)\<rparr>)" using t by (simp add: race_del_def)
  have w: "mwf (mdel (rkName t) (raPxys s))" using race_okD(3) [OF ok] by (simp add: gomap_simps)
  have "mwf (raTasks (end_task i s))" "\<And>j. j \<noteq> i \<Longrightarrow> mget (raTasks (end_task i s)) j = mget (raTasks s) j"
    using race_okD(2) [OF ok] by (simp_all add: set_phase_tasks)
  then have "moves R s (race_del i s) i"
    unfolding moves_def Let_def e using t race_okD(1,4) [OF ok] w by (simp add: x) (simp add: end_task_def gomap_simps)
  then show ?thesis ..
qed

lemma steps_ok:
  assumes "race_ok R s"
  shows "race_ok R (race_check i name port rs s)" "0 \<notin> R \<Longrightarrow> race_ok R (race_acquire env i s)" "race_ok R (race_listen works i s)"
    "race_ok R (race_add i s)" "race_ok R (race_close i s)" "race_ok R (race_release now i s)" "race_ok R (race_del i s)"
  by (rule moved_ok [OF _ assms], rule check_moves acquire_moves listen_moves add_moves close_moves release_moves del_moves, rule assms, assumption?)+

lemma race_step_ok:
  assumes "race_step calm s s'" "race_ok R s" "0 \<notin> R" shows "race_ok R s'"
  using assms
proof (induction rule: race_step.induct)
  case (clean s now)
  then show ?case using cleanReservedPortsOnce_ok [of R "raPm s" now]
    unfolding race_ok_def holds_held listens_bound by (simp add: cleanReservedPortsOnce_def)
qed (simp_all add: steps_ok)

lemma race_start_ok: "race_ok (allowed_ports ranges) (race_start ranges)"
  using newManager_ok [of ranges]
  by (simp add: race_ok_def race_start_def holds_held listens_bound) (simp add: newManager_def)

lemma race_reachable_ok:
  "race_reachable calm ranges s \<Longrightarrow> 0 \<notin> allowed_ports ranges \<Longrightarrow> race_ok (allowed_ports ranges) s"
  by (induction rule: race_reachable.induct) (use race_start_ok race_step_ok in blast)+

section \<open>Calm runs\<close>

lemma move_holds:
  "holds_port (set_phase i t ph s) j p \<longleftrightarrow> (if j = i then held_port ph = Some p else holds_port s j p)"
  "holds_port (end_task i s) j p \<longleftrightarrow> j \<noteq> i \<and> holds_port s j p"
  by (auto simp: holds_iff set_phase_tasks)

lemma fields_holds [simp]:
  "holds_port (s\<lparr>raPm := pm\<rparr>) j p = holds_port s j p" "holds_port (s\<lparr>raBound := b\<rparr>) j p = holds_port s j p"
  "holds_port (s\<lparr>raPxys := x\<rparr>) j p = holds_port s j p"
  by (simp_all add: holds_iff)

text \<open>A step other than an acquisition leaves the held ports of all tasks or takes one from one task.\<close>

definition drops :: "RaceState \<Rightarrow> RaceState \<Rightarrow> bool" where
  "drops s s' \<longleftrightarrow> (\<forall>i p. holds_port s' i p \<longrightarrow> holds_port s i p) \<and>
     (\<forall>p. port_in_use s p \<longrightarrow> port_in_use s' p \<or> (\<exists>i. holds_port s i p \<and> \<not> holds_port s' i p))"

lemma drops_exact: "race_exact s \<Longrightarrow> drops s s' \<Longrightarrow> race_exact s'"
  unfolding race_exact_def drops_def by metis

lemma drops_steps:
  assumes "race_ok R s"
  shows "drops s (race_check i name port rs s)" "drops s (race_listen works i s)" "drops s (race_add i s)"
    "drops s (race_close i s)" "drops s (race_release now i s)" "drops s (race_del i s)"
proof -
  have u: "mget (pmUsed (Release now p (raPm s))) q = (if q = p then None else mget (pmUsed (raPm s)) q)" for p q
    by (rule Release_used [OF pm_okD(2) [OF race_okD(1) [OF assms]]])
  show "drops s (race_check i name port rs s)"
    by (auto simp: drops_def race_check_def holds_iff gomap_simps)
  show "drops s (race_listen works i s)" "drops s (race_add i s)" "drops s (race_close i s)" "drops s (race_del i s)"
    by (auto simp: drops_def race_listen_def race_add_def race_close_def race_del_def move_holds holds_iff [of s i]
      split: option.split race_phase.split)
  show "drops s (race_release now i s)"
    by (auto simp: drops_def race_release_def Let_def move_holds holds_iff [of s i] u split: option.split race_phase.split)
      (intro exI [of _ i], simp add: holds_iff)
qed

lemma acquire_exact:
  assumes ok: "race_ok R s" and z: "0 \<notin> R" and ex: "race_exact s" and q: "undisputed s i"
  shows "race_exact (race_acquire env i s)"
proof (cases "\<exists>t. mget (raTasks s) i = Some t \<and> rkPhase t = Checked")
  case False
  then have "race_acquire env i s = s" by (auto simp: race_acquire_def split: option.split race_phase.split)
  with ex show ?thesis by simp
next
  case True
  then obtain t where t: "mget (raTasks s) i = Some t" "rkPhase t = Checked" by blast
  obtain pm r where a: "acquire (race_env env s) (rkName t) (rkPort t) (rkRanges t) (raPm s) = (pm, r)" by fastforce
  note d = race_okD [OF ok]
  from acquire_takes [OF d(1) a] z consider (err) e where "pm = raPm s" "r = Inl e"
    | (got) p where "pm = markPortAcquiredLocked (rkName t) p (paNow (race_env env s)) (raPm s)" "p \<in> R" "r = Inr p"
      "paAvail (race_env env s) p" "mget (pmFree (raPm s)) p \<noteq> None \<or> reserved_port (raPm s) (rkName t) = Some p"
    by (cases r) auto
  then show ?thesis
  proof cases
    case err
    with t a have e: "race_acquire env i s = end_task i s" by (simp add: race_acquire_def)
    with ex show ?thesis unfolding race_exact_def by (simp add: move_holds) blast
  next
    case got
    with t a have e: "race_acquire env i s = set_phase i t (Acquired p) (s\<lparr>raPm := pm\<rparr>)" by (simp add: race_acquire_def)
    have free: "\<not> holds_port s j p" for j
    proof
      assume h: "holds_port s j p"
      then have "port_in_use s p" using ex unfolding race_exact_def by blast
      then have res: "reserved_port (raPm s) (rkName t) = Some p" using got(5) pm_okD(4) [OF d(1), of p] by argo
      from h obtain u where u: "mget (raTasks s) j = Some u" "held_port (rkPhase u) = Some p" by (auto simp: holds_iff)
      have "p \<notin> set (raBound s)" using got(4) by (simp add: race_env_def)
      then have "\<not> listens_on s j p" using d(7) by blast
      with u have "bound_port (rkPhase u) = None" by (cases "rkPhase u") (auto simp: listens_iff)
      with q t(1) res u mget_Some_mem [OF u(1)] show False by (auto simp: undisputed_def list_all_iff)
    qed
    have "mget (pmUsed pm) x \<noteq> None \<longleftrightarrow> x = p \<or> port_in_use s x" for x by (simp add: got(1))
    with ex free show ?thesis unfolding race_exact_def e by (auto simp: move_holds) blast
  qed
qed

lemma calm_exact:
  assumes "race_reachable True ranges s" "0 \<notin> allowed_ports ranges" shows "race_exact s"
  using assms
proof (induction rule: race_reachable.induct)
  case start
  show ?case by (simp add: race_exact_def race_start_def holds_held)
next
  case (step s s')
  have ok: "race_ok (allowed_ports ranges) s" by (rule race_reachable_ok [OF step(1,4)])
  have ex: "race_exact s" by (rule step(3) [OF step(4)])
  note dr = drops_exact [OF ex]
  from step(2) show ?case
  proof cases
    case (acquire i env)
    with acquire_exact [OF ok step(4) ex] show ?thesis by simp
  next
    case (clean now)
    have "drops s s'" by (simp add: clean drops_def cleanReservedPortsOnce_def)
    then show ?thesis by (rule dr)
  qed (simp_all add: dr drops_steps [OF ok])
qed

section \<open>The property\<close>

text \<open>C17. In every interleaving of the registrations and ends of tcp proxies without a group, where each critical section and
  each system call is a step of its own: a port that is in use is held by a proxy or a registration, whose next steps
  release it, so that no port is lost; whoever holds a port holds an allowed one; no two listen on the same port, and
  the manager has one proxy of a name, which is the one it was told. When moreover no acquisition takes the port reserved under
  its name while another goroutine holds that port without listening on it, the ports in use are exactly the ports that are held,
  each by one holder. Without that the books can call the port of a live proxy free.\<close>

theorem ports_follow_holders:
  assumes "race_reachable calm ranges s" "0 \<notin> allowed_ports ranges"
  shows "(\<forall>p. port_in_use s p \<longrightarrow> (\<exists>i. holds_port s i p)) \<and>
    (\<forall>i p. holds_port s i p \<longrightarrow> p \<in> allowed_ports ranges) \<and>
    (\<forall>i j p. listens_on s i p \<and> listens_on s j p \<longrightarrow> i = j) \<and>
    (\<forall>n i. mget (raPxys s) n = Some i \<longleftrightarrow> (\<exists>t. mget (raTasks s) i = Some t \<and> rkName t = n \<and> listed (rkPhase t))) \<and>
    (calm \<longrightarrow> (\<forall>p. port_in_use s p \<longleftrightarrow> (\<exists>i. holds_port s i p)) \<and>
       (\<forall>i j p. holds_port s i p \<and> holds_port s j p \<longrightarrow> i = j))"
proof -
  note d = race_okD [OF race_reachable_ok [OF assms]]
  have "race_exact s" if calm using calm_exact assms that by simp
  then have "calm \<longrightarrow> (\<forall>p. port_in_use s p \<longleftrightarrow> (\<exists>i. holds_port s i p)) \<and> (\<forall>i j p. holds_port s i p \<and> holds_port s j p \<longrightarrow> i = j)"
    using d(5) unfolding race_exact_def by blast
  with d(5,6,8,9) show ?thesis by blast
qed

section \<open>Concrete runs\<close>

definition race_demo_env :: PortEnv where
  "race_demo_env = \<lparr>paNow = 5, paAvail = \<lambda>_. True, paRank = nat\<rparr>"

definition one_port :: "FrpRange list" where
  "one_port = [\<lparr>frStart = 0, frEnd = 0, frSingle = 7000\<rparr>]"

definition race_registered :: "nat \<Rightarrow> RaceState \<Rightarrow> RaceState" where
  "race_registered i s = race_add i (race_listen True i (race_acquire race_demo_env i (race_check i ''web'' 0 [] s)))"

definition race_ended :: "nat \<Rightarrow> RaceState \<Rightarrow> RaceState" where
  "race_ended i s = race_del i (race_release 6 i (race_close i s))"

lemma race_registered_reachable:
  assumes "race_reachable False ranges s" shows "race_reachable False ranges (race_registered i s)"
  unfolding race_registered_def
  by (intro race_reachable.step [OF _ race_step.add] race_reachable.step [OF _ race_step.listen]
    race_reachable.step [OF _ race_step.acquire] race_reachable.step [OF assms race_step.check]) simp

lemma race_ended_reachable:
  assumes "race_reachable calm ranges s" shows "race_reachable calm ranges (race_ended i s)"
  unfolding race_ended_def
  by (intro race_reachable.step [OF _ race_step.del] race_reachable.step [OF _ race_step.release]
    race_reachable.step [OF assms race_step.close])

text \<open>
  A proxy had the port before, so it is reserved under the name. Two sessions register the name at once: both
  find it absent and both are given the reserved port; the one that listens first goes live, the other one fails and
  releases the port.
\<close>

definition race_clash :: RaceState where
  "race_clash = (let s0 = race_ended 0 (race_registered 0 (race_start one_port));
       s1 = race_check 2 ''web'' 0 [] (race_check 1 ''web'' 0 [] s0);
       s2 = race_acquire race_demo_env 2 (race_acquire race_demo_env 1 s1)
     in race_release 7 2 (race_listen True 2 (race_add 1 (race_listen True 1 s2))))"

lemma race_clash_reachable: "race_reachable False one_port race_clash"
  unfolding race_clash_def Let_def
  by (intro race_reachable.step [OF _ race_step.release] race_reachable.step [OF _ race_step.add]
    race_reachable.step [OF _ race_step.listen] race_reachable.step [OF _ race_step.acquire] race_reachable.step [OF _ race_step.check]
    race_ended_reachable race_registered_reachable race_reachable.start) simp_all

lemma live_port_free_in_books:
  "phase_of race_clash 1 = Some (Live 7000) \<and> mget (raPxys race_clash) ''web'' = Some 1 \<and>
   mget (pmUsed (raPm race_clash)) 7000 = None \<and> mget (pmFree (raPm race_clash)) 7000 = Some ()"
  by code_simp

definition race_demo :: RaceState where
  "race_demo = race_acquire race_demo_env 1 (race_check 1 ''db'' 7000 [] (race_start one_port))"

theorem ports_follow_holders_witness:
  "holds_port race_demo 1 7000 \<and> port_in_use race_demo 7000 \<and> list_all (\<lambda>(i, _). i = 1) (raTasks race_demo)"
proof -
  have r: "race_reachable True one_port race_demo"
    unfolding race_demo_def
    by (intro race_reachable.step [OF _ race_step.acquire] race_reachable.step [OF race_reachable.start race_step.check]) code_simp
  have h: "phase_of race_demo 1 = Some (Acquired 7000)" "list_all (\<lambda>(i, _). i = 1) (raTasks race_demo)" by code_simp+
  have "0 \<notin> allowed_ports one_port" by (simp add: allowed_ports_def one_port_def)
  moreover have "holds_port race_demo 1 7000" using h(1) by (simp add: holds_port_def)
  ultimately show ?thesis using ports_follow_holders [OF r] h(2) by blast
qed

end
