(* ===== verification/ControlSessions.thy ===== *)
theory ControlSessions
  imports ControlSafety
begin

text \<open>
  The life of a session: which passwords open one, that nothing the program does later
  touches it until its owner logs out or the same token is drawn again, and whom it stands
  for meanwhile.
\<close>

section \<open>The password of a record\<close>

text \<open>
  The record \<open>u\<close> has the password \<open>pw\<close>: a hash of it with the salt \<open>salt\<close>, or the text
  itself in a record of the time before the hashes. The store draws salts that hold no colon
  (\<open>randomSecret_no_colon\<close>).
\<close>

definition password_set :: "(string \<Rightarrow> string) \<Rightarrow> string \<Rightarrow> User \<Rightarrow> string \<Rightarrow> bool" where
  "password_set sha salt u pw \<longleftrightarrow> CHR '':'' \<notin> set salt \<and>
     (uPasswordHash u = hashPassword sha salt pw \<or> uPasswordHash u = [] \<and> uPassword u = pw \<and> pw \<noteq> [])"

text \<open>The texts that cannot be told from \<open>pw\<close>: itself, and those with the same iterated digest.\<close>

definition passes_for :: "(string \<Rightarrow> string) \<Rightarrow> string \<Rightarrow> User \<Rightarrow> string \<Rightarrow> string \<Rightarrow> bool" where
  "passes_for sha salt u pw q \<longleftrightarrow> q = pw \<or>
     uPasswordHash u \<noteq> [] \<and> passwordDigest sha q salt hash_iterations = passwordDigest sha pw salt hash_iterations"

lemma verify_password_set: "password_set sha salt u pw \<Longrightarrow> verifyPassword sha u q \<longleftrightarrow> passes_for sha salt u pw q"
  using verify_hash [of salt u sha pw q] hashPassword_not_Nil [of sha salt pw, symmetric]
  by (cases "uPasswordHash u = []") (auto simp: password_set_def passes_for_def verifyPassword_def)

lemma SetPassword_sets:
  assumes "SetPassword sha e name pw st = (st', Inr ())" "CHR '':'' \<notin> set (eSalt e)"
  shows "\<exists>u. mget (users_of st') name = Some u \<and> password_set sha (eSalt e) u pw"
proof -
  have "st' = fst (SetPassword sha e name pw st)" using assms(1) by simp
  with assms show ?thesis
    by (auto simp: SetPassword_def password_set_def frame_simps gomap_simps split: option.splits if_splits)
qed

lemma VerifyLogin_right:
  assumes "mget (users_of st) name = Some u" "uEnabled u" "password_set sha salt u pw" "passes_for sha salt u pw q"
  shows "\<exists>st' v. VerifyLogin sha e name q st = (st', Some v) \<and> mget (users_of st') name = Some v \<and>
    uEnabled v \<and> uName v = uName u \<and> public_part v = public_part u"
  using assms(1,2) verify_password_set [OF assms(3), of q] assms(4)
  by (auto simp: VerifyLogin_def Let_def frame_simps gomap_simps public_part_def)

lemma VerifyLogin_wrong:
  assumes "mget (users_of st) name = Some u" "password_set sha salt u pw" "\<not> passes_for sha salt u pw q"
  shows "VerifyLogin sha e name q st = (st, None)"
  using assms(1) verify_password_set [OF assms(2), of q] assms(3) by (simp add: VerifyLogin_def)

section \<open>Nothing but a login or a logout touches the sessions\<close>

lemma core_sessions: "same_core a a' \<Longrightarrow> apSessions a' = apSessions a"
  by (simp add: same_core_def)

lemma sessions_sync [simp]:
  "apSessions (fst (sync_users_then cfg env a rep)) = apSessions a"
  "apSessions (fst (sync_nps_then cfg env a rep)) = apSessions a"
  "apSessions (fst (exportConfigs cfg env u a)) = apSessions a"
  "apSessions (fst (syncEngineUsers cfg env a)) = apSessions a"
  by (rule core_sessions [OF sync_users_then_core], rule core_sessions [OF sync_nps_then_core],
      rule core_sessions [OF exportConfigs_core])
    (cases "syncEngineUsers cfg env a", auto dest: syncEngineUsers_core core_sessions)

lemma sessions_report_users [simp]: "apSessions (fst (report_users cfg env n nid ts a d)) = apSessions a"
proof (induction ts arbitrary: n a d)
  case (Cons t ts)
  obtain a1 d1 where r: "report_user cfg (aeStore env n) (aeNow env) nid t a = (a1, d1)" by fastforce
  then have "apSessions a1 = apSessions a"
    by (auto simp: report_user_def Let_def split: option.splits prod.splits)
  then show ?case using Cons.IH by (simp add: r)
qed simp

lemma sessions_report [simp]: "apSessions (fst (fst (reportTraffic cfg env auth q a))) = apSessions a"
proof -
  have "apSessions a1 = apSessions a" if "apply_report cfg env r a = (a1, d)" for r a1 d
    using sessions_report_users [of cfg env 0 "trNodeID r" "trUsers r"
        "a\<lparr>apTunnelTraffic := fold (report_tunnel (aeNow env) (trNodeID r)) (trTunnels r) (apTunnelTraffic a)\<rparr>" False] that
    by (simp only: apply_report_def fst_conv) simp
  then show ?thesis by (auto simp: reportTraffic_def Let_def split: option.split prod.split)
qed

lemma sessions_push_nodes [simp]: "apSessions (push_nodes cfg agent env n nodes a) = apSessions a"
proof (induction nodes arbitrary: n a)
  case (Cons node nodes)
  have "apSessions (push_node cfg agent env n node a) = apSessions a"
    by (auto simp: push_node_def pushRemoteNode_def setRemoteClientStatuses_def Let_def split: prod.splits sum.splits)
  with Cons show ?case by simp
qed simp

lemma sessions_expiry [simp]: "apSessions (enforceUserExpiry cfg env a) = apSessions a"
  by (auto simp: enforceUserExpiry_def Let_def split: prod.split)

lemma sessions_handlers [simp]:
  "apSessions (fst (changePassword cfg env u req a)) = apSessions a"
  "apSessions (fst (upsertUser cfg env u ureq a)) = apSessions a"
  "apSessions (fst (deleteUser cfg env u path a)) = apSessions a"
  "apSessions (fst (userAction env u path a)) = apSessions a"
  "apSessions (fst (upsertNode env u nreq a)) = apSessions a"
  "apSessions (fst (deleteNode env u path a)) = apSessions a"
  "apSessions (fst (createTunnel cfg env u body a)) = apSessions a"
  "apSessions (fst (updateTunnel cfg env u path body a)) = apSessions a"
  "apSessions (fst (deleteTunnel cfg env u path a)) = apSessions a"
  by (auto simp: changePassword_def upsertUser_def deleteUser_def userAction_def upsertNode_def deleteNode_def
      createTunnel_def updateTunnel_def deleteTunnel_def need_admin_def Let_def
      split: option.split prod.split sum.split bool.split)

lemma sessions_syncFRPUsers [simp]: "apSessions (fst (syncFRPUsers cfg env u a)) = apSessions a"
  by (auto simp: syncFRPUsers_def need_admin_def dest: syncEngineUsers_core core_sessions split: prod.split sum.split)

lemma sessions_user:
  "route (rqMethod r) (rqPath r) \<noteq> Logout \<Longrightarrow> apSessions (fst (serve_user cfg env u r a)) = apSessions a"
  unfolding serve_user_def
  by (cases "route (rqMethod r) (rqPath r)")
    (simp_all add: me_def listUsers_def listNodes_def listTunnels_def diagnostics_def listClients_def
      clientBootstrap_def listAvailability_def runtimeInfo_def listLogs_def clearLogs_def exportFRPUsers_def
      userConfig_def need_admin_def Let_def split: option.split sum.split)

lemma sessions_open:
  "route (rqMethod r) (rqPath r) \<noteq> Login \<Longrightarrow> apSessions (fst (serve_open cfg env r a)) = apSessions a"
  unfolding serve_open_def
  by (cases "route (rqMethod r) (rqPath r)") (simp_all add: db.open_handlers_same)

lemma login_sessions:
  "aeToken env \<noteq> token \<Longrightarrow> mget (apSessions (fst (login cfg env req a))) token = mget (apSessions a) token"
  by (auto simp: login_def session_create_def gomap_simps split: option.split prod.split)

lemma serve_session:
  assumes "route (rqMethod r) (rqPath r) = Logout \<Longrightarrow> rqCookie r \<noteq> Some token" "aeToken env \<noteq> token"
  shows "mget (apSessions (fst (serve cfg env r a))) token = mget (apSessions a) token"
proof (cases "open_path (rqPath r)")
  case True
  then show ?thesis
    using login_sessions [OF assms(2)] sessions_open [of r cfg env a]
    by (cases "route (rqMethod r) (rqPath r) = Login") (simp_all add: serve_def serve_open_def)
next
  case False
  show ?thesis
  proof (cases "route (rqMethod r) (rqPath r) = Logout")
    case True
    with assms(1) False show ?thesis
      by (auto simp: serve_def serve_user_def logout_def session_delete_def gomap_simps split: option.split)
  next
    case n: False
    with False show ?thesis by (simp add: serve_def sessions_user split: option.split)
  qed
qed

section \<open>A session from login to logout\<close>

text \<open>
  The runs that leave a session alone: anything may happen but a logout with its cookie, and
  no later login draws its token.
\<close>

inductive session_run :: "ApiConfig \<Rightarrow> string \<Rightarrow> Api \<Rightarrow> Api \<Rightarrow> bool" for cfg token a where
  start: "session_run cfg token a a"
| request: "session_run cfg token a b \<Longrightarrow>
    (route (rqMethod r) (rqPath r) = Logout \<Longrightarrow> rqCookie r \<noteq> Some token) \<Longrightarrow> aeToken env \<noteq> token \<Longrightarrow>
    session_run cfg token a (fst (serve cfg env r b))"
| push: "session_run cfg token a b \<Longrightarrow> session_run cfg token a (pushRemoteNodes cfg agent env b)"
| resync: "session_run cfg token a b \<Longrightarrow> session_run cfg token a (fst (syncEngineUsers cfg env b))"
| expiry: "session_run cfg token a b \<Longrightarrow> session_run cfg token a (enforceUserExpiry cfg env b)"
| log_chunk: "session_run cfg token a b \<Longrightarrow> session_run cfg token a (b\<lparr>apLogs := fst (Write clock p (apLogs b))\<rparr>)"

lemma run_keeps_session: "session_run cfg token a b \<Longrightarrow> mget (apSessions b) token = mget (apSessions a) token"
  by (induction rule: session_run.induct) (simp_all add: serve_session pushRemoteNodes_def)

text \<open>The enabled user of a name, from the database as it is now.\<close>

definition enabled_user :: "Api \<Rightarrow> string \<Rightarrow> User option" where
  "enabled_user a name = (case mget (users_of (apStore a)) name of
     Some v \<Rightarrow> if uEnabled v then Some v else None | None \<Rightarrow> None)"

lemma session_stands_for:
  "token \<noteq> [] \<Longrightarrow> mget (apSessions a) token = Some name \<Longrightarrow> currentUser a (Some token) = enabled_user a name"
  by (simp add: currentUser_def session_get_def GetUser_def enabled_user_def split: option.split)

lemma logout_route_closed: "route m p = Logout \<Longrightarrow> \<not> open_path p"
  using open_routes [of p m] by auto

lemma after_logout:
  assumes "route (rqMethod r) (rqPath r) = Logout" "rqCookie r = Some token"
  shows "currentUser (fst (serve cfg env r a)) (Some token) = None"
  using logout_route_closed [OF assms(1)] assms
  by (auto simp: serve_def serve_user_def logout_def currentUser_def session_get_def session_delete_def gomap_simps
      split: option.split)

lemma login_request:
  assumes "rqMethod r = ''POST''" "rqPath r = ''/api/login''"
  shows "serve cfg env r a = login cfg env (rqLogin r) a"
proof -
  have "open_path ''/api/login''" "route ''POST'' ''/api/login'' = Login" by code_simp+
  then show ?thesis by (simp add: serve_def serve_open_def assms)
qed

text \<open>C36. The password of an enabled user, and nothing that cannot be told from it, opens a session: the login answers
  with the token drawn and the user's public record, and any other text is answered with status 401 and changes
  nothing. From then on, whatever requests, pushes, synchronisations and expiries follow, as long as nobody
  logs out with the token and no other login draws it, the token stands for exactly the enabled user of that name
  in the database: the user himself with every later change of his record, nobody while he is disabled
  or deleted. A logout with the token ends it.\<close>

theorem login_session:
  assumes "store_ok (apStore a)" "mget (users_of (apStore a)) name = Some u" "uEnabled u"
    and "password_set (acSha cfg) salt u pw" "token = aeToken env" "token \<noteq> []"
    and "rqMethod r = ''POST''" "rqPath r = ''/api/login''" "rqLogin r = Some (name, q)"
  shows "if passes_for (acSha cfg) salt u pw q then
      (\<exists>a' v. serve cfg env r a = (a', LoginReply token (Public v)) \<and> public_part v = public_part u \<and>
         currentUser a' (Some token) = Some v \<and>
         (\<forall>b. session_run cfg token a' b \<longrightarrow> currentUser b (Some token) = enabled_user b name) \<and>
         (\<forall>b env' r'. route (rqMethod r') (rqPath r') = Logout \<and> rqCookie r' = Some token \<longrightarrow>
            currentUser (fst (serve cfg env' r' b)) (Some token) = None))
    else serve cfg env r a = (a, ErrorReply 401 (Msg ''invalid username or password''))"
proof (cases "passes_for (acSha cfg) salt u pw q")
  case False
  from VerifyLogin_wrong [OF assms(2,4) this] show ?thesis using False
    by (simp add: login_request [OF assms(7,8)] assms(9) login_def)
next
  case True
  have k: "keyed uName (users_of (apStore a))" using assms(1) by (simp add: store_ok_def db_ok_iff)
  from VerifyLogin_right [OF assms(2,3,4) True, of "aeStore env 0"] obtain st v
    where v: "VerifyLogin (acSha cfg) (aeStore env 0) name q (apStore a) = (st, Some v)"
      "mget (users_of st) name = Some v" "uEnabled v" "uName v = uName u" "public_part v = public_part u" by blast
  let ?a = "a\<lparr>apStore := st, apSessions := session_create token (uName v) (apSessions a)\<rparr>"
  have n: "uName v = name" using keyed_mget [OF k assms(2)] v(4) by simp
  have s: "mget (apSessions ?a) token = Some name" by (simp add: session_create_def gomap_simps n)
  have "currentUser ?a (Some token) = Some v"
    using session_stands_for [OF assms(6) s] v(2,3) by (simp add: enabled_user_def)
  moreover have "currentUser b (Some token) = enabled_user b name" if "session_run cfg token ?a b" for b
    using session_stands_for [OF assms(6)] run_keeps_session [OF that] s by simp
  moreover have "serve cfg env r a = (?a, LoginReply token (Public v))"
    by (simp add: login_request [OF assms(7,8)] assms(5,9) login_def v(1))
  ultimately show ?thesis using True v(5) after_logout by auto
qed

definition demo_hashed_user :: User where
  "demo_hashed_user = demo_user\<lparr>uPassword := [], uPasswordHash := hashPassword rev ''5a17'' ''pw''\<rparr>"

definition demo_login_api :: Api where
  "demo_login_api = new_api (set_users (mput ''alice'' demo_hashed_user) demo_boot)"

definition demo_login :: "string \<Rightarrow> Request" where
  "demo_login q = demo_request\<lparr>rqMethod := ''POST'', rqPath := ''/api/login'', rqCookie := None, rqLogin := Some (''alice'', q)\<rparr>"

theorem login_session_witness:
  "\<exists>a' v. serve demo_cfg demo_aenv (demo_login ''pw'') demo_login_api = (a', LoginReply ''tok'' (Public v)) \<and>
     public_part v = public_part demo_user \<and>
     currentUser (enforceUserExpiry demo_cfg demo_aenv (fst (serve demo_cfg (demo_aenv\<lparr>aeToken := ''other''\<rparr>) (demo_login ''no'') a')))
       (Some ''tok'') =
     enabled_user (enforceUserExpiry demo_cfg demo_aenv (fst (serve demo_cfg (demo_aenv\<lparr>aeToken := ''other''\<rparr>) (demo_login ''no'') a'))) ''alice''"
proof -
  have ok: "store_ok (apStore demo_login_api)"
    using store_ok_put_user [OF reachable_store_ok [OF demo_boot_reachable], of demo_hashed_user "''alice''"]
    by (simp add: demo_login_api_def new_api_def demo_hashed_user_def demo_user_def)
  have row: "mget (users_of (apStore demo_login_api)) ''alice'' = Some demo_hashed_user"
    by (simp add: demo_login_api_def new_api_def frame_simps gomap_simps)
  have en: "uEnabled demo_hashed_user" by (simp add: demo_hashed_user_def demo_user_def)
  have pw: "password_set (acSha demo_cfg) ''5a17'' demo_hashed_user ''pw''"
    by (simp add: password_set_def demo_cfg_def demo_hashed_user_def)
  have r: "rqMethod (demo_login ''pw'') = ''POST''" "rqPath (demo_login ''pw'') = ''/api/login''"
    "rqLogin (demo_login ''pw'') = Some (''alice'', ''pw'')" by (simp_all add: demo_login_def)
  have t: "''tok'' = aeToken demo_aenv" "''tok'' \<noteq> []" by (simp_all add: demo_aenv_def)
  have p: "passes_for (acSha demo_cfg) ''5a17'' demo_hashed_user ''pw'' ''pw''" by (simp add: passes_for_def)
  have pub: "public_part demo_hashed_user = public_part demo_user"
    by (simp add: public_part_def demo_hashed_user_def)
  from login_session [OF ok row en pw t r] p pub obtain a' v where
    a': "serve demo_cfg demo_aenv (demo_login ''pw'') demo_login_api = (a', LoginReply ''tok'' (Public v))"
    "public_part v = public_part demo_user"
    "\<And>b. session_run demo_cfg ''tok'' a' b \<Longrightarrow> currentUser b (Some ''tok'') = enabled_user b ''alice''" by auto
  let ?e = "demo_aenv\<lparr>aeToken := ''other''\<rparr>"
  have "session_run demo_cfg ''tok'' a' (fst (serve demo_cfg ?e (demo_login ''no'') a'))"
    by (rule session_run.request [OF session_run.start]) (simp_all add: demo_login_def)
  from a'(3) [OF session_run.expiry [OF this, of demo_aenv]] a'(1,2) show ?thesis by blast
qed

end
