(* ===== verification/Spec2Isabelle.thy ===== *)
theory Spec2Isabelle
  imports StoreJsonProps Adapters NpsKeys LogBuffer EngineManager FrpUsers ControlTraffic AgentMirror ClientProps FrpDemo
    NpsBridgeProps NpsComposed NpsMuxProps NpsFile FrpWork FrpConfigProps
    FrpRaceProps ControlSessions
begin

text \<open>
  A model of cosmo-nps: a control program that keeps users, nodes and tunnels in a JSON
  database, hands them to frp and nps servers, and serves agents, clients and a web panel.

  The parts of the program and the theories that model them.

  \<^item> \<^verbatim>\<open>Prelude\<close>: Go maps as association lists with one entry per key, results that are an
    error or a value, 64-bit arithmetic written out (\<open>wrap64\<close>), the interfaces \<open>go_map\<close>,
    \<open>keyed_table\<close> and \<open>claim_table\<close> with their interpretation. \<^verbatim>\<open>GoStrings\<close>, \<^verbatim>\<open>GoPath\<close>: what the
    source uses of \<^verbatim>\<open>strings\<close>, \<^verbatim>\<open>strconv\<close>, \<^verbatim>\<open>encoding/hex\<close>, \<^verbatim>\<open>regexp\<close> and \<^verbatim>\<open>path/filepath\<close>.
  \<^item> \<^verbatim>\<open>CoreTypes\<close>, \<^verbatim>\<open>CoreTypesFacts\<close>: \<^verbatim>\<open>internal/core/types.go\<close>. Port ranges and domains with their
    parsers and printers; round trips, bounds and the exact language of valid domains.
  \<^item> \<^verbatim>\<open>Passwords\<close>: the salted, iterated digests of \<^verbatim>\<open>internal/core/store.go\<close>; SHA-256 is the
    parameter \<open>sha\<close>, of which nothing is assumed.
  \<^item> \<^verbatim>\<open>Store\<close>: every method of the control database (\<^verbatim>\<open>internal/core/store.go\<close>). \<open>Store\<close> is the
    database in memory with the file; an \<open>Env\<close> holds what one call asks of the outside (time,
    random strings, the outcome of the write). \<^verbatim>\<open>StoreInv\<close> has the invariant \<open>store_ok\<close> (rows under
    their keys, tunnels with owner and node, exclusive claims of ports and domains) and the
    meaning of \<open>validateTunnelLocked\<close>; \<^verbatim>\<open>StoreSteps\<close> that starting and every operation keep it, and the
    step relation with its reachable states; \<^verbatim>\<open>StoreProps\<close> exclusive claims, referential integrity, the refinement of
    an abstract registry of claims, limits and errors; \<^verbatim>\<open>StoreUsers\<close> logins, migration, expiry
    and the last administrator. \<^verbatim>\<open>StoreJson\<close>: the document in the file, each struct of \<^verbatim>\<open>types.go\<close> as the list of its fields
    with their tags, and how the Go library writes and reads a struct, a list and a map by them; \<^verbatim>\<open>StoreJsonProps\<close>: what is
    written of a running store is what the next start reads.
  \<^item> \<^verbatim>\<open>Adapters\<close>: \<^verbatim>\<open>internal/core/adapters.go\<close>, the client configurations and exports.
  \<^item> \<^verbatim>\<open>NpsDb\<close>: the tables of nps (\<^verbatim>\<open>upstream/NPS/lib/file\<close>) and the operations of its server and bridge
    that the control program calls; \<^verbatim>\<open>Integrated\<close>: \<^verbatim>\<open>internal/integrated/engines.go\<close>,
    \<open>SyncNPSState\<close> in its phases, client states and traffic. \<^verbatim>\<open>SyncClients\<close>, \<^verbatim>\<open>SyncTasks\<close>, \<^verbatim>\<open>SyncSweep\<close> follow
    one phase each and \<^verbatim>\<open>SyncProps\<close> composes them: after a synchronisation nps serves
    exactly what the database says and what others put there is untouched. \<^verbatim>\<open>NpsLimits\<close>: port
    pools, rates and traffic totals as nps reads them; \<^verbatim>\<open>NpsKeys\<close>: the loop that draws
    verification keys returns.
  \<^item> The nps server (\<^verbatim>\<open>upstream/NPS\<close>) at work on those tables. \<^verbatim>\<open>NpsServe\<close>: which host a request goes to, the limits
    of traffic and connections, the targets of a tunnel and the health reports about them. \<^verbatim>\<open>NpsBridge\<close>: the connections of the
    clients, the configuration connection over which a client adds tasks and hosts (\<^verbatim>\<open>bridge/bridge.go\<close>), and the clean-up after a
    client that is dropped; \<^verbatim>\<open>NpsBridgeProps\<close> says what such a client can change, which clients are given up, and where the bridge goes wrong.
    \<^verbatim>\<open>NpsQueue\<close>: the queues of the multiplexer (\<^verbatim>\<open>lib/nps_mux/queue.go\<close>), rings of words in a chain, against the locale
    \<open>fifo_queue\<close>; \<^verbatim>\<open>NpsMux\<close>: a connection with its windows and the packets on the wire; \<^verbatim>\<open>NpsMuxProps\<close>: the windows account
    for every byte, never block each other, and what is packed is unpacked. \<^verbatim>\<open>NpsFile\<close>: the files of the tables and the start from them, and that a restart keeps
    what a synchronisation has set up. \<^verbatim>\<open>NpsComposed\<close> puts the control program
    and the nps server together: where the requests for the domain of a tunnel go, and what becomes of a limit.
  \<^item> \<^verbatim>\<open>FrpUsers\<close>: the user store the repository adds to frp (\<^verbatim>\<open>upstream/frp/server/userstore\<close>) and \<open>SyncFRPState\<close>.
  \<^item> \<^verbatim>\<open>EngineManager\<close>: \<^verbatim>\<open>internal/engine/manager.go\<close>, a step relation of starts, stops and
    processes that end. \<^verbatim>\<open>LogBuffer\<close>: \<^verbatim>\<open>cmd/tunnel-control/log_buffer.go\<close>.
  \<^item> \<^verbatim>\<open>ControlViews\<close>, \<^verbatim>\<open>ControlProbes\<close>, \<^verbatim>\<open>ControlState\<close>, \<^verbatim>\<open>ControlHandlers\<close>, \<^verbatim>\<open>ControlRoutes\<close>:
    \<^verbatim>\<open>cmd/tunnel-control/main.go\<close>. The state \<open>Api\<close> (store, sessions, states of remote clients, traffic
    counters, logs, files, engines), every handler, the table of routes and the middleware
    as one function \<open>serve\<close>, and the step relation \<open>api_step\<close>. \<^verbatim>\<open>ControlInv\<close> states the contract of the
    store as the locale \<open>store_contract\<close> and carries it through every handler; \<^verbatim>\<open>ControlSafety\<close> uses it for
    well-formedness and for what an unauthenticated or ordinary user can change or learn; \<^verbatim>\<open>ControlSessions\<close> says which passwords
    open a session and whom it stands for until its logout; \<^verbatim>\<open>ControlData\<close> the bundles
    of agents and the bootstrap of clients; \<^verbatim>\<open>ControlTraffic\<close> the charging of users.
  \<^item> \<^verbatim>\<open>AgentConf\<close>, \<^verbatim>\<open>AgentNode\<close>: \<^verbatim>\<open>cmd/tunnel-agent/main.go\<close>, the node agent: its \<^verbatim>\<open>nps.conf\<close>, the bundles it
    pulls or is pushed, the traffic it reports. \<^verbatim>\<open>AgentMirror\<close> composes it with the control program: after
    a pull or a push the nps of the node serves what the database says of that node.
  \<^item> \<^verbatim>\<open>ClientLauncher\<close>: \<^verbatim>\<open>cmd/tunnel-client\<close>, the client with its launcher as a step relation over the
    goroutines of a run; \<^verbatim>\<open>ClientProps\<close>: one client at a time, and every node of the bootstrap gets one.
  \<^item> The frp server (\<^verbatim>\<open>upstream/frp/server\<close>), which the program embeds and extends with users. \<^verbatim>\<open>FrpPorts\<close>: the
    port manager; \<^verbatim>\<open>FrpVhost\<close>: the table of routes; \<^verbatim>\<open>FrpRegistry\<close>: which client is online; \<^verbatim>\<open>FrpProxies\<close>: running
    and closing tcp, udp, http and https proxies with their groups; \<^verbatim>\<open>FrpControl\<close>: the control
    objects, their logins and the step relation \<open>service_step\<close>. \<^verbatim>\<open>FrpPortsInv\<close> has the books of one port manager,
    \<^verbatim>\<open>FrpServerInv\<close> the invariant that ties ports, groups and proxies together, \<^verbatim>\<open>FrpService\<close> the one that ties
    them to the sessions; \<^verbatim>\<open>FrpSessions\<close> reads from it who holds a port and what the end of a
    session gives back, \<^verbatim>\<open>FrpPools\<close> what the pools of a user allow, \<^verbatim>\<open>FrpQuota\<close> how many ports a session can hold
    and where the server goes wrong; \<^verbatim>\<open>FrpDemo\<close> is a run of it. \<^verbatim>\<open>FrpRace\<close> takes the registration and the end of a tcp proxy
    without a group apart into the critical sections and system calls of its goroutine, and \<^verbatim>\<open>FrpRaceProps\<close> says what holds of the
    ports in every interleaving of them. \<^verbatim>\<open>FrpWork\<close>: the pool of work connections of a
    session, the choice of one for a user, and the heartbeat. \<^verbatim>\<open>FrpConfig\<close>: the configurations of the eight
    kinds of proxies (\<^verbatim>\<open>upstream/frp/pkg/config\<close>), the message that carries one to the server, and the checks of both
    sides; the conversion of a decimal text to bytes and the Kubernetes check of a name are parameters. \<^verbatim>\<open>FrpConfigProps\<close>: the
    server gets what the client wrote, and which domains the check keeps apart; \<open>conf_of\<close> links a configuration
    to the \<open>ProxyConf\<close> that \<^verbatim>\<open>FrpControl.RegisterProxy\<close> takes.

  Conventions. Times are integers (nanoseconds, 0 the zero time). A Go map is ranged over in the
  order of the list, so a theorem about every list covers every order. JSON decoding
  is the identity on values: a handler gets the decoded body or \<open>None\<close>. \<^verbatim>\<open>strings.ToLower\<close> and
  \<^verbatim>\<open>TrimSpace\<close> act on ASCII. The mutex of the store makes its operations atomic; a handler is taken as
  one step with all its calls. Interleavings are sequences of steps. A write of a file that fails leaves
  the file. The rounding of a speed in \<^verbatim>\<open>float64\<close> is rounding down. The objects of nps are
  identified by their ids.

  The bridge and the multiplexer of nps take one step per handler or per operation of a window or queue; the loops that retry a
  compare-and-swap are left out, the words they swap are not. The new size of a receive window is measured with clocks and
  computed in floating point: it is a parameter, of which the theorems ask that it is positive and has an upper bound
  below \<open>2 ^ 31\<close>. The digest of keys (MD5) is a parameter of which nothing is assumed.

  In the frp server a handler is one step, a login two: before and after the wait for the control it replaces. The source has no
  lock around a whole registration, so what the theorems of \<^verbatim>\<open>FrpSessions\<close>, \<^verbatim>\<open>FrpPools\<close> and \<^verbatim>\<open>FrpQuota\<close> say is of operations that do
  not overlap; \<^verbatim>\<open>FrpRace\<close> has the overlapping ones. A trial listen in \<^verbatim>\<open>FrpPortsInv\<close> may succeed on a port that is in use. In
  \<^verbatim>\<open>NpsServe\<close> a connection is tested against the limit and counted in two steps.
  What the operating system does (a trial listen, a listen, the order in which a map is
  ranged over) is an argument of the operation. Of the order of the free ports only the first five candidates matter.
  The ranges of the server are assumed not to contain port 0, which the code takes for none. A udp proxy is closed twice
  by the source, the second time at the end of a goroutine: that is the step \<open>late\<close>.

  Bounds and termination. All recursion is structural or has a measure; the one loop of the source that may not end
  (drawing fresh keys) reads a list of draws, and \<open>NewClient_returns\<close> gives the length that is enough. The steps of a
  connection of the multiplexer without new writes are bounded by \<open>link_work\<close>.

  Not modelled: the web pages and help texts, flags, HTTP, the text of JSON and of times, log lines the program prints itself,
  tickers, the tray, service and autostart of the client, starting the frp and nps servers, and the rest of the two upstream
  projects. Of nps: its client, its web panel, the format of its files, the first bytes of a connection, TLS and kcp, the socks5,
  udp, secret and p2p proxies, and of the multiplexer timeouts, pings, the measuring of bandwidth and the opening of
  connections. Of frp: the wire protocol, transports, the decoding of configuration files, visitors, tcp multiplexing, nat holes, plugins and the
  client. They move bytes, and the program embeds them unchanged.
\<close>

end
